(* ===== verification/Kernel_Prelude.thy ===== *)
theory Kernel_Prelude
  imports Main "HOL-Library.Word"
begin

text \<open>
  Shared vocabulary of the kernel development: machine words at the width of the x86_64 build,
  panics as values, the error numbers the kernel returns, and the generic word, list and map lemmas
  the component theories use.  Every Rust panic (\<open>assert!\<close>, \<open>debug_assert!\<close>,
  \<open>expect\<close>, \<open>unwrap\<close>, an index out of range) is the left injection of
  \<open>'a exec\<close>; an operation that cannot panic has a plain result type.
\<close>

unbundle bit_operations_syntax

section \<open>Machine words, panics and errors\<close>

type_synonym usize = "64 word"

datatype panic = Panic string

type_synonym 'a exec = "panic + 'a"

text \<open>The error numbers of the system call interface that the modelled code returns.\<close>

datatype errno =
  EACCES | EAGAIN | EBADF | EBUSY | EEXIST | EFAULT | EINTR | EINVAL | EIO | ENODEV | ENOENT
  | ENOMEM | ENOSYS | EOPNOTSUPP | EPERM | EPIPE | ESRCH | ESTALE | EWOULDBLOCK | EMFILE | ENOTDIR
  | EISDIR | ECHILD | EDEADLK | ETIMEDOUT | EOVERFLOW | EXDEV | ESPIPE | ENAMETOOLONG | ENOTTY
  | EBADFD | ESKMSG | Errno nat

type_synonym 'a result = "errno + 'a"

section \<open>Collections of facts\<close>

named_theorems kconst \<open>definitions of the kernel's numeric constants\<close>
named_theorems exec_simps \<open>evaluation of the panic combinators\<close>

section \<open>Panic combinators\<close>

definition bindE :: "'a exec \<Rightarrow> ('a \<Rightarrow> 'b exec) \<Rightarrow> 'b exec" where
  "bindE m f = (case m of Inl p \<Rightarrow> Inl p | Inr x \<Rightarrow> f x)"

definition assertE :: "bool \<Rightarrow> string \<Rightarrow> unit exec" where
  "assertE b msg = (if b then Inr () else Inl (Panic msg))"

definition expectE :: "'a option \<Rightarrow> string \<Rightarrow> 'a exec" where
  "expectE x msg = (case x of None \<Rightarrow> Inl (Panic msg) | Some y \<Rightarrow> Inr y)"

text \<open>Indexing a slice panics out of range.\<close>

definition indexE :: "'a list \<Rightarrow> nat \<Rightarrow> 'a exec" where
  "indexE xs i = (if i < length xs then Inr (xs ! i) else Inl (Panic ''index out of bounds''))"

definition panics :: "'a exec \<Rightarrow> bool" where
  "panics m = (case m of Inl _ \<Rightarrow> True | Inr _ \<Rightarrow> False)"

lemma bindE_simps [simp, exec_simps]:
  "bindE (Inl p) f = Inl p"
  "bindE (Inr x) f = f x"
  by (simp_all add: bindE_def)

lemma assertE_simps [simp, exec_simps]:
  "assertE True msg = Inr ()"
  "assertE False msg = Inl (Panic msg)"
  by (simp_all add: assertE_def)

lemma expectE_simps [simp, exec_simps]:
  "expectE (Some x) msg = Inr x"
  "expectE None msg = Inl (Panic msg)"
  by (simp_all add: expectE_def)

lemma panics_simps [simp, exec_simps]: "panics (Inl p)" "\<not> panics (Inr x)"
  by (simp_all add: panics_def)

lemma bindE_Inr_iff: "bindE m f = Inr y \<longleftrightarrow> (\<exists>x. m = Inr x \<and> f x = Inr y)"
  by (cases m) auto

lemma assertE_Inr_iff [simp]: "assertE b msg = Inr u \<longleftrightarrow> b"
  by (auto simp: assertE_def)

lemma expectE_Inr_iff [simp]: "expectE x msg = Inr y \<longleftrightarrow> x = Some y"
  by (cases x) auto

lemma indexE_Inr_iff: "indexE xs i = Inr y \<longleftrightarrow> i < length xs \<and> y = xs ! i"
  by (auto simp: indexE_def)

lemma indexE_ok [simp]: "i < length xs \<Longrightarrow> indexE xs i = Inr (xs ! i)"
  by (simp add: indexE_def)

lemma bindE_assoc: "bindE (bindE m f) g = bindE m (\<lambda>x. bindE (f x) g)"
  by (cases m) auto

section \<open>Checked and saturating arithmetic of \<open>usize\<close>\<close>

definition checked_add :: "usize \<Rightarrow> usize \<Rightarrow> usize option" where
  "checked_add a b = (if unat a + unat b < 2 ^ 64 then Some (a + b) else None)"

definition checked_sub :: "usize \<Rightarrow> usize \<Rightarrow> usize option" where
  "checked_sub a b = (if b \<le> a then Some (a - b) else None)"

definition saturating_add :: "usize \<Rightarrow> usize \<Rightarrow> usize" where
  "saturating_add a b = (if unat a + unat b < 2 ^ 64 then a + b else - 1)"

definition saturating_sub :: "usize \<Rightarrow> usize \<Rightarrow> usize" where
  "saturating_sub a b = (if b \<le> a then a - b else 0)"

lemma checked_add_Some: "checked_add a b = Some c \<Longrightarrow> unat c = unat a + unat b"
  by (auto simp: checked_add_def unat_word_ariths split: if_splits)

lemma checked_sub_Some: "checked_sub a b = Some c \<Longrightarrow> unat c = unat a - unat b"
  by (auto simp: checked_sub_def unat_sub split: if_splits)

lemma unat_saturating_add: "unat (saturating_add a b) = min (unat a + unat b) (2 ^ 64 - 1)"
proof (cases "unat a + unat b < 2 ^ 64")
  case True
  then show ?thesis by (simp add: saturating_add_def unat_word_ariths)
next
  case False
  have "unat (- 1 :: usize) = 2 ^ 64 - 1" by (simp add: unsigned_minus_1_eq_mask mask_eq_exp_minus_1)
  with False show ?thesis by (simp add: saturating_add_def)
qed

lemma unat_saturating_sub: "unat (saturating_sub a b) = unat a - unat b"
  by (auto simp: saturating_sub_def unat_sub word_le_nat_alt)

end
