(* ===== verification/Kernel_Monad.thy ===== *)
theory Kernel_Monad
  imports Kernel_Prelude
begin

text \<open>
  Programs over a kernel state.  A program either panics, and then there is no state to speak of, or
  ends in a state with a result: \<open>Inl\<close> for a Rust \<open>Err\<close> that the question mark operator passes on
  and \<open>Inr\<close> for a value.  What was changed before an \<open>Err\<close> stays changed.
\<close>

section \<open>Programs\<close>

type_synonym ('s, 'e, 'a) prog = "'s \<Rightarrow> ('s \<times> ('e + 'a)) exec"

definition retM :: "'a \<Rightarrow> ('s, 'e, 'a) prog" where
  "retM x s = Inr (s, Inr x)"

definition errM :: "'e \<Rightarrow> ('s, 'e, 'a) prog" where
  "errM e s = Inr (s, Inl e)"

definition bindM :: "('s, 'e, 'a) prog \<Rightarrow> ('a \<Rightarrow> ('s, 'e, 'b) prog) \<Rightarrow> ('s, 'e, 'b) prog" where
  "bindM m f s = bindE (m s) (\<lambda>(s, r). case r of Inl e \<Rightarrow> Inr (s, Inl e) | Inr x \<Rightarrow> f x s)"

text \<open>A panic, a computation that may panic, reading and changing the state.\<close>

definition liftE :: "'a exec \<Rightarrow> ('s, 'e, 'a) prog" where
  "liftE x s = bindE x (\<lambda>y. Inr (s, Inr y))"

definition getM :: "('s \<Rightarrow> 'a) \<Rightarrow> ('s, 'e, 'a) prog" where
  "getM f s = Inr (s, Inr (f s))"

definition modM :: "('s \<Rightarrow> 's) \<Rightarrow> ('s, 'e, unit) prog" where
  "modM f s = Inr (f s, Inr ())"

definition assertM :: "bool \<Rightarrow> string \<Rightarrow> ('s, 'e, unit) prog" where
  "assertM b msg = liftE (assertE b msg)"

definition expectM :: "'a option \<Rightarrow> string \<Rightarrow> ('s, 'e, 'a) prog" where
  "expectM x msg = liftE (expectE x msg)"

text \<open>\<open>ok_or(e)?\<close>, \<open>map_err\<close>, the \<open>Result\<close> of a program as a value, and the early return.\<close>

definition ok_orM :: "'a option \<Rightarrow> 'e \<Rightarrow> ('s, 'e, 'a) prog" where
  "ok_orM x e = (case x of None \<Rightarrow> errM e | Some y \<Rightarrow> retM y)"

definition map_errM :: "('e \<Rightarrow> 'd) \<Rightarrow> ('s, 'e, 'a) prog \<Rightarrow> ('s, 'd, 'a) prog" where
  "map_errM g m s = bindE (m s) (\<lambda>(s, r). Inr (s, case r of Inl e \<Rightarrow> Inl (g e) | Inr x \<Rightarrow> Inr x))"

definition tryM :: "('s, 'e, 'a) prog \<Rightarrow> ('s, 'd, 'e + 'a) prog" where
  "tryM m s = bindE (m s) (\<lambda>(s, r). Inr (s, Inr r))"

definition returnM :: "('e + 'a) \<Rightarrow> ('s, 'e, 'a) prog" where
  "returnM r s = Inr (s, r)"

definition unlessM :: "bool \<Rightarrow> ('s, 'e, unit) prog \<Rightarrow> ('s, 'e, unit) prog" where
  "unlessM b m = (if b then retM () else m)"

text \<open>
  A scope: what runs at its end (the \<open>drop\<close> of a guard) runs after a value and after an \<open>Err\<close>.
\<close>

definition finallyM :: "('s, 'e, 'a) prog \<Rightarrow> ('s \<Rightarrow> 's exec) \<Rightarrow> ('s, 'e, 'a) prog" where
  "finallyM m d s = bindE (m s) (\<lambda>(s, r). bindE (d s) (\<lambda>s. Inr (s, r)))"

text \<open>
  A loop over a list.  The body says whether to go on (\<open>True\<close>) or to \<open>break\<close>.
\<close>

fun forM :: "'x list \<Rightarrow> ('x \<Rightarrow> ('s, 'e, bool) prog) \<Rightarrow> ('s, 'e, unit) prog" where
  "forM [] f = retM ()"
| "forM (x # xs) f = bindM (f x) (\<lambda>go. if go then forM xs f else retM ())"

text \<open>A loop that carries local variables.\<close>

fun foldM :: "'x list \<Rightarrow> ('x \<Rightarrow> 'v \<Rightarrow> ('s, 'e, 'v) prog) \<Rightarrow> 'v \<Rightarrow> ('s, 'e, 'v) prog" where
  "foldM [] f v = retM v"
| "foldM (x # xs) f v = bindM (f x v) (foldM xs f)"

section \<open>Evaluation\<close>

named_theorems prog_simps \<open>evaluation of programs\<close>

lemma prog_run [simp, prog_simps]:
  "retM x s = Inr (s, Inr x)"
  "errM e s = Inr (s, Inl e)"
  "getM f s = Inr (s, Inr (f s))"
  "modM h s = Inr (h s, Inr ())"
  "returnM r s = Inr (s, r)"
  by (simp_all add: retM_def errM_def getM_def modM_def returnM_def)

lemma bindM_run [simp, prog_simps]:
  "m s = Inl p \<Longrightarrow> bindM m f s = Inl p"
  "m s = Inr (s', Inl e) \<Longrightarrow> bindM m f s = Inr (s', Inl e)"
  "m s = Inr (s', Inr x) \<Longrightarrow> bindM m f s = f x s'"
  by (simp_all add: bindM_def)

lemma liftE_run [simp, prog_simps]:
  "liftE (Inl p) s = Inl p"
  "liftE (Inr x) s = Inr (s, Inr x)"
  by (simp_all add: liftE_def)

lemma assertM_run [simp, prog_simps]:
  "assertM b msg s = (if b then Inr (s, Inr ()) else Inl (Panic msg))"
  by (simp add: assertM_def)

lemma expectM_run [simp, prog_simps]:
  "expectM (Some x) msg s = Inr (s, Inr x)"
  "expectM None msg s = Inl (Panic msg)"
  by (simp_all add: expectM_def)

lemma ok_orM_run [simp, prog_simps]:
  "ok_orM (Some x) e s = Inr (s, Inr x)"
  "ok_orM None e s = Inr (s, Inl e)"
  by (simp_all add: ok_orM_def)

lemma map_errM_run [simp, prog_simps]:
  "m s = Inl p \<Longrightarrow> map_errM g m s = Inl p"
  "m s = Inr (s', Inl e) \<Longrightarrow> map_errM g m s = Inr (s', Inl (g e))"
  "m s = Inr (s', Inr x) \<Longrightarrow> map_errM g m s = Inr (s', Inr x)"
  by (simp_all add: map_errM_def)

lemma tryM_run [simp, prog_simps]:
  "m s = Inl p \<Longrightarrow> tryM m s = Inl p"
  "m s = Inr (s', r) \<Longrightarrow> tryM m s = Inr (s', Inr r)"
  by (simp_all add: tryM_def)

lemma finallyM_run [simp, prog_simps]:
  "m s = Inl p \<Longrightarrow> finallyM m d s = Inl p"
  "m s = Inr (s', r) \<Longrightarrow> finallyM m d s = bindE (d s') (\<lambda>s. Inr (s, r))"
  by (simp_all add: finallyM_def)

lemma unlessM_run [simp, prog_simps]:
  "unlessM b m s = (if b then Inr (s, Inr ()) else m s)"
  by (simp add: unlessM_def)

lemma bindM_assoc: "bindM (bindM m f) g = bindM m (\<lambda>x. bindM (f x) g)"
  by (rule ext) (auto simp: bindM_def bindE_def split: sum.splits)

lemma bindM_ret [simp]: "bindM (retM x) f = f x" "bindM m retM = m"
  by (rule ext, auto simp: bindM_def bindE_def split: sum.splits)+

lemma bindM_err [simp]: "bindM (errM e) f = errM e"
  by (rule ext) (simp add: bindM_def)

lemma bindM_Inr_iff:
  "bindM m f s = Inr (s', r) \<longleftrightarrow>
     (\<exists>s1 x. m s = Inr (s1, Inr x) \<and> f x s1 = Inr (s', r)) \<or> (\<exists>e. r = Inl e \<and> m s = Inr (s', Inl e))"
  by (auto simp: bindM_def bindE_def split: sum.splits)

section \<open>Rules for loops\<close>

text \<open>An invariant of a loop that neither panics nor fails.\<close>

lemma forM_invariant:
  assumes "I s [] "
    and step: "\<And>s pre x post. xs = pre @ x # post \<Longrightarrow> I s pre \<Longrightarrow> \<exists>s'. f x s = Inr (s', Inr True) \<and> I s' (pre @ [x])"
  shows "\<exists>s'. forM xs f s = Inr (s', Inr ()) \<and> I s' xs"
proof -
  have "\<exists>s'. forM post f s = Inr (s', Inr ()) \<and> I s' xs" if "xs = pre @ post" "I s pre" for pre post s
    using that
  proof (induction post arbitrary: pre s)
    case (Cons x post)
    from step [OF Cons.prems] obtain s1 where s1: "f x s = Inr (s1, Inr True)" "I s1 (pre @ [x])" by blast
    with Cons.IH [of "pre @ [x]" s1] Cons.prems(1) show ?case by simp
  qed simp
  from this [of "[]" xs s] assms(1) show ?thesis by simp
qed

text \<open>The same for a loop that may break or fail: \<open>J\<close> holds when it ends early.\<close>

lemma forM_invariant_exit:
  assumes "I s []"
    and step: "\<And>s pre x post. xs = pre @ x # post \<Longrightarrow> I s pre \<Longrightarrow>
      (\<exists>s'. f x s = Inr (s', Inr True) \<and> I s' (pre @ [x])) \<or> (\<exists>s'. f x s = Inr (s', Inr False) \<and> J s' (Inr ())) \<or>
      (\<exists>s' e. f x s = Inr (s', Inl e) \<and> J s' (Inl e))"
  shows "\<exists>s' r. forM xs f s = Inr (s', r) \<and> (r = Inr () \<and> I s' xs \<or> J s' r)"
proof -
  have "\<exists>s' r. forM post f s = Inr (s', r) \<and> (r = Inr () \<and> I s' xs \<or> J s' r)" if "xs = pre @ post" "I s pre" for pre post s
    using that
  proof (induction post arbitrary: pre s)
    case (Cons x post)
    from step [OF Cons.prems] consider
        s1 where "f x s = Inr (s1, Inr True)" "I s1 (pre @ [x])"
      | s1 where "f x s = Inr (s1, Inr False)" "J s1 (Inr ())"
      | s1 e where "f x s = Inr (s1, Inl e)" "J s1 (Inl e)" by blast
    then show ?case
    proof cases
      case 1
      with Cons.IH [of "pre @ [x]" s1] Cons.prems(1) show ?thesis by simp
    next
      case 2
      then show ?thesis by (intro exI [of _ s1] exI [of _ "Inr ()"]) (simp add: bindM_def)
    next
      case 3
      then show ?thesis by (intro exI [of _ s1] exI [of _ "Inl e"]) simp
    qed
  qed simp
  from this [of "[]" xs s] assms(1) show ?thesis by simp
qed

end
