(* ===== verification/Page_Info.thy ===== *)
theory Page_Info
  imports Kernel_Prelude
begin

text \<open>
  Physical frames and their per-frame metadata: \<open>Frame\<close>, the packed \<open>P2Frame\<close>
  word, \<open>PageInfo\<close> and its reference count encoding (\<open>src/src/memory/mod.rs\<close>).
  A \<open>PageInfo\<close> holds two words; while the frame is free they are the previous and next
  links of a free list, while it is used the first is the reference count.  The lemmas show that
  the two encodings round trip and that the reference count operations count exactly.
\<close>

section \<open>Constants\<close>

definition PAGE_SIZE :: usize where [kconst]: "PAGE_SIZE = 4096"
definition PAGE_MASK :: usize where [kconst]: "PAGE_MASK = 4095"

definition RC_USED_NOT_FREE :: usize where [kconst]: "RC_USED_NOT_FREE = push_bit 63 1"
definition RC_SHARED_NOT_COW :: usize where [kconst]: "RC_SHARED_NOT_COW = push_bit 62 1"
definition RC_MAX :: usize where [kconst]: "RC_MAX = push_bit 61 1"
definition RC_COUNT_MASK :: usize where
  [kconst]: "RC_COUNT_MASK = NOT (RC_USED_NOT_FREE OR RC_SHARED_NOT_COW)"

section \<open>Frames\<close>

text \<open>The address is a \<open>NonZeroUsize\<close>: every constructor below panics on zero.\<close>

datatype frame = Frame (physaddr: usize)

definition Frame_containing :: "usize \<Rightarrow> frame exec" where
  "Frame_containing address =
     (let p = address AND NOT PAGE_MASK
      in if p = 0 then Inl (Panic ''frame 0x0 is reserved'') else Inr (Frame p))"

definition Frame_next_by :: "frame \<Rightarrow> usize \<Rightarrow> frame exec" where
  "Frame_next_by f n =
     (case checked_add (physaddr f) (n * PAGE_SIZE) of
        None \<Rightarrow> Inl (Panic ''overflow or null in Frame::next_by'')
      | Some p \<Rightarrow> if p = 0 then Inl (Panic ''overflow or null in Frame::next_by'')
                 else Inr (Frame p))"

definition Frame_offset_from :: "frame \<Rightarrow> frame \<Rightarrow> usize exec" where
  "Frame_offset_from f from =
     (case checked_sub (physaddr f) (physaddr from) of
        None \<Rightarrow> Inl (Panic ''overflow in Frame::offset_from'')
      | Some d \<Rightarrow> Inr (d div PAGE_SIZE))"

definition is_aligned_to_order :: "frame \<Rightarrow> nat \<Rightarrow> bool" where
  "is_aligned_to_order f order \<longleftrightarrow> physaddr f mod push_bit order PAGE_SIZE = 0"

section \<open>\<open>Option<Frame>\<close> combined with a power-of-two order\<close>

datatype p2frame = P2Frame (p2raw: usize)

definition P2Frame_new :: "frame option \<Rightarrow> nat \<Rightarrow> p2frame" where
  "P2Frame_new frame order =
     P2Frame ((case frame of None \<Rightarrow> 0 | Some f \<Rightarrow> physaddr f) OR of_nat order)"

definition P2Frame_get :: "p2frame \<Rightarrow> frame option \<times> nat" where
  "P2Frame_get p =
     (let page_off_mask = PAGE_SIZE - 1;
          a = p2raw p AND NOT page_off_mask AND NOT RC_USED_NOT_FREE
      in (if a = 0 then None else Some (Frame a), unat (p2raw p AND page_off_mask)))"

definition P2Frame_frame :: "p2frame \<Rightarrow> frame option" where
  "P2Frame_frame p = fst (P2Frame_get p)"

definition P2Frame_order :: "p2frame \<Rightarrow> nat" where
  "P2Frame_order p = snd (P2Frame_get p)"

section \<open>Page metadata\<close>

record page_info =
  pi_refcount :: usize
  pi_next :: usize

datatype page_info_kind = Used | Free

datatype add_ref_error = CowToShared | SharedToCow | RcOverflow

datatype ref_kind = RkCow | RkShared

datatype ref_count = RcOne | RcShared usize | RcCow usize

text \<open>\<open>NonZeroUsize::new(refcount_minus_one + 1).unwrap()\<close> cannot fail: the two top bits
  are masked off, so the increment does not wrap to zero (\<open>from_raw_count_nonzero\<close>).\<close>

definition RefCount_from_raw :: "usize \<Rightarrow> ref_count option" where
  "RefCount_from_raw raw =
     (if raw AND RC_USED_NOT_FREE \<noteq> RC_USED_NOT_FREE then None
      else let refcount_minus_one = raw AND NOT (RC_SHARED_NOT_COW OR RC_USED_NOT_FREE);
               nz_refcount = refcount_minus_one + 1
           in Some (if nz_refcount = 1 then RcOne
                    else if raw AND RC_SHARED_NOT_COW = RC_SHARED_NOT_COW then RcShared nz_refcount
                    else RcCow nz_refcount))"

fun RefCount_to_raw :: "ref_count \<Rightarrow> usize" where
  "RefCount_to_raw RcOne = 0 OR RC_USED_NOT_FREE"
| "RefCount_to_raw (RcShared inner) = (inner - 1) OR RC_SHARED_NOT_COW OR RC_USED_NOT_FREE"
| "RefCount_to_raw (RcCow inner) = (inner - 1) OR RC_USED_NOT_FREE"

definition pi_kind :: "page_info \<Rightarrow> page_info_kind" where
  "pi_kind i = (if pi_refcount i AND RC_USED_NOT_FREE = RC_USED_NOT_FREE then Used else Free)"

definition refcount :: "page_info \<Rightarrow> ref_count option" where
  "refcount i = RefCount_from_raw (pi_refcount i)"

text \<open>
  \<open>add_ref\<close> returns the updated metadata and the result.  The overflow branch performs the
  \<open>fetch_add\<close> and its reverting \<open>fetch_sub\<close>.
\<close>

definition add_ref :: "page_info \<Rightarrow> ref_kind \<Rightarrow> (page_info \<times> (add_ref_error + unit)) exec" where
  "add_ref i kind =
     bindE (expectE (refcount i) ''cannot add_ref to free frame'') (\<lambda>rc.
       Inr (case (rc, kind) of
              (RcOne, RkCow) \<Rightarrow> (i\<lparr>pi_refcount := RC_USED_NOT_FREE OR 1\<rparr>, Inr ())
            | (RcOne, RkShared) \<Rightarrow>
                (i\<lparr>pi_refcount := RC_USED_NOT_FREE OR 1 OR RC_SHARED_NOT_COW\<rparr>, Inr ())
            | (RcCow _, RkShared) \<Rightarrow> (i, Inl CowToShared)
            | (RcShared _, RkCow) \<Rightarrow> (i, Inl SharedToCow)
            | (_, _) \<Rightarrow>
                (let old = pi_refcount i;
                     i' = i\<lparr>pi_refcount := old + 1\<rparr>
                 in if (old AND RC_COUNT_MASK) \<ge> RC_MAX
                    then (i'\<lparr>pi_refcount := pi_refcount i' - 1\<rparr>, Inl RcOverflow)
                    else (i', Inr ()))))"

definition remove_ref :: "page_info \<Rightarrow> (page_info \<times> ref_count option) exec" where
  "remove_ref i =
     (case refcount i of
        None \<Rightarrow> Inl (Panic ''refcount was already zero when calling remove_ref!'')
      | Some RcOne \<Rightarrow> Inr (i, None)
      | Some _ \<Rightarrow>
          Inr (i\<lparr>pi_refcount := pi_refcount i - 1\<rparr>,
               RefCount_from_raw ((pi_refcount i - 1) OR RC_USED_NOT_FREE)))"

definition allows_writable :: "page_info \<Rightarrow> bool exec" where
  "allows_writable i =
     bindE (expectE (refcount i) ''using allows_writable on free page!'') (\<lambda>rc.
       Inr (case rc of RcOne \<Rightarrow> True | RcCow _ \<Rightarrow> False | RcShared _ \<Rightarrow> True))"

definition make_free :: "page_info \<Rightarrow> nat \<Rightarrow> page_info" where
  "make_free i order = i\<lparr>pi_refcount := of_nat order, pi_next := of_nat order\<rparr>"

definition free_next :: "page_info \<Rightarrow> p2frame" where
  "free_next i = P2Frame (pi_next i)"

definition free_prev :: "page_info \<Rightarrow> p2frame" where
  "free_prev i = P2Frame (pi_refcount i)"

definition p2frame_aligned :: "p2frame \<Rightarrow> bool" where
  "p2frame_aligned p =
     (case P2Frame_frame p of None \<Rightarrow> True | Some f \<Rightarrow> is_aligned_to_order f (P2Frame_order p))"

definition free_set_next :: "page_info \<Rightarrow> p2frame \<Rightarrow> page_info exec" where
  "free_set_next i p =
     bindE (assertE (p2frame_aligned p) ''set_next: unaligned'') (\<lambda>_. Inr (i\<lparr>pi_next := p2raw p\<rparr>))"

definition free_set_prev :: "page_info \<Rightarrow> p2frame \<Rightarrow> page_info exec" where
  "free_set_prev i p =
     bindE (assertE (p2frame_aligned p) ''set_prev: unaligned'') (\<lambda>_. Inr (i\<lparr>pi_refcount := p2raw p\<rparr>))"

definition mark_used :: "page_info \<Rightarrow> page_info" where
  "mark_used i = i\<lparr>pi_refcount := RC_USED_NOT_FREE, pi_next := 0\<rparr>"

section \<open>Abstract reference counting\<close>

text \<open>
  A used frame is a number of references and, once there is more than one, the way they share it.
  The abstract operations say what the bit-packed ones promise.
\<close>

fun rc_kind :: "ref_count \<Rightarrow> ref_kind option" where
  "rc_kind RcOne = None"
| "rc_kind (RcShared _) = Some RkShared"
| "rc_kind (RcCow _) = Some RkCow"

fun rc_count :: "ref_count \<Rightarrow> nat" where
  "rc_count RcOne = 1"
| "rc_count (RcShared n) = unat n"
| "rc_count (RcCow n) = unat n"

definition rc_valid :: "ref_count \<Rightarrow> bool" where
  "rc_valid rc \<longleftrightarrow> rc = RcOne \<or> (2 \<le> rc_count rc \<and> rc_count rc \<le> 2 ^ 62)"

definition rc_abs :: "page_info \<Rightarrow> (nat \<times> ref_kind option) option" where
  "rc_abs i = map_option (\<lambda>rc. (rc_count rc, rc_kind rc)) (refcount i)"

fun abs_add_ref :: "nat \<times> ref_kind option \<Rightarrow> ref_kind \<Rightarrow> add_ref_error + (nat \<times> ref_kind option)" where
  "abs_add_ref (n, None) k = Inr (n + 1, Some k)"
| "abs_add_ref (n, Some RkCow) RkShared = Inl CowToShared"
| "abs_add_ref (n, Some RkShared) RkCow = Inl SharedToCow"
| "abs_add_ref (n, Some _) k = (if 2 ^ 61 < n then Inl RcOverflow else Inr (n + 1, Some k))"

fun abs_remove_ref :: "nat \<times> ref_kind option \<Rightarrow> (nat \<times> ref_kind option) option" where
  "abs_remove_ref (n, kd) =
     (if n \<le> 1 then None else Some (n - 1, if n = 2 then None else kd))"

section \<open>The bit encoding of a reference count\<close>

lemma bit_RC_USED [simp]: "bit RC_USED_NOT_FREE n \<longleftrightarrow> n = 63"
  unfolding RC_USED_NOT_FREE_def by (subst bit_push_bit_iff) (auto simp: bit_1_iff)

lemma bit_RC_SHARED [simp]: "bit RC_SHARED_NOT_COW n \<longleftrightarrow> n = 62"
  unfolding RC_SHARED_NOT_COW_def by (subst bit_push_bit_iff) (auto simp: bit_1_iff)

lemma unat_RC_MAX [simp]: "unat RC_MAX = 2 ^ 61"
  by (simp add: RC_MAX_def)

lemma and_single_bit_iff:
  fixes w c :: usize
  assumes "\<And>n. bit c n \<longleftrightarrow> n = k"
  shows "w AND c = c \<longleftrightarrow> bit w k"
proof
  show "w AND c = c \<Longrightarrow> bit w k" using assms by (metis bit_and_iff)
  show "bit w k \<Longrightarrow> w AND c = c" by (rule bit_word_eqI) (auto simp: assms bit_and_iff)
qed

lemma rc_used_iff: "w AND RC_USED_NOT_FREE = RC_USED_NOT_FREE \<longleftrightarrow> bit w 63"
  by (rule and_single_bit_iff) simp

lemma rc_shared_iff: "w AND RC_SHARED_NOT_COW = RC_SHARED_NOT_COW \<longleftrightarrow> bit w 62"
  by (rule and_single_bit_iff) simp

lemma pi_kind_Used_iff: "pi_kind i = Used \<longleftrightarrow> bit (pi_refcount i) 63"
  by (simp add: pi_kind_def rc_used_iff)

lemma count_mask_take_bit: "w AND NOT (RC_SHARED_NOT_COW OR RC_USED_NOT_FREE) = take_bit 62 w"
  by (rule bit_word_eqI) (auto simp: bit_and_iff bit_or_iff bit_not_iff bit_take_bit_iff)

lemma RC_COUNT_MASK_take_bit: "w AND RC_COUNT_MASK = take_bit 62 w"
  unfolding RC_COUNT_MASK_def or.commute [of RC_USED_NOT_FREE] by (rule count_mask_take_bit)

lemma from_raw_alt:
  "RefCount_from_raw raw =
    (if \<not> bit raw 63 then None
     else Some (if take_bit 62 raw = 0 then RcOne
                else if bit raw 62 then RcShared (take_bit 62 raw + 1)
                else RcCow (take_bit 62 raw + 1)))"
  unfolding RefCount_from_raw_def rc_used_iff rc_shared_iff count_mask_take_bit Let_def by simp

text \<open>Counts below \<open>2 ^ 62\<close> are the words that \<open>take_bit 62\<close> leaves alone.\<close>

lemma unat_take_bit_lt: "unat (take_bit 62 w :: usize) < 2 ^ 62"
  unfolding unsigned_take_bit_eq by (rule take_bit_nat_less_exp)

lemma small_iff: "take_bit 62 (m :: usize) = m \<longleftrightarrow> unat m < 2 ^ 62"
  by (metis take_bit_nat_eq_self unat_take_bit_lt unsigned_take_bit_eq unsigned_word_eqI)

lemma small_bit: "take_bit 62 (m :: usize) = m \<Longrightarrow> bit m n \<Longrightarrow> n < 62"
  by (metis bit_take_bit_iff)

lemma unat_small_Suc: "take_bit 62 m = m \<Longrightarrow> unat (m + 1 :: usize) = unat m + 1"
  using unat_take_bit_lt [of m] by (simp add: unat_word_ariths)

lemma from_raw_count_nonzero: "(raw AND NOT (RC_SHARED_NOT_COW OR RC_USED_NOT_FREE)) + 1 \<noteq> 0"
  unfolding count_mask_take_bit
  using unat_small_Suc [of "take_bit 62 raw"] by (auto simp flip: unat_eq_zero)

text \<open>A used count word: the count below the two flag bits.\<close>

definition rc_raw :: "usize \<Rightarrow> bool \<Rightarrow> usize" where
  "rc_raw m sh = m OR (if sh then RC_SHARED_NOT_COW else 0) OR RC_USED_NOT_FREE"

definition rc_view :: "usize \<Rightarrow> bool \<Rightarrow> ref_count" where
  "rc_view m sh = (if m = 0 then RcOne else if sh then RcShared (m + 1) else RcCow (m + 1))"

lemma rc_raw_parts:
  assumes "take_bit 62 m = m"
  shows "take_bit 62 (rc_raw m sh) = m" "bit (rc_raw m sh) 63" "bit (rc_raw m sh) 62 = sh"
proof -
  show "take_bit 62 (rc_raw m sh) = m"
    by (rule bit_word_eqI)
      (auto simp: rc_raw_def bit_or_iff bit_take_bit_iff dest: small_bit [OF assms] split: if_splits)
qed (auto simp: rc_raw_def bit_or_iff dest: small_bit [OF assms] split: if_splits)

lemma raw_split: "bit raw 63 \<Longrightarrow> raw = rc_raw (take_bit 62 raw) (bit raw 62)"
proof (rule bit_word_eqI)
  fix n assume "bit raw 63" "n < LENGTH(64)"
  then show "bit raw n = bit (rc_raw (take_bit 62 raw) (bit raw 62)) n"
    by (cases "n < 62"; cases "n = 62"; cases "n = 63")
      (auto simp: rc_raw_def bit_or_iff bit_take_bit_iff split: if_splits)
qed

lemma rc_raw_add:
  assumes "take_bit 62 m = m"
  shows "rc_raw m sh = m + ((if sh then RC_SHARED_NOT_COW else 0) OR RC_USED_NOT_FREE)"
proof -
  have "m AND ((if sh then RC_SHARED_NOT_COW else 0) OR RC_USED_NOT_FREE) = 0"
    by (rule bit_word_eqI)
      (auto simp: bit_and_iff bit_or_iff dest: small_bit [OF assms] split: if_splits)
  then show ?thesis by (simp only: rc_raw_def or.assoc disjunctive_add_eq_or)
qed

lemma rc_raw_inc:
  assumes "take_bit 62 m = m" "take_bit 62 (m + 1) = m + 1"
  shows "rc_raw m sh + 1 = rc_raw (m + 1) sh"
  using assms by (simp add: rc_raw_add)

lemma small_inc: "unat m < 2 ^ 61 \<Longrightarrow> take_bit 62 (m + 1 :: usize) = m + 1"
proof -
  assume "unat m < 2 ^ 61"
  then have "take_bit 62 m = m" "unat m + 1 < 2 ^ 62" by (auto simp: small_iff)
  then show ?thesis by (simp add: small_iff unat_small_Suc)
qed

lemma rc_raw_dec:
  assumes "take_bit 62 m = m" "m \<noteq> 0"
  shows "rc_raw m sh - 1 = rc_raw (m - 1) sh" "take_bit 62 (m - 1) = m - 1"
    "unat (m - 1) = unat m - 1"
proof -
  show u: "unat (m - 1) = unat m - 1"
    using assms(2) by (simp add: unat_sub word_le_nat_alt Suc_le_eq unat_gt_0)
  show s: "take_bit 62 (m - 1) = m - 1"
    using assms(1) u by (auto simp: small_iff)
  show "rc_raw m sh - 1 = rc_raw (m - 1) sh"
    using rc_raw_inc [OF s, of sh] assms(1) by (auto simp: diff_eq_eq)
qed

lemma from_raw_rc_raw [simp]:
  "take_bit 62 m = m \<Longrightarrow> RefCount_from_raw (rc_raw m sh) = Some (rc_view m sh)"
  by (simp add: from_raw_alt rc_raw_parts rc_view_def)

lemma used_rawE:
  assumes "RefCount_from_raw raw = Some rc"
  obtains m sh where "take_bit 62 m = m" "raw = rc_raw m sh" "rc = rc_view m sh"
proof -
  from assms have "bit raw 63" by (auto simp: from_raw_alt split: if_splits)
  then have raw: "raw = rc_raw (take_bit 62 raw) (bit raw 62)" by (rule raw_split)
  have t: "take_bit 62 (take_bit 62 raw) = take_bit 62 raw" by simp
  have "rc = rc_view (take_bit 62 raw) (bit raw 62)"
    using assms from_raw_rc_raw [OF t, of "bit raw 62"] raw by simp
  with t raw that show thesis by blast
qed

lemma rc_count_view: "take_bit 62 m = m \<Longrightarrow> rc_count (rc_view m sh) = unat m + 1"
  by (simp add: rc_view_def unat_small_Suc)

lemma rc_kind_view: "rc_kind (rc_view m sh) =
    (if m = 0 then None else Some (if sh then RkShared else RkCow))"
  by (simp add: rc_view_def)

lemma rc_raw_or_used [simp]: "rc_raw m sh OR RC_USED_NOT_FREE = rc_raw m sh"
  by (simp add: rc_raw_def or.assoc)

lemma rc_raw_one:
  "RC_USED_NOT_FREE OR 1 = rc_raw 1 False"
  "RC_USED_NOT_FREE OR 1 OR RC_SHARED_NOT_COW = rc_raw 1 True"
  by (simp_all add: rc_raw_def ac_simps)

lemma add_ref_rc_raw:
  assumes "take_bit 62 m = m" "pi_refcount i = rc_raw m sh"
  shows "add_ref i k =
    Inr (if m = 0 then (i\<lparr>pi_refcount := rc_raw 1 (k = RkShared)\<rparr>, Inr ())
         else if sh \<noteq> (k = RkShared) then (i, Inl (if sh then SharedToCow else CowToShared))
         else if 2 ^ 61 \<le> unat m then (i, Inl RcOverflow)
         else (i\<lparr>pi_refcount := rc_raw (m + 1) sh\<rparr>, Inr ()))"
proof -
  have mx: "RC_MAX \<le> (rc_raw m sh AND RC_COUNT_MASK) \<longleftrightarrow> 2 ^ 61 \<le> unat m"
    using assms(1) by (simp add: RC_COUNT_MASK_take_bit rc_raw_parts word_le_nat_alt)
  have inc: "unat m < 2 ^ 61 \<Longrightarrow> rc_raw m sh + 1 = rc_raw (m + 1) sh"
    using rc_raw_inc [OF assms(1)] small_inc by blast
  have keep: "i\<lparr>pi_refcount := rc_raw m sh\<rparr> = i" using assms(2) [symmetric] by simp
  show ?thesis
    unfolding add_ref_def refcount_def assms(2) from_raw_rc_raw [OF assms(1)]
    by (cases k; cases sh) (use inc keep mx in \<open>simp_all add: rc_view_def rc_raw_one Let_def not_le\<close>)
qed

lemma rc_abs_rawE:
  assumes "rc_abs i = Some a"
  obtains m sh where "take_bit 62 m = m" "pi_refcount i = rc_raw m sh"
    "a = (unat m + 1, if m = 0 then None else Some (if sh then RkShared else RkCow))"
proof -
  from assms obtain rc where rc: "refcount i = Some rc" "a = (rc_count rc, rc_kind rc)"
    by (auto simp: rc_abs_def)
  from rc(1) [unfolded refcount_def] show thesis
    by (rule used_rawE) (use that rc(2) in \<open>simp add: rc_count_view rc_kind_view\<close>)
qed

lemma rc_abs_rc_raw:
  "take_bit 62 m = m \<Longrightarrow> pi_refcount i = rc_raw m sh \<Longrightarrow>
   rc_abs i = Some (unat m + 1, if m = 0 then None else Some (if sh then RkShared else RkCow))"
  by (simp add: rc_abs_def refcount_def rc_count_view rc_kind_view)

section \<open>Frames by page number\<close>

definition pframe :: "nat \<Rightarrow> frame" where
  "pframe n = Frame (of_nat (n * 4096))"

definition pfn_ok :: "nat \<Rightarrow> bool" where
  "pfn_ok n \<longleftrightarrow> 0 < n \<and> n < 2 ^ 51"

definition PFN_LIM :: nat where "PFN_LIM = 2 ^ 52"

lemma PFN_LIM_less [simp]: "n < 2 ^ 51 \<Longrightarrow> n < PFN_LIM"
  by (simp add: PFN_LIM_def)

lemma exp_PFN_LIM [simp]: "k \<le> 51 \<Longrightarrow> 2 ^ k < PFN_LIM"
  unfolding PFN_LIM_def by (rule power_strict_increasing) auto

lemma unat_of_nat_page: "n < PFN_LIM \<Longrightarrow> unat (of_nat n * 4096 :: usize) = n * 4096"
proof -
  assume "n < PFN_LIM"
  then have "unat (of_nat (n * 4096) :: usize) = n * 4096"
    unfolding PFN_LIM_def by (subst unat_of_nat) (simp add: take_bit_eq_mod)
  then show ?thesis by simp
qed

lemma unat_pframe: "n < PFN_LIM \<Longrightarrow> unat (physaddr (pframe n)) = n * 4096"
  by (simp add: pframe_def unat_of_nat_page)

lemma pframe_inject: "n < PFN_LIM \<Longrightarrow> m < PFN_LIM \<Longrightarrow> pframe n = pframe m \<longleftrightarrow> n = m"
  by (metis unat_pframe mult_right_cancel zero_neq_numeral)

lemma pframe_zero_iff: "n < PFN_LIM \<Longrightarrow> physaddr (pframe n) = 0 \<longleftrightarrow> n = 0"
  using unat_pframe [of n] by (auto simp flip: unat_eq_zero)

lemma bit_pframe: "n < PFN_LIM \<Longrightarrow> bit (physaddr (pframe n)) k \<longleftrightarrow> 12 \<le> k \<and> bit n (k - 12)"
proof -
  assume n: "n < PFN_LIM"
  have "bit (physaddr (pframe n)) k \<longleftrightarrow> bit (unat (physaddr (pframe n))) k"
    by (simp add: bit_unsigned_iff)
  also have "\<dots> \<longleftrightarrow> bit (push_bit 12 n) k" using n by (simp add: unat_pframe push_bit_eq_mult)
  finally show ?thesis by (simp add: bit_push_bit_iff)
qed

lemma bit_PAGE_MASK: "bit PAGE_MASK k \<longleftrightarrow> k < 12"
proof -
  have "PAGE_MASK = mask 12" by (simp add: PAGE_MASK_def mask_eq_exp_minus_1)
  then have "bit PAGE_MASK k = bit (mask 12 :: usize) k" by (rule arg_cong)
  then show ?thesis unfolding bit_mask_iff by auto
qed

lemma push_bit_PAGE_SIZE: "o' \<le> 51 \<Longrightarrow> push_bit o' PAGE_SIZE = physaddr (pframe (2 ^ o'))"
  by (simp add: PAGE_SIZE_def pframe_def push_bit_eq_mult mult.commute)

lemma Frame_containing_pframe:
  assumes "n < PFN_LIM"
  shows "Frame_containing (physaddr (pframe n)) =
    (if n = 0 then Inl (Panic ''frame 0x0 is reserved'') else Inr (pframe n))"
proof -
  have "physaddr (pframe n) AND NOT PAGE_MASK = physaddr (pframe n)"
    by (rule bit_word_eqI) (auto simp: bit_and_iff bit_not_iff bit_pframe [OF assms] bit_PAGE_MASK)
  then show ?thesis using assms by (simp add: Frame_containing_def Let_def pframe_zero_iff)
qed

lemma nat_lt_exp_bit: "(\<And>k. bit n k \<Longrightarrow> k < m) \<Longrightarrow> n < 2 ^ m" for n :: nat
  by (metis bit_take_bit_iff bit_eqI take_bit_nat_less_exp)

lemma nat_exp_bit: "n < 2 ^ m \<Longrightarrow> bit n k \<Longrightarrow> k < m" for n :: nat
  by (metis bit_take_bit_iff take_bit_nat_eq_self)

lemma nat_xor_lt: "a < 2 ^ m \<Longrightarrow> b < 2 ^ m \<Longrightarrow> a XOR b < 2 ^ m" for a b :: nat
  by (rule nat_lt_exp_bit) (auto simp: bit_xor_iff dest: nat_exp_bit)

lemma nat_unset_bit: "unset_bit k a = (if bit a k then a - 2 ^ k else a)" for a :: nat
proof (cases "bit a k")
  case True
  let ?b = "unset_bit k a"
  have "?b AND 2 ^ k = 0" by (rule bit_eqI) (auto simp: bit_and_iff bit_exp_iff bit_unset_bit_iff)
  then have "?b + 2 ^ k = ?b OR 2 ^ k" by (rule disjunctive_add_eq_or)
  also have "\<dots> = a"
    by (rule bit_eqI) (use True in \<open>auto simp: bit_or_iff bit_exp_iff bit_unset_bit_iff\<close>)
  finally show ?thesis using True by simp
next
  case False
  then have "unset_bit k a = a" by (intro bit_eqI) (auto simp: bit_unset_bit_iff)
  with False show ?thesis by simp
qed

lemma nat_xor_exp: "a XOR 2 ^ k = (if bit a k then a - 2 ^ k else a + 2 ^ k)" for a :: nat
proof (cases "bit a k")
  case False
  then have "a AND 2 ^ k = 0" by (intro bit_eqI) (auto simp: bit_and_iff bit_exp_iff)
  with False show ?thesis by (simp add: disjunctive_add_eq_xor)
next
  case True
  have "a XOR 2 ^ k = unset_bit k a"
    by (rule bit_eqI) (use True in \<open>auto simp: bit_xor_iff bit_exp_iff bit_unset_bit_iff\<close>)
  with True show ?thesis by (simp add: nat_unset_bit)
qed

lemma xor_PFN_LIM: "a < PFN_LIM \<Longrightarrow> b < PFN_LIM \<Longrightarrow> a XOR b < PFN_LIM"
  unfolding PFN_LIM_def by (rule nat_xor_lt)

lemma unset_bit_le: "unset_bit k n \<le> n" for n :: nat
  by (simp add: nat_unset_bit)

lemma xor_pframe:
  assumes "n < PFN_LIM" "m < PFN_LIM"
  shows "physaddr (pframe n) XOR physaddr (pframe m) = physaddr (pframe (n XOR m))"
  by (rule bit_word_eqI) (auto simp: bit_xor_iff bit_pframe assms xor_PFN_LIM)

lemma and_not_pframe:
  assumes "n < PFN_LIM" "k \<le> 51"
  shows "physaddr (pframe n) AND NOT (physaddr (pframe (2 ^ k))) = physaddr (pframe (unset_bit k n))"
proof -
  have "(2::nat) ^ k < PFN_LIM" using assms(2) by simp
  moreover have "unset_bit k n < PFN_LIM" using assms(1) unset_bit_le le_less_trans by blast
  ultimately show ?thesis
    by (intro bit_word_eqI)
      (auto simp: bit_and_iff bit_not_iff bit_pframe assms(1) bit_exp_iff bit_unset_bit_iff)
qed

text \<open>The buddy of a block and the block the two merge into.\<close>

lemma sibling_pframe:
  assumes "n < PFN_LIM" "k \<le> 51"
  shows "Frame_containing (physaddr (pframe n) XOR push_bit k PAGE_SIZE) =
    (if n = 2 ^ k then Inl (Panic ''frame 0x0 is reserved'') else Inr (pframe (n XOR 2 ^ k)))"
proof -
  have p: "(2::nat) ^ k < PFN_LIM" using assms(2) by simp
  have "n XOR 2 ^ k = 0 \<longleftrightarrow> n = 2 ^ k" by (metis xor.assoc xor.left_neutral xor.right_neutral xor_self_eq)
  then show ?thesis
    using Frame_containing_pframe [OF xor_PFN_LIM [OF assms(1) p]] assms p
    by (simp add: push_bit_PAGE_SIZE xor_pframe)
qed

lemma merged_pframe:
  assumes "n < PFN_LIM" "k \<le> 51" "n \<noteq> 2 ^ k" "0 < n"
  shows "Frame_containing (physaddr (pframe n) AND NOT (push_bit k PAGE_SIZE)) =
    Inr (pframe (unset_bit k n))"
proof -
  have "unset_bit k n < PFN_LIM" using assms(1) unset_bit_le le_less_trans by blast
  moreover have "unset_bit k n \<noteq> 0"
  proof
    assume "unset_bit k n = 0"
    then have "n \<le> 2 ^ k" "bit n k" using assms(4) by (auto simp: nat_unset_bit split: if_splits)
    then show False using assms(3) nat_exp_bit [of n k k] by auto
  qed
  ultimately show ?thesis
    using assms by (simp add: push_bit_PAGE_SIZE and_not_pframe Frame_containing_pframe)
qed

lemma next_by_pframe:
  assumes "0 < n" "n + k < PFN_LIM"
  shows "Frame_next_by (pframe n) (of_nat k) = Inr (pframe (n + k))"
proof -
  have k: "of_nat k * PAGE_SIZE = (of_nat (k * 4096) :: usize)" by (simp add: PAGE_SIZE_def)
  have "unat (of_nat (k * 4096) :: usize) = k * 4096" using assms by (simp add: unat_of_nat_page)
  then have "checked_add (physaddr (pframe n)) (of_nat k * PAGE_SIZE) = Some (physaddr (pframe (n + k)))"
    unfolding k checked_add_def using assms by (simp add: unat_pframe PFN_LIM_def) (simp add: pframe_def algebra_simps)
  then show ?thesis using assms by (simp add: Frame_next_by_def pframe_zero_iff)
qed

lemma offset_from_pframe:
  assumes "m \<le> n" "n < PFN_LIM"
  shows "Frame_offset_from (pframe n) (pframe m) = Inr (of_nat (n - m))"
proof -
  have le: "physaddr (pframe m) \<le> physaddr (pframe n)"
    using assms by (simp add: word_le_nat_alt unat_pframe)
  have "unat ((physaddr (pframe n) - physaddr (pframe m)) div PAGE_SIZE) = n - m"
    using le assms by (simp add: unat_div unat_sub unat_pframe PAGE_SIZE_def flip: diff_mult_distrib)
  then have "(physaddr (pframe n) - physaddr (pframe m)) div PAGE_SIZE = of_nat (n - m)"
    by (metis of_nat_unat ucast_id)
  then show ?thesis using le by (simp add: Frame_offset_from_def checked_sub_def)
qed

lemma aligned_pframe:
  assumes "n < PFN_LIM" "k \<le> 51"
  shows "is_aligned_to_order (pframe n) k \<longleftrightarrow> 2 ^ k dvd n"
proof -
  have p: "(2::nat) ^ k < PFN_LIM" using assms(2) by simp
  have "is_aligned_to_order (pframe n) k \<longleftrightarrow> (n * 4096) mod (2 ^ k * 4096) = 0"
    unfolding is_aligned_to_order_def push_bit_PAGE_SIZE [OF assms(2)]
    by (simp only: unat_mod unat_pframe assms(1) p flip: unat_eq_zero)
  then show ?thesis by (simp add: mod_eq_0_iff_dvd)
qed

section \<open>Packed links\<close>

lemma P2Frame_get_new_Some:
  assumes "pfn_ok n" "k < 4096"
  shows "P2Frame_get (P2Frame_new (Some (pframe n)) k) = (Some (pframe n), k)"
proof -
  have n: "n < 2 ^ 51" "n < PFN_LIM" using assms(1) by (auto simp: pfn_ok_def)
  have m: "PAGE_SIZE - 1 = PAGE_MASK" by (simp add: PAGE_SIZE_def PAGE_MASK_def)
  have k: "bit (of_nat k :: usize) j \<longleftrightarrow> bit k j \<and> j < 12" for j
    using nat_exp_bit [of k 12 j] assms(2) by (auto simp: bit_of_nat_iff)
  let ?w = "physaddr (pframe n) OR of_nat k"
  have a: "?w AND NOT PAGE_MASK AND NOT RC_USED_NOT_FREE = physaddr (pframe n)"
    by (rule bit_word_eqI)
      (use nat_exp_bit [OF n(1)] in \<open>fastforce simp: bit_and_iff bit_or_iff bit_not_iff bit_PAGE_MASK bit_pframe [OF n(2)] k\<close>)
  have b: "?w AND PAGE_MASK = of_nat k"
    by (rule bit_word_eqI) (auto simp: bit_and_iff bit_or_iff bit_PAGE_MASK bit_pframe [OF n(2)] k)
  have "physaddr (pframe n) \<noteq> 0" using assms(1) n by (simp add: pframe_zero_iff pfn_ok_def)
  then show ?thesis using a b assms(2)
    by (simp add: P2Frame_get_def P2Frame_new_def Let_def m unat_of_nat)
qed

lemma P2Frame_get_new_None: "k < 4096 \<Longrightarrow> P2Frame_get (P2Frame_new None k) = (None, k)"
proof -
  assume k4: "k < 4096"
  have m: "PAGE_SIZE - 1 = PAGE_MASK" by (simp add: PAGE_SIZE_def PAGE_MASK_def)
  have k: "bit (of_nat k :: usize) j \<longleftrightarrow> bit k j \<and> j < 12" for j
    using nat_exp_bit [of k 12 j] k4 by (auto simp: bit_of_nat_iff)
  have "(of_nat k :: usize) AND NOT PAGE_MASK AND NOT RC_USED_NOT_FREE = 0"
    by (rule bit_word_eqI) (auto simp: bit_and_iff bit_not_iff bit_PAGE_MASK k)
  moreover have "(of_nat k :: usize) AND PAGE_MASK = of_nat k"
    by (rule bit_word_eqI) (auto simp: bit_and_iff bit_PAGE_MASK k)
  ultimately show ?thesis using k4 by (simp add: P2Frame_get_def P2Frame_new_def Let_def m unat_of_nat)
qed

lemma P2Frame_new_free:
  assumes "case fo of None \<Rightarrow> True | Some f \<Rightarrow> \<exists>n. pfn_ok n \<and> f = pframe n" "k < 4096"
  shows "\<not> bit (p2raw (P2Frame_new fo k)) 63"
proof (cases fo)
  case None
  then show ?thesis using nat_exp_bit [of k 12 63] assms(2) by (auto simp: P2Frame_new_def bit_of_nat_iff)
next
  case (Some f)
  then obtain n where "n < 2 ^ 51" "f = pframe n" using assms(1) by (auto simp: pfn_ok_def)
  then show ?thesis using nat_exp_bit [of k 12 63] assms(2) nat_exp_bit [of n 51 51] Some
    by (auto simp: P2Frame_new_def bit_or_iff bit_pframe bit_of_nat_iff)
qed

text \<open>The frames the kernel handles: page aligned, non-null and below the flag bit.\<close>

definition frame_ok :: "frame \<Rightarrow> bool" where
  "frame_ok f \<longleftrightarrow> physaddr f \<noteq> 0 \<and> physaddr f AND PAGE_MASK = 0 \<and> unat (physaddr f) < 2 ^ 63"

lemma frame_okE:
  assumes "frame_ok f"
  obtains n where "pfn_ok n" "f = pframe n"
proof -
  have "PAGE_MASK = mask 12" by (simp add: PAGE_MASK_def mask_eq_exp_minus_1)
  then have "take_bit 12 (physaddr f) = 0" using assms by (metis take_bit_eq_mask frame_ok_def)
  then have "take_bit 12 (unat (physaddr f)) = 0" by (metis unsigned_0 unsigned_take_bit_eq)
  then have "4096 dvd unat (physaddr f)" by (simp add: take_bit_eq_mod mod_eq_0_iff_dvd)
  then obtain n where n: "unat (physaddr f) = n * 4096" by (metis dvd_def mult.commute)
  moreover have "unat (physaddr f) \<noteq> 0" "unat (physaddr f) < 2 ^ 63"
    using assms by (auto simp: frame_ok_def unat_eq_zero)
  ultimately have "pfn_ok n" by (simp add: pfn_ok_def)
  moreover have "f = pframe n" using n by (cases f) (metis frame.sel pframe_def of_nat_unat ucast_id)
  ultimately show thesis by (rule that)
qed

lemma frame_ok_pframe: "pfn_ok n \<Longrightarrow> frame_ok (pframe n)"
proof -
  assume n: "pfn_ok n"
  then have l: "n < PFN_LIM" by (simp add: pfn_ok_def)
  have "physaddr (pframe n) AND PAGE_MASK = 0"
    by (rule bit_word_eqI) (auto simp: bit_and_iff bit_pframe [OF l] bit_PAGE_MASK)
  then show ?thesis using n l by (simp add: frame_ok_def pframe_zero_iff unat_pframe pfn_ok_def)
qed

section \<open>Properties of the reference count\<close>

lemma from_to_raw: "rc_valid rc \<Longrightarrow> RefCount_from_raw (RefCount_to_raw rc) = Some rc"
proof -
  have pred: "take_bit 62 (n - 1) = n - 1 \<and> n - 1 \<noteq> 0" if "2 \<le> unat n" "unat n \<le> 2 ^ 62" for n :: usize
  proof -
    have "unat (n - 1) = unat n - 1" using that by (subst unat_sub) (auto simp: word_le_nat_alt)
    then show ?thesis using that by (auto simp: small_iff simp flip: unat_eq_zero)
  qed
  have raw: "RefCount_to_raw RcOne = rc_raw 0 False" "RefCount_to_raw (RcShared n) = rc_raw (n - 1) True"
    "RefCount_to_raw (RcCow n) = rc_raw (n - 1) False" for n
    by (simp_all add: rc_raw_def)
  assume "rc_valid rc"
  then show ?thesis
    by (cases rc) (use pred in \<open>auto simp: raw rc_valid_def rc_view_def simp del: RefCount_to_raw.simps\<close>)
qed

text \<open>a reference count of at most \<open>2 ^ 62\<close> survives being packed into the raw word
  with its flags and unpacked again.\<close>

theorem refcount_raw_roundtrip: "rc_valid rc \<Longrightarrow> RefCount_from_raw (RefCount_to_raw rc) = Some rc"
  by (rule from_to_raw)

theorem refcount_raw_roundtrip_witness:
  "rc_valid (RcShared 5) \<and> RefCount_from_raw (RefCount_to_raw (RcShared 5)) = Some (RcShared 5)"
proof -
  have v: "rc_valid (RcShared 5)" by (simp add: rc_valid_def)
  show ?thesis using v refcount_raw_roundtrip [OF v] by simp
qed

lemma add_ref_abs:
  assumes "rc_abs i = Some a"
  shows "\<exists>i' r. add_ref i k = Inr (i', r) \<and> pi_next i' = pi_next i \<and>
    (case abs_add_ref a k of
       Inl e \<Rightarrow> r = Inl e \<and> i' = i
     | Inr a' \<Rightarrow> r = Inr () \<and> rc_abs i' = Some a')"
proof -
  obtain m sh where m: "take_bit 62 m = m" "pi_refcount i = rc_raw m sh"
    and a: "a = (unat m + 1, if m = 0 then None else Some (if sh then RkShared else RkCow))"
    using assms by (rule rc_abs_rawE)
  have nz: "m + 1 \<noteq> 0" using unat_small_Suc [OF m(1)] by (auto simp flip: unat_eq_zero)
  have one: "rc_abs (i\<lparr>pi_refcount := rc_raw 1 b\<rparr>) = Some (2, Some (if b then RkShared else RkCow))" for b
    by (subst rc_abs_rc_raw [of 1 _ b]) auto
  have inc: "unat m < 2 ^ 61 \<Longrightarrow> rc_abs (i\<lparr>pi_refcount := rc_raw (m + 1) sh\<rparr>) =
      Some (unat m + 2, Some (if sh then RkShared else RkCow))"
    using rc_abs_rc_raw [OF small_inc, of m "i\<lparr>pi_refcount := rc_raw (m + 1) sh\<rparr>" sh] nz
    by (simp add: unat_small_Suc [OF m(1)])
  show ?thesis
    unfolding add_ref_rc_raw [OF m] a
    by (cases "m = 0"; cases k; cases sh) (use one inc in \<open>auto simp: not_le not_less\<close>)
qed

text \<open>C6: adding a reference to a used frame never panics, and does to the packed word exactly what
  the abstract operation does to the number of references: one more on success, and the word
  unchanged on each of the three errors, the overflow one included.\<close>

theorem add_ref_refines:
  assumes "rc_abs i = Some a"
  shows "\<exists>i' r. add_ref i k = Inr (i', r) \<and> pi_next i' = pi_next i \<and>
    (case abs_add_ref a k of
       Inl e \<Rightarrow> r = Inl e \<and> i' = i
     | Inr a' \<Rightarrow> r = Inr () \<and> rc_abs i' = Some a')"
  using assms by (rule add_ref_abs)

lemma refcount_2cow: "rc_abs \<lparr>pi_refcount = rc_raw 1 False, pi_next = 0\<rparr> = Some (2, Some RkCow)"
  by (subst rc_abs_rc_raw [of 1 _ False]) auto

theorem add_ref_refines_witness:
  "rc_abs \<lparr>pi_refcount = rc_raw 1 False, pi_next = 0\<rparr> = Some (2, Some RkCow) \<and>
   (\<exists>i' r. add_ref \<lparr>pi_refcount = rc_raw 1 False, pi_next = 0\<rparr> RkCow = Inr (i', r)
     \<and> r = Inr () \<and> rc_abs i' = Some (3, Some RkCow))"
  using refcount_2cow add_ref_refines [OF refcount_2cow, of RkCow] by auto

lemma remove_ref_abs:
  assumes "rc_abs i = Some a"
  shows "\<exists>i' r. remove_ref i = Inr (i', r) \<and> pi_next i' = pi_next i \<and>
    (case abs_remove_ref a of
       None \<Rightarrow> r = None \<and> i' = i
     | Some a' \<Rightarrow> r = refcount i' \<and> rc_abs i' = Some a')"
proof -
  obtain m sh where m: "take_bit 62 m = m" "pi_refcount i = rc_raw m sh"
    and a: "a = (unat m + 1, if m = 0 then None else Some (if sh then RkShared else RkCow))"
    using assms by (rule rc_abs_rawE)
  show ?thesis
  proof (cases "m = 0")
    case True
    then show ?thesis using m a by (simp add: remove_ref_def refcount_def rc_view_def)
  next
    case False
    note d = rc_raw_dec [OF m(1) False]
    let ?i = "i\<lparr>pi_refcount := rc_raw (m - 1) sh\<rparr>"
    have e: "remove_ref i = Inr (?i, Some (rc_view (m - 1) sh))"
      using False d m by (auto simp: remove_ref_def refcount_def rc_view_def)
    have "m = 1 \<longleftrightarrow> unat m = 1" by (metis unat_1 unsigned_word_eqI)
    then have "rc_abs ?i = abs_remove_ref a" "refcount ?i = Some (rc_view (m - 1) sh)"
      using d False unat_gt_0 [of m] a by (auto simp: rc_abs_rc_raw refcount_def)
    then show ?thesis using e False a unat_gt_0 [of m] by (auto split: option.splits)
  qed
qed

text \<open>dropping a reference from a used frame never panics; it reports \<open>None\<close>, and leaves
  the word alone, exactly when the reference was the last one, and otherwise counts one down and
  returns the new count.\<close>

theorem remove_ref_refines:
  assumes "rc_abs i = Some a"
  shows "\<exists>i' r. remove_ref i = Inr (i', r) \<and> pi_next i' = pi_next i \<and>
    (case abs_remove_ref a of
       None \<Rightarrow> r = None \<and> i' = i
     | Some a' \<Rightarrow> r = refcount i' \<and> rc_abs i' = Some a')"
  using assms by (rule remove_ref_abs)

theorem remove_ref_refines_witness:
  "rc_abs \<lparr>pi_refcount = rc_raw 1 False, pi_next = 0\<rparr> = Some (2, Some RkCow) \<and>
   (\<exists>i' r. remove_ref \<lparr>pi_refcount = rc_raw 1 False, pi_next = 0\<rparr> = Inr (i', r)
     \<and> r = refcount i' \<and> rc_abs i' = Some (1, None))"
  using refcount_2cow remove_ref_refines [OF refcount_2cow] by auto

text \<open>An optional frame and an order below the page size survive being packed into one free-list
  word, and the packed word never looks like a used reference count.\<close>

theorem p2frame_roundtrip:
  assumes "\<forall>f. fo = Some f \<longrightarrow> frame_ok f" "order < 4096"
  shows "P2Frame_get (P2Frame_new fo order) = (fo, order) \<and>
    RefCount_from_raw (p2raw (P2Frame_new fo order)) = None"
proof -
  have ok: "case fo of None \<Rightarrow> True | Some f \<Rightarrow> \<exists>n. pfn_ok n \<and> f = pframe n"
    using assms(1) by (auto split: option.splits elim: frame_okE)
  have "P2Frame_get (P2Frame_new fo order) = (fo, order)"
    using ok assms(2) P2Frame_get_new_Some P2Frame_get_new_None by (auto split: option.splits)
  then show ?thesis using P2Frame_new_free [OF ok assms(2)] by (simp add: from_raw_alt)
qed

theorem p2frame_roundtrip_witness:
  "P2Frame_get (P2Frame_new (Some (Frame 0x5000)) 3) = (Some (Frame 0x5000), 3) \<and>
   RefCount_from_raw (p2raw (P2Frame_new (Some (Frame 0x5000)) 3)) = None"
  by (rule p2frame_roundtrip) (simp_all add: frame_ok_def PAGE_MASK_def)

end
