(* ===== verification/Buddy_Blocks.thy ===== *)
theory Buddy_Blocks
  imports Page_Info
begin

text \<open>
  The arithmetic of buddy blocks.  A block is a first page number and an order; a set of blocks
  tiles a set of pages when the blocks are naturally aligned, pairwise disjoint and cover it.
  Splitting a block and merging two buddies keep a tiling, and the buddy of a block of a tiling is
  itself the first page of a block that is no larger.
\<close>

section \<open>Blocks and tilings\<close>

type_synonym block = "nat \<times> nat"

definition blk :: "block \<Rightarrow> nat set" where
  "blk b = {fst b ..< fst b + 2 ^ snd b}"

definition tiling :: "nat \<Rightarrow> block set \<Rightarrow> nat set \<Rightarrow> bool" where
  "tiling mx S D \<longleftrightarrow>
     (\<forall>b\<in>S. snd b \<le> mx \<and> 2 ^ snd b dvd fst b) \<and>
     (\<forall>b\<in>S. \<forall>c\<in>S. b \<noteq> c \<longrightarrow> blk b \<inter> blk c = {}) \<and>
     (\<Union>b\<in>S. blk b) = D"

lemma mem_blk [simp]: "p \<in> blk (n, k) \<longleftrightarrow> n \<le> p \<and> p < n + 2 ^ k"
  by (simp add: blk_def)

lemma fst_in_blk: "fst b \<in> blk b"
  by (simp add: blk_def)

lemma tilingD:
  assumes "tiling mx S D" "(n, k) \<in> S"
  shows "k \<le> mx" "2 ^ k dvd n" "blk (n, k) \<subseteq> D" "n \<in> D"
  using assms fst_in_blk [of "(n, k)"] by (force simp: tiling_def)+

lemma tiling_unique:
  assumes "tiling mx S D" "b \<in> S" "c \<in> S" "p \<in> blk b" "p \<in> blk c"
  shows "b = c"
  using assms unfolding tiling_def by blast

lemma tiling_cover:
  assumes "tiling mx S D" "p \<in> D"
  obtains n k where "(n, k) \<in> S" "p \<in> blk (n, k)"
  using assms unfolding tiling_def by fastforce

lemma blk_split: "blk (n, Suc k) = blk (n, k) \<union> blk (n + 2 ^ k, k)"
  by (auto simp: blk_def)

lemma aligned_halves:
  fixes n :: nat
  assumes "2 ^ Suc k dvd n"
  shows "2 ^ k dvd n" "2 ^ k dvd n + 2 ^ k"
proof -
  show "2 ^ k dvd n" by (rule power_le_dvd [OF assms]) simp
  then show "2 ^ k dvd n + 2 ^ k" by simp
qed

lemma tiling_notin:
  assumes "tiling mx S D" "blk b \<inter> D = {}"
  shows "b \<notin> S"
  using assms fst_in_blk [of b] tilingD(4) [of mx S D "fst b" "snd b"] by auto

lemma tilingI:
  assumes "\<And>b. b \<in> S \<Longrightarrow> snd b \<le> mx \<and> 2 ^ snd b dvd fst b"
    "\<And>b c. b \<in> S \<Longrightarrow> c \<in> S \<Longrightarrow> b \<noteq> c \<Longrightarrow> blk b \<inter> blk c = {}"
    "(\<Union>b\<in>S. blk b) = D"
  shows "tiling mx S D"
  using assms by (simp add: tiling_def)

lemma tilingE:
  assumes "tiling mx S D"
  shows "b \<in> S \<Longrightarrow> snd b \<le> mx" "b \<in> S \<Longrightarrow> 2 ^ snd b dvd fst b"
    "b \<in> S \<Longrightarrow> c \<in> S \<Longrightarrow> b \<noteq> c \<Longrightarrow> blk b \<inter> blk c = {}" "(\<Union>b\<in>S. blk b) = D"
  using assms by (simp_all add: tiling_def)

lemma tiling_insert:
  assumes "b \<notin> S"
  shows "tiling mx (insert b S) D \<longleftrightarrow>
    snd b \<le> mx \<and> 2 ^ snd b dvd fst b \<and> blk b \<subseteq> D \<and> tiling mx S (D - blk b)"
    (is "?L \<longleftrightarrow> ?R")
proof
  assume L: ?L
  have d: "blk b \<inter> blk c = {}" if "c \<in> S" for c
    using tilingE(3) [OF L, of b c] assms that by auto
  have u: "blk b \<union> (\<Union>c\<in>S. blk c) = D" using tilingE(4) [OF L] by simp
  have "tiling mx S (D - blk b)"
  proof (rule tilingI)
    show "(\<Union>c\<in>S. blk c) = D - blk b" using u d by blast
  qed (use tilingE [OF L] in simp_all)
  then show ?R using tilingE(1,2) [OF L, of b] u by auto
next
  assume R: ?R
  then have t: "tiling mx S (D - blk b)" by simp
  have d: "blk b \<inter> blk c = {}" if "c \<in> S" for c
    using tilingE(4) [OF t] that by blast
  show ?L
  proof (rule tilingI)
    show "(\<Union>c\<in>insert b S. blk c) = D" using tilingE(4) [OF t] R by auto
    show "blk x \<inter> blk y = {}" if "x \<in> insert b S" "y \<in> insert b S" "x \<noteq> y" for x y
      using that tilingE(3) [OF t, of x y] d [of x] d [of y] unfolding insert_iff
      by (metis Int_commute)
  qed (use R tilingE(1,2) [OF t] in auto)
qed

lemma blk_split_diff: "D - blk (n, Suc k) = (D - blk (n, k)) - blk (n + 2 ^ k, k)"
  by (auto simp: blk_split simp del: mem_blk)

lemma blk_halves_disjoint: "blk (n, k) \<inter> blk (n + 2 ^ k, k) = {}"
  by (auto simp: blk_def)

lemma tiling_insert_split:
  assumes "tiling mx (insert (n, Suc k) S) D" "(n, Suc k) \<notin> S"
  shows "tiling mx (insert (n, k) (insert (n + 2 ^ k, k) S)) D"
    "(n, k) \<notin> S" "(n + 2 ^ k, k) \<notin> S"
proof -
  have v: "Suc k \<le> mx" "2 ^ Suc k dvd n" "blk (n, Suc k) \<subseteq> D" "tiling mx S (D - blk (n, Suc k))"
    using assms by (auto simp: tiling_insert simp del: power_Suc mem_blk)
  then show ni: "(n, k) \<notin> S" "(n + 2 ^ k, k) \<notin> S"
    by (auto intro!: tiling_notin [OF v(4)] simp: blk_split simp del: mem_blk)
  have "blk (n, k) \<subseteq> D" "blk (n + 2 ^ k, k) \<subseteq> D - blk (n, k)"
    using v(3) blk_halves_disjoint [of n k] unfolding blk_split by blast+
  then show "tiling mx (insert (n, k) (insert (n + 2 ^ k, k) S)) D"
    using v ni aligned_halves [OF v(2)] by (simp add: tiling_insert blk_split_diff del: mem_blk power_Suc)
qed

lemma tiling_insert_merge:
  assumes "tiling mx (insert (n, k) (insert (n + 2 ^ k, k) S)) D"
    "(n, k) \<notin> S" "(n + 2 ^ k, k) \<notin> S" "2 ^ Suc k dvd n" "Suc k \<le> mx"
  shows "tiling mx (insert (n, Suc k) S) D" "(n, Suc k) \<notin> S"
proof -
  have v: "blk (n, k) \<subseteq> D" "blk (n + 2 ^ k, k) \<subseteq> D - blk (n, k)"
    "tiling mx S (D - blk (n, k) - blk (n + 2 ^ k, k))"
    using assms by (auto simp: tiling_insert simp del: power_Suc mem_blk)
  then show ni: "(n, Suc k) \<notin> S"
    by (auto intro!: tiling_notin [OF v(3)] simp: blk_split simp del: mem_blk)
  have "blk (n, Suc k) \<subseteq> D" using v unfolding blk_split by blast
  then show "tiling mx (insert (n, Suc k) S) D"
    using v ni assms(4,5) by (simp add: tiling_insert blk_split_diff del: mem_blk power_Suc)
qed

section \<open>Buddies\<close>

definition buddy :: "nat \<Rightarrow> nat \<Rightarrow> nat" where
  "buddy n k = n XOR 2 ^ k"

lemma buddy_cases:
  assumes "2 ^ k dvd n"
  obtains "bit n k" "buddy n k + 2 ^ k = n" "unset_bit k n = buddy n k" "2 ^ Suc k dvd buddy n k"
  | "\<not> bit n k" "buddy n k = n + 2 ^ k" "unset_bit k n = n" "2 ^ Suc k dvd n"
proof -
  obtain q where q: "n = q * 2 ^ k" using assms by (metis dvd_def mult.commute)
  then have b: "bit n k \<longleftrightarrow> odd q" by (simp add: bit_iff_odd)
  show thesis
  proof (cases "odd q")
    case True
    then obtain r where r: "q = 2 * r + 1" by (elim oddE)
    then have n: "n = r * 2 ^ Suc k + 2 ^ k" using q by (simp add: algebra_simps)
    then have "buddy n k = r * 2 ^ Suc k" using True b by (simp add: buddy_def nat_xor_exp)
    then show thesis using True b n that(1) by (simp add: nat_unset_bit)
  next
    case False
    then have "2 ^ Suc k dvd n" using q by (auto elim!: evenE)
    then show thesis using False b that(2) by (simp add: buddy_def nat_xor_exp nat_unset_bit)
  qed
qed

lemma buddy_aligned: "2 ^ k dvd n \<Longrightarrow> 2 ^ k dvd buddy n k"
  by (erule buddy_cases) (auto dest: aligned_halves simp del: power_Suc)

lemma buddy_buddy [simp]: "buddy (buddy n k) k = n"
  by (simp add: buddy_def xor.assoc)

lemma buddy_neq [simp]: "buddy n k \<noteq> n"
proof
  assume "buddy n k = n"
  then have "bit (buddy n k) k = bit n k" by simp
  then show False by (simp add: buddy_def bit_xor_iff bit_exp_iff)
qed

text \<open>The pair of buddies is the block of the next order.\<close>

lemma buddy_pair:
  assumes "2 ^ k dvd n"
  shows "{(n, k), (buddy n k, k)} = {(unset_bit k n, k), (unset_bit k n + 2 ^ k, k)}"
    "2 ^ Suc k dvd unset_bit k n"
    "n = unset_bit k n \<or> n = unset_bit k n + 2 ^ k"
    "buddy n k = unset_bit k n \<or> buddy n k = unset_bit k n + 2 ^ k"
proof -
  show "2 ^ Suc k dvd unset_bit k n"
    by (rule buddy_cases [OF assms]) simp_all
  show "n = unset_bit k n \<or> n = unset_bit k n + 2 ^ k"
    "buddy n k = unset_bit k n \<or> buddy n k = unset_bit k n + 2 ^ k"
    by (rule buddy_cases [OF assms]; simp)+
  show "{(n, k), (buddy n k, k)} = {(unset_bit k n, k), (unset_bit k n + 2 ^ k, k)}"
    by (rule buddy_cases [OF assms]) (simp_all add: insert_commute)
qed

lemma aligned_in_block:
  assumes "2 ^ k dvd b" "2 ^ m dvd s" "k \<le> m" "s \<in> blk (b, k)"
  shows "s = b"
proof -
  have "2 ^ k dvd s" using assms(2,3) by (meson dvd_trans le_imp_power_dvd)
  then have "2 ^ k dvd s - b" using assms(1) by (rule dvd_diff_nat)
  moreover have "s - b < 2 ^ k" "b \<le> s" using assms(4) by auto
  ultimately show ?thesis by (metis diff_is_0_eq le_antisym nat_dvd_not_less not_gr_zero)
qed

text \<open>Two aligned ranges, the first no longer than the second, that meet are nested.\<close>

lemma aligned_nested:
  fixes u b p q :: nat
  assumes "p dvd u" "p dvd b" "p dvd q" "0 < p" "b < u + p" "u < b + q"
  shows "b \<le> u" "u + p \<le> b + q"
proof -
  obtain x y z where e: "u = p * x" "b = p * y" "q = p * z"
    using assms(1-3) by (auto elim!: dvdE)
  have "p * y < p * (x + 1)" "p * x < p * (y + z)"
    using assms(5,6) unfolding e by (simp_all add: algebra_simps)
  then have "y \<le> x" "x + 1 \<le> y + z" unfolding mult_less_cancel1 by simp_all
  then have "p * y \<le> p * x" "p * (x + 1) \<le> p * (y + z)" by (intro mult_le_mono2; simp)+
  then show "b \<le> u" "u + p \<le> b + q" unfolding e by (simp_all add: algebra_simps)
qed

lemma larger_block_has_buddy:
  assumes "2 ^ k dvd b" "m < k" "2 ^ m dvd n" "buddy n m \<in> blk (b, k)"
  shows "n \<in> blk (b, k)"
proof -
  note bp = buddy_pair [OF assms(3)]
  have d: "2 ^ Suc m dvd (2 ^ k :: nat)" using assms(2) by (intro le_imp_power_dvd) simp
  then have "2 ^ Suc m dvd b" using assms(1) by (rule dvd_trans)
  moreover have z: "(0::nat) < 2 ^ m" by simp
  have "b < unset_bit m n + 2 ^ Suc m" "unset_bit m n < b + 2 ^ k"
    using z assms(4) bp(4) unfolding mem_blk power_Suc by linarith+
  ultimately have "b \<le> unset_bit m n" "unset_bit m n + 2 ^ Suc m \<le> b + 2 ^ k"
    using aligned_nested [OF bp(2) _ d] by simp_all
  then show ?thesis using bp(3) z unfolding mem_blk power_Suc by linarith
qed

lemma tiling_buddy:
  assumes "tiling mx S D" "(n, m) \<in> S" "buddy n m \<in> D"
  obtains k where "k \<le> m" "(buddy n m, k) \<in> S"
proof -
  obtain b k where bk: "(b, k) \<in> S" "buddy n m \<in> blk (b, k)"
    using assms(1,3) by (rule tiling_cover)
  have al: "2 ^ m dvd n" "2 ^ k dvd b" using tilingD [OF assms(1)] bk(1) assms(2) by auto
  have "k \<le> m"
  proof (rule ccontr)
    assume "\<not> k \<le> m"
    then have "n \<in> blk (b, k)" by (intro larger_block_has_buddy [OF al(2) _ al(1) bk(2)]) simp
    then have "(b, k) = (n, m)"
      using fst_in_blk [of "(n, m)"] by (intro tiling_unique [OF assms(1) bk(1) assms(2), of n]) simp_all
    then show False using \<open>\<not> k \<le> m\<close> by simp
  qed
  moreover have "buddy n m = b"
    using aligned_in_block [OF al(2) buddy_aligned [OF al(1)] \<open>k \<le> m\<close> bk(2)] .
  ultimately show thesis using that bk(1) by blast
qed

end
