(* ===== verification/Frame_Store.thy ===== *)
theory Frame_Store
  imports Buddy_Blocks
begin

text \<open>
  The array of sections that holds the metadata of every allocator-owned frame, and its lookup by
  binary search (\<open>sections\<close>, \<open>get_page_info\<close> and \<open>AllocatorData\<close> in
  \<open>src/src/memory/mod.rs\<close>).  A \<open>&'static PageInfo\<close> is a \<open>page_ref\<close>, the
  position of the entry; reading and writing through it are \<open>pi_load\<close> and
  \<open>pi_store\<close>.  The lemmas show that, for sorted non-overlapping sections, the lookup
  never panics and finds exactly the entry of the frame, so that the sections behave as one map
  from page numbers to metadata; this map is the interface \<open>page_store\<close> that the
  allocator proofs use.
\<close>

section \<open>State\<close>

record mem_section =
  sec_base :: frame
  sec_frames :: "page_info list"

text \<open>
  \<open>AllocatorData\<close> and \<open>FreeList\<close>.  \<open>phys_mem\<close> is the content of physical
  memory, which the kernel reaches through its linear mapping.
\<close>

record allocator =
  sections :: "mem_section list"
  abs_off :: usize
  for_orders :: "frame option list"
  used_frames :: usize
  phys_mem :: "usize \<Rightarrow> 8 word"

type_synonym page_ref = "nat \<times> nat"

definition pi_load :: "mem_section list \<Rightarrow> page_ref \<Rightarrow> page_info" where
  "pi_load secs r = sec_frames (secs ! fst r) ! snd r"

definition pi_store :: "mem_section list \<Rightarrow> page_ref \<Rightarrow> page_info \<Rightarrow> mem_section list" where
  "pi_store secs r i =
     secs[fst r := (secs ! fst r)\<lparr>sec_frames := (sec_frames (secs ! fst r))[snd r := i]\<rparr>]"

section \<open>Lookup\<close>

text \<open>
  \<open>[T]::binary_search_by_key\<close>: \<open>Inr i\<close> is \<open>Ok(i)\<close>, an index with that key,
  \<open>Inl i\<close> is \<open>Err(i)\<close>, where the key would be inserted.
\<close>

function bsearch_loop :: "(nat \<Rightarrow> usize) \<Rightarrow> usize \<Rightarrow> nat \<Rightarrow> nat \<Rightarrow> nat + nat" where
  "bsearch_loop key k lo hi =
     (if lo < hi then
        (let mid = lo + (hi - lo) div 2
         in if key mid = k then Inr mid
            else if key mid < k then bsearch_loop key k (Suc mid) hi
            else bsearch_loop key k lo mid)
      else Inl lo)"
  by pat_completeness auto
termination
  by (relation "measure (\<lambda>(key, k, lo, hi). hi - lo)") auto

declare bsearch_loop.simps [simp del]

definition binary_search_by_key :: "mem_section list \<Rightarrow> frame \<Rightarrow> nat + nat" where
  "binary_search_by_key secs f =
     bsearch_loop (\<lambda>i. physaddr (sec_base (secs ! i))) (physaddr f) 0 (length secs)"

definition get_page_info :: "mem_section list \<Rightarrow> frame \<Rightarrow> page_ref option exec" where
  "get_page_info secs frame =
     (let idx_res = binary_search_by_key secs frame
      in if idx_res = Inl 0 then Inr None
         else let idx = (case idx_res of Inr i \<Rightarrow> i | Inl e \<Rightarrow> e - 1)
              in bindE (indexE secs idx) (\<lambda>sec.
                 bindE (Frame_offset_from frame (sec_base sec)) (\<lambda>off.
                   Inr (if unat off < length (sec_frames sec) then Some (idx, unat off)
                        else None))))"

definition get_free_alloc_page_info :: "mem_section list \<Rightarrow> frame \<Rightarrow> page_ref exec" where
  "get_free_alloc_page_info secs frame =
     bindE (get_page_info secs frame) (\<lambda>ro.
     bindE (expectE ro ''allocator-owned frames need a PageInfo'') (\<lambda>r.
     bindE (assertE (pi_kind (pi_load secs r) = Free) ''called unwrap on a None value'') (\<lambda>_.
       Inr r)))"

definition total_frames :: "allocator \<Rightarrow> usize" where
  "total_frames a = of_nat (sum_list (map (\<lambda>s. length (sec_frames s)) (sections a)))"

definition free_frames :: "allocator \<Rightarrow> usize" where
  "free_frames a = total_frames a - used_frames a"

section \<open>Well-formed sections\<close>

definition sec_pfn :: "mem_section \<Rightarrow> nat" where
  "sec_pfn s = unat (physaddr (sec_base s)) div 4096"

definition sec_end :: "mem_section \<Rightarrow> nat" where
  "sec_end s = sec_pfn s + length (sec_frames s)"

definition sections_wf :: "mem_section list \<Rightarrow> bool" where
  "sections_wf secs \<longleftrightarrow>
     (\<forall>s\<in>set secs. frame_ok (sec_base s) \<and> sec_frames s \<noteq> [] \<and> sec_end s \<le> 2 ^ 51) \<and>
     sorted_wrt (\<lambda>s t. sec_end s \<le> sec_pfn t) secs"

text \<open>The entry of a page number.\<close>

definition owns :: "mem_section list \<Rightarrow> nat \<Rightarrow> page_ref \<Rightarrow> bool" where
  "owns secs n r \<longleftrightarrow> fst r < length secs \<and> snd r < length (sec_frames (secs ! fst r)) \<and>
     sec_pfn (secs ! fst r) + snd r = n"

section \<open>The lookup finds exactly the entry of the frame\<close>

lemma unat_of_nat_lt: "n < 2 ^ 64 \<Longrightarrow> unat (of_nat n :: usize) = n"
  by (simp add: unat_of_nat take_bit_eq_mod)

lemma sec_base_pframe:
  assumes "frame_ok (sec_base s)"
  shows "sec_base s = pframe (sec_pfn s)" "pfn_ok (sec_pfn s)"
proof -
  obtain n where n: "pfn_ok n" "sec_base s = pframe n" using assms by (rule frame_okE)
  then have "sec_pfn s = n" by (simp add: sec_pfn_def unat_pframe pfn_ok_def)
  with n show "sec_base s = pframe (sec_pfn s)" "pfn_ok (sec_pfn s)" by simp_all
qed

text \<open>The loop on a strictly increasing key, under its usual invariant.\<close>

lemma bsearch_loop_spec:
  assumes "\<And>i j. i < j \<Longrightarrow> j < n \<Longrightarrow> key i < key j" "hi \<le> n" "lo \<le> hi"
    "\<And>i. i < lo \<Longrightarrow> key i < k" "\<And>i. hi \<le> i \<Longrightarrow> i < n \<Longrightarrow> k < key i"
  shows "case bsearch_loop key k lo hi of
      Inr i \<Rightarrow> i < n \<and> key i = k
    | Inl e \<Rightarrow> e \<le> n \<and> (\<forall>i<e. key i < k) \<and> (\<forall>i. e \<le> i \<and> i < n \<longrightarrow> k < key i)"
  using assms
proof (induction key k lo hi rule: bsearch_loop.induct)
  case (1 key k lo hi)
  let ?m = "lo + (hi - lo) div 2"
  show ?case
  proof (cases "lo < hi")
    case False
    then have "bsearch_loop key k lo hi = Inl lo" by (simp add: bsearch_loop.simps [of key k lo hi])
    then show ?thesis using "1.prems" False by simp
  next
    case True
    then have m: "lo \<le> ?m" "?m < hi" "?m < n" using "1.prems"(2) by auto
    have below: "key i < k" if "key ?m < k" "i < Suc ?m" for i
      using "1.prems"(1) [of i ?m] m(3) that by (cases "i = ?m") (auto intro: less_trans)
    have above: "k < key i" if "\<not> key ?m < k" "key ?m \<noteq> k" "?m \<le> i" "i < n" for i
    proof -
      have "k < key ?m" using that(1,2) by auto
      then show ?thesis using "1.prems"(1) [of ?m i] that by (cases "i = ?m") (auto intro: less_trans)
    qed
    consider "key ?m = k" | "key ?m \<noteq> k" "key ?m < k" | "key ?m \<noteq> k" "\<not> key ?m < k" by blast
    then show ?thesis
    proof cases
      case 1
      then show ?thesis using True m by (simp add: bsearch_loop.simps [of key k lo hi] Let_def)
    next
      case 2
      then have "bsearch_loop key k lo hi = bsearch_loop key k (Suc ?m) hi"
        using True by (simp add: bsearch_loop.simps [of key k lo hi] Let_def)
      then show ?thesis
        using "1.IH"(1) [OF True refl 2 "1.prems"(1,2) _ _ "1.prems"(5)] m below [OF 2(2)] by simp
    next
      case 3
      then have "bsearch_loop key k lo hi = bsearch_loop key k lo ?m"
        using True by (simp add: bsearch_loop.simps [of key k lo hi] Let_def)
      then show ?thesis
        using "1.IH"(2) [OF True refl 3 "1.prems"(1) _ m(1) "1.prems"(4)] m above [OF 3(2,1)] by simp
    qed
  qed
qed

lemma sections_wf_nth:
  assumes "sections_wf secs" "i < length secs"
  shows "frame_ok (sec_base (secs ! i))" "sec_frames (secs ! i) \<noteq> []" "sec_end (secs ! i) \<le> 2 ^ 51"
    "j < i \<Longrightarrow> sec_end (secs ! j) \<le> sec_pfn (secs ! i)"
  using assms nth_mem [OF assms(2)] by (auto simp: sections_wf_def sorted_wrt_iff_nth_less)

lemma sec_pfn_less:
  assumes "sections_wf secs" "i < j" "j < length secs"
  shows "sec_pfn (secs ! i) < sec_pfn (secs ! j)"
proof -
  have "sec_pfn (secs ! i) < sec_end (secs ! i)"
    using sections_wf_nth(2) [OF assms(1), of i] assms(2,3) by (simp add: sec_end_def)
  also have "\<dots> \<le> sec_pfn (secs ! j)" using sections_wf_nth(4) assms by blast
  finally show ?thesis .
qed

lemma owns_unique:
  assumes "sections_wf secs" "owns secs n r" "owns secs n r'"
  shows "r = r'"
proof -
  have ge: False if "fst p < fst q" "owns secs n p" "owns secs n q" for p q
  proof -
    have "sec_end (secs ! fst p) \<le> sec_pfn (secs ! fst q)"
      using that sections_wf_nth(4) [OF assms(1), of "fst q" "fst p"] by (simp add: owns_def)
    then show False using that by (auto simp: owns_def sec_end_def)
  qed
  have "fst r = fst r'" using ge [of r r'] ge [of r' r] assms(2,3) by (meson linorder_neqE_nat)
  then show ?thesis using assms(2,3) by (cases r; cases r') (auto simp: owns_def)
qed

lemma owns_pfn_ok: "sections_wf secs \<Longrightarrow> owns secs n r \<Longrightarrow> pfn_ok n"
  using sections_wf_nth [of secs "fst r"] sec_base_pframe(2) [of "secs ! fst r"]
  by (auto simp: owns_def pfn_ok_def sec_end_def)

lemma sec_key:
  assumes "sections_wf secs" "i < length secs"
  shows "unat (physaddr (sec_base (secs ! i))) = sec_pfn (secs ! i) * 4096"
  using sec_base_pframe [OF sections_wf_nth(1) [OF assms]] unat_pframe [of "sec_pfn (secs ! i)"]
  by (simp add: pfn_ok_def)

lemma binary_search_spec:
  assumes wf: "sections_wf secs" and n: "pfn_ok n"
  shows "case binary_search_by_key secs (pframe n) of
      Inr i \<Rightarrow> i < length secs \<and> sec_pfn (secs ! i) = n
    | Inl e \<Rightarrow> e \<le> length secs \<and> (\<forall>i<e. sec_pfn (secs ! i) < n) \<and>
        (\<forall>i. e \<le> i \<and> i < length secs \<longrightarrow> n < sec_pfn (secs ! i))"
proof -
  let ?key = "\<lambda>i. physaddr (sec_base (secs ! i))"
  have nu: "unat (physaddr (pframe n)) = n * 4096" using n by (simp add: unat_pframe pfn_ok_def)
  have "case bsearch_loop ?key (physaddr (pframe n)) 0 (length secs) of
      Inr i \<Rightarrow> i < length secs \<and> ?key i = physaddr (pframe n)
    | Inl e \<Rightarrow> e \<le> length secs \<and> (\<forall>i<e. ?key i < physaddr (pframe n)) \<and>
        (\<forall>i. e \<le> i \<and> i < length secs \<longrightarrow> physaddr (pframe n) < ?key i)"
    by (rule bsearch_loop_spec)
      (auto simp: word_less_nat_alt sec_key [OF wf] sec_pfn_less [OF wf])
  then show ?thesis
    unfolding binary_search_by_key_def
    by (auto simp: word_less_nat_alt word_unat_eq_iff nu sec_key [OF wf] split: sum.splits)
qed

lemma get_page_info_in:
  assumes wf: "sections_wf secs" and n: "pfn_ok n" and i: "i < length secs" "sec_pfn (secs ! i) \<le> n"
    and res: "binary_search_by_key secs (pframe n) = Inr i \<or> binary_search_by_key secs (pframe n) = Inl (Suc i)"
  shows "get_page_info secs (pframe n) =
    Inr (if n < sec_end (secs ! i) then Some (i, n - sec_pfn (secs ! i)) else None)"
proof -
  note b = sec_base_pframe [OF sections_wf_nth(1) [OF wf i(1)]]
  have nl: "n < PFN_LIM" "n < 2 ^ 64" using n by (auto simp: pfn_ok_def)
  then have u: "unat (of_nat (n - sec_pfn (secs ! i)) :: usize) = n - sec_pfn (secs ! i)"
    by (simp add: unat_of_nat_lt)
  have off: "Frame_offset_from (pframe n) (sec_base (secs ! i)) = Inr (of_nat (n - sec_pfn (secs ! i)))"
    using offset_from_pframe [OF i(2) nl(1)] b(1) by simp
  have lt: "n - sec_pfn (secs ! i) < length (sec_frames (secs ! i)) \<longleftrightarrow> n < sec_end (secs ! i)"
    using i(2) by (auto simp: sec_end_def)
  from res show ?thesis
    by (elim disjE) (simp_all add: get_page_info_def i(1) off u lt)
qed

lemma get_page_info_correct:
  assumes wf: "sections_wf secs" and n: "pfn_ok n"
  shows "\<exists>ro. get_page_info secs (pframe n) = Inr ro \<and> (\<forall>r. ro = Some r \<longleftrightarrow> owns secs n r)"
proof -
  let ?res = "binary_search_by_key secs (pframe n)"
  have lt: "\<not> owns secs n r" if "i \<le> fst r" "fst r < length secs \<longrightarrow> n < sec_pfn (secs ! fst r)" for i r
    using that by (auto simp: owns_def)
  have spec: ?thesis if i: "i < length secs" "sec_pfn (secs ! i) \<le> n"
      "\<forall>j. i < j \<and> j < length secs \<longrightarrow> n < sec_pfn (secs ! j)"
    and res: "?res = Inr i \<or> ?res = Inl (Suc i)" for i
  proof -
    have "owns secs n r \<longleftrightarrow> n < sec_end (secs ! i) \<and> r = (i, n - sec_pfn (secs ! i))" for r
    proof
      assume o: "owns secs n r"
      have "\<not> i < fst r" using o i(3) by (auto simp: owns_def)
      moreover have "\<not> fst r < i"
        using o i(2) sections_wf_nth(4) [OF wf i(1), of "fst r"] by (auto simp: owns_def sec_end_def)
      ultimately have "fst r = i" by simp
      then show "n < sec_end (secs ! i) \<and> r = (i, n - sec_pfn (secs ! i))"
        using o by (cases r) (auto simp: owns_def sec_end_def)
    qed (use i in \<open>auto simp: owns_def sec_end_def\<close>)
    then show ?thesis using get_page_info_in [OF wf n i(1,2) res] by auto
  qed
  show ?thesis
  proof (cases ?res)
    case (Inr i)
    then have i: "i < length secs" "sec_pfn (secs ! i) = n" using binary_search_spec [OF wf n] by auto
    then show ?thesis using spec [of i] sec_pfn_less [OF wf, of i] Inr by auto
  next
    case (Inl e)
    then have e: "e \<le> length secs" "\<forall>i<e. sec_pfn (secs ! i) < n"
        "\<forall>i. e \<le> i \<and> i < length secs \<longrightarrow> n < sec_pfn (secs ! i)"
      using binary_search_spec [OF wf n] by auto
    show ?thesis
    proof (cases e)
      case 0
      then have "\<not> owns secs n r" for r using e(3) by (auto simp: owns_def)
      then show ?thesis using Inl 0 by (auto simp: get_page_info_def)
    next
      case (Suc i)
      then show ?thesis using spec [of i] e Inl by auto
    qed
  qed
qed

section \<open>The sections as a map from page numbers to metadata\<close>

definition pinfo :: "mem_section list \<Rightarrow> nat \<Rightarrow> page_info option" where
  "pinfo secs n =
     (case get_page_info secs (pframe n) of Inr (Some r) \<Rightarrow> if pfn_ok n then Some (pi_load secs r)
                         else None | _ \<Rightarrow> None)"

lemma get_page_info_cases:
  assumes "sections_wf secs" "pfn_ok n"
  obtains r where "get_page_info secs (pframe n) = Inr (Some r)" "owns secs n r"
      "pinfo secs n = Some (pi_load secs r)"
  | "get_page_info secs (pframe n) = Inr None" "pinfo secs n = None"
proof -
  obtain ro where ro: "get_page_info secs (pframe n) = Inr ro" "\<forall>r. ro = Some r \<longleftrightarrow> owns secs n r"
    using get_page_info_correct [OF assms] by blast
  show thesis
    using ro that assms(2) by (cases ro) (auto simp: pinfo_def)
qed

lemma pinfo_SomeD:
  assumes "sections_wf secs" "pinfo secs n = Some i"
  obtains r where "get_page_info secs (pframe n) = Inr (Some r)" "owns secs n r" "pi_load secs r = i" "pfn_ok n"
proof -
  have "pfn_ok n" using assms(2) by (auto simp: pinfo_def split: sum.splits option.splits if_splits)
  then show thesis
    using get_page_info_cases [OF assms(1), of n] that assms(2) by (metis option.distinct(1) option.inject)
qed

lemma owns_get:
  assumes "sections_wf secs" "owns secs n r"
  shows "get_page_info secs (pframe n) = Inr (Some r)" "pinfo secs n = Some (pi_load secs r)"
proof -
  obtain ro where "get_page_info secs (pframe n) = Inr ro" "\<forall>r. ro = Some r \<longleftrightarrow> owns secs n r"
    using get_page_info_correct [OF assms(1) owns_pfn_ok [OF assms]] by blast
  then show "get_page_info secs (pframe n) = Inr (Some r)" using assms(2) by metis
  then show "pinfo secs n = Some (pi_load secs r)" using owns_pfn_ok [OF assms] by (simp add: pinfo_def)
qed

text \<open>Writing an entry leaves the shape of the sections alone.\<close>

lemma pi_store_shape [simp]:
  "length (pi_store secs r i) = length secs"
  "k < length secs \<Longrightarrow> sec_base (pi_store secs r i ! k) = sec_base (secs ! k)"
  "k < length secs \<Longrightarrow> length (sec_frames (pi_store secs r i ! k)) = length (sec_frames (secs ! k))"
  by (cases "k = fst r"; simp add: pi_store_def)+

lemma pi_store_pfn [simp]:
  "k < length secs \<Longrightarrow> sec_pfn (pi_store secs r i ! k) = sec_pfn (secs ! k)"
  "k < length secs \<Longrightarrow> sec_end (pi_store secs r i ! k) = sec_end (secs ! k)"
  "k < length secs \<Longrightarrow> sec_frames (pi_store secs r i ! k) = [] \<longleftrightarrow> sec_frames (secs ! k) = []"
  by (simp_all add: sec_pfn_def sec_end_def flip: length_0_conv)

lemma owns_pi_store [simp]: "owns (pi_store secs r i) n r' \<longleftrightarrow> owns secs n r'"
  by (auto simp: owns_def sec_pfn_def)

lemma sections_wf_alt:
  "sections_wf secs \<longleftrightarrow>
     (\<forall>i<length secs. frame_ok (sec_base (secs ! i)) \<and> sec_frames (secs ! i) \<noteq> [] \<and> sec_end (secs ! i) \<le> 2 ^ 51) \<and>
     (\<forall>j<length secs. \<forall>i<j. sec_end (secs ! i) \<le> sec_pfn (secs ! j))"
  by (auto simp: sections_wf_def all_set_conv_all_nth sorted_wrt_iff_nth_less)

lemma sections_wf_pi_store [simp]: "sections_wf (pi_store secs r i) \<longleftrightarrow> sections_wf secs"
  by (simp add: sections_wf_alt less_trans [of _ _ "length secs"] cong: conj_cong)

lemma pi_load_store:
  assumes "fst r < length secs" "snd r < length (sec_frames (secs ! fst r))"
  shows "pi_load (pi_store secs r i) r' = (if r' = r then i else pi_load secs r')"
  using assms by (cases r; cases r') (auto simp: pi_load_def pi_store_def nth_list_update)

lemma pinfo_pi_store:
  assumes wf: "sections_wf secs" and r: "owns secs n r"
  shows "pinfo (pi_store secs r i) = (pinfo secs)(n \<mapsto> i)"
proof
  fix m
  have wf': "sections_wf (pi_store secs r i)" using wf by simp
  show "pinfo (pi_store secs r i) m = ((pinfo secs)(n \<mapsto> i)) m"
  proof (cases "\<exists>q. owns secs m q")
    case True
    then obtain q where q: "owns secs m q" by blast
    then have "pinfo (pi_store secs r i) m = Some (pi_load (pi_store secs r i) q)"
      using owns_get(2) [OF wf'] by simp
    moreover have "q = r \<longleftrightarrow> m = n"
      using owns_unique [OF wf q] q r by (metis owns_def)
    ultimately show ?thesis using q r owns_get(2) [OF wf q] by (simp add: pi_load_store owns_def)
  next
    case False
    then have "pinfo (pi_store secs r i) m = None" "pinfo secs m = None" "m \<noteq> n"
      using r pinfo_SomeD [OF wf] pinfo_SomeD [OF wf'] by (metis not_Some_eq owns_pi_store)+
    then show ?thesis by simp
  qed
qed

end
