(* ===== verification/Free_List.thy ===== *)
theory Free_List
  imports Frame_Store
begin

text \<open>
  The doubly linked free lists that are threaded through the metadata of free frames: each node
  stores the packed links to its neighbours and the order of its list.  The lemmas are proved
  once for any store that satisfies \<open>page_store\<close>, and the sections of
  \<^verbatim>\<open>Frame_Store\<close> are shown to be one.
\<close>

section \<open>Linked segments\<close>

definition link :: "nat option \<Rightarrow> nat \<Rightarrow> usize" where
  "link po k = p2raw (P2Frame_new (map_option pframe po) k)"

definition node :: "nat \<Rightarrow> nat option \<Rightarrow> nat option \<Rightarrow> page_info" where
  "node k p q = \<lparr>pi_refcount = link p k, pi_next = link q k\<rparr>"

definition first_or :: "nat list \<Rightarrow> nat option \<Rightarrow> nat option" where
  "first_or ns q = (case ns of [] \<Rightarrow> q | m # _ \<Rightarrow> Some m)"

definition last_or :: "nat option \<Rightarrow> nat list \<Rightarrow> nat option" where
  "last_or p ns = (if ns = [] then p else Some (last ns))"

text \<open>\<open>seg g k p ns q\<close>: the nodes \<open>ns\<close> of order \<open>k\<close> are linked in this
  order, the first to \<open>p\<close> and the last to \<open>q\<close>.\<close>

fun seg :: "(nat \<Rightarrow> page_info option) \<Rightarrow> nat \<Rightarrow> nat option \<Rightarrow> nat list \<Rightarrow> nat option \<Rightarrow> bool" where
  "seg g k p [] q = True"
| "seg g k p (n # ns) q = (g n = Some (node k p (first_or ns q)) \<and> seg g k (Some n) ns q)"

lemma first_or_simps [simp]:
  "first_or [] q = q" "first_or (n # ns) q = Some n"
  "first_or (xs @ ys) q = first_or xs (first_or ys q)"
  by (auto simp: first_or_def split: list.splits)

lemma last_or_simps [simp]:
  "last_or p [] = p" "last_or p (n # ns) = last_or (Some n) ns"
  "last_or p (ns @ [n]) = Some n"
  by (auto simp: last_or_def)

lemma seg_append [simp]:
  "seg g k p (xs @ ys) q \<longleftrightarrow> seg g k p xs (first_or ys q) \<and> seg g k (last_or p xs) ys q"
  by (induction xs arbitrary: p) auto

lemma seg_upd_other [simp]: "n \<notin> set ns \<Longrightarrow> seg (g(n \<mapsto> i)) k p ns q = seg g k p ns q"
  by (induction ns arbitrary: p) auto

lemma seg_dom: "seg g k p ns q \<Longrightarrow> n \<in> set ns \<Longrightarrow> \<exists>a b. g n = Some (node k a b)"
  by (induction ns arbitrary: p) auto

lemma seg_relink_prev:
  "distinct (n # ns) \<Longrightarrow> seg g k p (n # ns) q \<Longrightarrow> seg (g(n \<mapsto> node k p' (first_or ns q))) k p' (n # ns) q"
  by auto

lemma seg_relink_next:
  "distinct (ns @ [n]) \<Longrightarrow> seg g k p (ns @ [n]) q \<Longrightarrow>
   seg (g(n \<mapsto> node k (last_or p ns) q')) k p (ns @ [n]) q'"
  by simp

lemma node_update [simp]:
  "(node k p q)\<lparr>pi_refcount := link p' k\<rparr> = node k p' q"
  "(node k p q)\<lparr>pi_next := link q' k\<rparr> = node k p q'"
  by (simp_all add: node_def)

section \<open>Reading a node\<close>

definition pfn_opt_ok :: "nat option \<Rightarrow> bool" where
  "pfn_opt_ok po \<longleftrightarrow> (case po of None \<Rightarrow> True | Some n \<Rightarrow> pfn_ok n)"

lemma link_get:
  assumes "pfn_opt_ok po" "k < 4096"
  shows "P2Frame_get (P2Frame (link po k)) = (map_option pframe po, k)"
  using assms by (cases po) (simp_all add: link_def pfn_opt_ok_def P2Frame_get_new_Some P2Frame_get_new_None)

lemma link_free: "pfn_opt_ok po \<Longrightarrow> k < 4096 \<Longrightarrow> \<not> bit (link po k) 63"
  unfolding link_def by (rule P2Frame_new_free) (auto simp: pfn_opt_ok_def split: option.splits)

lemma node_free: "pfn_opt_ok p \<Longrightarrow> k < 4096 \<Longrightarrow> pi_kind (node k p q) = Free"
  using link_free [of p k] pi_kind_Used_iff [of "node k p q"]
  by (cases "pi_kind (node k p q)") (auto simp: node_def)

lemma node_next [simp]:
  assumes "pfn_opt_ok q" "k < 4096"
  shows "P2Frame_frame (free_next (node k p q)) = map_option pframe q"
    "P2Frame_order (free_next (node k p q)) = k"
  using link_get [OF assms] by (simp_all add: free_next_def node_def P2Frame_frame_def P2Frame_order_def)

lemma node_prev [simp]:
  assumes "pfn_opt_ok p" "k < 4096"
  shows "P2Frame_frame (free_prev (node k p q)) = map_option pframe p"
    "P2Frame_order (free_prev (node k p q)) = k"
  using link_get [OF assms] by (simp_all add: free_prev_def node_def P2Frame_frame_def P2Frame_order_def)

lemma make_free_node: "make_free i k = node k None None"
  by (cases i) (simp add: make_free_def node_def link_def P2Frame_new_def)

text \<open>Links between aligned frames pass the alignment assertions of the setters.\<close>

definition pfn_opt_aligned :: "nat option \<Rightarrow> nat \<Rightarrow> bool" where
  "pfn_opt_aligned po k \<longleftrightarrow> (case po of None \<Rightarrow> True | Some n \<Rightarrow> pfn_ok n \<and> 2 ^ k dvd n)"

lemma pfn_opt_aligned_ok: "pfn_opt_aligned po k \<Longrightarrow> pfn_opt_ok po"
  by (auto simp: pfn_opt_aligned_def pfn_opt_ok_def split: option.splits)

lemma pfn_opt_simps [simp]:
  "pfn_opt_ok None" "pfn_opt_ok (Some n) \<longleftrightarrow> pfn_ok n"
  "pfn_opt_aligned None k" "pfn_opt_aligned (Some n) k \<longleftrightarrow> pfn_ok n \<and> 2 ^ k dvd n"
  by (simp_all add: pfn_opt_ok_def pfn_opt_aligned_def)

lemma p2frame_aligned_link:
  assumes "pfn_opt_aligned po k" "k \<le> 51"
  shows "p2frame_aligned (P2Frame (link po k))"
proof -
  have "P2Frame_get (P2Frame (link po k)) = (map_option pframe po, k)"
    using link_get [OF pfn_opt_aligned_ok [OF assms(1)]] assms(2) by simp
  then show ?thesis
    using assms by (cases po)
      (auto simp: p2frame_aligned_def P2Frame_frame_def P2Frame_order_def aligned_pframe pfn_ok_def)
qed

lemma set_next_link:
  assumes "pfn_opt_aligned po k" "k \<le> 51"
  shows "free_set_next i (P2Frame (link po k)) = Inr (i\<lparr>pi_next := link po k\<rparr>)"
  using p2frame_aligned_link [OF assms] by (simp add: free_set_next_def)

lemma set_prev_link:
  assumes "pfn_opt_aligned po k" "k \<le> 51"
  shows "free_set_prev i (P2Frame (link po k)) = Inr (i\<lparr>pi_refcount := link po k\<rparr>)"
  using p2frame_aligned_link [OF assms] by (simp add: free_set_prev_def)

lemma P2Frame_new_link:
  "P2Frame_new None k = P2Frame (link None k)"
  "P2Frame_new (Some (pframe n)) k = P2Frame (link (Some n) k)"
  by (simp_all add: link_def)

lemma free_links_node [simp]:
  "free_next (node k p q) = P2Frame (link q k)" "free_prev (node k p q) = P2Frame (link p k)"
  by (simp_all add: free_next_def free_prev_def node_def)

section \<open>The store interface\<close>

text \<open>
  What the allocator relies on: an entry that exists can be overwritten, and nothing else changes.
\<close>

locale page_store =
  fixes ok :: "'s \<Rightarrow> bool"
    and look :: "'s \<Rightarrow> nat \<Rightarrow> page_info option"
    and put :: "'s \<Rightarrow> nat \<Rightarrow> page_info \<Rightarrow> 's"
  assumes look_put: "ok s \<Longrightarrow> look s n \<noteq> None \<Longrightarrow> look (put s n i) = (look s)(n \<mapsto> i)"
    and ok_put: "ok s \<Longrightarrow> ok (put s n i)"
    and look_pfn: "ok s \<Longrightarrow> look s n \<noteq> None \<Longrightarrow> pfn_ok n"
begin

definition unlink :: "'s \<Rightarrow> nat \<Rightarrow> nat list \<Rightarrow> nat list \<Rightarrow> 's" where
  "unlink s k xs ys =
     (let s1 = (if xs = [] then s else put s (last xs) (node k (last_or None (butlast xs)) (first_or ys None)))
      in if ys = [] then s1 else put s1 (hd ys) (node k (last_or None xs) (first_or (tl ys) None)))"

lemma dom_put: "ok s \<Longrightarrow> look s n \<noteq> None \<Longrightarrow> dom (look (put s n i)) = dom (look s)"
  by (auto simp: look_put)

text \<open>Taking a node out of a list relinks its two neighbours and nothing else.\<close>

lemma unlink_seg:
  assumes ok: "ok s" and d: "distinct (xs @ n # ys)" and l: "seg (look s) k None (xs @ n # ys) None"
  shows "ok (unlink s k xs ys)"
    "dom (look (unlink s k xs ys)) = dom (look s)"
    "seg (look (unlink s k xs ys)) k None (xs @ ys) None"
    "m \<notin> set (xs @ ys) \<Longrightarrow> look (unlink s k xs ys) m = look s m"
proof -
  let ?i = "node k (last_or None (butlast xs)) (first_or ys None)"
  define s1 where "s1 = (if xs = [] then s else put s (last xs) ?i)"
  have ul: "unlink s k xs ys =
      (if ys = [] then s1 else put s1 (hd ys) (node k (last_or None xs) (first_or (tl ys) None)))"
    by (simp add: unlink_def s1_def Let_def)
  have ex: "look s m \<noteq> None" if "m \<in> set (xs @ n # ys)" for m
    using seg_dom [OF l that] by auto
  have ok1: "ok s1" using ok by (simp add: ok_put s1_def)
  have l1: "look s1 = (if xs = [] then look s else (look s)(last xs \<mapsto> ?i))"
    using ex [of "last xs"] ok by (simp add: look_put s1_def)
  have sg1: "seg (look s1) k None xs (first_or ys None)"
  proof (cases xs rule: rev_cases)
    case (snoc zs z)
    then have "seg ((look s)(z \<mapsto> node k (last_or None zs) (first_or ys None))) k None (zs @ [z]) (first_or ys None)"
      using d l by (intro seg_relink_next) auto
    then show ?thesis using l1 snoc by simp
  qed simp
  have "last xs \<notin> set ys" if "xs \<noteq> []" using d last_in_set [OF that] by auto
  then have s2: "seg (look s1) k (Some n) ys None"
    using l by (auto simp: l1 simp del: last_or_simps)
  have yz: "y \<notin> set xs" if "y \<in> set ys" for y using d that by auto
  have r: "ok (unlink s k xs ys) \<and> dom (look (unlink s k xs ys)) = dom (look s) \<and>
      seg (look (unlink s k xs ys)) k None (xs @ ys) None \<and>
      (\<forall>m. m \<notin> set (xs @ ys) \<longrightarrow> look (unlink s k xs ys) m = look s m)"
  proof (cases ys)
    case Nil
    then have u: "unlink s k xs ys = s1" using ul by simp
    show ?thesis unfolding u using Nil ok1 sg1 ex [of "last xs"] by (auto simp: l1 split: if_splits)
  next
    case (Cons y zs)
    have ey: "look s1 y \<noteq> None" using ex [of y] Cons by (auto simp: l1)
    have l2: "look (unlink s k xs ys) = (look s1)(y \<mapsto> node k (last_or None xs) (first_or zs None))"
      using ul Cons look_put [OF ok1 ey] by simp
    have "seg ((look s1)(y \<mapsto> node k (last_or None xs) (first_or zs None))) k (last_or None xs) (y # zs) None"
      using s2 d Cons by (intro seg_relink_prev) auto
    moreover have "seg (look (unlink s k xs ys)) k None xs (first_or ys None)"
      using sg1 yz Cons unfolding l2 by simp
    moreover have "ok (unlink s k xs ys)" using ul ok1 Cons by (simp add: ok_put)
    moreover have "dom (look (unlink s k xs ys)) = dom (look s)"
      using ey ex [of "last xs"] unfolding l2 by (auto simp: l1 split: if_splits)
    ultimately show ?thesis using Cons l2 by (auto simp: l1 simp del: last_or_simps)
  qed
  then show "ok (unlink s k xs ys)"
    "dom (look (unlink s k xs ys)) = dom (look s)"
    "seg (look (unlink s k xs ys)) k None (xs @ ys) None"
    "m \<notin> set (xs @ ys) \<Longrightarrow> look (unlink s k xs ys) m = look s m" by blast+
qed

definition push_front :: "'s \<Rightarrow> nat \<Rightarrow> nat \<Rightarrow> nat list \<Rightarrow> 's" where
  "push_front s k n ns =
     (let s1 = put s n (node k None (first_or ns None))
      in if ns = [] then s1 else put s1 (hd ns) (node k (Some n) (first_or (tl ns) None)))"

lemma push_front_seg:
  assumes ok: "ok s" and d: "distinct (n # ns)" and l: "seg (look s) k None ns None" and n: "look s n \<noteq> None"
  shows "ok (push_front s k n ns)"
    "dom (look (push_front s k n ns)) = dom (look s)"
    "seg (look (push_front s k n ns)) k None (n # ns) None"
    "m \<notin> set (n # ns) \<Longrightarrow> look (push_front s k n ns) m = look s m"
proof -
  define s1 where "s1 = put s n (node k None (first_or ns None))"
  have pf: "push_front s k n ns =
      (if ns = [] then s1 else put s1 (hd ns) (node k (Some n) (first_or (tl ns) None)))"
    by (simp add: push_front_def s1_def Let_def)
  have ok1: "ok s1" using ok by (simp add: s1_def ok_put)
  have l1: "look s1 = (look s)(n \<mapsto> node k None (first_or ns None))" using ok n by (simp add: s1_def look_put)
  have r: "ok (push_front s k n ns) \<and> dom (look (push_front s k n ns)) = dom (look s) \<and>
      seg (look (push_front s k n ns)) k None (n # ns) None \<and>
      (\<forall>m. m \<notin> set (n # ns) \<longrightarrow> look (push_front s k n ns) m = look s m)"
  proof (cases ns)
    case Nil
    then have u: "push_front s k n ns = s1" using pf by simp
    show ?thesis unfolding u using Nil ok1 n by (auto simp: l1)
  next
    case (Cons y zs)
    have ey: "look s1 y \<noteq> None" unfolding l1 using seg_dom [OF l, of y] Cons by auto
    have l2: "look (push_front s k n ns) = (look s1)(y \<mapsto> node k (Some n) (first_or zs None))"
      using pf Cons look_put [OF ok1 ey] by simp
    have "seg (look s1) k None (y # zs) None" using l d Cons by (simp add: l1)
    then have "seg (look (push_front s k n ns)) k (Some n) (y # zs) None"
      using d Cons unfolding l2 by (intro seg_relink_prev) auto
    moreover have "look (push_front s k n ns) n = Some (node k None (Some y))"
      unfolding l2 l1 using d Cons by auto
    moreover have "ok (push_front s k n ns)" using pf ok1 Cons by (simp add: ok_put)
    moreover have "dom (look (push_front s k n ns)) = dom (look s)"
      using ey n unfolding l2 by (auto simp: l1 split: if_splits)
    ultimately show ?thesis using Cons l2 by (auto simp: l1)
  qed
  then show "ok (push_front s k n ns)"
    "dom (look (push_front s k n ns)) = dom (look s)"
    "seg (look (push_front s k n ns)) k None (n # ns) None"
    "m \<notin> set (n # ns) \<Longrightarrow> look (push_front s k n ns) m = look s m" by blast+
qed

end

section \<open>The sections are a page store\<close>

definition put_info :: "mem_section list \<Rightarrow> nat \<Rightarrow> page_info \<Rightarrow> mem_section list" where
  "put_info secs n i =
     (case get_page_info secs (pframe n) of Inr (Some r) \<Rightarrow> pi_store secs r i | _ \<Rightarrow> secs)"

interpretation sec: page_store sections_wf pinfo put_info
proof unfold_locales
  fix s n i
  assume wf: "sections_wf s"
  show "pfn_ok n" if "pinfo s n \<noteq> None" using that pinfo_SomeD [OF wf] by blast
  show "sections_wf (put_info s n i)"
    using wf by (simp add: put_info_def split: sum.splits option.splits)
  show "pinfo (put_info s n i) = (pinfo s)(n \<mapsto> i)" if e: "pinfo s n \<noteq> None"
  proof -
    obtain r where "get_page_info s (pframe n) = Inr (Some r)" "owns s n r"
      using e pinfo_SomeD [OF wf] by blast
    then show ?thesis using pinfo_pi_store [OF wf] by (simp add: put_info_def)
  qed
qed

end
