(* ===== verification/Frame_Allocator.thy ===== *)
theory Frame_Allocator
  imports Free_List
begin

text \<open>
  The physical frame allocator (\<open>allocate_p2frame_complex\<close>, \<open>deallocate_p2frame\<close>
  and their wrappers in \<open>src/src/memory/mod.rs\<close>): a buddy allocator with one free list per
  power-of-two order.  The invariant says that the free blocks, the blocks handed out and the
  blocks reserved at boot tile the managed pages, that the free lists hold exactly the free blocks,
  and that no two free blocks are buddies.  Allocation and deallocation keep it and never panic.
\<close>

section \<open>Operations\<close>

definition ORDER_COUNT :: nat where "ORDER_COUNT = 11"
definition MAX_ORDER :: nat where "MAX_ORDER = ORDER_COUNT - 1"

fun find_map :: "('a \<Rightarrow> 'b option) \<Rightarrow> 'a list \<Rightarrow> 'b option" where
  "find_map f [] = None"
| "find_map f (x # xs) = (case f x of Some y \<Rightarrow> Some y | None \<Rightarrow> find_map f xs)"

text \<open>\<open>for_orders.iter().enumerate().skip(min_order).find_map(..)\<close>\<close>

definition find_free_order :: "frame option list \<Rightarrow> nat \<Rightarrow> (nat \<times> frame) option" where
  "find_free_order hs min_order =
     find_map (\<lambda>(i, f). map_option (\<lambda>f. (i, f)) f) (drop min_order (enumerate 0 hs))"

definition write_bytes :: "(usize \<Rightarrow> 8 word) \<Rightarrow> usize \<Rightarrow> 8 word \<Rightarrow> usize \<Rightarrow> usize \<Rightarrow> 8 word" where
  "write_bytes mem p v count = (\<lambda>x. if p \<le> x \<and> unat x < unat p + unat count then v else mem x)"

text \<open>The block that follows the taken head becomes the head.\<close>

definition pop_relink :: "frame \<Rightarrow> nat \<Rightarrow> p2frame \<Rightarrow> mem_section list \<Rightarrow> mem_section list exec" where
  "pop_relink frame frame_order next_free secs =
     (case P2Frame_frame next_free of
        None \<Rightarrow> Inr secs
      | Some next \<Rightarrow>
          bindE (get_free_alloc_page_info secs next) (\<lambda>f.
          bindE (assertE (P2Frame_frame (free_prev (pi_load secs f)) = Some frame)
                   ''f.prev().frame() != Some(frame)'') (\<lambda>_.
          bindE (assertE (next \<noteq> frame) ''next == frame'') (\<lambda>_.
          bindE (assertE (is_aligned_to_order next frame_order) ''NEXT UNALIGNED'') (\<lambda>_.
          bindE (free_set_prev (pi_load secs f) (P2Frame_new None frame_order)) (\<lambda>i.
            Inr (pi_store secs f i)))))))"

text \<open>One round of the split loop: the upper half becomes a free block of its own.\<close>

definition split_step :: "frame \<Rightarrow> nat \<Rightarrow> nat \<Rightarrow> allocator \<Rightarrow> allocator exec" where
  "split_step frame frame_order order a =
     bindE (Frame_next_by frame (push_bit order 1)) (\<lambda>hi.
     bindE (indexE (for_orders a) order) (\<lambda>h.
     bindE (assertE (h = None) ''for_orders[order] != None'') (\<lambda>_.
     bindE (get_page_info (sections a) hi) (\<lambda>ro.
     bindE (expectE ro ''sub-p2frame of split p2flame lacked PageInfo'') (\<lambda>r.
     let secs1 = pi_store (sections a) r (make_free (pi_load (sections a) r) order) in
     bindE (assertE (\<not> is_aligned_to_order hi frame_order) ''hi aligned to frame_order'') (\<lambda>_.
     bindE (assertE (is_aligned_to_order hi order) ''hi unaligned'') (\<lambda>_.
     bindE (free_set_next (pi_load secs1 r) (P2Frame_new None order)) (\<lambda>i.
     let secs2 = pi_store secs1 r i in
     bindE (free_set_prev (pi_load secs2 r) (P2Frame_new None order)) (\<lambda>i.
       Inr (a\<lparr>sections := pi_store secs2 r i,
               for_orders := (for_orders a)[order := Some hi]\<rparr>))))))))))"

fun split_loop :: "frame \<Rightarrow> nat \<Rightarrow> nat list \<Rightarrow> allocator \<Rightarrow> allocator exec" where
  "split_loop frame frame_order [] a = Inr a"
| "split_loop frame frame_order (order # orders) a =
     bindE (split_step frame frame_order order a) (split_loop frame frame_order orders)"

definition allocate_p2frame_complex ::
    "nat \<Rightarrow> nat \<Rightarrow> allocator \<Rightarrow> (allocator \<times> (frame \<times> usize) option) exec" where
  "allocate_p2frame_complex req_order min_order a =
     (case find_free_order (for_orders a) min_order of
        None \<Rightarrow> Inr (a, None)
      | Some (frame_order, frame) \<Rightarrow>
          bindE (get_page_info (sections a) frame) (\<lambda>ro.
          bindE (expectE ro ''no page info for allocated frame'') (\<lambda>info.
          bindE (assertE (pi_kind (pi_load (sections a) info) = Free)
                   ''freelist frames must not be marked used!'') (\<lambda>_.
          let next_free = free_next (pi_load (sections a) info) in
          bindE (assertE (P2Frame_order next_free = frame_order) ''next.order != frame_order'') (\<lambda>_.
          bindE (pop_relink frame frame_order next_free (sections a)) (\<lambda>secs.
          bindE (assertE (is_aligned_to_order frame frame_order) ''frame unaligned'') (\<lambda>_.
          bindE (split_loop frame frame_order (rev [min_order..<frame_order])
                   (a\<lparr>sections := secs,
                      for_orders := (for_orders a)[frame_order := P2Frame_frame next_free]\<rparr>)) (\<lambda>a.
          let a = a\<lparr>used_frames := used_frames a + push_bit min_order 1,
                    sections := pi_store (sections a) info (mark_used (pi_load (sections a) info)),
                    phys_mem := write_bytes (phys_mem a) (physaddr frame) 0 (push_bit min_order PAGE_SIZE)\<rparr> in
          bindE (assertE (abs_off a \<le> physaddr frame) ''frame below abs_off'') (\<lambda>_.
            Inr (a, Some (frame, push_bit min_order PAGE_SIZE)))))))))))"

definition allocate_p2frame :: "nat \<Rightarrow> allocator \<Rightarrow> (allocator \<times> frame option) exec" where
  "allocate_p2frame order a =
     bindE (allocate_p2frame_complex order order a) (\<lambda>(a, r). Inr (a, map_option fst r))"

definition allocate_frame :: "allocator \<Rightarrow> (allocator \<times> frame option) exec" where
  "allocate_frame a = allocate_p2frame 0 a"

text \<open>Taking the merged sibling out of its free list.\<close>

definition unlink_sibling ::
    "frame \<Rightarrow> page_ref \<Rightarrow> nat \<Rightarrow> allocator \<Rightarrow> allocator exec" where
  "unlink_sibling sibling sib merge_order a =
     bindE
       (case P2Frame_frame (free_prev (pi_load (sections a) sib)) of
          Some sib_prev \<Rightarrow>
            bindE (get_free_alloc_page_info (sections a) sib_prev) (\<lambda>p.
            bindE (free_set_next (pi_load (sections a) p) (free_next (pi_load (sections a) sib))) (\<lambda>i.
              Inr (a\<lparr>sections := pi_store (sections a) p i\<rparr>)))
        | None \<Rightarrow>
            bindE (indexE (for_orders a) merge_order) (\<lambda>h.
            bindE (assertE (h = Some sibling) ''for_orders[merge_order] != Some(sibling)'') (\<lambda>_.
            let next = free_next (pi_load (sections a) sib) in
            bindE (assertE (case P2Frame_frame next of None \<Rightarrow> True
                              | Some f \<Rightarrow> is_aligned_to_order f merge_order) ''next unaligned'') (\<lambda>_.
            bindE (assertE (P2Frame_order next = merge_order) ''next.order != merge_order'') (\<lambda>_.
              Inr (a\<lparr>for_orders := (for_orders a)[merge_order := P2Frame_frame next]\<rparr>))))))
       (\<lambda>a. case P2Frame_frame (free_next (pi_load (sections a) sib)) of
          Some sib_next \<Rightarrow>
            bindE (get_free_alloc_page_info (sections a) sib_next) (\<lambda>n.
            bindE (free_set_prev (pi_load (sections a) n) (free_prev (pi_load (sections a) sib))) (\<lambda>i.
              Inr (a\<lparr>sections := pi_store (sections a) n i\<rparr>)))
        | None \<Rightarrow> Inr a)"

text \<open>The merge loop of deallocation; every \<open>break\<close> returns the block built so far.\<close>

fun merge_loop :: "nat list \<Rightarrow> frame \<Rightarrow> nat \<Rightarrow> allocator \<Rightarrow> (frame \<times> nat \<times> allocator) exec" where
  "merge_loop [] current largest_order a = Inr (current, largest_order, a)"
| "merge_loop (merge_order # orders) current largest_order a =
     bindE (Frame_containing (physaddr current XOR push_bit merge_order PAGE_SIZE)) (\<lambda>sibling.
     bindE (get_page_info (sections a) current) (\<lambda>cur.
     bindE (expectE cur ''attempting to free non-allocator-owned page'') (\<lambda>_.
     bindE (get_page_info (sections a) sibling) (\<lambda>sib_info.
       case sib_info of
         None \<Rightarrow> Inr (current, largest_order, a)
       | Some sib \<Rightarrow>
           if pi_kind (pi_load (sections a) sib) = Used then Inr (current, largest_order, a)
           else if P2Frame_order (free_next (pi_load (sections a) sib)) < merge_order
           then Inr (current, largest_order, a)
           else
             bindE (assertE (\<not> P2Frame_order (free_next (pi_load (sections a) sib)) > merge_order)
                      ''sibling page has unaligned order or contains current page'') (\<lambda>_.
             bindE (unlink_sibling sibling sib merge_order a) (\<lambda>a.
             bindE (Frame_containing (physaddr current AND NOT (push_bit merge_order PAGE_SIZE))) (\<lambda>current.
               merge_loop orders current (merge_order + 1) a)))))))"

text \<open>Putting the merged block at the front of its list.\<close>

definition push_free :: "frame \<Rightarrow> nat \<Rightarrow> allocator \<Rightarrow> allocator exec" where
  "push_free current largest_order a =
     bindE (get_page_info (sections a) current) (\<lambda>ro.
     bindE (expectE ro ''freeing frame without PageInfo'') (\<lambda>r.
     let a = a\<lparr>sections := pi_store (sections a) r (make_free (pi_load (sections a) r) largest_order)\<rparr> in
     bindE (assertE (is_aligned_to_order current largest_order) ''new_head unaligned'') (\<lambda>_.
     bindE (indexE (for_orders a) largest_order) (\<lambda>old.
     let a = a\<lparr>for_orders := (for_orders a)[largest_order := Some current]\<rparr> in
       case old of
         None \<Rightarrow> Inr a
       | Some old_head \<Rightarrow>
           bindE (get_free_alloc_page_info (sections a) old_head) (\<lambda>old_r.
           bindE (get_free_alloc_page_info (sections a) current) (\<lambda>new_r.
           bindE (free_set_next (pi_load (sections a) new_r) (P2Frame_new (Some old_head) largest_order)) (\<lambda>i.
           let secs1 = pi_store (sections a) new_r i in
           bindE (free_set_prev (pi_load secs1 new_r) (P2Frame_new None largest_order)) (\<lambda>i.
           let secs2 = pi_store secs1 new_r i in
           bindE (free_set_prev (pi_load secs2 old_r) (P2Frame_new (Some current) largest_order)) (\<lambda>i.
             Inr (a\<lparr>sections := pi_store secs2 old_r i\<rparr>)))))))))) "

definition deallocate_p2frame :: "frame \<Rightarrow> nat \<Rightarrow> allocator \<Rightarrow> allocator exec" where
  "deallocate_p2frame orig_frame order a =
     bindE (merge_loop [order..<MAX_ORDER] orig_frame order a) (\<lambda>(current, largest_order, a).
     bindE (push_free current largest_order a) (\<lambda>a.
       Inr (a\<lparr>used_frames := used_frames a - push_bit order 1\<rparr>)))"

definition deallocate_frame :: "frame \<Rightarrow> allocator \<Rightarrow> allocator exec" where
  "deallocate_frame frame a = deallocate_p2frame frame 0 a"

section \<open>Invariant\<close>

definition free_blocks :: "(nat \<Rightarrow> nat list) \<Rightarrow> block set" where
  "free_blocks L = {(n, k). k \<le> MAX_ORDER \<and> n \<in> set (L k)}"

text \<open>\<open>L k\<close> is the content of the free list of order \<open>k\<close>.\<close>

definition lists_ok :: "mem_section list \<Rightarrow> frame option list \<Rightarrow> (nat \<Rightarrow> nat list) \<Rightarrow> bool" where
  "lists_ok secs hs L \<longleftrightarrow> length hs = ORDER_COUNT \<and>
     (\<forall>k\<le>MAX_ORDER. hs ! k = map_option pframe (first_or (L k) None) \<and>
        seg (pinfo secs) k None (L k) None \<and> distinct (L k))"

definition coalesced :: "(nat \<Rightarrow> nat list) \<Rightarrow> bool" where
  "coalesced L \<longleftrightarrow> (\<forall>(n, k)\<in>free_blocks L. k < MAX_ORDER \<longrightarrow> (buddy n k, k) \<notin> free_blocks L)"

definition above_off :: "allocator \<Rightarrow> nat \<Rightarrow> bool" where
  "above_off a n \<longleftrightarrow> abs_off a \<le> physaddr (pframe n)"

text \<open>
  The block \<open>(2 ^ m, m)\<close> is the one whose buddy is frame zero, which \<open>Frame::containing\<close>
  rejects with a panic.  It must not become free as a whole.
\<close>

definition low_guard :: "nat set \<Rightarrow> block set \<Rightarrow> bool" where
  "low_guard D R \<longleftrightarrow> (\<forall>m<MAX_ORDER. blk (2 ^ m, m) \<subseteq> D \<longrightarrow> (\<exists>c\<in>R. blk c \<inter> blk (2 ^ m, m) \<noteq> {}))"

text \<open>
  \<open>A\<close> are the blocks in use, \<open>B\<close> the blocks that an operation holds while it moves
  them between the free lists and their users.
\<close>

definition alloc_inv :: "allocator \<Rightarrow> (nat \<Rightarrow> nat list) \<Rightarrow> block set \<Rightarrow> block set \<Rightarrow> bool" where
  "alloc_inv a L A B \<longleftrightarrow>
     sections_wf (sections a) \<and> lists_ok (sections a) (for_orders a) L \<and>
     tiling MAX_ORDER (free_blocks L \<union> A \<union> B) (dom (pinfo (sections a))) \<and>
     free_blocks L \<inter> A = {} \<and> free_blocks L \<inter> B = {} \<and> A \<inter> B = {} \<and>
     (\<forall>(n, k)\<in>A. \<exists>i. pinfo (sections a) n = Some i \<and> pi_kind i = Used) \<and>
     (\<forall>(n, k)\<in>free_blocks L. above_off a n) \<and> coalesced L"

text \<open>The metadata of all pages of the blocks in \<open>A\<close> is as before.\<close>

definition same_info :: "block set \<Rightarrow> allocator \<Rightarrow> allocator \<Rightarrow> bool" where
  "same_info A a a' \<longleftrightarrow> (\<forall>b\<in>A. \<forall>p\<in>blk b. pinfo (sections a') p = pinfo (sections a) p)"

lemma same_infoI: "(\<And>b p. b \<in> A \<Longrightarrow> p \<in> blk b \<Longrightarrow> pinfo (sections a') p = pinfo (sections a) p) \<Longrightarrow> same_info A a a'"
  by (simp add: same_info_def)

lemma same_info_trans: "same_info A a b \<Longrightarrow> same_info A b c \<Longrightarrow> same_info A a c"
  by (simp add: same_info_def)

lemma same_info_refl [simp]: "same_info A a a" "sections a' = sections a \<Longrightarrow> same_info A a a'"
  by (simp_all add: same_info_def)

lemma order_consts [simp]: "MAX_ORDER = 10" "ORDER_COUNT = 11"
  by (simp_all add: MAX_ORDER_def ORDER_COUNT_def)

lemma alloc_invD:
  assumes "alloc_inv a L A B"
  shows "sections_wf (sections a)" "lists_ok (sections a) (for_orders a) L"
    "tiling MAX_ORDER (free_blocks L \<union> A \<union> B) (dom (pinfo (sections a)))"
    "free_blocks L \<inter> A = {}" "free_blocks L \<inter> B = {}" "A \<inter> B = {}"
    "(n, k) \<in> A \<Longrightarrow> \<exists>i. pinfo (sections a) n = Some i \<and> pi_kind i = Used"
    "(n, k) \<in> free_blocks L \<Longrightarrow> above_off a n" "coalesced L"
  using assms unfolding alloc_inv_def by blast+

lemma lists_okD:
  assumes "lists_ok secs hs L"
  shows "length hs = 11"
    "k \<le> 10 \<Longrightarrow> hs ! k = map_option pframe (first_or (L k) None)"
    "k \<le> 10 \<Longrightarrow> seg (pinfo secs) k None (L k) None" "k \<le> 10 \<Longrightarrow> distinct (L k)"
  using assms by (auto simp: lists_ok_def)

text \<open>A page starts at most one block.\<close>

lemma alloc_inv_head_unique:
  assumes "alloc_inv a L A B" "(n, k) \<in> free_blocks L \<union> A \<union> B" "(n, j) \<in> free_blocks L \<union> A \<union> B"
  shows "k = j"
  using tiling_unique [OF alloc_invD(3) [OF assms(1)] assms(2,3), of n] by simp

lemma alloc_inv_block:
  assumes "alloc_inv a L A B" "(n, k) \<in> free_blocks L \<union> A \<union> B"
  shows "k \<le> 10" "2 ^ k dvd n" "pinfo (sections a) n \<noteq> None" "pfn_ok n"
    "p \<in> blk (n, k) \<Longrightarrow> pinfo (sections a) p \<noteq> None"
proof -
  note t = tilingD [OF alloc_invD(3) [OF assms(1)] assms(2)]
  show "k \<le> 10" "2 ^ k dvd n" "pinfo (sections a) n \<noteq> None" using t by auto
  then show "pfn_ok n" using sec.look_pfn [OF alloc_invD(1) [OF assms(1)]] by blast
  show "p \<in> blk (n, k) \<Longrightarrow> pinfo (sections a) p \<noteq> None" using t(3) by auto
qed

lemma used_not_free:
  assumes "alloc_inv a L A B" "b \<in> A" "p \<in> blk b" "k \<le> 10"
  shows "p \<notin> set (L k)"
proof
  assume "p \<in> set (L k)"
  then have f: "(p, k) \<in> free_blocks L" using assms(4) by (simp add: free_blocks_def)
  have "b = (p, k)"
    using tiling_unique [OF alloc_invD(3) [OF assms(1)], of b "(p, k)" p] assms(2,3) f fst_in_blk [of "(p, k)"] by simp
  then show False using f assms(2) alloc_invD(4) [OF assms(1)] by blast
qed

lemma used_not_held:
  assumes "alloc_inv a L A B'" "b \<in> A" "p \<in> blk b" "(n, k) \<in> B'"
  shows "p \<noteq> n"
proof
  assume "p = n"
  then have "b = (n, k)"
    using tiling_unique [OF alloc_invD(3) [OF assms(1)], of b "(n, k)" n] assms(2-4) fst_in_blk [of "(n, k)"] by simp
  then show False using assms(2,4) alloc_invD(6) [OF assms(1)] by blast
qed

text \<open>Changing the metadata of one block's first page leaves the other lists and users alone.\<close>

lemma seg_congr: "(\<And>m. m \<in> set ns \<Longrightarrow> g' m = g m) \<Longrightarrow> seg g' k p ns q = seg g k p ns q"
  by (induction ns arbitrary: p) auto

lemma alloc_inv_free_to_held:
  assumes inv: "alloc_inv a L A B" and k: "k \<le> 10" and L: "L k = xs @ n # ys"
    and a': "sections a' = sec.unlink (sections a) k xs ys"
      "for_orders a' = (for_orders a)[k := map_option pframe (first_or (xs @ ys) None)]"
      "abs_off a' = abs_off a"
  shows "alloc_inv a' (L(k := xs @ ys)) A (insert (n, k) B)" "same_info A a a'"
proof -
  let ?L = "L(k := xs @ ys)"
  note D = alloc_invD [OF inv]
  have l: "seg (pinfo (sections a)) k None (xs @ n # ys) None" "distinct (xs @ n # ys)"
    using lists_okD(3,4) [OF D(2) k] L by simp_all
  note u = sec.unlink_seg [OF D(1) l(2,1), folded a'(1)]
  have fb: "free_blocks L = insert (n, k) (free_blocks ?L)" "(n, k) \<notin> free_blocks ?L"
    using k L l(2) by (auto simp: free_blocks_def split: if_splits)
  have other: "pinfo (sections a') m = pinfo (sections a) m"
    if "(m, j) \<in> free_blocks L \<union> A \<union> B" "j \<noteq> k \<or> (m, j) \<in> A" for m j
  proof -
    have "m \<notin> set (L k)"
    proof
      assume "m \<in> set (L k)"
      then have mk: "(m, k) \<in> free_blocks L" using k by (simp add: free_blocks_def)
      then have "j = k" using alloc_inv_head_unique [OF inv that(1)] by blast
      then show False using that(2) mk D(4) by blast
    qed
    then show ?thesis using u(4) [of m] L by simp
  qed
  show "same_info A a a'"
  proof (rule same_infoI)
    fix b p assume b: "b \<in> A" "p \<in> blk b"
    have "p \<notin> set (L k)" using used_not_free [OF inv b] k by blast
    then show "pinfo (sections a') p = pinfo (sections a) p" using u(4) [of p] L by simp
  qed
  have "lists_ok (sections a') (for_orders a') ?L"
    unfolding lists_ok_def
  proof (intro conjI allI impI)
    show "length (for_orders a') = ORDER_COUNT" using lists_okD(1) [OF D(2)] a'(2) by simp
    fix j assume "j \<le> MAX_ORDER"
    then have j: "j \<le> 10" by simp
    show "for_orders a' ! j = map_option pframe (first_or (?L j) None)"
      using lists_okD(1,2) [OF D(2)] j k a'(2) by (simp add: nth_list_update)
    show "distinct (?L j)" using l(2) lists_okD(4) [OF D(2) j] by auto
    show "seg (pinfo (sections a')) j None (?L j) None"
    proof (cases "j = k")
      case True
      then show ?thesis using u(3) by simp
    next
      case False
      then have "seg (pinfo (sections a')) j None (L j) None = seg (pinfo (sections a)) j None (L j) None"
        using j by (intro seg_congr other [of _ j]) (auto simp: free_blocks_def)
      then show ?thesis using False lists_okD(3) [OF D(2) j] by simp
    qed
  qed
  moreover have "coalesced ?L" using D(9) fb(1) unfolding coalesced_def by auto
  moreover have "\<forall>(m, j)\<in>A. \<exists>i. pinfo (sections a') m = Some i \<and> pi_kind i = Used"
    using D(7) other by fastforce
  moreover have "\<forall>(m, j)\<in>free_blocks ?L. above_off a' m"
    using D(8) fb(1) a'(3) by (auto simp: above_off_def)
  moreover have "tiling MAX_ORDER (free_blocks ?L \<union> A \<union> insert (n, k) B) (dom (pinfo (sections a')))"
    using D(3) fb(1) u(2) by (simp add: Un_commute Un_left_commute)
  moreover have "free_blocks ?L \<inter> insert (n, k) B = {}" "A \<inter> insert (n, k) B = {}" "free_blocks ?L \<inter> A = {}"
    using fb D(4-6) by auto
  ultimately show "alloc_inv a' ?L A (insert (n, k) B)" unfolding alloc_inv_def using u(1) by blast
qed

lemma alloc_inv_held_to_free:
  assumes inv: "alloc_inv a L A (insert (n, k) B)" and nB: "(n, k) \<notin> B" and low: "above_off a n"
    and co: "k < 10 \<Longrightarrow> (buddy n k, k) \<notin> free_blocks L"
    and a': "sections a' = sec.push_front (sections a) k n (L k)"
      "for_orders a' = (for_orders a)[k := Some (pframe n)]" "abs_off a' = abs_off a"
  shows "alloc_inv a' (L(k := n # L k)) A B" "same_info A a a'"
proof -
  let ?L = "L(k := n # L k)"
  note D = alloc_invD [OF inv]
  note nk = alloc_inv_block [OF inv, of n k]
  have k: "k \<le> 10" and look: "pinfo (sections a) n \<noteq> None" using nk by auto
  have nL: "n \<notin> set (L k)" using D(5) k by (auto simp: free_blocks_def)
  have l: "seg (pinfo (sections a)) k None (L k) None" "distinct (n # L k)"
    using lists_okD(3,4) [OF D(2) k] nL by simp_all
  note u = sec.push_front_seg [OF D(1) l(2,1) look, folded a'(1)]
  have fb: "free_blocks ?L = insert (n, k) (free_blocks L)"
    using k by (auto simp: free_blocks_def split: if_splits)
  have other: "pinfo (sections a') m = pinfo (sections a) m"
    if "(m, j) \<in> free_blocks L \<union> A" "j \<noteq> k \<or> (m, j) \<in> A" for m j
  proof -
    have "m \<noteq> n"
    proof
      assume "m = n"
      then have "(n, j) \<in> free_blocks L \<union> A" "j = k"
        using that(1) alloc_inv_head_unique [OF inv, of n j k] by blast+
      then show False using D(5,6) by blast
    qed
    moreover have "m \<notin> set (L k)"
    proof
      assume "m \<in> set (L k)"
      then have mk: "(m, k) \<in> free_blocks L" using k by (simp add: free_blocks_def)
      then have "j = k" using alloc_inv_head_unique [OF inv] that(1) by blast
      then show False using that(2) mk D(4) by blast
    qed
    ultimately show ?thesis using u(4) [of m] by simp
  qed
  show "same_info A a a'"
  proof (rule same_infoI)
    fix b p assume b: "b \<in> A" "p \<in> blk b"
    have "p \<notin> set (L k)" using used_not_free [OF inv b] k by blast
    then show "pinfo (sections a') p = pinfo (sections a) p" using u(4) [of p] used_not_held [OF inv b, of n k] by simp
  qed
  have "lists_ok (sections a') (for_orders a') ?L"
    unfolding lists_ok_def
  proof (intro conjI allI impI)
    show "length (for_orders a') = ORDER_COUNT" using lists_okD(1) [OF D(2)] a'(2) by simp
    fix j assume "j \<le> MAX_ORDER"
    then have j: "j \<le> 10" by simp
    show "for_orders a' ! j = map_option pframe (first_or (?L j) None)"
      using lists_okD(1,2) [OF D(2)] j k a'(2) by (simp add: nth_list_update)
    show "distinct (?L j)" using l(2) lists_okD(4) [OF D(2) j] by auto
    show "seg (pinfo (sections a')) j None (?L j) None"
    proof (cases "j = k")
      case True
      then show ?thesis using u(3) by simp
    next
      case False
      then have "seg (pinfo (sections a')) j None (L j) None = seg (pinfo (sections a)) j None (L j) None"
        using j by (intro seg_congr other [of _ j]) (auto simp: free_blocks_def)
      then show ?thesis using False lists_okD(3) [OF D(2) j] by simp
    qed
  qed
  moreover have "coalesced ?L"
  proof -
    have "(buddy m j, j) \<noteq> (n, k)" if "(m, j) \<in> free_blocks L" "j < 10" for m j
      using that co buddy_buddy [of m j] by auto
    then show ?thesis using D(9) co unfolding coalesced_def fb by auto
  qed
  moreover have "\<forall>(m, j)\<in>A. \<exists>i. pinfo (sections a') m = Some i \<and> pi_kind i = Used"
    using D(7) other by fastforce
  moreover have "\<forall>(m, j)\<in>free_blocks ?L. above_off a' m"
    using D(8) low fb a'(3) by (auto simp: above_off_def)
  moreover have "tiling MAX_ORDER (free_blocks ?L \<union> A \<union> B) (dom (pinfo (sections a')))"
    using D(3) fb u(2) by (simp add: Un_commute Un_left_commute)
  moreover have "free_blocks ?L \<inter> B = {}" "A \<inter> B = {}" "free_blocks ?L \<inter> A = {}"
    using fb D(4-6) nB by auto
  ultimately show "alloc_inv a' ?L A B" unfolding alloc_inv_def using u(1) by blast
qed

lemma alloc_inv_held_split:
  assumes inv: "alloc_inv a L A (insert (n, Suc k) B)" and nB: "(n, Suc k) \<notin> B"
  shows "alloc_inv a L A (insert (n, k) (insert (n + 2 ^ k, k) B))"
    "(n, k) \<notin> B" "(n + 2 ^ k, k) \<notin> insert (n, k) B"
proof -
  let ?S = "free_blocks L \<union> A \<union> B"
  note D = alloc_invD [OF inv]
  have n: "(n, Suc k) \<notin> ?S" using D(5,6) nB by auto
  have t: "tiling MAX_ORDER (insert (n, Suc k) ?S) (dom (pinfo (sections a)))"
    using D(3) by simp
  note s = tiling_insert_split [OF t n]
  then show "(n, k) \<notin> B" "(n + 2 ^ k, k) \<notin> insert (n, k) B" by auto
  have "tiling MAX_ORDER (free_blocks L \<union> A \<union> insert (n, k) (insert (n + 2 ^ k, k) B)) (dom (pinfo (sections a)))"
    using s(1) by simp
  moreover have "free_blocks L \<inter> insert (n, k) (insert (n + 2 ^ k, k) B) = {}"
    "A \<inter> insert (n, k) (insert (n + 2 ^ k, k) B) = {}" using s(2,3) D(5,6) by auto
  ultimately show "alloc_inv a L A (insert (n, k) (insert (n + 2 ^ k, k) B))"
    using inv unfolding alloc_inv_def by blast
qed

lemma alloc_inv_held_merge:
  assumes inv: "alloc_inv a L A {(n, k), (buddy n k, k)}" and k: "k < 10"
  shows "alloc_inv a L A {(unset_bit k n, Suc k)}"
proof -
  let ?u = "unset_bit k n" and ?S = "free_blocks L \<union> A"
  note D = alloc_invD [OF inv]
  have "2 ^ k dvd n" using alloc_inv_block(2) [OF inv, of n k] by simp
  note p = buddy_pair [OF this]
  have t: "tiling MAX_ORDER (insert (?u, k) (insert (?u + 2 ^ k, k) ?S)) (dom (pinfo (sections a)))"
    using D(3) unfolding p(1) by simp
  have n: "(?u, k) \<notin> ?S" "(?u + 2 ^ k, k) \<notin> ?S" using D(5,6) unfolding p(1) by auto
  note m = tiling_insert_merge [OF t n p(2)]
  have "tiling MAX_ORDER (?S \<union> {(?u, Suc k)}) (dom (pinfo (sections a)))" "(?u, Suc k) \<notin> ?S"
    using m k by simp_all
  then show ?thesis using inv unfolding alloc_inv_def by blast
qed

lemma alloc_inv_used_to_held:
  assumes "alloc_inv a L A {}" "(n, k) \<in> A"
  shows "alloc_inv a L (A - {(n, k)}) {(n, k)}"
proof -
  have "free_blocks L \<union> (A - {(n, k)}) \<union> {(n, k)} = free_blocks L \<union> A \<union> {}" using assms(2) by auto
  then show ?thesis using assms unfolding alloc_inv_def by auto
qed

lemma alloc_inv_held_to_used:
  assumes inv: "alloc_inv a L A {(n, k)}" and i: "pi_kind i = Used"
    and a': "sections a' = put_info (sections a) n i" "for_orders a' = for_orders a" "abs_off a' = abs_off a"
  shows "alloc_inv a' L (insert (n, k) A) {}" "same_info A a a'" "pinfo (sections a') = (pinfo (sections a))(n \<mapsto> i)"
proof -
  note D = alloc_invD [OF inv]
  have look: "pinfo (sections a) n \<noteq> None" using alloc_inv_block(3) [OF inv, of n k] by simp
  show p: "pinfo (sections a') = (pinfo (sections a))(n \<mapsto> i)"
    using sec.look_put [OF D(1) look] a'(1) by simp
  show "same_info A a a'"
  proof (rule same_infoI)
    fix b q assume "b \<in> A" "q \<in> blk b"
    then show "pinfo (sections a') q = pinfo (sections a) q" using used_not_held [OF inv, of b q n k] p by simp
  qed
  have other: "m \<noteq> n" if "(m, j) \<in> free_blocks L \<union> A" for m j
  proof
    assume "m = n"
    then have "j = k" using alloc_inv_head_unique [OF inv, of n j k] that by blast
    then show False using that \<open>m = n\<close> D(5,6) by blast
  qed
  have "n \<notin> set (L j)" if "j \<le> 10" for j
    using other [of n j] that by (auto simp: free_blocks_def)
  then have "lists_ok (sections a') (for_orders a') L"
    using D(2) unfolding lists_ok_def p a'(2) by simp
  moreover have "dom (pinfo (sections a')) = dom (pinfo (sections a))" using look p by auto
  moreover have "\<forall>(m, j)\<in>insert (n, k) A. \<exists>i. pinfo (sections a') m = Some i \<and> pi_kind i = Used"
    using D(7) other i p by fastforce
  moreover have "sections_wf (sections a')" using sec.ok_put [OF D(1)] a'(1) by simp
  moreover have "\<forall>(m, j)\<in>free_blocks L. above_off a' m" using D(8) a'(3) by (auto simp: above_off_def)
  ultimately show "alloc_inv a' L (insert (n, k) A) {}" using D(3-6,9) unfolding alloc_inv_def by simp
qed

section \<open>The split loop\<close>

lemma put_info_store:
  "get_page_info secs (pframe n) = Inr (Some r) \<Longrightarrow> pi_store secs r i = put_info secs n i"
  by (simp add: put_info_def)

lemma pi_store_twice [simp]: "pi_store (pi_store secs r i) r j = pi_store secs r j"
  by (cases "fst r < length secs") (simp_all add: pi_store_def list_update_beyond not_less)

lemma owns_pi_store_eq [simp]: "owns (pi_store secs r i) = owns secs"
  by (intro ext) simp

lemma owns_put_info [simp]: "owns (put_info secs n i) = owns secs"
  by (intro ext) (simp add: put_info_def split: sum.splits option.splits)

lemma owns_unlink [simp]: "owns (sec.unlink secs k xs ys) = owns secs"
  by (simp add: sec.unlink_def Let_def)

lemma get_page_info_put [simp]:
  assumes "sections_wf secs" "pinfo secs m \<noteq> None"
  shows "get_page_info (put_info secs n i) (pframe m) = get_page_info secs (pframe m)"
proof -
  obtain r where r: "get_page_info secs (pframe m) = Inr (Some r)" "owns secs m r"
    using assms pinfo_SomeD by blast
  have "owns (put_info secs n i) m r" using r(2) by (simp add: put_info_def split: sum.splits option.splits)
  then show ?thesis using owns_get(1) [OF sec.ok_put [OF assms(1)]] r(1) by simp
qed

lemma pfn_ref:
  assumes "sections_wf secs" "pinfo secs n = Some i"
  obtains r where "get_page_info secs (pframe n) = Inr (Some r)" "pi_load secs r = i"
    "\<forall>j. pi_store secs r j = put_info secs n j" "\<forall>j. pi_load (pi_store secs r j) r = j"
proof -
  obtain r where r: "get_page_info secs (pframe n) = Inr (Some r)" "owns secs n r" "pi_load secs r = i"
    using assms pinfo_SomeD by blast
  have "pi_load (pi_store secs r j) r = j" for j using r(2) by (subst pi_load_store) (auto simp: owns_def)
  then show thesis using that r(1,3) put_info_store [OF r(1)] by simp
qed

lemma of_nat_exp: "push_bit k 1 = (of_nat (2 ^ k) :: usize)"
  by (simp add: push_bit_eq_mult)

lemma buddy_upper:
  assumes "2 ^ Suc k dvd n"
  shows "buddy (n + 2 ^ k) k = n"
proof -
  obtain q where "n = 2 ^ Suc k * q" using assms by (auto elim: dvdE)
  then have "n div 2 ^ k = 2 * q" by simp
  then have "buddy n k = n + 2 ^ k" by (simp add: buddy_def nat_xor_exp bit_iff_odd)
  then show ?thesis by (metis buddy_buddy)
qed

lemma not_aligned_upper:
  fixes n :: nat
  assumes "2 ^ j dvd n" "k < j"
  shows "\<not> 2 ^ j dvd n + 2 ^ k"
proof
  assume "2 ^ j dvd n + 2 ^ k"
  then have "2 ^ j dvd (2 ^ k :: nat)" using assms(1) by (simp add: dvd_add_right_iff)
  then have "(2 :: nat) ^ j \<le> 2 ^ k" by (rule dvd_imp_le) simp
  then show False using assms(2) by simp
qed

lemma split_step_correct:
  assumes inv: "alloc_inv a L A {(n, Suc k)}" and e: "L k = []" and low: "above_off a n"
    and fo: "2 ^ fo dvd n" "k < fo" "fo \<le> 10"
  obtains a' where "split_step (pframe n) fo k a = Inr a'" "alloc_inv a' (L(k := [n + 2 ^ k])) A {(n, k)}"
    "used_frames a' = used_frames a" "phys_mem a' = phys_mem a" "abs_off a' = abs_off a"
    "owns (sections a') = owns (sections a)" "same_info A a a'"
proof -
  let ?h = "n + 2 ^ k"
  have k: "k \<le> 9" using fo by simp
  note sp = alloc_inv_held_split [OF inv, simplified]
  have inv2: "alloc_inv a L A (insert (?h, k) {(n, k)})" using sp(1) by (simp add: insert_commute)
  note D = alloc_invD [OF inv2]
  have blk: "pfn_ok n" "pfn_ok ?h" "2 ^ k dvd ?h" "pinfo (sections a) ?h \<noteq> None"
    using alloc_inv_block [OF inv2, of n k] alloc_inv_block [OF inv2, of ?h k] by auto
  then obtain i where i: "pinfo (sections a) ?h = Some i" by blast
  obtain r where r: "get_page_info (sections a) (pframe ?h) = Inr (Some r)" "pi_load (sections a) r = i"
    "\<forall>j. pi_store (sections a) r j = put_info (sections a) ?h j" "\<forall>j. pi_load (pi_store (sections a) r j) r = j"
    using pfn_ref [OF D(1) i] by blast
  let ?a = "a\<lparr>sections := put_info (sections a) ?h (node k None None), for_orders := (for_orders a)[k := Some (pframe ?h)]\<rparr>"
  have lim: "n < PFN_LIM" "?h < PFN_LIM" "0 < n" using blk(1,2) by (auto simp: pfn_ok_def)
  have hi: "Frame_next_by (pframe n) (push_bit k 1) = Inr (pframe ?h)"
    unfolding of_nat_exp using lim by (intro next_by_pframe) auto
  have al: "is_aligned_to_order (pframe ?h) k" "\<not> is_aligned_to_order (pframe ?h) fo"
    using aligned_pframe [OF lim(2)] blk(3) not_aligned_upper [OF fo(1,2)] fo k by auto
  have "for_orders a ! k = None" "k < length (for_orders a)" using lists_okD(1,2) [OF D(2)] k e by auto
  then have run: "split_step (pframe n) fo k a = Inr ?a"
    using hi al r k
    by (simp add: split_step_def make_free_node set_next_link set_prev_link P2Frame_new_link Let_def)
  have "above_off a ?h"
    using low lim by (auto simp: above_off_def word_le_nat_alt unat_pframe)
  moreover have "(buddy ?h k, k) \<notin> free_blocks L"
  proof -
    have "buddy ?h k = n"
      using alloc_inv_block(2) [OF inv, of n "Suc k"] by (intro buddy_upper) blast
    then show ?thesis using D(5) by auto
  qed
  ultimately have "alloc_inv ?a (L(k := ?h # L k)) A {(n, k)}" "same_info A a ?a"
    by (intro alloc_inv_held_to_free [OF inv2]; auto simp: e sec.push_front_def)+
  then show thesis using that [OF run] e by simp
qed

lemma split_loop_correct:
  assumes "alloc_inv a L A {(n, k)}" "m \<le> k" "\<And>j. m \<le> j \<Longrightarrow> j < k \<Longrightarrow> L j = []" "above_off a n"
    "2 ^ fo dvd n" "k \<le> fo" "fo \<le> 10"
  shows "\<exists>a' L'. split_loop (pframe n) fo (rev [m..<k]) a = Inr a' \<and> alloc_inv a' L' A {(n, m)} \<and>
    used_frames a' = used_frames a \<and> phys_mem a' = phys_mem a \<and> abs_off a' = abs_off a \<and>
    owns (sections a') = owns (sections a) \<and> same_info A a a'"
  using assms
proof (induction k arbitrary: a L)
  case 0
  then show ?case by auto
next
  case (Suc k)
  show ?case
  proof (cases "m = Suc k")
    case True
    then show ?thesis using Suc.prems(1) by auto
  next
    case False
    then have m: "m \<le> k" using Suc.prems(2) by simp
    obtain a1 where a1: "split_step (pframe n) fo k a = Inr a1" "alloc_inv a1 (L(k := [n + 2 ^ k])) A {(n, k)}"
      "used_frames a1 = used_frames a" "phys_mem a1 = phys_mem a" "abs_off a1 = abs_off a"
      "owns (sections a1) = owns (sections a)" "same_info A a a1"
      using split_step_correct [OF Suc.prems(1)] Suc.prems m by (metis Suc_le_lessD lessI)
    moreover have "\<exists>a' L'. split_loop (pframe n) fo (rev [m..<k]) a1 = Inr a' \<and> alloc_inv a' L' A {(n, m)} \<and>
        used_frames a' = used_frames a1 \<and> phys_mem a' = phys_mem a1 \<and> abs_off a' = abs_off a1 \<and>
        owns (sections a') = owns (sections a1) \<and> same_info A a1 a'"
      using Suc.prems a1(5) m by (intro Suc.IH [OF a1(2)]) (auto simp: above_off_def)
    ultimately show ?thesis using m same_info_trans by fastforce
  qed
qed

section \<open>Allocation\<close>

lemma find_map_Some:
  "find_map f xs = Some y \<Longrightarrow> \<exists>us x vs. xs = us @ x # vs \<and> f x = Some y \<and> (\<forall>u\<in>set us. f u = None)"
proof (induction xs)
  case (Cons x xs)
  show ?case
  proof (cases "f x")
    case None
    then obtain us z vs where "xs = us @ z # vs" "f z = Some y" "\<forall>u\<in>set us. f u = None"
      using Cons by auto
    then show ?thesis using None by (intro exI [of _ "x # us"]) auto
  next
    case (Some z)
    then show ?thesis using Cons.prems by (intro exI [of _ "[]"]) auto
  qed
qed simp

lemma find_map_None: "find_map f xs = None \<longleftrightarrow> (\<forall>x\<in>set xs. f x = None)"
  by (induction xs) (auto split: option.splits)

lemma nth_skip_enumerate: "i < length hs - m \<Longrightarrow> drop m (enumerate 0 hs) ! i = (m + i, hs ! (m + i))"
  by (simp add: nth_enumerate_eq)

lemma find_free_order_None:
  assumes "find_free_order hs m = None" "m \<le> j" "j < length hs"
  shows "hs ! j = None"
proof -
  have "(j, hs ! j) \<in> set (drop m (enumerate 0 hs))"
    using nth_skip_enumerate [of "j - m" hs m] assms(2,3) by (auto simp: in_set_conv_nth intro!: exI [of _ "j - m"])
  then show ?thesis using assms(1) unfolding find_free_order_def find_map_None by fastforce
qed

lemma find_free_order_Some:
  assumes "find_free_order hs m = Some (k, f)"
  shows "m \<le> k" "k < length hs" "hs ! k = Some f" "\<And>j. m \<le> j \<Longrightarrow> j < k \<Longrightarrow> hs ! j = None"
proof -
  let ?xs = "drop m (enumerate 0 hs)"
  obtain us vs where us: "?xs = us @ (k, Some f) # vs" "\<forall>(i, g)\<in>set us. g = None"
    using find_map_Some [OF assms [unfolded find_free_order_def]] by (fastforce split: option.splits)
  have len: "length us < length hs - m" using arg_cong [OF us(1), of length] by simp
  have "(m + length us, hs ! (m + length us)) = (k, Some f)"
    using nth_skip_enumerate [OF len] us(1) by (metis nth_append_length)
  then show k: "m \<le> k" "k < length hs" "hs ! k = Some f" using len by auto
  show "hs ! j = None" if "m \<le> j" "j < k" for j
  proof -
    have jl: "j - m < length us" using that \<open>_ = (k, Some f)\<close> by auto
    then have "us ! (j - m) = ?xs ! (j - m)" unfolding us(1) by (simp add: nth_append)
    also have "\<dots> = (j, hs ! j)" using nth_skip_enumerate [of "j - m" hs m] that k(2) by simp
    finally show ?thesis using us(2) nth_mem [OF jl] by fastforce
  qed
qed

definition alloc_ok :: "allocator \<Rightarrow> block set \<Rightarrow> block set \<Rightarrow> bool" where
  "alloc_ok a U R \<longleftrightarrow> (\<exists>L. alloc_inv a L (U \<union> R) {}) \<and> U \<inter> R = {} \<and> finite U \<and>
     used_frames a = of_nat (\<Sum>b\<in>U. 2 ^ snd b) \<and> (\<forall>b\<in>U. above_off a (fst b)) \<and>
     low_guard (dom (pinfo (sections a))) R"

lemma low_guard_block:
  assumes inv: "alloc_inv a L A {(c, m)}" and g: "low_guard (dom (pinfo (sections a))) R" "R \<subseteq> A" and m: "m < 10"
  shows "c \<noteq> 2 ^ m"
proof
  assume c: "c = 2 ^ m"
  have "blk (c, m) \<subseteq> dom (pinfo (sections a))" using alloc_inv_block(5) [OF inv, of c m] by auto
  then have "\<exists>b\<in>R. blk b \<inter> blk (c, m) \<noteq> {}" using g(1) m c unfolding low_guard_def order_consts by blast
  then obtain b where b: "b \<in> A" "blk b \<inter> blk (c, m) \<noteq> {}" using g(2) by blast
  then have "b = (c, m)" using tiling_unique [OF alloc_invD(3) [OF inv], of b "(c, m)"] by blast
  then show False using b(1) alloc_invD(6) [OF inv] by blast
qed

lemma head_facts:
  assumes inv: "alloc_inv a L A B" and k: "k \<le> 10" and h: "for_orders a ! k = Some f"
  obtains n ys where "L k = n # ys" "f = pframe n" "(n, k) \<in> free_blocks L"
    "pinfo (sections a) n = Some (node k None (first_or ys None))"
    "pfn_opt_aligned (first_or ys None) k" "n \<notin> set ys"
proof -
  note l = lists_okD [OF alloc_invD(2) [OF inv]]
  obtain n ys where L: "L k = n # ys" "f = pframe n"
    using l(2) [OF k] h by (cases "L k") auto
  have "pfn_opt_aligned (first_or ys None) k"
    using alloc_inv_block [OF inv, of _ k] L(1) k by (cases ys) (auto simp: free_blocks_def)
  then show thesis
    using that [OF L] l(3,4) [OF k] L k by (simp add: free_blocks_def)
qed

lemma pop_relink_correct:
  assumes inv: "alloc_inv a L A B" and k: "k \<le> 10" and L: "L k = n # ys"
  shows "pop_relink (pframe n) k (P2Frame (link (first_or ys None) k)) (sections a) =
    Inr (sec.unlink (sections a) k [] ys)"
proof (cases ys)
  case Nil
  then show ?thesis using k by (simp add: pop_relink_def sec.unlink_def P2Frame_frame_def link_get)
next
  case (Cons y zs)
  note D = alloc_invD [OF inv]
  have yf: "(y, k) \<in> free_blocks L" "(n, k) \<in> free_blocks L" using L Cons k by (auto simp: free_blocks_def)
  have y: "pfn_ok y" "2 ^ k dvd y" "pfn_ok n"
    using alloc_inv_block(2,4) [OF inv UnI1 [OF UnI1 [OF yf(1)]]]
      alloc_inv_block(4) [OF inv UnI1 [OF UnI1 [OF yf(2)]]] by simp_all
  have zs: "pfn_opt_ok (first_or zs None)"
    using alloc_inv_block(4) [OF inv, of _ k] L Cons k by (cases zs) (auto simp: free_blocks_def)
  have iy: "pinfo (sections a) y = Some (node k (Some n) (first_or zs None))" "y \<noteq> n"
    using lists_okD(3,4) [OF D(2) k] L Cons by auto
  obtain r where r: "get_page_info (sections a) (pframe y) = Inr (Some r)"
    "pi_load (sections a) r = node k (Some n) (first_or zs None)"
    "\<forall>j. pi_store (sections a) r j = put_info (sections a) y j" "\<forall>j. pi_load (pi_store (sections a) r j) r = j"
    using pfn_ref [OF D(1) iy(1)] by blast
  have "pframe y \<noteq> pframe n" using iy(2) y by (simp add: pframe_inject pfn_ok_def)
  moreover have "is_aligned_to_order (pframe y) k" using y k by (simp add: aligned_pframe pfn_ok_def)
  ultimately show ?thesis
    using r k y Cons
    by (simp add: pop_relink_def P2Frame_frame_def link_get get_free_alloc_page_info_def node_free
        P2Frame_new_link set_prev_link sec.unlink_def)
qed


text \<open>An aligned run of free pages that no block in use touches.\<close>

definition free_run :: "allocator \<Rightarrow> block set \<Rightarrow> block \<Rightarrow> bool" where
  "free_run a A b \<longleftrightarrow> 2 ^ snd b dvd fst b \<and> blk b \<subseteq> dom (pinfo (sections a)) \<and>
     (\<forall>c\<in>A. blk c \<inter> blk b = {})"

text \<open>Coalescing makes the allocator complete: a free run always holds a free block as large.\<close>

lemma no_free_run:
  assumes inv: "alloc_inv a L A {}" and m: "m \<le> 10" and e: "\<And>k. m \<le> k \<Longrightarrow> k \<le> 10 \<Longrightarrow> L k = []"
  shows "\<not> free_run a A (n, m)"
proof
  assume "free_run a A (n, m)"
  then have al: "2 ^ m dvd n" and sub: "blk (n, m) \<subseteq> dom (pinfo (sections a))"
    and dis: "\<And>c. c \<in> A \<Longrightarrow> blk c \<inter> blk (n, m) = {}" by (auto simp: free_run_def simp del: mem_blk)
  note D = alloc_invD [OF inv]
  let ?S = "free_blocks L \<union> A \<union> {}"
  have free: "(b, k) \<in> free_blocks L \<and> k < m"
    if "(b, k) \<in> ?S" "p \<in> blk (b, k)" "p \<in> blk (n, m)" for b k p
  proof -
    have "(b, k) \<in> free_blocks L" using that dis by blast
    moreover have "k < m" using calculation e [of k] by (fastforce simp: free_blocks_def not_le)
    ultimately show ?thesis by blast
  qed
  let ?P = "\<lambda>k. \<exists>b. (b, k) \<in> free_blocks L \<and> b \<in> blk (n, m)"
  have nn: "n \<in> blk (n, m)" using fst_in_blk [of "(n, m)"] by simp
  obtain b0 k0 where b0: "(b0, k0) \<in> ?S" "n \<in> blk (b0, k0)"
    using tiling_cover [OF D(3)] sub nn by blast
  have "n = b0"
    using aligned_in_block [of k0 b0 m n] tilingD(2) [OF D(3) b0(1)] al free [OF b0 nn] b0(2) by simp
  then have "?P k0" using free [OF b0 nn] nn by auto
  define k where "k = (LEAST k. ?P k)"
  have "?P k" unfolding k_def using \<open>?P k0\<close> by (rule LeastI)
  then obtain b where b: "(b, k) \<in> free_blocks L" "b \<in> blk (n, m)" by blast
  have bS: "(b, k) \<in> ?S" using b by simp
  have kb: "k < m" "2 ^ k dvd b" using free [OF bS _ b(2)] fst_in_blk [of "(b, k)"] tilingD(2) [OF D(3) bS] by auto
  have bud: "buddy b k \<in> blk (n, m)"
    using larger_block_has_buddy [OF al kb(1) buddy_aligned [OF kb(2)]] b(2) by simp
  then obtain j where j: "j \<le> k" "(buddy b k, j) \<in> ?S"
    using tiling_buddy [OF D(3) bS] sub by blast
  have "(buddy b k, j) \<in> free_blocks L"
    using free [OF j(2) _ bud] fst_in_blk [of "(buddy b k, j)"] by simp
  moreover have "j = k"
  proof (rule ccontr)
    assume "j \<noteq> k"
    then have "j < k" using j(1) by simp
    then have "\<not> ?P j" unfolding k_def by (rule not_less_Least)
    then show False using calculation bud by blast
  qed
  ultimately show False using D(9) b(1) kb(1) m unfolding coalesced_def by auto
qed

lemma mark_used_Used: "pi_kind (mark_used i) = Used"
  by (simp add: pi_kind_def mark_used_def)

lemma mark_used_One: "refcount (mark_used i) = Some RcOne"
  by (simp add: refcount_def mark_used_def from_raw_alt RC_USED_NOT_FREE_def take_bit_push_bit)

lemma allocate_Some:
  assumes inv: "alloc_inv a L A {}" and find: "find_free_order (for_orders a) m = Some (k, f)"
  obtains n a' L' where "allocate_p2frame_complex q m a = Inr (a', Some (pframe n, push_bit m PAGE_SIZE))"
    "alloc_inv a' L' (insert (n, m) A) {}" "(n, m) \<notin> A" "above_off a' n"
    "used_frames a' = used_frames a + push_bit m 1" "abs_off a' = abs_off a"
    "owns (sections a') = owns (sections a)"
    "phys_mem a' = write_bytes (phys_mem a) (physaddr (pframe n)) 0 (push_bit m PAGE_SIZE)"
    "same_info A a a'" "\<exists>i. pinfo (sections a') n = Some i \<and> refcount i = Some RcOne"
proof -
  note D = alloc_invD [OF inv]
  have mk: "m \<le> k" "k \<le> 10" "for_orders a ! k = Some f" "\<And>j. m \<le> j \<Longrightarrow> j < k \<Longrightarrow> for_orders a ! j = None"
    using find_free_order_Some [OF find] lists_okD(1) [OF D(2)] by auto
  obtain n ys where n: "L k = n # ys" "f = pframe n" "(n, k) \<in> free_blocks L"
    "pinfo (sections a) n = Some (node k None (first_or ys None))"
    "pfn_opt_aligned (first_or ys None) k" "n \<notin> set ys"
    using head_facts [OF inv mk(2,3)] by blast
  obtain r where r: "get_page_info (sections a) (pframe n) = Inr (Some r)"
    "pi_load (sections a) r = node k None (first_or ys None)" "owns (sections a) n r"
    using pinfo_SomeD [OF D(1) n(4)] by blast
  let ?a1 = "a\<lparr>sections := sec.unlink (sections a) k [] ys,
      for_orders := (for_orders a)[k := map_option pframe (first_or ys None)]\<rparr>"
  have inv1: "alloc_inv ?a1 (L(k := ys)) A {(n, k)}" "same_info A a ?a1"
    using alloc_inv_free_to_held [OF inv mk(2), of "[]" n ys ?a1] n(1) by simp_all
  have blk: "2 ^ k dvd n" "pfn_ok n" using alloc_inv_block(2,4) [OF inv] n(3) by auto
  have low: "above_off ?a1 n" using D(8) n(3) by (simp add: above_off_def)
  have emp: "(L(k := ys)) j = []" if "m \<le> j" "j < k" for j
    using mk(4) [OF that] lists_okD(2) [OF D(2), of j] that mk(2) by (cases "L j") auto
  obtain a2 L2 where a2: "split_loop (pframe n) k (rev [m..<k]) ?a1 = Inr a2" "alloc_inv a2 L2 A {(n, m)}"
    "used_frames a2 = used_frames a" "phys_mem a2 = phys_mem a" "abs_off a2 = abs_off a"
    "owns (sections a2) = owns (sections a)" "same_info A ?a1 a2"
    using split_loop_correct [OF inv1(1) mk(1) emp low blk(1) order_refl mk(2)] by auto
  have r2: "get_page_info (sections a2) (pframe n) = Inr (Some r)"
    using owns_get(1) [OF alloc_invD(1) [OF a2(2)]] a2(6) r(3) by simp
  define a3 where "a3 = a2\<lparr>used_frames := used_frames a2 + push_bit m 1,
      sections := pi_store (sections a2) r (mark_used (pi_load (sections a2) r)),
      phys_mem := write_bytes (phys_mem a2) (physaddr (pframe n)) 0 (push_bit m PAGE_SIZE)\<rparr>"
  have inv3: "alloc_inv a3 L2 (insert (n, m) A) {}" "same_info A a2 a3"
    "pinfo (sections a3) = (pinfo (sections a2))(n \<mapsto> mark_used (pi_load (sections a2) r))"
    by (rule alloc_inv_held_to_used [OF a2(2) mark_used_Used]; simp add: a3_def put_info_store [OF r2])+
  have "is_aligned_to_order (pframe n) k" using blk mk(2) by (simp add: aligned_pframe pfn_ok_def)
  moreover have "P2Frame_get (P2Frame (link (first_or ys None) k)) = (map_option pframe (first_or ys None), k)"
    using link_get [OF pfn_opt_aligned_ok [OF n(5)]] mk(2) by simp
  ultimately have run: "allocate_p2frame_complex q m a = Inr (a3, Some (pframe n, push_bit m PAGE_SIZE))"
    using find n(2) r mk(2) pop_relink_correct [OF inv mk(2) n(1)] a2(1) low a2(5)
    by (simp add: allocate_p2frame_complex_def node_free P2Frame_order_def P2Frame_frame_def a3_def above_off_def Let_def)
  have fields: "used_frames a3 = used_frames a + push_bit m 1" "abs_off a3 = abs_off a"
    "owns (sections a3) = owns (sections a)"
    "phys_mem a3 = write_bytes (phys_mem a) (physaddr (pframe n)) 0 (push_bit m PAGE_SIZE)"
    using a2(3-6) by (simp_all add: a3_def)
  have "(n, m) \<notin> A" "above_off a3 n"
    using alloc_invD(6) [OF a2(2)] low fields(2) by (auto simp: above_off_def)
  moreover have "same_info A a a3" using inv1(2) a2(7) inv3(2) same_info_trans by blast
  moreover have "\<exists>i. pinfo (sections a3) n = Some i \<and> refcount i = Some RcOne"
    using inv3(3) by (simp add: mark_used_One)
  ultimately show thesis by (intro that [OF run inv3(1)]) (use fields in simp_all)
qed


section \<open>Deallocation\<close>

lemma load_pinfo: "sections_wf secs \<Longrightarrow> owns secs n r \<Longrightarrow> pinfo secs n = Some i \<Longrightarrow> pi_load secs r = i"
  using owns_get(2) by fastforce

lemma free_info_ref:
  assumes "sections_wf secs" "pinfo secs n = Some (node k p q)" "pfn_opt_ok p" "k < 4096"
  obtains r where "get_free_alloc_page_info secs (pframe n) = Inr r" "pi_load secs r = node k p q"
    "owns secs n r" "\<forall>j. pi_store secs r j = put_info secs n j"
proof -
  obtain r where r: "get_page_info secs (pframe n) = Inr (Some r)" "owns secs n r" "pi_load secs r = node k p q"
    using pinfo_SomeD [OF assms(1,2)] by blast
  then show thesis
    using that [of r] assms(3,4) put_info_store [OF r(1)]
    by (simp add: get_free_alloc_page_info_def node_free)
qed

lemma free_nodes_aligned:
  assumes "alloc_inv a L A B" "k \<le> 10" "n \<in> set (L k)"
  shows "pfn_ok n" "2 ^ k dvd n"
  using alloc_inv_block(2,4) [OF assms(1), of n k] assms(2,3) by (auto simp: free_blocks_def)

lemma seg_neighbours:
  assumes "alloc_inv a L A B" "k \<le> 10" "set xs \<subseteq> set (L k)"
  shows "pfn_opt_aligned (last_or None xs) k" "pfn_opt_aligned (first_or xs None) k"
    "pfn_opt_ok (last_or None xs)" "pfn_opt_ok (first_or xs None)"
proof -
  note al = free_nodes_aligned [OF assms(1,2)]
  show "pfn_opt_aligned (last_or None xs) k"
  proof (cases "xs = []")
    case False
    then have "last xs \<in> set (L k)" using assms(3) last_in_set [of xs] by blast
    then show ?thesis using al False by (simp add: last_or_def)
  qed (simp add: last_or_def)
  then show "pfn_opt_ok (last_or None xs)" by (rule pfn_opt_aligned_ok)
  show "pfn_opt_aligned (first_or xs None) k" using al assms(3) by (cases xs) auto
  then show "pfn_opt_ok (first_or xs None)" by (rule pfn_opt_aligned_ok)
qed

lemma unlink_sibling_correct:
  assumes inv: "alloc_inv a L A B" and k: "k \<le> 10" and L: "L k = xs @ n # ys" and own: "owns (sections a) n r"
  shows "unlink_sibling (pframe n) r k a =
    Inr (a\<lparr>sections := sec.unlink (sections a) k xs ys,
           for_orders := (for_orders a)[k := map_option pframe (first_or (xs @ ys) None)]\<rparr>)"
proof -
  note D = alloc_invD [OF inv]
  note l = lists_okD [OF D(2)]
  have sg: "seg (pinfo (sections a)) k None (xs @ n # ys) None" and d: "distinct (xs @ n # ys)"
    using l(3,4) [OF k] L by simp_all
  have nb: "pfn_opt_aligned (last_or None xs) k" "pfn_opt_ok (last_or None xs)"
    "pfn_opt_aligned (first_or ys None) k" "pfn_opt_ok (first_or ys None)"
    using seg_neighbours [OF inv k, of xs] seg_neighbours [OF inv k, of ys] L by auto
  have i: "pinfo (sections a) n = Some (node k (last_or None xs) (first_or ys None))" using sg by simp
  have ld: "pi_load (sections a) r = node k (last_or None xs) (first_or ys None)"
    by (rule load_pinfo [OF D(1) own i])
  define s1 where "s1 = (if xs = [] then sections a
    else put_info (sections a) (last xs) (node k (last_or None (butlast xs)) (first_or ys None)))"
  have wf1: "sections_wf s1" using D(1) sec.ok_put by (simp add: s1_def)
  have own1: "owns s1 = owns (sections a)" by (simp add: s1_def)
  have p1: "pinfo s1 = (if xs = [] then pinfo (sections a) else
      (pinfo (sections a))(last xs \<mapsto> node k (last_or None (butlast xs)) (first_or ys None)))"
    using seg_dom [OF sg, of "last xs"] sec.look_put [OF D(1), of "last xs"] by (auto simp: s1_def)
  have "last xs \<noteq> n" "last xs \<notin> set ys" if "xs \<noteq> []" using d last_in_set [OF that] by auto
  then have i1: "pinfo s1 n = Some (node k (last_or None xs) (first_or ys None))"
    and p1y: "\<forall>m\<in>set ys. pinfo s1 m = pinfo (sections a) m" using i by (auto simp: p1)
  have ld1: "pi_load s1 r = node k (last_or None xs) (first_or ys None)"
    using load_pinfo [OF wf1 _ i1] own own1 by simp
  have head: "for_orders a ! k = map_option pframe (first_or xs (Some n))" "k < length (for_orders a)"
    using l(1,2) k L by auto
  define a1 where "a1 = a\<lparr>sections := s1,
      for_orders := (for_orders a)[k := map_option pframe (first_or (xs @ ys) None)]\<rparr>"
  have part1: "(case P2Frame_frame (free_prev (pi_load (sections a) r)) of
          Some sib_prev \<Rightarrow>
            bindE (get_free_alloc_page_info (sections a) sib_prev) (\<lambda>p.
            bindE (free_set_next (pi_load (sections a) p) (free_next (pi_load (sections a) r))) (\<lambda>i.
              Inr (a\<lparr>sections := pi_store (sections a) p i\<rparr>)))
        | None \<Rightarrow>
            bindE (indexE (for_orders a) k) (\<lambda>h.
            bindE (assertE (h = Some (pframe n)) ''for_orders[merge_order] != Some(sibling)'') (\<lambda>_.
            let next = free_next (pi_load (sections a) r) in
            bindE (assertE (case P2Frame_frame next of None \<Rightarrow> True
                              | Some f \<Rightarrow> is_aligned_to_order f k) ''next unaligned'') (\<lambda>_.
            bindE (assertE (P2Frame_order next = k) ''next.order != merge_order'') (\<lambda>_.
              Inr (a\<lparr>for_orders := (for_orders a)[k := P2Frame_frame next]\<rparr>)))))) = Inr a1"
  proof (cases xs rule: rev_cases)
    case Nil
    have "case first_or ys None of None \<Rightarrow> True | Some f \<Rightarrow> is_aligned_to_order (pframe f) k"
      using nb(3) k by (auto simp: aligned_pframe pfn_ok_def split: option.splits)
    then show ?thesis using Nil nb k head
      by (auto simp: ld P2Frame_frame_def P2Frame_order_def link_get a1_def s1_def split: option.splits)
  next
    case (snoc zs z)
    have zn: "pinfo (sections a) z = Some (node k (last_or None zs) (Some n))" using sg snoc by simp
    have "pfn_opt_ok (last_or None zs)" "pfn_ok z"
      using seg_neighbours [OF inv k, of zs] free_nodes_aligned(1) [OF inv k, of z] L snoc by auto
    then obtain rz where "get_free_alloc_page_info (sections a) (pframe z) = Inr rz"
      "pi_load (sections a) rz = node k (last_or None zs) (Some n)" "owns (sections a) z rz"
      "\<forall>j. pi_store (sections a) rz j = put_info (sections a) z j"
      using free_info_ref [OF D(1) zn] k by auto
    moreover have "(for_orders a)[k := map_option pframe (first_or (xs @ ys) None)] = for_orders a"
      using head snoc by (cases zs) (simp_all add: list_update_same_conv)
    ultimately show ?thesis using snoc nb k \<open>pfn_ok z\<close>
      by (simp add: ld P2Frame_frame_def link_get set_next_link a1_def s1_def)
  qed
  have sa1: "sections a1 = s1" by (simp add: a1_def)
  have part2: "(case P2Frame_frame (free_next (pi_load (sections a1) r)) of
          Some sib_next \<Rightarrow>
            bindE (get_free_alloc_page_info (sections a1) sib_next) (\<lambda>n.
            bindE (free_set_prev (pi_load (sections a1) n) (free_prev (pi_load (sections a1) r))) (\<lambda>i.
              Inr (a1\<lparr>sections := pi_store (sections a1) n i\<rparr>)))
        | None \<Rightarrow> Inr a1) = Inr (a\<lparr>sections := sec.unlink (sections a) k xs ys,
           for_orders := (for_orders a)[k := map_option pframe (first_or (xs @ ys) None)]\<rparr>)"
  proof (cases ys)
    case Nil
    then have "sec.unlink (sections a) k xs ys = s1" by (simp add: s1_def sec.unlink_def)
    then show ?thesis using k Nil by (simp add: sa1 ld1 P2Frame_frame_def link_get a1_def)
  next
    case (Cons y zs)
    have yn: "pinfo s1 y = Some (node k (Some n) (first_or zs None))" using sg Cons p1y by simp
    have "pfn_ok n" "pfn_ok y" using free_nodes_aligned(1) [OF inv k] L Cons by auto
    then obtain ry where "get_free_alloc_page_info s1 (pframe y) = Inr ry"
      "pi_load s1 ry = node k (Some n) (first_or zs None)" "owns s1 y ry"
      "\<forall>j. pi_store s1 ry j = put_info s1 y j"
      using free_info_ref [OF wf1 yn] k by auto
    moreover have "sec.unlink (sections a) k xs ys = put_info s1 y (node k (last_or None xs) (first_or zs None))"
      using Cons by (simp add: sec.unlink_def s1_def Let_def)
    ultimately show ?thesis using Cons nb k \<open>pfn_ok y\<close>
      by (simp add: sa1 ld1 P2Frame_frame_def link_get set_prev_link a1_def)
  qed
  show ?thesis unfolding unlink_sibling_def part1 bindE_simps part2 ..
qed


lemma buddy_pfn_ok: "pfn_ok c \<Longrightarrow> m \<le> 50 \<Longrightarrow> c \<noteq> 2 ^ m \<Longrightarrow> pfn_ok (buddy c m)"
  using nat_xor_lt [of c 51 "2 ^ m"] power_strict_increasing [of m 51 "2::nat"] buddy_buddy [of c m]
  by (cases "buddy c m = 0") (simp_all add: pfn_ok_def buddy_def)

lemma free_block_info:
  assumes "alloc_inv a L A B" "(n, k) \<in> free_blocks L" "pinfo (sections a) n = Some i"
  shows "\<exists>p q. i = node k p q \<and> pfn_opt_ok p \<and> pfn_opt_ok q"
proof -
  have k: "k \<le> 10" "n \<in> set (L k)" using assms(2) by (auto simp: free_blocks_def)
  then obtain xs ys where L: "L k = xs @ n # ys" using split_list by metis
  then have "i = node k (last_or None xs) (first_or ys None)"
    using lists_okD(3) [OF alloc_invD(2) [OF assms(1)] k(1)] assms(3) by simp
  moreover have "pfn_opt_ok (last_or None xs)" "pfn_opt_ok (first_or ys None)"
    using seg_neighbours [OF assms(1) k(1), of xs] seg_neighbours [OF assms(1) k(1), of ys] L by auto
  ultimately show ?thesis by blast
qed

lemma free_blocks_Free:
  assumes "alloc_inv a L A B" "(n, k) \<in> free_blocks L" "pinfo (sections a) n = Some i"
  shows "pi_kind i = Free" "P2Frame_order (free_next i) = k"
proof -
  have "k \<le> 10" using assms(2) by (simp add: free_blocks_def)
  then show "pi_kind i = Free" "P2Frame_order (free_next i) = k"
    using free_block_info [OF assms] node_next node_free by (auto simp del: free_links_node)
qed

text \<open>What a round of the merge loop can find in place of the buddy.\<close>

lemma merge_sibling_cases:
  assumes inv: "alloc_inv a L A {(c, m)}" and m: "m < 10" and b: "pinfo (sections a) (buddy c m) = Some i"
  obtains (used) "pi_kind i = Used" | (smaller) j p q where "j < m" "i = node j p q" "pfn_opt_ok p" "pfn_opt_ok q"
  | (same) xs ys where "L m = xs @ buddy c m # ys" "i = node m (last_or None xs) (first_or ys None)"
      "pfn_opt_ok (last_or None xs)" "pfn_opt_ok (first_or ys None)"
proof -
  note D = alloc_invD [OF inv]
  obtain j where j: "j \<le> m" "(buddy c m, j) \<in> free_blocks L \<union> A \<union> {(c, m)}"
    using tiling_buddy [OF D(3), of c m] b by auto
  then consider "(buddy c m, j) \<in> A" | "(buddy c m, j) \<in> free_blocks L" by auto
  then show thesis
  proof cases
    case 1
    then show thesis using D(7) b used by fastforce
  next
    case 2
    then have jk: "j \<le> 10" "buddy c m \<in> set (L j)" by (auto simp: free_blocks_def)
    then obtain xs ys where L: "L j = xs @ buddy c m # ys" using split_list by metis
    then have i: "i = node j (last_or None xs) (first_or ys None)"
      using lists_okD(3) [OF D(2) jk(1)] b by simp
    have "pfn_opt_ok (last_or None xs)" "pfn_opt_ok (first_or ys None)"
      using seg_neighbours [OF inv jk(1), of xs] seg_neighbours [OF inv jk(1), of ys] L by auto
    then show thesis using smaller [of j] same [of xs ys] i L j(1) by (cases "j = m") auto
  qed
qed

lemma merge_loop_correct:
  assumes "alloc_inv a L A {(c, m)}" "above_off a c" "m \<le> 10" "low_guard (dom (pinfo (sections a))) R" "R \<subseteq> A"
  obtains c' m' a' L' where "merge_loop [m..<10] (pframe c) m a = Inr (pframe c', m', a')"
    "alloc_inv a' L' A {(c', m')}" "above_off a' c'" "m' < 10 \<longrightarrow> (buddy c' m', m') \<notin> free_blocks L'"
    "used_frames a' = used_frames a" "phys_mem a' = phys_mem a" "abs_off a' = abs_off a"
    "owns (sections a') = owns (sections a)" "same_info A a a'"
  using assms
proof (induction "10 - m" arbitrary: m c a L thesis)
  case 0
  then show thesis by simp
next
  case (Suc d)
  note inv = Suc.prems(2) and low = Suc.prems(3)
  note D = alloc_invD [OF inv]
  have m: "m < 10" using Suc.hyps(2) by simp
  then have up: "[m..<10] = m # [Suc m..<10]" by (simp add: upt_conv_Cons)
  have c: "pfn_ok c" "2 ^ m dvd c" "pinfo (sections a) c \<noteq> None" using alloc_inv_block [OF inv, of c m] by auto
  have c2: "c \<noteq> 2 ^ m" using low_guard_block [OF inv Suc.prems(5,6) m] .
  then have sib: "Frame_containing (physaddr (pframe c) XOR push_bit m PAGE_SIZE) = Inr (pframe (buddy c m))"
    and mrg: "Frame_containing (physaddr (pframe c) AND NOT (push_bit m PAGE_SIZE)) = Inr (pframe (unset_bit m c))"
    using sibling_pframe [of c m] merged_pframe [of c m] c m by (auto simp: pfn_ok_def buddy_def)
  have bp: "pfn_ok (buddy c m)" using buddy_pfn_ok [OF c(1) _ c2] m by simp
  obtain rc where rc: "get_page_info (sections a) (pframe c) = Inr (Some rc)"
    using pinfo_SomeD [OF D(1)] c(3) by blast
  have stop: thesis if "merge_loop [m..<10] (pframe c) m a = Inr (pframe c, m, a)" "(buddy c m, m) \<notin> free_blocks L"
    using Suc.prems(1) [OF that(1) inv low] that(2) by simp
  show thesis
  proof (cases rule: get_page_info_cases [OF D(1) bp])
    case 2
    then have "(buddy c m, m) \<notin> free_blocks L" using alloc_inv_block(3) [OF inv] by blast
    then show thesis using stop 2 sib rc by (simp add: up)
  next
    case (1 r)
    show thesis
    proof (rule merge_sibling_cases [OF inv m 1(3)], goal_cases used smaller same)
      case used
      then have "(buddy c m, m) \<notin> free_blocks L" using free_blocks_Free [OF inv] 1(3) by fastforce
      then show thesis using stop 1 sib rc used by (simp add: up)
    next
      case (smaller j p q)
      then have o: "P2Frame_order (free_next (pi_load (sections a) r)) = j" using m node_next(2) by simp
      then have "(buddy c m, m) \<notin> free_blocks L"
        using free_blocks_Free(2) [OF inv _ 1(3)] smaller(1) by (metis less_irrefl)
      then show thesis using stop 1 sib rc smaller m o by (simp add: up node_free)
    next
      case (same xs ys)
      let ?a = "a\<lparr>sections := sec.unlink (sections a) m xs ys,
           for_orders := (for_orders a)[m := map_option pframe (first_or (xs @ ys) None)]\<rparr>"
      let ?L = "L(m := xs @ ys)"
      have fh: "alloc_inv ?a ?L A {(buddy c m, m), (c, m)}" "same_info A a ?a"
        using alloc_inv_free_to_held [OF inv _ same(1), of ?a] m by simp_all
      then have inv': "alloc_inv ?a ?L A {(unset_bit m c, Suc m)}"
        using alloc_inv_held_merge m by (simp add: insert_commute)
      have two: "unset_bit m c = c \<or> unset_bit m c = buddy c m" by (rule buddy_cases [OF c(2)]) auto
      have "(buddy c m, m) \<in> free_blocks L" using m same(1) by (simp add: free_blocks_def)
      then have low': "above_off ?a (unset_bit m c)"
        using two low D(8) [of "buddy c m" m] by (auto simp: above_off_def)
      have sg: "seg (pinfo (sections a)) m None (xs @ buddy c m # ys) None" "distinct (xs @ buddy c m # ys)"
        using lists_okD(3,4) [OF D(2), of m] m same(1) by simp_all
      have guard': "low_guard (dom (pinfo (sections ?a))) R"
        using Suc.prems(5) sec.unlink_seg(2) [OF D(1) sg(2,1)] by simp
      obtain c' m' a' L' where r: "merge_loop [Suc m..<10] (pframe (unset_bit m c)) (Suc m) ?a = Inr (pframe c', m', a')"
        "alloc_inv a' L' A {(c', m')}" "above_off a' c'" "m' < 10 \<longrightarrow> (buddy c' m', m') \<notin> free_blocks L'"
        "used_frames a' = used_frames ?a" "phys_mem a' = phys_mem ?a" "abs_off a' = abs_off ?a"
        "owns (sections a') = owns (sections ?a)" "same_info A ?a a'"
        by (rule Suc.hyps(1) [OF _ _ inv' low' _ guard' Suc.prems(6)]) (use Suc.hyps(2) m in simp_all)
      have "merge_loop [m..<10] (pframe c) m a = Inr (pframe c', m', a')"
        using r(1) 1 sib rc same m mrg unlink_sibling_correct [OF inv _ same(1) 1(2)]
        by (simp add: up node_free del: free_links_node)
      moreover have "same_info A a a'" using fh(2) r(9) by (rule same_info_trans)
      ultimately show thesis by (intro Suc.prems(1)) (use r in simp_all)
    qed
  qed
qed

lemma owns_push_front [simp]: "owns (sec.push_front secs k n ns) = owns secs"
  by (simp add: sec.push_front_def Let_def)

lemma push_free_correct:
  assumes inv: "alloc_inv a L A (insert (n, k) B)"
  shows "push_free (pframe n) k a = Inr (a\<lparr>sections := sec.push_front (sections a) k n (L k),
      for_orders := (for_orders a)[k := Some (pframe n)]\<rparr>)"
proof -
  note D = alloc_invD [OF inv]
  have n: "k \<le> 10" "2 ^ k dvd n" "pfn_ok n" "pinfo (sections a) n \<noteq> None"
    using alloc_inv_block [OF inv, of n k] by auto
  then obtain i where i: "pinfo (sections a) n = Some i" by blast
  obtain r where r: "get_page_info (sections a) (pframe n) = Inr (Some r)" "owns (sections a) n r"
    using pinfo_SomeD [OF D(1) i] by blast
  have st: "pi_store (sections a) r j = put_info (sections a) n j" for j by (rule put_info_store [OF r(1)])
  have al: "is_aligned_to_order (pframe n) k" using n by (simp add: aligned_pframe pfn_ok_def)
  have hd: "for_orders a ! k = map_option pframe (first_or (L k) None)" "k < length (for_orders a)"
    using lists_okD(1,2) [OF D(2)] n(1) by simp_all
  have wf: "sections_wf (put_info (sections a) n j)" for j using sec.ok_put [OF D(1)] .
  have own: "owns (put_info (sections a) n j) n r" for j using r(2) by simp
  have ld: "pi_load (put_info (sections a) n j) r = j" for j
    using load_pinfo [OF wf own] sec.look_put [OF D(1) n(4)] by simp
  show ?thesis
  proof (cases "L k")
    case Nil
    then show ?thesis using r st al hd
      by (simp add: push_free_def make_free_node sec.push_front_def Let_def)
  next
    case (Cons y zs)
    have yk: "(y, k) \<in> free_blocks L" using Cons n(1) by (simp add: free_blocks_def)
    have y: "pfn_ok y" "2 ^ k dvd y" using free_nodes_aligned [OF inv n(1)] Cons by auto
    have yn: "y \<noteq> n" using yk D(5) by blast
    have py: "pinfo (sections a) y = Some (node k None (first_or zs None))"
      using lists_okD(3) [OF D(2) n(1)] Cons by simp
    obtain ry where ry: "get_page_info (sections a) (pframe y) = Inr (Some ry)" "owns (sections a) y ry"
      using pinfo_SomeD [OF D(1) py] by blast
    let ?s = "\<lambda>j. put_info (sections a) n j"
    have gy: "get_page_info (?s j) (pframe y) = Inr (Some ry)" "get_page_info (?s j) (pframe n) = Inr (Some r)"
      "pi_load (?s j) ry = node k None (first_or zs None)" "pi_store (?s j) r i = ?s i"
      "pi_store (?s j) ry i = put_info (?s j) y i" for i j
    proof -
      show g: "get_page_info (?s j) (pframe y) = Inr (Some ry)" using ry(1) D(1) py by simp
      show "get_page_info (?s j) (pframe n) = Inr (Some r)" using r(1) D(1) n(4) by simp
      show "pi_load (?s j) ry = node k None (first_or zs None)"
        using load_pinfo [OF wf [of j], of y ry] ry(2) py yn sec.look_put [OF D(1) n(4)] by simp
      show "pi_store (?s j) r i = ?s i" unfolding st [symmetric] by simp
      show "pi_store (?s j) ry i = put_info (?s j) y i" by (rule put_info_store [OF g])
    qed
    have hy: "for_orders a ! k = Some (pframe y)" using hd Cons by simp
    have "sec.push_front (sections a) k n (L k) =
        put_info (?s (node k None (Some y))) y (node k (Some n) (first_or zs None))"
      using Cons by (simp add: sec.push_front_def)
    then show ?thesis using r(1) st al hd(2) hy gy ld n y
      by (simp add: push_free_def make_free_node get_free_alloc_page_info_def node_free set_next_link set_prev_link P2Frame_new_link)
  qed
qed

section \<open>Main results\<close>

lemma dom_pinfo: "sections_wf secs \<Longrightarrow> dom (pinfo secs) = {n. \<exists>r. owns secs n r}"
  using pinfo_SomeD owns_get(2) by fastforce

lemma same_owns_dom:
  "alloc_inv a L A B \<Longrightarrow> alloc_inv a' L' A' B' \<Longrightarrow> owns (sections a') = owns (sections a) \<Longrightarrow>
   dom (pinfo (sections a')) = dom (pinfo (sections a))"
  by (simp add: dom_pinfo alloc_invD(1))

lemma alloc_okE:
  assumes "alloc_ok a U R"
  obtains L where "alloc_inv a L (U \<union> R) {}" "U \<inter> R = {}" "finite U"
    "used_frames a = of_nat (\<Sum>b\<in>U. 2 ^ snd b)" "\<forall>b\<in>U. above_off a (fst b)"
    "low_guard (dom (pinfo (sections a))) R"
  using assms unfolding alloc_ok_def by blast

lemma used_block_free_run:
  assumes "alloc_inv a L (insert (n, m) A) {}" "(n, m) \<notin> A"
  shows "2 ^ m dvd n" "blk (n, m) \<subseteq> dom (pinfo (sections a))" "\<forall>c\<in>A. blk c \<inter> blk (n, m) = {}" "m \<le> 10" "pfn_ok n"
proof -
  note b = alloc_inv_block [OF assms(1), of n m]
  show "2 ^ m dvd n" "blk (n, m) \<subseteq> dom (pinfo (sections a))" "m \<le> 10" "pfn_ok n" using b by auto
  show "\<forall>c\<in>A. blk c \<inter> blk (n, m) = {}"
  proof
    fix c assume c: "c \<in> A"
    show "blk c \<inter> blk (n, m) = {}"
      using tiling_unique [OF alloc_invD(3) [OF assms(1)], of c "(n, m)"] c assms(2) by blast
  qed
qed

lemma unat_block_size: "m \<le> 10 \<Longrightarrow> unat (push_bit m PAGE_SIZE) = 4096 * 2 ^ m"
  by (subst push_bit_PAGE_SIZE) (auto simp: unat_pframe)

lemma write_block:
  assumes "pfn_ok n" "m \<le> 10"
  shows "write_bytes mem (physaddr (pframe n)) v (push_bit m PAGE_SIZE) x =
    (if unat x div 4096 \<in> blk (n, m) then v else mem x)"
proof -
  have "unat (physaddr (pframe n)) = n * 4096" using assms(1) by (simp add: unat_pframe pfn_ok_def)
  then show ?thesis using unat_block_size [OF assms(2)]
    by (simp add: write_bytes_def word_le_nat_alt less_eq_div_iff_mult_less_eq div_less_iff_less_mult algebra_simps)
qed

lemma alloc_ok_allocate:
  assumes ok: "alloc_ok a U R" and inv: "alloc_inv a' L' (insert (n, m) (U \<union> R)) {}" "(n, m) \<notin> U \<union> R" "above_off a' n"
    and a': "used_frames a' = used_frames a + push_bit m 1" "abs_off a' = abs_off a" "owns (sections a') = owns (sections a)"
  shows "alloc_ok a' (insert (n, m) U) R"
proof -
  obtain L where L: "alloc_inv a L (U \<union> R) {}" "U \<inter> R = {}" "finite U" "used_frames a = of_nat (\<Sum>b\<in>U. 2 ^ snd b)"
    "\<forall>b\<in>U. above_off a (fst b)" "low_guard (dom (pinfo (sections a))) R" using ok by (rule alloc_okE)
  have "used_frames a' = of_nat (\<Sum>b\<in>insert (n, m) U. 2 ^ snd b)"
    using L(3,4) a'(1) inv(2) by (simp add: push_bit_eq_mult algebra_simps)
  moreover have "low_guard (dom (pinfo (sections a'))) R" using L(6) same_owns_dom [OF L(1) inv(1) a'(3)] by simp
  moreover have "\<forall>b\<in>insert (n, m) U. above_off a' (fst b)" using L(5) inv(3) a'(2) by (auto simp: above_off_def)
  ultimately show ?thesis unfolding alloc_ok_def using inv(1,2) L(2,3) by auto
qed

lemma allocate_cases_dom:
  assumes ok: "alloc_ok a U R"
  obtains (none) "allocate_p2frame_complex q m a = Inr (a, None)" "m \<le> 10 \<longrightarrow> (\<forall>n. \<not> free_run a (U \<union> R) (n, m))"
  | (some) n a' where "allocate_p2frame_complex q m a = Inr (a', Some (pframe n, push_bit m PAGE_SIZE))"
    "m \<le> 10" "pfn_ok n" "free_run a (U \<union> R) (n, m)" "alloc_ok a' (insert (n, m) U) R" "(n, m) \<notin> U \<union> R"
    "phys_mem a' = (\<lambda>x. if unat x div 4096 \<in> blk (n, m) then 0 else phys_mem a x)"
    "same_info (U \<union> R) a a'" "\<exists>i. pinfo (sections a') n = Some i \<and> refcount i = Some RcOne"
    "dom (pinfo (sections a')) = dom (pinfo (sections a))"
proof -
  obtain L where L: "alloc_inv a L (U \<union> R) {}" using ok by (rule alloc_okE)
  show thesis
  proof (cases "find_free_order (for_orders a) m")
    case None
    have "L k = []" if "m \<le> k" "k \<le> 10" for k
      using find_free_order_None [OF None, of k] lists_okD(1,2) [OF alloc_invD(2) [OF L]] that by (cases "L k") auto
    then have "\<not> free_run a (U \<union> R) (n, m)" if "m \<le> 10" for n using no_free_run [OF L that] by blast
    then show thesis using none None by (simp add: allocate_p2frame_complex_def)
  next
    case (Some kf)
    then obtain k f where kf: "find_free_order (for_orders a) m = Some (k, f)" by (cases kf) auto
    obtain n a' L' where r: "allocate_p2frame_complex q m a = Inr (a', Some (pframe n, push_bit m PAGE_SIZE))"
      "alloc_inv a' L' (insert (n, m) (U \<union> R)) {}" "(n, m) \<notin> U \<union> R" "above_off a' n"
      "used_frames a' = used_frames a + push_bit m 1" "abs_off a' = abs_off a"
      "owns (sections a') = owns (sections a)"
      "phys_mem a' = write_bytes (phys_mem a) (physaddr (pframe n)) 0 (push_bit m PAGE_SIZE)"
      "same_info (U \<union> R) a a'" "\<exists>i. pinfo (sections a') n = Some i \<and> refcount i = Some RcOne"
      by (rule allocate_Some [OF L kf, of q])
    note f = used_block_free_run [OF r(2,3)]
    have "free_run a (U \<union> R) (n, m)" using f same_owns_dom [OF L r(2,7)] by (simp add: free_run_def)
    moreover have "phys_mem a' = (\<lambda>x. if unat x div 4096 \<in> blk (n, m) then 0 else phys_mem a x)"
      using r(8) write_block [OF f(5,4)] by (intro ext) simp
    ultimately show thesis
      using some [OF r(1) f(4,5)] alloc_ok_allocate [OF ok r(2-7)] r(3,9,10) same_owns_dom [OF L r(2,7)] by blast
  qed
qed

lemma allocate_cases:
  assumes ok: "alloc_ok a U R"
  obtains (none) "allocate_p2frame_complex q m a = Inr (a, None)" "m \<le> 10 \<longrightarrow> (\<forall>n. \<not> free_run a (U \<union> R) (n, m))"
  | (some) n a' where "allocate_p2frame_complex q m a = Inr (a', Some (pframe n, push_bit m PAGE_SIZE))"
    "m \<le> 10" "pfn_ok n" "free_run a (U \<union> R) (n, m)" "alloc_ok a' (insert (n, m) U) R" "(n, m) \<notin> U \<union> R"
    "phys_mem a' = (\<lambda>x. if unat x div 4096 \<in> blk (n, m) then 0 else phys_mem a x)"
    "same_info (U \<union> R) a a'" "\<exists>i. pinfo (sections a') n = Some i \<and> refcount i = Some RcOne"
  by (rule allocate_cases_dom [OF ok, of q m]) (use none some in blast)+

lemma deallocate_Inr_dom:
  assumes ok: "alloc_ok a U R" and nk: "(n, k) \<in> U"
  obtains a' where "deallocate_p2frame (pframe n) k a = Inr a'" "alloc_ok a' (U - {(n, k)}) R" "phys_mem a' = phys_mem a"
    "same_info (U \<union> R - {(n, k)}) a a'" "dom (pinfo (sections a')) = dom (pinfo (sections a))"
proof -
  obtain L where L: "alloc_inv a L (U \<union> R) {}" "U \<inter> R = {}" "finite U" "used_frames a = of_nat (\<Sum>b\<in>U. 2 ^ snd b)"
    "\<forall>b\<in>U. above_off a (fst b)" "low_guard (dom (pinfo (sections a))) R" using ok by (rule alloc_okE)
  let ?A = "U \<union> R - {(n, k)}"
  have held: "alloc_inv a L ?A {(n, k)}" using alloc_inv_used_to_held [OF L(1)] nk by simp
  have RA: "R \<subseteq> ?A" and A: "?A = (U - {(n, k)}) \<union> R" using L(2) nk by auto
  have k: "k \<le> 10" using alloc_inv_block(1) [OF held] by blast
  have off: "above_off a n" using L(5) nk by fastforce
  obtain c m a1 L1 where m: "merge_loop [k..<10] (pframe n) k a = Inr (pframe c, m, a1)"
    "alloc_inv a1 L1 ?A {(c, m)}" "above_off a1 c" "m < 10 \<longrightarrow> (buddy c m, m) \<notin> free_blocks L1"
    "used_frames a1 = used_frames a" "phys_mem a1 = phys_mem a" "abs_off a1 = abs_off a"
    "owns (sections a1) = owns (sections a)" "same_info ?A a a1"
    by (rule merge_loop_correct [OF held off k L(6) RA])
  define a2 where "a2 = a1\<lparr>sections := sec.push_front (sections a1) m c (L1 m),
      for_orders := (for_orders a1)[m := Some (pframe c)]\<rparr>"
  have pf: "push_free (pframe c) m a1 = Inr a2" unfolding a2_def by (rule push_free_correct [OF m(2)])
  have inv2: "alloc_inv a2 (L1(m := c # L1 m)) ?A {}" "same_info ?A a1 a2"
    by (rule alloc_inv_held_to_free [OF m(2) _ m(3)]; use m(4) in \<open>simp add: a2_def\<close>)+
  define a3 where "a3 = a2\<lparr>used_frames := used_frames a2 - push_bit k 1\<rparr>"
  have inv3: "alloc_inv a3 (L1(m := c # L1 m)) ?A {}"
    using inv2(1) unfolding alloc_inv_def a3_def above_off_def by simp
  have run: "deallocate_p2frame (pframe n) k a = Inr a3" using m(1) pf by (simp add: deallocate_p2frame_def a3_def)
  have "(\<Sum>b\<in>U. 2 ^ snd b) = 2 ^ k + (\<Sum>b\<in>U - {(n, k)}. 2 ^ snd b :: usize)"
    using sum.remove [OF L(3) nk, of "\<lambda>b. 2 ^ snd b"] by simp
  then have "used_frames a3 = of_nat (\<Sum>b\<in>U - {(n, k)}. 2 ^ snd b)"
    using L(4) m(5) by (simp add: a3_def a2_def push_bit_eq_mult)
  moreover have "owns (sections a3) = owns (sections a)" using m(8) by (simp add: a3_def a2_def)
  then have dom: "dom (pinfo (sections a3)) = dom (pinfo (sections a))" by (rule same_owns_dom [OF L(1) inv3])
  then have "low_guard (dom (pinfo (sections a3))) R" using L(6) by simp
  moreover have "abs_off a3 = abs_off a" using m(7) by (simp add: a3_def a2_def)
  then have "\<forall>b\<in>U - {(n, k)}. above_off a3 (fst b)" using L(5) by (simp add: above_off_def)
  ultimately have "alloc_ok a3 (U - {(n, k)}) R" unfolding alloc_ok_def using inv3 A L(2,3) by auto
  moreover have "same_info ?A a a3"
    using same_info_trans [OF m(9) inv2(2)] by (simp add: same_info_def a3_def)
  ultimately show thesis using that [OF run] m(6) dom by (simp add: a3_def a2_def)
qed

lemma deallocate_Inr:
  assumes "alloc_ok a U R" "(n, k) \<in> U"
  obtains a' where "deallocate_p2frame (pframe n) k a = Inr a'" "alloc_ok a' (U - {(n, k)}) R" "phys_mem a' = phys_mem a"
    "same_info (U \<union> R - {(n, k)}) a a'"
  using deallocate_Inr_dom [OF assms] by metis

text \<open>A history of calls: blocks are allocated, and blocks that are live are freed.\<close>

definition frame_pfn :: "frame \<Rightarrow> nat" where
  "frame_pfn f = unat (physaddr f) div 4096"

lemma frame_pfn_pframe [simp]: "pfn_ok n \<Longrightarrow> frame_pfn (pframe n) = n"
  by (simp add: frame_pfn_def unat_pframe pfn_ok_def)

inductive alloc_history :: "allocator \<Rightarrow> block set \<Rightarrow> allocator \<Rightarrow> block set \<Rightarrow> bool" where
  start: "alloc_history a U a U"
| alloc: "alloc_history a U b V \<Longrightarrow> allocate_p2frame m b = Inr (c, Some f) \<Longrightarrow>
    alloc_history a U c (insert (frame_pfn f, m) V)"
| alloc_failed: "alloc_history a U b V \<Longrightarrow> allocate_p2frame m b = Inr (c, None) \<Longrightarrow> alloc_history a U c V"
| free: "alloc_history a U b V \<Longrightarrow> (n, k) \<in> V \<Longrightarrow> deallocate_p2frame (pframe n) k b = Inr c \<Longrightarrow>
    alloc_history a U c (V - {(n, k)})"

lemma alloc_history_ok: "alloc_history a U b V \<Longrightarrow> alloc_ok a U R \<Longrightarrow> alloc_ok b V R"
proof (induction rule: alloc_history.induct)
  case (alloc a U b V m c f)
  then have ok: "alloc_ok b V R" by blast
  show ?case
    by (rule allocate_cases [OF ok, of m m]) (use alloc.hyps(2) in \<open>auto simp: allocate_p2frame_def\<close>)
next
  case (alloc_failed a U b V m c)
  then have ok: "alloc_ok b V R" by blast
  show ?case
    by (rule allocate_cases [OF ok, of m m]) (use alloc_failed.hyps(2) ok in \<open>auto simp: allocate_p2frame_def\<close>)
next
  case (free a U b V n k c)
  then have ok: "alloc_ok b V R" by blast
  show ?case
    by (rule deallocate_Inr [OF ok free.hyps(2)]) (use free.hyps(3) in auto)
qed simp

text \<open>
  C1: In a consistent allocator, \<open>allocate_p2frame_complex\<close> never panics.  It either returns
  the address of a naturally aligned run of \<open>2 ^ m\<close> managed pages that no live or reserved
  block touches, zeroes exactly these pages and records them as used without touching the metadata
  of other blocks in use, or it changes nothing, and then no such run exists.
\<close>

theorem allocate_p2frame_complex_correct:
  assumes "alloc_ok a U R"
  shows "case allocate_p2frame_complex q m a of
      Inl p \<Rightarrow> False
    | Inr (a', None) \<Rightarrow> a' = a \<and> (m \<le> MAX_ORDER \<longrightarrow> (\<forall>n. \<not> free_run a (U \<union> R) (n, m)))
    | Inr (a', Some (f, sz)) \<Rightarrow> (\<exists>n. f = pframe n \<and> sz = push_bit m PAGE_SIZE \<and>
        free_run a (U \<union> R) (n, m) \<and> alloc_ok a' (insert (n, m) U) R \<and> same_info (U \<union> R) a a' \<and>
        phys_mem a' = (\<lambda>x. if unat x div 4096 \<in> blk (n, m) then 0 else phys_mem a x))"
  by (rule allocate_cases [OF assms, of q m]) auto

text \<open>
  C2: Freeing a live block never panics, keeps the allocator consistent and takes exactly this block
  out of the live set; merging with free buddies restores full coalescing.
\<close>

theorem deallocate_p2frame_correct:
  assumes "alloc_ok a U R" "(n, k) \<in> U"
  shows "\<exists>a'. deallocate_p2frame (pframe n) k a = Inr a' \<and> alloc_ok a' (U - {(n, k)}) R \<and> phys_mem a' = phys_mem a \<and>
    same_info (U \<union> R - {(n, k)}) a a'"
  by (rule deallocate_Inr [OF assms]) auto

text \<open>
  C3: After any history of allocations and frees, live blocks are pairwise disjoint and lie in managed
  memory, the next allocation and the free of any live block do not panic, and
  \<open>used_frames\<close> is the number of live pages.
\<close>

theorem alloc_history_safe:
  assumes "alloc_ok a U R" "alloc_history a U b V"
  shows "(\<forall>x\<in>V. \<forall>y\<in>V. x \<noteq> y \<longrightarrow> blk x \<inter> blk y = {}) \<and> (\<forall>x\<in>V. blk x \<subseteq> dom (pinfo (sections b))) \<and>
    (\<forall>m. \<not> panics (allocate_p2frame m b)) \<and> (\<forall>(n, k)\<in>V. \<not> panics (deallocate_p2frame (pframe n) k b)) \<and>
    used_frames b = of_nat (\<Sum>x\<in>V. 2 ^ snd x)"
proof -
  have ok: "alloc_ok b V R" by (rule alloc_history_ok [OF assms(2,1)])
  obtain L where L: "alloc_inv b L (V \<union> R) {}" "used_frames b = of_nat (\<Sum>x\<in>V. 2 ^ snd x)"
    using ok by (rule alloc_okE)
  note t = alloc_invD(3) [OF L(1)]
  have "blk x \<inter> blk y = {}" if "x \<in> V" "y \<in> V" "x \<noteq> y" for x y
    using tiling_unique [OF t, of x y] that by blast
  moreover have "blk x \<subseteq> dom (pinfo (sections b))" if "x \<in> V" for x
    using tilingD(3) [OF t, of "fst x" "snd x"] that by simp
  moreover have "\<not> panics (allocate_p2frame m b)" for m
    by (rule allocate_cases [OF ok, of m m]) (simp_all add: allocate_p2frame_def)
  moreover have "\<not> panics (deallocate_p2frame (pframe n) k b)" if "(n, k) \<in> V" for n k
    by (rule deallocate_Inr [OF ok that]) simp
  ultimately show ?thesis using L(2) by auto
qed

text \<open>
  C7: A block at address \<open>PAGE_SIZE << m\<close> of order \<open>m\<close> cannot be freed: its buddy is
  frame zero, and the merge loop panics in \<open>Frame::containing\<close> before it looks at anything.
\<close>

theorem deallocate_low_block_panics:
  assumes "m < MAX_ORDER"
  shows "deallocate_p2frame (pframe (2 ^ m)) m a = Inl (Panic ''frame 0x0 is reserved'')"
proof -
  have "[m..<10] = m # [Suc m..<10]" using assms by (simp add: upt_conv_Cons)
  then show ?thesis using sibling_pframe [of "2 ^ m" m] assms by (simp add: deallocate_p2frame_def)
qed

section \<open>Example states\<close>

text \<open>Two pages from frame 1024: first one free block of order 1, then one used and one free page.\<close>

definition two_pages :: "page_info \<Rightarrow> page_info \<Rightarrow> mem_section list" where
  "two_pages i j = [\<lparr>sec_base = pframe 1024, sec_frames = [i, j]\<rparr>]"

definition example_free :: allocator where
  "example_free = \<lparr>sections = two_pages (node 1 None None) (node 0 None None),
     abs_off = 0, for_orders = (replicate ORDER_COUNT None)[1 := Some (pframe 1024)], used_frames = 0,
     phys_mem = (\<lambda>_. 1)\<rparr>"

definition example_used :: allocator where
  "example_used = \<lparr>sections = two_pages (mark_used (node 0 None None)) (node 0 None None),
     abs_off = 0, for_orders = (replicate ORDER_COUNT None)[0 := Some (pframe 1025)], used_frames = 1,
     phys_mem = (\<lambda>_. 1)\<rparr>"

lemma two_pages_sections:
  "sections_wf (two_pages i j)" "pinfo (two_pages i j) = [1024 \<mapsto> i, 1025 \<mapsto> j]"
proof -
  have p: "pfn_ok 1024" by (simp add: pfn_ok_def)
  then have s: "sec_pfn \<lparr>sec_base = pframe 1024, sec_frames = fs\<rparr> = 1024" for fs
    by (simp add: sec_pfn_def unat_pframe pfn_ok_def)
  show wf: "sections_wf (two_pages i j)"
    using p by (simp add: two_pages_def sections_wf_def sec_end_def s frame_ok_pframe)
  have o: "owns (two_pages i j) n r \<longleftrightarrow> r = (0, n - 1024) \<and> (n = 1024 \<or> n = 1025)" for n r
    by (cases r) (auto simp: owns_def two_pages_def s)
  show "pinfo (two_pages i j) = [1024 \<mapsto> i, 1025 \<mapsto> j]"
  proof
    fix n :: nat
    consider "n = 1024" | "n = 1025" | "n \<noteq> 1024" "n \<noteq> 1025" by blast
    then show "pinfo (two_pages i j) n = [1024 \<mapsto> i, 1025 \<mapsto> j] n"
    proof cases
      case 1
      then show ?thesis using owns_get(2) [OF wf, of 1024 "(0, 0)"] o by (simp add: pi_load_def two_pages_def)
    next
      case 2
      then show ?thesis using owns_get(2) [OF wf, of 1025 "(0, 1)"] o by (simp add: pi_load_def two_pages_def)
    next
      case 3
      then have "n \<notin> dom (pinfo (two_pages i j))" unfolding dom_pinfo [OF wf] o by simp
      then show ?thesis using 3 by auto
    qed
  qed
qed

lemma two_pages_guard: "low_guard {1024, 1025} {}"
proof -
  have "2 ^ m \<noteq> (1024::nat)" "2 ^ m \<noteq> (1025::nat)" if "m < 10" for m
    using power_strict_increasing [OF that, of "2::nat"] by auto
  moreover have "2 ^ m \<in> blk (2 ^ m, m)" for m :: nat by simp
  ultimately show ?thesis unfolding low_guard_def by fastforce
qed

lemma two_pages_alloc_ok:
  assumes a: "sections a = two_pages i j" "abs_off a = 0"
    and l: "lists_ok (two_pages i j) (for_orders a) L" "coalesced L" "free_blocks L \<inter> U = {}"
    and t: "tiling MAX_ORDER (free_blocks L \<union> U) {1024, 1025}"
    and u: "\<forall>(n, k)\<in>U. n = 1024" "U \<noteq> {} \<longrightarrow> pi_kind i = Used"
      "finite U" "used_frames a = of_nat (\<Sum>b\<in>U. 2 ^ snd b)"
  shows "alloc_ok a U {}"
proof -
  have d: "dom (pinfo (sections a)) = {1024, 1025}" using a(1) two_pages_sections(2) by auto
  have "\<exists>i'. pinfo (sections a) n = Some i' \<and> pi_kind i' = Used" if "(n, k) \<in> U" for n k
    using u(1,2) that a(1) two_pages_sections(2) by fastforce
  then have "alloc_inv a L U {}"
    unfolding alloc_inv_def d using l t a two_pages_sections(1) by (auto simp: above_off_def)
  then show ?thesis
    unfolding alloc_ok_def d using two_pages_guard u(3,4) a(2) by (auto simp: above_off_def)
qed

lemma example_free_ok: "alloc_ok example_free {} {}"
proof -
  let ?L = "\<lambda>k. if k = 1 then [1024] else [] :: nat list"
  have fb: "free_blocks ?L = {(1024, 1)}" by (auto simp: free_blocks_def split: if_splits)
  have "lists_ok (two_pages (node 1 None None) (node 0 None None)) (for_orders example_free) ?L"
    by (auto simp: lists_ok_def two_pages_sections(2) example_free_def nth_list_update)
  moreover have "coalesced ?L" unfolding coalesced_def fb by (simp add: buddy_def)
  moreover have "tiling MAX_ORDER (free_blocks ?L \<union> {}) {1024, 1025}"
    unfolding fb by (auto simp: tiling_def blk_def)
  ultimately show ?thesis
    by (intro two_pages_alloc_ok) (auto simp: example_free_def)
qed

lemma example_used_ok: "alloc_ok example_used {(1024, 0)} {}"
proof -
  let ?L = "\<lambda>k. if k = 0 then [1025] else [] :: nat list"
  have fb: "free_blocks ?L = {(1025, 0)}" by (auto simp: free_blocks_def split: if_splits)
  have "lists_ok (two_pages (mark_used (node 0 None None)) (node 0 None None)) (for_orders example_used) ?L"
    by (auto simp: lists_ok_def two_pages_sections(2) example_used_def nth_list_update)
  moreover have "coalesced ?L" unfolding coalesced_def fb by (simp add: buddy_def)
  moreover have "tiling MAX_ORDER (free_blocks ?L \<union> {(1024, 0)}) {1024, 1025}"
    unfolding fb by (auto simp: tiling_def blk_def)
  ultimately show ?thesis
    by (intro two_pages_alloc_ok) (auto simp: example_used_def fb mark_used_Used)
qed

theorem allocate_p2frame_complex_witness:
  "alloc_ok example_free {} {} \<and>
   (case allocate_p2frame_complex 0 0 example_free of
      Inl p \<Rightarrow> False
    | Inr (a', None) \<Rightarrow> a' = example_free \<and> (0 \<le> MAX_ORDER \<longrightarrow> (\<forall>n. \<not> free_run example_free ({} \<union> {}) (n, 0)))
    | Inr (a', Some (f, sz)) \<Rightarrow> (\<exists>n. f = pframe n \<and> sz = push_bit 0 PAGE_SIZE \<and>
        free_run example_free ({} \<union> {}) (n, 0) \<and> alloc_ok a' (insert (n, 0) {}) {} \<and> same_info ({} \<union> {}) example_free a' \<and>
        phys_mem a' = (\<lambda>x. if unat x div 4096 \<in> blk (n, 0) then 0 else phys_mem example_free x)))"
  using example_free_ok allocate_p2frame_complex_correct [OF example_free_ok, of 0 0] by blast

theorem deallocate_p2frame_witness:
  "alloc_ok example_used {(1024, 0)} {} \<and>
   (\<exists>a'. deallocate_p2frame (pframe 1024) 0 example_used = Inr a' \<and> alloc_ok a' {} {})"
  using example_used_ok deallocate_p2frame_correct [OF example_used_ok, of 1024 0] by auto

theorem alloc_history_witness:
  "\<exists>b. alloc_history example_used {(1024, 0)} b {} \<and> used_frames b = 0 \<and> \<not> panics (allocate_p2frame 1 b)"
proof -
  obtain b where "deallocate_p2frame (pframe 1024) 0 example_used = Inr b"
    by (rule deallocate_Inr [OF example_used_ok, of 1024 0]) simp_all
  then have h: "alloc_history example_used {(1024, 0)} b ({(1024, 0)} - {(1024, 0)})"
    by (intro alloc_history.free [OF alloc_history.start]) simp
  show ?thesis using alloc_history_safe [OF example_used_ok h] h by auto
qed

theorem deallocate_low_block_witness:
  "deallocate_p2frame (pframe (2 ^ 8)) 8 example_free = Inl (Panic ''frame 0x0 is reserved'')"
  by (rule deallocate_low_block_panics) simp

end
