(* ===== verification/Frame_Refs.thy ===== *)
theory Frame_Refs
  imports Frame_Allocator
begin

text \<open>
  Reference counted frames (\<open>init_frame\<close>, \<open>RaiiFrame\<close> and \<open>TheFrameAllocator\<close> in
  \<open>src/src/memory/mod.rs\<close>, \<open>handle_free_action\<close> in \<open>src/src/context/memory.rs\<close>): a
  frame is created with a count and goes back to the allocator when its last reference is dropped.
\<close>

section \<open>Operations\<close>

datatype pf_error = PfSegv | PfOom | PfNonfatalInternalError | PfRecursionLimitExceeded

text \<open>Reading and replacing the metadata of a frame that must have one.\<close>

definition frame_info :: "frame \<Rightarrow> string \<Rightarrow> allocator \<Rightarrow> page_ref exec" where
  "frame_info f msg a = bindE (get_page_info (sections a) f) (\<lambda>ro. expectE ro msg)"

definition store_info :: "page_ref \<Rightarrow> page_info \<Rightarrow> allocator \<Rightarrow> allocator" where
  "store_info r i a = a\<lparr>sections := pi_store (sections a) r i\<rparr>"

definition init_frame :: "ref_count \<Rightarrow> allocator \<Rightarrow> (allocator \<times> (pf_error + frame)) exec" where
  "init_frame init_rc a =
     bindE (allocate_frame a) (\<lambda>(a, fo). case fo of
        None \<Rightarrow> Inr (a, Inl PfOom)
      | Some new_frame \<Rightarrow>
          bindE (frame_info new_frame ''all allocated frames need an associated page info'' a) (\<lambda>r.
          let i = pi_load (sections a) r in
          bindE (assertE (refcount i = Some RcOne) ''refcount != One'') (\<lambda>_.
            Inr (store_info r (i\<lparr>pi_refcount := RefCount_to_raw init_rc\<rparr>) a, Inr new_frame))))"

definition RaiiFrame_allocate :: "allocator \<Rightarrow> (allocator \<times> (errno + frame)) exec" where
  "RaiiFrame_allocate a =
     bindE (init_frame RcOne a) (\<lambda>(a, r). Inr (a, case r of Inl _ \<Rightarrow> Inl ENOMEM | Inr f \<Rightarrow> Inr f))"

definition RaiiFrame_drop :: "frame \<Rightarrow> allocator \<Rightarrow> allocator exec" where
  "RaiiFrame_drop inner a =
     bindE (frame_info inner ''RaiiFrame lacking PageInfo'' a) (\<lambda>r.
     bindE (remove_ref (pi_load (sections a) r)) (\<lambda>(i, rc).
     let a = store_info r i a in
     if rc = None then deallocate_frame inner a else Inr a))"

text \<open>\<open>next_power_of_two().trailing_zeros()\<close>\<close>

fun order_from :: "nat \<Rightarrow> nat \<Rightarrow> nat \<Rightarrow> nat" where
  "order_from 0 k count = k"
| "order_from (Suc fuel) k count = (if count \<le> 2 ^ k then k else order_from fuel (Suc k) count)"

definition order_of_count :: "nat \<Rightarrow> nat" where
  "order_of_count count = order_from 64 0 count"

definition TheFrameAllocator_allocate :: "nat \<Rightarrow> allocator \<Rightarrow> (allocator \<times> usize option) exec" where
  "TheFrameAllocator_allocate count a =
     bindE (allocate_p2frame (order_of_count count) a) (\<lambda>(a, fo). Inr (a, map_option physaddr fo))"

definition TheFrameAllocator_free :: "usize \<Rightarrow> nat \<Rightarrow> allocator \<Rightarrow> allocator exec" where
  "TheFrameAllocator_free address count a =
     bindE (Frame_containing address) (\<lambda>f. deallocate_p2frame f (order_of_count count) a)"

definition TheFrameAllocator_usage :: "allocator \<Rightarrow> usize \<times> usize" where
  "TheFrameAllocator_usage a = (used_frames a, total_frames a)"

fun release_contiguous :: "frame \<Rightarrow> nat list \<Rightarrow> allocator \<Rightarrow> allocator exec" where
  "release_contiguous base [] a = Inr a"
| "release_contiguous base (i # is) a =
     bindE (Frame_next_by base (of_nat i)) (\<lambda>f.
     bindE (frame_info f ''phys_contiguous frames all need PageInfos'' a) (\<lambda>r.
     bindE (remove_ref (pi_load (sections a) r)) (\<lambda>(info, new_rc).
     let a = store_info r info a in
     bindE (assertE (new_rc = None) ''new_rc != None'') (\<lambda>_.
       release_contiguous base is a))))"

definition handle_free_action :: "frame \<Rightarrow> nat option \<Rightarrow> allocator \<Rightarrow> allocator exec" where
  "handle_free_action base phys_contiguous_count a =
     (case phys_contiguous_count of
        Some count \<Rightarrow>
          bindE (release_contiguous base [0..<count] a) (\<lambda>a.
            deallocate_p2frame base (order_of_count count) a)
      | None \<Rightarrow>
          bindE (get_page_info (sections a) base) (\<lambda>ro. case ro of
             None \<Rightarrow> Inr a
           | Some r \<Rightarrow>
               bindE (remove_ref (pi_load (sections a) r)) (\<lambda>(i, rc).
               let a = store_info r i a in
               if rc = None then deallocate_frame base a else Inr a)))"

section \<open>Reference counts of live frames\<close>

definition ref_of :: "allocator \<Rightarrow> nat \<Rightarrow> (nat \<times> ref_kind option) option" where
  "ref_of a n = (case pinfo (sections a) n of None \<Rightarrow> None | Some i \<Rightarrow> rc_abs i)"

lemma rc_abs_Used: "rc_abs i \<noteq> None \<longleftrightarrow> pi_kind i = Used"
  by (simp add: rc_abs_def refcount_def from_raw_alt pi_kind_Used_iff)

text \<open>Replacing the count of a live block keeps the allocator consistent.\<close>

lemma alloc_ok_store:
  assumes ok: "alloc_ok a U R" and n: "(n, k) \<in> U" and i: "pi_kind i = Used"
    and r: "owns (sections a) n r"
  shows "alloc_ok (store_info r i a) U R" "same_info (U \<union> R - {(n, k)}) a (store_info r i a)"
    "pinfo (sections (store_info r i a)) = (pinfo (sections a))(n \<mapsto> i)"
proof -
  obtain L where L: "alloc_inv a L (U \<union> R) {}" "U \<inter> R = {}" "finite U" "used_frames a = of_nat (\<Sum>b\<in>U. 2 ^ snd b)"
    "\<forall>b\<in>U. above_off a (fst b)" "low_guard (dom (pinfo (sections a))) R" using ok by (rule alloc_okE)
  let ?A = "U \<union> R - {(n, k)}" and ?a = "store_info r i a"
  have held: "alloc_inv a L ?A {(n, k)}" using alloc_inv_used_to_held [OF L(1)] n by simp
  have st: "sections ?a = put_info (sections a) n i"
    using put_info_store owns_get(1) [OF alloc_invD(1) [OF L(1)] r] by (simp add: store_info_def)
  have A: "insert (n, k) (U \<union> R) = U \<union> R" using n by blast
  show "same_info ?A a ?a" "pinfo (sections ?a) = (pinfo (sections a))(n \<mapsto> i)"
    using alloc_inv_held_to_used(2,3) [OF held i st] by (simp_all add: store_info_def)
  have "alloc_inv ?a L (U \<union> R) {}"
    using alloc_inv_held_to_used(1) [OF held i st] A by (simp add: store_info_def)
  moreover have "owns (sections ?a) = owns (sections a)" by (simp add: store_info_def)
  then have "low_guard (dom (pinfo (sections ?a))) R" using same_owns_dom [OF L(1) calculation] L(6) by simp
  ultimately show "alloc_ok ?a U R"
    using L(2-5) unfolding alloc_ok_def by (auto simp: store_info_def above_off_def)
qed

lemma alloc_ok_wf: "alloc_ok a U R \<Longrightarrow> sections_wf (sections a)"
  by (elim alloc_okE) (rule alloc_invD(1))

lemma live_info:
  assumes "alloc_ok a U R" "(n, k) \<in> U" "p \<in> blk (n, k)"
  obtains i r where "pinfo (sections a) p = Some i" "owns (sections a) p r" "pi_load (sections a) r = i"
    "get_page_info (sections a) (pframe p) = Inr (Some r)" "pfn_ok p"
proof -
  obtain L where L: "alloc_inv a L (U \<union> R) {}" using assms(1) by (rule alloc_okE)
  then have "pinfo (sections a) p \<noteq> None" using alloc_inv_block(5) [OF L, of n k p] assms(2,3) by simp
  then obtain i where i: "pinfo (sections a) p = Some i" by blast
  then show thesis using pinfo_SomeD [OF alloc_invD(1) [OF L] i] that sec.look_pfn [OF alloc_invD(1) [OF L], of p] by blast
qed

lemma live_head_info:
  assumes "alloc_ok a U R" "(n, k) \<in> U"
  obtains i r where "pinfo (sections a) n = Some i" "owns (sections a) n r" "pi_load (sections a) r = i"
    "get_page_info (sections a) (pframe n) = Inr (Some r)" "pfn_ok n"
  using live_info [OF assms, of n] fst_in_blk [of "(n, k)"] by auto

lemma rc_abs_to_raw:
  assumes "rc_valid rc"
  shows "rc_abs (i\<lparr>pi_refcount := RefCount_to_raw rc\<rparr>) = Some (rc_count rc, rc_kind rc)"
  using from_to_raw [OF assms] by (simp add: rc_abs_def refcount_def)

lemma init_frame_cases_dom:
  assumes ok: "alloc_ok a U R" and rc: "rc_valid rc"
  obtains (oom) "init_frame rc a = Inr (a, Inl PfOom)" "\<forall>n. \<not> free_run a (U \<union> R) (n, 0)"
  | (new) n a' where "init_frame rc a = Inr (a', Inr (pframe n))" "alloc_ok a' (insert (n, 0) U) R" "(n, 0) \<notin> U \<union> R"
      "ref_of a' n = Some (rc_count rc, rc_kind rc)" "same_info (U \<union> R) a a'" "pfn_ok n" "free_run a (U \<union> R) (n, 0)"
      "phys_mem a' = (\<lambda>x. if unat x div 4096 = n then 0 else phys_mem a x)"
      "dom (pinfo (sections a')) = dom (pinfo (sections a))"
proof (rule allocate_cases_dom [OF ok, of 0 0])
  assume "allocate_p2frame_complex 0 0 a = Inr (a, None)" "(0::nat) \<le> 10 \<longrightarrow> (\<forall>n. \<not> free_run a (U \<union> R) (n, 0))"
  then show thesis using oom by (simp add: init_frame_def allocate_frame_def allocate_p2frame_def)
next
  fix n a1
  assume al: "allocate_p2frame_complex 0 0 a = Inr (a1, Some (pframe n, push_bit 0 PAGE_SIZE))" "pfn_ok n"
    "free_run a (U \<union> R) (n, 0)" "alloc_ok a1 (insert (n, 0) U) R" "(n, 0) \<notin> U \<union> R"
    "phys_mem a1 = (\<lambda>x. if unat x div 4096 \<in> blk (n, 0) then 0 else phys_mem a x)"
    "same_info (U \<union> R) a a1" "\<exists>i. pinfo (sections a1) n = Some i \<and> refcount i = Some RcOne"
    "dom (pinfo (sections a1)) = dom (pinfo (sections a))"
  obtain i r where r: "pinfo (sections a1) n = Some i" "owns (sections a1) n r" "pi_load (sections a1) r = i"
    "get_page_info (sections a1) (pframe n) = Inr (Some r)" using live_head_info [OF al(4)] by blast
  let ?i = "i\<lparr>pi_refcount := RefCount_to_raw rc\<rparr>"
  have i: "refcount i = Some RcOne" "pi_kind ?i = Used"
    using al(8) r(1) rc_abs_to_raw [OF rc, of i] rc_abs_Used [of ?i] by auto
  note st = alloc_ok_store [OF al(4) insertI1 i(2) r(2)]
  have run: "init_frame rc a = Inr (store_info r ?i a1, Inr (pframe n))"
    using al(1) r i(1) by (simp add: init_frame_def allocate_frame_def allocate_p2frame_def frame_info_def Let_def)
  have eq: "insert (n, 0) U \<union> R - {(n, 0)} = U \<union> R" using al(5) by blast
  have "same_info (U \<union> R) a (store_info r ?i a1)"
    using same_info_trans [OF al(7)] st(2) unfolding eq by blast
  moreover have "ref_of (store_info r ?i a1) n = Some (rc_count rc, rc_kind rc)"
    using st(3) rc_abs_to_raw [OF rc] by (simp add: ref_of_def)
  moreover have "phys_mem (store_info r ?i a1) = (\<lambda>x. if unat x div 4096 = n then 0 else phys_mem a x)"
    using al(6) by (simp add: store_info_def fun_eq_iff)
  moreover have "dom (pinfo (sections (store_info r ?i a1))) = dom (pinfo (sections a))"
    using st(3) r(1) al(9) by auto
  ultimately show thesis using new [OF run] st(1) al(2,3,5) by blast
qed

lemma init_frame_cases:
  assumes ok: "alloc_ok a U R" and rc: "rc_valid rc"
  obtains (oom) "init_frame rc a = Inr (a, Inl PfOom)" "\<forall>n. \<not> free_run a (U \<union> R) (n, 0)"
  | (new) n a' where "init_frame rc a = Inr (a', Inr (pframe n))" "alloc_ok a' (insert (n, 0) U) R" "(n, 0) \<notin> U \<union> R"
      "ref_of a' n = Some (rc_count rc, rc_kind rc)" "same_info (U \<union> R) a a'" "pfn_ok n" "free_run a (U \<union> R) (n, 0)"
      "phys_mem a' = (\<lambda>x. if unat x div 4096 = n then 0 else phys_mem a x)"
  by (rule init_frame_cases_dom [OF ok rc]) (use oom new in blast)+

text \<open>Dropping one of the references of a live frame.\<close>

lemma store_same: "store_info r (pi_load (sections a) r) a = a"
  by (cases "fst r < length (sections a)") (simp_all add: store_info_def pi_load_def pi_store_def list_update_beyond)

definition drop_ref :: "page_ref \<Rightarrow> frame \<Rightarrow> allocator \<Rightarrow> allocator exec" where
  "drop_ref r f a =
     bindE (remove_ref (pi_load (sections a) r)) (\<lambda>(i, rc).
       if rc = None then deallocate_frame f (store_info r i a) else Inr (store_info r i a))"

lemma drop_ref_cases_dom:
  assumes ok: "alloc_ok a U R" and n: "(n, 0) \<in> U" and rc: "ref_of a n = Some (c, kd)" and r: "owns (sections a) n r"
  obtains a' where "drop_ref r (pframe n) a = Inr a'" "phys_mem a' = phys_mem a"
    "same_info (U \<union> R - {(n, 0)}) a a'"
    "alloc_ok a' (if c \<le> 1 then U - {(n, 0)} else U) R"
    "c \<le> 1 \<or> ref_of a' n = abs_remove_ref (c, kd)"
    "dom (pinfo (sections a')) = dom (pinfo (sections a))"
proof -
  obtain i where i: "pinfo (sections a) n = Some i" "pi_load (sections a) r = i"
    using owns_get(2) [OF alloc_ok_wf [OF ok] r] by auto
  then have ab: "rc_abs i = Some (c, kd)" using rc by (simp add: ref_of_def)
  obtain i' q where q: "remove_ref i = Inr (i', q)"
    "case abs_remove_ref (c, kd) of None \<Rightarrow> q = None \<and> i' = i | Some a' \<Rightarrow> q = refcount i' \<and> rc_abs i' = Some a'"
    using remove_ref_abs [OF ab] by blast
  show thesis
  proof (cases "c \<le> 1")
    case True
    then have "q = None" "i' = i" using q(2) by auto
    then have "drop_ref r (pframe n) a = deallocate_p2frame (pframe n) 0 a"
      using q(1) i store_same [of r a] by (simp add: drop_ref_def deallocate_frame_def)
    moreover obtain a' where "deallocate_p2frame (pframe n) 0 a = Inr a'" "alloc_ok a' (U - {(n, 0)}) R"
      "phys_mem a' = phys_mem a" "same_info (U \<union> R - {(n, 0)}) a a'"
      "dom (pinfo (sections a')) = dom (pinfo (sections a))" by (rule deallocate_Inr_dom [OF ok n])
    ultimately show thesis using that [of a'] True by simp
  next
    case False
    then have i': "rc_abs i' = abs_remove_ref (c, kd)" "abs_remove_ref (c, kd) \<noteq> None" "q = refcount i'"
      using q(2) by (auto split: option.splits)
    then have u: "pi_kind i' = Used" "q \<noteq> None" using rc_abs_Used [of i'] by (auto simp: rc_abs_def)
    note st = alloc_ok_store [OF ok n u(1) r]
    have "drop_ref r (pframe n) a = Inr (store_info r i' a)" using q(1) i u(2) by (auto simp: drop_ref_def)
    moreover have "ref_of (store_info r i' a) n = abs_remove_ref (c, kd)" using st(3) i'(1) by (simp add: ref_of_def)
    moreover have "phys_mem (store_info r i' a) = phys_mem a" by (simp add: store_info_def)
    moreover have "dom (pinfo (sections (store_info r i' a))) = dom (pinfo (sections a))" using st(3) i(1) by auto
    ultimately show thesis using that [of "store_info r i' a"] st(1,2) False by simp
  qed
qed

lemma drop_ref_cases:
  assumes ok: "alloc_ok a U R" and n: "(n, 0) \<in> U" and rc: "ref_of a n = Some (c, kd)" and r: "owns (sections a) n r"
  obtains a' where "drop_ref r (pframe n) a = Inr a'" "phys_mem a' = phys_mem a"
    "same_info (U \<union> R - {(n, 0)}) a a'"
    "alloc_ok a' (if c \<le> 1 then U - {(n, 0)} else U) R"
    "c \<le> 1 \<or> ref_of a' n = abs_remove_ref (c, kd)"
  using drop_ref_cases_dom [OF assms] by metis

lemma release_contiguous_One:
  assumes wf: "sections_wf (sections a)" and n: "pfn_ok n"
    and one: "\<And>i. i \<in> set is \<Longrightarrow> pfn_ok (n + i) \<and> ref_of a (n + i) = Some (1, None)"
  shows "release_contiguous (pframe n) is a = Inr a"
  using one
proof (induction "is")
  case (Cons i "is")
  have p: "pfn_ok (n + i)" "ref_of a (n + i) = Some (1, None)" using Cons.prems by auto
  then obtain j where j: "pinfo (sections a) (n + i) = Some j" "rc_abs j = Some (1, None)"
    by (auto simp: ref_of_def split: option.splits)
  obtain r where r: "get_page_info (sections a) (pframe (n + i)) = Inr (Some r)" "pi_load (sections a) r = j"
    using pinfo_SomeD [OF wf j(1)] by blast
  have "remove_ref j = Inr (j, None)" using remove_ref_abs [OF j(2)] by auto
  moreover have "Frame_next_by (pframe n) (of_nat i) = Inr (pframe (n + i))"
    using next_by_pframe [of n i] n p(1) by (simp add: pfn_ok_def)
  ultimately show ?case using r Cons.IH Cons.prems store_same [of r a] by (simp add: frame_info_def Let_def)
qed simp

lemma order_from_spec: "count \<le> 2 ^ (k + fuel) \<Longrightarrow> count \<le> 2 ^ order_from fuel k count \<and>
    (order_from fuel k count = k \<or> 2 ^ (order_from fuel k count - 1) < count)"
proof (induction fuel arbitrary: k)
  case (Suc fuel)
  show ?case
  proof (cases "count \<le> 2 ^ k")
    case False
    then show ?thesis using Suc.IH [of "Suc k"] Suc.prems by auto
  qed simp
qed simp

section \<open>Results\<close>

text \<open>
  \<open>init_frame\<close> never panics.  It yields a free page, zeroed, with exactly the requested
  reference count, without touching other frames, or reports out of memory without any change, and then
  there was no free page.
\<close>

theorem init_frame_correct:
  assumes "alloc_ok a U R" "rc_valid rc"
  shows "case init_frame rc a of
      Inl p \<Rightarrow> False
    | Inr (a', Inl e) \<Rightarrow> e = PfOom \<and> a' = a \<and> (\<forall>n. \<not> free_run a (U \<union> R) (n, 0))
    | Inr (a', Inr f) \<Rightarrow> (\<exists>n. f = pframe n \<and> free_run a (U \<union> R) (n, 0) \<and> alloc_ok a' (insert (n, 0) U) R \<and>
        ref_of a' n = Some (rc_count rc, rc_kind rc) \<and> same_info (U \<union> R) a a' \<and>
        phys_mem a' = (\<lambda>x. if unat x div 4096 = n then 0 else phys_mem a x))"
  by (rule init_frame_cases [OF assms]) auto

theorem init_frame_witness:
  "\<exists>a' f. init_frame (RcShared 2) example_free = Inr (a', Inr f)"
proof -
  have "free_run example_free ({} \<union> {}) (1024, 0)"
    by (auto simp: free_run_def example_free_def two_pages_sections blk_def)
  moreover have "rc_valid (RcShared 2)" by (simp add: rc_valid_def)
  ultimately show ?thesis using init_frame_correct [OF example_free_ok, of "RcShared 2"]
    by (auto split: sum.splits prod.splits)
qed

text \<open>
  Dropping a reference to a live frame, through \<open>handle_free_action\<close> or
  \<open>RaiiFrame\<close>, never panics: the last reference gives the frame back to the allocator, any other
  one only counts down, and other frames keep their metadata.
\<close>

theorem drop_reference_correct:
  assumes "alloc_ok a U R" "(n, 0) \<in> U" "ref_of a n = Some (c, kd)"
  shows "\<exists>a'. handle_free_action (pframe n) None a = Inr a' \<and> RaiiFrame_drop (pframe n) a = Inr a' \<and>
    alloc_ok a' (if c \<le> 1 then U - {(n, 0)} else U) R \<and> (c \<le> 1 \<or> ref_of a' n = abs_remove_ref (c, kd)) \<and>
    same_info (U \<union> R - {(n, 0)}) a a'"
proof -
  obtain r where r: "owns (sections a) n r" "get_page_info (sections a) (pframe n) = Inr (Some r)"
    using live_head_info [OF assms(1,2)] by blast
  have "handle_free_action (pframe n) None a = drop_ref r (pframe n) a" "RaiiFrame_drop (pframe n) a = drop_ref r (pframe n) a"
    using r(2) by (simp_all add: handle_free_action_def RaiiFrame_drop_def frame_info_def drop_ref_def Let_def)
  moreover obtain a' where "drop_ref r (pframe n) a = Inr a'" "same_info (U \<union> R - {(n, 0)}) a a'"
    "alloc_ok a' (if c \<le> 1 then U - {(n, 0)} else U) R" "c \<le> 1 \<or> ref_of a' n = abs_remove_ref (c, kd)"
    by (rule drop_ref_cases [OF assms r(1)])
  ultimately show ?thesis by metis
qed

lemma example_used_ref: "ref_of example_used 1024 = Some (1, None)"
  using mark_used_One by (simp add: ref_of_def example_used_def two_pages_sections rc_abs_def)

theorem drop_reference_witness:
  "\<exists>a'. handle_free_action (pframe 1024) None example_used = Inr a' \<and> alloc_ok a' {} {}"
  using drop_reference_correct [OF example_used_ok _ example_used_ref] by auto

text \<open>
  Freeing a physically contiguous allocation whose frames all hold a single reference returns
  exactly the block that was allocated for it.
\<close>

theorem free_contiguous_correct:
  assumes "alloc_ok a U R" "(n, k) \<in> U" "order_of_count count = k" "count \<le> 2 ^ k"
    "\<forall>i<count. ref_of a (n + i) = Some (1, None)"
  shows "\<exists>a'. handle_free_action (pframe n) (Some count) a = Inr a' \<and> alloc_ok a' (U - {(n, k)}) R"
proof -
  have n: "pfn_ok n" by (rule live_head_info [OF assms(1,2)])
  have "pfn_ok (n + i)" if "i < count" for i
    using live_info [OF assms(1,2), of "n + i"] that assms(4) by auto
  then have "release_contiguous (pframe n) [0..<count] a = Inr a"
    using assms(5) by (intro release_contiguous_One [OF alloc_ok_wf [OF assms(1)] n]) auto
  then show ?thesis using deallocate_Inr [OF assms(1,2)] assms(3) by (auto simp: handle_free_action_def)
qed

theorem free_contiguous_witness:
  "\<exists>a'. handle_free_action (pframe 1024) (Some 1) example_used = Inr a' \<and> alloc_ok a' {} {}"
  using free_contiguous_correct [OF example_used_ok, of 1024 0 1] example_used_ref
  by (auto simp: order_of_count_def numeral_eq_Suc)

end
