(* ===== verification/BTree_Map.thy ===== *)
theory BTree_Map
  imports Kernel_Prelude
begin

text \<open>
  Ordered maps.  The kernel keeps its grants, holes and handle tables in \<open>BTreeMap\<close>s of
  the Rust standard library; an ordered map is modelled by the association list that its iterator
  yields, in increasing order of the keys.  Clients use the maps through the interface
  \<open>ordered_map\<close>; \<open>interval_map\<close> adds the reading of an entry as the half-open interval
  that starts at its key.
\<close>

section \<open>Operations\<close>

type_synonym ('k, 'v) btree = "('k \<times> 'v) list"

definition bt_ok :: "('k::linorder, 'v) btree \<Rightarrow> bool" where
  "bt_ok m \<longleftrightarrow> sorted_wrt (<) (map fst m)"

fun bt_get :: "('k::linorder, 'v) btree \<Rightarrow> 'k \<Rightarrow> 'v option" where
  "bt_get [] k = None"
| "bt_get ((x, v) # m) k = (if x = k then Some v else bt_get m k)"

fun bt_insert :: "'k::linorder \<Rightarrow> 'v \<Rightarrow> ('k, 'v) btree \<Rightarrow> ('k, 'v) btree" where
  "bt_insert k v [] = [(k, v)]"
| "bt_insert k v ((x, w) # m) =
     (if k < x then (k, v) # (x, w) # m else if k = x then (k, v) # m else (x, w) # bt_insert k v m)"

fun bt_remove :: "'k::linorder \<Rightarrow> ('k, 'v) btree \<Rightarrow> ('k, 'v) btree" where
  "bt_remove k [] = []"
| "bt_remove k ((x, w) # m) = (if x = k then m else (x, w) # bt_remove k m)"

definition next_back :: "'a list \<Rightarrow> 'a option" where
  "next_back xs = (if xs = [] then None else Some (last xs))"

definition next_front :: "'a list \<Rightarrow> 'a option" where
  "next_front xs = (case xs of [] \<Rightarrow> None | x # _ \<Rightarrow> Some x)"

text \<open>\<open>range(..k)\<close>, \<open>range(..=k)\<close> and \<open>range(k..)\<close>.\<close>

definition bt_range_lt :: "'k::linorder \<Rightarrow> ('k, 'v) btree \<Rightarrow> ('k, 'v) btree" where
  "bt_range_lt k m = filter (\<lambda>e. fst e < k) m"

definition bt_range_le :: "'k::linorder \<Rightarrow> ('k, 'v) btree \<Rightarrow> ('k, 'v) btree" where
  "bt_range_le k m = filter (\<lambda>e. fst e \<le> k) m"

definition bt_range_from :: "'k::linorder \<Rightarrow> ('k, 'v) btree \<Rightarrow> ('k, 'v) btree" where
  "bt_range_from k m = filter (\<lambda>e. k \<le> fst e) m"

section \<open>Lemmas\<close>

lemma bt_ok_simps [simp]:
  "bt_ok []" "bt_ok (e # m) \<longleftrightarrow> (\<forall>x\<in>set m. fst e < fst x) \<and> bt_ok m"
  by (auto simp: bt_ok_def)

lemma bt_get_in: "bt_ok m \<Longrightarrow> bt_get m k = Some v \<longleftrightarrow> (k, v) \<in> set m"
proof (induction m)
  case (Cons e m)
  then have "(fst e, v) \<notin> set m" by force
  then show ?case using Cons by (cases e) auto
qed simp

lemma bt_get_SomeD: "bt_get m k = Some v \<Longrightarrow> (k, v) \<in> set m"
  by (induction m) (auto split: if_splits)

lemma bt_get_insert [simp]: "bt_ok m \<Longrightarrow> bt_get (bt_insert k v m) = (bt_get m)(k \<mapsto> v)"
proof (induction m)
  case (Cons e m)
  have "bt_get m x = None" if "x \<le> fst e" for x
    using Cons.prems bt_get_SomeD [of m x] that by (cases "bt_get m x") fastforce+
  then show ?case using Cons by (cases e) (auto simp: fun_eq_iff)
qed (auto simp: fun_eq_iff)

lemma set_bt_insert: "set (bt_insert k v m) \<subseteq> insert (k, v) (set m)"
  by (induction k v m rule: bt_insert.induct) (auto split: if_splits)

lemma bt_ok_insert [simp]: "bt_ok m \<Longrightarrow> bt_ok (bt_insert k v m)"
proof (induction m)
  case (Cons e m)
  then show ?case using set_bt_insert [of k v m] by (cases e) fastforce
qed simp

lemma bt_get_remove [simp]: "bt_ok m \<Longrightarrow> bt_get (bt_remove k m) = (bt_get m)(k := None)"
proof (induction m)
  case (Cons e m)
  have "bt_get m (fst e) = None"
    using Cons.prems bt_get_SomeD [of m "fst e"] by (cases "bt_get m (fst e)") fastforce+
  then show ?case using Cons by (cases e) (auto simp: fun_eq_iff)
qed (auto simp: fun_eq_iff)

lemma set_bt_remove: "set (bt_remove k m) \<subseteq> set m"
  by (induction k m rule: bt_remove.induct) (auto split: if_splits)

lemma bt_ok_remove [simp]: "bt_ok m \<Longrightarrow> bt_ok (bt_remove k m)"
proof (induction m)
  case (Cons e m)
  then show ?case using set_bt_remove [of k m] by (cases e) auto
qed simp

lemma finite_dom_bt_get: "finite (dom (bt_get m))"
  by (rule finite_subset [of _ "fst ` set m"]) (auto dest!: bt_get_SomeD intro: rev_image_eqI)

lemma bt_ok_last:
  assumes "bt_ok (xs :: ('k::linorder, 'v) btree)" "e \<in> set xs" shows "fst e \<le> fst (last xs)"
  using assms by (induction xs) (auto intro: less_imp_le less_le_trans)

lemma bt_ok_filter [simp]: "bt_ok m \<Longrightarrow> bt_ok (filter P m)"
  by (induction m) auto

lemma next_back_filter:
  assumes ok: "bt_ok m"
  shows "next_back (filter (\<lambda>e. P (fst e)) m) = Some (b, v) \<longleftrightarrow>
    bt_get m b = Some v \<and> P b \<and> (\<forall>x. bt_get m x \<noteq> None \<longrightarrow> P x \<longrightarrow> x \<le> b)"
proof -
  let ?xs = "filter (\<lambda>e. P (fst e)) m"
  have mem: "(x, w) \<in> set ?xs \<longleftrightarrow> bt_get m x = Some w \<and> P x" for x w
    using bt_get_in [OF ok] by auto
  show ?thesis
  proof
    assume "next_back ?xs = Some (b, v)"
    then have l: "?xs \<noteq> []" "last ?xs = (b, v)" by (auto simp: next_back_def split: if_splits)
    then have "(b, v) \<in> set ?xs" using last_in_set by metis
    moreover have "x \<le> b" if x: "bt_get m x \<noteq> None" "P x" for x
    proof -
      obtain w where "bt_get m x = Some w" using x(1) by blast
      then have "(x, w) \<in> set ?xs" using x(2) mem [of x w] by simp
      then have "fst (x, w) \<le> fst (last ?xs)" by (intro bt_ok_last bt_ok_filter ok)
      then show ?thesis using l(2) by simp
    qed
    ultimately show "bt_get m b = Some v \<and> P b \<and> (\<forall>x. bt_get m x \<noteq> None \<longrightarrow> P x \<longrightarrow> x \<le> b)"
      using mem by blast
  next
    assume r: "bt_get m b = Some v \<and> P b \<and> (\<forall>x. bt_get m x \<noteq> None \<longrightarrow> P x \<longrightarrow> x \<le> b)"
    then have bv: "(b, v) \<in> set ?xs" using mem by blast
    then have ne: "?xs \<noteq> []" by (metis empty_iff empty_set)
    obtain y w where y: "last ?xs = (y, w)" by force
    then have yw: "(y, w) \<in> set ?xs" using last_in_set [OF ne] by metis
    have "b \<le> y" using bt_ok_last [OF bt_ok_filter [OF ok] bv] y by simp
    moreover have "y \<le> b" using r mem [of y w] yw by simp
    ultimately have "y = b" by simp
    then have "w = v" using yw r mem [of y w] by simp
    then show "next_back ?xs = Some (b, v)" using ne y \<open>y = b\<close> by (simp add: next_back_def)
  qed
qed

section \<open>The interface\<close>

locale ordered_map =
  fixes ok :: "'m \<Rightarrow> bool"
    and get :: "'m \<Rightarrow> 'k::linorder \<Rightarrow> 'v option"
    and ins :: "'k \<Rightarrow> 'v \<Rightarrow> 'm \<Rightarrow> 'm"
    and del :: "'k \<Rightarrow> 'm \<Rightarrow> 'm"
    and last_lt :: "'k \<Rightarrow> 'm \<Rightarrow> ('k \<times> 'v) option"
    and last_le :: "'k \<Rightarrow> 'm \<Rightarrow> ('k \<times> 'v) option"
  assumes get_ins: "ok m \<Longrightarrow> get (ins k v m) = (get m)(k \<mapsto> v)"
    and ok_ins: "ok m \<Longrightarrow> ok (ins k v m)"
    and get_del: "ok m \<Longrightarrow> get (del k m) = (get m)(k := None)"
    and ok_del: "ok m \<Longrightarrow> ok (del k m)"
    and last_lt_Some: "ok m \<Longrightarrow> last_lt k m = Some (b, v) \<longleftrightarrow>
      get m b = Some v \<and> b < k \<and> (\<forall>x. get m x \<noteq> None \<longrightarrow> x < k \<longrightarrow> x \<le> b)"
    and last_le_Some: "ok m \<Longrightarrow> last_le k m = Some (b, v) \<longleftrightarrow>
      get m b = Some v \<and> b \<le> k \<and> (\<forall>x. get m x \<noteq> None \<longrightarrow> x \<le> k \<longrightarrow> x \<le> b)"
    and dom_finite: "ok m \<Longrightarrow> finite (dom (get m))"
begin

lemma last_lt_None:
  assumes "ok m" "last_lt k m = None" "get m x \<noteq> None"
  shows "k \<le> x"
proof (rule ccontr)
  assume "\<not> k \<le> x"
  let ?S = "{y \<in> dom (get m). y < k}"
  have fin: "finite ?S" "?S \<noteq> {}" using dom_finite [OF assms(1)] assms(3) \<open>\<not> k \<le> x\<close> by auto
  then have "Max ?S \<in> ?S" "\<forall>y\<in>?S. y \<le> Max ?S" using Max_in [OF fin] Max_ge [OF fin(1)] by blast+
  then obtain v where "get m (Max ?S) = Some v" "Max ?S < k" "\<forall>y. get m y \<noteq> None \<longrightarrow> y < k \<longrightarrow> y \<le> Max ?S" by auto
  then have "last_lt k m = Some (Max ?S, v)" using last_lt_Some [OF assms(1)] by blast
  then show False using assms(2) by simp
qed

lemma last_le_None:
  assumes "ok m" "last_le k m = None" "get m x \<noteq> None"
  shows "k < x"
proof (rule ccontr)
  assume "\<not> k < x"
  let ?S = "{y \<in> dom (get m). y \<le> k}"
  have fin: "finite ?S" "?S \<noteq> {}" using dom_finite [OF assms(1)] assms(3) \<open>\<not> k < x\<close> by auto
  then have "Max ?S \<in> ?S" "\<forall>y\<in>?S. y \<le> Max ?S" using Max_in [OF fin] Max_ge [OF fin(1)] by blast+
  then obtain v where "get m (Max ?S) = Some v" "Max ?S \<le> k" "\<forall>y. get m y \<noteq> None \<longrightarrow> y \<le> k \<longrightarrow> y \<le> Max ?S" by auto
  then have "last_le k m = Some (Max ?S, v)" using last_le_Some [OF assms(1)] by blast
  then show False using assms(2) by simp
qed

end

text \<open>An entry \<open>b \<mapsto> v\<close> stands for the interval \<open>{b..<b + len v}\<close>.\<close>

locale interval_map = ordered_map ok get ins del last_lt last_le
  for ok :: "'m \<Rightarrow> bool" and get :: "'m \<Rightarrow> nat \<Rightarrow> 'v option" and ins del last_lt last_le +
  fixes len :: "'v \<Rightarrow> nat"
begin

definition ivl :: "nat \<Rightarrow> 'v \<Rightarrow> nat set" where
  "ivl b v = {b..<b + len v}"

definition cover :: "'m \<Rightarrow> nat set" where
  "cover m = {p. \<exists>b v. get m b = Some v \<and> p \<in> ivl b v}"

definition disj :: "'m \<Rightarrow> bool" where
  "disj m \<longleftrightarrow> (\<forall>b v b' v'. get m b = Some v \<longrightarrow> get m b' = Some v' \<longrightarrow> b < b' \<longrightarrow> b + len v \<le> b')"

lemma disjD: "disj m \<Longrightarrow> get m b = Some v \<Longrightarrow> get m b' = Some v' \<Longrightarrow> b < b' \<Longrightarrow> b + len v \<le> b'"
  by (auto simp: disj_def)

lemma ivl_unique:
  assumes "disj m" "get m b = Some v" "get m b' = Some v'" "p \<in> ivl b v" "p \<in> ivl b' v'"
  shows "b' = b \<and> v' = v"
proof -
  have "b' = b" using disjD [OF assms(1-3)] disjD [OF assms(1,3,2)] assms(4,5)
    by (cases b b' rule: linorder_cases) (auto simp: ivl_def)
  then show ?thesis using assms by simp
qed

text \<open>The entry that holds a point is the last one that starts at or before it.\<close>

lemma last_le_lookup:
  assumes "ok m" "disj m"
  shows "(\<exists>b' v'. last_le p m = Some (b', v') \<and> p \<in> ivl b' v' \<and> b' = b \<and> v' = v) \<longleftrightarrow> get m b = Some v \<and> p \<in> ivl b v"
proof
  assume r: "get m b = Some v \<and> p \<in> ivl b v"
  have "x \<le> b" if x: "get m x \<noteq> None" "x \<le> p" for x
  proof (rule ccontr)
    assume "\<not> x \<le> b"
    moreover obtain w where "get m x = Some w" using x(1) by blast
    ultimately have "b + len v \<le> x" using disjD [OF assms(2)] r by auto
    then show False using r x(2) by (auto simp: ivl_def)
  qed
  then have "last_le p m = Some (b, v)" using r last_le_Some [OF assms(1)] by (auto simp: ivl_def)
  then show "\<exists>b' v'. last_le p m = Some (b', v') \<and> p \<in> ivl b' v' \<and> b' = b \<and> v' = v" using r by blast
qed (use last_le_Some [OF assms(1)] in blast)

lemma cover_ins:
  assumes "ok m" "get m k = None"
  shows "cover (ins k v m) = ivl k v \<union> cover m"
proof (intro set_eqI iffI)
  fix p assume "p \<in> ivl k v \<union> cover m"
  then consider "p \<in> ivl k v" | b w where "get m b = Some w" "p \<in> ivl b w" by (auto simp: cover_def)
  then show "p \<in> cover (ins k v m)"
  proof cases
    case 1
    then show ?thesis using get_ins [OF assms(1), of k v] by (auto simp: cover_def)
  next
    case 2
    then have "get (ins k v m) b = Some w" using assms get_ins by auto
    then show ?thesis using 2(2) by (auto simp: cover_def)
  qed
qed (use assms in \<open>auto simp: cover_def get_ins split: if_splits\<close>)

lemma cover_del:
  assumes "ok m" "disj m" "get m k = Some v"
  shows "cover (del k m) = cover m - ivl k v"
proof (intro set_eqI iffI)
  fix p assume "p \<in> cover (del k m)"
  then obtain b w where b: "b \<noteq> k" "get m b = Some w" "p \<in> ivl b w"
    by (auto simp: cover_def get_del [OF assms(1)] split: if_splits)
  then have "p \<notin> ivl k v" using ivl_unique [OF assms(2) b(2) assms(3) b(3)] by auto
  then show "p \<in> cover m - ivl k v" using b by (auto simp: cover_def)
next
  fix p assume "p \<in> cover m - ivl k v"
  then obtain b w where b: "get m b = Some w" "p \<in> ivl b w" and p: "p \<notin> ivl k v" by (auto simp: cover_def)
  then have "b \<noteq> k" using assms(3) by auto
  then have "get (del k m) b = Some w" using get_del [OF assms(1)] b(1) by simp
  then show "p \<in> cover (del k m)" using b(2) by (auto simp: cover_def)
qed

lemma disj_ins:
  assumes "ok m" "disj m" "ivl k v \<inter> cover m = {}" "0 < len v" "\<And>b w. get m b = Some w \<Longrightarrow> 0 < len w"
  shows "disj (ins k v m)"
proof -
  have "b + len w \<le> k \<or> k + len v \<le> b" if g: "get m b = Some w" for b w
  proof (rule ccontr)
    assume n: "\<not> (b + len w \<le> k \<or> k + len v \<le> b)"
    then have "max b k \<in> ivl k v" "max b k \<in> ivl b w" using assms(4,5) g by (auto simp: ivl_def)
    then show False using assms(3) g by (auto simp: cover_def)
  qed
  then show ?thesis using assms(1,2,4,5) unfolding disj_def get_ins [OF assms(1)]
    by (fastforce split: if_splits)
qed

lemma disj_del: "ok m \<Longrightarrow> disj m \<Longrightarrow> disj (del k m)"
  by (auto simp: disj_def get_del split: if_splits)

end

interpretation btree: ordered_map bt_ok bt_get bt_insert bt_remove
    "\<lambda>k m. next_back (bt_range_lt k m)" "\<lambda>k m. next_back (bt_range_le k m)"
  by unfold_locales (simp_all add: bt_range_lt_def bt_range_le_def finite_dom_bt_get
      next_back_filter [where P = "\<lambda>x. x < _"] next_back_filter [where P = "\<lambda>x. x \<le> _"])

end
