(* ===== verification/Page_Span.thy ===== *)
theory Page_Span
  imports Frame_Allocator BTree_Map
begin

text \<open>
  Virtual pages and page spans (\<open>Page\<close> in \<open>src/src/arch/x86_64/paging/mod.rs\<close>,
  \<open>PageSpan\<close> in \<open>src/src/context/memory.rs\<close>).  Page numbers and virtual addresses are
  natural numbers below \<open>2 ^ 64\<close>, with the wrap-around of the machine operations written out.
  For spans whose end address exists, the operations are the corresponding set operations.
\<close>

section \<open>Machine arithmetic on natural numbers\<close>

definition USIZE_LIM :: nat where "USIZE_LIM = 2 ^ 64"

definition u_add :: "nat \<Rightarrow> nat \<Rightarrow> nat" where "u_add a b = (a + b) mod USIZE_LIM"
definition u_sub :: "nat \<Rightarrow> nat \<Rightarrow> nat" where "u_sub a b = (a + (USIZE_LIM - b mod USIZE_LIM)) mod USIZE_LIM"
definition u_mul :: "nat \<Rightarrow> nat \<Rightarrow> nat" where "u_mul a b = (a * b) mod USIZE_LIM"
definition u_sat_add :: "nat \<Rightarrow> nat \<Rightarrow> nat" where "u_sat_add a b = min (a + b) (USIZE_LIM - 1)"

lemma USIZE_LIM_pos [simp]: "0 < USIZE_LIM" "USIZE_LIM \<noteq> 0"
  by (simp_all add: USIZE_LIM_def)

lemma u_add_small [simp]: "a + b < USIZE_LIM \<Longrightarrow> u_add a b = a + b"
  by (simp add: u_add_def)

lemma u_mul_small [simp]: "a * b < USIZE_LIM \<Longrightarrow> u_mul a b = a * b"
  by (simp add: u_mul_def)

lemma u_sub_small [simp]: "b \<le> a \<Longrightarrow> a < USIZE_LIM \<Longrightarrow> u_sub a b = a - b"
proof -
  assume ab: "b \<le> a" "a < USIZE_LIM"
  then have e: "a + (USIZE_LIM - b mod USIZE_LIM) = (a - b) + USIZE_LIM" by simp
  have "(a - b + USIZE_LIM) mod USIZE_LIM = a - b" using ab by (subst mod_add_self2) simp
  then show ?thesis unfolding u_sub_def e .
qed

section \<open>Pages\<close>

type_synonym page = nat

definition PAGE_BYTES :: nat where [simp]: "PAGE_BYTES = 4096"
definition PML4_SIZE :: nat where "PML4_SIZE = 2 ^ 39"
definition USER_END_OFFSET :: nat where "USER_END_OFFSET = 256 * PML4_SIZE"

definition Page_start_address :: "page \<Rightarrow> nat" where
  "Page_start_address p = u_mul p PAGE_BYTES"

definition Page_containing_address :: "nat \<Rightarrow> page" where
  "Page_containing_address a = a div PAGE_BYTES"

definition Page_next_by :: "page \<Rightarrow> nat \<Rightarrow> page" where
  "Page_next_by p n = u_add p n"

definition Page_offset_from :: "page \<Rightarrow> page \<Rightarrow> nat" where
  "Page_offset_from p q = u_sub p q"

definition round_down_pages :: "nat \<Rightarrow> nat" where
  "round_down_pages n = n div PAGE_BYTES * PAGE_BYTES"

definition round_up_pages :: "nat \<Rightarrow> nat" where
  "round_up_pages n = (if n mod PAGE_BYTES = 0 then n else u_add n (PAGE_BYTES - n mod PAGE_BYTES))"

section \<open>Spans\<close>

record page_span =
  ps_base :: page
  ps_count :: nat

definition PageSpan_new :: "page \<Rightarrow> nat \<Rightarrow> page_span" where
  "PageSpan_new b c = \<lparr>ps_base = b, ps_count = c\<rparr>"

definition PageSpan_empty :: page_span where
  "PageSpan_empty = \<lparr>ps_base = Page_containing_address 0, ps_count = 0\<rparr>"

definition PageSpan_is_empty :: "page_span \<Rightarrow> bool" where
  "PageSpan_is_empty s \<longleftrightarrow> ps_count s = 0"

definition PageSpan_validate :: "nat \<Rightarrow> nat \<Rightarrow> page_span option" where
  "PageSpan_validate address size' =
     (if address mod PAGE_BYTES \<noteq> 0 \<or> size' mod PAGE_BYTES \<noteq> 0 then None
      else if u_sat_add address size' > USER_END_OFFSET then None
      else Some (PageSpan_new (Page_containing_address address) (size' div PAGE_BYTES)))"

definition PageSpan_validate_nonempty :: "nat \<Rightarrow> nat \<Rightarrow> page_span option" where
  "PageSpan_validate_nonempty address size' =
     (case PageSpan_validate address size' of
        Some s \<Rightarrow> if PageSpan_is_empty s then None else Some s | None \<Rightarrow> None)"

definition PageSpan_end :: "page_span \<Rightarrow> page" where
  "PageSpan_end s = Page_next_by (ps_base s) (ps_count s)"

definition PageSpan_between :: "page \<Rightarrow> page \<Rightarrow> page_span" where
  "PageSpan_between start end' =
     PageSpan_new start ((Page_start_address end' - Page_start_address start) div PAGE_BYTES)"

definition PageSpan_intersection :: "page_span \<Rightarrow> page_span \<Rightarrow> page_span" where
  "PageSpan_intersection s w =
     PageSpan_between (max (ps_base s) (ps_base w)) (min (PageSpan_end s) (PageSpan_end w))"

definition PageSpan_intersects :: "page_span \<Rightarrow> page_span \<Rightarrow> bool" where
  "PageSpan_intersects s w \<longleftrightarrow> \<not> PageSpan_is_empty (PageSpan_intersection s w)"

definition nonempty_span :: "page_span \<Rightarrow> page_span option" where
  "nonempty_span s = (if PageSpan_is_empty s then None else Some s)"

definition PageSpan_before :: "page_span \<Rightarrow> page_span \<Rightarrow> page_span option exec" where
  "PageSpan_before s span =
     bindE (assertE (ps_base s \<le> ps_base span) ''self.base <= span.base'') (\<lambda>_.
       Inr (nonempty_span (PageSpan_between (ps_base s) (ps_base span))))"

definition PageSpan_after :: "page_span \<Rightarrow> page_span \<Rightarrow> page_span option exec" where
  "PageSpan_after s span =
     bindE (assertE (PageSpan_end span \<le> PageSpan_end s) ''span.end() <= self.end()'') (\<lambda>_.
       Inr (nonempty_span (PageSpan_between (PageSpan_end span) (PageSpan_end s))))"

definition PageSpan_slice ::
    "page_span \<Rightarrow> page_span \<Rightarrow> (page_span option \<times> page_span \<times> page_span option) exec" where
  "PageSpan_slice s inner_span =
     bindE (PageSpan_before s inner_span) (\<lambda>b.
     bindE (PageSpan_after s inner_span) (\<lambda>a. Inr (b, inner_span, a)))"

definition PageSpan_pages :: "page_span \<Rightarrow> page list" where
  "PageSpan_pages s = map (Page_next_by (ps_base s)) [0..<ps_count s]"

section \<open>Spans as sets of pages\<close>

definition span_set :: "page_span \<Rightarrow> page set" where
  "span_set s = {ps_base s ..< ps_base s + ps_count s}"

text \<open>The address of the end of the span exists.\<close>

definition span_ok :: "page_span \<Rightarrow> bool" where
  "span_ok s \<longleftrightarrow> (ps_base s + ps_count s) * PAGE_BYTES < USIZE_LIM"

lemma span_okD:
  assumes "span_ok s"
  shows "PageSpan_end s = ps_base s + ps_count s" "ps_base s + ps_count s < USIZE_LIM"
    "p \<le> ps_base s + ps_count s \<Longrightarrow> Page_start_address p = p * 4096"
  using assms by (simp_all add: span_ok_def PageSpan_end_def Page_next_by_def Page_start_address_def)

lemma PageSpan_new_simps [simp]: "ps_base (PageSpan_new b c) = b" "ps_count (PageSpan_new b c) = c"
  by (simp_all add: PageSpan_new_def)

lemma between_small:
  assumes "span_ok s" "a \<le> ps_base s + ps_count s" "b \<le> ps_base s + ps_count s"
  shows "PageSpan_between a b = PageSpan_new a (b - a)"
  using span_okD(3) [OF assms(1,2)] span_okD(3) [OF assms(1,3)]
  by (simp add: PageSpan_between_def flip: diff_mult_distrib)

lemma span_set_new [simp]: "span_set (PageSpan_new b c) = {b..<b + c}"
  by (simp add: span_set_def)

lemma span_set_empty_iff: "span_set s = {} \<longleftrightarrow> PageSpan_is_empty s"
  by (simp add: span_set_def PageSpan_is_empty_def)

lemma intersection_eq:
  assumes "span_ok s" "span_ok w"
  shows "PageSpan_intersection s w = PageSpan_new (max (ps_base s) (ps_base w))
    (min (ps_base s + ps_count s) (ps_base w + ps_count w) - max (ps_base s) (ps_base w))"
proof -
  have bt: "PageSpan_between a b = PageSpan_new a (b - a)"
    if "a \<le> max (ps_base s + ps_count s) (ps_base w + ps_count w)" "b \<le> max (ps_base s + ps_count s) (ps_base w + ps_count w)" for a b
    using between_small [OF assms(1), of a b] between_small [OF assms(2), of a b] that
    by (cases "ps_base s + ps_count s \<le> ps_base w + ps_count w") (simp_all add: max_def)
  have "PageSpan_between (max (ps_base s) (ps_base w)) (min (ps_base s + ps_count s) (ps_base w + ps_count w)) =
      PageSpan_new (max (ps_base s) (ps_base w))
        (min (ps_base s + ps_count s) (ps_base w + ps_count w) - max (ps_base s) (ps_base w))" by (rule bt) linarith+
  then show ?thesis
    by (simp add: PageSpan_intersection_def span_okD(1) [OF assms(1)] span_okD(1) [OF assms(2)])
qed

lemma intersection_set:
  "span_ok s \<Longrightarrow> span_ok w \<Longrightarrow> span_set (PageSpan_intersection s w) = span_set s \<inter> span_set w"
  by (auto simp: intersection_eq) (auto simp: span_set_def)

lemma intersects_iff:
  "span_ok s \<Longrightarrow> span_ok w \<Longrightarrow> PageSpan_intersects s w \<longleftrightarrow> span_set s \<inter> span_set w \<noteq> {}"
  by (simp add: PageSpan_intersects_def intersection_set flip: span_set_empty_iff)

lemma slice_eq:
  assumes "span_ok s" "ps_base s \<le> ps_base i" "ps_base i + ps_count i \<le> ps_base s + ps_count s"
  shows "PageSpan_slice s i = Inr
    (nonempty_span (PageSpan_new (ps_base s) (ps_base i - ps_base s)), i,
     nonempty_span (PageSpan_new (ps_base i + ps_count i) (ps_base s + ps_count s - (ps_base i + ps_count i))))"
proof -
  have "span_ok i"
    using assms unfolding span_ok_def by (meson le_less_trans mult_le_mono1)
  then show ?thesis using assms span_okD(1) [OF assms(1)] span_okD(1) [of i]
    by (simp add: PageSpan_slice_def PageSpan_before_def PageSpan_after_def between_small)
qed

text \<open>
  \<open>PageSpan::validate\<close> accepts exactly the page-aligned ranges that end in user memory (no
  wrap-around of address plus size can slip through) and returns their pages.
\<close>

theorem PageSpan_validate_correct:
  assumes "address < USIZE_LIM" "len < USIZE_LIM"
  shows "PageSpan_validate address len =
    (if address mod 4096 = 0 \<and> len mod 4096 = 0 \<and> address + len \<le> USER_END_OFFSET
     then Some \<lparr>ps_base = address div 4096, ps_count = len div 4096\<rparr> else None)"
  using assms
  by (auto simp: PageSpan_validate_def u_sat_add_def USER_END_OFFSET_def PML4_SIZE_def USIZE_LIM_def
      PageSpan_new_def Page_containing_address_def)

theorem PageSpan_validate_witness:
  "PageSpan_validate (USIZE_LIM - 4096) 8192 = None"
  by (subst PageSpan_validate_correct) (auto simp: USIZE_LIM_def USER_END_OFFSET_def PML4_SIZE_def)

text \<open>
  Slicing a span around an inner span never panics and yields three spans that are disjoint, in
  order, and make up the span; an absent outer part is exactly an empty one.
\<close>

theorem PageSpan_slice_partition:
  assumes "span_ok s" "span_set i \<subseteq> span_set s" "\<not> PageSpan_is_empty i"
  shows "\<exists>b a. PageSpan_slice s i = Inr (b, i, a) \<and>
    span_set s = (case b of None \<Rightarrow> {} | Some x \<Rightarrow> span_set x) \<union> span_set i \<union> (case a of None \<Rightarrow> {} | Some x \<Rightarrow> span_set x) \<and>
    (\<forall>x. b = Some x \<longrightarrow> span_set x \<noteq> {} \<and> (\<forall>p\<in>span_set x. \<forall>q\<in>span_set i. p < q)) \<and>
    (\<forall>x. a = Some x \<longrightarrow> span_set x \<noteq> {} \<and> (\<forall>p\<in>span_set i. \<forall>q\<in>span_set x. p < q))"
proof -
  have le: "ps_base s \<le> ps_base i" "ps_base i + ps_count i \<le> ps_base s + ps_count s"
    using assms(2,3) by (auto simp: span_set_def PageSpan_is_empty_def)
  show ?thesis unfolding slice_eq [OF assms(1) le] using le
    by (auto simp: nonempty_span_def PageSpan_is_empty_def span_set_def PageSpan_new_def)
qed

theorem PageSpan_slice_witness:
  "\<exists>b a. PageSpan_slice \<lparr>ps_base = 4, ps_count = 8\<rparr> \<lparr>ps_base = 6, ps_count = 2\<rparr> = Inr (b, \<lparr>ps_base = 6, ps_count = 2\<rparr>, a) \<and>
    {4..<12} = (case b of None \<Rightarrow> {} | Some x \<Rightarrow> span_set x) \<union> {6..<8} \<union> (case a of None \<Rightarrow> {} | Some x \<Rightarrow> span_set x)"
  using PageSpan_slice_partition [of "\<lparr>ps_base = 4, ps_count = 8\<rparr>" "\<lparr>ps_base = 6, ps_count = 2\<rparr>"]
  by (auto simp: span_ok_def USIZE_LIM_def span_set_def PageSpan_is_empty_def)

end
