(* ===== verification/Grant_Info.thy ===== *)
theory Grant_Info
  imports Page_Span
begin

text \<open>
  Grants: what backs a range of user pages (\<open>Grant\<close>, \<open>GrantInfo\<close> and
  \<open>Provider\<close> in \<open>src/src/context/memory.rs\<close>).  Page flags belong to the external memory
  management crate; they are a type parameter with the operations the kernel calls, collected in
  \<open>flag_ops\<close>.  \<open>MapFlags\<close> and \<open>GrantFlags\<close> are read through \<open>contains\<close> only, and
  appear as records of these observations.
\<close>

section \<open>Flags\<close>

record 'f flag_ops =
  pf_new :: 'f
  pf_user :: "'f \<Rightarrow> bool \<Rightarrow> 'f"
  pf_execute :: "'f \<Rightarrow> bool \<Rightarrow> 'f"
  pf_write :: "'f \<Rightarrow> bool \<Rightarrow> 'f"
  pf_has_execute :: "'f \<Rightarrow> bool"
  pf_has_write :: "'f \<Rightarrow> bool"

text \<open>The builder methods set one flag and leave the other one alone.\<close>

definition flag_laws :: "'f flag_ops \<Rightarrow> bool" where
  "flag_laws F \<longleftrightarrow>
     (\<forall>f b. pf_has_write F (pf_write F f b) = b \<and> pf_has_execute F (pf_execute F f b) = b \<and>
        pf_has_write F (pf_execute F f b) = pf_has_write F f \<and>
        pf_has_execute F (pf_write F f b) = pf_has_execute F f)"

record map_flags =
  PROT_READ :: bool
  PROT_WRITE :: bool
  PROT_EXEC :: bool
  MAP_SHARED :: bool
  MAP_PRIVATE :: bool
  MAP_FIXED :: bool
  MAP_FIXED_NOREPLACE :: bool
  MAP_LAZY :: bool

definition page_flags :: "'f flag_ops \<Rightarrow> map_flags \<Rightarrow> 'f" where
  "page_flags F flags =
     pf_write F (pf_execute F (pf_user F (pf_new F) True) (PROT_EXEC flags)) (PROT_WRITE flags)"

definition map_flags_of :: "'f flag_ops \<Rightarrow> 'f \<Rightarrow> map_flags" where
  "map_flags_of F f =
     \<lparr>PROT_READ = True, PROT_WRITE = pf_has_write F f, PROT_EXEC = pf_has_execute F f,
      MAP_SHARED = False, MAP_PRIVATE = False, MAP_FIXED = False, MAP_FIXED_NOREPLACE = False,
      MAP_LAZY = False\<rparr>"

record grant_flags =
  GRANT_READ :: bool
  GRANT_WRITE :: bool
  GRANT_EXEC :: bool
  GRANT_SHARED :: bool
  GRANT_PINNED :: bool
  GRANT_SCHEME :: bool
  GRANT_PHYS :: bool
  GRANT_PHYS_CONTIGUOUS :: bool

section \<open>Grants\<close>

text \<open>
  File descriptions and address spaces are shared by reference counting (\<open>Arc\<close>); a reference
  is the identity of the object.
\<close>

type_synonym desc_id = nat
type_synonym space_id = nat

record grant_file_ref =
  description :: desc_id
  base_offset :: nat

datatype provider =
  Allocated "grant_file_ref option" bool
| AllocatedShared bool
| PhysBorrowed frame
| External space_id page bool
| FmapBorrowed grant_file_ref nat

record 'f grant_info =
  gi_page_count :: nat
  gi_flags :: 'f
  gi_mapped :: bool
  gi_provider :: provider

record 'f grant =
  g_base :: page
  g_info :: "'f grant_info"

definition Grant_span :: "'f grant \<Rightarrow> page_span" where
  "Grant_span g = PageSpan_new (g_base g) (gi_page_count (g_info g))"

fun provider_pinned :: "provider \<Rightarrow> bool" where
  "provider_pinned (External _ _ pinned) = pinned"
| "provider_pinned (AllocatedShared pinned) = pinned"
| "provider_pinned (FmapBorrowed _ pin_refcount) = (1 \<le> pin_refcount)"
| "provider_pinned _ = False"

definition is_pinned :: "'f grant_info \<Rightarrow> bool" where
  "is_pinned i = provider_pinned (gi_provider i)"

definition can_extract :: "'f grant_info \<Rightarrow> bool \<Rightarrow> bool" where
  "can_extract i unpin \<longleftrightarrow>
     \<not> (is_pinned i \<and> \<not> unpin) \<or> (case gi_provider i of Allocated _ phys_contiguous \<Rightarrow> phys_contiguous | _ \<Rightarrow> False)"

definition unpin :: "'f grant_info \<Rightarrow> 'f grant_info" where
  "unpin i = (case gi_provider i of
       External a b _ \<Rightarrow> i\<lparr>gi_provider := External a b False\<rparr>
     | AllocatedShared _ \<Rightarrow> i\<lparr>gi_provider := AllocatedShared False\<rparr>
     | _ \<Rightarrow> i)"

definition can_have_flags :: "'f flag_ops \<Rightarrow> 'f grant_info \<Rightarrow> map_flags \<Rightarrow> bool" where
  "can_have_flags F i flags =
     (let is_downgrade = (pf_has_write F (gi_flags i) \<or> \<not> PROT_WRITE flags) \<and>
                         (pf_has_execute F (gi_flags i) \<or> \<not> PROT_EXEC flags)
      in case gi_provider i of Allocated _ _ \<Rightarrow> True | _ \<Rightarrow> is_downgrade)"

definition can_be_merged_if_adjacent :: "'f grant_info \<Rightarrow> 'f grant_info \<Rightarrow> bool" where
  "can_be_merged_if_adjacent i w =
     (if gi_mapped i \<noteq> gi_mapped w \<or> gi_flags i \<noteq> gi_flags w then False
      else case (gi_provider i, gi_provider w) of
          (Allocated None False, Allocated None False) \<Rightarrow> True
        | _ \<Rightarrow> False)"

definition GrantInfo_grant_flags :: "'f flag_ops \<Rightarrow> 'f grant_info \<Rightarrow> grant_flags" where
  "GrantInfo_grant_flags F i =
     (let fl = \<lparr>GRANT_READ = True, GRANT_WRITE = pf_has_write F (gi_flags i), GRANT_EXEC = pf_has_execute F (gi_flags i),
                GRANT_SHARED = False, GRANT_PINNED = False, GRANT_SCHEME = False, GRANT_PHYS = False,
                GRANT_PHYS_CONTIGUOUS = False\<rparr>
      in case gi_provider i of
          External _ _ pinned \<Rightarrow> fl\<lparr>GRANT_PINNED := pinned, GRANT_SHARED := True\<rparr>
        | Allocated cow_file_ref phys_contiguous \<Rightarrow>
            fl\<lparr>GRANT_SCHEME := cow_file_ref \<noteq> None, GRANT_PHYS_CONTIGUOUS := phys_contiguous\<rparr>
        | AllocatedShared pinned \<Rightarrow> fl\<lparr>GRANT_SHARED := True, GRANT_PINNED := pinned\<rparr>
        | PhysBorrowed _ \<Rightarrow> fl\<lparr>GRANT_SHARED := True, GRANT_PHYS := True\<rparr>
        | FmapBorrowed _ _ \<Rightarrow> fl\<lparr>GRANT_SHARED := True, GRANT_SCHEME := True\<rparr>)"

definition GrantInfo_file_ref :: "'f grant_info \<Rightarrow> grant_file_ref option" where
  "GrantInfo_file_ref i = (case gi_provider i of
       FmapBorrowed r _ \<Rightarrow> Some r
     | Allocated (Some r) _ \<Rightarrow> Some r
     | _ \<Rightarrow> None)"

section \<open>Extraction\<close>

text \<open>The provider of the part before, of the part itself and of the part after it.\<close>

fun provider_before :: "provider \<Rightarrow> provider" where
  "provider_before (External a src _) = External a src False"
| "provider_before (Allocated r _) = Allocated r False"
| "provider_before (AllocatedShared _) = AllocatedShared False"
| "provider_before (PhysBorrowed b) = PhysBorrowed b"
| "provider_before (FmapBorrowed r _) = FmapBorrowed r 0"

definition fref_advance :: "grant_file_ref \<Rightarrow> nat \<Rightarrow> grant_file_ref" where
  "fref_advance r n = r\<lparr>base_offset := u_add (base_offset r) (u_mul n PAGE_BYTES)\<rparr>"

fun provider_middle :: "nat \<Rightarrow> provider \<Rightarrow> provider exec" where
  "provider_middle n (PhysBorrowed b) = bindE (Frame_next_by b (of_nat n)) (\<lambda>b. Inr (PhysBorrowed b))"
| "provider_middle n (FmapBorrowed r c) = Inr (FmapBorrowed (fref_advance r n) c)"
| "provider_middle n (Allocated (Some r) pc) = Inr (Allocated (Some (fref_advance r n)) pc)"
| "provider_middle n p = Inr p"

fun provider_after :: "nat \<Rightarrow> provider \<Rightarrow> provider exec" where
  "provider_after n (Allocated None _) = Inr (Allocated None False)"
| "provider_after n (AllocatedShared _) = Inr (AllocatedShared False)"
| "provider_after n (Allocated (Some r) _) = Inr (Allocated (Some (fref_advance r n)) False)"
| "provider_after n (External a src _) = Inr (External a src False)"
| "provider_after n (PhysBorrowed b) = bindE (Frame_next_by b (of_nat n)) (\<lambda>b. Inr (PhysBorrowed b))"
| "provider_after n (FmapBorrowed r _) = Inr (FmapBorrowed (fref_advance r n) 0)"

definition grant_part :: "'f grant_info \<Rightarrow> page_span \<Rightarrow> provider \<Rightarrow> 'f grant" where
  "grant_part i span p =
     \<lparr>g_base = ps_base span, g_info = i\<lparr>gi_page_count := ps_count span, gi_provider := p\<rparr>\<rparr>"

definition Grant_extract ::
    "'f grant \<Rightarrow> page_span \<Rightarrow> ('f grant option \<times> 'f grant \<times> 'f grant option) option exec" where
  "Grant_extract g span =
     bindE (assertE (can_extract (g_info g) False) ''self.info.can_extract(false)'') (\<lambda>_.
     bindE (PageSpan_slice (Grant_span g) span) (\<lambda>(before_span, this_span, after_span).
     let before_grant = map_option (\<lambda>s. grant_part (g_info g) s (provider_before (gi_provider (g_info g)))) before_span;
         middle_page_offset = (case before_grant of None \<Rightarrow> 0 | Some b \<Rightarrow> gi_page_count (g_info b))
     in
     bindE (provider_middle middle_page_offset (gi_provider (g_info g))) (\<lambda>p.
     bindE (case after_span of
              None \<Rightarrow> Inr None
            | Some s \<Rightarrow> bindE (provider_after (ps_count this_span) p) (\<lambda>q. Inr (Some (grant_part (g_info g) s q)))) (\<lambda>after_grant.
       Inr (Some (before_grant, grant_part (g_info g) this_span p, after_grant))))))"

section \<open>What backs a page\<close>

text \<open>
  The place a page of a grant comes from: a physical page, an offset in a file, or a page of another
  address space.
\<close>

datatype backing = Anonymous | PhysPage nat | FileAt desc_id nat | SpacePage space_id page

fun provider_backing :: "provider \<Rightarrow> nat \<Rightarrow> backing" where
  "provider_backing (Allocated None _) i = Anonymous"
| "provider_backing (Allocated (Some r) _) i = FileAt (description r) (base_offset r + i * 4096)"
| "provider_backing (AllocatedShared _) i = Anonymous"
| "provider_backing (PhysBorrowed b) i = PhysPage (frame_pfn b + i)"
| "provider_backing (External a src _) i = SpacePage a (src + i)"
| "provider_backing (FmapBorrowed r _) i = FileAt (description r) (base_offset r + i * 4096)"

definition backing_of :: "'f grant \<Rightarrow> page \<Rightarrow> backing" where
  "backing_of g p = provider_backing (gi_provider (g_info g)) (p - g_base g)"

text \<open>A grant in the range where no address computation wraps.\<close>

fun provider_in_range :: "provider \<Rightarrow> nat \<Rightarrow> bool" where
  "provider_in_range (PhysBorrowed b) n \<longleftrightarrow> frame_ok b \<and> frame_pfn b + n < 2 ^ 51"
| "provider_in_range (Allocated (Some r) _) n \<longleftrightarrow> base_offset r + n * 4096 < USIZE_LIM"
| "provider_in_range (FmapBorrowed r _) n \<longleftrightarrow> base_offset r + n * 4096 < USIZE_LIM"
| "provider_in_range (External a src _) n \<longleftrightarrow> src + n < USIZE_LIM"
| "provider_in_range _ n \<longleftrightarrow> True"

definition grant_ok :: "'f grant \<Rightarrow> bool" where
  "grant_ok g \<longleftrightarrow> span_ok (Grant_span g) \<and> 0 < gi_page_count (g_info g) \<and>
     provider_in_range (gi_provider (g_info g)) (gi_page_count (g_info g))"

definition grant_set :: "'f grant \<Rightarrow> page set" where
  "grant_set g = span_set (Grant_span g)"

text \<open>
  The parts of an extraction see the backing of the pages at their own offset.  For
  \<open>External\<close> the source page is not advanced, which the hypothesis excludes.
\<close>

fun is_external :: "provider \<Rightarrow> bool" where
  "is_external (External _ _ _) = True"
| "is_external _ = False"

lemma frame_next_by_ok:
  assumes "frame_ok b" "frame_pfn b + n < 2 ^ 51"
  obtains b' where "Frame_next_by b (of_nat n) = Inr b'" "frame_ok b'" "frame_pfn b' = frame_pfn b + n"
proof -
  obtain k where k: "pfn_ok k" "b = pframe k" using assms(1) by (rule frame_okE)
  then have kn: "pfn_ok (k + n)" using assms(2) by (simp add: pfn_ok_def)
  then have "Frame_next_by b (of_nat n) = Inr (pframe (k + n))"
    using k next_by_pframe [of k n] by (simp add: pfn_ok_def)
  then show thesis using that frame_ok_pframe [OF kn] k kn by simp
qed

lemma fref_advance_small:
  assumes "base_offset r + n * 4096 < USIZE_LIM"
  shows "description (fref_advance r n) = description r" "base_offset (fref_advance r n) = base_offset r + n * 4096"
  using assms by (simp_all add: fref_advance_def)

lemma provider_before_backing:
  "provider_backing (provider_before p) i = provider_backing p i"
  "provider_in_range p n \<Longrightarrow> k \<le> n \<Longrightarrow> provider_in_range (provider_before p) k"
  "is_external (provider_before p) = is_external p"
proof -
  show "provider_backing (provider_before p) i = provider_backing p i"
    by (cases p) (auto split: option.splits, metis option.exhaust provider_backing.simps(1,2))
  show "is_external (provider_before p) = is_external p" by (cases p) auto
  show "provider_in_range (provider_before p) k" if "provider_in_range p n" "k \<le> n"
  proof (cases p)
    case (Allocated r pc)
    then show ?thesis using that by (cases r) auto
  qed (use that in auto)
qed

text \<open>Advancing a provider by \<open>n\<close> of its pages.\<close>

definition advanced :: "nat \<Rightarrow> provider \<Rightarrow> provider \<Rightarrow> bool" where
  "advanced n p q \<longleftrightarrow> is_external q = is_external p \<and>
     (\<not> is_external p \<longrightarrow> (\<forall>i. provider_backing q i = provider_backing p (n + i))) \<and>
     (\<forall>k. provider_in_range p (n + k) \<longrightarrow> provider_in_range q k)"

lemma provider_middle_advanced:
  assumes "provider_in_range p n"
  shows "\<exists>q. provider_middle n p = Inr q \<and> advanced n p q"
proof (cases p)
  case (Allocated r pc)
  then show ?thesis using assms
    by (cases r) (auto simp: fref_advance_small advanced_def algebra_simps)
next
  case (PhysBorrowed b)
  then obtain b' where "Frame_next_by b (of_nat n) = Inr b'" "frame_ok b'" "frame_pfn b' = frame_pfn b + n"
    using assms frame_next_by_ok [of b n] by auto
  then show ?thesis using PhysBorrowed by (simp add: advanced_def)
next
  case (FmapBorrowed r c)
  then show ?thesis using assms by (auto simp: fref_advance_small advanced_def algebra_simps)
qed (auto simp: advanced_def)

lemma provider_after_advanced:
  assumes "provider_in_range p n"
  shows "\<exists>q. provider_after n p = Inr q \<and> advanced n p q"
proof (cases p)
  case (Allocated r pc)
  then show ?thesis using assms
    by (cases r) (auto simp: fref_advance_small advanced_def algebra_simps)
next
  case (PhysBorrowed b)
  then obtain b' where "Frame_next_by b (of_nat n) = Inr b'" "frame_ok b'" "frame_pfn b' = frame_pfn b + n"
    using assms frame_next_by_ok [of b n] by auto
  then show ?thesis using PhysBorrowed by (simp add: advanced_def)
next
  case (FmapBorrowed r c)
  then show ?thesis using assms by (auto simp: fref_advance_small advanced_def algebra_simps)
qed (auto simp: advanced_def)

lemma advanced_0_self [simp]: "advanced 0 p p"
  by (simp add: advanced_def)

lemma advanced_trans: "advanced m p q \<Longrightarrow> advanced n q r \<Longrightarrow> advanced (m + n) p r"
  by (simp add: advanced_def add.assoc)

lemma provider_in_range_mono: "provider_in_range p n \<Longrightarrow> k \<le> n \<Longrightarrow> provider_in_range p k"
  by (cases "(p, n)" rule: provider_in_range.cases) auto

lemma provider_before_advanced: "advanced 0 p (provider_before p)"
  using provider_before_backing by (simp add: advanced_def)

text \<open>A part of a grant: same flags, inside it, and backed by the same places.\<close>

definition part_of :: "'f grant \<Rightarrow> 'f grant \<Rightarrow> bool" where
  "part_of g h \<longleftrightarrow> grant_ok h \<and> gi_flags (g_info h) = gi_flags (g_info g) \<and> gi_mapped (g_info h) = gi_mapped (g_info g) \<and>
     (\<not> is_external (gi_provider (g_info g)) \<longrightarrow> (\<forall>p\<in>grant_set h. backing_of h p = backing_of g p))"

lemma grant_part_of:
  assumes "grant_ok g" "advanced n (gi_provider (g_info g)) q" "ps_base s = g_base g + n" "0 < ps_count s"
    "n + ps_count s \<le> gi_page_count (g_info g)"
  shows "part_of g (grant_part (g_info g) s q)"
proof -
  let ?h = "grant_part (g_info g) s q"
  have "(ps_base s + ps_count s) * 4096 \<le> (g_base g + gi_page_count (g_info g)) * 4096" using assms(3,5) by simp
  then have "span_ok (Grant_span ?h)"
    using assms(1) by (simp add: grant_ok_def span_ok_def Grant_span_def grant_part_def)
  moreover have "provider_in_range q (ps_count s)"
    using assms(1,2,5) provider_in_range_mono [of _ _ "n + ps_count s"] by (auto simp: grant_ok_def advanced_def)
  ultimately have "grant_ok ?h" using assms(4) by (simp add: grant_ok_def grant_part_def)
  moreover have "backing_of ?h p = backing_of g p" if "p \<in> grant_set ?h" "\<not> is_external (gi_provider (g_info g))" for p
  proof -
    have "ps_base s \<le> p" using that(1) by (simp add: grant_set_def Grant_span_def grant_part_def)
    then have "n + (p - ps_base s) = p - g_base g" using assms(3) by simp
    then show ?thesis using assms(2) that(2) by (simp add: backing_of_def advanced_def grant_part_def)
  qed
  ultimately show ?thesis by (simp add: part_of_def grant_part_def)
qed

lemma extract_cases:
  assumes g: "grant_ok g" and ce: "can_extract (g_info g) False"
    and sp: "span_set s \<subseteq> grant_set g" "0 < ps_count s"
  obtains b m a where "Grant_extract g s = Inr (Some (b, m, a))"
    "part_of g m" "Grant_span m = s" "\<forall>x. b = Some x \<longrightarrow> part_of g x" "\<forall>x. a = Some x \<longrightarrow> part_of g x"
    "case b of None \<Rightarrow> ps_base s = g_base g | Some x \<Rightarrow> Grant_span x = PageSpan_new (g_base g) (ps_base s - g_base g) \<and> g_base g < ps_base s"
    "case a of None \<Rightarrow> ps_base s + ps_count s = g_base g + gi_page_count (g_info g)
       | Some x \<Rightarrow> Grant_span x = PageSpan_new (ps_base s + ps_count s) (g_base g + gi_page_count (g_info g) - (ps_base s + ps_count s)) \<and>
           ps_base s + ps_count s < g_base g + gi_page_count (g_info g)"
proof -
  let ?i = "g_info g" and ?p = "gi_provider (g_info g)"
  define off where "off = ps_base s - g_base g"
  have le: "g_base g \<le> ps_base s" "ps_base s + ps_count s \<le> g_base g + gi_page_count ?i"
    using sp by (auto simp: grant_set_def span_set_def Grant_span_def)
  then have off: "ps_base s = g_base g + off" "off + ps_count s \<le> gi_page_count ?i" by (simp_all add: off_def)
  have ok: "span_ok (Grant_span g)" and rng: "provider_in_range ?p (gi_page_count ?i)"
    using g by (auto simp: grant_ok_def)
  have sl: "PageSpan_slice (Grant_span g) s = Inr (nonempty_span (PageSpan_new (g_base g) off), s,
      nonempty_span (PageSpan_new (ps_base s + ps_count s) (g_base g + gi_page_count ?i - (ps_base s + ps_count s))))"
    using slice_eq [OF ok, of s] le by (simp add: Grant_span_def off_def)
  obtain q where q: "provider_middle off ?p = Inr q" "advanced off ?p q"
    using provider_middle_advanced provider_in_range_mono [OF rng, of off] off(2) by auto
  have "provider_in_range q (ps_count s)"
    using q(2) provider_in_range_mono [OF rng off(2)] by (simp add: advanced_def)
  then obtain q2 where q2: "provider_after (ps_count s) q = Inr q2" "advanced (ps_count s) q q2"
    using provider_after_advanced by blast
  define b where "b = (if off = 0 then None else Some (grant_part ?i (PageSpan_new (g_base g) off) (provider_before ?p)))"
  define rest where "rest = g_base g + gi_page_count ?i - (ps_base s + ps_count s)"
  define a where "a = (if rest = 0 then None else Some (grant_part ?i (PageSpan_new (ps_base s + ps_count s) rest) q2))"
  have run: "Grant_extract g s = Inr (Some (b, grant_part ?i s q, a))"
    using ce sl q(1) q2(1) unfolding Grant_extract_def b_def a_def rest_def
    by (cases "off = 0") (simp_all add: nonempty_span_def PageSpan_is_empty_def Let_def grant_part_def)
  have m: "part_of g (grant_part ?i s q)" by (rule grant_part_of [OF g q(2) off(1) sp(2) off(2)])
  have bp: "\<forall>x. b = Some x \<longrightarrow> part_of g x"
    using grant_part_of [OF g provider_before_advanced, of "PageSpan_new (g_base g) off"] off(2) by (simp add: b_def)
  have ap: "\<forall>x. a = Some x \<longrightarrow> part_of g x"
    using grant_part_of [OF g advanced_trans [OF q(2) q2(2)], of "PageSpan_new (ps_base s + ps_count s) rest"] off le
    by (simp add: a_def rest_def)
  show thesis
    by (rule that [OF run m _ bp ap])
      (use le off in \<open>auto simp: b_def a_def rest_def grant_part_def Grant_span_def PageSpan_new_def\<close>)
qed

section \<open>Results\<close>

text \<open>
  C11: Cutting a span out of a grant never panics.  The parts are disjoint, in order, and make up the
  grant; they keep its flags, and every page of a part is backed by the same physical page or file
  offset as before (providers other than \<open>External\<close>).
\<close>

theorem Grant_extract_correct:
  assumes "grant_ok g" "can_extract (g_info g) False" "span_set s \<subseteq> grant_set g" "0 < ps_count s"
  shows "\<exists>b m a. Grant_extract g s = Inr (Some (b, m, a)) \<and> part_of g m \<and> grant_set m = span_set s \<and>
    (\<forall>x. b = Some x \<longrightarrow> part_of g x \<and> (\<forall>p\<in>grant_set x. \<forall>q\<in>grant_set m. p < q)) \<and>
    (\<forall>x. a = Some x \<longrightarrow> part_of g x \<and> (\<forall>p\<in>grant_set m. \<forall>q\<in>grant_set x. p < q)) \<and>
    grant_set g = (case b of None \<Rightarrow> {} | Some x \<Rightarrow> grant_set x) \<union> grant_set m \<union> (case a of None \<Rightarrow> {} | Some x \<Rightarrow> grant_set x)"
proof -
  have le: "g_base g \<le> ps_base s" "ps_base s + ps_count s \<le> g_base g + gi_page_count (g_info g)"
    using assms(3,4) by (auto simp: grant_set_def span_set_def Grant_span_def)
  obtain b m a where x: "Grant_extract g s = Inr (Some (b, m, a))"
    "part_of g m" "Grant_span m = s" "\<forall>x. b = Some x \<longrightarrow> part_of g x" "\<forall>x. a = Some x \<longrightarrow> part_of g x"
    "case b of None \<Rightarrow> ps_base s = g_base g | Some x \<Rightarrow> Grant_span x = PageSpan_new (g_base g) (ps_base s - g_base g) \<and> g_base g < ps_base s"
    "case a of None \<Rightarrow> ps_base s + ps_count s = g_base g + gi_page_count (g_info g)
       | Some x \<Rightarrow> Grant_span x = PageSpan_new (ps_base s + ps_count s) (g_base g + gi_page_count (g_info g) - (ps_base s + ps_count s)) \<and>
           ps_base s + ps_count s < g_base g + gi_page_count (g_info g)"
    by (rule extract_cases [OF assms])
  have "grant_set g = (case b of None \<Rightarrow> {} | Some x \<Rightarrow> grant_set x) \<union> grant_set m \<union> (case a of None \<Rightarrow> {} | Some x \<Rightarrow> grant_set x)"
    using x(3,6,7) le assms(4)
    by (auto simp: grant_set_def span_set_def Grant_span_def [of g] split: option.splits)
  then show ?thesis using x le by (intro exI [of _ b] exI [of _ m] exI [of _ a])
      (auto simp: grant_set_def span_set_def split: option.splits)
qed

theorem Grant_extract_witness:
  "\<exists>b m a. Grant_extract \<lparr>g_base = 10, g_info = \<lparr>gi_page_count = 8, gi_flags = (), gi_mapped = True,
      gi_provider = FmapBorrowed \<lparr>description = 1, base_offset = 0\<rparr> 0\<rparr>\<rparr> \<lparr>ps_base = 12, ps_count = 2\<rparr> = Inr (Some (b, m, a)) \<and>
    grant_set m = {12..<14}"
  using Grant_extract_correct [of "\<lparr>g_base = 10, g_info = \<lparr>gi_page_count = 8, gi_flags = (), gi_mapped = True,
      gi_provider = FmapBorrowed \<lparr>description = 1, base_offset = 0\<rparr> 0\<rparr>\<rparr>" "\<lparr>ps_base = 12, ps_count = 2\<rparr>"]
  by (auto simp: grant_ok_def span_ok_def Grant_span_def USIZE_LIM_def can_extract_def is_pinned_def grant_set_def
      span_set_def PageSpan_new_def)

text \<open>
  Extraction from a grant borrowed from another address space loses the position: the middle part
  still refers to the first source page, so its pages no longer denote the pages they denoted.
\<close>

theorem Grant_extract_external_shifts:
  assumes "gi_provider (g_info g) = External a src False" "grant_ok g" "span_set s \<subseteq> grant_set g" "0 < ps_count s"
    "g_base g < ps_base s" "Grant_extract g s = Inr (Some (b, m, aft))"
  shows "backing_of g (ps_base s) = SpacePage a (src + (ps_base s - g_base g)) \<and> backing_of m (ps_base s) = SpacePage a src"
proof -
  have le: "g_base g \<le> ps_base s" "ps_base s + ps_count s \<le> g_base g + gi_page_count (g_info g)"
    using assms(3,4) by (auto simp: grant_set_def span_set_def Grant_span_def)
  have "span_ok (Grant_span g)" using assms(2) by (simp add: grant_ok_def)
  then have sl: "\<exists>x y. PageSpan_slice (Grant_span g) s = Inr (x, s, y)" using slice_eq [of "Grant_span g" s] le by (simp add: Grant_span_def)
  have "m = grant_part (g_info g) s (External a src False)"
    using assms(1,6) sl by (auto simp: Grant_extract_def can_extract_def is_pinned_def Let_def bindE_Inr_iff)
  then show ?thesis using assms(1) by (simp add: backing_of_def grant_part_def)
qed

theorem Grant_extract_external_witness:
  "\<exists>b m aft. Grant_extract \<lparr>g_base = 10, g_info = \<lparr>gi_page_count = 8, gi_flags = (), gi_mapped = True,
      gi_provider = External 1 100 False\<rparr>\<rparr> \<lparr>ps_base = 12, ps_count = 2\<rparr> = Inr (Some (b, m, aft)) \<and>
    backing_of m 12 = SpacePage 1 100"
proof -
  let ?g = "\<lparr>g_base = 10, g_info = \<lparr>gi_page_count = 8, gi_flags = (), gi_mapped = True,
      gi_provider = External 1 100 False\<rparr>\<rparr>" and ?s = "\<lparr>ps_base = 12, ps_count = 2\<rparr>"
  have h: "grant_ok ?g" "can_extract (g_info ?g) False" "span_set ?s \<subseteq> grant_set ?g" "0 < ps_count ?s"
    by (auto simp: grant_ok_def span_ok_def Grant_span_def USIZE_LIM_def can_extract_def is_pinned_def grant_set_def
      span_set_def PageSpan_new_def)
  obtain b m aft where x: "Grant_extract ?g ?s = Inr (Some (b, m, aft))" using extract_cases [OF h] by metis
  then show ?thesis using Grant_extract_external_shifts [OF _ h(1,3,4) _ x, of 1 100] by auto
qed

end
