(* ===== verification/User_Grants.thy ===== *)
theory User_Grants
  imports Grant_Info
begin

text \<open>
  The set of grants of an address space and its index of holes (\<open>UserGrants\<close> in
  \<open>src/src/context/memory.rs\<close>).  The invariant says that the grants are disjoint ranges of user
  pages and that the holes are exactly the maximal runs of unused addresses; every operation keeps it.
\<close>

section \<open>Operations\<close>

record 'f user_grants =
  ug_inner :: "(page, 'f grant_info) btree"
  ug_holes :: "(nat, nat) btree"

definition UserGrants_new :: "'f user_grants" where
  "UserGrants_new = \<lparr>ug_inner = [], ug_holes = [(0, USER_END_OFFSET)]\<rparr>"

definition UserGrants_contains :: "'f user_grants \<Rightarrow> page \<Rightarrow> (page \<times> 'f grant_info) option" where
  "UserGrants_contains u p =
     (case next_back (bt_range_le p (ug_inner u)) of
        Some (base, info) \<Rightarrow>
          if base \<le> p \<and> p < Page_next_by base (gi_page_count info) then Some (base, info) else None
      | None \<Rightarrow> None)"

definition UserGrants_conflicts :: "'f user_grants \<Rightarrow> page_span \<Rightarrow> (page \<times> 'f grant_info) list" where
  "UserGrants_conflicts u span =
     (let start_span = (case UserGrants_contains u (ps_base span) of
                          Some (base, info) \<Rightarrow> PageSpan_new base (gi_page_count info)
                        | None \<Rightarrow> span)
      in takeWhile (\<lambda>(base, info). PageSpan_intersects (PageSpan_new base (gi_page_count info)) span)
           (bt_range_from (ps_base start_span) (ug_inner u)))"

text \<open>The size that a hole offers at or above \<open>min\<close>.\<close>

definition avail_size :: "nat \<Rightarrow> nat \<times> nat \<Rightarrow> nat" where
  "avail_size lo h = (case h of (hole_offset, hole_size) \<Rightarrow>
     if hole_offset \<le> lo \<and> lo \<le> u_add hole_offset hole_size
     then u_sub hole_size (u_sub lo hole_offset) else hole_size)"

definition UserGrants_find_free_near :: "'f user_grants \<Rightarrow> nat \<Rightarrow> nat \<Rightarrow> page_span option" where
  "UserGrants_find_free_near u lo page_count =
     (case List.find (\<lambda>h. u_mul page_count PAGE_BYTES \<le> avail_size lo h)
             (dropWhile (\<lambda>(hole_offset, hole_size). u_add hole_offset hole_size \<le> lo) (ug_holes u)) of
        None \<Rightarrow> None
      | Some (hole_start, _) \<Rightarrow>
          Some (PageSpan_new (Page_containing_address (max hole_start lo)) page_count))"

definition UserGrants_find_free :: "'f user_grants \<Rightarrow> nat \<Rightarrow> nat \<Rightarrow> page_span option" where
  "UserGrants_find_free u lo page_count = UserGrants_find_free_near u lo page_count"

definition UserGrants_reserve :: "(nat, nat) btree \<Rightarrow> page \<Rightarrow> nat \<Rightarrow> (nat, nat) btree" where
  "UserGrants_reserve holes base page_count =
     (let start_address = Page_start_address base;
          size' = u_mul page_count PAGE_BYTES;
          end_address = u_add start_address size';
          holes1 =
            (case next_back (bt_range_lt start_address holes) of
               None \<Rightarrow> holes
             | Some (hole_offset, hole_size) \<Rightarrow>
                 let prev_hole_end = u_add hole_offset hole_size;
                     h = (if prev_hole_end > start_address
                          then bt_insert hole_offset (u_sub start_address hole_offset) holes else holes)
                 in if prev_hole_end > end_address
                    then bt_insert end_address (u_sub prev_hole_end end_address) h else h)
      in case bt_get holes1 start_address of
           None \<Rightarrow> holes1
         | Some hole_size \<Rightarrow>
             let remainder = u_sub hole_size size'; holes2 = bt_remove start_address holes1
             in if remainder > 0 then bt_insert end_address remainder holes2 else holes2)"

definition unwrap_or :: "'a option \<Rightarrow> 'a \<Rightarrow> 'a" where
  "unwrap_or x d = (case x of Some v \<Rightarrow> v | None \<Rightarrow> d)"

definition UserGrants_unreserve :: "(nat, nat) btree \<Rightarrow> page \<Rightarrow> nat \<Rightarrow> (nat, nat) btree" where
  "UserGrants_unreserve holes base page_count =
     (let start_address = Page_start_address base;
          size' = u_mul page_count PAGE_BYTES;
          end_address = u_add start_address size';
          exactly_after_size = bt_get holes end_address;
          holes1 = bt_remove end_address holes
      in case next_back (bt_range_lt start_address holes1) of
           Some (hole_offset, hole_size) \<Rightarrow>
             if u_add hole_offset hole_size = start_address
             then bt_insert hole_offset
                    (u_add (u_sub end_address hole_offset) (unwrap_or exactly_after_size 0)) holes1
             else bt_insert start_address (u_add size' (unwrap_or exactly_after_size 0)) holes1
         | None \<Rightarrow> bt_insert start_address (u_add size' (unwrap_or exactly_after_size 0)) holes1)"

definition before_region :: "'f user_grants \<Rightarrow> 'f grant \<Rightarrow> (page \<times> nat) option" where
  "before_region u g =
     (case next_back (bt_range_lt (g_base g) (ug_inner u)) of
        Some (base, info) \<Rightarrow>
          if Page_next_by base (gi_page_count info) = g_base g \<and> can_be_merged_if_adjacent info (g_info g)
          then Some (base, gi_page_count info) else None
      | None \<Rightarrow> None)"

definition after_region :: "'f user_grants \<Rightarrow> 'f grant \<Rightarrow> (page \<times> nat) option" where
  "after_region u g =
     (case next_front (bt_range_from (PageSpan_end (Grant_span g)) (ug_inner u)) of
        Some (base, info) \<Rightarrow>
          if base = Page_next_by (g_base g) (gi_page_count (g_info g)) \<and> can_be_merged_if_adjacent info (g_info g)
          then Some (base, gi_page_count info) else None
      | None \<Rightarrow> None)"

definition UserGrants_insert :: "'f user_grants \<Rightarrow> 'f grant \<Rightarrow> 'f user_grants exec" where
  "UserGrants_insert u g =
     bindE (assertE (UserGrants_conflicts u (PageSpan_new (g_base g) (gi_page_count (g_info g))) = [])
              ''conflicts(..).next().is_none()'') (\<lambda>_.
     let u = u\<lparr>ug_holes := UserGrants_reserve (ug_holes u) (g_base g) (gi_page_count (g_info g))\<rparr>;
         bef = before_region u g;
         aft = after_region u g;
         (base1, count1, inner1) =
           (case bef of
              Some (before_base, before_page_count) \<Rightarrow>
                (before_base, u_add (gi_page_count (g_info g)) before_page_count, bt_remove before_base (ug_inner u))
            | None \<Rightarrow> (g_base g, gi_page_count (g_info g), ug_inner u));
         (count2, inner2) =
           (case aft of
              Some (after_base, after_page_count) \<Rightarrow>
                (u_add count1 after_page_count, bt_remove after_base inner1)
            | None \<Rightarrow> (count1, inner1))
     in Inr (u\<lparr>ug_inner := bt_insert base1 ((g_info g)\<lparr>gi_page_count := count2\<rparr>) inner2\<rparr>))"

definition UserGrants_remove :: "'f user_grants \<Rightarrow> page \<Rightarrow> 'f user_grants \<times> 'f grant option" where
  "UserGrants_remove u base =
     (case bt_get (ug_inner u) base of
        None \<Rightarrow> (u, None)
      | Some info \<Rightarrow>
          (u\<lparr>ug_inner := bt_remove base (ug_inner u),
             ug_holes := UserGrants_unreserve (ug_holes u) base (gi_page_count info)\<rparr>,
           Some \<lparr>g_base = base, g_info = info\<rparr>))"

section \<open>Holes\<close>

definition hole_cover :: "(nat \<Rightarrow> nat option) \<Rightarrow> nat set" where
  "hole_cover h = {x. \<exists>o' s. h o' = Some s \<and> o' \<le> x \<and> x < o' + s}"

text \<open>Holes are non-empty, page aligned, in user memory, and never adjacent.\<close>

definition hole_sep :: "(nat \<Rightarrow> nat option) \<Rightarrow> bool" where
  "hole_sep h \<longleftrightarrow>
     (\<forall>o' s. h o' = Some s \<longrightarrow> 0 < s \<and> 4096 dvd o' \<and> 4096 dvd s \<and> o' + s \<le> USER_END_OFFSET) \<and>
     (\<forall>o' s p t. h o' = Some s \<longrightarrow> h p = Some t \<longrightarrow> o' < p \<longrightarrow> o' + s < p)"

lemma hole_coverI: "h o' = Some s \<Longrightarrow> o' \<le> x \<Longrightarrow> x < o' + s \<Longrightarrow> x \<in> hole_cover h"
  unfolding hole_cover_def by blast

lemma hole_sepD:
  assumes "hole_sep h"
  shows "h o' = Some s \<Longrightarrow> 0 < s" "h o' = Some s \<Longrightarrow> 4096 dvd o'" "h o' = Some s \<Longrightarrow> 4096 dvd s"
    "h o' = Some s \<Longrightarrow> o' + s \<le> USER_END_OFFSET"
    "h o' = Some s \<Longrightarrow> h p = Some t \<Longrightarrow> o' < p \<Longrightarrow> o' + s < p"
  using assms unfolding hole_sep_def by blast+

lemma hole_unique:
  assumes "hole_sep h" "h o' = Some s" "h p = Some t" "o' \<le> x" "x \<le> o' + s" "p \<le> x" "x \<le> p + t"
  shows "p = o'"
  using hole_sepD(5) [OF assms(1,2,3)] hole_sepD(5) [OF assms(1,3,2)] assms(4-7)
  by (cases o' p rule: linorder_cases) auto

lemma hole_around:
  assumes "hole_sep h" "a < b" "{a..<b} \<subseteq> hole_cover h"
  obtains o' s where "h o' = Some s" "o' \<le> a" "b \<le> o' + s"
proof -
  have "a \<in> hole_cover h" using assms(2,3) by auto
  then obtain o' s where o: "h o' = Some s" "o' \<le> a" "a < o' + s" by (auto simp: hole_cover_def)
  have "b \<le> o' + s"
  proof (rule ccontr)
    assume "\<not> b \<le> o' + s"
    then have "o' + s \<in> hole_cover h" using assms(3) o(2,3) by (auto simp: subset_eq)
    then obtain p t where p: "h p = Some t" "p \<le> o' + s" "o' + s < p + t" by (auto simp: hole_cover_def)
    then have "p = o'" using hole_unique [OF assms(1) o(1) p(1), of "o' + s"] by simp
    then show False using p o(1) by simp
  qed
  then show thesis using that o by blast
qed

lemma hole_split:
  assumes sep: "hole_sep h" and o: "h o' = Some s" "o' \<le> a" "a < b" "b \<le> o' + s"
    and al: "4096 dvd a" "4096 dvd b"
    and h': "h' = h(o' := if o' < a then Some (a - o') else None, b := if b < o' + s then Some (o' + s - b) else None)"
  shows "hole_sep h'" "hole_cover h' = hole_cover h - {a..<b}"
proof -
  note D = hole_sepD [OF sep]
  have other: "x < o' \<and> x + t < o' \<or> o' + s < x" if "h x = Some t" "x \<noteq> o'" for x t
    using D(5) [OF o(1) that(1)] D(5) [OF that(1) o(1)] that(2) by (cases x o' rule: linorder_cases) auto
  have hb: "h b = None" using other [of b] o by fastforce
  have dvd: "4096 dvd a - o'" "4096 dvd o' + s - b" using D(2,3) [OF o(1)] al by (auto intro: dvd_diff_nat)
  have ch: "h' x = Some t \<longleftrightarrow> x = b \<and> b < o' + s \<and> t = o' + s - b \<or> x = o' \<and> o' < a \<and> t = a - o' \<or>
      x \<noteq> o' \<and> h x = Some t" for x t
    using o hb unfolding h' by (auto split: if_splits)
  show "hole_cover h' = hole_cover h - {a..<b}"
  proof (intro set_eqI iffI)
    fix x assume "x \<in> hole_cover h'"
    then obtain p t where p: "h' p = Some t" "p \<le> x" "x < p + t" by (auto simp: hole_cover_def)
    from p(1) [unfolded ch] consider "p = b" "b < o' + s" "t = o' + s - b" | "p = o'" "o' < a" "t = a - o'"
      | "p \<noteq> o'" "h p = Some t" by blast
    then show "x \<in> hole_cover h - {a..<b}"
    proof cases
      case 3
      then show ?thesis using other [of p t] p o by (auto simp: hole_cover_def)
    qed (use p o hole_coverI [of h o' s x] in auto)
  next
    fix x assume x: "x \<in> hole_cover h - {a..<b}"
    then obtain p t where p: "h p = Some t" "p \<le> x" "x < p + t" by (auto simp: hole_cover_def)
    show "x \<in> hole_cover h'"
    proof (cases "p = o'")
      case True
      then have "h' o' = Some (a - o') \<and> x < a \<and> o' < a \<or> h' b = Some (o' + s - b) \<and> b \<le> x"
        using x p o by (auto simp: ch)
      then show ?thesis using True p o x by (force simp: hole_cover_def)
    next
      case False
      then show ?thesis using p by (auto simp: hole_cover_def ch)
    qed
  qed
  have "x + t < y" if "h' x = Some t" "h' y = Some u" "x < y" for x t y u
    using that(1,2) [unfolded ch] that(3) other [of x t] other [of y u] o D(5) [of x t y u] by auto
  moreover have "0 < t \<and> 4096 dvd x \<and> 4096 dvd t \<and> x + t \<le> USER_END_OFFSET" if "h' x = Some t" for x t
    using that [unfolded ch] D(1-4) [of x t] D(2,4) [OF o(1)] dvd al o by auto
  ultimately show "hole_sep h'" unfolding hole_sep_def by blast
qed

text \<open>Giving a range back: it joins the hole before it and the hole after it.\<close>

lemma hole_join:
  assumes sep: "hole_sep h" and ab: "a < b" "b \<le> USER_END_OFFSET" and dis: "{a..<b} \<inter> hole_cover h = {}"
    and al: "4096 dvd a" "4096 dvd b"
    and c: "c = (case h b of Some t \<Rightarrow> b + t | None \<Rightarrow> b)"
    and o: "o' \<noteq> a \<longrightarrow> h o' = Some s \<and> o' + s = a" "o' = a \<longrightarrow> (\<forall>p t. h p = Some t \<longrightarrow> p + t \<noteq> a)"
    and h': "h' = (h(b := None))(o' \<mapsto> c - o')"
  shows "hole_sep h'" "hole_cover h' = hole_cover h \<union> {a..<b}"
proof -
  note D = hole_sepD [OF sep]
  have oa: "o' \<le> a" using o(1) by (cases "o' = a") auto
  have bc: "b \<le> c" "c \<le> USER_END_OFFSET" "4096 dvd c"
    using ab(2) al(2) D(3,4) [of b] by (auto simp: c split: option.splits)
  have out: "x + t \<le> a \<or> b \<le> x" if "h x = Some t" for x t
  proof (rule ccontr)
    assume "\<not> (x + t \<le> a \<or> b \<le> x)"
    then have "max a x \<in> {a..<b}" "max a x \<in> hole_cover h"
      using ab(1) D(1) [OF that] that hole_coverI [of h x t "max a x"] by auto
    then show False using dis by blast
  qed
  have o4: "4096 dvd o'" using o(1) al(1) D(2) [of o' s] by (cases "o' = a") auto
  have other: "x + t < o' \<or> c < x" if h: "h x = Some t" "x \<noteq> b" "x \<noteq> o'" for x t
  proof (cases "b \<le> x")
    case True
    then show ?thesis using h D(5) [of b _ x t] D(1) [of b] by (auto simp: c split: option.splits)
  next
    case False
    then have xa: "x + t \<le> a" using out [OF h(1)] by simp
    show ?thesis
    proof (cases "o' = a")
      case True
      then show ?thesis using o(2) h(1) xa by fastforce
    next
      case False
      then show ?thesis using o(1) D(5) [OF h(1), of o' s] D(5) [of o' s x t] h xa D(1) [OF h(1)]
        by (cases x o' rule: linorder_cases) auto
    qed
  qed
  have ch: "h' x = Some t \<longleftrightarrow> x = o' \<and> t = c - o' \<or> x \<noteq> o' \<and> x \<noteq> b \<and> h x = Some t" for x t
    using oa ab(1) unfolding h' by auto
  have mem: "o' \<le> x \<and> x < c \<longleftrightarrow> x \<in> {a..<b} \<or> (\<exists>p t. (p = o' \<or> p = b) \<and> h p = Some t \<and> p \<le> x \<and> x < p + t)" for x
  proof -
    have "h o' = Some s \<Longrightarrow> o' = a \<Longrightarrow> False" using out [of o' s] D(1) [of o' s] ab(1) by fastforce
    then have "(\<exists>t. h o' = Some t \<and> o' \<le> x \<and> x < o' + t) \<longleftrightarrow> o' \<le> x \<and> x < a"
      using o(1) out [of o'] D(1) [of o'] ab(1) by (cases "o' = a") fastforce+
    moreover have "(\<exists>t. h b = Some t \<and> b \<le> x \<and> x < b + t) \<longleftrightarrow> b \<le> x \<and> x < c" by (auto simp: c split: option.splits)
    ultimately show ?thesis using oa bc(1) ab(1) by auto
  qed
  show "hole_cover h' = hole_cover h \<union> {a..<b}"
  proof (intro set_eqI)
    fix x
    have "x \<in> hole_cover h' \<longleftrightarrow> o' \<le> x \<and> x < c \<or> (\<exists>p t. p \<noteq> o' \<and> p \<noteq> b \<and> h p = Some t \<and> p \<le> x \<and> x < p + t)"
      (is "_ \<longleftrightarrow> ?r")
    proof
      assume "x \<in> hole_cover h'"
      then obtain p t where "h' p = Some t" "p \<le> x" "x < p + t" by (auto simp: hole_cover_def)
      then show ?r unfolding ch using oa ab(1) bc(1) by auto
    next
      assume ?r
      then show "x \<in> hole_cover h'"
        using hole_coverI [of h' o' "c - o'" x] ch hole_coverI [of h' _ _ x] oa ab(1) bc(1) by auto
    qed
    also have "\<dots> \<longleftrightarrow> x \<in> hole_cover h \<union> {a..<b}" unfolding mem hole_cover_def by auto
    finally show "x \<in> hole_cover h' \<longleftrightarrow> x \<in> hole_cover h \<union> {a..<b}" .
  qed
  have "x + t < y" if "h' x = Some t" "h' y = Some u" "x < y" for x t y u
    using that(1,2) [unfolded ch] that(3) other [of x t] other [of y u] oa bc(1) ab(1) D(5) [of x t y u] by auto
  moreover have "0 < t \<and> 4096 dvd x \<and> 4096 dvd t \<and> x + t \<le> USER_END_OFFSET" if "h' x = Some t" for x t
    using that [unfolded ch] D(1-4) [of x t] o4 bc oa ab(1) by (auto intro: dvd_diff_nat)
  ultimately show "hole_sep h'" unfolding hole_sep_def by blast
qed

lemma USER_END_less: "USER_END_OFFSET < USIZE_LIM" "x \<le> USER_END_OFFSET \<Longrightarrow> x < USIZE_LIM" "4096 dvd USER_END_OFFSET"
  by (simp_all add: USER_END_OFFSET_def PML4_SIZE_def USIZE_LIM_def)

definition holes_ok :: "(nat, nat) btree \<Rightarrow> bool" where
  "holes_ok H \<longleftrightarrow> bt_ok H \<and> hole_sep (bt_get H)"

lemma page_range_small:
  assumes "(base + n) * 4096 \<le> USER_END_OFFSET"
  shows "Page_start_address base = base * 4096" "u_mul n PAGE_BYTES = n * 4096"
    "u_add (base * 4096) (n * 4096) = (base + n) * 4096"
proof -
  have l: "base * 4096 + n * 4096 < USIZE_LIM" using USER_END_less(2) [OF assms] by (simp add: algebra_simps)
  show "Page_start_address base = base * 4096" using l by (simp add: Page_start_address_def)
  show "u_mul n PAGE_BYTES = n * 4096" using l by simp
  show "u_add (base * 4096) (n * 4096) = (base + n) * 4096" using l by (simp add: algebra_simps)
qed

lemma holes_prev:
  assumes "holes_ok H" "next_back (bt_range_lt a H) = Some (o', s)"
  shows "bt_get H o' = Some s" "o' < a" "0 < s" "o' + s \<le> USER_END_OFFSET" "u_add o' s = o' + s"
    "\<And>x. bt_get H x \<noteq> None \<Longrightarrow> x < a \<Longrightarrow> x \<le> o'"
proof -
  have ok: "bt_ok H" "hole_sep (bt_get H)" using assms(1) by (auto simp: holes_ok_def)
  note r = btree.last_lt_Some [OF ok(1), of a o' s, THEN iffD1, OF assms(2)]
  then show g: "bt_get H o' = Some s" "o' < a" "\<And>x. bt_get H x \<noteq> None \<Longrightarrow> x < a \<Longrightarrow> x \<le> o'" by blast+
  show "0 < s" "o' + s \<le> USER_END_OFFSET" using hole_sepD [OF ok(2)] g(1) by blast+
  then show "u_add o' s = o' + s" using USER_END_less(2) by simp
qed

lemma reserve_ok:
  assumes H: "holes_ok H" and n: "0 < n" "(base + n) * 4096 \<le> USER_END_OFFSET"
    and free: "{base * 4096..<(base + n) * 4096} \<subseteq> hole_cover (bt_get H)"
  shows "holes_ok (UserGrants_reserve H base n)"
    "hole_cover (bt_get (UserGrants_reserve H base n)) = hole_cover (bt_get H) - {base * 4096..<(base + n) * 4096}"
proof -
  define a b where "a = base * 4096" and "b = (base + n) * 4096"
  have ok: "bt_ok H" "hole_sep (bt_get H)" using H by (auto simp: holes_ok_def)
  have ab: "a < b" "4096 dvd a" "4096 dvd b" "b < USIZE_LIM" "b - a = n * 4096"
    using n USER_END_less(2) by (auto simp: a_def b_def algebra_simps)
  note sm = page_range_small [OF n(2), folded a_def b_def]
  obtain o' s where o: "bt_get H o' = Some s" "o' \<le> a" "b \<le> o' + s"
    using hole_around [OF ok(2) ab(1)] free by (auto simp: a_def b_def)
  have lim: "o' + s < USIZE_LIM" using hole_sepD(4) [OF ok(2) o(1)] USER_END_less(2) by blast
  let ?h' = "(bt_get H)(o' := if o' < a then Some (a - o') else None, b := if b < o' + s then Some (o' + s - b) else None)"
  note sp = hole_split [OF ok(2) o(1,2) ab(1) o(3) ab(2,3) refl]
  have "bt_get H b = None"
  proof (rule ccontr)
    assume "bt_get H b \<noteq> None"
    then obtain t where t: "bt_get H b = Some t" by blast
    then show False using hole_unique [OF ok(2) o(1) t, of b] o(2,3) ab(1) by auto
  qed
  moreover have "bt_ok (UserGrants_reserve H base n) \<and> bt_get (UserGrants_reserve H base n) = ?h'"
  proof (cases "o' < a")
    case True
    have "x \<le> o'" if x: "bt_get H x \<noteq> None" "x < a" for x
    proof (rule ccontr)
      assume "\<not> x \<le> o'"
      moreover obtain t where "bt_get H x = Some t" using x(1) by blast
      ultimately show False using hole_sepD(5) [OF ok(2) o(1), of x t] x(2) o(3) ab(1) by simp
    qed
    then have "next_back (bt_range_lt a H) = Some (o', s)" using btree.last_lt_Some [OF ok(1)] o(1) True by blast
    moreover have "bt_get H a = None"
    proof (rule ccontr)
      assume "bt_get H a \<noteq> None"
      then obtain t where t: "bt_get H a = Some t" by blast
      then show False using hole_unique [OF ok(2) o(1) t, of a] True o(2,3) ab(1) by auto
    qed
    ultimately show ?thesis using True o lim ab \<open>bt_get H b = None\<close> ok(1)
      by (auto simp: UserGrants_reserve_def sm Let_def fun_eq_iff)
  next
    case False
    then have oa: "o' = a" using o(2) by simp
    define h1 where "h1 = (case next_back (bt_range_lt a H) of
               None \<Rightarrow> H
             | Some (hole_offset, hole_size) \<Rightarrow>
                 let prev_hole_end = u_add hole_offset hole_size;
                     h = (if prev_hole_end > a then bt_insert hole_offset (u_sub a hole_offset) H else H)
                 in if prev_hole_end > b then bt_insert b (u_sub prev_hole_end b) h else h)"
    have "h1 = H"
    proof (cases "next_back (bt_range_lt a H)")
      case (Some e)
      obtain x t where e: "e = (x, t)" by (cases e)
      note pv = holes_prev [OF H Some [unfolded e]]
      have "x + t < a" using hole_sepD(5) [OF ok(2) pv(1) o(1)] pv(2) oa by simp
      then show ?thesis using Some e pv(5) ab(1) by (simp add: h1_def Let_def)
    qed (simp add: h1_def)
    moreover have "u_sub s (n * 4096) = s - n * 4096" using ab(5) o(3) lim oa by simp
    ultimately show ?thesis using oa o(1,3) ab ok(1) \<open>bt_get H b = None\<close>
      unfolding UserGrants_reserve_def sm Let_def h1_def [symmetric, unfolded Let_def]
      by (auto simp: fun_eq_iff)
  qed
  ultimately show "holes_ok (UserGrants_reserve H base n)"
    "hole_cover (bt_get (UserGrants_reserve H base n)) = hole_cover (bt_get H) - {base * 4096..<(base + n) * 4096}"
    using sp by (simp_all add: holes_ok_def a_def b_def)
qed

lemma unreserve_ok:
  assumes H: "holes_ok H" and n: "0 < n" "(base + n) * 4096 \<le> USER_END_OFFSET"
    and used: "{base * 4096..<(base + n) * 4096} \<inter> hole_cover (bt_get H) = {}"
  shows "holes_ok (UserGrants_unreserve H base n)"
    "hole_cover (bt_get (UserGrants_unreserve H base n)) = hole_cover (bt_get H) \<union> {base * 4096..<(base + n) * 4096}"
proof -
  define a b where "a = base * 4096" and "b = (base + n) * 4096"
  have ok: "bt_ok H" "hole_sep (bt_get H)" using H by (auto simp: holes_ok_def)
  have ab: "a < b" "4096 dvd a" "4096 dvd b" "b \<le> USER_END_OFFSET" "n * 4096 = b - a"
    using n by (auto simp: a_def b_def algebra_simps)
  note sm = page_range_small [OF n(2), folded a_def b_def]
  define e where "e = unwrap_or (bt_get H b) 0"
  define c where "c = (case bt_get H b of Some t \<Rightarrow> b + t | None \<Rightarrow> b)"
  have c: "c = b + e" "c < USIZE_LIM"
    using hole_sepD(4) [OF ok(2), of b] ab(4) USER_END_less(2) by (auto simp: c_def e_def unwrap_or_def split: option.splits)
  define H1 where "H1 = bt_remove b H"
  have ok1: "bt_ok H1" "bt_get H1 = (bt_get H)(b := None)" using ok(1) by (simp_all add: H1_def)
  obtain o' s where o: "o' \<noteq> a \<longrightarrow> bt_get H o' = Some s \<and> o' + s = a" "o' = a \<longrightarrow> (\<forall>p t. bt_get H p = Some t \<longrightarrow> p + t \<noteq> a)"
    and r: "UserGrants_unreserve H base n = bt_insert o' (c - o') H1"
  proof (cases "next_back (bt_range_lt a H1)")
    case None
    then have "p + t \<noteq> a" if "bt_get H p = Some t" for p t
      using btree.last_lt_None [OF ok1(1) None, of p] hole_sepD(1) [OF ok(2) that] that ok1(2) ab(1) by auto
    moreover have "UserGrants_unreserve H base n = bt_insert a (c - a) H1"
      using None c ab by (simp add: UserGrants_unreserve_def sm Let_def H1_def [symmetric] e_def [symmetric] ab(5))
    ultimately show thesis by (intro that [of a]) auto
  next
    case (Some q)
    obtain x t where q: "q = (x, t)" by (cases q)
    have H1ok: "holes_ok H1" using ok ok1 by (auto simp: holes_ok_def hole_sep_def)
    note pv = holes_prev [OF H1ok Some [unfolded q]]
    have x: "bt_get H x = Some t" using pv(1) ok1(2) by (auto split: if_splits)
    show thesis
    proof (cases "x + t = a")
      case True
      then have "UserGrants_unreserve H base n = bt_insert x (c - x) H1"
        using Some q pv(2,5) c ab USER_END_less(2) [OF ab(4)]
        by (simp add: UserGrants_unreserve_def sm Let_def H1_def [symmetric] e_def [symmetric])
      then show thesis using True x pv(2) by (intro that [of x t]) auto
    next
      case False
      have "p + u \<noteq> a" if p: "bt_get H p = Some u" for p u
      proof
        assume pa: "p + u = a"
        then have "p \<le> x" using pv(6) [of p] p ok1(2) hole_sepD(1) [OF ok(2) p] ab(1) by auto
        then show False using hole_sepD(5) [OF ok(2) p x] pa pv(2) False x p by (cases "p = x") auto
      qed
      moreover have "UserGrants_unreserve H base n = bt_insert a (c - a) H1"
        using Some q False pv(5) c ab
        by (simp add: UserGrants_unreserve_def sm Let_def H1_def [symmetric] e_def [symmetric] ab(5))
      ultimately show thesis by (intro that [of a]) auto
    qed
  qed
  have "bt_get (bt_insert o' (c - o') H1) = ((bt_get H)(b := None))(o' \<mapsto> c - o')"
    using bt_get_insert [OF ok1(1)] ok1(2) by simp
  note j = hole_join [OF ok(2) ab(1,4) _ ab(2,3) c_def o this]
  show "holes_ok (UserGrants_unreserve H base n)"
    "hole_cover (bt_get (UserGrants_unreserve H base n)) = hole_cover (bt_get H) \<union> {base * 4096..<(base + n) * 4096}"
    using j used ok1(1) unfolding r by (simp_all add: holes_ok_def a_def b_def)
qed

section \<open>Lookup\<close>

interpretation gmap: interval_map bt_ok bt_get bt_insert bt_remove
    "\<lambda>k m. next_back (bt_range_lt k m)" "\<lambda>k m. next_back (bt_range_le k m)" gi_page_count
  by unfold_locales

text \<open>The pages and the byte addresses that grants occupy.\<close>

definition inner_ok :: "(page, 'f grant_info) btree \<Rightarrow> bool" where
  "inner_ok m \<longleftrightarrow> bt_ok m \<and> gmap.disj m \<and>
     (\<forall>b i. bt_get m b = Some i \<longrightarrow> grant_ok \<lparr>g_base = b, g_info = i\<rparr> \<and> (b + gi_page_count i) * 4096 \<le> USER_END_OFFSET)"

definition page_bytes :: "page set \<Rightarrow> nat set" where
  "page_bytes P = {x. x div 4096 \<in> P}"

definition grants_inv :: "'f user_grants \<Rightarrow> bool" where
  "grants_inv u \<longleftrightarrow> inner_ok (ug_inner u) \<and> holes_ok (ug_holes u) \<and>
     hole_cover (bt_get (ug_holes u)) = {..<USER_END_OFFSET} - page_bytes (gmap.cover (ug_inner u))"

definition used_pages :: "'f user_grants \<Rightarrow> page set" where
  "used_pages u = gmap.cover (ug_inner u)"

lemma inner_okD:
  assumes "inner_ok m"
  shows "bt_ok m" "gmap.disj m"
    "bt_get m b = Some i \<Longrightarrow> grant_ok \<lparr>g_base = b, g_info = i\<rparr>" "bt_get m b = Some i \<Longrightarrow> (b + gi_page_count i) * 4096 \<le> USER_END_OFFSET"
    "bt_get m b = Some i \<Longrightarrow> 0 < gi_page_count i" "bt_get m b = Some i \<Longrightarrow> Page_next_by b (gi_page_count i) = b + gi_page_count i"
    "bt_get m b = Some i \<Longrightarrow> span_ok (PageSpan_new b (gi_page_count i))"
proof -
  show "bt_ok m" "gmap.disj m" using assms by (auto simp: inner_ok_def)
  assume "bt_get m b = Some i"
  then show "grant_ok \<lparr>g_base = b, g_info = i\<rparr>" "(b + gi_page_count i) * 4096 \<le> USER_END_OFFSET"
    using assms by (auto simp: inner_ok_def)
  then show "0 < gi_page_count i" "span_ok (PageSpan_new b (gi_page_count i))"
    "Page_next_by b (gi_page_count i) = b + gi_page_count i"
    using span_okD(1) [of "PageSpan_new b (gi_page_count i)"] by (auto simp: grant_ok_def Grant_span_def PageSpan_end_def)
qed

lemma contains_iff:
  assumes "inner_ok (ug_inner u)"
  shows "UserGrants_contains u p = Some (b, i) \<longleftrightarrow> bt_get (ug_inner u) b = Some i \<and> p \<in> {b..<b + gi_page_count i}"
proof -
  note D = inner_okD [OF assms]
  have "UserGrants_contains u p = Some (b, i) \<longleftrightarrow>
      next_back (bt_range_le p (ug_inner u)) = Some (b, i) \<and> p \<in> {b..<b + gi_page_count i}"
  proof (cases "next_back (bt_range_le p (ug_inner u))")
    case (Some e)
    obtain b' i' where e: "e = (b', i')" by (cases e)
    then have "bt_get (ug_inner u) b' = Some i'" "b' \<le> p" using btree.last_le_Some [OF D(1), of p b' i'] Some by auto
    then show ?thesis using D(6) [of b' i'] Some e by (auto simp: UserGrants_contains_def)
  qed (simp add: UserGrants_contains_def)
  then show ?thesis
    using gmap.last_le_lookup [OF D(1,2), of p b i] by (auto simp: gmap.ivl_def)
qed

lemma takeWhile_filter: "sorted_wrt (\<lambda>x y. P y \<longrightarrow> P x) xs \<Longrightarrow> takeWhile P xs = filter P xs"
proof (induction xs)
  case (Cons x xs)
  then show ?case by (cases "P x") auto
qed simp

lemma conflicts_eq:
  assumes u: "inner_ok (ug_inner u)" and s: "span_ok s" "0 < ps_count s"
  shows "UserGrants_conflicts u s =
    filter (\<lambda>(b, i). {b..<b + gi_page_count i} \<inter> span_set s \<noteq> {}) (ug_inner u)"
proof -
  let ?m = "ug_inner u"
  note D = inner_okD [OF u]
  let ?Q = "\<lambda>(b, i). {b..<b + gi_page_count i} \<inter> span_set s \<noteq> {}"
  define st where "st = (case UserGrants_contains u (ps_base s) of Some (b, i) \<Rightarrow> b | None \<Rightarrow> ps_base s)"
  have in_m: "bt_get ?m b = Some i \<longleftrightarrow> (b, i) \<in> set ?m" for b i by (rule bt_get_in [OF D(1)])
  have con: "UserGrants_contains u (ps_base s) = Some (b, i) \<longleftrightarrow> bt_get ?m b = Some i \<and> ps_base s \<in> {b..<b + gi_page_count i}" for b i
    by (rule contains_iff [OF u])
  have st: "st \<le> ps_base s" "st \<noteq> ps_base s \<longrightarrow> (\<exists>i. bt_get ?m st = Some i \<and> ps_base s < st + gi_page_count i)"
    using con by (auto simp: st_def split: option.splits)
  have low: "\<not> ?Q (b, i)" if m: "(b, i) \<in> set ?m" "b < st" for b i
  proof -
    have g: "bt_get ?m b = Some i" using m(1) in_m by simp
    have "b + gi_page_count i \<le> ps_base s"
    proof (cases "UserGrants_contains u (ps_base s)")
      case None
      then show ?thesis using con [of b i] g m(2) st(1) by (auto simp: not_less)
    next
      case (Some e)
      then obtain b' i' where "bt_get ?m b' = Some i'" "ps_base s \<in> {b'..<b' + gi_page_count i'}" "st = b'"
        using con by (cases e) (auto simp: st_def)
      then show ?thesis using gmap.disjD [OF D(2) g, of b' i'] m(2) by auto
    qed
    then show ?thesis by (auto simp: span_set_def)
  qed
  have high: "?Q (b, i) \<longleftrightarrow> b < ps_base s + ps_count s" if m: "(b, i) \<in> set ?m" "st \<le> b" for b i
  proof -
    have g: "bt_get ?m b = Some i" "0 < gi_page_count i" using m(1) in_m D(5) by auto
    show ?thesis
    proof (cases "ps_base s \<le> b")
      case True
      then have "b \<in> span_set s" if "b < ps_base s + ps_count s" using that by (simp add: span_set_def)
      then show ?thesis using g(2) True by (auto simp: span_set_def)
    next
      case False
      then obtain i' where i': "bt_get ?m st = Some i'" "ps_base s < st + gi_page_count i'" using st m(2) by auto
      then have "b = st" using gmap.disjD [OF D(2) i'(1) g(1)] m(2) False by (cases "st = b") auto
      then have "ps_base s \<in> {b..<b + gi_page_count i} \<inter> span_set s" using i' g(1) False s(2) by (simp add: span_set_def)
      then have "{b..<b + gi_page_count i} \<inter> span_set s \<noteq> {}" by blast
      then show ?thesis using False by simp
    qed
  qed
  have eq: "UserGrants_conflicts u s = takeWhile (\<lambda>(b, i). PageSpan_intersects (PageSpan_new b (gi_page_count i)) s) (bt_range_from st ?m)"
    by (auto simp: UserGrants_conflicts_def st_def Let_def split: option.splits)
  also have "\<dots> = takeWhile ?Q (bt_range_from st ?m)"
  proof (intro takeWhile_cong refl)
    fix e assume "e \<in> set (bt_range_from st ?m)"
    then have "e \<in> set ?m" by (simp add: bt_range_from_def)
    moreover obtain b i where "e = (b, i)" by (cases e)
    ultimately have e: "e = (b, i)" "bt_get ?m b = Some i" using in_m by auto
    show "(case e of (b, i) \<Rightarrow> PageSpan_intersects (PageSpan_new b (gi_page_count i)) s) = ?Q e"
      using intersects_iff [OF D(7) [OF e(2)] s(1)] e(1) by simp
  qed
  also have "\<dots> = filter ?Q (bt_range_from st ?m)"
  proof (rule takeWhile_filter)
    have "sorted_wrt (\<lambda>x y. fst x < fst y) (bt_range_from st ?m)"
      using bt_ok_filter [OF D(1)] unfolding bt_range_from_def bt_ok_def by (simp add: sorted_wrt_map)
    then show "sorted_wrt (\<lambda>x y. ?Q y \<longrightarrow> ?Q x) (bt_range_from st ?m)"
      by (rule sorted_wrt_mono_rel [rotated]) (use high in \<open>force simp: bt_range_from_def\<close>)
  qed
  also have "\<dots> = filter ?Q ?m"
    unfolding bt_range_from_def filter_filter using low by (intro filter_cong) force+
  finally show ?thesis .
qed

lemma gmap_coverI: "bt_get m b = Some i \<Longrightarrow> b \<le> p \<Longrightarrow> p < b + gi_page_count i \<Longrightarrow> p \<in> gmap.cover m"
  unfolding gmap.cover_def gmap.ivl_def by auto

section \<open>Abstract view: the attributes of every page\<close>

fun provider_at :: "provider \<Rightarrow> nat \<Rightarrow> provider" where
  "provider_at (Allocated None pc) k = Allocated None pc"
| "provider_at (Allocated (Some r) pc) k = Allocated (Some (r\<lparr>base_offset := base_offset r + k * 4096\<rparr>)) pc"
| "provider_at (AllocatedShared pinned) k = AllocatedShared pinned"
| "provider_at (PhysBorrowed b) k = PhysBorrowed (pframe (frame_pfn b + k))"
| "provider_at (External a src pinned) k = External a (src + k) pinned"
| "provider_at (FmapBorrowed r c) k = FmapBorrowed (r\<lparr>base_offset := base_offset r + k * 4096\<rparr>) c"

definition page_attr :: "page \<Rightarrow> 'f grant_info \<Rightarrow> page \<Rightarrow> 'f \<times> bool \<times> provider" where
  "page_attr b i p = (gi_flags i, gi_mapped i, provider_at (gi_provider i) (p - b))"

definition page_view :: "'f user_grants \<Rightarrow> page \<Rightarrow> ('f \<times> bool \<times> provider) option" where
  "page_view u p = map_option (\<lambda>(b, i). page_attr b i p) (UserGrants_contains u p)"

definition mview :: "(page, 'f grant_info) btree \<Rightarrow> page \<Rightarrow> ('f \<times> bool \<times> provider) option" where
  "mview m = page_view \<lparr>ug_inner = m, ug_holes = []\<rparr>"

lemma page_view_mview: "page_view u = mview (ug_inner u)"
  by (intro ext) (simp add: page_view_def mview_def UserGrants_contains_def)

lemma mview_Some:
  assumes "inner_ok m" "bt_get m b = Some i" "p \<in> {b..<b + gi_page_count i}"
  shows "mview m p = Some (page_attr b i p)"
  using contains_iff [of "\<lparr>ug_inner = m, ug_holes = []\<rparr>" p b i] assms by (simp add: mview_def page_view_def)

lemma mview_None: "inner_ok m \<Longrightarrow> mview m p = None \<longleftrightarrow> p \<notin> gmap.cover m"
proof -
  assume m: "inner_ok m"
  have "mview m p \<noteq> None \<longleftrightarrow> (\<exists>b i. UserGrants_contains \<lparr>ug_inner = m, ug_holes = []\<rparr> p = Some (b, i))"
    by (auto simp: mview_def page_view_def)
  then show ?thesis using contains_iff [of "\<lparr>ug_inner = m, ug_holes = []\<rparr>"] m
    by (auto simp: gmap.cover_def gmap.ivl_def)
qed

lemma mview_congr:
  assumes "inner_ok m" "inner_ok m'" "bt_get m b = Some i" "bt_get m' b = Some i" "p \<in> {b..<b + gi_page_count i}"
  shows "mview m' p = mview m p"
  using mview_Some [OF assms(1,3,5)] mview_Some [OF assms(2,4,5)] by simp

lemma inner_remove:
  assumes "inner_ok m" "bt_get m b = Some i"
  shows "inner_ok (bt_remove b m)" "gmap.cover (bt_remove b m) = gmap.cover m - {b..<b + gi_page_count i}"
    "mview (bt_remove b m) p = (if p \<in> {b..<b + gi_page_count i} then None else mview m p)"
proof -
  note D = inner_okD [OF assms(1)]
  show ok: "inner_ok (bt_remove b m)"
    using assms(1) gmap.disj_del [OF D(1,2)] by (simp add: inner_ok_def)
  show c: "gmap.cover (bt_remove b m) = gmap.cover m - {b..<b + gi_page_count i}"
    using gmap.cover_del [OF D(1,2) assms(2)] by (simp add: gmap.ivl_def)
  show "mview (bt_remove b m) p = (if p \<in> {b..<b + gi_page_count i} then None else mview m p)"
  proof (cases "p \<in> gmap.cover (bt_remove b m)")
    case True
    then obtain x j where x: "bt_get (bt_remove b m) x = Some j" "p \<in> {x..<x + gi_page_count j}"
      by (auto simp: gmap.cover_def gmap.ivl_def)
    then have "bt_get m x = Some j" using D(1) by (simp split: if_splits)
    then have "mview (bt_remove b m) p = mview m p" using mview_congr [OF assms(1) ok _ x] by simp
    moreover have "p \<notin> {b..<b + gi_page_count i}" using True unfolding c by simp
    ultimately show ?thesis by auto
  next
    case False
    then have "mview (bt_remove b m) p = None" using mview_None [OF ok] by blast
    moreover have "mview m p = None" if "p \<notin> {b..<b + gi_page_count i}"
      using mview_None [OF assms(1)] False that unfolding c by blast
    ultimately show ?thesis by simp
  qed
qed

lemma inner_insert:
  assumes m: "inner_ok m" and g: "grant_ok \<lparr>g_base = b, g_info = i\<rparr>" "(b + gi_page_count i) * 4096 \<le> USER_END_OFFSET"
    and dis: "{b..<b + gi_page_count i} \<inter> gmap.cover m = {}"
  shows "inner_ok (bt_insert b i m)" "gmap.cover (bt_insert b i m) = {b..<b + gi_page_count i} \<union> gmap.cover m"
    "mview (bt_insert b i m) p = (if p \<in> {b..<b + gi_page_count i} then Some (page_attr b i p) else mview m p)"
proof -
  note D = inner_okD [OF m]
  have pos: "0 < gi_page_count i" using g(1) by (simp add: grant_ok_def)
  have bn: "bt_get m b = None"
  proof (rule ccontr)
    assume "bt_get m b \<noteq> None"
    then obtain j where "bt_get m b = Some j" by blast
    then have "b \<in> gmap.cover m" using D(5) gmap_coverI [of m b j b] by simp
    then show False using dis pos by (meson atLeastLessThan_iff disjoint_iff le_refl less_add_same_cancel1)
  qed
  have "gmap.disj (bt_insert b i m)"
    by (rule gmap.disj_ins [OF D(1,2) _ pos]) (use dis D(5) in \<open>auto simp: gmap.ivl_def\<close>)
  then show ok: "inner_ok (bt_insert b i m)" using m g by (auto simp: inner_ok_def)
  show c: "gmap.cover (bt_insert b i m) = {b..<b + gi_page_count i} \<union> gmap.cover m"
    using gmap.cover_ins [OF D(1) bn] by (simp add: gmap.ivl_def)
  have gi: "bt_get (bt_insert b i m) = (bt_get m)(b \<mapsto> i)" using D(1) by simp
  show "mview (bt_insert b i m) p = (if p \<in> {b..<b + gi_page_count i} then Some (page_attr b i p) else mview m p)"
  proof (cases "p \<in> gmap.cover m")
    case True
    then obtain x j where x: "bt_get m x = Some j" "p \<in> {x..<x + gi_page_count j}"
      by (auto simp: gmap.cover_def gmap.ivl_def)
    then have "bt_get (bt_insert b i m) x = Some j" using gi bn by auto
    then show ?thesis using mview_congr [OF m ok x(1) _ x(2)] True dis by auto
  next
    case False
    then show ?thesis using mview_None [OF m, of p] mview_None [OF ok, of p] c mview_Some [OF ok, of b i p] gi by auto
  qed
qed

lemma page_bytes_ivl: "page_bytes {b..<b + n} = {b * 4096..<(b + n) * 4096}"
  by (auto simp: page_bytes_def less_eq_div_iff_mult_less_eq div_less_iff_less_mult)

lemma page_bytes_simps: "page_bytes (A \<union> B) = page_bytes A \<union> page_bytes B" "page_bytes (A - B) = page_bytes A - page_bytes B"
  "page_bytes (A \<inter> B) = page_bytes A \<inter> page_bytes B"
  by (auto simp: page_bytes_def)

lemma remove_ok:
  assumes inv: "grants_inv u" and g: "bt_get (ug_inner u) b = Some i"
  obtains u' where "UserGrants_remove u b = (u', Some \<lparr>g_base = b, g_info = i\<rparr>)" "grants_inv u'"
    "used_pages u' = used_pages u - {b..<b + gi_page_count i}"
    "\<forall>p. page_view u' p = (if p \<in> {b..<b + gi_page_count i} then None else page_view u p)"
    "ug_inner u' = bt_remove b (ug_inner u)"
proof -
  have ok: "inner_ok (ug_inner u)" "holes_ok (ug_holes u)"
    "hole_cover (bt_get (ug_holes u)) = {..<USER_END_OFFSET} - page_bytes (gmap.cover (ug_inner u))"
    using inv by (auto simp: grants_inv_def)
  note D = inner_okD [OF ok(1)]
  let ?u = "u\<lparr>ug_inner := bt_remove b (ug_inner u), ug_holes := UserGrants_unreserve (ug_holes u) b (gi_page_count i)\<rparr>"
  have sub: "{b..<b + gi_page_count i} \<subseteq> gmap.cover (ug_inner u)" using g gmap_coverI [of "ug_inner u" b i] by auto
  then have "{b * 4096..<(b + gi_page_count i) * 4096} \<subseteq> page_bytes (gmap.cover (ug_inner u))"
    unfolding page_bytes_ivl [symmetric] by (auto simp: page_bytes_def)
  moreover have "{b * 4096..<(b + gi_page_count i) * 4096} \<subseteq> {..<USER_END_OFFSET}" using D(4) [OF g] by auto
  ultimately have "grants_inv ?u"
    using unreserve_ok [OF ok(2) D(5) [OF g] D(4) [OF g]] inner_remove [OF ok(1) g] ok(3)
    unfolding grants_inv_def by (auto simp: page_bytes_simps page_bytes_ivl)
  then show thesis using that [of ?u] g inner_remove [OF ok(1) g]
    by (simp add: UserGrants_remove_def used_pages_def page_view_mview)
qed

section \<open>Insertion\<close>

lemma merge_info:
  assumes "can_be_merged_if_adjacent i j"
  shows "gi_provider i = Allocated None False" "gi_provider j = Allocated None False"
    "gi_flags i = gi_flags j" "gi_mapped i = gi_mapped j"
  using assms by (auto simp: can_be_merged_if_adjacent_def split: if_splits provider.splits option.splits bool.splits)

lemma before_region_Some:
  assumes "inner_ok (ug_inner u)" "before_region u g = Some (b, n)"
  obtains i where "bt_get (ug_inner u) b = Some i" "n = gi_page_count i" "b + n = g_base g" "can_be_merged_if_adjacent i (g_info g)"
proof -
  note D = inner_okD [OF assms(1)]
  obtain i where i: "next_back (bt_range_lt (g_base g) (ug_inner u)) = Some (b, i)" "n = gi_page_count i"
    "Page_next_by b (gi_page_count i) = g_base g" "can_be_merged_if_adjacent i (g_info g)"
    using assms(2) by (auto simp: before_region_def split: option.splits if_splits)
  then have "bt_get (ug_inner u) b = Some i" using btree.last_lt_Some [OF D(1)] by blast
  then show thesis using that i D(6) by fastforce
qed

lemma after_region_Some:
  assumes "inner_ok (ug_inner u)" "grant_ok g" "after_region u g = Some (b, n)"
  obtains i where "bt_get (ug_inner u) b = Some i" "n = gi_page_count i" "b = g_base g + gi_page_count (g_info g)"
    "can_be_merged_if_adjacent i (g_info g)"
proof -
  note D = inner_okD [OF assms(1)]
  let ?xs = "bt_range_from (PageSpan_end (Grant_span g)) (ug_inner u)"
  obtain i where i: "next_front ?xs = Some (b, i)" "n = gi_page_count i"
    "b = Page_next_by (g_base g) (gi_page_count (g_info g))" "can_be_merged_if_adjacent i (g_info g)"
    using assms(3) by (auto simp: after_region_def split: option.splits if_splits)
  have "(b, i) \<in> set ?xs" using i(1) by (cases ?xs) (auto simp: next_front_def)
  then have "bt_get (ug_inner u) b = Some i" using bt_get_in [OF D(1)] by (simp add: bt_range_from_def)
  moreover have "Page_next_by (g_base g) (gi_page_count (g_info g)) = g_base g + gi_page_count (g_info g)"
    using span_okD(1) [of "Grant_span g"] assms(2) by (simp add: grant_ok_def Grant_span_def PageSpan_end_def)
  ultimately show thesis using that i by simp
qed

text \<open>
  While \<open>insert\<close> absorbs the neighbours, the block \<open>{b..<b + n}\<close> with the flags of the new
  grant, together with the remaining grants \<open>m\<close>, always stands for the final set of grants.
\<close>

definition with_count :: "'f grant_info \<Rightarrow> nat \<Rightarrow> 'f grant_info" where
  "with_count i n = i\<lparr>gi_page_count := n\<rparr>"

lemma with_count_simps [simp]:
  "gi_page_count (with_count i n) = n" "with_count i (gi_page_count i) = i"
  "page_attr b (with_count i n) p = page_attr b i p"
  "can_be_merged_if_adjacent j (with_count i n) = can_be_merged_if_adjacent j i"
  by (simp_all add: with_count_def page_attr_def can_be_merged_if_adjacent_def)

definition merging :: "(page, 'f grant_info) btree \<Rightarrow> 'f grant \<Rightarrow> page \<Rightarrow> nat \<Rightarrow> (page, 'f grant_info) btree \<Rightarrow> bool" where
  "merging m0 g b n m \<longleftrightarrow> inner_ok m \<and> gmap.cover m \<inter> {b..<b + n} = {} \<and>
     gmap.cover m \<union> {b..<b + n} = gmap.cover m0 \<union> grant_set g \<and>
     grant_ok \<lparr>g_base = b, g_info = with_count (g_info g) n\<rparr> \<and> (b + n) * 4096 \<le> USER_END_OFFSET \<and>
     (\<forall>p. (if p \<in> {b..<b + n} then Some (page_attr b (g_info g) p) else mview m p) =
       (if p \<in> grant_set g then Some (page_attr (g_base g) (g_info g) p) else mview m0 p))"

lemma grant_set_eq: "grant_set g = {g_base g..<g_base g + gi_page_count (g_info g)}"
  by (simp add: grant_set_def Grant_span_def)

lemma merging_start:
  assumes "inner_ok m" "grant_ok g" "(g_base g + gi_page_count (g_info g)) * 4096 \<le> USER_END_OFFSET"
    "grant_set g \<inter> gmap.cover m = {}"
  shows "merging m g (g_base g) (gi_page_count (g_info g)) m"
proof -
  have "grant_ok \<lparr>g_base = g_base g, g_info = g_info g\<rparr>" using assms(2) by (simp add: grant_ok_def Grant_span_def)
  then show ?thesis using assms unfolding merging_def grant_set_eq with_count_simps by auto
qed

lemma merging_step:
  assumes mg: "merging m0 g b n m" and i: "bt_get m b' = Some i" "can_be_merged_if_adjacent i (g_info g)"
    and adj: "b' + gi_page_count i = b \<or> b' = b + n"
  shows "merging m0 g (min b b') (n + gi_page_count i) (bt_remove b' m)" "n + gi_page_count i < USIZE_LIM"
proof -
  have m: "inner_ok m" "gmap.cover m \<inter> {b..<b + n} = {}" "gmap.cover m \<union> {b..<b + n} = gmap.cover m0 \<union> grant_set g"
    "grant_ok \<lparr>g_base = b, g_info = with_count (g_info g) n\<rparr>" "(b + n) * 4096 \<le> USER_END_OFFSET"
    and v: "\<And>p. (if p \<in> {b..<b + n} then Some (page_attr b (g_info g) p) else mview m p) =
       (if p \<in> grant_set g then Some (page_attr (g_base g) (g_info g) p) else mview m0 p)"
    using mg unfolding merging_def by blast+
  note D = inner_okD [OF m(1)] and r = inner_remove [OF m(1) i(1)] and mi = merge_info [OF i(2)]
  let ?n = "n + gi_page_count i" and ?b = "min b b'"
  have iv: "{?b..<?b + ?n} = {b..<b + n} \<union> {b'..<b' + gi_page_count i}" using adj by auto
  have sub: "{b'..<b' + gi_page_count i} \<subseteq> gmap.cover m" using i(1) gmap_coverI [of m b' i] by auto
  have e: "(?b + ?n) * 4096 \<le> USER_END_OFFSET" using adj m(5) D(4) [OF i(1)] by auto
  then have "(?b + ?n) * 4096 < USIZE_LIM" by (rule USER_END_less(2))
  then show "?n < USIZE_LIM" by simp
  have g': "grant_ok \<lparr>g_base = ?b, g_info = with_count (g_info g) ?n\<rparr>"
    using \<open>(?b + ?n) * 4096 < USIZE_LIM\<close> mi(2) D(5) [OF i(1)]
    by (simp add: grant_ok_def Grant_span_def span_ok_def with_count_def)
  have attr: "page_attr x (g_info g) p = page_attr b' i p" for x p using mi by (simp add: page_attr_def)
  have "(if p \<in> {?b..<?b + ?n} then Some (page_attr ?b (g_info g) p) else mview (bt_remove b' m) p) =
      (if p \<in> {b..<b + n} then Some (page_attr b (g_info g) p) else mview m p)" for p
    using mview_Some [OF m(1) i(1), of p] attr [of b p] attr [of ?b p] unfolding iv r(3) by auto
  then have "\<forall>p. (if p \<in> {?b..<?b + ?n} then Some (page_attr ?b (g_info g) p) else mview (bt_remove b' m) p) =
      (if p \<in> grant_set g then Some (page_attr (g_base g) (g_info g) p) else mview m0 p)" using v by simp
  moreover have "gmap.cover (bt_remove b' m) \<inter> {?b..<?b + ?n} = {}"
    "gmap.cover (bt_remove b' m) \<union> {?b..<?b + ?n} = gmap.cover m0 \<union> grant_set g"
    using m(2,3) sub unfolding iv r(2) by auto
  ultimately show "merging m0 g ?b ?n (bt_remove b' m)" using r(1) g' e unfolding merging_def by blast
qed

lemma insert_ok:
  assumes inv: "grants_inv u" and g: "grant_ok g" "(g_base g + gi_page_count (g_info g)) * 4096 \<le> USER_END_OFFSET"
    and dis: "grant_set g \<inter> used_pages u = {}"
  obtains u' where "UserGrants_insert u g = Inr u'" "grants_inv u'" "used_pages u' = used_pages u \<union> grant_set g"
    "\<forall>p. page_view u' p = (if p \<in> grant_set g then Some (page_attr (g_base g) (g_info g) p) else page_view u p)"
proof -
  let ?n = "gi_page_count (g_info g)" and ?m = "ug_inner u"
  have ok: "inner_ok ?m" "holes_ok (ug_holes u)" "hole_cover (bt_get (ug_holes u)) = {..<USER_END_OFFSET} - page_bytes (gmap.cover ?m)"
    using inv by (auto simp: grants_inv_def)
  have pos: "0 < ?n" "span_ok (Grant_span g)" using g(1) by (auto simp: grant_ok_def)
  have dis': "grant_set g \<inter> gmap.cover ?m = {}" using dis by (simp add: used_pages_def)
  have cf: "UserGrants_conflicts u (PageSpan_new (g_base g) ?n) = []"
  proof -
    have "{b..<b + gi_page_count i} \<inter> grant_set g = {}" if "(b, i) \<in> set ?m" for b i
    proof -
      have "bt_get ?m b = Some i" using that bt_get_in [OF inner_okD(1) [OF ok(1)]] by blast
      then have "{b..<b + gi_page_count i} \<subseteq> gmap.cover ?m" using gmap_coverI by auto
      then show ?thesis using dis' by blast
    qed
    then have "filter (\<lambda>(b, i). {b..<b + gi_page_count i} \<inter> span_set (Grant_span g) \<noteq> {}) ?m = []"
      unfolding filter_empty_conv grant_set_def by blast
    then show ?thesis using conflicts_eq [OF ok(1) pos(2)] pos(1) by (simp add: Grant_span_def)
  qed
  define u1 where "u1 = u\<lparr>ug_holes := UserGrants_reserve (ug_holes u) (g_base g) ?n\<rparr>"
  have u1: "ug_inner u1 = ?m" by (simp add: u1_def)
  note start = merging_start [OF ok(1) g dis']
  obtain b1 n1 m1 where s1: "(case before_region u1 g of
        Some (before_base, before_page_count) \<Rightarrow> (before_base, u_add ?n before_page_count, bt_remove before_base (ug_inner u1))
      | None \<Rightarrow> (g_base g, ?n, ug_inner u1)) = (b1, n1, m1)" "merging ?m g b1 n1 m1"
    "b1 + n1 = g_base g + ?n" "\<forall>x. x \<ge> g_base g \<longrightarrow> bt_get m1 x = bt_get ?m x"
  proof (cases "before_region u1 g")
    case None
    then show thesis using that start u1 by simp
  next
    case (Some e)
    then obtain b n where e: "before_region u1 g = Some (b, n)" by (cases e) auto
    obtain i where i: "bt_get ?m b = Some i" "n = gi_page_count i" "b + n = g_base g" "can_be_merged_if_adjacent i (g_info g)"
      using before_region_Some [OF _ e] ok(1) u1 by auto
    have "min (g_base g) b = b" using i(3) by simp
    then have "merging ?m g b (?n + n) (bt_remove b ?m)" "u_add ?n n = ?n + n"
      using merging_step [OF start i(1,4)] i(2,3) by auto
    moreover have "b < g_base g" using i(2,3) inner_okD(5) [OF ok(1) i(1)] by simp
    ultimately show thesis using that e u1 i(3) inner_okD(1) [OF ok(1)] by auto
  qed
  obtain n2 m2 where s2: "(case after_region u1 g of
        Some (after_base, after_page_count) \<Rightarrow> (u_add n1 after_page_count, bt_remove after_base m1)
      | None \<Rightarrow> (n1, m1)) = (n2, m2)" "merging ?m g b1 n2 m2"
  proof (cases "after_region u1 g")
    case None
    then show thesis using that s1(2) by simp
  next
    case (Some e)
    then obtain b n where e: "after_region u1 g = Some (b, n)" by (cases e) auto
    obtain i where i: "bt_get ?m b = Some i" "n = gi_page_count i" "b = g_base g + ?n" "can_be_merged_if_adjacent i (g_info g)"
      using after_region_Some [OF _ g(1) e] ok(1) u1 by auto
    have "bt_get m1 b = Some i" "b = b1 + n1" using s1(3,4) i by auto
    then have "merging ?m g b1 (n1 + n) (bt_remove b m1)" "u_add n1 n = n1 + n"
      using merging_step [OF s1(2), of b i] i(2,4) by auto
    then show thesis using that e by auto
  qed
  let ?u = "u1\<lparr>ug_inner := bt_insert b1 (with_count (g_info g) n2) m2\<rparr>"
  have run: "UserGrants_insert u g = Inr ?u"
    using cf s1(1) s2(1) unfolding UserGrants_insert_def u1_def [symmetric] Let_def by (simp add: with_count_def)
  have m: "inner_ok m2" "gmap.cover m2 \<inter> {b1..<b1 + n2} = {}" "gmap.cover m2 \<union> {b1..<b1 + n2} = gmap.cover ?m \<union> grant_set g"
    "grant_ok \<lparr>g_base = b1, g_info = with_count (g_info g) n2\<rparr>" "(b1 + n2) * 4096 \<le> USER_END_OFFSET"
    and v: "\<And>p. (if p \<in> {b1..<b1 + n2} then Some (page_attr b1 (g_info g) p) else mview m2 p) =
       (if p \<in> grant_set g then Some (page_attr (g_base g) (g_info g) p) else mview ?m p)"
    using s2(2) unfolding merging_def by blast+
  have dd: "{b1..<b1 + gi_page_count (with_count (g_info g) n2)} \<inter> gmap.cover m2 = {}" using m(2) by auto
  note ins = inner_insert [OF m(1,4) _ dd, simplified, OF m(5) [simplified]]
  have pb: "page_bytes (grant_set g) = {g_base g * 4096..<(g_base g + ?n) * 4096}"
    unfolding grant_set_eq page_bytes_ivl ..
  have "page_bytes (grant_set g) \<inter> page_bytes (gmap.cover ?m) = {}"
    using dis' unfolding page_bytes_simps(3) [symmetric] by (simp add: page_bytes_def)
  then have hc: "{g_base g * 4096..<(g_base g + ?n) * 4096} \<subseteq> hole_cover (bt_get (ug_holes u))"
    using g(2) unfolding ok(3) pb by auto
  note rs = reserve_ok [OF ok(2) pos(1) g(2) hc]
  have "grants_inv ?u"
    using rs ins(1,2) ok(3) m(3) unfolding grants_inv_def
    by (simp add: u1_def page_bytes_simps pb Un_commute Diff_eq Int_assoc)
  moreover have "used_pages ?u = used_pages u \<union> grant_set g"
    using ins(2) m(3) by (simp add: used_pages_def Un_commute)
  moreover have "page_view ?u p = (if p \<in> grant_set g then Some (page_attr (g_base g) (g_info g) p) else page_view u p)" for p
  proof -
    have "page_view ?u p = (if p \<in> {b1..<b1 + n2} then Some (page_attr b1 (g_info g) p) else mview m2 p)"
      unfolding page_view_mview using ins(3) [of p] by simp
    also note v [of p]
    finally show ?thesis unfolding page_view_mview .
  qed
  ultimately show thesis using that [OF run] by blast
qed

section \<open>Free search\<close>

lemma avail_size_eq:
  assumes "holes_ok H" "(o', s) \<in> set H" "lo < o' + s"
  shows "avail_size lo (o', s) = o' + s - max o' lo"
proof -
  have g: "bt_get H o' = Some s" using assms(1,2) bt_get_in [of H o' s] by (simp add: holes_ok_def)
  then have "o' + s \<le> USER_END_OFFSET" using assms(1) hole_sepD(4) by (auto simp: holes_ok_def)
  then have l: "o' + s < USIZE_LIM" by (rule USER_END_less(2))
  then have "u_sub s (u_sub lo o') = s - (lo - o')" if "o' \<le> lo" using that assms(3) by simp
  then show ?thesis using l assms(3) by (auto simp: avail_size_def max_def)
qed

lemma dropWhile_holes:
  assumes "holes_ok H"
  shows "e \<in> set (dropWhile (\<lambda>(o', s). u_add o' s \<le> lo) H) \<longleftrightarrow> e \<in> set H \<and> lo < fst e + snd e"
  using assms
proof (induction H)
  case (Cons h H)
  obtain o' s where h: "h = (o', s)" by (cases h)
  note D = hole_sepD [of "bt_get (h # H)"]
  have ok: "bt_ok (h # H)" "hole_sep (bt_get (h # H))" using Cons.prems by (auto simp: holes_ok_def)
  have g: "bt_get (h # H) o' = Some s" using h by simp
  have l: "u_add o' s = o' + s" using D(4) [OF ok(2) g] USER_END_less(2) by simp
  have gH: "bt_get (h # H) x = bt_get H x" if "bt_get H x \<noteq> None" for x
    using that ok(1) h bt_get_SomeD [of H x] by fastforce
  have "hole_sep (bt_get H)" using ok(2) gH unfolding hole_sep_def by (metis option.distinct(1))
  then have IH: "e \<in> set (dropWhile (\<lambda>(o', s). u_add o' s \<le> lo) H) \<longleftrightarrow> e \<in> set H \<and> lo < fst e + snd e"
    using Cons.IH ok(1) by (simp add: holes_ok_def)
  show ?case
  proof (cases "o' + s \<le> lo")
    case True
    then show ?thesis using IH h l by auto
  next
    case False
    have "lo < fst x + snd x" if "x \<in> set H" for x
    proof -
      have "bt_get (h # H) (fst x) = Some (snd x)" using that bt_get_in [OF ok(1), of "fst x" "snd x"] by simp
      then have "o' + s < fst x" using D(5) [OF ok(2) g] that ok(1) h by auto
      then show ?thesis using False by simp
    qed
    then show ?thesis using h l False by auto
  qed
qed simp

lemma find_free_cases:
  assumes inv: "grants_inv u" and n: "0 < n" "n * 4096 < USIZE_LIM" and lo: "4096 dvd lo"
  shows "UserGrants_find_free_near u lo n = Some sp \<Longrightarrow>
      ps_count sp = n \<and> lo \<le> ps_base sp * 4096 \<and> (ps_base sp + n) * 4096 \<le> USER_END_OFFSET \<and> span_set sp \<inter> used_pages u = {}"
    and "UserGrants_find_free_near u lo n = None \<Longrightarrow> lo \<le> base * 4096 \<Longrightarrow> (base + n) * 4096 \<le> USER_END_OFFSET \<Longrightarrow>
      {base..<base + n} \<inter> used_pages u \<noteq> {}"
proof -
  let ?H = "ug_holes u"
  have H: "holes_ok ?H" "bt_ok ?H" "hole_sep (bt_get ?H)"
    and cov: "hole_cover (bt_get ?H) = {..<USER_END_OFFSET} - page_bytes (used_pages u)"
    using inv by (auto simp: grants_inv_def holes_ok_def used_pages_def)
  let ?D = "dropWhile (\<lambda>(o', s). u_add o' s \<le> lo) ?H"
  have mul: "u_mul n 4096 = n * 4096" using n(2) by simp
  show "ps_count sp = n \<and> lo \<le> ps_base sp * 4096 \<and> (ps_base sp + n) * 4096 \<le> USER_END_OFFSET \<and> span_set sp \<inter> used_pages u = {}"
    if f: "UserGrants_find_free_near u lo n = Some sp"
  proof -
    obtain o' s where e: "List.find (\<lambda>h. n * 4096 \<le> avail_size lo h) ?D = Some (o', s)"
      "sp = PageSpan_new (max o' lo div 4096) n"
      using f by (auto simp: UserGrants_find_free_near_def mul Page_containing_address_def split: option.splits)
    then have i: "(o', s) \<in> set ?D" "n * 4096 \<le> avail_size lo (o', s)"
      by (auto simp: find_Some_iff in_set_conv_nth)
    have os: "(o', s) \<in> set ?H" "lo < o' + s" using i(1) dropWhile_holes [OF H(1)] by auto
    then have g: "bt_get ?H o' = Some s" using bt_get_in [OF H(2)] by blast
    define a where "a = max o' lo"
    have av: "a + n * 4096 \<le> o' + s" using i(2) avail_size_eq [OF H(1) os] n(1) by (simp add: a_def)
    have "4096 dvd a" using lo hole_sepD(2) [OF H(3) g] by (simp add: a_def max_def)
    then have a: "a div 4096 * 4096 = a" by simp
    have "{a..<a + n * 4096} \<subseteq> hole_cover (bt_get ?H)" using av hole_coverI [of "bt_get ?H" o' s] g by (auto simp: a_def)
    moreover have "page_bytes {a div 4096..<a div 4096 + n} = {a..<a + n * 4096}"
      unfolding page_bytes_ivl add_mult_distrib a ..
    ultimately have "page_bytes ({a div 4096..<a div 4096 + n} \<inter> used_pages u) = {}"
      unfolding cov page_bytes_simps by auto
    then have "{a div 4096..<a div 4096 + n} \<inter> used_pages u = {}"
      by (auto simp: page_bytes_def) (metis div_mult_self_is_m zero_less_numeral)
    moreover have "(a div 4096 + n) * 4096 \<le> USER_END_OFFSET"
      using av hole_sepD(4) [OF H(3) g] a by (simp add: add_mult_distrib)
    ultimately show ?thesis using e(2) a by (auto simp: a_def [symmetric]) (simp add: a_def)
  qed
  show "{base..<base + n} \<inter> used_pages u \<noteq> {}"
    if f: "UserGrants_find_free_near u lo n = None" "lo \<le> base * 4096" "(base + n) * 4096 \<le> USER_END_OFFSET"
  proof
    assume d: "{base..<base + n} \<inter> used_pages u = {}"
    have "page_bytes {base..<base + n} \<inter> page_bytes (used_pages u) = {}"
      using d unfolding page_bytes_simps(3) [symmetric] by (simp add: page_bytes_def)
    then have "{base * 4096..<(base + n) * 4096} \<subseteq> hole_cover (bt_get ?H)"
      using f(3) unfolding cov page_bytes_ivl by auto
    then obtain o' s where o: "bt_get ?H o' = Some s" "o' \<le> base * 4096" "(base + n) * 4096 \<le> o' + s"
      using hole_around [OF H(3), of "base * 4096" "(base + n) * 4096"] n(1) by auto
    have os: "(o', s) \<in> set ?H" "lo < o' + s" using o f(2) n(1) bt_get_in [OF H(2)] by auto
    then have "(o', s) \<in> set ?D" using dropWhile_holes [OF H(1)] by simp
    moreover have "n * 4096 \<le> avail_size lo (o', s)" using avail_size_eq [OF H(1) os] o f(2) by simp
    ultimately have "List.find (\<lambda>h. n * 4096 \<le> avail_size lo h) ?D \<noteq> None" unfolding find_None_iff by blast
    then show False using f(1) by (auto simp: UserGrants_find_free_near_def mul split: option.splits)
  qed
qed

lemma grants_inv_new: "grants_inv UserGrants_new" "used_pages UserGrants_new = {}"
proof -
  have "hole_cover [0 \<mapsto> USER_END_OFFSET] = {..<USER_END_OFFSET}" by (auto simp: hole_cover_def)
  moreover have "hole_sep [0 \<mapsto> USER_END_OFFSET]"
    using USER_END_less(3) by (auto simp: hole_sep_def split: if_splits) (simp add: USER_END_OFFSET_def PML4_SIZE_def)
  moreover have "bt_get [(0 :: nat, USER_END_OFFSET)] = [0 \<mapsto> USER_END_OFFSET]" by (auto simp: fun_eq_iff)
  ultimately show "grants_inv UserGrants_new"
    by (simp add: grants_inv_def UserGrants_new_def holes_ok_def inner_ok_def gmap.disj_def gmap.cover_def page_bytes_def)
  show "used_pages UserGrants_new = {}" by (simp add: used_pages_def UserGrants_new_def gmap.cover_def)
qed

section \<open>Results\<close>

text \<open>
  C8: Inserting a grant over unused user pages never panics and keeps the invariant: grants stay
  disjoint and the holes stay exactly the maximal unused ranges.  Merging with neighbours is
  invisible: each page of the grant gets the attributes of the grant, every other page keeps its own.
\<close>

theorem UserGrants_insert_refines:
  assumes "grants_inv u" "grant_ok g" "(g_base g + gi_page_count (g_info g)) * 4096 \<le> USER_END_OFFSET"
    "grant_set g \<inter> used_pages u = {}"
  shows "\<exists>u'. UserGrants_insert u g = Inr u' \<and> grants_inv u' \<and> used_pages u' = used_pages u \<union> grant_set g \<and>
    (\<forall>p. page_view u' p = (if p \<in> grant_set g then Some (page_attr (g_base g) (g_info g) p) else page_view u p))"
  by (rule insert_ok [OF assms]) blast

definition example_grant :: "unit grant" where
  "example_grant = \<lparr>g_base = 16, g_info = \<lparr>gi_page_count = 4, gi_flags = (), gi_mapped = True, gi_provider = Allocated None False\<rparr>\<rparr>"

lemma example_grant_ok:
  "grant_ok example_grant" "(g_base example_grant + gi_page_count (g_info example_grant)) * 4096 \<le> USER_END_OFFSET"
  "grant_set example_grant = {16..<20}"
  by (simp_all add: example_grant_def grant_ok_def Grant_span_def span_ok_def USIZE_LIM_def USER_END_OFFSET_def
      PML4_SIZE_def grant_set_eq)

definition example_grants :: "unit user_grants" where
  "example_grants = (case UserGrants_insert UserGrants_new example_grant of Inr u \<Rightarrow> u | Inl _ \<Rightarrow> UserGrants_new)"

lemma example_grants_ok:
  "grants_inv example_grants" "used_pages example_grants = {16..<20}"
  "bt_get (ug_inner example_grants) 16 = Some (g_info example_grant)"
proof -
  have d: "grant_set example_grant \<inter> used_pages (UserGrants_new :: unit user_grants) = {}" by (simp add: grants_inv_new(2))
  obtain u' where u': "UserGrants_insert UserGrants_new example_grant = Inr u'" "grants_inv u'"
    "used_pages u' = used_pages (UserGrants_new :: unit user_grants) \<union> grant_set example_grant"
    using insert_ok [OF grants_inv_new(1) example_grant_ok(1,2) d] by metis
  then have e: "example_grants = u'" by (simp add: example_grants_def)
  show "grants_inv example_grants" "used_pages example_grants = {16..<20}"
    using u' e example_grant_ok(3) by (simp_all add: grants_inv_new(2))
  show "bt_get (ug_inner example_grants) 16 = Some (g_info example_grant)"
    unfolding example_grants_def
    by (simp add: UserGrants_insert_def UserGrants_conflicts_def UserGrants_contains_def UserGrants_new_def
        before_region_def after_region_def bt_range_lt_def bt_range_le_def bt_range_from_def next_back_def
        next_front_def Let_def example_grant_def)
qed

theorem UserGrants_insert_witness:
  "\<exists>u'. UserGrants_insert UserGrants_new example_grant = Inr u' \<and> grants_inv u' \<and> used_pages u' = {16..<20}"
  using UserGrants_insert_refines [OF grants_inv_new(1) example_grant_ok(1,2)] example_grant_ok(3)
  by (auto simp: grants_inv_new(2))

text \<open>
  C9: Removing a grant returns it, keeps the invariant (its range becomes part of the holes, joined
  with the holes on both sides), and leaves every page outside it unchanged.
\<close>

theorem UserGrants_remove_refines:
  assumes "grants_inv u" "bt_get (ug_inner u) b = Some i"
  shows "\<exists>u'. UserGrants_remove u b = (u', Some \<lparr>g_base = b, g_info = i\<rparr>) \<and> grants_inv u' \<and>
    (\<forall>p. page_view u' p = (if p \<in> {b..<b + gi_page_count i} then None else page_view u p))"
  by (rule remove_ok [OF assms]) blast

theorem UserGrants_remove_witness:
  "\<exists>u'. UserGrants_remove example_grants 16 = (u', Some \<lparr>g_base = 16, g_info = g_info example_grant\<rparr>) \<and> grants_inv u'"
  using UserGrants_remove_refines [OF example_grants_ok(1,3)] by blast

text \<open>A count whose size wraps around: what is found does not fit into user memory.\<close>

lemma find_free_wraps:
  assumes "USIZE_LIM \<le> n * 4096" "UserGrants_find_free_near u lo n = Some sp"
  shows "ps_count sp = n \<and> USER_END_OFFSET < (ps_base sp + n) * 4096"
proof -
  have "ps_count sp = n" using assms(2) by (auto simp: UserGrants_find_free_near_def split: option.splits)
  moreover have "USER_END_OFFSET < USIZE_LIM" by (simp add: USER_END_OFFSET_def PML4_SIZE_def USIZE_LIM_def)
  moreover have "n * 4096 \<le> (ps_base sp + n) * 4096" by simp
  ultimately show ?thesis using assms(1) by linarith
qed

text \<open>
  C10: The search for free pages is exact for every count whose size in bytes fits a machine word: it returns
  \<open>n\<close> unused pages of user memory at or above the minimum address, and fails only when no such run of pages
  exists.  For larger counts the size wraps around; the search never fails wrongly then, but whatever it
  returns reaches beyond user memory, so it is not free.
\<close>

theorem find_free_near_exact:
  assumes "grants_inv u" "0 < n" "4096 dvd lo"
  shows "case UserGrants_find_free_near u lo n of
      Some sp \<Rightarrow> ps_count sp = n \<and> (if n * 4096 < USIZE_LIM
        then lo \<le> ps_base sp * 4096 \<and> (ps_base sp + n) * 4096 \<le> USER_END_OFFSET \<and> span_set sp \<inter> used_pages u = {}
        else USER_END_OFFSET < (ps_base sp + n) * 4096)
    | None \<Rightarrow> (\<forall>base. lo \<le> base * 4096 \<longrightarrow> (base + n) * 4096 \<le> USER_END_OFFSET \<longrightarrow> {base..<base + n} \<inter> used_pages u \<noteq> {})"
proof (cases "n * 4096 < USIZE_LIM")
  case True
  then show ?thesis using find_free_cases [OF assms(1,2) True assms(3)] by (cases "UserGrants_find_free_near u lo n") auto
next
  case False
  have "USER_END_OFFSET < USIZE_LIM" by (simp add: USER_END_OFFSET_def PML4_SIZE_def USIZE_LIM_def)
  then have "\<not> (base + n) * 4096 \<le> USER_END_OFFSET" for base using False by (simp add: add_mult_distrib)
  then show ?thesis using False find_free_wraps [of n u lo] by (auto split: option.splits)
qed

theorem find_free_near_witness:
  "(\<exists>sp. UserGrants_find_free_near example_grants 4096 8 = Some sp \<and> span_set sp \<inter> {16..<20} = {}) \<and>
   (\<exists>sp. UserGrants_find_free_near (UserGrants_new :: unit user_grants) 4096 4503599627370496 = Some sp \<and> USER_END_OFFSET < (ps_base sp + 4503599627370496) * 4096)"
proof
  note f = find_free_near_exact [OF example_grants_ok(1)]
  show "\<exists>sp. UserGrants_find_free_near example_grants 4096 8 = Some sp \<and> span_set sp \<inter> {16..<20} = {}"
  proof (cases "UserGrants_find_free_near example_grants 4096 8")
    case None
    then have "{32..<32 + 8} \<inter> used_pages example_grants \<noteq> {}"
      using f [of 8 4096, unfolded None option.case, rule_format, of 32] by (simp add: USER_END_OFFSET_def PML4_SIZE_def)
    then show ?thesis using example_grants_ok(2) by auto
  next
    case (Some sp)
    then show ?thesis using f [of 8 4096] example_grants_ok(2) by (auto simp: USIZE_LIM_def)
  qed
  have "UserGrants_find_free_near (UserGrants_new :: unit user_grants) 4096 4503599627370496 \<noteq> None"
    by (simp add: UserGrants_find_free_near_def UserGrants_new_def avail_size_def u_mul_def u_add_def USIZE_LIM_def USER_END_OFFSET_def PML4_SIZE_def)
  then show "\<exists>sp. UserGrants_find_free_near (UserGrants_new :: unit user_grants) 4096 4503599627370496 = Some sp \<and> USER_END_OFFSET < (ps_base sp + 4503599627370496) * 4096"
  proof (elim not_None_eq [THEN iffD1, THEN exE])
    fix sp assume sp: "UserGrants_find_free_near (UserGrants_new :: unit user_grants) 4096 4503599627370496 = Some sp"
    have "\<not> 4503599627370496 * 4096 < USIZE_LIM" by (simp add: USIZE_LIM_def)
    then have "USER_END_OFFSET < (ps_base sp + 4503599627370496) * 4096"
      using find_free_near_exact [of "UserGrants_new :: unit user_grants" 4503599627370496 4096, OF grants_inv_new(1), unfolded sp option.case] by simp
    with sp show ?thesis by blast
  qed
qed

text \<open>
  \<open>conflicts\<close> yields, in order, exactly the grants that overlap a span, although it inspects
  only a neighbourhood of its base and stops at the first grant beyond it.
\<close>

theorem conflicts_exact:
  assumes "grants_inv u" "span_ok s" "\<not> PageSpan_is_empty s"
  shows "UserGrants_conflicts u s =
    filter (\<lambda>(b, i). {b..<b + gi_page_count i} \<inter> span_set s \<noteq> {}) (ug_inner u)"
  using conflicts_eq [of u s] assms by (simp add: grants_inv_def PageSpan_is_empty_def)

theorem conflicts_exact_witness:
  "UserGrants_conflicts example_grants \<lparr>ps_base = 18, ps_count = 10\<rparr> =
    filter (\<lambda>(b, i). {b..<b + gi_page_count i} \<inter> span_set \<lparr>ps_base = 18, ps_count = 10\<rparr> \<noteq> {}) (ug_inner example_grants)"
  by (rule conflicts_exact [OF example_grants_ok(1)]) (simp_all add: span_ok_def USIZE_LIM_def PageSpan_is_empty_def)

end
