(* ===== verification/Cpu_Set.thy ===== *)
theory Cpu_Set
  imports Kernel_Prelude
begin

text \<open>
  Sets of logical CPUs as bit masks (\<open>src/src/cpu_set.rs\<close>).  The abstraction
  \<open>cpu_abs\<close> is the set of CPU numbers; membership, insertion, removal and iteration are shown to be
  the set operations, and numbers beyond the capacity panic.
\<close>

unbundle bit_operations_syntax

section \<open>Operations\<close>

definition MAX_CPU_COUNT :: nat where "MAX_CPU_COUNT = 128"
definition SET_WORDS :: nat where "SET_WORDS = MAX_CPU_COUNT div 64"

type_synonym cpu_set = "usize list"

definition cpu_parts :: "nat \<Rightarrow> nat \<times> nat" where
  "cpu_parts id' = (id' div 64, id' mod 64)"

definition CpuSet_empty :: cpu_set where "CpuSet_empty = replicate SET_WORDS 0"
definition CpuSet_all :: cpu_set where "CpuSet_all = replicate SET_WORDS (NOT 0)"

definition CpuSet_contains :: "cpu_set \<Rightarrow> nat \<Rightarrow> bool exec" where
  "CpuSet_contains s id' = (case cpu_parts id' of (word, b) \<Rightarrow>
     bindE (indexE s word) (\<lambda>w. Inr (w AND push_bit b 1 \<noteq> 0)))"

definition CpuSet_atomic_set :: "cpu_set \<Rightarrow> nat \<Rightarrow> cpu_set exec" where
  "CpuSet_atomic_set s id' = (case cpu_parts id' of (word, b) \<Rightarrow>
     bindE (indexE s word) (\<lambda>w. Inr (s[word := w OR push_bit b 1])))"

definition CpuSet_atomic_clear :: "cpu_set \<Rightarrow> nat \<Rightarrow> cpu_set exec" where
  "CpuSet_atomic_clear s id' = (case cpu_parts id' of (word, b) \<Rightarrow>
     bindE (indexE s word) (\<lambda>w. Inr (s[word := w AND NOT (push_bit b 1)])))"

definition CpuSet_override_from :: "cpu_set \<Rightarrow> usize list \<Rightarrow> cpu_set" where
  "CpuSet_override_from s raw = raw"

definition CpuSet_to_raw :: "cpu_set \<Rightarrow> usize list" where
  "CpuSet_to_raw s = s"

definition CpuSet_iter :: "cpu_set \<Rightarrow> nat list" where
  "CpuSet_iter s = concat (map (\<lambda>(i, w).
     concat (map (\<lambda>b. if w AND push_bit b 1 \<noteq> 0 then [i * 64 + b] else []) [0..<64])) (enumerate 0 s))"

text \<open>\<open>write!(ret, "{word:x}")\<close>\<close>

definition hex_digit :: "nat \<Rightarrow> char" where
  "hex_digit d = (if d < 10 then char_of (48 + d) else char_of (87 + d))"

fun hex_string :: "nat \<Rightarrow> string" where
  "hex_string n = (if n < 16 then [hex_digit n] else hex_string (n div 16) @ [hex_digit (n mod 16)])"

declare hex_string.simps [simp del]

fun cpu_words_string :: "nat \<Rightarrow> nat \<Rightarrow> nat \<Rightarrow> usize list \<Rightarrow> string" where
  "cpu_words_string cpu_count len i [] = []"
| "cpu_words_string cpu_count len i (w # ws) =
     (if i \<noteq> 0 then ''_'' else []) @
     hex_string (unat (if i = len - 1 then w AND (push_bit (cpu_count mod 64) 1 - 1) else w)) @
     cpu_words_string cpu_count len (Suc i) ws"

definition CpuSet_to_string :: "cpu_set \<Rightarrow> nat \<Rightarrow> string" where
  "CpuSet_to_string s cpu_count =
     (let words = (if cpu_count div 64 \<le> length (CpuSet_to_raw s) then take (cpu_count div 64) (CpuSet_to_raw s) else [])
      in cpu_words_string cpu_count (length words) 0 words)"

section \<open>The set of CPUs\<close>

definition cpu_abs :: "cpu_set \<Rightarrow> nat set" where
  "cpu_abs s = {i. i < MAX_CPU_COUNT \<and> bit (s ! (i div 64)) (i mod 64)}"

lemma cpu_consts [simp]: "MAX_CPU_COUNT = 128" "SET_WORDS = 2"
  by (simp_all add: MAX_CPU_COUNT_def SET_WORDS_def)

lemma and_bit_zero: "w AND 2 ^ b = 0 \<longleftrightarrow> \<not> bit w b" for w :: usize
  using bit_iff_and_push_bit_not_eq_0 [of w b] by simp

lemma contains_abs:
  assumes "length s = SET_WORDS" "i < MAX_CPU_COUNT"
  shows "CpuSet_contains s i = Inr (i \<in> cpu_abs s)"
  using assms by (simp add: CpuSet_contains_def cpu_parts_def indexE_def cpu_abs_def and_bit_zero)

lemma update_word_abs:
  assumes "length s = 2" "i < 128" "\<And>n. n < 64 \<Longrightarrow> bit w n \<longleftrightarrow> (if n = i mod 64 then v else bit (s ! (i div 64)) n)"
  shows "cpu_abs (s[i div 64 := w]) = (if v then insert i (cpu_abs s) else cpu_abs s - {i})"
proof -
  have l: "i div 64 < length s" using assms(1,2) by simp
  have m: "j \<in> cpu_abs (s[i div 64 := w]) \<longleftrightarrow> (if j = i then v else j \<in> cpu_abs s)" for j
  proof (cases "j div 64 = i div 64")
    case True
    then have "j = i \<longleftrightarrow> j mod 64 = i mod 64" by (metis div_mult_mod_eq)
    then show ?thesis using l True assms(2) assms(3) [of "j mod 64"] by (auto simp: cpu_abs_def)
  next
    case False
    then have "s[i div 64 := w] ! (j div 64) = s ! (j div 64)" "j \<noteq> i" by auto
    then show ?thesis by (simp add: cpu_abs_def)
  qed
  show ?thesis by (rule set_eqI, subst m) (cases v; simp)
qed

lemma atomic_set_abs:
  assumes "length s = SET_WORDS" "i < MAX_CPU_COUNT"
  shows "\<exists>s'. CpuSet_atomic_set s i = Inr s' \<and> length s' = SET_WORDS \<and> cpu_abs s' = insert i (cpu_abs s)"
proof -
  let ?w = "s ! (i div 64) OR 2 ^ (i mod 64)"
  have "cpu_abs (s[i div 64 := ?w]) = (if True then insert i (cpu_abs s) else cpu_abs s - {i})"
    by (rule update_word_abs) (use assms in \<open>auto simp: bit_or_iff bit_exp_iff\<close>)
  then show ?thesis using assms by (simp add: CpuSet_atomic_set_def cpu_parts_def indexE_def)
qed

lemma atomic_clear_abs:
  assumes "length s = SET_WORDS" "i < MAX_CPU_COUNT"
  shows "\<exists>s'. CpuSet_atomic_clear s i = Inr s' \<and> length s' = SET_WORDS \<and> cpu_abs s' = cpu_abs s - {i}"
proof -
  let ?w = "s ! (i div 64) AND NOT (2 ^ (i mod 64))"
  have "cpu_abs (s[i div 64 := ?w]) = (if False then insert i (cpu_abs s) else cpu_abs s - {i})"
    by (rule update_word_abs) (use assms in \<open>auto simp: bit_and_iff bit_not_iff bit_exp_iff\<close>)
  then show ?thesis using assms by (simp add: CpuSet_atomic_clear_def cpu_parts_def indexE_def)
qed

lemma word_ids:
  "concat (map (\<lambda>b. if w AND 2 ^ b \<noteq> 0 then [i * 64 + b] else []) [0..<64]) =
   map (\<lambda>b. i * 64 + b) (filter (bit w) [0..<64])" for w :: usize
proof -
  have "concat (map (\<lambda>b. if w AND 2 ^ b \<noteq> 0 then [i * 64 + b] else []) bs) = map (\<lambda>b. i * 64 + b) (filter (bit w) bs)" for bs
    by (induction bs) (simp_all add: and_bit_zero)
  then show ?thesis .
qed

lemma iter_two:
  assumes "length s = SET_WORDS"
  obtains a b where "s = [a, b]" "CpuSet_iter s = filter (bit a) [0..<64] @ map (\<lambda>n. 64 + n) (filter (bit b) [0..<64])"
proof -
  obtain a b where s: "s = [a, b]" using assms by (auto simp: numeral_2_eq_2 length_Suc_conv)
  have m: "map ((+) 0) xs = xs" for xs :: "nat list" by (induction xs) simp_all
  have "CpuSet_iter s = map (\<lambda>b. 0 * 64 + b) (filter (bit a) [0..<64]) @ map (\<lambda>b. 1 * 64 + b) (filter (bit b) [0..<64])"
    unfolding CpuSet_iter_def s by (simp add: word_ids m del: upt_Suc)
  then show thesis using that s by (simp add: m)
qed

lemma iter_set:
  assumes "length s = SET_WORDS"
  shows "set (CpuSet_iter s) = cpu_abs s"
proof -
  obtain a b where s: "s = [a, b]" "CpuSet_iter s = filter (bit a) [0..<64] @ map (\<lambda>n. 64 + n) (filter (bit b) [0..<64])"
    using assms by (rule iter_two)
  have "x \<in> cpu_abs s \<longleftrightarrow> x < 64 \<and> bit a x \<or> 64 \<le> x \<and> x < 128 \<and> bit b (x - 64)" for x
    by (cases "x < 64") (auto simp: cpu_abs_def s(1) nth_Cons' div_eq_0_iff le_div_geq le_mod_geq)
  moreover have "x \<in> (+) 64 ` {n. n < 64 \<and> bit b n} \<longleftrightarrow> 64 \<le> x \<and> x < 128 \<and> bit b (x - 64)" for x
    by (auto intro!: image_eqI [of _ _ "x - 64"])
  ultimately show ?thesis unfolding s(2) by (auto simp del: upt_Suc)
qed

lemma iter_sorted:
  assumes "length s = SET_WORDS"
  shows "sorted_wrt (<) (CpuSet_iter s)"
proof -
  obtain a b where s: "s = [a, b]" "CpuSet_iter s = filter (bit a) [0..<64] @ map (\<lambda>n. 64 + n) (filter (bit b) [0..<64])"
    using assms by (rule iter_two)
  then show ?thesis
    by (simp del: upt_Suc add: sorted_wrt_append sorted_wrt_map sorted_wrt_filter)
qed

section \<open>Results\<close>

text \<open>
  The bit mask is a faithful set of the CPUs \<open>0..127\<close>: setting and clearing are insertion and
  removal, membership is exact, and the iterator yields every member once, in increasing order.
\<close>

theorem CpuSet_refines:
  assumes "length s = SET_WORDS" "i < MAX_CPU_COUNT"
  shows "CpuSet_contains s i = Inr (i \<in> cpu_abs s) \<and>
    (\<exists>s'. CpuSet_atomic_set s i = Inr s' \<and> length s' = SET_WORDS \<and> cpu_abs s' = insert i (cpu_abs s)) \<and>
    (\<exists>s'. CpuSet_atomic_clear s i = Inr s' \<and> length s' = SET_WORDS \<and> cpu_abs s' = cpu_abs s - {i}) \<and>
    set (CpuSet_iter s) = cpu_abs s \<and> sorted_wrt (<) (CpuSet_iter s)"
  using contains_abs [OF assms] atomic_set_abs [OF assms] atomic_clear_abs [OF assms] iter_set [OF assms(1)]
    iter_sorted [OF assms(1)] by blast

theorem CpuSet_refines_witness:
  "\<exists>s'. CpuSet_atomic_set CpuSet_empty 77 = Inr s' \<and> cpu_abs s' = {77}"
proof -
  have "cpu_abs CpuSet_empty = {}" by (auto simp: cpu_abs_def CpuSet_empty_def)
  then show ?thesis using CpuSet_refines [of CpuSet_empty 77] by (auto simp: CpuSet_empty_def)
qed

text \<open>
  On a machine with fewer than 64 CPUs the textual form of every CPU set is empty, because the
  number of printed words is rounded down.
\<close>

theorem CpuSet_to_string_empty:
  assumes "cpu_count < 64"
  shows "CpuSet_to_string s cpu_count = []"
  using assms by (simp add: CpuSet_to_string_def)

theorem CpuSet_to_string_witness: "CpuSet_to_string CpuSet_all 4 = []"
  by (rule CpuSet_to_string_empty) simp

end
