(* ===== verification/Tlb_Flush.thy ===== *)
theory Tlb_Flush
  imports Frame_Refs Cpu_Set Grant_Info
begin

text \<open>
  Deferred frees and TLB shootdown (\<open>Flusher\<close>, \<open>NopFlusher\<close> and
  \<open>TlbShootdownActions\<close> in \<open>src/src/context/memory.rs\<close>).  What a flush does to other processors
  is recorded as a list of events, so that the order of shootdowns and frees can be stated.
\<close>

section \<open>Operations\<close>

record tlb_actions =
  TLB_FREE :: bool
  TLB_REVOKE_READ :: bool
  TLB_REVOKE_WRITE :: bool
  TLB_REVOKE_EXEC :: bool
  TLB_MOVE :: bool
  TLB_NEW_MAPPING :: bool

definition TLB_NONE :: tlb_actions where
  "TLB_NONE = \<lparr>TLB_FREE = False, TLB_REVOKE_READ = False, TLB_REVOKE_WRITE = False, TLB_REVOKE_EXEC = False,
     TLB_MOVE = False, TLB_NEW_MAPPING = False\<rparr>"

definition change_of_flags :: "'f flag_ops \<Rightarrow> 'f \<Rightarrow> 'f \<Rightarrow> tlb_actions" where
  "change_of_flags F old new =
     TLB_NONE\<lparr>TLB_REVOKE_WRITE := pf_has_write F old \<and> \<not> pf_has_write F new,
              TLB_REVOKE_EXEC := pf_has_execute F old \<and> \<not> pf_has_execute F new\<rparr>"

datatype page_queue_entry = FreeEntry frame "nat option" | OtherEntry tlb_actions

datatype tlb_event = ResetAck | Ipi nat | LocalFlush | AwaitAcks nat | FrameFreed frame "nat option"

record flusher =
  fl_active_cpus :: cpu_set
  fl_pagequeue :: "page_queue_entry list"
  fl_dirty :: bool

definition QUEUE_CAPACITY :: nat where "QUEUE_CAPACITY = 32"

definition Flusher_with_cpu_set :: "cpu_set \<Rightarrow> flusher" where
  "Flusher_with_cpu_set s = \<lparr>fl_active_cpus = s, fl_pagequeue = [], fl_dirty = False\<rparr>"

fun free_entries :: "page_queue_entry list \<Rightarrow> (frame \<times> nat option) list" where
  "free_entries [] = []"
| "free_entries (FreeEntry b c # es) = (b, c) # free_entries es"
| "free_entries (OtherEntry _ # es) = free_entries es"

fun free_all :: "(frame \<times> nat option) list \<Rightarrow> allocator \<Rightarrow> allocator exec" where
  "free_all [] a = Inr a"
| "free_all ((b, c) # es) a = bindE (handle_free_action b c a) (free_all es)"

text \<open>
  The shootdown: reset the acknowledgement counter, interrupt the other processors that use the
  address space, flush the own TLB, wait for the acknowledgements.
\<close>

definition shootdown :: "nat \<Rightarrow> cpu_set \<Rightarrow> tlb_event list exec" where
  "shootdown current_cpu_id cpus =
     (let others = filter (\<lambda>c. c \<noteq> current_cpu_id) (CpuSet_iter cpus) in
      bindE (CpuSet_contains cpus current_cpu_id) (\<lambda>mine.
        Inr (ResetAck # map Ipi others @ (if mine then [LocalFlush] else []) @ [AwaitAcks (length others)])))"

definition Flusher_flush ::
    "nat \<Rightarrow> flusher \<Rightarrow> allocator \<Rightarrow> (flusher \<times> allocator \<times> tlb_event list) exec" where
  "Flusher_flush current_cpu_id f a =
     (let pages = fl_pagequeue f; f = f\<lparr>fl_pagequeue := []\<rparr> in
      if pages = [] \<and> \<not> fl_dirty f then Inr (f, a, [])
      else
        (let f = (if pages = [] then f\<lparr>fl_dirty := False\<rparr> else f) in
         bindE (shootdown current_cpu_id (fl_active_cpus f)) (\<lambda>evs.
         bindE (free_all (free_entries pages) a) (\<lambda>a.
           Inr (f, a, evs @ map (\<lambda>(b, c). FrameFreed b c) (free_entries pages))))))"

definition Flusher_queue ::
    "nat \<Rightarrow> frame \<Rightarrow> nat option \<Rightarrow> tlb_actions \<Rightarrow> flusher \<Rightarrow> allocator \<Rightarrow> (flusher \<times> allocator \<times> tlb_event list) exec" where
  "Flusher_queue current_cpu_id frame phys_contiguous_count actions f a =
     (let actions = actions\<lparr>TLB_NEW_MAPPING := False\<rparr>;
          entry = (if TLB_FREE actions then FreeEntry frame phys_contiguous_count else OtherEntry actions);
          f = f\<lparr>fl_dirty := True\<rparr> in
      bindE (if length (fl_pagequeue f) = QUEUE_CAPACITY then Flusher_flush current_cpu_id f a else Inr (f, a, [])) (\<lambda>(f, a, evs).
        Inr (f\<lparr>fl_pagequeue := fl_pagequeue f @ [entry]\<rparr>, a, evs)))"

definition NopFlusher_queue :: "frame \<Rightarrow> nat option \<Rightarrow> tlb_actions \<Rightarrow> allocator \<Rightarrow> allocator exec" where
  "NopFlusher_queue frame phys_contiguous_count actions a =
     (if TLB_FREE actions then handle_free_action frame phys_contiguous_count a else Inr a)"

section \<open>A whole use of a flusher\<close>

text \<open>The calls between the construction of a flusher and its \<open>drop\<close>, which flushes.\<close>

type_synonym flush_call = "frame \<times> nat option \<times> tlb_actions"

fun flusher_calls ::
    "nat \<Rightarrow> flush_call list \<Rightarrow> flusher \<Rightarrow> allocator \<Rightarrow> (flusher \<times> allocator \<times> tlb_event list) exec" where
  "flusher_calls cpu [] f a = Flusher_flush cpu f a"
| "flusher_calls cpu ((b, c, act) # cs) f a =
     bindE (Flusher_queue cpu b c act f a) (\<lambda>(f, a, evs).
     bindE (flusher_calls cpu cs f a) (\<lambda>(f, a, evs'). Inr (f, a, evs @ evs')))"

fun nop_calls :: "flush_call list \<Rightarrow> allocator \<Rightarrow> allocator exec" where
  "nop_calls [] a = Inr a"
| "nop_calls ((b, c, act) # cs) a = bindE (NopFlusher_queue b c act a) (nop_calls cs)"

definition call_frees :: "flush_call list \<Rightarrow> (frame \<times> nat option) list" where
  "call_frees cs = map (\<lambda>(b, c, act). (b, c)) (filter (\<lambda>(b, c, act). TLB_FREE act) cs)"

fun event_frees :: "tlb_event list \<Rightarrow> (frame \<times> nat option) list" where
  "event_frees [] = []"
| "event_frees (FrameFreed b c # es) = (b, c) # event_frees es"
| "event_frees (_ # es) = event_frees es"

text \<open>
  Every free is preceded, in the same flush, by the shootdown of all processors: in the events, a run
  of frees always follows a completed shootdown.
\<close>

fun frees_guarded :: "bool \<Rightarrow> tlb_event list \<Rightarrow> bool" where
  "frees_guarded ok [] \<longleftrightarrow> True"
| "frees_guarded ok (FrameFreed b c # es) \<longleftrightarrow> ok \<and> frees_guarded ok es"
| "frees_guarded ok (AwaitAcks n # es) \<longleftrightarrow> frees_guarded True es"
| "frees_guarded ok (_ # es) \<longleftrightarrow> frees_guarded False es"

section \<open>Lemmas\<close>

lemma event_frees_append [simp]: "event_frees (xs @ ys) = event_frees xs @ event_frees ys"
  by (induction xs rule: event_frees.induct) auto

lemma event_frees_map [simp]: "event_frees (map (\<lambda>(b, c). FrameFreed b c) xs) = xs"
  by (induction xs) auto

lemma free_entries_append [simp]: "free_entries (xs @ ys) = free_entries xs @ free_entries ys"
  by (induction xs rule: free_entries.induct) auto

lemma free_all_append: "free_all (xs @ ys) = (\<lambda>a. bindE (free_all xs a) (free_all ys))"
proof (induction xs)
  case (Cons e xs)
  show ?case by (rule ext) (cases e, simp add: Cons bindE_assoc)
qed simp

lemma nop_calls_eq: "nop_calls cs = free_all (call_frees cs)"
proof (induction cs)
  case (Cons e cs)
  obtain b c act where e: "e = (b, c, act)" by (cases e)
  show ?case by (rule ext) (simp add: e Cons call_frees_def NopFlusher_queue_def)
qed (auto simp: call_frees_def)

lemma guarded_frees: "frees_guarded True (map (\<lambda>(b, c). FrameFreed b c) xs @ es) = frees_guarded True es"
  by (induction xs) auto

lemma guarded_ipis: "frees_guarded ok (map Ipi cs @ es) = (if cs = [] then frees_guarded ok es else frees_guarded False es)"
  by (induction cs arbitrary: ok) auto

lemma shootdown_ok:
  assumes "length s = SET_WORDS" "cpu < MAX_CPU_COUNT"
  obtains evs where "shootdown cpu s = Inr evs" "event_frees evs = []"
    "\<And>ok es. frees_guarded ok (evs @ map (\<lambda>(b, c). FrameFreed b c) xs @ es) = frees_guarded True es"
    "\<forall>c\<in>cpu_abs s. c = cpu \<and> LocalFlush \<in> set evs \<or> c \<noteq> cpu \<and> Ipi c \<in> set evs"
proof -
  let ?o = "filter (\<lambda>c. c \<noteq> cpu) (CpuSet_iter s)" and ?m = "cpu \<in> cpu_abs s"
  let ?e = "ResetAck # map Ipi ?o @ (if ?m then [LocalFlush] else []) @ [AwaitAcks (length ?o)]"
  have run: "shootdown cpu s = Inr ?e" by (simp add: shootdown_def contains_abs [OF assms] Let_def)
  have "event_frees (map Ipi cs) = []" for cs by (induction cs) auto
  then have "event_frees ?e = []" by simp
  moreover have "frees_guarded ok (?e @ map (\<lambda>(b, c). FrameFreed b c) xs @ es) = frees_guarded True es" for ok es
    by (simp add: guarded_ipis guarded_frees)
  moreover have "\<forall>c\<in>cpu_abs s. c = cpu \<and> LocalFlush \<in> set ?e \<or> c \<noteq> cpu \<and> Ipi c \<in> set ?e"
    using iter_set [OF assms(1)] by auto
  ultimately show thesis using that [OF run] by blast
qed

lemma flush_ok:
  assumes "length (fl_active_cpus f) = SET_WORDS" "cpu < MAX_CPU_COUNT"
  shows "\<exists>d evs. event_frees evs = free_entries (fl_pagequeue f) \<and>
    (\<forall>ok es. frees_guarded True es \<longrightarrow> (evs = [] \<longrightarrow> frees_guarded ok es) \<longrightarrow> frees_guarded ok (evs @ es)) \<and>
    (\<forall>a. Flusher_flush cpu f a = bindE (free_all (free_entries (fl_pagequeue f)) a)
      (\<lambda>a. Inr (f\<lparr>fl_pagequeue := [], fl_dirty := d\<rparr>, a, evs)))"
proof (cases "fl_pagequeue f = [] \<and> \<not> fl_dirty f")
  case True
  then show ?thesis by (intro exI [of _ "fl_dirty f"] exI [of _ "[]"]) (simp add: Flusher_flush_def Let_def)
next
  case False
  let ?fr = "free_entries (fl_pagequeue f)"
  obtain evs where e: "shootdown cpu (fl_active_cpus f) = Inr evs" "event_frees evs = []"
    "\<And>ok es. frees_guarded ok (evs @ map (\<lambda>(b, c). FrameFreed b c) ?fr @ es) = frees_guarded True es"
    using shootdown_ok [OF assms, of ?fr] by metis
  show ?thesis
    by (intro exI [of _ "fl_pagequeue f \<noteq> [] \<and> fl_dirty f"] exI [of _ "evs @ map (\<lambda>(b, c). FrameFreed b c) ?fr"])
      (use False e in \<open>auto simp: Flusher_flush_def Let_def\<close>)
qed

lemma call_frees_Cons:
  "call_frees ((b, c, act) # cs) = (if TLB_FREE act then [(b, c)] else []) @ call_frees cs"
  by (simp add: call_frees_def)

lemma guarded_mono: "frees_guarded False es \<Longrightarrow> frees_guarded ok es"
  by (induction es arbitrary: ok rule: event_frees.induct) auto

lemma queue_ok:
  assumes "length (fl_active_cpus f) = SET_WORDS" "cpu < MAX_CPU_COUNT"
  shows "\<exists>f' evs. length (fl_active_cpus f') = SET_WORDS \<and>
    (\<forall>es. frees_guarded False es \<longrightarrow> frees_guarded False (evs @ es)) \<and>
    event_frees evs @ free_entries (fl_pagequeue f') = free_entries (fl_pagequeue f) @ (if TLB_FREE act then [(b, c)] else []) \<and>
    (\<forall>a. Flusher_queue cpu b c act f a = bindE (free_all (event_frees evs) a) (\<lambda>a. Inr (f', a, evs)))"
proof -
  let ?act = "act\<lparr>TLB_NEW_MAPPING := False\<rparr>" and ?f = "f\<lparr>fl_dirty := True\<rparr>"
  let ?e = "if TLB_FREE ?act then FreeEntry b c else OtherEntry ?act"
  have fe: "free_entries [?e] = (if TLB_FREE act then [(b, c)] else [])" by simp
  show ?thesis
  proof (cases "length (fl_pagequeue f) = QUEUE_CAPACITY")
    case False
    let ?g = "?f\<lparr>fl_pagequeue := fl_pagequeue f @ [?e]\<rparr>"
    show ?thesis using False assms(1)
      by (intro exI [of _ ?g] exI [of _ "[]"]) (simp add: Flusher_queue_def Let_def)
  next
    case True
    obtain d evs where e: "event_frees evs = free_entries (fl_pagequeue f)"
      "\<forall>ok es. frees_guarded True es \<longrightarrow> (evs = [] \<longrightarrow> frees_guarded ok es) \<longrightarrow> frees_guarded ok (evs @ es)"
      "\<forall>a. Flusher_flush cpu ?f a = bindE (free_all (free_entries (fl_pagequeue f)) a)
        (\<lambda>a. Inr (?f\<lparr>fl_pagequeue := [], fl_dirty := d\<rparr>, a, evs))"
      using flush_ok [of ?f cpu] assms by auto
    let ?g = "f\<lparr>fl_dirty := d, fl_pagequeue := [?e]\<rparr>"
    have "Flusher_queue cpu b c act f a = bindE (free_all (event_frees evs) a) (\<lambda>a. Inr (?g, a, evs))" for a
      using True e(1,3) by (simp add: Flusher_queue_def Let_def bindE_assoc)
    then show ?thesis using assms(1) e(1,2) guarded_mono fe
      by (intro exI [of _ ?g] exI [of _ evs]) auto
  qed
qed

lemma calls_ok:
  assumes "length (fl_active_cpus f) = SET_WORDS" "cpu < MAX_CPU_COUNT"
  shows "\<exists>f' evs. event_frees evs = free_entries (fl_pagequeue f) @ call_frees cs \<and> frees_guarded False evs \<and>
    (\<forall>a. flusher_calls cpu cs f a = bindE (free_all (event_frees evs) a) (\<lambda>a. Inr (f', a, evs)))"
  using assms(1)
proof (induction cs arbitrary: f)
  case Nil
  obtain d evs where "event_frees evs = free_entries (fl_pagequeue f)"
    "\<forall>ok es. frees_guarded True es \<longrightarrow> (evs = [] \<longrightarrow> frees_guarded ok es) \<longrightarrow> frees_guarded ok (evs @ es)"
    "\<forall>a. Flusher_flush cpu f a = bindE (free_all (free_entries (fl_pagequeue f)) a)
      (\<lambda>a. Inr (f\<lparr>fl_pagequeue := [], fl_dirty := d\<rparr>, a, evs))"
    using flush_ok [OF Nil assms(2)] by blast
  moreover from this(2) have "frees_guarded False (evs @ [])" by (metis frees_guarded.simps(1))
  ultimately show ?case
    by (intro exI [of _ "f\<lparr>fl_pagequeue := [], fl_dirty := d\<rparr>"] exI [of _ evs]) (simp add: call_frees_def)
next
  case (Cons call cs)
  obtain b c act where call: "call = (b, c, act)" by (cases call)
  obtain f1 evs1 where q: "length (fl_active_cpus f1) = SET_WORDS"
    "\<forall>es. frees_guarded False es \<longrightarrow> frees_guarded False (evs1 @ es)"
    "event_frees evs1 @ free_entries (fl_pagequeue f1) = free_entries (fl_pagequeue f) @ (if TLB_FREE act then [(b, c)] else [])"
    "\<forall>a. Flusher_queue cpu b c act f a = bindE (free_all (event_frees evs1) a) (\<lambda>a. Inr (f1, a, evs1))"
    using queue_ok [OF Cons.prems assms(2), of act b c] by blast
  obtain f2 evs2 where r: "event_frees evs2 = free_entries (fl_pagequeue f1) @ call_frees cs" "frees_guarded False evs2"
    "\<forall>a. flusher_calls cpu cs f1 a = bindE (free_all (event_frees evs2) a) (\<lambda>a. Inr (f2, a, evs2))"
    using Cons.IH [OF q(1)] by blast
  have "flusher_calls cpu (call # cs) f a = bindE (free_all (event_frees (evs1 @ evs2)) a) (\<lambda>a. Inr (f2, a, evs1 @ evs2))" for a
    using q(4) r(3) by (simp add: call bindE_assoc free_all_append)
  moreover have "event_frees (evs1 @ evs2) = free_entries (fl_pagequeue f) @ call_frees (call # cs)"
    using q(3) r(1) by (simp add: call call_frees_Cons flip: append_assoc)
  moreover have "frees_guarded False (evs1 @ evs2)" using q(2) r(2) by blast
  ultimately show ?case by blast
qed

section \<open>Results\<close>

text \<open>
  C12: A flusher loses nothing and frees nothing early.  Whatever is queued, across any number of
  intermediate flushes of the 32-entry queue, by the time the flusher is dropped exactly the frames
  queued for freeing have been freed, once each and in order, with the same effect on the allocator
  as freeing them at once, and every free happens after a shootdown in its own flush has been
  acknowledged.
\<close>

theorem flusher_defers_frees:
  assumes "length s = SET_WORDS" "cpu < MAX_CPU_COUNT"
  shows "\<exists>f' evs. event_frees evs = call_frees cs \<and> frees_guarded False evs \<and>
    flusher_calls cpu cs (Flusher_with_cpu_set s) a = bindE (nop_calls cs a) (\<lambda>a'. Inr (f', a', evs))"
proof -
  have "length (fl_active_cpus (Flusher_with_cpu_set s)) = SET_WORDS"
    "free_entries (fl_pagequeue (Flusher_with_cpu_set s)) = []"
    using assms(1) by (simp_all add: Flusher_with_cpu_set_def)
  with calls_ok [OF this(1) assms(2), of cs] show ?thesis
    unfolding nop_calls_eq by (metis append_Nil)
qed

theorem flusher_defers_frees_witness:
  "\<exists>f' evs. event_frees evs = [(pframe 1024, None)] \<and> frees_guarded False evs \<and>
    flusher_calls 0 [(pframe 1024, None, TLB_NONE\<lparr>TLB_FREE := True\<rparr>)] (Flusher_with_cpu_set CpuSet_all) example_used =
      bindE (nop_calls [(pframe 1024, None, TLB_NONE\<lparr>TLB_FREE := True\<rparr>)] example_used) (\<lambda>a'. Inr (f', a', evs))"
  using flusher_defers_frees [of CpuSet_all 0 "[(pframe 1024, None, TLB_NONE\<lparr>TLB_FREE := True\<rparr>)]" example_used]
  by (simp add: CpuSet_all_def call_frees_def)

text \<open>
  The shootdown reaches every processor that uses the address space: its own TLB is flushed, and
  every other one is interrupted and waited for.
\<close>

theorem shootdown_reaches_all:
  assumes "length s = SET_WORDS" "cpu < MAX_CPU_COUNT"
  shows "\<exists>evs. shootdown cpu s = Inr evs \<and>
    (\<forall>c\<in>cpu_abs s. if c = cpu then LocalFlush \<in> set evs else Ipi c \<in> set evs) \<and>
    last evs = AwaitAcks (card (cpu_abs s - {cpu}))"
proof -
  let ?o = "filter (\<lambda>c. c \<noteq> cpu) (CpuSet_iter s)"
  have run: "shootdown cpu s = Inr (ResetAck # map Ipi ?o @ (if cpu \<in> cpu_abs s then [LocalFlush] else []) @ [AwaitAcks (length ?o)])"
    by (simp add: shootdown_def contains_abs [OF assms] Let_def)
  have "distinct (CpuSet_iter s)" using iter_sorted [OF assms(1)] by (simp add: strict_sorted_iff)
  then have "length ?o = card (set ?o)" by (intro distinct_card [symmetric] distinct_filter)
  moreover have "set ?o = cpu_abs s - {cpu}" using iter_set [OF assms(1)] by auto
  ultimately show ?thesis unfolding run using iter_set [OF assms(1)] by auto
qed

theorem shootdown_reaches_all_witness:
  "\<exists>evs. shootdown 3 CpuSet_all = Inr evs \<and> Ipi 5 \<in> set evs"
proof -
  have "5 \<in> cpu_abs CpuSet_all" by (simp add: cpu_abs_def CpuSet_all_def bit_not_iff)
  then show ?thesis using shootdown_reaches_all [of CpuSet_all 3] by (auto simp: CpuSet_all_def)
qed

end
