(* ===== verification/Kernel_World.thy ===== *)
theory Kernel_World
  imports Kernel_Monad Tlb_Flush User_Grants
begin

text \<open>
  The state of the memory manager: the frame allocator, the address spaces with their page tables
  (\<open>AddrSpace\<close>, \<open>AddrSpaceWrapper\<close> and \<open>Table\<close> in \<open>src/src/context/memory.rs\<close>,
  \<open>setup_new_utable\<close> in \<open>src/src/context/arch/x86_64.rs\<close>) and the flushers in use.  Page tables are
  managed by the external memory management crate; its mapper is the parameter \<open>mapper_ops\<close>, and
  \<open>mapper_laws\<close> states what it does to the translation of addresses.
\<close>

section \<open>The mapper\<close>

text \<open>
  The mapper takes the frames of page tables from the frame allocator and gives them back to it.
  \<open>mo_map_phys\<close> reports whether it returned a \<open>PageFlush\<close>; the other operations return the old
  entry.
\<close>

record ('m, 'f) mapper_ops =
  mo_create :: "allocator \<Rightarrow> (allocator \<times> 'm option) exec"
  mo_table_phys :: "'m \<Rightarrow> usize"
  mo_set_kernel_entry :: "'m \<Rightarrow> nat \<Rightarrow> 'm exec"
  mo_translate :: "'m \<Rightarrow> nat \<Rightarrow> (usize \<times> 'f) option"
  mo_map_phys :: "'m \<Rightarrow> nat \<Rightarrow> usize \<Rightarrow> 'f \<Rightarrow> allocator \<Rightarrow> (allocator \<times> 'm \<times> bool) exec"
  mo_unmap_phys :: "'m \<Rightarrow> nat \<Rightarrow> allocator \<Rightarrow> (allocator \<times> 'm \<times> (usize \<times> 'f) option) exec"
  mo_remap_with :: "'m \<Rightarrow> nat \<Rightarrow> ('f \<Rightarrow> 'f) \<Rightarrow> 'm \<times> ('f \<times> usize) option"
  mo_remap_with_full :: "'m \<Rightarrow> nat \<Rightarrow> (usize \<Rightarrow> 'f \<Rightarrow> usize \<times> 'f) \<Rightarrow> 'm \<times> ('f \<times> usize) option"

section \<open>State\<close>

record ('m, 'f) addr_space =
  as_table :: 'm
  as_grants :: "'f user_grants"
  as_used_by :: cpu_set
  as_mmap_min :: nat

text \<open>
  Address spaces are shared by reference; \<open>w_spaces\<close> is the heap they live in, and
  \<open>w_next_space\<close> the first unused reference.  At most one flusher of an address space is in use at a
  time, because it borrows \<open>used_by\<close> exclusively.  \<open>w_locked\<close> holds the address spaces whose lock is
  held by the running code, and \<open>w_notify\<close> is the vector \<open>notify_files\<close> that a caller passes along to
  collect the file mappings that are gone (\<open>UnmapResult\<close>).
\<close>

record unmap_result =
  ur_file_desc :: "grant_file_ref option"
  ur_size :: nat
  ur_needs_sync :: bool

record ('m, 'f) world =
  w_alloc :: allocator
  w_spaces :: "space_id \<Rightarrow> ('m, 'f) addr_space"
  w_next_space :: space_id
  w_locked :: "space_id \<Rightarrow> bool"
  w_flushers :: "space_id \<Rightarrow> flusher"
  w_events :: "tlb_event list"
  w_zeroed_frame :: "(frame \<times> page_ref) option"
  w_cpu :: nat
  w_current :: "space_id option"
  w_notify :: "unmap_result list"

type_synonym ('m, 'f, 'a) kprog = "(('m, 'f) world, errno, 'a) prog"
type_synonym ('m, 'f, 'a) fprog = "(('m, 'f) world, pf_error, 'a) prog"

definition upd_space :: "space_id \<Rightarrow> (('m, 'f) addr_space \<Rightarrow> ('m, 'f) addr_space) \<Rightarrow> ('m, 'f) world \<Rightarrow> ('m, 'f) world" where
  "upd_space s h w = w\<lparr>w_spaces := (w_spaces w)(s := h (w_spaces w s))\<rparr>"

section \<open>Access to the allocator, the tables, the grants and the flushers\<close>

definition allocM :: "(allocator \<Rightarrow> (allocator \<times> 'a) exec) \<Rightarrow> (('m, 'f) world, 'e, 'a) prog" where
  "allocM f w = bindE (f (w_alloc w)) (\<lambda>(a, x). Inr (w\<lparr>w_alloc := a\<rparr>, Inr x))"

definition translateM :: "('m, 'f) mapper_ops \<Rightarrow> space_id \<Rightarrow> page \<Rightarrow> (('m, 'f) world, 'e, (usize \<times> 'f) option) prog" where
  "translateM M s p = getM (\<lambda>w. mo_translate M (as_table (w_spaces w s)) (Page_start_address p))"

definition map_physM :: "('m, 'f) mapper_ops \<Rightarrow> space_id \<Rightarrow> page \<Rightarrow> usize \<Rightarrow> 'f \<Rightarrow> (('m, 'f) world, 'e, bool) prog" where
  "map_physM M s p phys flags w =
     bindE (mo_map_phys M (as_table (w_spaces w s)) (Page_start_address p) phys flags (w_alloc w)) (\<lambda>(a, m, done').
       Inr ((upd_space s (\<lambda>sp. sp\<lparr>as_table := m\<rparr>) w)\<lparr>w_alloc := a\<rparr>, Inr done'))"

definition unmap_physM :: "('m, 'f) mapper_ops \<Rightarrow> space_id \<Rightarrow> page \<Rightarrow> (('m, 'f) world, 'e, (usize \<times> 'f) option) prog" where
  "unmap_physM M s p w =
     bindE (mo_unmap_phys M (as_table (w_spaces w s)) (Page_start_address p) (w_alloc w)) (\<lambda>(a, m, r).
       Inr ((upd_space s (\<lambda>sp. sp\<lparr>as_table := m\<rparr>) w)\<lparr>w_alloc := a\<rparr>, Inr r))"

definition remap_withM :: "('m, 'f) mapper_ops \<Rightarrow> space_id \<Rightarrow> page \<Rightarrow> ('f \<Rightarrow> 'f) \<Rightarrow> (('m, 'f) world, 'e, ('f \<times> usize) option) prog" where
  "remap_withM M s p h w =
     (let (m, r) = mo_remap_with M (as_table (w_spaces w s)) (Page_start_address p) h
      in Inr (upd_space s (\<lambda>sp. sp\<lparr>as_table := m\<rparr>) w, Inr r))"

definition remap_with_fullM ::
    "('m, 'f) mapper_ops \<Rightarrow> space_id \<Rightarrow> page \<Rightarrow> (usize \<Rightarrow> 'f \<Rightarrow> usize \<times> 'f) \<Rightarrow> (('m, 'f) world, 'e, ('f \<times> usize) option) prog" where
  "remap_with_fullM M s p h w =
     (let (m, r) = mo_remap_with_full M (as_table (w_spaces w s)) (Page_start_address p) h
      in Inr (upd_space s (\<lambda>sp. sp\<lparr>as_table := m\<rparr>) w, Inr r))"

definition grantsM :: "space_id \<Rightarrow> (('m, 'f) world, 'e, 'f user_grants) prog" where
  "grantsM s = getM (\<lambda>w. as_grants (w_spaces w s))"

definition set_grantsM :: "space_id \<Rightarrow> 'f user_grants \<Rightarrow> (('m, 'f) world, 'e, unit) prog" where
  "set_grantsM s u = modM (upd_space s (\<lambda>sp. sp\<lparr>as_grants := u\<rparr>))"

definition insert_grantM :: "space_id \<Rightarrow> 'f grant \<Rightarrow> (('m, 'f) world, 'e, unit) prog" where
  "insert_grantM s g = bindM (grantsM s) (\<lambda>u. bindM (liftE (UserGrants_insert u g)) (set_grantsM s))"

definition remove_grantM :: "space_id \<Rightarrow> page \<Rightarrow> (('m, 'f) world, 'e, 'f grant option) prog" where
  "remove_grantM s base =
     bindM (grantsM s) (\<lambda>u. let (u, g) = UserGrants_remove u base in bindM (set_grantsM s u) (\<lambda>_. retM g))"

text \<open>Metadata of frames.\<close>

definition page_infoM :: "frame \<Rightarrow> (('m, 'f) world, 'e, page_ref option) prog" where
  "page_infoM f = allocM (\<lambda>a. bindE (get_page_info (sections a) f) (\<lambda>r. Inr (a, r)))"

definition load_infoM :: "page_ref \<Rightarrow> (('m, 'f) world, 'e, page_info) prog" where
  "load_infoM r = getM (\<lambda>w. pi_load (sections (w_alloc w)) r)"

definition set_refcountM :: "page_ref \<Rightarrow> ref_count \<Rightarrow> (('m, 'f) world, 'e, unit) prog" where
  "set_refcountM r rc = modM (\<lambda>w. w\<lparr>w_alloc := store_info r ((pi_load (sections (w_alloc w)) r)\<lparr>pi_refcount := RefCount_to_raw rc\<rparr>) (w_alloc w)\<rparr>)"

definition add_refM :: "page_ref \<Rightarrow> ref_kind \<Rightarrow> (('m, 'f) world, 'e, add_ref_error + unit) prog" where
  "add_refM r kind = allocM (\<lambda>a. bindE (add_ref (pi_load (sections a) r) kind) (\<lambda>(i, res). Inr (store_info r i a, res)))"

definition allows_writableM :: "page_ref \<Rightarrow> (('m, 'f) world, 'e, bool) prog" where
  "allows_writableM r = bindM (load_infoM r) (\<lambda>i. liftE (allows_writable i))"

definition init_frameM :: "ref_count \<Rightarrow> ('m, 'f, frame) fprog" where
  "init_frameM rc = bindM (allocM (init_frame rc)) returnM"

definition containingM :: "usize \<Rightarrow> (('m, 'f) world, 'e, frame) prog" where
  "containingM phys = liftE (Frame_containing phys)"

definition next_byM :: "frame \<Rightarrow> nat \<Rightarrow> (('m, 'f) world, 'e, frame) prog" where
  "next_byM f n = liftE (Frame_next_by f (of_nat n))"

text \<open>
  A flusher that a function is given: the one of an address space, or the one that frees at once.
\<close>

datatype flusher_ref = FlusherOf space_id | NopFlusher

definition new_flusherM :: "space_id \<Rightarrow> (('m, 'f) world, 'e, unit) prog" where
  "new_flusherM s = modM (\<lambda>w. w\<lparr>w_flushers := (w_flushers w)(s := Flusher_with_cpu_set (as_used_by (w_spaces w s)))\<rparr>)"

fun queueM :: "flusher_ref \<Rightarrow> frame \<Rightarrow> nat option \<Rightarrow> tlb_actions \<Rightarrow> (('m, 'f) world, 'e, unit) prog" where
  "queueM (FlusherOf s) f n act w =
     bindE (Flusher_queue (w_cpu w) f n act (w_flushers w s) (w_alloc w)) (\<lambda>(fl, a, evs).
       Inr (w\<lparr>w_flushers := (w_flushers w)(s := fl), w_alloc := a, w_events := w_events w @ evs\<rparr>, Inr ()))"
| "queueM NopFlusher f n act w =
     bindE (NopFlusher_queue f n act (w_alloc w)) (\<lambda>a. Inr (w\<lparr>w_alloc := a\<rparr>, Inr ()))"

definition flushM :: "space_id \<Rightarrow> (('m, 'f) world, 'e, unit) prog" where
  "flushM s w =
     bindE (Flusher_flush (w_cpu w) (w_flushers w s) (w_alloc w)) (\<lambda>(fl, a, evs).
       Inr (w\<lparr>w_flushers := (w_flushers w)(s := fl), w_alloc := a, w_events := w_events w @ evs\<rparr>, Inr ()))"

text \<open>The scope of a flusher ends with a flush.\<close>

definition drop_flusher :: "space_id \<Rightarrow> ('m, 'f) world \<Rightarrow> ('m, 'f) world exec" where
  "drop_flusher s w = bindE (flushM s w :: (('m, 'f) world \<times> (unit + unit)) exec) (\<lambda>(w, _). Inr w)"

text \<open>Dropping a flusher early leaves nothing to flush at the end of its scope.\<close>

definition end_flusherM :: "space_id \<Rightarrow> (('m, 'f) world, 'e, unit) prog" where
  "end_flusherM s = bindM (flushM s) (\<lambda>_. new_flusherM s)"

definition with_flusherM :: "space_id \<Rightarrow> (('m, 'f) world, 'e, 'a) prog \<Rightarrow> (('m, 'f) world, 'e, 'a) prog" where
  "with_flusherM s m = bindM (new_flusherM s) (\<lambda>_. finallyM m (drop_flusher s))"

text \<open>
  Acquiring a lock that the running code already holds never returns; the model reports it as a
  panic.
\<close>

definition acquireM :: "space_id \<Rightarrow> (('m, 'f) world, 'e, unit) prog" where
  "acquireM s w =
     (if w_locked w s then Inl (Panic ''deadlock'') else Inr (w\<lparr>w_locked := (w_locked w)(s := True)\<rparr>, Inr ()))"

definition release_lock :: "space_id \<Rightarrow> ('m, 'f) world \<Rightarrow> ('m, 'f) world" where
  "release_lock s w = w\<lparr>w_locked := (w_locked w)(s := False)\<rparr>"

definition with_lockM :: "space_id \<Rightarrow> (('m, 'f) world, 'e, 'a) prog \<Rightarrow> (('m, 'f) world, 'e, 'a) prog" where
  "with_lockM s m = bindM (acquireM s) (\<lambda>_. finallyM m (\<lambda>w. Inr (release_lock s w)))"

section \<open>New address spaces\<close>

definition PML4_MASK :: nat where "PML4_MASK = 0xff8000000000"
definition KERNEL_OFFSET :: nat where "KERNEL_OFFSET = 2 ^ 64 - 2 ^ 31"
definition KERNEL_PML4 :: nat where "KERNEL_PML4 = (KERNEL_OFFSET AND PML4_MASK) div PML4_SIZE"
definition KERNEL_HEAP_OFFSET :: nat where "KERNEL_HEAP_OFFSET = KERNEL_OFFSET - PML4_SIZE"
definition KERNEL_HEAP_PML4 :: nat where "KERNEL_HEAP_PML4 = (KERNEL_HEAP_OFFSET AND PML4_MASK) div PML4_SIZE"
definition PHYS_OFFSET :: nat where "PHYS_OFFSET = 0xFFFF800000000000"
definition PHYS_PML4 :: nat where "PHYS_PML4 = (PHYS_OFFSET AND PML4_MASK) div PML4_SIZE"

definition setup_new_utable :: "('m, 'f) mapper_ops \<Rightarrow> ('m, 'f, 'm) kprog" where
  "setup_new_utable M =
     bindM (allocM (mo_create M)) (\<lambda>mo.
     bindM (ok_orM mo ENOMEM) (\<lambda>utable.
     bindM (liftE (mo_set_kernel_entry M utable KERNEL_PML4)) (\<lambda>utable.
     bindM (liftE (mo_set_kernel_entry M utable KERNEL_HEAP_PML4)) (\<lambda>utable.
     bindM (liftE (mo_set_kernel_entry M utable PHYS_PML4)) retM))))"

definition MMAP_MIN_DEFAULT :: nat where "MMAP_MIN_DEFAULT = PAGE_BYTES"

definition AddrSpace_new :: "('m, 'f) mapper_ops \<Rightarrow> ('m, 'f, ('m, 'f) addr_space) kprog" where
  "AddrSpace_new M =
     bindM (setup_new_utable M) (\<lambda>table.
       retM \<lparr>as_table = table, as_grants = UserGrants_new, as_used_by = CpuSet_empty, as_mmap_min = MMAP_MIN_DEFAULT\<rparr>)"

definition AddrSpaceWrapper_new :: "('m, 'f) mapper_ops \<Rightarrow> ('m, 'f, space_id) kprog" where
  "AddrSpaceWrapper_new M =
     bindM (AddrSpace_new M) (\<lambda>sp.
     bindM (getM w_next_space) (\<lambda>s.
     bindM (modM (\<lambda>w. w\<lparr>w_spaces := (w_spaces w)(s := sp), w_next_space := Suc s,
                      w_locked := (w_locked w)(s := False)\<rparr>)) (\<lambda>_.
       retM s)))"

section \<open>What the mapper does\<close>

text \<open>
  Each operation changes the translation of its own page only: a mapping that succeeds sets it, one
  that fails leaves it, unmapping clears it, and remapping rewrites an existing one.  The panics of
  the allocator below it are the only ones.
\<close>

definition mapper_laws :: "('m, 'f) mapper_ops \<Rightarrow> bool" where
  "mapper_laws M \<longleftrightarrow>
     (\<forall>m v p fl a a' m' d. mo_map_phys M m v p fl a = Inr (a', m', d) \<longrightarrow>
        mo_translate M m' = (if d then (mo_translate M m)(v := Some (p, fl)) else mo_translate M m)) \<and>
     (\<forall>m v a a' m' r. mo_unmap_phys M m v a = Inr (a', m', r) \<longrightarrow>
        r = mo_translate M m v \<and> mo_translate M m' = (mo_translate M m)(v := None)) \<and>
     (\<forall>m v h m' r. mo_remap_with M m v h = (m', r) \<longrightarrow>
        r = map_option (\<lambda>(p, fl). (fl, p)) (mo_translate M m v) \<and>
        mo_translate M m' = (mo_translate M m)(v := map_option (\<lambda>(p, fl). (p, h fl)) (mo_translate M m v))) \<and>
     (\<forall>m v h m' r. mo_remap_with_full M m v h = (m', r) \<longrightarrow>
        r = map_option (\<lambda>(p, fl). (fl, p)) (mo_translate M m v) \<and>
        mo_translate M m' = (mo_translate M m)(v := map_option (\<lambda>(p, fl). h p fl) (mo_translate M m v)))"

end
