(* ===== verification/Page_Fault.thy ===== *)
theory Page_Fault
  imports Kernel_World
begin

text \<open>
  Page faults (\<open>cow\<close>, \<open>map_zeroed\<close>, \<open>correct_inner\<close> and \<open>try_correcting_page_tables\<close> in
  \<open>src/src/context/memory.rs\<close>, \<open>page_fault_handler\<close> in \<open>src/src/memory/mod.rs\<close>).  A fault on a
  page of a grant installs the frame that belongs there, copying or creating it first if needed.
\<close>

section \<open>Operations\<close>

datatype access_mode = Read | Write | InstrFetch

definition the_zeroed_frame :: "(('m, 'f) world, 'e, frame \<times> page_ref) prog" where
  "the_zeroed_frame = bindM (getM w_zeroed_frame) (\<lambda>z. expectM z ''zeroed frame must be initialized'')"

definition copy_frame_bytes :: "(usize \<Rightarrow> 8 word) \<Rightarrow> usize \<Rightarrow> usize \<Rightarrow> usize \<Rightarrow> 8 word" where
  "copy_frame_bytes mem dst src = (\<lambda>x. if dst \<le> x \<and> unat x < unat dst + PAGE_BYTES then mem (src + (x - dst)) else mem x)"

definition copy_frame_to_frame_directly :: "frame \<Rightarrow> frame \<Rightarrow> (('m, 'f) world, 'e, unit) prog" where
  "copy_frame_to_frame_directly dst src =
     modM (\<lambda>w. w\<lparr>w_alloc := (w_alloc w)\<lparr>phys_mem := copy_frame_bytes (phys_mem (w_alloc w)) (physaddr dst) (physaddr src)\<rparr>\<rparr>)"

text \<open>The result is the frame to use and the old frame, when a reference to it is left to drop.\<close>

definition cow :: "frame \<Rightarrow> page_ref \<Rightarrow> ref_kind \<Rightarrow> ('m, 'f, frame \<times> frame option) fprog" where
  "cow old_frame old_info initial_ref_kind =
     bindM (load_infoM old_info) (\<lambda>i.
     let old_refcount = refcount i in
     bindM (assertM (old_refcount \<noteq> None) ''old_refcount.is_some()'') (\<lambda>_.
     let initial_rc = (case initial_ref_kind of RkCow \<Rightarrow> RcOne | RkShared \<Rightarrow> RcShared 2) in
     if old_refcount = Some RcOne then
       bindM (if initial_ref_kind = RkShared then set_refcountM old_info initial_rc else retM ()) (\<lambda>_.
         retM (old_frame, None))
     else
       bindM (init_frameM initial_rc) (\<lambda>new_frame.
       bindM the_zeroed_frame (\<lambda>(z, _).
       bindM (if old_frame \<noteq> z then copy_frame_to_frame_directly new_frame old_frame else retM ()) (\<lambda>_.
         retM (new_frame, Some old_frame))))))"

definition map_zeroed :: "('m, 'f) mapper_ops \<Rightarrow> space_id \<Rightarrow> page \<Rightarrow> 'f \<Rightarrow> ('m, 'f, frame) fprog" where
  "map_zeroed M s p flags =
     bindM (init_frameM RcOne) (\<lambda>new_frame.
     bindM (map_physM M s p (physaddr new_frame) flags) (\<lambda>ok.
       if ok then retM new_frame else errM PfOom))"

text \<open>
  The rest of the kernel as the memory manager sees it: the fields of a file description, which
  schemes exist and which of them are user schemes whose server is alive, the request sent to that
  server, what has happened when the blocked context runs again, together with the frame the server
  answered with, and the effects of telling a scheme that a mapping is gone and of closing a file
  description whose last reference this was.
\<close>

record ('m, 'f) fmap_env =
  fe_desc :: "desc_id \<Rightarrow> nat \<times> nat"
  fe_user_scheme :: "nat \<Rightarrow> bool"
  fe_request_fmap :: "nat \<Rightarrow> nat \<Rightarrow> nat \<Rightarrow> nat \<Rightarrow> map_flags \<Rightarrow> ('m, 'f) world \<Rightarrow> ('m, 'f) world \<times> (errno + unit)"
  fe_await_mmap :: "grant_file_ref \<Rightarrow> ('m, 'f) world \<Rightarrow> ('m, 'f) world \<times> frame option"
  fe_scheme_exists :: "nat \<Rightarrow> bool"
  fe_kfunmap :: "nat \<Rightarrow> nat \<Rightarrow> nat \<Rightarrow> nat \<Rightarrow> bool \<Rightarrow> ('m, 'f) world \<Rightarrow> ('m, 'f) world \<times> (errno + unit)"
  fe_try_close :: "desc_id \<Rightarrow> ('m, 'f) world \<Rightarrow> ('m, 'f) world \<times> (errno + unit) option"

definition request_fmapM :: "('m, 'f) fmap_env \<Rightarrow> nat \<Rightarrow> nat \<Rightarrow> nat \<Rightarrow> nat \<Rightarrow> map_flags \<Rightarrow> (('m, 'f) world, 'e, unit) prog" where
  "request_fmapM E scheme_id number off n flags w =
     (let (w, r) = fe_request_fmap E scheme_id number off n flags w
      in case r of Inl _ \<Rightarrow> Inl (Panic ''called unwrap on an Err value'') | Inr _ \<Rightarrow> Inr (w, Inr ()))"

definition await_mmapM :: "('m, 'f) fmap_env \<Rightarrow> grant_file_ref \<Rightarrow> (('m, 'f) world, 'e, frame option) prog" where
  "await_mmapM E r w = (let (w, f) = fe_await_mmap E r w in Inr (w, Inr f))"

definition releaseM :: "space_id \<Rightarrow> (('m, 'f) world, 'e, unit) prog" where
  "releaseM s = modM (release_lock s)"

text \<open>A fault on a page that the grant's own address space backs.\<close>

definition fault_allocated ::
    "('m, 'f) mapper_ops \<Rightarrow> space_id \<Rightarrow> page \<Rightarrow> access_mode \<Rightarrow> 'f \<Rightarrow> (frame \<times> page_ref option) option \<Rightarrow> ('m, 'f, frame \<times> bool) fprog" where
  "fault_allocated M s faulting_page access grant_flags faulting_pageinfo_opt =
     (case faulting_pageinfo_opt of
        Some (_, None) \<Rightarrow> liftE (Inl (Panic ''allocated page needs frame to be valid''))
      | Some (frame, Some info) \<Rightarrow>
          bindM (allows_writableM info) (\<lambda>aw.
          if access = Write then
            if aw then retM (frame, True)
            else bindM (cow frame info RkCow) (\<lambda>(new_frame, old_frame).
                 bindM (case old_frame of Some f \<Rightarrow> queueM (FlusherOf s) f None (TLB_NONE\<lparr>TLB_FREE := True\<rparr>) | None \<Rightarrow> retM ()) (\<lambda>_.
                   retM (new_frame, True)))
          else retM (frame, aw))
      | None \<Rightarrow> bindM (map_zeroed M s faulting_page grant_flags) (\<lambda>f. retM (f, True)))"

text \<open>
  A fault on a page borrowed from another address space, once the frame there is known: take a shared
  reference, and give up copy-on-write sharing first if there was any.
\<close>

definition share_frame ::
    "('m, 'f) mapper_ops \<Rightarrow> space_id \<Rightarrow> space_id \<Rightarrow> page \<Rightarrow> frame \<Rightarrow> ('m, 'f, frame) fprog" where
  "share_frame M s foreign src_page src_frame =
     bindM (page_infoM src_frame) (\<lambda>ro.
     bindM (expectM ro ''all allocated frames need a PageInfo'') (\<lambda>info.
     bindM (add_refM info RkShared) (\<lambda>res. case res of
        Inr () \<Rightarrow> retM src_frame
      | Inl CowToShared \<Rightarrow>
          bindM (cow src_frame info RkShared) (\<lambda>(new_frame, old_frame).
          bindM (case old_frame of
                   Some f \<Rightarrow> bindM (queueM (FlusherOf s) f None (TLB_NONE\<lparr>TLB_FREE := True\<rparr>)) (\<lambda>_. flushM s)
                 | None \<Rightarrow> retM ()) (\<lambda>_.
          bindM (remap_with_fullM M foreign src_page (\<lambda>_ f. (physaddr new_frame, f))) (\<lambda>_.
            retM new_frame)))
      | Inl SharedToCow \<Rightarrow> liftE (Inl (Panic ''internal error: entered unreachable code''))
      | Inl RcOverflow \<Rightarrow> errM PfOom)))"

definition access_allowed :: "'f flag_ops \<Rightarrow> 'f \<Rightarrow> access_mode \<Rightarrow> bool" where
  "access_allowed F flags access = (case access of
       Read \<Rightarrow> True | Write \<Rightarrow> pf_has_write F flags | InstrFetch \<Rightarrow> pf_has_execute F flags)"

definition fault_finish :: "('m, 'f) mapper_ops \<Rightarrow> 'f flag_ops \<Rightarrow> space_id \<Rightarrow> page \<Rightarrow> 'f \<Rightarrow> frame \<Rightarrow> bool \<Rightarrow> ('m, 'f, frame) fprog" where
  "fault_finish M F s faulting_page grant_flags frame allow_writable =
     (let new_flags = pf_write F grant_flags (pf_has_write F grant_flags \<and> allow_writable) in
      bindM (map_physM M s faulting_page (physaddr frame) new_flags) (\<lambda>ok.
      if ok then retM frame else errM PfOom))"

text \<open>A fault on a lazily mapped file: ask the server and wait for its answer, without the lock.\<close>

definition fault_fmap :: "('m, 'f) fmap_env \<Rightarrow> 'f flag_ops \<Rightarrow> space_id \<Rightarrow> 'f \<Rightarrow> grant_file_ref \<Rightarrow> nat \<Rightarrow> ('m, 'f, frame) fprog" where
  "fault_fmap E F s grant_flags file_ref pages_from_grant_start =
     bindM (end_flusherM s) (\<lambda>_.
     bindM (releaseM s) (\<lambda>_.
     let (scheme_id, scheme_number) = fe_desc E (description file_ref) in
     bindM (if fe_user_scheme E scheme_id then retM () else errM PfSegv) (\<lambda>_.
     bindM (request_fmapM E scheme_id scheme_number
              (u_add (base_offset file_ref) (u_mul pages_from_grant_start PAGE_BYTES)) 1 (map_flags_of F grant_flags)) (\<lambda>_.
     bindM (await_mmapM E file_ref) (\<lambda>fo.
     bindM (ok_orM fo PfNonfatalInternalError) (\<lambda>frame.
     bindM (acquireM s) (\<lambda>_.
     bindM (new_flusherM s) (\<lambda>_.
       retM frame))))))))"

text \<open>
  \<open>correct_inner\<close> runs with the lock of the address space held.  It returns with the lock held, and
  releases it when it fails.
\<close>

definition release_on_err :: "space_id \<Rightarrow> ('m, 'f, 'a) fprog \<Rightarrow> ('m, 'f, 'a) fprog" where
  "release_on_err s m w = bindE (m w) (\<lambda>(w, r). Inr (case r of Inl _ \<Rightarrow> release_lock s w | Inr _ \<Rightarrow> w, r))"

definition RECURSION_LIMIT :: nat where "RECURSION_LIMIT = 16"

function correct_inner ::
    "('m, 'f) mapper_ops \<Rightarrow> 'f flag_ops \<Rightarrow> ('m, 'f) fmap_env \<Rightarrow> space_id \<Rightarrow> page \<Rightarrow> access_mode \<Rightarrow> nat \<Rightarrow> ('m, 'f, frame) fprog" where
  "correct_inner M F E s faulting_page access recursion_level =
     release_on_err s (bindM (new_flusherM s) (\<lambda>_. finallyM (
     bindM (grantsM s) (\<lambda>u.
     case UserGrants_contains u faulting_page of
       None \<Rightarrow> errM PfSegv
     | Some (grant_base, grant_info) \<Rightarrow>
       let pages_from_grant_start = Page_offset_from faulting_page grant_base;
           grant_flags = gi_flags grant_info in
       bindM (if access_allowed F grant_flags access then retM () else errM PfSegv) (\<lambda>_.
       bindM (translateM M s faulting_page) (\<lambda>t.
       bindM (case t of
                None \<Rightarrow> retM None
              | Some (phys, _) \<Rightarrow>
                  bindM (containingM phys) (\<lambda>frame. bindM (page_infoM frame) (\<lambda>ro. retM (Some (frame, ro))))) (\<lambda>faulting_pageinfo_opt.
       bindM (case gi_provider grant_info of
                Allocated _ _ \<Rightarrow> fault_allocated M s faulting_page access grant_flags faulting_pageinfo_opt
              | AllocatedShared _ \<Rightarrow> fault_allocated M s faulting_page access grant_flags faulting_pageinfo_opt
              | PhysBorrowed base \<Rightarrow> bindM (next_byM base pages_from_grant_start) (\<lambda>f. retM (f, True))
              | External foreign src_base _ \<Rightarrow>
                  if s = foreign then errM PfNonfatalInternalError
                  else
                    bindM (acquireM foreign) (\<lambda>_. finallyM (
                    let src_page = Page_next_by src_base pages_from_grant_start in
                    bindM (grantsM foreign) (\<lambda>fu.
                    case UserGrants_contains fu src_page of
                      Some _ \<Rightarrow>
                        bindM (translateM M foreign src_page) (\<lambda>st.
                        bindM (case st of
                                 Some (phys, _) \<Rightarrow> containingM phys
                               | None \<Rightarrow>
                                   if Suc recursion_level < RECURSION_LIMIT then
                                     bindM (releaseM foreign) (\<lambda>_.
                                     bindM (end_flusherM s) (\<lambda>_.
                                     bindM (releaseM s) (\<lambda>_.
                                     bindM (acquireM foreign) (\<lambda>_.
                                     bindM (correct_inner M F E foreign src_page Read (Suc recursion_level)) (\<lambda>frame.
                                     bindM (releaseM foreign) (\<lambda>_.
                                     bindM (acquireM s) (\<lambda>_.
                                     bindM (new_flusherM s) (\<lambda>_.
                                     bindM (acquireM foreign) (\<lambda>_.
                                       retM frame)))))))))
                                   else errM PfRecursionLimitExceeded) (\<lambda>src_frame.
                        bindM (share_frame M s foreign src_page src_frame) (\<lambda>f. retM (f, True))))
                    | None \<Rightarrow>
                        bindM (map_zeroed M foreign src_page grant_flags) (\<lambda>f. retM (f, True))))
                    (\<lambda>w. Inr (release_lock foreign w)))
              | FmapBorrowed file_ref _ \<Rightarrow>
                  bindM (fault_fmap E F s grant_flags file_ref pages_from_grant_start) (\<lambda>f. retM (f, True))) (\<lambda>(frame, allow_writable).
         fault_finish M F s faulting_page grant_flags frame allow_writable))))))
     (drop_flusher s)))"
  by pat_completeness auto
termination
  by (relation "measure (\<lambda>(M, F, E, s, p, access, lvl). RECURSION_LIMIT - lvl)") auto

declare correct_inner.simps [simp del]

definition AddrSpace_current :: "('m, 'f, space_id) kprog" where
  "AddrSpace_current = bindM (getM w_current) (\<lambda>c. ok_orM c ESRCH)"

definition try_correcting_page_tables ::
    "('m, 'f) mapper_ops \<Rightarrow> 'f flag_ops \<Rightarrow> ('m, 'f) fmap_env \<Rightarrow> page \<Rightarrow> access_mode \<Rightarrow> ('m, 'f, unit) fprog" where
  "try_correcting_page_tables M F E faulting_page access =
     bindM (tryM AddrSpace_current) (\<lambda>c. case c of
        Inl _ \<Rightarrow> errM PfSegv
      | Inr s \<Rightarrow>
          bindM (acquireM s) (\<lambda>_.
          bindM (correct_inner M F E s faulting_page access 0) (\<lambda>_.
            releaseM s)))"

text \<open>The flags of a fault, and the handler.\<close>

record pf_flags =
  PF_PRESENT :: bool
  PF_INVOLVED_WRITE :: bool
  PF_USER_NOT_SUPERVISOR :: bool
  PF_INSTR_NOT_DATA :: bool
  PF_INVL :: bool

datatype pf_outcome = Resumed | RecoveredEfault

definition page_fault_handler ::
    "('m, 'f) mapper_ops \<Rightarrow> 'f flag_ops \<Rightarrow> ('m, 'f) fmap_env \<Rightarrow> (nat \<Rightarrow> bool) \<Rightarrow> nat \<times> nat \<Rightarrow> nat \<Rightarrow> pf_flags \<Rightarrow> nat \<Rightarrow>
       (('m, 'f) world, unit, pf_outcome) prog" where
  "page_fault_handler M F E is_user_addr usercopy_region ip code faulting_address =
     (let faulting_page = Page_containing_address faulting_address;
          address_is_user = is_user_addr faulting_address;
          caused_by_user = PF_USER_NOT_SUPERVISOR code;
          caused_by_write = PF_INVOLVED_WRITE code;
          caused_by_instr_fetch = PF_INSTR_NOT_DATA code;
          is_usercopy = fst usercopy_region \<le> ip \<and> ip < snd usercopy_region in
      bindM (liftE (if caused_by_write then
                      if caused_by_instr_fetch
                      then Inl (Panic ''page fault cannot be caused by both instruction fetch and write'')
                      else Inr Write
                    else Inr (if caused_by_instr_fetch then InstrFetch else Read))) (\<lambda>mode.
      if PF_INVL code then errM ()
      else
        bindM (if address_is_user \<and> (caused_by_user \<or> is_usercopy) then
                 bindM (tryM (try_correcting_page_tables M F E faulting_page mode)) (\<lambda>r. case r of
                    Inr _ \<Rightarrow> retM True
                  | Inl PfOom \<Rightarrow> liftE (Inl (Panic ''not yet implemented: oom''))
                  | Inl PfSegv \<Rightarrow> retM False
                  | Inl PfRecursionLimitExceeded \<Rightarrow> retM False
                  | Inl PfNonfatalInternalError \<Rightarrow> liftE (Inl (Panic ''not yet implemented'')))
               else retM False) (\<lambda>corrected.
        if corrected then retM Resumed
        else if address_is_user \<and> \<not> caused_by_user \<and> mode \<noteq> InstrFetch \<and> is_usercopy then retM RecoveredEfault
        else errM ())))"

end
