(* ===== verification/Grant_Ops.thy ===== *)
theory Grant_Ops
  imports Page_Fault
begin

text \<open>
  Creating, copying, moving, protecting and removing the mappings of a grant (the operations of
  \<open>Grant\<close> in \<open>src/src/context/memory.rs\<close> that work on page tables).
\<close>

section \<open>Creating grants\<close>

abbreviation "NEW_MAPPING \<equiv> TLB_NONE\<lparr>TLB_NEW_MAPPING := True\<rparr>"
abbreviation "FREE \<equiv> TLB_NONE\<lparr>TLB_FREE := True\<rparr>"
abbreviation "MOVE \<equiv> TLB_NONE\<lparr>TLB_MOVE := True\<rparr>"
abbreviation "REVOKE_WRITE \<equiv> TLB_NONE\<lparr>TLB_REVOKE_WRITE := True\<rparr>"

definition new_grant :: "page \<Rightarrow> nat \<Rightarrow> 'f \<Rightarrow> provider \<Rightarrow> 'f grant" where
  "new_grant base n flags p =
     \<lparr>g_base = base, g_info = \<lparr>gi_page_count = n, gi_flags = flags, gi_mapped = True, gi_provider = p\<rparr>\<rparr>"

definition allocated_shared_one_page ::
    "('m, 'f) mapper_ops \<Rightarrow> space_id \<Rightarrow> frame \<Rightarrow> page \<Rightarrow> 'f \<Rightarrow> bool \<Rightarrow> ('m, 'f, 'f grant) kprog" where
  "allocated_shared_one_page M s frame page flags pinned =
     bindM (page_infoM frame) (\<lambda>ro.
     bindM (expectM ro ''needs page info'') (\<lambda>info.
     bindM (add_refM info RkShared) (\<lambda>res.
     bindM (assertM (res = Inr ()) ''must be possible if previously Zero'') (\<lambda>_.
     bindM (map_physM M s page (physaddr frame) flags) (\<lambda>ok.
     bindM (if ok then retM () else errM ENOMEM) (\<lambda>_.
     bindM (queueM (FlusherOf s) frame None NEW_MAPPING) (\<lambda>_.
       retM (new_grant page 1 flags (AllocatedShared pinned)))))))))"

definition PHYSMAP_MAX_EAGER_PAGES :: nat where "PHYSMAP_MAX_EAGER_PAGES = 4096"
definition ZEROED_MAX_EAGER_PAGES :: nat where "ZEROED_MAX_EAGER_PAGES = 16"
definition BORROW_MAX_EAGER_PAGES :: nat where "BORROW_MAX_EAGER_PAGES = 4096"

definition physmap ::
    "('m, 'f) mapper_ops \<Rightarrow> 'f flag_ops \<Rightarrow> space_id \<Rightarrow> flusher_ref \<Rightarrow> frame \<Rightarrow> page_span \<Rightarrow> 'f \<Rightarrow> ('m, 'f, 'f grant) kprog" where
  "physmap M F s flusher phys span flags =
     bindM (forM [0..<ps_count span] (\<lambda>i.
              bindM (next_byM phys i) (\<lambda>f.
              bindM (page_infoM f) (\<lambda>ro. if ro \<noteq> None then errM EPERM else retM True)))) (\<lambda>_.
     bindM (forM (take PHYSMAP_MAX_EAGER_PAGES (enumerate 0 (PageSpan_pages span))) (\<lambda>(i, page).
              bindM (next_byM phys i) (\<lambda>frame.
              bindM (map_physM M s page (physaddr frame) (pf_write F flags False)) (\<lambda>ok.
              if ok then bindM (queueM flusher frame None NEW_MAPPING) (\<lambda>_. retM True)
              else retM False)))) (\<lambda>_.
       retM (new_grant (ps_base span) (ps_count span) flags (PhysBorrowed phys))))"

definition zeroed_phys_contiguous ::
    "('m, 'f) mapper_ops \<Rightarrow> space_id \<Rightarrow> page_span \<Rightarrow> 'f \<Rightarrow> ('m, 'f, 'f grant) kprog" where
  "zeroed_phys_contiguous M s span flags =
     bindM (allocM (allocate_p2frame (order_of_count (ps_count span)))) (\<lambda>fo.
     bindM (ok_orM fo ENOMEM) (\<lambda>base.
     bindM (forM (enumerate 0 (PageSpan_pages span)) (\<lambda>(i, page).
              bindM (next_byM base i) (\<lambda>frame.
              bindM (page_infoM frame) (\<lambda>ro.
              bindM (expectM ro ''PageInfo must exist for allocated frame'') (\<lambda>info.
              bindM (set_refcountM info RcOne) (\<lambda>_.
              bindM (map_physM M s page (physaddr frame) flags) (\<lambda>ok.
              bindM (assertM ok ''TODO: page table OOM'') (\<lambda>_.
              bindM (queueM (FlusherOf s) frame None NEW_MAPPING) (\<lambda>_.
                retM True))))))))) (\<lambda>_.
       retM (new_grant (ps_base span) (ps_count span) flags (Allocated None True)))))"

definition zeroed ::
    "('m, 'f) mapper_ops \<Rightarrow> 'f flag_ops \<Rightarrow> space_id \<Rightarrow> page_span \<Rightarrow> 'f \<Rightarrow> bool \<Rightarrow> ('m, 'f, 'f grant) kprog" where
  "zeroed M F s span flags shared =
     bindM the_zeroed_frame (\<lambda>(the_frame, the_frame_info).
     bindM (forM (take ZEROED_MAX_EAGER_PAGES (PageSpan_pages span)) (\<lambda>page.
              bindM (add_refM the_frame_info RkCow) (\<lambda>res.
              bindM (assertM (res = Inr ()) ''the static zeroed frame cannot be shared!'') (\<lambda>_.
              bindM (map_physM M s page (physaddr the_frame) (pf_write F flags False)) (\<lambda>ok.
              if ok then bindM (queueM (FlusherOf s) the_frame None NEW_MAPPING) (\<lambda>_. retM True)
              else retM False))))) (\<lambda>_.
       retM (new_grant (ps_base span) (ps_count span) flags
               (if shared then AllocatedShared False else Allocated None False))))"

definition borrow_grant :: "space_id \<Rightarrow> page \<Rightarrow> page \<Rightarrow> 'f grant_info \<Rightarrow> ('m, 'f, 'f grant) kprog" where
  "borrow_grant src src_base dst_base src_info =
     retM (new_grant dst_base (gi_page_count src_info) (gi_flags src_info) (External src src_base False))"

section \<open>Borrowing from a file server\<close>

datatype mmap_mode = ModeCow | ModeShared

record fmap_source =
  fs_src_base :: page
  fs_mode :: mmap_mode
  fs_space :: space_id

text \<open>A detached flusher state is not touched by the flusher of a fault in between.\<close>

definition keep_flusherM :: "space_id \<Rightarrow> (('m, 'f) world, 'e, 'a) prog \<Rightarrow> (('m, 'f) world, 'e, 'a) prog" where
  "keep_flusherM s m =
     bindM (getM (\<lambda>w. w_flushers w s)) (\<lambda>detached.
     bindM m (\<lambda>x.
     bindM (modM (\<lambda>w. w\<lparr>w_flushers := (w_flushers w)(s := detached)\<rparr>)) (\<lambda>_. retM x)))"

text \<open>The frame behind a page of the server: what is mapped there, or what a fault would map.\<close>

definition fmap_src_frame ::
    "('m, 'f) mapper_ops \<Rightarrow> 'f flag_ops \<Rightarrow> ('m, 'f) fmap_env \<Rightarrow> fmap_source \<Rightarrow> page \<Rightarrow> ('m, 'f, frame \<times> bool) kprog" where
  "fmap_src_frame M F E src src_page =
     (let fault = keep_flusherM (fs_space src) (map_errM (\<lambda>_. EIO) (correct_inner M F E (fs_space src) src_page Read 0)) in
      case fs_mode src of
        ModeShared \<Rightarrow>
          bindM (translateM M (fs_space src) src_page) (\<lambda>t.
          bindM (case t of Some (phys, _) \<Rightarrow> containingM phys | None \<Rightarrow> fault) (\<lambda>frame. retM (frame, False)))
      | ModeCow \<Rightarrow>
          bindM (remap_withM M (fs_space src) src_page (\<lambda>fl. pf_write F fl False)) (\<lambda>t.
          bindM (case t of Some (_, phys) \<Rightarrow> containingM phys | None \<Rightarrow> fault) (\<lambda>frame. retM (frame, True))))"

definition fmap_share_frame ::
    "('m, 'f) mapper_ops \<Rightarrow> 'f flag_ops \<Rightarrow> fmap_source \<Rightarrow> page \<Rightarrow> 'f \<Rightarrow> frame \<Rightarrow> ('m, 'f, frame) kprog" where
  "fmap_share_frame M F src src_page new_flags frame =
     bindM (page_infoM frame) (\<lambda>ro. case ro of
        None \<Rightarrow> retM frame
      | Some page_info \<Rightarrow>
          bindM (add_refM page_info RkShared) (\<lambda>res. case res of
             Inr () \<Rightarrow> retM frame
           | Inl CowToShared \<Rightarrow>
               bindM (map_errM (\<lambda>_. ENOMEM) (cow frame page_info RkShared)) (\<lambda>(new_cow_frame, old_frame).
               bindM (remap_with_fullM M (fs_space src) src_page (\<lambda>_ fl. (physaddr new_cow_frame, fl))) (\<lambda>t.
               bindM (expectM t ''page did exist'') (\<lambda>(old_flags, _).
               bindM (queueM (FlusherOf (fs_space src)) frame None (change_of_flags F old_flags new_flags)) (\<lambda>_.
               bindM (case old_frame of Some f \<Rightarrow> queueM (FlusherOf (fs_space src)) f None FREE | None \<Rightarrow> retM ()) (\<lambda>_.
                 retM new_cow_frame)))))
           | Inl SharedToCow \<Rightarrow> liftE (Inl (Panic ''internal error: entered unreachable code''))
           | Inl RcOverflow \<Rightarrow> errM ENOMEM))"

text \<open>
  The state of the source flusher is detached and put back between the uses; what is left in it at the
  end is dropped without a flush.
\<close>

definition borrow_fmap ::
    "('m, 'f) mapper_ops \<Rightarrow> 'f flag_ops \<Rightarrow> ('m, 'f) fmap_env \<Rightarrow> space_id \<Rightarrow> page_span \<Rightarrow> 'f \<Rightarrow> grant_file_ref \<Rightarrow> fmap_source option \<Rightarrow> ('m, 'f, 'f grant) kprog" where
  "borrow_fmap M F E s span new_flags file_ref src =
     bindM (case src of
              None \<Rightarrow> retM ()
            | Some src \<Rightarrow>
                bindM (new_flusherM (fs_space src)) (\<lambda>_.
                forM (PageSpan_pages span) (\<lambda>dst_page.
                  let src_page = Page_next_by (fs_src_base src) (Page_offset_from dst_page (ps_base span)) in
                  bindM (fmap_src_frame M F E src src_page) (\<lambda>(frame, is_cow).
                  bindM (fmap_share_frame M F src src_page new_flags frame) (\<lambda>frame.
                  bindM (map_physM M s dst_page (physaddr frame)
                           (pf_write F new_flags (pf_has_write F new_flags \<and> \<not> is_cow))) (\<lambda>ok.
                  bindM (assertM ok ''called unwrap on a None value'') (\<lambda>_.
                  bindM (queueM (FlusherOf s) frame None NEW_MAPPING) (\<lambda>_.
                    retM True)))))))) (\<lambda>_.
       retM (new_grant (ps_base span) (ps_count span) new_flags (FmapBorrowed file_ref 0)))"

section \<open>Borrowing from another address space\<close>

definition set_provider :: "page \<Rightarrow> provider \<Rightarrow> 'f user_grants \<Rightarrow> 'f user_grants" where
  "set_provider base p u =
     (case bt_get (ug_inner u) base of
        None \<Rightarrow> u
      | Some info \<Rightarrow> u\<lparr>ug_inner := bt_insert base (info\<lparr>gi_provider := p\<rparr>) (ug_inner u)\<rparr>)"

definition modify_grantsM :: "space_id \<Rightarrow> ('f user_grants \<Rightarrow> 'f user_grants) \<Rightarrow> (('m, 'f) world, 'e, unit) prog" where
  "modify_grantsM s h = modM (upd_space s (\<lambda>sp. sp\<lparr>as_grants := h (as_grants sp)\<rparr>))"

definition borrow_check ::
    "'f flag_ops \<Rightarrow> space_id \<Rightarrow> page \<Rightarrow> map_flags \<Rightarrow> page \<times> 'f grant_info \<Rightarrow> page_span option \<Rightarrow> ('m, 'f, page_span option) kprog" where
  "borrow_check F src src_base map_flags = (\<lambda>(src_grant_base, src_grant) prev_span.
     let grant_span = PageSpan_new src_grant_base (gi_page_count src_grant) in
     bindM (case prev_span of
              None \<Rightarrow> if src_grant_base > src_base then errM EINVAL else retM ()
            | Some prev \<Rightarrow> if PageSpan_end prev \<noteq> src_grant_base then errM EINVAL else retM ()) (\<lambda>_.
     bindM (if can_have_flags F src_grant map_flags then retM () else errM EPERM) (\<lambda>_.
     bindM (case gi_provider src_grant of
              FmapBorrowed r pin_refcount \<Rightarrow>
                modify_grantsM src (set_provider src_grant_base (FmapBorrowed r (u_add pin_refcount 1)))
            | _ \<Rightarrow> retM ()) (\<lambda>_.
       retM (Some grant_span)))))"

definition borrow ::
    "('m, 'f) mapper_ops \<Rightarrow> 'f flag_ops \<Rightarrow> space_id \<Rightarrow> space_id \<Rightarrow> page \<Rightarrow> page \<Rightarrow> nat \<Rightarrow> map_flags \<Rightarrow> bool \<Rightarrow> bool \<Rightarrow> ('m, 'f, 'f grant) kprog" where
  "borrow M F src dst src_base dst_base page_count map_flags eager is_pinned_userscheme_borrow =
     (let flags = page_flags F map_flags; src_span = PageSpan_new src_base page_count in
      bindM (grantsM src) (\<lambda>u.
      bindM (foldM (UserGrants_conflicts u src_span) (borrow_check F src src_base map_flags) None) (\<lambda>prev_span.
      bindM (ok_orM prev_span EINVAL) (\<lambda>last_span.
      bindM (if PageSpan_end last_span < PageSpan_end src_span then errM EINVAL else retM ()) (\<lambda>_.
      bindM (if eager then
               forM (take BORROW_MAX_EAGER_PAGES (enumerate 0 (PageSpan_pages src_span))) (\<lambda>(i, page).
                 bindM (translateM M src page) (\<lambda>t. case t of
                    None \<Rightarrow> retM True
                  | Some (phys, _) \<Rightarrow>
                      bindM (containingM phys) (\<lambda>frame.
                      bindM (page_infoM frame) (\<lambda>ro.
                      bindM (case ro of
                               None \<Rightarrow> retM (Some True)
                             | Some i \<Rightarrow>
                                 bindM (add_refM i RkShared) (\<lambda>res. case res of
                                    Inl _ \<Rightarrow> retM None
                                  | Inr () \<Rightarrow> bindM (allows_writableM i) (\<lambda>b. retM (Some b)))) (\<lambda>wo.
                      case wo of
                        None \<Rightarrow> retM True
                      | Some writable \<Rightarrow>
                          bindM (map_physM M dst (Page_next_by dst_base i) phys
                                   (pf_write F flags (pf_has_write F flags \<and> writable))) (\<lambda>ok.
                          bindM (if ok then retM () else errM ENOMEM) (\<lambda>_.
                          bindM (queueM (FlusherOf dst) frame None NEW_MAPPING) (\<lambda>_.
                            retM True))))))))
             else retM ()) (\<lambda>_.
        retM (new_grant dst_base page_count flags (External src src_base is_pinned_userscheme_borrow))))))))"

section \<open>Copying mappings\<close>

datatype copy_mappings_mode = CopyOwned "grant_file_ref option" | CopyBorrowed

text \<open>The frame behind a source page; \<open>None\<close> when there is nothing to copy.\<close>

definition copy_src_frame ::
    "('m, 'f) mapper_ops \<Rightarrow> 'f flag_ops \<Rightarrow> space_id \<Rightarrow> page \<Rightarrow> 'f \<Rightarrow> ref_kind \<Rightarrow> ('m, 'f, frame option) kprog" where
  "copy_src_frame M F src src_page flags rk =
     (case rk of
        RkCow \<Rightarrow>
          bindM (remap_withM M src src_page (\<lambda>fl. pf_write F fl False)) (\<lambda>t. case t of
             None \<Rightarrow> retM None
           | Some (_, phys) \<Rightarrow>
               bindM (containingM phys) (\<lambda>frame.
               bindM (queueM (FlusherOf src) frame None REVOKE_WRITE) (\<lambda>_. retM (Some frame))))
      | RkShared \<Rightarrow>
          bindM (translateM M src src_page) (\<lambda>t. case t of
             Some (phys, _) \<Rightarrow> bindM (containingM phys) (\<lambda>f. retM (Some f))
           | None \<Rightarrow>
               bindM (tryM (init_frameM RcOne)) (\<lambda>r. case r of
                  Inl _ \<Rightarrow> liftE (Inl (Panic ''TODO: handle OOM''))
                | Inr new_frame \<Rightarrow>
                    bindM (map_physM M src src_page (physaddr new_frame) flags) (\<lambda>ok.
                    bindM (assertM ok ''TODO: handle OOM'') (\<lambda>_.
                    bindM (queueM (FlusherOf src) new_frame None NEW_MAPPING) (\<lambda>_. retM (Some new_frame)))))))"

definition queue_old_frame :: "space_id \<Rightarrow> frame option \<Rightarrow> (('m, 'f) world, 'e, unit) prog" where
  "queue_old_frame s old_frame = (case old_frame of Some f \<Rightarrow> queueM (FlusherOf s) f None FREE | None \<Rightarrow> retM ())"

definition copy_ref_frame :: "('m, 'f) mapper_ops \<Rightarrow> space_id \<Rightarrow> page \<Rightarrow> ref_kind \<Rightarrow> frame \<Rightarrow> ('m, 'f, frame) kprog" where
  "copy_ref_frame M src src_page rk src_frame =
     bindM (page_infoM src_frame) (\<lambda>ro.
     bindM (expectM ro ''allocated page was not present in the global page array'') (\<lambda>info.
     bindM (add_refM info rk) (\<lambda>res. case res of
        Inr () \<Rightarrow> retM src_frame
      | Inl CowToShared \<Rightarrow>
          bindM (map_errM (\<lambda>_. ENOMEM) (cow src_frame info rk)) (\<lambda>(new_frame, old_frame).
          bindM (queue_old_frame src old_frame) (\<lambda>_.
          bindM (remap_with_fullM M src src_page (\<lambda>_ f. (physaddr new_frame, f))) (\<lambda>t.
          bindM (case t of
                   Some (_, phys) \<Rightarrow> bindM (containingM phys) (\<lambda>f. queueM (FlusherOf src) f None MOVE)
                 | None \<Rightarrow> retM ()) (\<lambda>_.
            retM new_frame))))
      | Inl SharedToCow \<Rightarrow>
          bindM (add_refM info RkShared) (\<lambda>res2.
          bindM (if res2 = Inl RcOverflow then errM ENOMEM else retM ()) (\<lambda>_.
          bindM (map_errM (\<lambda>_. ENOMEM) (cow src_frame info rk)) (\<lambda>(new_frame, old_frame).
          bindM (queue_old_frame src old_frame) (\<lambda>_.
            retM new_frame))))
      | Inl RcOverflow \<Rightarrow> errM ENOMEM)))"

definition copy_mappings ::
    "('m, 'f) mapper_ops \<Rightarrow> 'f flag_ops \<Rightarrow> space_id \<Rightarrow> space_id \<Rightarrow> flusher_ref \<Rightarrow> page \<Rightarrow> page \<Rightarrow> nat \<Rightarrow> 'f \<Rightarrow> copy_mappings_mode \<Rightarrow> ('m, 'f, 'f grant) kprog" where
  "copy_mappings M F src dst dst_flusher src_base dst_base page_count flags mode =
     (let (allow_writable, rk) = (case mode of CopyOwned _ \<Rightarrow> (False, RkCow) | CopyBorrowed \<Rightarrow> (True, RkShared)) in
      bindM (forM [0..<page_count] (\<lambda>page_idx.
               let src_page = Page_next_by src_base page_idx; dst_page = Page_next_by dst_base page_idx in
               bindM (copy_src_frame M F src src_page flags rk) (\<lambda>fo. case fo of
                  None \<Rightarrow> retM True
                | Some f \<Rightarrow>
                    bindM (copy_ref_frame M src src_page rk f) (\<lambda>src_frame.
                    bindM (map_physM M dst dst_page (physaddr src_frame)
                             (pf_write F flags (pf_has_write F flags \<and> allow_writable))) (\<lambda>ok.
                    if ok then bindM (queueM dst_flusher src_frame None NEW_MAPPING) (\<lambda>_. retM True)
                    else retM False))))) (\<lambda>_.
        retM (new_grant dst_base page_count flags
                (case mode of CopyOwned cow_file_ref \<Rightarrow> Allocated cow_file_ref False | CopyBorrowed \<Rightarrow> AllocatedShared False))))"

section \<open>Moving, protecting and removing\<close>

definition transfer ::
    "('m, 'f) mapper_ops \<Rightarrow> 'f grant \<Rightarrow> page \<Rightarrow> 'f \<Rightarrow> space_id \<Rightarrow> space_id option \<Rightarrow> flusher_ref \<Rightarrow> flusher_ref \<Rightarrow> ('m, 'f, 'f grant) kprog" where
  "transfer M g dst_base flags src dst_opt src_flusher dst_flusher =
     bindM (assertM (\<not> is_pinned (g_info g)) ''!self.info.is_pinned()'') (\<lambda>_.
     bindM (forM (PageSpan_pages (Grant_span g)) (\<lambda>src_page.
              let dst_page = Page_next_by dst_base (Page_offset_from src_page (g_base g)) in
              bindM (unmap_physM M src src_page) (\<lambda>t. case t of
                 None \<Rightarrow> retM True
               | Some (phys, _) \<Rightarrow>
                   bindM (containingM phys) (\<lambda>frame.
                   bindM (queueM src_flusher frame None MOVE) (\<lambda>_.
                   bindM (map_physM M (case dst_opt of Some d \<Rightarrow> d | None \<Rightarrow> src) dst_page phys flags) (\<lambda>ok.
                   bindM (assertM ok ''TODO: OOM'') (\<lambda>_.
                   bindM (queueM dst_flusher frame None NEW_MAPPING) (\<lambda>_.
                     retM True)))))))) (\<lambda>_.
       retM (g\<lparr>g_base := dst_base\<rparr>)))"

definition remap :: "('m, 'f) mapper_ops \<Rightarrow> 'f flag_ops \<Rightarrow> space_id \<Rightarrow> 'f grant \<Rightarrow> 'f \<Rightarrow> ('m, 'f, 'f grant) kprog" where
  "remap M F s g flags =
     bindM (assertM (gi_mapped (g_info g)) ''self.info.mapped'') (\<lambda>_.
     bindM (forM (PageSpan_pages (Grant_span g)) (\<lambda>page.
              bindM (remap_withM M s page (\<lambda>_. flags)) (\<lambda>t. case t of
                 None \<Rightarrow> retM True
               | Some (old_flags, phys) \<Rightarrow>
                   bindM (containingM phys) (\<lambda>frame.
                   bindM (queueM (FlusherOf s) frame None (change_of_flags F old_flags flags)) (\<lambda>_.
                     retM True))))) (\<lambda>_.
       retM (g\<lparr>g_info := (g_info g)\<lparr>gi_flags := flags\<rparr>\<rparr>)))"

text \<open>Unmapping a borrowed range lets go of the file grants it pinned.\<close>

definition unpin_source :: "space_id \<Rightarrow> page \<Rightarrow> nat \<Rightarrow> (('m, 'f) world, 'e, unit) prog" where
  "unpin_source src src_base n =
     with_lockM src (
       bindM (grantsM src) (\<lambda>u.
       forM (UserGrants_conflicts u (PageSpan_new src_base n)) (\<lambda>(base, info).
         case gi_provider info of
           FmapBorrowed r pin_refcount \<Rightarrow>
             bindM (assertM (1 \<le> pin_refcount) ''fmap pinning code is wrong'') (\<lambda>_.
             bindM (modify_grantsM src (set_provider base (FmapBorrowed r (pin_refcount - 1)))) (\<lambda>_.
               retM True))
         | _ \<Rightarrow> retM True)))"

definition unmap_contiguous :: "('m, 'f) mapper_ops \<Rightarrow> space_id \<Rightarrow> flusher_ref \<Rightarrow> 'f grant \<Rightarrow> (('m, 'f) world, 'e, unit) prog" where
  "unmap_contiguous M s flusher g =
     bindM (translateM M s (g_base g)) (\<lambda>t.
     bindM (expectM t ''called unwrap on a None value'') (\<lambda>(phys_base, _).
     bindM (containingM phys_base) (\<lambda>base_frame.
     bindM (forM [0..<gi_page_count (g_info g)] (\<lambda>i.
              bindM (unmap_physM M s (Page_next_by (g_base g) i)) (\<lambda>t.
              bindM (expectM t ''all physborrowed grants must be fully Present in the page tables'') (\<lambda>(phys, _).
              bindM (next_byM base_frame i) (\<lambda>f.
              bindM (assertM (phys = physaddr f) ''phys != base_frame.next_by(i).base()'') (\<lambda>_.
                retM True)))))) (\<lambda>_.
     bindM (assertM (gi_page_count (g_info g) \<noteq> 0) ''called unwrap on a None value'') (\<lambda>_.
       queueM flusher base_frame (Some (gi_page_count (g_info g))) FREE)))))"

definition unmap_pages :: "('m, 'f) mapper_ops \<Rightarrow> space_id \<Rightarrow> flusher_ref \<Rightarrow> page list \<Rightarrow> (('m, 'f) world, 'e, unit) prog" where
  "unmap_pages M s flusher pages =
     forM pages (\<lambda>page.
       bindM (unmap_physM M s page) (\<lambda>t. case t of
          None \<Rightarrow> retM True
        | Some (phys, _) \<Rightarrow>
            bindM (containingM phys) (\<lambda>frame.
            bindM (queueM flusher frame None FREE) (\<lambda>_.
              retM True))))"

definition unmap_result_of :: "'f flag_ops \<Rightarrow> 'f grant_info \<Rightarrow> unmap_result" where
  "unmap_result_of F i =
     \<lparr>ur_file_desc = (case gi_provider i of Allocated cow_file_ref _ \<Rightarrow> cow_file_ref | FmapBorrowed file_ref _ \<Rightarrow> Some file_ref | _ \<Rightarrow> None),
      ur_size = u_mul (gi_page_count i) PAGE_BYTES,
      ur_needs_sync = ((case gi_provider i of FmapBorrowed _ _ \<Rightarrow> True | _ \<Rightarrow> False) \<and> pf_has_write F (gi_flags i))\<rparr>"

definition Grant_unmap :: "('m, 'f) mapper_ops \<Rightarrow> 'f flag_ops \<Rightarrow> space_id \<Rightarrow> flusher_ref \<Rightarrow> 'f grant \<Rightarrow> (('m, 'f) world, 'e, unmap_result) prog" where
  "Grant_unmap M F s flusher g =
     bindM (assertM (gi_mapped (g_info g)) ''self.info.mapped'') (\<lambda>_.
     bindM (assertM (\<not> is_pinned (g_info g)) ''!self.info.is_pinned()'') (\<lambda>_.
     bindM (case gi_provider (g_info g) of
              External src src_base _ \<Rightarrow> unpin_source src src_base (gi_page_count (g_info g))
            | _ \<Rightarrow> retM ()) (\<lambda>_.
     bindM (if (case gi_provider (g_info g) of Allocated _ phys_contiguous \<Rightarrow> phys_contiguous | _ \<Rightarrow> False)
            then unmap_contiguous M s flusher g
            else unmap_pages M s flusher (PageSpan_pages (Grant_span g))) (\<lambda>_.
       retM (unmap_result_of F (g_info g))))))"

end
