(* ===== verification/Addr_Space.thy ===== *)
theory Addr_Space
  imports Grant_Ops
begin

text \<open>
  Address spaces (\<open>AddrSpace\<close> and \<open>AddrSpaceWrapper\<close> in \<open>src/src/context/memory.rs\<close>): mapping,
  unmapping, protecting and moving ranges of pages, cloning an address space, and dropping one.
\<close>

section \<open>Unmapping\<close>

text \<open>
  One round of the loop: the first grant that meets the requested span is taken out, the parts of it
  outside the span are put back, and the part inside is unmapped.  The span that is left starts where
  the grant ended.
\<close>

definition munmap_next :: "bool \<Rightarrow> 'f user_grants \<Rightarrow> page_span \<Rightarrow> (errno + page_span) option" where
  "munmap_next unpinning u span =
     (case UserGrants_conflicts u span of
        [] \<Rightarrow> None
      | (base, info) # _ \<Rightarrow>
          Some (if is_pinned info \<and> \<not> unpinning then Inl EBUSY
                else if \<not> can_extract info unpinning then Inl EINVAL
                else Inr (PageSpan_new base (gi_page_count info))))"

definition insert_optM :: "space_id \<Rightarrow> 'f grant option \<Rightarrow> (('m, 'f) world, 'e, unit) prog" where
  "insert_optM s go = (case go of Some g \<Rightarrow> insert_grantM s g | None \<Rightarrow> retM ())"

definition remaining_span :: "page_span \<Rightarrow> page_span \<Rightarrow> page_span" where
  "remaining_span conflicting_span requested_span =
     (if PageSpan_end conflicting_span < PageSpan_end requested_span
      then PageSpan_new (PageSpan_end conflicting_span)
             (Page_offset_from (PageSpan_end requested_span) (PageSpan_end conflicting_span))
      else PageSpan_empty)"

definition munmap_round ::
    "('m, 'f) mapper_ops \<Rightarrow> 'f flag_ops \<Rightarrow> space_id \<Rightarrow> bool \<Rightarrow> page_span \<Rightarrow> page_span \<Rightarrow> ('m, 'f, unmap_result) kprog" where
  "munmap_round M F s unpinning conflicting_span requested_span =
     bindM (remove_grantM s (ps_base conflicting_span)) (\<lambda>go.
     bindM (expectM go ''conflicting region didn't exist'') (\<lambda>grant.
     let grant = (if unpinning then grant\<lparr>g_info := unpin (g_info grant)\<rparr> else grant);
         intersection = PageSpan_intersection conflicting_span requested_span in
     bindM (liftE (Grant_extract grant intersection)) (\<lambda>xo.
     bindM (expectM xo ''conflicting region shared no common parts'') (\<lambda>(before, grant, after).
     bindM (insert_optM s before) (\<lambda>_.
     bindM (insert_optM s after) (\<lambda>_.
       Grant_unmap M F s (FlusherOf s) grant))))))"

text \<open>Every round shortens the requested span, so as many rounds as it has pages are enough.\<close>

fun munmap_loop ::
    "('m, 'f) mapper_ops \<Rightarrow> 'f flag_ops \<Rightarrow> space_id \<Rightarrow> bool \<Rightarrow> nat \<Rightarrow> page_span \<Rightarrow> unmap_result list \<Rightarrow> ('m, 'f, unmap_result list) kprog" where
  "munmap_loop M F s unpinning 0 requested_span notify_files = liftE (Inl (Panic ''out of fuel''))"
| "munmap_loop M F s unpinning (Suc fuel) requested_span notify_files =
     bindM (grantsM s) (\<lambda>u.
     case munmap_next unpinning u requested_span of
       None \<Rightarrow> retM notify_files
     | Some (Inl e) \<Rightarrow> errM e
     | Some (Inr conflicting_span) \<Rightarrow>
         bindM (munmap_round M F s unpinning conflicting_span requested_span) (\<lambda>unmap_result.
         munmap_loop M F s unpinning fuel (remaining_span conflicting_span requested_span)
           (if ur_file_desc unmap_result \<noteq> None then notify_files @ [unmap_result] else notify_files)))"

definition munmap_inner ::
    "('m, 'f) mapper_ops \<Rightarrow> 'f flag_ops \<Rightarrow> space_id \<Rightarrow> page_span \<Rightarrow> bool \<Rightarrow> ('m, 'f, unmap_result list) kprog" where
  "munmap_inner M F s requested_span unpinning =
     munmap_loop M F s unpinning (Suc (ps_count requested_span)) requested_span []"

definition munmap :: "('m, 'f) mapper_ops \<Rightarrow> 'f flag_ops \<Rightarrow> space_id \<Rightarrow> page_span \<Rightarrow> bool \<Rightarrow> ('m, 'f, unmap_result list) kprog" where
  "munmap M F s requested_span unpinning =
     with_lockM s (with_flusherM s (munmap_inner M F s requested_span unpinning))"

definition append_notifyM :: "unmap_result list \<Rightarrow> (('m, 'f) world, 'e, unit) prog" where
  "append_notifyM notify_files = modM (\<lambda>w. w\<lparr>w_notify := w_notify w @ notify_files\<rparr>)"

section \<open>Telling the schemes\<close>

definition kfunmapM :: "('m, 'f) fmap_env \<Rightarrow> nat \<Rightarrow> nat \<Rightarrow> nat \<Rightarrow> nat \<Rightarrow> bool \<Rightarrow> (('m, 'f) world, 'e, errno + unit) prog" where
  "kfunmapM E scheme_id number off n sync w = (let (w, r) = fe_kfunmap E scheme_id number off n sync w in Inr (w, Inr r))"

definition try_closeM :: "('m, 'f) fmap_env \<Rightarrow> desc_id \<Rightarrow> ('m, 'f, unit) kprog" where
  "try_closeM E d w = (let (w, r) = fe_try_close E d w in Inr (w, case r of None \<Rightarrow> Inr () | Some x \<Rightarrow> x))"

definition UnmapResult_unmap :: "('m, 'f) fmap_env \<Rightarrow> unmap_result \<Rightarrow> ('m, 'f, unit) kprog" where
  "UnmapResult_unmap E r =
     (case ur_file_desc r of
        None \<Rightarrow> retM ()
      | Some file_ref \<Rightarrow>
          let (scheme_id, number) = fe_desc E (description file_ref) in
          bindM (if fe_scheme_exists E scheme_id
                 then kfunmapM E scheme_id number (base_offset file_ref) (ur_size r) (ur_needs_sync r)
                 else retM (Inl ENODEV)) (\<lambda>funmap_result.
          bindM (try_closeM E (description file_ref)) (\<lambda>_.
            returnM funmap_result)))"

definition handle_notify_files :: "('m, 'f) fmap_env \<Rightarrow> unmap_result list \<Rightarrow> ('m, 'f, unit) kprog" where
  "handle_notify_files E notify_files = forM notify_files (\<lambda>file. bindM (tryM (UnmapResult_unmap E file)) (\<lambda>_. retM True))"

section \<open>Mapping\<close>

text \<open>
  The closure that creates the grant is a parameter, as in the code: it is given the base page and the
  page flags.
\<close>

definition mmap ::
    "('m, 'f) mapper_ops \<Rightarrow> 'f flag_ops \<Rightarrow> space_id \<Rightarrow> page option \<Rightarrow> nat \<Rightarrow> map_flags \<Rightarrow> (page \<Rightarrow> 'f \<Rightarrow> ('m, 'f, 'f grant) kprog) \<Rightarrow> ('m, 'f, page) kprog" where
  "mmap M F s requested_base_opt page_count flags map_fn =
     bindM (grantsM s) (\<lambda>u.
     bindM (getM (\<lambda>w. as_mmap_min (w_spaces w s))) (\<lambda>mmap_min.
     bindM (case requested_base_opt of
              Some requested_base \<Rightarrow>
                let requested_span = PageSpan_new requested_base page_count in
                if MAP_FIXED_NOREPLACE flags then
                  if UserGrants_conflicts u requested_span \<noteq> [] then errM EEXIST else retM requested_span
                else if MAP_FIXED flags then
                  bindM (with_flusherM s (munmap_inner M F s requested_span False)) (\<lambda>notify_files.
                  bindM (append_notifyM notify_files) (\<lambda>_.
                    retM requested_span))
                else ok_orM (UserGrants_find_free_near u mmap_min page_count) ENOMEM
            | None \<Rightarrow> ok_orM (UserGrants_find_free u mmap_min page_count) ENOMEM) (\<lambda>selected_span.
     bindM (with_flusherM s (map_fn (ps_base selected_span) (page_flags F flags))) (\<lambda>grant.
     bindM (insert_grantM s grant) (\<lambda>_.
       retM (ps_base selected_span))))))"

definition mmap_anywhere ::
    "('m, 'f) mapper_ops \<Rightarrow> 'f flag_ops \<Rightarrow> space_id \<Rightarrow> nat \<Rightarrow> map_flags \<Rightarrow> (page \<Rightarrow> 'f \<Rightarrow> ('m, 'f, 'f grant) kprog) \<Rightarrow> ('m, 'f, page) kprog" where
  "mmap_anywhere M F s page_count flags map_fn = mmap M F s None page_count flags map_fn"

section \<open>Protection\<close>

definition mprotect_region ::
    "('m, 'f) mapper_ops \<Rightarrow> 'f flag_ops \<Rightarrow> space_id \<Rightarrow> page_span \<Rightarrow> map_flags \<Rightarrow> page_span \<Rightarrow> ('m, 'f, bool) kprog" where
  "mprotect_region M F s requested_span flags grant_span =
     bindM (remove_grantM s (ps_base grant_span)) (\<lambda>go.
     bindM (expectM go ''grant cannot magically disappear while we hold the lock!'') (\<lambda>grant.
     let intersection = PageSpan_intersection grant_span requested_span in
     bindM (liftE (Grant_extract grant intersection)) (\<lambda>xo.
     bindM (expectM xo ''failed to extract grant'') (\<lambda>(before, grant, after).
     bindM (insert_optM s before) (\<lambda>_.
     bindM (insert_optM s after) (\<lambda>_.
     if \<not> can_have_flags F (g_info grant) flags then
       bindM (insert_grantM s grant) (\<lambda>_. errM EACCES)
     else
       let new_flags = pf_write F (pf_execute F (gi_flags (g_info grant)) (PROT_EXEC flags)) (PROT_WRITE flags) in
       bindM (remap M F s grant new_flags) (\<lambda>grant.
       bindM (insert_grantM s grant) (\<lambda>_.
         retM True))))))))"

definition mprotect :: "('m, 'f) mapper_ops \<Rightarrow> 'f flag_ops \<Rightarrow> space_id \<Rightarrow> page_span \<Rightarrow> map_flags \<Rightarrow> ('m, 'f, unit) kprog" where
  "mprotect M F s requested_span flags =
     with_lockM s (with_flusherM s (
       bindM (grantsM s) (\<lambda>u.
       let regions = map (\<lambda>(base, info). if is_pinned info then Inl EBUSY else Inr (PageSpan_new base (gi_page_count info)))
                       (UserGrants_conflicts u requested_span) in
       forM regions (\<lambda>grant_span_res.
         bindM (returnM grant_span_res) (mprotect_region M F s requested_span flags)))))"

section \<open>Moving\<close>

text \<open>
  Moving within one address space (\<open>src_opt = None\<close>) or from another one, whose lock the caller
  holds.
\<close>

definition move_dst_base ::
    "('m, 'f) mapper_ops \<Rightarrow> 'f flag_ops \<Rightarrow> space_id \<Rightarrow> page_span \<Rightarrow> page option \<Rightarrow> nat \<Rightarrow> map_flags \<Rightarrow> ('m, 'f, page) kprog" where
  "move_dst_base M F dst src_span requested_dst_base new_page_count new_flags =
     bindM (grantsM dst) (\<lambda>u.
     bindM (getM (\<lambda>w. as_mmap_min (w_spaces w dst))) (\<lambda>mmap_min.
     let anywhere = bindM (ok_orM (UserGrants_find_free u mmap_min (max new_page_count (ps_count src_span))) ENOMEM)
                      (\<lambda>sp. retM (ps_base sp)) in
     case requested_dst_base of
       Some base \<Rightarrow>
         if MAP_FIXED_NOREPLACE new_flags then
           if UserGrants_conflicts u (PageSpan_new base new_page_count) \<noteq> [] then errM EEXIST else retM base
         else if MAP_FIXED new_flags then
           bindM (munmap_inner M F dst (PageSpan_new base new_page_count) False) (\<lambda>notify.
           bindM (append_notifyM notify) (\<lambda>_. retM base))
         else anywhere
     | None \<Rightarrow> anywhere))"

definition zeroed_hole :: "('m, 'f) mapper_ops \<Rightarrow> 'f flag_ops \<Rightarrow> space_id \<Rightarrow> map_flags \<Rightarrow> page_span \<Rightarrow> ('m, 'f, unit) kprog" where
  "zeroed_hole M F dst new_flags span =
     bindM (zeroed M F dst span (page_flags F new_flags) False) (insert_grantM dst)"

definition move_grant ::
    "('m, 'f) mapper_ops \<Rightarrow> 'f flag_ops \<Rightarrow> space_id \<Rightarrow> space_id option \<Rightarrow> page_span \<Rightarrow> page \<Rightarrow> map_flags \<Rightarrow> page \<Rightarrow> page \<times> page_span
       \<Rightarrow> ('m, 'f, page \<times> page_span) kprog" where
  "move_grant M F dst src_opt src_span dst_base new_flags grant_base = (\<lambda>(prev_grant_end, remaining_src_span).
     let src = (case src_opt of Some s \<Rightarrow> s | None \<Rightarrow> dst) in
     bindM (if prev_grant_end < grant_base then
              zeroed_hole M F dst new_flags
                (PageSpan_new (Page_next_by dst_base (Page_offset_from prev_grant_end (ps_base src_span)))
                   (Page_offset_from grant_base prev_grant_end))
            else retM ()) (\<lambda>_.
     bindM (remove_grantM src grant_base) (\<lambda>go.
     bindM (expectM go ''grant cannot disappear'') (\<lambda>grant.
     bindM (liftE (Grant_extract grant (PageSpan_intersection remaining_src_span (Grant_span grant)))) (\<lambda>xo.
     bindM (expectM xo ''called intersect(), must succeed'') (\<lambda>(before, middle, after).
     bindM (insert_optM src before) (\<lambda>_.
     bindM (insert_optM src after) (\<lambda>_.
     let dst_grant_base = Page_next_by dst_base (Page_offset_from (g_base middle) (ps_base src_span));
         middle_span = Grant_span middle in
     bindM (case src_opt of
              Some s \<Rightarrow> transfer M middle dst_grant_base (page_flags F new_flags) s (Some dst) (FlusherOf s) (FlusherOf dst)
            | None \<Rightarrow> transfer M middle dst_grant_base (page_flags F new_flags) dst None (FlusherOf dst) NopFlusher) (\<lambda>moved.
     bindM (insert_grantM dst moved) (\<lambda>_.
     let prev_grant_end = Page_next_by (ps_base middle_span) (ps_count middle_span);
         pages_advanced = Page_offset_from prev_grant_end (ps_base remaining_src_span) in
       retM (prev_grant_end, PageSpan_new prev_grant_end (u_sub (ps_count remaining_src_span) pages_advanced))))))))))))"

definition move_body ::
    "('m, 'f) mapper_ops \<Rightarrow> 'f flag_ops \<Rightarrow> space_id \<Rightarrow> space_id option \<Rightarrow> page_span \<Rightarrow> page option \<Rightarrow> nat \<Rightarrow> map_flags
       \<Rightarrow> ('m, 'f, page) kprog" where
  "move_body M F dst src_opt src_span requested_dst_base new_page_count new_flags =
     (let src = (case src_opt of Some s \<Rightarrow> s | None \<Rightarrow> dst) in
      bindM (move_dst_base M F dst src_span requested_dst_base new_page_count new_flags) (\<lambda>dst_base.
      bindM (grantsM src) (\<lambda>u.
      bindM (if \<exists>(_, g) \<in> set (UserGrants_conflicts u src_span). \<not> can_extract g False then errM EBUSY else retM ()) (\<lambda>_.
      bindM (if \<exists>(_, g) \<in> set (UserGrants_conflicts u src_span). \<not> can_have_flags F g new_flags then errM EPERM else retM ()) (\<lambda>_.
      bindM (if PageSpan_intersects (PageSpan_new dst_base new_page_count) src_span then errM EBUSY else retM ()) (\<lambda>_.
      bindM (if new_page_count < ps_count src_span then
               bindM (munmap_inner M F src (PageSpan_new (Page_next_by (ps_base src_span) new_page_count)
                                       (ps_count src_span - new_page_count)) False) append_notifyM
             else retM ()) (\<lambda>_.
      let remaining_src_span = PageSpan_new (ps_base src_span) new_page_count in
      bindM (grantsM src) (\<lambda>u.
      bindM (foldM (map fst (UserGrants_conflicts u remaining_src_span))
               (move_grant M F dst src_opt src_span dst_base new_flags) (ps_base src_span, remaining_src_span)) (\<lambda>(prev_grant_end, _).
      bindM (if prev_grant_end < Page_next_by (ps_base src_span) new_page_count then
               zeroed_hole M F dst new_flags
                 (PageSpan_new (Page_next_by dst_base (Page_offset_from prev_grant_end (ps_base src_span)))
                    (u_sub new_page_count (Page_offset_from prev_grant_end (ps_base src_span))))
             else retM ()) (\<lambda>_.
        retM dst_base))))))))))"

definition AddrSpace_move ::
    "('m, 'f) mapper_ops \<Rightarrow> 'f flag_ops \<Rightarrow> space_id \<Rightarrow> space_id option \<Rightarrow> page_span \<Rightarrow> page option \<Rightarrow> nat \<Rightarrow> map_flags
       \<Rightarrow> ('m, 'f, page) kprog" where
  "AddrSpace_move M F dst src_opt src_span requested_dst_base new_page_count new_flags =
     with_lockM dst (
       let body = with_flusherM dst (move_body M F dst src_opt src_span requested_dst_base new_page_count new_flags) in
       case src_opt of Some s \<Rightarrow> with_flusherM s body | None \<Rightarrow> body)"

section \<open>Borrowing a frame for the kernel\<close>

definition PROT_READ_WRITE :: map_flags where
  "PROT_READ_WRITE =
     \<lparr>PROT_READ = True, PROT_WRITE = True, PROT_EXEC = False, MAP_SHARED = False, MAP_PRIVATE = False,
      MAP_FIXED = False, MAP_FIXED_NOREPLACE = False, MAP_LAZY = False\<rparr>"

definition borrow_frame_enforce_rw_allocated ::
    "('m, 'f) mapper_ops \<Rightarrow> 'f flag_ops \<Rightarrow> ('m, 'f) fmap_env \<Rightarrow> space_id \<Rightarrow> page \<Rightarrow> ('m, 'f, frame) kprog" where
  "borrow_frame_enforce_rw_allocated M F E s page =
     with_lockM s (
       bindM (grantsM s) (\<lambda>u.
       bindM (ok_orM (UserGrants_contains u page) EINVAL) (\<lambda>(_, info).
       bindM (if can_have_flags F info PROT_READ_WRITE then retM () else errM EPERM) (\<lambda>_.
       bindM (case gi_provider info of Allocated _ _ \<Rightarrow> retM () | _ \<Rightarrow> errM EPERM) (\<lambda>_.
       bindM (translateM M s page) (\<lambda>t.
       bindM (case t of
                Some (f, fl) \<Rightarrow>
                  if pf_has_write F fl then containingM f
                  else map_errM (\<lambda>_. ENOMEM) (correct_inner M F E s page Write 0)
              | None \<Rightarrow> map_errM (\<lambda>_. ENOMEM) (correct_inner M F E s page Write 0)) (\<lambda>frame.
       bindM (page_infoM frame) (\<lambda>ro.
       bindM (expectM ro ''missing page info for Allocated grant'') (\<lambda>info.
       bindM (add_refM info RkShared) (\<lambda>res. case res of
          Inr () \<Rightarrow> retM frame
        | Inl RcOverflow \<Rightarrow> errM ENOMEM
        | Inl _ \<Rightarrow> liftE (Inl (Panic ''internal error: entered unreachable code''))))))))))))"

section \<open>Dropping\<close>

definition AddrSpace_drop :: "('m, 'f) mapper_ops \<Rightarrow> 'f flag_ops \<Rightarrow> ('m, 'f) fmap_env \<Rightarrow> space_id \<Rightarrow> ('m, 'f, unit) kprog" where
  "AddrSpace_drop M F E s =
     bindM (grantsM s) (\<lambda>u.
     bindM (set_grantsM s UserGrants_new) (\<lambda>_.
     bindM (forM (ug_inner u) (\<lambda>(base, info).
              bindM (Grant_unmap M F s NopFlusher \<lparr>g_base = base, g_info = unpin info\<rparr>) (\<lambda>res.
              bindM (tryM (UnmapResult_unmap E res)) (\<lambda>_.
                retM True)))) (\<lambda>_.
     bindM (getM (\<lambda>w. mo_table_phys M (as_table (w_spaces w s)))) (\<lambda>phys.
     bindM (containingM phys) (\<lambda>f.
       allocM (\<lambda>a. bindE (deallocate_frame f a) (\<lambda>a. Inr (a, ()))))))))"

section \<open>Cloning\<close>

definition clone_grant ::
    "('m, 'f) mapper_ops \<Rightarrow> 'f flag_ops \<Rightarrow> space_id \<Rightarrow> space_id \<Rightarrow> page \<Rightarrow> 'f grant_info \<Rightarrow> ('m, 'f, 'f grant option) kprog" where
  "clone_grant M F s new grant_base grant_info =
     (case gi_provider grant_info of
        External address_space src_base pinned \<Rightarrow>
          if pinned then retM None
          else bindM (borrow_grant address_space src_base grant_base grant_info) (\<lambda>g. retM (Some g))
      | AllocatedShared pinned \<Rightarrow>
          if pinned then retM None
          else bindM (copy_mappings M F s new NopFlusher grant_base grant_base (gi_page_count grant_info) (gi_flags grant_info) CopyBorrowed) (\<lambda>g. retM (Some g))
      | Allocated cow_file_ref phys_contiguous \<Rightarrow>
          if phys_contiguous then retM None
          else bindM (copy_mappings M F s new NopFlusher grant_base grant_base (gi_page_count grant_info) (gi_flags grant_info) (CopyOwned cow_file_ref)) (\<lambda>g. retM (Some g))
      | PhysBorrowed base \<Rightarrow>
          bindM (physmap M F new NopFlusher base (PageSpan_new grant_base (gi_page_count grant_info)) (gi_flags grant_info)) (\<lambda>g. retM (Some g))
      | FmapBorrowed _ _ \<Rightarrow> retM None)"

text \<open>When a step fails, the new address space is dropped.\<close>

definition drop_on_errM :: "('m, 'f, unit) kprog \<Rightarrow> ('m, 'f, 'a) kprog \<Rightarrow> ('m, 'f, 'a) kprog" where
  "drop_on_errM d m = bindM (tryM m) (\<lambda>r. case r of Inr x \<Rightarrow> retM x | Inl e \<Rightarrow> bindM d (\<lambda>_. errM e))"

definition try_clone :: "('m, 'f) mapper_ops \<Rightarrow> 'f flag_ops \<Rightarrow> ('m, 'f) fmap_env \<Rightarrow> space_id \<Rightarrow> ('m, 'f, space_id) kprog" where
  "try_clone M F E s =
     with_lockM s (
       bindM (AddrSpaceWrapper_new M) (\<lambda>new.
       drop_on_errM (AddrSpace_drop M F E new) (
       with_flusherM s (
         bindM (grantsM s) (\<lambda>u.
         bindM (forM (ug_inner u) (\<lambda>(grant_base, grant_info).
                  bindM (clone_grant M F s new grant_base grant_info) (\<lambda>go.
                  bindM (insert_optM new go) (\<lambda>_.
                    retM True)))) (\<lambda>_.
           retM new))))))"

end
