(* ===== verification/Prog_Logic.thy ===== *)
theory Prog_Logic
  imports Kernel_Monad
begin

text \<open>
  Total correctness of programs over a kernel state: \<open>runs m s Q\<close> says that \<open>m\<close> does not panic when
  it is started in \<open>s\<close> and that \<open>Q\<close> holds of the final state and the result, a value or an error.
  The rules compute the precondition of a program from the outside in.
\<close>

definition runs :: "('s, 'e, 'a) prog \<Rightarrow> 's \<Rightarrow> ('s \<Rightarrow> 'e + 'a \<Rightarrow> bool) \<Rightarrow> bool" where
  "runs m s Q \<longleftrightarrow> (case m s of Inl _ \<Rightarrow> False | Inr (s', r) \<Rightarrow> Q s' r)"

named_theorems runs_simps \<open>preconditions of programs\<close>

lemma runs_iff: "runs m s Q \<longleftrightarrow> (\<exists>s' r. m s = Inr (s', r) \<and> Q s' r)"
  by (auto simp: runs_def split: sum.splits)

lemma runsI: "m s = Inr (s', r) \<Longrightarrow> Q s' r \<Longrightarrow> runs m s Q"
  by (simp add: runs_def)

lemma runsE:
  assumes "runs m s Q"
  obtains s' r where "m s = Inr (s', r)" "Q s' r"
  using assms by (auto simp: runs_iff)

lemma runs_mono: "runs m s Q \<Longrightarrow> (\<And>s' r. Q s' r \<Longrightarrow> P s' r) \<Longrightarrow> runs m s P"
  by (auto simp: runs_iff)

lemma runs_bindM [runs_simps]:
  "runs (bindM m f) s Q \<longleftrightarrow> runs m s (\<lambda>s' r. case r of Inl e \<Rightarrow> Q s' (Inl e) | Inr x \<Rightarrow> runs (f x) s' Q)"
  by (auto simp: runs_def bindM_def bindE_def split: sum.splits)

lemma runs_retM [runs_simps]: "runs (retM x) s Q \<longleftrightarrow> Q s (Inr x)"
  by (simp add: runs_def)

lemma runs_errM [runs_simps]: "runs (errM e) s Q \<longleftrightarrow> Q s (Inl e)"
  by (simp add: runs_def)

lemma runs_getM [runs_simps]: "runs (getM g) s Q \<longleftrightarrow> Q s (Inr (g s))"
  by (simp add: runs_def)

lemma runs_modM [runs_simps]: "runs (modM h) s Q \<longleftrightarrow> Q (h s) (Inr ())"
  by (simp add: runs_def)

lemma runs_returnM [runs_simps]: "runs (returnM r) s Q \<longleftrightarrow> Q s r"
  by (simp add: runs_def)

lemma runs_liftE [runs_simps]: "runs (liftE y) s Q \<longleftrightarrow> (case y of Inl _ \<Rightarrow> False | Inr x \<Rightarrow> Q s (Inr x))"
  by (cases y) (simp_all add: runs_def)

lemma runs_assertM [runs_simps]: "runs (assertM b msg) s Q \<longleftrightarrow> b \<and> Q s (Inr ())"
  by (simp add: runs_def)

lemma runs_expectM [runs_simps]: "runs (expectM xo msg) s Q \<longleftrightarrow> (case xo of None \<Rightarrow> False | Some x \<Rightarrow> Q s (Inr x))"
  by (cases xo) (simp_all add: runs_def)

lemma runs_ok_orM [runs_simps]: "runs (ok_orM xo e) s Q \<longleftrightarrow> (case xo of None \<Rightarrow> Q s (Inl e) | Some x \<Rightarrow> Q s (Inr x))"
  by (cases xo) (simp_all add: runs_def)

lemma runs_if [runs_simps]: "runs (if b then m else n) s Q \<longleftrightarrow> (if b then runs m s Q else runs n s Q)"
  by simp

lemma runs_map_errM [runs_simps]:
  "runs (map_errM g m) s Q \<longleftrightarrow> runs m s (\<lambda>s' r. Q s' (case r of Inl e \<Rightarrow> Inl (g e) | Inr x \<Rightarrow> Inr x))"
  by (auto simp: runs_def map_errM_def bindE_def split: sum.splits)

lemma runs_tryM [runs_simps]: "runs (tryM m) s Q \<longleftrightarrow> runs m s (\<lambda>s' r. Q s' (Inr r))"
  by (auto simp: runs_def tryM_def bindE_def split: sum.splits)

lemma runs_finallyM [runs_simps]:
  "runs (finallyM m d) s Q \<longleftrightarrow> runs m s (\<lambda>s' r. case d s' of Inl _ \<Rightarrow> False | Inr s'' \<Rightarrow> Q s'' r)"
  by (auto simp: runs_def finallyM_def bindE_def split: sum.splits)

lemma runs_unlessM [runs_simps]: "runs (unlessM b m) s Q \<longleftrightarrow> (if b then Q s (Inr ()) else runs m s Q)"
  by (simp add: unlessM_def runs_simps)

lemma runs_forM_Cons: "runs (forM (x # xs) f) s Q \<longleftrightarrow>
    runs (f x) s (\<lambda>s' r. case r of Inl e \<Rightarrow> Q s' (Inl e) | Inr go \<Rightarrow> if go then runs (forM xs f) s' Q else Q s' (Inr ()))"
  by (simp add: runs_simps cong: sum.case_cong)

lemma bindM_assertM: "b \<Longrightarrow> bindM (assertM b msg) f = f ()"
  by (rule ext) (simp add: bindM_def)

text \<open>A loop whose body always goes on, with an invariant of the part that is done.\<close>

lemma runs_forM:
  assumes "I [] s"
    and "\<And>s pre x post. xs = pre @ x # post \<Longrightarrow> I pre s \<Longrightarrow> runs (f x) s (\<lambda>s' r. r = Inr True \<and> I (pre @ [x]) s')"
  shows "runs (forM xs f) s (\<lambda>s' r. r = Inr () \<and> I xs s')"
  using forM_invariant [of "\<lambda>s pre. I pre s" s xs f] assms by (simp add: runs_iff)

text \<open>A loop whose body may also fail.\<close>

lemma runs_forM_err:
  assumes "I [] s"
    and "\<And>s pre x post. xs = pre @ x # post \<Longrightarrow> I pre s \<Longrightarrow>
      runs (f x) s (\<lambda>s' r. r = Inr True \<and> I (pre @ [x]) s' \<or> (\<exists>e. r = Inl e \<and> J s' e))"
  shows "runs (forM xs f) s (\<lambda>s' r. r = Inr () \<and> I xs s' \<or> (\<exists>e. r = Inl e \<and> J s' e))"
proof -
  have "\<exists>s' r. forM xs f s = Inr (s', r) \<and> (r = Inr () \<and> I xs s' \<or> (\<exists>e. r = Inl e \<and> J s' e))"
  proof (rule forM_invariant_exit [where I = "\<lambda>s pre. I pre s" and J = "\<lambda>s' r. \<exists>e. r = Inl e \<and> J s' e"])
    fix s pre x post
    assume "xs = pre @ x # post" "I pre s"
    with assms(2) [OF this] show "(\<exists>s'. f x s = Inr (s', Inr True) \<and> I (pre @ [x]) s') \<or>
        (\<exists>s'. f x s = Inr (s', Inr False) \<and> (\<exists>e. Inr () = Inl e \<and> J s' e)) \<or>
        (\<exists>s' e. f x s = Inr (s', Inl e) \<and> (\<exists>ea. Inl e = Inl ea \<and> J s' ea))"
      by (auto simp: runs_iff)
  qed (rule assms(1))
  then show ?thesis by (simp add: runs_iff)
qed

end
