(* ===== verification/Mem_Accounting.thy ===== *)
theory Mem_Accounting
  imports Prog_Logic Grant_Ops
begin

text \<open>
  Accounting of frame references.  A frame that user pages map has as many references as there are
  mappings, frees that are still queued in a flusher, and holders elsewhere; the frame is live exactly
  as long as this number is not zero.  Dropping a reference through a flusher keeps the books, whenever
  the flusher decides to flush.
\<close>

section \<open>The books of the allocator\<close>

abbreviation frames :: "nat set \<Rightarrow> block set" where
  "frames T \<equiv> (\<lambda>n. (n, 0)) ` T"

text \<open>\<open>D\<close> are the frames that have metadata, \<open>T\<close> the accounted ones and \<open>c\<close> their references.\<close>

definition refs_ok :: "nat set \<Rightarrow> nat set \<Rightarrow> (nat \<Rightarrow> nat) \<Rightarrow> allocator \<Rightarrow> block set \<Rightarrow> block set \<Rightarrow> bool" where
  "refs_ok D T c a U R \<longleftrightarrow> alloc_ok a U R \<and> dom (pinfo (sections a)) = D \<and> T \<subseteq> D \<and>
     (\<forall>n\<in>T. if c n = 0 then (n, 0) \<notin> U else (n, 0) \<in> U \<and> (\<exists>k. ref_of a n = Some (c n, k)))"

text \<open>A frame that is accounted if it has metadata at all.\<close>

definition known_frame :: "nat set \<Rightarrow> nat set \<Rightarrow> frame \<Rightarrow> bool" where
  "known_frame D T f \<longleftrightarrow> (\<exists>n. pfn_ok n \<and> f = pframe n \<and> (n \<in> D \<longrightarrow> n \<in> T))"

lemma known_frameE:
  assumes "known_frame D T f"
  obtains n where "pfn_ok n" "f = pframe n" "n \<in> D \<Longrightarrow> n \<in> T"
  using assms by (auto simp: known_frame_def)

lemma refs_okD:
  assumes "refs_ok D T c a U R"
  shows "alloc_ok a U R" "dom (pinfo (sections a)) = D" "T \<subseteq> D"
    "n \<in> T \<Longrightarrow> c n = 0 \<Longrightarrow> (n, 0) \<notin> U" "n \<in> T \<Longrightarrow> c n \<noteq> 0 \<Longrightarrow> (n, 0) \<in> U"
    "n \<in> T \<Longrightarrow> c n \<noteq> 0 \<Longrightarrow> \<exists>k. ref_of a n = Some (c n, k)"
  using assms by (auto simp: refs_ok_def)

lemma refs_ok_cong: "refs_ok D T c a U R \<Longrightarrow> (\<And>n. n \<in> T \<Longrightarrow> c' n = c n) \<Longrightarrow> refs_ok D T c' a U R"
  by (simp add: refs_ok_def)

lemma dom_pfn_ok: "alloc_ok a U R \<Longrightarrow> n \<in> dom (pinfo (sections a)) \<Longrightarrow> pfn_ok n"
  using pinfo_SomeD [OF alloc_ok_wf] by blast

lemma refs_pfn_ok: "refs_ok D T c a U R \<Longrightarrow> n \<in> T \<Longrightarrow> pfn_ok n"
  by (rule dom_pfn_ok [OF refs_okD(1)]) (use refs_okD(2,3) in blast)+

lemma pframe_eq_iff: "pfn_ok n \<Longrightarrow> pfn_ok m \<Longrightarrow> pframe n = pframe m \<longleftrightarrow> n = m"
  by (simp add: pframe_inject pfn_ok_def)

text \<open>What an operation on accounted frames leaves alone: all other blocks in use, and the content of memory.\<close>

definition others_same :: "nat set \<Rightarrow> allocator \<Rightarrow> block set \<Rightarrow> block set \<Rightarrow> allocator \<Rightarrow> block set \<Rightarrow> bool" where
  "others_same T a U R a' U' \<longleftrightarrow> U' - frames T = U - frames T \<and> same_info (U \<union> R - frames T) a a' \<and> phys_mem a' = phys_mem a"

lemma others_same_refl [simp]: "others_same T a U R a U"
  by (simp add: others_same_def same_info_def)

lemma others_same_trans:
  assumes "others_same T a U R b V" "others_same T b V R c W"
  shows "others_same T a U R c W"
proof -
  have "U \<union> R - frames T = V \<union> R - frames T" using assms(1) by (auto simp: others_same_def)
  then show ?thesis using assms same_info_trans by (auto simp: others_same_def)
qed

lemma same_info_head: "same_info A a a' \<Longrightarrow> (n, k) \<in> A \<Longrightarrow> pinfo (sections a') n = pinfo (sections a) n"
  using fst_in_blk [of "(n, k)"] by (force simp: same_info_def)

lemma ref_of_same: "pinfo (sections a') n = pinfo (sections a) n \<Longrightarrow> ref_of a' n = ref_of a n"
  by (simp add: ref_of_def)

lemma free_one:
  assumes ok: "refs_ok D T c a U R" and n: "pfn_ok n" "n \<in> D \<Longrightarrow> n \<in> T" "n \<in> D \<Longrightarrow> 0 < c n"
  shows "\<exists>a' U'. handle_free_action (pframe n) None a = Inr a' \<and> refs_ok D T (c(n := c n - 1)) a' U' R \<and>
    others_same T a U R a' U'"
proof (cases "n \<in> D")
  case False
  then have "pinfo (sections a) n = None" using refs_okD(2) [OF ok] by blast
  then have "get_page_info (sections a) (pframe n) = Inr None"
    using get_page_info_cases [OF alloc_ok_wf [OF refs_okD(1) [OF ok]] n(1)] by (metis option.distinct(1))
  then have "handle_free_action (pframe n) None a = Inr a" by (simp add: handle_free_action_def)
  moreover have "refs_ok D T (c(n := c n - 1)) a U R"
    using False refs_okD(3) [OF ok] by (intro refs_ok_cong [OF ok]) auto
  ultimately show ?thesis by auto
next
  case True
  then have t: "n \<in> T" "c n \<noteq> 0" using n by auto
  note al = refs_okD(1) [OF ok]
  have u: "(n, 0) \<in> U" using refs_okD(5) [OF ok t] .
  obtain k where k: "ref_of a n = Some (c n, k)" using refs_okD(6) [OF ok t] by blast
  obtain r where r: "owns (sections a) n r" "get_page_info (sections a) (pframe n) = Inr (Some r)"
    using live_head_info [OF al u] by blast
  obtain a' where a': "drop_ref r (pframe n) a = Inr a'" "phys_mem a' = phys_mem a"
    "same_info (U \<union> R - {(n, 0)}) a a'" "alloc_ok a' (if c n \<le> 1 then U - {(n, 0)} else U) R"
    "c n \<le> 1 \<or> ref_of a' n = abs_remove_ref (c n, k)" "dom (pinfo (sections a')) = dom (pinfo (sections a))"
    by (rule drop_ref_cases_dom [OF al u k r(1)])
  let ?U = "if c n \<le> 1 then U - {(n, 0)} else U"
  have "handle_free_action (pframe n) None a = Inr a'"
    using r(2) a'(1) by (simp add: handle_free_action_def drop_ref_def Let_def)
  moreover have "refs_ok D T (c(n := c n - 1)) a' ?U R"
    unfolding refs_ok_def
  proof (intro conjI ballI)
    fix m assume m: "m \<in> T"
    have "(m, 0) \<in> U \<Longrightarrow> m \<noteq> n \<Longrightarrow> ref_of a' m = ref_of a m"
      using same_info_head [OF a'(3), of m 0] by (intro ref_of_same) auto
    then show "if (c(n := c n - 1)) m = 0 then (m, 0) \<notin> ?U
        else (m, 0) \<in> ?U \<and> (\<exists>k. ref_of a' m = Some ((c(n := c n - 1)) m, k))"
      using refs_okD(4-6) [OF ok m] a'(5) t u by (auto split: if_splits)
  qed (use a'(4,6) refs_okD(2,3) [OF ok] in auto)
  moreover have "others_same T a U R a' ?U"
    using a'(2,3) t(1) by (auto simp: others_same_def same_info_def)
  ultimately show ?thesis by blast
qed

text \<open>The references that a list of queued frees stands for.\<close>

definition dues :: "(frame \<times> nat option) list \<Rightarrow> nat \<Rightarrow> nat" where
  "dues es n = count_list es (pframe n, None)"

definition known_frees :: "nat set \<Rightarrow> nat set \<Rightarrow> (frame \<times> nat option) list \<Rightarrow> bool" where
  "known_frees D T es \<longleftrightarrow> (\<forall>(f, k)\<in>set es. known_frame D T f \<and> k = None)"

lemma known_frees_simps [simp]:
  "known_frees D T []"
  "known_frees D T ((f, k) # es) \<longleftrightarrow> known_frame D T f \<and> k = None \<and> known_frees D T es"
  "known_frees D T (es @ fs) \<longleftrightarrow> known_frees D T es \<and> known_frees D T fs"
  by (auto simp: known_frees_def)

lemma dues_simps [simp]:
  "dues [] n = 0"
  "dues (es @ fs) n = dues es n + dues fs n"
  by (simp_all add: dues_def)

lemma dues_Cons: "pfn_ok n \<Longrightarrow> pfn_ok m \<Longrightarrow> dues ((pframe n, None) # es) m = (if n = m then 1 else 0) + dues es m"
  by (auto simp: dues_def pframe_eq_iff)

lemma free_all_refs:
  assumes "refs_ok D T (\<lambda>n. c n + dues es n) a U R" "known_frees D T es"
  shows "\<exists>a' U'. free_all es a = Inr a' \<and> refs_ok D T c a' U' R \<and> others_same T a U R a' U'"
  using assms
proof (induction es arbitrary: a U)
  case Nil
  then show ?case by (auto intro!: exI [of _ U])
next
  case (Cons e es)
  obtain f k where e: "e = (f, k)" by (cases e)
  then obtain n where n: "pfn_ok n" "f = pframe n" "n \<in> D \<Longrightarrow> n \<in> T" and k: "k = None"
    using Cons.prems(2) by (auto elim: known_frameE)
  let ?c = "\<lambda>m. c m + dues (e # es) m"
  have "0 < ?c n" using n k e by (simp add: dues_Cons)
  then obtain a1 U1 where a1: "handle_free_action (pframe n) None a = Inr a1" "refs_ok D T (?c(n := ?c n - 1)) a1 U1 R"
    "others_same T a U R a1 U1" using free_one [OF Cons.prems(1) n(1,3)] by blast
  have "refs_ok D T (\<lambda>m. c m + dues es m) a1 U1 R"
    using refs_pfn_ok [OF Cons.prems(1)] n k e by (intro refs_ok_cong [OF a1(2)]) (auto simp: dues_Cons)
  then obtain a2 U2 where "free_all es a1 = Inr a2" "refs_ok D T c a2 U2 R" "others_same T a1 U1 R a2 U2"
    using Cons.IH Cons.prems(2) e by fastforce
  then show ?case using a1 others_same_trans [OF a1(3)] n k e by auto
qed

section \<open>Flushers\<close>

text \<open>
  \<open>flusher_ok\<close> is what a flusher needs to work.  Whatever is queued, the references of the queue and
  the one that the new entry stands for are paid off by a flush now or remain in the queue.
\<close>

definition flusher_ok :: "flusher \<Rightarrow> nat \<Rightarrow> bool" where
  "flusher_ok f cpu \<longleftrightarrow> length (fl_active_cpus f) = SET_WORDS \<and> cpu < MAX_CPU_COUNT"

abbreviation queued :: "flusher \<Rightarrow> nat \<Rightarrow> nat" where
  "queued f \<equiv> dues (free_entries (fl_pagequeue f))"

abbreviation queue_known :: "nat set \<Rightarrow> nat set \<Rightarrow> flusher \<Rightarrow> bool" where
  "queue_known D T f \<equiv> known_frees D T (free_entries (fl_pagequeue f))"

lemma Flusher_queue_refs:
  assumes f: "flusher_ok f cpu" "queue_known D T f" and x: "TLB_FREE act \<longrightarrow> known_frame D T (pframe x) \<and> k = None"
    and ok: "refs_ok D T (\<lambda>n. c n + queued f n + (if TLB_FREE act then dues [(pframe x, None)] n else 0)) a U R"
  shows "\<exists>f' a' U' evs. Flusher_queue cpu (pframe x) k act f a = Inr (f', a', evs) \<and> flusher_ok f' cpu \<and> queue_known D T f' \<and>
    refs_ok D T (\<lambda>n. c n + queued f' n) a' U' R \<and> others_same T a U R a' U'"
proof -
  let ?new = "if TLB_FREE act then [(pframe x, k)] else []"
  obtain f' evs where q: "length (fl_active_cpus f') = SET_WORDS"
    "event_frees evs @ free_entries (fl_pagequeue f') = free_entries (fl_pagequeue f) @ ?new"
    "\<forall>a. Flusher_queue cpu (pframe x) k act f a = bindE (free_all (event_frees evs) a) (\<lambda>a. Inr (f', a, evs))"
    using queue_ok [of f cpu act "pframe x" k] f(1) by (auto simp: flusher_ok_def)
  have du: "dues (event_frees evs) n + queued f' n = queued f n + (if TLB_FREE act then dues [(pframe x, None)] n else 0)" for n
    using arg_cong [OF q(2), of "\<lambda>es. dues es n"] x by (simp split: if_splits)
  have kn: "known_frees D T (event_frees evs @ free_entries (fl_pagequeue f'))"
    unfolding q(2) using f(2) x by simp
  have "refs_ok D T (\<lambda>n. (c n + queued f' n) + dues (event_frees evs) n) a U R"
    by (rule refs_ok_cong [OF ok]) (use du in \<open>simp add: add.commute add.left_commute\<close>)
  then obtain a' U' where "free_all (event_frees evs) a = Inr a'" "refs_ok D T (\<lambda>n. c n + queued f' n) a' U' R"
    "others_same T a U R a' U'" using free_all_refs kn by fastforce
  then show ?thesis using q(1,3) kn f(1) by (auto simp: flusher_ok_def)
qed

lemma Flusher_flush_refs:
  assumes f: "flusher_ok f cpu" "queue_known D T f" and ok: "refs_ok D T (\<lambda>n. c n + queued f n) a U R"
  shows "\<exists>f' a' U' evs. Flusher_flush cpu f a = Inr (f', a', evs) \<and> flusher_ok f' cpu \<and> fl_pagequeue f' = [] \<and>
    refs_ok D T c a' U' R \<and> others_same T a U R a' U'"
proof -
  obtain d evs where e: "\<forall>a. Flusher_flush cpu f a = bindE (free_all (free_entries (fl_pagequeue f)) a)
      (\<lambda>a. Inr (f\<lparr>fl_pagequeue := [], fl_dirty := d\<rparr>, a, evs))"
    using flush_ok [of f cpu] f(1) by (auto simp: flusher_ok_def)
  obtain a' U' where "free_all (free_entries (fl_pagequeue f)) a = Inr a'" "refs_ok D T c a' U' R" "others_same T a U R a' U'"
    using free_all_refs [OF ok f(2)] by blast
  then show ?thesis using e f(1) by (auto simp: flusher_ok_def)
qed

end
