(* ===== verification/Space_Books.thy ===== *)
theory Space_Books
  imports Mem_Accounting
begin

text \<open>
  The books of an address space: its page table maps only frames that are accounted, and the
  references of a frame are its mappings in this table, the frees queued in the flusher of the space,
  and whatever holds it elsewhere (\<open>ext\<close>).
\<close>

section \<open>Page tables\<close>

definition USER_PAGES :: nat where "USER_PAGES = USER_END_OFFSET div 4096"

definition tr :: "('m, 'f) mapper_ops \<Rightarrow> 'm \<Rightarrow> page \<Rightarrow> (usize \<times> 'f) option" where
  "tr M t p = mo_translate M t (p * 4096)"

definition pages_of :: "('m, 'f) mapper_ops \<Rightarrow> 'm \<Rightarrow> nat \<Rightarrow> page set" where
  "pages_of M t n = {p. p < USER_PAGES \<and> (\<exists>fl. tr M t p = Some (physaddr (pframe n), fl))}"

definition mapcount :: "('m, 'f) mapper_ops \<Rightarrow> 'm \<Rightarrow> nat \<Rightarrow> nat" where
  "mapcount M t n = card (pages_of M t n)"

definition table_known :: "('m, 'f) mapper_ops \<Rightarrow> nat set \<Rightarrow> nat set \<Rightarrow> 'm \<Rightarrow> bool" where
  "table_known M D T t \<longleftrightarrow> (\<forall>p ph fl. p < USER_PAGES \<longrightarrow> tr M t p = Some (ph, fl) \<longrightarrow>
     (\<exists>n. pfn_ok n \<and> ph = physaddr (pframe n) \<and> (n \<in> D \<longrightarrow> n \<in> T)))"

lemma user_page_addr: "p < USER_PAGES \<Longrightarrow> Page_start_address p = p * 4096"
  by (simp add: USER_PAGES_def Page_start_address_def USER_END_OFFSET_def PML4_SIZE_def u_mul_def USIZE_LIM_def)

lemma pages_of_finite [simp]: "finite (pages_of M t n)"
  by (rule finite_subset [of _ "{..<USER_PAGES}"]) (auto simp: pages_of_def)

lemma physaddr_pframe_eq: "pfn_ok n \<Longrightarrow> pfn_ok m \<Longrightarrow> physaddr (pframe n) = physaddr (pframe m) \<longleftrightarrow> n = m"
  using pframe_eq_iff [of n m] by (metis frame.expand)

lemma pages_of_upd:
  assumes t': "\<And>q. q < USER_PAGES \<Longrightarrow> tr M t' q = (if q = p then None else tr M t q)"
  shows "pages_of M t' n = pages_of M t n - {p}"
  using t' by (auto simp: pages_of_def split: if_splits)

lemma mapcount_unmap:
  assumes t': "\<And>q. q < USER_PAGES \<Longrightarrow> tr M t' q = (if q = p then None else tr M t q)"
    and p: "p < USER_PAGES" "tr M t p = Some (physaddr (pframe x), fl)" and x: "pfn_ok x" "pfn_ok n"
  shows "mapcount M t n = mapcount M t' n + dues [(pframe x, None)] n"
proof -
  have pg: "pages_of M t' n = pages_of M t n - {p}" by (rule pages_of_upd [OF t'])
  show ?thesis
  proof (cases "n = x")
    case True
    then have "p \<in> pages_of M t n" using p by (auto simp: pages_of_def)
    then have "card (pages_of M t n) = Suc (card (pages_of M t n - {p}))" by (intro card.remove pages_of_finite)
    then show ?thesis using True x unfolding mapcount_def pg by (simp add: dues_Cons)
  next
    case False
    then have "p \<notin> pages_of M t n" using p x by (auto simp: pages_of_def physaddr_pframe_eq)
    then have "pages_of M t n - {p} = pages_of M t n" by blast
    then show ?thesis using False x unfolding mapcount_def pg by (simp add: dues_Cons)
  qed
qed

section \<open>What the mapper does to the allocator\<close>

text \<open>
  Unmapping may give back frames of page tables, \<open>tabs t\<close>, and touches no other block in use.
\<close>

definition mapper_frees :: "('m, 'f) mapper_ops \<Rightarrow> ('m \<Rightarrow> nat set) \<Rightarrow> bool" where
  "mapper_frees M tabs \<longleftrightarrow> (\<forall>t v a U R. alloc_ok a U R \<longrightarrow> frames (tabs t) \<subseteq> U \<longrightarrow>
     (\<exists>a' t' r. mo_unmap_phys M t v a = Inr (a', t', r) \<and> tabs t' \<subseteq> tabs t \<and>
        alloc_ok a' (U - frames (tabs t - tabs t')) R \<and> dom (pinfo (sections a')) = dom (pinfo (sections a)) \<and>
        same_info (U \<union> R - frames (tabs t)) a a'))"

lemma refs_ok_tables:
  assumes ok: "refs_ok D T c a U R" and t: "T \<inter> S = {}"
    and a': "alloc_ok a' U' R" "dom (pinfo (sections a')) = dom (pinfo (sections a))"
    and same: "same_info (U \<union> R - frames S) a a'" "U' - frames S = U - frames S"
  shows "refs_ok D T c a' U' R"
  unfolding refs_ok_def
proof (intro conjI ballI)
  fix n assume n: "n \<in> T"
  then have nS: "(n, 0) \<notin> frames S" using t by auto
  have "ref_of a' n = ref_of a n" if "(n, 0) \<in> U"
    using same_info_head [OF same(1), of n 0] that nS by (intro ref_of_same) auto
  moreover have "(n, 0) \<in> U' \<longleftrightarrow> (n, 0) \<in> U" using same(2) nS by blast
  ultimately show "if c n = 0 then (n, 0) \<notin> U' else (n, 0) \<in> U' \<and> (\<exists>k. ref_of a' n = Some (c n, k))"
    using refs_okD(4-6) [OF ok n] by auto
qed (use a' refs_okD(2,3) [OF ok] in auto)

section \<open>The invariant of an address space\<close>

definition books ::
    "('m, 'f) mapper_ops \<Rightarrow> ('m \<Rightarrow> nat set) \<Rightarrow> nat set \<Rightarrow> nat set \<Rightarrow> (nat \<Rightarrow> nat) \<Rightarrow> block set \<Rightarrow> space_id \<Rightarrow> ('m, 'f) world \<Rightarrow> block set \<Rightarrow> bool" where
  "books M tabs D T ext R s w U \<longleftrightarrow>
     (let t = as_table (w_spaces w s); f = w_flushers w s in
      table_known M D T t \<and> flusher_ok f (w_cpu w) \<and> queue_known D T f \<and>
      refs_ok D T (\<lambda>n. mapcount M t n + ext n + queued f n) (w_alloc w) U R \<and>
      frames (tabs t) \<subseteq> U \<and> T \<inter> tabs t = {})"

lemma booksD:
  assumes "books M tabs D T ext R s w U"
  shows "table_known M D T (as_table (w_spaces w s))" "flusher_ok (w_flushers w s) (w_cpu w)"
    "queue_known D T (w_flushers w s)"
    "refs_ok D T (\<lambda>n. mapcount M (as_table (w_spaces w s)) n + ext n + queued (w_flushers w s) n) (w_alloc w) U R"
    "frames (tabs (as_table (w_spaces w s))) \<subseteq> U" "T \<inter> tabs (as_table (w_spaces w s)) = {}"
  using assms by (auto simp: books_def Let_def)

text \<open>The rest of the world stays as it was.\<close>

definition only_table :: "space_id \<Rightarrow> ('m, 'f) world \<Rightarrow> ('m, 'f) world \<Rightarrow> bool" where
  "only_table s w w' \<longleftrightarrow> (\<exists>a t f evs. w' = w\<lparr>w_alloc := a, w_spaces := (w_spaces w)(s := (w_spaces w s)\<lparr>as_table := t\<rparr>),
     w_flushers := (w_flushers w)(s := f), w_events := evs\<rparr>)"

lemma only_table_refl [simp]: "only_table s w w"
  unfolding only_table_def
  by (intro exI [of _ "w_alloc w"] exI [of _ "as_table (w_spaces w s)"] exI [of _ "w_flushers w s"] exI [of _ "w_events w"]) simp

lemma only_table_trans: "only_table s w w1 \<Longrightarrow> only_table s w1 w2 \<Longrightarrow> only_table s w w2"
  unfolding only_table_def by (elim exE) (hypsubst, simp, blast?)

lemma only_tableD:
  assumes "only_table s w w'"
  shows "as_grants (w_spaces w' s') = as_grants (w_spaces w s')" "w_locked w' = w_locked w" "w_cpu w' = w_cpu w"
    "as_used_by (w_spaces w' s') = as_used_by (w_spaces w s')" "s' \<noteq> s \<Longrightarrow> w_spaces w' s' = w_spaces w s'"
    "w_zeroed_frame w' = w_zeroed_frame w" "as_mmap_min (w_spaces w' s') = as_mmap_min (w_spaces w s')"
  using assms by (auto simp: only_table_def)

lemma only_tableI:
  "only_table s w (w\<lparr>w_alloc := a, w_spaces := (w_spaces w)(s := (w_spaces w s)\<lparr>as_table := t\<rparr>),
     w_flushers := (w_flushers w)(s := f), w_events := evs\<rparr>)"
  by (auto simp: only_table_def)

lemma queue_books:
  assumes b: "flusher_ok (w_flushers w s) (w_cpu w)" "queue_known D T (w_flushers w s)" "table_known M D T (as_table (w_spaces w s))"
      "frames (tabs (as_table (w_spaces w s))) \<subseteq> U" "T \<inter> tabs (as_table (w_spaces w s)) = {}"
    and ok: "refs_ok D T (\<lambda>n. mapcount M (as_table (w_spaces w s)) n + ext n + queued (w_flushers w s) n +
      (if TLB_FREE act then dues [(pframe x, None)] n else 0)) (w_alloc w) U R"
    and x: "TLB_FREE act \<longrightarrow> known_frame D T (pframe x) \<and> k = None"
  shows "runs (queueM (FlusherOf s) (pframe x) k act) w (\<lambda>w' r. r = Inr () \<and> only_table s w w' \<and>
    as_table (w_spaces w' s) = as_table (w_spaces w s) \<and> (\<exists>U'. books M tabs D T ext R s w' U'))"
proof -
  let ?f = "w_flushers w s" and ?t = "as_table (w_spaces w s)"
  obtain f' a' U' evs where q: "Flusher_queue (w_cpu w) (pframe x) k act ?f (w_alloc w) = Inr (f', a', evs)"
    "flusher_ok f' (w_cpu w)" "queue_known D T f'" "refs_ok D T (\<lambda>n. (mapcount M ?t n + ext n) + queued f' n) a' U' R"
    "others_same T (w_alloc w) U R a' U'"
    using Flusher_queue_refs [OF b(1,2) x ok] by blast
  let ?w = "w\<lparr>w_flushers := (w_flushers w)(s := f'), w_alloc := a', w_events := w_events w @ evs\<rparr>"
  have "frames (tabs ?t) \<subseteq> U - frames T" using b(4,5) by auto
  then have "frames (tabs ?t) \<subseteq> U'" using q(5) unfolding others_same_def by blast
  then have "books M tabs D T ext R s ?w U'" using q b(3,5) by (simp add: books_def)
  moreover have "only_table s w ?w" unfolding only_table_def
    by (intro exI [of _ a'] exI [of _ ?t] exI [of _ f'] exI [of _ "w_events w @ evs"]) simp
  ultimately show ?thesis using q(1) by (intro runsI) auto
qed

lemma containing_frame: "pfn_ok n \<Longrightarrow> Frame_containing (physaddr (pframe n)) = Inr (pframe n)"
  using Frame_containing_pframe [of n] by (simp add: pfn_ok_def)

text \<open>One page: whatever was mapped is unmapped and its reference goes to the flusher.\<close>

lemma unmap_page_books:
  assumes laws: "mapper_laws M" "mapper_frees M tabs" and b: "books M tabs D T ext R s w U" and p: "p < USER_PAGES"
  shows "runs (bindM (unmap_physM M s p) (\<lambda>t. case t of
          None \<Rightarrow> retM True
        | Some (phys, _) \<Rightarrow> bindM (containingM phys) (\<lambda>frame. bindM (queueM (FlusherOf s) frame None FREE) (\<lambda>_. retM True)))) w
    (\<lambda>w' r. r = Inr True \<and> only_table s w w' \<and> (\<exists>U'. books M tabs D T ext R s w' U') \<and>
      (\<forall>q<USER_PAGES. tr M (as_table (w_spaces w' s)) q = (if q = p then None else tr M (as_table (w_spaces w s)) q)))"
proof -
  let ?t = "as_table (w_spaces w s)" and ?f = "w_flushers w s"
  note B = booksD [OF b]
  obtain a' t' r where u: "mo_unmap_phys M ?t (Page_start_address p) (w_alloc w) = Inr (a', t', r)" "tabs t' \<subseteq> tabs ?t"
    "alloc_ok a' (U - frames (tabs ?t - tabs t')) R" "dom (pinfo (sections a')) = dom (pinfo (sections (w_alloc w)))"
    "same_info (U \<union> R - frames (tabs ?t)) (w_alloc w) a'"
    using laws(2) refs_okD(1) [OF B(4)] B(5) unfolding mapper_frees_def by meson
  let ?U = "U - frames (tabs ?t - tabs t')"
  have r: "r = tr M ?t p" and tr': "\<And>q. q < USER_PAGES \<Longrightarrow> tr M t' q = (if q = p then None else tr M ?t q)"
    using laws(1) u(1) user_page_addr [OF p] unfolding mapper_laws_def tr_def by auto
  let ?w = "(upd_space s (\<lambda>sp. sp\<lparr>as_table := t'\<rparr>) w)\<lparr>w_alloc := a'\<rparr>"
  have ow: "only_table s w ?w" unfolding only_table_def upd_space_def
    by (intro exI [of _ a'] exI [of _ t'] exI [of _ ?f] exI [of _ "w_events w"]) simp
  have tab: "frames (tabs t') \<subseteq> ?U" "T \<inter> tabs t' = {}" using B(5,6) u(2) by auto
  have tk: "table_known M D T t'" using B(1) tr' by (auto simp: table_known_def)
  have refs: "refs_ok D T (\<lambda>n. mapcount M ?t n + ext n + queued ?f n) a' ?U R"
    using B(6) u(3-5) by (intro refs_ok_tables [OF B(4)]) auto
  show ?thesis
  proof (cases "tr M ?t p")
    case None
    then have same: "tr M t' q = tr M ?t q" if "q < USER_PAGES" for q using tr' that by simp
    then have "pages_of M t' n = pages_of M ?t n" for n by (auto simp: pages_of_def)
    then have "books M tabs D T ext R s ?w ?U" using refs tab tk B(2,3) by (simp add: books_def upd_space_def mapcount_def)
    then show ?thesis using u(1) r None ow same
      by (auto simp: runs_simps unmap_physM_def runs_iff upd_space_def intro!: exI [of _ ?U] simp del: Product_Type.split_paired_Ex)
  next
    case (Some e)
    obtain ph fl where e: "e = (ph, fl)" by (cases e)
    then obtain x where x: "pfn_ok x" "ph = physaddr (pframe x)" "x \<in> D \<longrightarrow> x \<in> T"
      using B(1) Some p by (auto simp: table_known_def)
    have "refs_ok D T (\<lambda>n. mapcount M t' n + ext n + queued ?f n + dues [(pframe x, None)] n) a' ?U R"
      using mapcount_unmap [OF tr' p] Some e x refs_pfn_ok [OF refs] by (intro refs_ok_cong [OF refs]) auto
    moreover have "known_frame D T (pframe x)" using x by (auto simp: known_frame_def)
    ultimately have q: "runs (queueM (FlusherOf s) (pframe x) None FREE) ?w (\<lambda>w' r. r = Inr () \<and> only_table s ?w w' \<and>
        as_table (w_spaces w' s) = as_table (w_spaces ?w s) \<and> (\<exists>U'. books M tabs D T ext R s w' U'))"
      using B(2,3) tk tab by (intro queue_books [of ?w s D T M tabs ?U ext]) (simp_all add: upd_space_def)
    have "runs (unmap_physM M s p) w (\<lambda>w' r'. w' = ?w \<and> r' = Inr r)"
      using u(1) by (simp add: unmap_physM_def runs_def)
    then show ?thesis unfolding runs_bindM
    proof (rule runs_mono, goal_cases)
      case (1 w' r')
      have "runs (bindM (queueM (FlusherOf s) (pframe x) None FREE) (\<lambda>_. retM True)) ?w
        (\<lambda>w' r. r = Inr True \<and> only_table s w w' \<and> (\<exists>U'. books M tabs D T ext R s w' U') \<and>
          (\<forall>q<USER_PAGES. tr M (as_table (w_spaces w' s)) q = (if q = p then None else tr M ?t q)))"
        unfolding runs_bindM
        by (rule runs_mono [OF q]) (use tr' only_table_trans [OF ow] in \<open>auto simp: runs_simps upd_space_def\<close>)
      with 1 show ?case using r Some e x(1,2)
        by (simp add: runs_simps containingM_def containing_frame)
    qed
  qed
qed

lemma unmap_pages_books:
  assumes laws: "mapper_laws M" "mapper_frees M tabs" and b: "books M tabs D T ext R s w U" and ps: "\<forall>p\<in>set ps. p < USER_PAGES"
  shows "runs (unmap_pages M s (FlusherOf s) ps) w (\<lambda>w' r. r = Inr () \<and> only_table s w w' \<and> (\<exists>U'. books M tabs D T ext R s w' U') \<and>
      (\<forall>q<USER_PAGES. tr M (as_table (w_spaces w' s)) q = (if q \<in> set ps then None else tr M (as_table (w_spaces w s)) q)))"
  unfolding unmap_pages_def
proof (rule runs_forM)
  fix w1 pre p post
  assume xs: "ps = pre @ p # post" and I: "only_table s w w1 \<and> (\<exists>U'. books M tabs D T ext R s w1 U') \<and>
      (\<forall>q<USER_PAGES. tr M (as_table (w_spaces w1 s)) q = (if q \<in> set pre then None else tr M (as_table (w_spaces w s)) q))"
  then obtain U1 where U1: "books M tabs D T ext R s w1 U1" by blast
  show "runs (bindM (unmap_physM M s p) (\<lambda>t. case t of
          None \<Rightarrow> retM True
        | Some (phys, _) \<Rightarrow> bindM (containingM phys) (\<lambda>frame. bindM (queueM (FlusherOf s) frame None FREE) (\<lambda>_. retM True)))) w1
    (\<lambda>w' r. r = Inr True \<and> only_table s w w' \<and> (\<exists>U'. books M tabs D T ext R s w' U') \<and>
      (\<forall>q<USER_PAGES. tr M (as_table (w_spaces w' s)) q = (if q \<in> set (pre @ [p]) then None else tr M (as_table (w_spaces w s)) q)))"
    by (rule runs_mono [OF unmap_page_books [OF laws U1]]) (use I xs ps only_table_trans in auto)
qed (use b in auto)

end
