(* ===== verification/Munmap_Correct.thy ===== *)
theory Munmap_Correct
  imports Space_Books Addr_Space
begin

text \<open>
  Unmapping a range of an address space: the grants, the page table and the references of frames
  change exactly on the requested pages.
\<close>

section \<open>Taking a part out of a grant\<close>

text \<open>Grants that the unmapping of their own pages concerns only: neither borrowed from another address
  space nor pinned, nor physically contiguous.\<close>

fun plain :: "provider \<Rightarrow> bool" where
  "plain (Allocated _ pc) = (\<not> pc)"
| "plain (AllocatedShared pinned) = (\<not> pinned)"
| "plain (PhysBorrowed _) = True"
| "plain (External _ _ _) = False"
| "plain (FmapBorrowed _ n) = (n = 0)"

text \<open>What a page shows: its flags, whether it is mapped, and what backs it.\<close>

definition back_view :: "'f user_grants \<Rightarrow> page \<Rightarrow> ('f \<times> bool \<times> backing) option" where
  "back_view u p = map_option (\<lambda>(f, m, q). (f, m, provider_backing q 0)) (page_view u p)"

lemma plain_props:
  assumes "plain (gi_provider i)"
  shows "\<not> is_pinned i" "can_extract i b" "unpin i = i" "\<not> is_external (gi_provider i)"
  using assms by (cases "gi_provider i"; simp add: is_pinned_def can_extract_def unpin_def)+

lemma plain_at [simp]: "plain (provider_at p k) = plain p"
  by (cases "(p, k)" rule: provider_at.cases) auto

lemma provider_at_backing:
  assumes "provider_in_range p n" "k \<le> n"
  shows "provider_backing (provider_at p k) 0 = provider_backing p k"
proof (cases "(p, k)" rule: provider_at.cases)
  case (4 b k')
  then have "pfn_ok (frame_pfn b + k)" using assms by (auto elim!: frame_okE simp: pfn_ok_def)
  then show ?thesis using 4 by simp
qed auto

lemma page_attr_backing:
  assumes "grant_ok g" "p \<in> grant_set g"
  shows "(\<lambda>(f, m, q). (f, m, provider_backing q 0)) (page_attr (g_base g) (g_info g) p) =
    (gi_flags (g_info g), gi_mapped (g_info g), backing_of g p)"
proof -
  have "p - g_base g \<le> gi_page_count (g_info g)" using assms(2) by (auto simp: grant_set_def Grant_span_def)
  then show ?thesis using assms(1) provider_at_backing [of "gi_provider (g_info g)" "gi_page_count (g_info g)" "p - g_base g"]
    by (simp add: page_attr_def backing_of_def grant_ok_def)
qed

lemma part_of_view:
  assumes "part_of g x" "grant_ok g" "plain (gi_provider (g_info g))" "p \<in> grant_set x" "grant_set x \<subseteq> grant_set g"
  shows "(\<lambda>(f, m, q). (f, m, provider_backing q 0)) (page_attr (g_base x) (g_info x) p) =
    (\<lambda>(f, m, q). (f, m, provider_backing q 0)) (page_attr (g_base g) (g_info g) p)"
proof -
  have "p \<in> grant_set g" using assms(4,5) by blast
  then show ?thesis
    using assms(1,3,4) page_attr_backing [OF _ assms(4)] page_attr_backing [OF assms(2)] plain_props(4) [of "g_info g"]
    by (auto simp: part_of_def)
qed

lemma middle_plain: "provider_middle n p = Inr q \<Longrightarrow> plain p \<Longrightarrow> plain q"
  by (cases "(n, p)" rule: provider_middle.cases) (auto simp: bindE_Inr_iff)

lemma extract_plain:
  assumes "Grant_extract g s = Inr (Some (b, m, a))" "plain (gi_provider (g_info g))"
  shows "plain (gi_provider (g_info m))"
proof -
  obtain n q where "provider_middle n (gi_provider (g_info g)) = Inr q" "gi_provider (g_info m) = q"
    using assms(1) by (auto simp: Grant_extract_def bindE_Inr_iff Let_def grant_part_def split: prod.splits)
  then show ?thesis using middle_plain assms(2) by blast
qed

definition insert_opt :: "'f user_grants \<Rightarrow> 'f grant option \<Rightarrow> 'f user_grants exec" where
  "insert_opt u go = (case go of None \<Rightarrow> Inr u | Some g \<Rightarrow> UserGrants_insert u g)"

lemma insert_opt_ok:
  assumes inv: "grants_inv u" and g: "\<And>g. go = Some g \<Longrightarrow> grant_ok g \<and> (g_base g + gi_page_count (g_info g)) * 4096 \<le> USER_END_OFFSET \<and>
      grant_set g \<inter> used_pages u = {}"
  obtains u' where "insert_opt u go = Inr u'" "grants_inv u'"
    "used_pages u' = used_pages u \<union> (case go of None \<Rightarrow> {} | Some g \<Rightarrow> grant_set g)"
    "\<forall>p. page_view u' p = (case go of Some g \<Rightarrow> if p \<in> grant_set g then Some (page_attr (g_base g) (g_info g) p) else page_view u p | None \<Rightarrow> page_view u p)"
proof (cases go)
  case None
  then show thesis using that [of u] inv by (simp add: insert_opt_def)
next
  case (Some h)
  obtain u' where "UserGrants_insert u h = Inr u'" "grants_inv u'" "used_pages u' = used_pages u \<union> grant_set h"
    "\<forall>p. page_view u' p = (if p \<in> grant_set h then Some (page_attr (g_base h) (g_info h) p) else page_view u p)"
    by (rule insert_ok [OF inv]) (use g [OF Some] in auto)
  then show thesis using that [of u'] Some by (simp add: insert_opt_def)
qed

lemma grant_of_span:
  assumes "Grant_span x = PageSpan_new c n"
  shows "grant_set x = {c..<c + n}" "g_base x = c" "gi_page_count (g_info x) = n"
  using assms by (simp_all add: grant_set_def) (simp_all add: Grant_span_def PageSpan_new_def)

text \<open>
  A grant is removed, split, and the parts outside the span are put back: nothing changes outside.
\<close>

lemma split_grant:
  assumes inv: "grants_inv u" and g: "bt_get (ug_inner u) b = Some i" and pl: "plain (gi_provider i)"
    and sp: "span_set sp \<subseteq> {b..<b + gi_page_count i}" "0 < ps_count sp"
  obtains u1 bf m af u2 u3 where
    "UserGrants_remove u b = (u1, Some \<lparr>g_base = b, g_info = i\<rparr>)"
    "Grant_extract \<lparr>g_base = b, g_info = i\<rparr> sp = Inr (Some (bf, m, af))"
    "insert_opt u1 bf = Inr u2" "insert_opt u2 af = Inr u3" "grants_inv u3"
    "used_pages u3 = used_pages u - span_set sp"
    "\<forall>p\<in>span_set sp. page_view u3 p = None" "\<forall>p. p \<notin> span_set sp \<longrightarrow> back_view u3 p = back_view u p"
    "\<forall>p. p \<notin> {b..<b + gi_page_count i} \<longrightarrow> page_view u3 p = page_view u p"
    "Grant_span m = sp" "gi_mapped (g_info m) = gi_mapped i" "plain (gi_provider (g_info m))" "grant_ok m"
proof -
  let ?g = "\<lparr>g_base = b, g_info = i\<rparr>" and ?B = "{b..<b + gi_page_count i}"
  have inn: "inner_ok (ug_inner u)" using inv by (simp add: grants_inv_def)
  then have gok: "grant_ok ?g" "(b + gi_page_count i) * 4096 \<le> USER_END_OFFSET" using g by (auto simp: inner_ok_def)
  have gs: "grant_set ?g = ?B" by (simp add: grant_set_def Grant_span_def)
  obtain u1 where u1: "UserGrants_remove u b = (u1, Some ?g)" "grants_inv u1" "used_pages u1 = used_pages u - ?B"
    "\<forall>p. page_view u1 p = (if p \<in> ?B then None else page_view u p)" by (rule remove_ok [OF inv g])
  have ce: "can_extract (g_info ?g) False" and sp': "span_set sp \<subseteq> grant_set ?g"
    using plain_props(2) [OF pl] sp(1) gs by simp_all
  obtain bf m af where x: "Grant_extract ?g sp = Inr (Some (bf, m, af))" "part_of ?g m" "Grant_span m = sp"
    "\<forall>x. bf = Some x \<longrightarrow> part_of ?g x" "\<forall>x. af = Some x \<longrightarrow> part_of ?g x"
    "case bf of None \<Rightarrow> ps_base sp = b | Some x \<Rightarrow> Grant_span x = PageSpan_new b (ps_base sp - b) \<and> b < ps_base sp"
    "case af of None \<Rightarrow> ps_base sp + ps_count sp = b + gi_page_count i
       | Some x \<Rightarrow> Grant_span x = PageSpan_new (ps_base sp + ps_count sp) (b + gi_page_count i - (ps_base sp + ps_count sp)) \<and>
           ps_base sp + ps_count sp < b + gi_page_count i"
    by (rule extract_cases [OF gok(1) ce sp' sp(2), unfolded grant.select_convs])
  let ?S = "span_set sp"
  have le: "b \<le> ps_base sp" "ps_base sp + ps_count sp \<le> b + gi_page_count i" using sp by (auto simp: span_set_def)
  have bfs: "grant_set x = {b..<ps_base sp}" "grant_ok x" "(g_base x + gi_page_count (g_info x)) * 4096 \<le> USER_END_OFFSET" if "bf = Some x" for x
    using that x(4,6) le gok(2) grant_of_span [of x b "ps_base sp - b"] by (auto simp: part_of_def)
  have afs: "grant_set x = {ps_base sp + ps_count sp..<b + gi_page_count i}" "grant_ok x"
    "(g_base x + gi_page_count (g_info x)) * 4096 \<le> USER_END_OFFSET" if "af = Some x" for x
    using that x(5,7) le gok(2) grant_of_span [of x "ps_base sp + ps_count sp" "b + gi_page_count i - (ps_base sp + ps_count sp)"]
    by (auto simp: part_of_def)
  obtain u2 where u2: "insert_opt u1 bf = Inr u2" "grants_inv u2"
    "used_pages u2 = used_pages u1 \<union> (case bf of None \<Rightarrow> {} | Some g \<Rightarrow> grant_set g)"
    "\<forall>p. page_view u2 p = (case bf of Some g \<Rightarrow> if p \<in> grant_set g then Some (page_attr (g_base g) (g_info g) p) else page_view u1 p | None \<Rightarrow> page_view u1 p)"
    by (rule insert_opt_ok [OF u1(2), of bf]) (use bfs u1(3) le in \<open>auto simp: set_eq_iff\<close>)
  obtain u3 where u3: "insert_opt u2 af = Inr u3" "grants_inv u3"
    "used_pages u3 = used_pages u2 \<union> (case af of None \<Rightarrow> {} | Some g \<Rightarrow> grant_set g)"
    "\<forall>p. page_view u3 p = (case af of Some g \<Rightarrow> if p \<in> grant_set g then Some (page_attr (g_base g) (g_info g) p) else page_view u2 p | None \<Rightarrow> page_view u2 p)"
    by (rule insert_opt_ok [OF u2(2), of af]) (use afs bfs u1(3) u2(3) le in \<open>auto simp: set_eq_iff split: option.splits\<close>)
  have BS: "?B - ?S = (case bf of None \<Rightarrow> {} | Some g \<Rightarrow> grant_set g) \<union> (case af of None \<Rightarrow> {} | Some g \<Rightarrow> grant_set g)"
    using bfs(1) afs(1) x(6,7) le by (auto simp: span_set_def split: option.splits)
  have sub: "?B \<subseteq> used_pages u" using g gmap_coverI [of "ug_inner u" b i] by (auto simp: used_pages_def)
  have used: "used_pages u3 = used_pages u - ?S"
    unfolding u3(3) u2(3) u1(3) using BS sub sp(1) by blast
  have none: "page_view u3 p = None" if p: "p \<in> ?S" for p
    using p sp(1) bfs(1) afs(1) u1(4) u2(4) u3(4) by (auto simp: span_set_def split: option.splits)
  have out: "page_view u3 p = page_view u p" if "p \<notin> ?B" for p
    using that bfs(1) afs(1) u1(4) u2(4) u3(4) le by (auto split: option.splits)
  have inB: "back_view u3 p = back_view u p" if p: "p \<in> ?B" "p \<notin> ?S" for p
  proof -
    have vu: "page_view u p = Some (page_attr b i p)"
      unfolding page_view_mview by (rule mview_Some [OF inn g p(1)])
    have "\<exists>x. p \<in> grant_set x \<and> page_view u3 p = Some (page_attr (g_base x) (g_info x) p) \<and> part_of ?g x \<and> grant_set x \<subseteq> ?B"
    proof (cases "p < ps_base sp")
      case True
      then obtain x where y: "bf = Some x" using x(6) p(1) by (cases bf) auto
      have "\<forall>z. af = Some z \<longrightarrow> p \<notin> grant_set z" using afs(1) True by simp
      then have "page_view u3 p = page_view u2 p" using u3(4) by (cases af) auto
      moreover have "p \<in> grant_set x" "grant_set x \<subseteq> ?B" using bfs(1) [OF y] True p(1) le by auto
      ultimately show ?thesis using u2(4) y x(4) by (intro exI [of _ x]) simp
    next
      case False
      then have "ps_base sp + ps_count sp \<le> p" using p(2) by (simp add: span_set_def)
      moreover from this obtain x where y: "af = Some x" using x(7) p(1) by (cases af) auto
      ultimately have "p \<in> grant_set x" "grant_set x \<subseteq> ?B" using afs(1) [OF y] p(1) le by auto
      then show ?thesis using u3(4) y x(5) by (intro exI [of _ x]) simp
    qed
    then obtain x where x': "p \<in> grant_set x" "page_view u3 p = Some (page_attr (g_base x) (g_info x) p)" "part_of ?g x"
      "grant_set x \<subseteq> ?B" by blast
    show ?thesis using part_of_view [OF x'(3) gok(1) _ x'(1)] pl x'(4) vu x'(2) gs by (simp add: back_view_def)
  qed
  show thesis
  proof (rule that [OF u1(1) x(1) u2(1) u3(1,2) used])
    show "\<forall>p. p \<notin> ?S \<longrightarrow> back_view u3 p = back_view u p" using inB out by (metis back_view_def)
    show "plain (gi_provider (g_info m))" using extract_plain [OF x(1)] pl by simp
    show "gi_mapped (g_info m) = gi_mapped i" "grant_ok m" using x(2) by (auto simp: part_of_def)
  qed (use none out x(3) in auto)
qed

section \<open>Rounds\<close>

text \<open>Pages are mapped only where there are grants.\<close>

definition space_ok ::
    "('m, 'f) mapper_ops \<Rightarrow> ('m \<Rightarrow> nat set) \<Rightarrow> nat set \<Rightarrow> nat set \<Rightarrow> (nat \<Rightarrow> nat) \<Rightarrow> block set \<Rightarrow> space_id \<Rightarrow> ('m, 'f) world \<Rightarrow> block set \<Rightarrow> bool" where
  "space_ok M tabs D T ext R s w U \<longleftrightarrow> books M tabs D T ext R s w U \<and> grants_inv (as_grants (w_spaces w s)) \<and>
     (\<forall>p<USER_PAGES. tr M (as_table (w_spaces w s)) p \<noteq> None \<longrightarrow> p \<in> used_pages (as_grants (w_spaces w s)))"

text \<open>The pages in \<open>P\<close> are gone, all other pages and all other address spaces are as before.\<close>

definition gone :: "('m, 'f) mapper_ops \<Rightarrow> space_id \<Rightarrow> page set \<Rightarrow> ('m, 'f) world \<Rightarrow> ('m, 'f) world \<Rightarrow> bool" where
  "gone M s P w w' \<longleftrightarrow>
     (\<forall>p\<in>P. page_view (as_grants (w_spaces w' s)) p = None) \<and>
     (\<forall>p. p \<notin> P \<longrightarrow> back_view (as_grants (w_spaces w' s)) p = back_view (as_grants (w_spaces w s)) p) \<and>
     (\<forall>p<USER_PAGES. tr M (as_table (w_spaces w' s)) p = (if p \<in> P then None else tr M (as_table (w_spaces w s)) p)) \<and>
     (\<forall>s'. s' \<noteq> s \<longrightarrow> w_spaces w' s' = w_spaces w s') \<and> w_locked w' = w_locked w \<and> w_cpu w' = w_cpu w \<and>
     as_used_by (w_spaces w' s) = as_used_by (w_spaces w s)"

text \<open>\<open>round_spec\<close> also says that grants that the round does not take apart are untouched.\<close>

lemma set_grants_books:
  "books M tabs D T ext R s (upd_space s (\<lambda>sp. sp\<lparr>as_grants := u\<rparr>) w) U = books M tabs D T ext R s w U"
  by (simp add: books_def upd_space_def)

lemma upd_space_twice [simp]: "upd_space s h (upd_space s k w) = upd_space s (\<lambda>sp. h (k sp)) w"
  by (simp add: upd_space_def)

lemma upd_space_get [simp]: "w_spaces (upd_space s h w) s = h (w_spaces w s)" "s' \<noteq> s \<Longrightarrow> w_spaces (upd_space s h w) s' = w_spaces w s'"
  by (simp_all add: upd_space_def)

lemma upd_space_other [simp]: "w_locked (upd_space s h w) = w_locked w" "w_cpu (upd_space s h w) = w_cpu w"
  "w_alloc (upd_space s h w) = w_alloc w" "w_flushers (upd_space s h w) = w_flushers w"
  by (simp_all add: upd_space_def)

lemma upd_grants_same: "upd_space s (\<lambda>sp. sp\<lparr>as_grants := as_grants (w_spaces w s)\<rparr>) w = w"
  by (simp add: upd_space_def)

lemma insert_optM_run:
  assumes "insert_opt (as_grants (w_spaces w s)) go = Inr u"
  shows "insert_optM s go w = Inr (upd_space s (\<lambda>sp. sp\<lparr>as_grants := u\<rparr>) w, Inr ())"
proof (cases go)
  case None
  then have "u = as_grants (w_spaces w s)" using assms by (simp add: insert_opt_def)
  then show ?thesis using None by (simp add: insert_optM_def upd_grants_same)
next
  case (Some g)
  then show ?thesis using assms
    by (simp add: insert_optM_def insert_opt_def insert_grantM_def grantsM_def set_grantsM_def bindM_def)
qed

lemma PageSpan_pages_small: "span_ok s \<Longrightarrow> PageSpan_pages s = [ps_base s..<ps_base s + ps_count s]"
proof -
  assume s: "span_ok s"
  have "Page_next_by (ps_base s) i = ps_base s + i" if "i < ps_count s" for i
    using span_okD(2) [OF s] that by (simp add: Page_next_by_def)
  then have "PageSpan_pages s = map (\<lambda>i. i + ps_base s) [0..<ps_count s]" by (simp add: PageSpan_pages_def add.commute)
  then show ?thesis by (simp only: map_add_upt) (simp add: add.commute)
qed

lemma Grant_unmap_eq:
  assumes "gi_mapped (g_info g)" "plain (gi_provider (g_info g))"
  shows "Grant_unmap M F s fl g = bindM (unmap_pages M s fl (PageSpan_pages (Grant_span g))) (\<lambda>_. retM (unmap_result_of F (g_info g)))"
  using assms plain_props(1) [OF assms(2)]
  by (cases "gi_provider (g_info g)") (simp_all add: Grant_unmap_def bindM_assertM)

lemma Grant_unmap_plain:
  assumes laws: "mapper_laws M" "mapper_frees M tabs" and b: "books M tabs D T ext R s w U"
    and g: "gi_mapped (g_info g)" "plain (gi_provider (g_info g))" "span_ok (Grant_span g)" "\<forall>p\<in>grant_set g. p < USER_PAGES"
  shows "runs (Grant_unmap M F s (FlusherOf s) g) w (\<lambda>w' r. r = Inr (unmap_result_of F (g_info g)) \<and> only_table s w w' \<and>
      (\<exists>U'. books M tabs D T ext R s w' U') \<and>
      (\<forall>q<USER_PAGES. tr M (as_table (w_spaces w' s)) q = (if q \<in> grant_set g then None else tr M (as_table (w_spaces w s)) q)))"
proof -
  have st: "set (PageSpan_pages (Grant_span g)) = grant_set g"
    using PageSpan_pages_small [OF g(3)] by (simp add: grant_set_def span_set_def)
  show ?thesis unfolding Grant_unmap_eq [OF g(1,2)] runs_bindM st [symmetric]
    by (rule runs_mono [OF unmap_pages_books [OF laws b]]) (use g(4) st in \<open>auto simp: runs_simps\<close>)
qed

lemma munmap_round_gone:
  fixes M :: "('m, 'f) mapper_ops"
  assumes laws: "mapper_laws M" "mapper_frees M tabs" and ok: "space_ok M tabs D T ext R s w U"
    and g: "bt_get (ug_inner (as_grants (w_spaces w s))) b = Some i" "plain (gi_provider i)" "gi_mapped i"
    and sp: "span_ok req" "I = PageSpan_intersection (PageSpan_new b (gi_page_count i)) req" "0 < ps_count I"
  shows "runs (munmap_round M F s unp (PageSpan_new b (gi_page_count i)) req) w (\<lambda>w' r. (\<exists>res. r = Inr res) \<and>
      (\<exists>U'. space_ok M tabs D T ext R s w' U') \<and> gone M s (span_set I) w w' \<and>
      (\<forall>p. p \<notin> {b..<b + gi_page_count i} \<longrightarrow> page_view (as_grants (w_spaces w' s)) p = page_view (as_grants (w_spaces w s)) p))"
proof -
  let ?u = "as_grants (w_spaces w s)" and ?c = "PageSpan_new b (gi_page_count i)" and ?g = "\<lparr>g_base = b, g_info = i\<rparr>"
  have inv: "grants_inv ?u" and bk: "books M tabs D T ext R s w U"
    and mp: "\<forall>p<USER_PAGES. tr M (as_table (w_spaces w s)) p \<noteq> None \<longrightarrow> p \<in> used_pages ?u"
    using ok by (auto simp: space_ok_def)
  then have gok: "grant_ok ?g" "(b + gi_page_count i) * 4096 \<le> USER_END_OFFSET"
    using g(1) by (auto simp: grants_inv_def inner_ok_def)
  then have cok: "span_ok ?c" by (simp add: grant_ok_def Grant_span_def)
  have I: "span_set I = span_set ?c \<inter> span_set req" unfolding sp(2) by (rule intersection_set [OF cok sp(1)])
  then have Isub: "span_set I \<subseteq> {b..<b + gi_page_count i}" by auto
  obtain u1 bf m af u2 u3 where x:
    "UserGrants_remove ?u b = (u1, Some ?g)" "Grant_extract ?g I = Inr (Some (bf, m, af))"
    "insert_opt u1 bf = Inr u2" "insert_opt u2 af = Inr u3" "grants_inv u3" "used_pages u3 = used_pages ?u - span_set I"
    "\<forall>p\<in>span_set I. page_view u3 p = None" "\<forall>p. p \<notin> span_set I \<longrightarrow> back_view u3 p = back_view ?u p"
    "\<forall>p. p \<notin> {b..<b + gi_page_count i} \<longrightarrow> page_view u3 p = page_view ?u p"
    "Grant_span m = I" "gi_mapped (g_info m) = gi_mapped i" "plain (gi_provider (g_info m))" "grant_ok m"
    by (rule split_grant [OF inv g(1,2) Isub sp(3)])
  let ?w = "upd_space s (\<lambda>sp. sp\<lparr>as_grants := u3\<rparr>) w"
  have ms: "grant_set m = span_set I" using x(10) by (simp add: grant_set_def)
  have "p < USER_PAGES" if "p \<in> grant_set m" for p
    using that Isub gok(2) ms by (auto simp: USER_PAGES_def dest!: subsetD)
  then have "runs (Grant_unmap M F s (FlusherOf s) m :: ('m, 'f, unmap_result) kprog) ?w (\<lambda>w' r. r = Inr (unmap_result_of F (g_info m)) \<and> only_table s ?w w' \<and>
      (\<exists>U'. books M tabs D T ext R s w' U') \<and>
      (\<forall>q<USER_PAGES. tr M (as_table (w_spaces w' s)) q = (if q \<in> grant_set m then None else tr M (as_table (w_spaces ?w s)) q)))"
    using x(11-13) g(3) bk by (intro Grant_unmap_plain [OF laws]) (auto simp: set_grants_books grant_ok_def)
  moreover have "munmap_round M F s unp ?c req w = Grant_unmap M F s (FlusherOf s) m ?w"
  proof -
    have "(if unp then ?g\<lparr>g_info := unpin (g_info ?g)\<rparr> else ?g) = ?g" using plain_props(3) [OF g(2)] by simp
    then show ?thesis using x(1-4) sp(2)
      by (simp add: munmap_round_def remove_grantM_def grantsM_def set_grantsM_def insert_optM_run bindM_def Let_def)
  qed
  ultimately show ?thesis unfolding runs_def
    using x(5-9) mp ms by (auto simp: gone_def space_ok_def only_tableD split: sum.splits)
qed

section \<open>The loop\<close>

definition plain_on :: "page set \<Rightarrow> 'f user_grants \<Rightarrow> bool" where
  "plain_on P u \<longleftrightarrow> (\<forall>p\<in>P. \<forall>f m q. page_view u p = Some (f, m, q) \<longrightarrow> m \<and> plain q)"

lemma gone_trans: "gone M s P w w1 \<Longrightarrow> gone M s Q w1 w2 \<Longrightarrow>
    (\<forall>p\<in>P. page_view (as_grants (w_spaces w1 s)) p = None \<longrightarrow> p \<notin> Q \<longrightarrow> page_view (as_grants (w_spaces w2 s)) p = None) \<Longrightarrow>
    gone M s (P \<union> Q) w w2"
  unfolding gone_def by (auto; blast)

lemma back_view_None: "back_view u p = None \<longleftrightarrow> page_view u p = None"
  by (simp add: back_view_def)

lemma gone_Un: "gone M s P w w1 \<Longrightarrow> gone M s Q w1 w2 \<Longrightarrow> gone M s (P \<union> Q) w w2"
  by (rule gone_trans) (auto simp: gone_def back_view_None [symmetric])

lemma gone_empty: "gone M s {} w w"
  by (simp add: gone_def)

text \<open>Pages without a grant are gone already.\<close>

lemma gone_extend:
  assumes "gone M s P w w'" "space_ok M tabs D T ext R s w U"
    "\<forall>p\<in>Q. page_view (as_grants (w_spaces w s)) p = None"
  shows "gone M s (P \<union> Q) w w'"
proof -
  have "tr M (as_table (w_spaces w s)) p = None" if "p \<in> Q" "p < USER_PAGES" for p
  proof -
    have "p \<notin> used_pages (as_grants (w_spaces w s))"
      using assms(2,3) that(1) mview_None [of "ug_inner (as_grants (w_spaces w s))" p]
      by (auto simp: space_ok_def grants_inv_def page_view_mview used_pages_def)
    then show ?thesis using assms(2) that(2) unfolding space_ok_def by blast
  qed
  moreover have "page_view (as_grants (w_spaces w' s)) p = None" if "p \<in> Q" for p
    using assms(1,3) that back_view_None [of "as_grants (w_spaces w' s)" p] back_view_None [of "as_grants (w_spaces w s)" p]
    by (cases "p \<in> P") (auto simp: gone_def)
  ultimately show ?thesis using assms(1,3) by (auto simp: gone_def)
qed

lemma first_conflict:
  assumes inv: "grants_inv u" and sp: "span_ok req" "0 < ps_count req"
  obtains (none) "UserGrants_conflicts u req = []" "\<forall>p\<in>span_set req. page_view u p = None"
  | (some) b i rest where "UserGrants_conflicts u req = (b, i) # rest" "bt_get (ug_inner u) b = Some i"
      "{b..<b + gi_page_count i} \<inter> span_set req \<noteq> {}"
      "\<forall>p\<in>span_set req. p < b \<longrightarrow> page_view u p = None"
proof -
  have inn: "inner_ok (ug_inner u)" using inv by (simp add: grants_inv_def)
  note D = inner_okD [OF inn]
  let ?Q = "\<lambda>(b, i). {b..<b + gi_page_count i} \<inter> span_set req \<noteq> {}"
  have cf: "UserGrants_conflicts u req = filter ?Q (ug_inner u)" by (rule conflicts_eq [OF inn sp])
  have pv: "\<exists>b i. (b, i) \<in> set (UserGrants_conflicts u req) \<and> p \<in> {b..<b + gi_page_count i}"
    if p: "p \<in> span_set req" "page_view u p \<noteq> None" for p
  proof -
    obtain b i where "UserGrants_contains u p = Some (b, i)" using p(2) by (auto simp: page_view_def)
    then have "bt_get (ug_inner u) b = Some i" "p \<in> {b..<b + gi_page_count i}" using contains_iff [OF inn] by auto
    then show ?thesis using p(1) bt_get_in [OF D(1)] cf by (intro exI [of _ b] exI [of _ i]) auto
  qed
  show thesis
  proof (cases "UserGrants_conflicts u req")
    case Nil
    then show thesis using none pv by fastforce
  next
    case (Cons e rest)
    obtain b i where e: "e = (b, i)" by (cases e)
    have "(b, i) \<in> set (filter ?Q (ug_inner u))" using Cons e cf by simp
    then have m: "bt_get (ug_inner u) b = Some i" "{b..<b + gi_page_count i} \<inter> span_set req \<noteq> {}"
      using bt_get_in [OF D(1)] by auto
    have "sorted_wrt (\<lambda>x y. fst x < fst y) (UserGrants_conflicts u req)"
      unfolding cf using D(1) by (intro sorted_wrt_filter) (simp add: bt_ok_def sorted_wrt_map)
    then have "\<forall>x\<in>set rest. b < fst x" using Cons e by simp
    then have "page_view u p = None" if p: "p \<in> span_set req" "p < b" for p
      using pv [OF p(1)] p(2) Cons e by fastforce
    then show thesis using some Cons e m by blast
  qed
qed

lemma munmap_next_plain:
  assumes "UserGrants_conflicts u req = (b, i) # rest" "plain (gi_provider i)"
  shows "munmap_next unp u req = Some (Inr (PageSpan_new b (gi_page_count i)))"
  using assms plain_props [OF assms(2)] by (simp add: munmap_next_def)

lemma runs_munmap_loop:
  "runs (munmap_loop M F s unp (Suc fuel) req acc) w Q = runs (case munmap_next unp (as_grants (w_spaces w s)) req of
       None \<Rightarrow> retM acc
     | Some (Inl e) \<Rightarrow> errM e
     | Some (Inr c) \<Rightarrow> bindM (munmap_round M F s unp c req) (\<lambda>res.
         munmap_loop M F s unp fuel (remaining_span c req) (if ur_file_desc res \<noteq> None then acc @ [res] else acc))) w Q"
  by (simp only: munmap_loop.simps grantsM_def runs_bindM runs_getM sum.case)

lemma empty_span_conflicts:
  assumes "inner_ok (ug_inner u)" "span_ok req" "ps_count req = 0"
  shows "UserGrants_conflicts u req = []"
proof -
  have "\<not> PageSpan_intersects (PageSpan_new b (gi_page_count i)) req" if "bt_get (ug_inner u) b = Some i" for b i
  proof -
    have "span_ok (PageSpan_new b (gi_page_count i))"
      using assms(1) that by (auto simp: inner_ok_def grant_ok_def Grant_span_def)
    then show ?thesis using intersects_iff [OF _ assms(2)] assms(3) by (simp add: span_set_def)
  qed
  then have "\<forall>(b, i)\<in>set (ug_inner u). \<not> PageSpan_intersects (PageSpan_new b (gi_page_count i)) req"
    using bt_get_in inner_okD(1) [OF assms(1)] by fastforce
  then show ?thesis
    by (auto simp: UserGrants_conflicts_def Let_def takeWhile_eq_Nil_iff bt_range_from_def dest!: hd_in_set)
qed

lemma remaining_span_set:
  assumes "span_ok c" "span_ok req" "span_set c \<inter> span_set req \<noteq> {}"
  shows "span_set (remaining_span c req) = {q\<in>span_set req. ps_base c + ps_count c \<le> q}" "span_ok (remaining_span c req)"
    "ps_count (remaining_span c req) < ps_count req"
proof -
  have e: "PageSpan_end c = ps_base c + ps_count c" "PageSpan_end req = ps_base req + ps_count req"
    using span_okD(1) [OF assms(1)] span_okD(1) [OF assms(2)] by simp_all
  have lt: "ps_base req + ps_count req < USIZE_LIM" by (rule span_okD(2) [OF assms(2)])
  have r: "remaining_span c req = (if ps_base c + ps_count c < ps_base req + ps_count req
      then PageSpan_new (ps_base c + ps_count c) (ps_base req + ps_count req - (ps_base c + ps_count c)) else PageSpan_empty)"
    using lt by (simp add: remaining_span_def e Page_offset_from_def)
  have m: "ps_base req < ps_base c + ps_count c" "0 < ps_count req" using assms(3) by (auto simp: span_set_def)
  show "span_set (remaining_span c req) = {q\<in>span_set req. ps_base c + ps_count c \<le> q}" "ps_count (remaining_span c req) < ps_count req"
    using m unfolding r by (auto simp: span_set_def PageSpan_empty_def)
  show "span_ok (remaining_span c req)" using assms(2) m unfolding r
    by (auto simp: span_ok_def PageSpan_empty_def Page_containing_address_def USIZE_LIM_def)
qed

lemma munmap_loop_gone:
  assumes laws: "mapper_laws M" "mapper_frees M tabs"
  shows "space_ok M tabs D T ext R s w U \<Longrightarrow> span_ok req \<Longrightarrow> plain_on (span_set req) (as_grants (w_spaces w s)) \<Longrightarrow>
    ps_count req < fuel \<Longrightarrow>
    runs (munmap_loop M F s unp fuel req acc) w (\<lambda>w' r. (\<exists>notify. r = Inr (acc @ notify)) \<and>
      (\<exists>U'. space_ok M tabs D T ext R s w' U') \<and> gone M s (span_set req) w w')"
proof (induction fuel arbitrary: w U req acc)
  case (Suc fuel)
  let ?u = "as_grants (w_spaces w s)"
  have inv: "grants_inv ?u" using Suc.prems(1) by (simp add: space_ok_def)
  have stop: ?case if "UserGrants_conflicts ?u req = []" "\<forall>p\<in>span_set req. page_view ?u p = None"
    using that Suc.prems(1) gone_extend [OF gone_empty Suc.prems(1), of "span_set req"]
    unfolding runs_munmap_loop by (auto simp: runs_retM munmap_next_def intro!: exI [of _ "[]"])
  show ?case
  proof (cases "ps_count req = 0")
    case True
    then have "UserGrants_conflicts ?u req = []"
      by (intro empty_span_conflicts [OF _ Suc.prems(2)]) (use inv in \<open>simp_all add: grants_inv_def\<close>)
    then show ?thesis by (rule stop) (simp add: True span_set_def)
  next
    case False
    then have pos: "0 < ps_count req" by simp
    show ?thesis
    proof (rule first_conflict [OF inv Suc.prems(2) pos])
      fix b i rest
      assume cf: "UserGrants_conflicts ?u req = (b, i) # rest" "bt_get (ug_inner ?u) b = Some i"
        "{b..<b + gi_page_count i} \<inter> span_set req \<noteq> {}" "\<forall>p\<in>span_set req. p < b \<longrightarrow> page_view ?u p = None"
      let ?c = "PageSpan_new b (gi_page_count i)" and ?B = "{b..<b + gi_page_count i}"
      define I where "I = PageSpan_intersection ?c req"
      have inn: "inner_ok (ug_inner ?u)" using inv by (simp add: grants_inv_def)
      have cok: "span_ok ?c" using inn cf(2) by (auto simp: inner_ok_def grant_ok_def Grant_span_def)
      have I: "span_set I = ?B \<inter> span_set req" unfolding I_def using intersection_set [OF cok Suc.prems(2)] by simp
      then have "span_set I \<noteq> {}" using cf(3) by simp
      then have Ipos: "0 < ps_count I" by (simp add: span_set_def)
      obtain p where p: "p \<in> ?B" "p \<in> span_set req" using cf(3) by blast
      have "page_view ?u p = Some (page_attr b i p)" unfolding page_view_mview by (rule mview_Some [OF inn cf(2) p(1)])
      then have pl: "plain (gi_provider i)" "gi_mapped i" using Suc.prems(3) p(2) by (auto simp: plain_on_def page_attr_def)
      let ?r = "remaining_span ?c req"
      have rs: "span_set ?r = {q\<in>span_set req. b + gi_page_count i \<le> q}" "span_ok ?r" "ps_count ?r < ps_count req"
        using remaining_span_set [OF cok Suc.prems(2)] cf(3) by simp_all
      have rnd: "runs (munmap_round M F s unp ?c req) w (\<lambda>w' r. (\<exists>res. r = Inr res) \<and>
          (\<exists>U'. space_ok M tabs D T ext R s w' U') \<and> gone M s (span_set I) w w' \<and>
          (\<forall>p. p \<notin> ?B \<longrightarrow> page_view (as_grants (w_spaces w' s)) p = page_view ?u p))"
        by (rule munmap_round_gone [OF laws Suc.prems(1) cf(2) pl Suc.prems(2) I_def Ipos])
      have "runs (bindM (munmap_round M F s unp ?c req) (\<lambda>res. munmap_loop M F s unp fuel ?r
            (if ur_file_desc res \<noteq> None then acc @ [res] else acc))) w (\<lambda>w' r. (\<exists>notify. r = Inr (acc @ notify)) \<and>
          (\<exists>U'. space_ok M tabs D T ext R s w' U') \<and> gone M s (span_set req) w w')"
        unfolding runs_bindM
      proof (rule runs_mono [OF rnd])
        fix w1 and r :: "errno + unmap_result"
        assume "(\<exists>res. r = Inr res) \<and> (\<exists>U'. space_ok M tabs D T ext R s w1 U') \<and> gone M s (span_set I) w w1 \<and>
          (\<forall>p. p \<notin> ?B \<longrightarrow> page_view (as_grants (w_spaces w1 s)) p = page_view ?u p)"
        then obtain res U1 where 1: "r = Inr res" "space_ok M tabs D T ext R s w1 U1" "gone M s (span_set I) w w1"
          "\<forall>p. p \<notin> ?B \<longrightarrow> page_view (as_grants (w_spaces w1 s)) p = page_view ?u p" by blast
        have "plain_on (span_set ?r) (as_grants (w_spaces w1 s))"
          using Suc.prems(3) 1(4) rs(1) by (auto simp: plain_on_def)
        then have "runs (munmap_loop M F s unp fuel ?r (if ur_file_desc res \<noteq> None then acc @ [res] else acc)) w1
            (\<lambda>w' r. (\<exists>notify. r = Inr ((if ur_file_desc res \<noteq> None then acc @ [res] else acc) @ notify)) \<and>
              (\<exists>U'. space_ok M tabs D T ext R s w' U') \<and> gone M s (span_set ?r) w1 w')"
          using Suc.IH [OF 1(2) rs(2)] rs(3) Suc.prems(4) by simp
        moreover have "gone M s (span_set req) w w2" if g2: "gone M s (span_set ?r) w1 w2" for w2
        proof -
          have "gone M s (span_set I \<union> span_set ?r) w w2" by (rule gone_Un [OF 1(3) g2])
          then have "gone M s ((span_set I \<union> span_set ?r) \<union> {q\<in>span_set req. q < b}) w w2"
            by (rule gone_extend [OF _ Suc.prems(1)]) (use cf(4) in auto)
          moreover have "(span_set I \<union> span_set ?r) \<union> {q\<in>span_set req. q < b} = span_set req" using I rs(1) by auto
          ultimately show ?thesis by simp
        qed
        ultimately show "case r of Inl e \<Rightarrow> (\<exists>notify. Inl e = Inr (acc @ notify)) \<and> (\<exists>U'. space_ok M tabs D T ext R s w1 U') \<and> gone M s (span_set req) w w1
          | Inr res \<Rightarrow> runs (munmap_loop M F s unp fuel ?r (if ur_file_desc res \<noteq> None then acc @ [res] else acc)) w1
              (\<lambda>w' r. (\<exists>notify. r = Inr (acc @ notify)) \<and> (\<exists>U'. space_ok M tabs D T ext R s w' U') \<and> gone M s (span_set req) w w')"
          using 1(1) by (auto elim!: runs_mono)
      qed
      then show ?thesis unfolding runs_munmap_loop munmap_next_plain [OF cf(1) pl(1)] option.case sum.case .
    qed (rule stop)
  qed
qed simp

section \<open>The whole operation\<close>

lemma drop_flusher_books:
  assumes b: "books M tabs D T ext R s w U"
  obtains w' U' where "drop_flusher s w = Inr w'" "books M tabs D T ext R s w' U'" "only_table s w w'"
    "fl_pagequeue (w_flushers w' s) = []" "as_table (w_spaces w' s) = as_table (w_spaces w s)"
proof -
  note B = booksD [OF b]
  let ?t = "as_table (w_spaces w s)"
  obtain f' a' U' evs where f: "Flusher_flush (w_cpu w) (w_flushers w s) (w_alloc w) = Inr (f', a', evs)"
    "flusher_ok f' (w_cpu w)" "fl_pagequeue f' = []" "refs_ok D T (\<lambda>n. mapcount M ?t n + ext n) a' U' R"
    "others_same T (w_alloc w) U R a' U'"
    using Flusher_flush_refs [OF B(2,3), of "\<lambda>n. mapcount M ?t n + ext n"] B(4) by blast
  let ?w = "w\<lparr>w_flushers := (w_flushers w)(s := f'), w_alloc := a', w_events := w_events w @ evs\<rparr>"
  have run: "drop_flusher s w = Inr ?w" using f(1) by (simp add: drop_flusher_def flushM_def)
  have "frames (tabs ?t) \<subseteq> U - frames T" using B(5,6) by auto
  then have "frames (tabs ?t) \<subseteq> U'" using f(5) unfolding others_same_def by blast
  then have "books M tabs D T ext R s ?w U'" using f B(1,6) by (simp add: books_def)
  moreover have "only_table s w ?w" unfolding only_table_def
    by (intro exI [of _ a'] exI [of _ ?t] exI [of _ f'] exI [of _ "w_events w @ evs"]) simp
  ultimately show thesis using that [OF run] f(3) by simp
qed

text \<open>
  The state between two operations: no lock is held, nothing is queued, and the books balance with
  every reference of a frame accounted to a mapping in this address space or to a holder elsewhere.
\<close>

definition quiescent ::
    "('m, 'f) mapper_ops \<Rightarrow> ('m \<Rightarrow> nat set) \<Rightarrow> nat set \<Rightarrow> nat set \<Rightarrow> (nat \<Rightarrow> nat) \<Rightarrow> block set \<Rightarrow> space_id \<Rightarrow> ('m, 'f) world \<Rightarrow> block set \<Rightarrow> bool" where
  "quiescent M tabs D T ext R s w U \<longleftrightarrow>
     (let t = as_table (w_spaces w s); u = as_grants (w_spaces w s) in
      table_known M D T t \<and> length (as_used_by (w_spaces w s)) = SET_WORDS \<and> w_cpu w < MAX_CPU_COUNT \<and>
      refs_ok D T (\<lambda>n. mapcount M t n + ext n) (w_alloc w) U R \<and> frames (tabs t) \<subseteq> U \<and> T \<inter> tabs t = {} \<and>
      grants_inv u \<and> (\<forall>p<USER_PAGES. tr M t p \<noteq> None \<longrightarrow> p \<in> used_pages u) \<and> \<not> w_locked w s)"

lemma gone_only_table:
  "gone M s P w w1 \<Longrightarrow> only_table s w1 w2 \<Longrightarrow> as_table (w_spaces w2 s) = as_table (w_spaces w1 s) \<Longrightarrow> gone M s P w w2"
  by (auto simp: gone_def only_tableD)

lemma munmap_gone:
  fixes M :: "('m, 'f) mapper_ops"
  assumes laws: "mapper_laws M" "mapper_frees M tabs" and q: "quiescent M tabs D T ext R s w U"
    and sp: "span_ok req" "plain_on (span_set req) (as_grants (w_spaces w s))"
  shows "runs (munmap M F s req unp) w (\<lambda>w' r. (\<exists>notify. r = Inr notify) \<and>
      (\<exists>U'. quiescent M tabs D T ext R s w' U') \<and> gone M s (span_set req) w w')"
proof -
  let ?w = "w\<lparr>w_locked := (w_locked w)(s := True), w_flushers := (w_flushers w)(s := Flusher_with_cpu_set (as_used_by (w_spaces w s)))\<rparr>"
  have Q: "table_known M D T (as_table (w_spaces w s))" "length (as_used_by (w_spaces w s)) = SET_WORDS" "w_cpu w < MAX_CPU_COUNT"
    "refs_ok D T (\<lambda>n. mapcount M (as_table (w_spaces w s)) n + ext n) (w_alloc w) U R"
    "frames (tabs (as_table (w_spaces w s))) \<subseteq> U" "T \<inter> tabs (as_table (w_spaces w s)) = {}" "grants_inv (as_grants (w_spaces w s))"
    "\<forall>p<USER_PAGES. tr M (as_table (w_spaces w s)) p \<noteq> None \<longrightarrow> p \<in> used_pages (as_grants (w_spaces w s))" "\<not> w_locked w s"
    using q unfolding quiescent_def Let_def by blast+
  have ok: "space_ok M tabs D T ext R s ?w U"
    using Q by (simp add: space_ok_def books_def flusher_ok_def Flusher_with_cpu_set_def)
  have "runs (munmap_loop M F s unp (Suc (ps_count req)) req []) ?w (\<lambda>w' r. (\<exists>notify. r = Inr ([] @ notify)) \<and>
      (\<exists>U'. space_ok M tabs D T ext R s w' U') \<and> gone M s (span_set req) ?w w')"
    by (rule munmap_loop_gone [OF laws ok]) (use sp in auto)
  then obtain w1 notify U1 where w1: "munmap_inner M F s req unp ?w = Inr (w1, Inr notify)" "space_ok M tabs D T ext R s w1 U1"
    "gone M s (span_set req) ?w w1" by (auto simp: runs_iff munmap_inner_def)
  then have b1: "books M tabs D T ext R s w1 U1" by (simp add: space_ok_def)
  obtain w2 U2 where w2: "drop_flusher s w1 = Inr w2" "books M tabs D T ext R s w2 U2" "only_table s w1 w2"
    "fl_pagequeue (w_flushers w2 s) = []" "as_table (w_spaces w2 s) = as_table (w_spaces w1 s)"
    by (rule drop_flusher_books [OF b1])
  let ?w3 = "release_lock s w2"
  have run: "munmap M F s req unp w = Inr (?w3, Inr notify)"
    using w1(1) w2(1) Q(9) by (simp add: munmap_def with_lockM_def acquireM_def with_flusherM_def new_flusherM_def bindM_def)
  have gone2: "gone M s (span_set req) ?w w2" by (rule gone_only_table [OF w1(3) w2(3,5)])
  then have g3: "gone M s (span_set req) w ?w3"
    using Q(9) by (auto simp: gone_def release_lock_def fun_upd_idem)
  have "quiescent M tabs D T ext R s ?w3 U2"
    using booksD [OF w2(2)] w1(2) w2(3-5) gone2 Q(2,3)
    by (auto simp: quiescent_def release_lock_def space_ok_def only_tableD gone_def Let_def)
  then show ?thesis using run g3 by (auto simp: runs_iff)
qed

section \<open>A concrete world\<close>

text \<open>A mapper that keeps one flat table and needs no frames for it.\<close>

definition flat_mapper :: "(nat \<Rightarrow> (usize \<times> 'f) option, 'f) mapper_ops" where
  "flat_mapper = \<lparr>
     mo_create = (\<lambda>a. Inr (a, Some (\<lambda>_. None))),
     mo_table_phys = (\<lambda>_. 0),
     mo_set_kernel_entry = (\<lambda>t _. Inr t),
     mo_translate = (\<lambda>t v. t v),
     mo_map_phys = (\<lambda>t v p fl a. Inr (a, t(v := Some (p, fl)), True)),
     mo_unmap_phys = (\<lambda>t v a. Inr (a, t(v := None), t v)),
     mo_remap_with = (\<lambda>t v h. (t(v := map_option (\<lambda>(p, fl). (p, h fl)) (t v)), map_option (\<lambda>(p, fl). (fl, p)) (t v))),
     mo_remap_with_full = (\<lambda>t v h. (t(v := map_option (\<lambda>(p, fl). h p fl) (t v)), map_option (\<lambda>(p, fl). (fl, p)) (t v)))\<rparr>"

lemma flat_mapper_laws: "mapper_laws flat_mapper" "mapper_frees flat_mapper (\<lambda>_. {})"
  by (auto simp: mapper_laws_def mapper_frees_def flat_mapper_def same_info_def)

definition flat_world :: "allocator \<Rightarrow> (nat \<Rightarrow> (usize \<times> 'f) option) \<Rightarrow> 'f user_grants \<Rightarrow> (nat \<Rightarrow> (usize \<times> 'f) option, 'f) world" where
  "flat_world a t u = \<lparr>w_alloc = a,
     w_spaces = (\<lambda>_. \<lparr>as_table = t, as_grants = u, as_used_by = CpuSet_all, as_mmap_min = MMAP_MIN_DEFAULT\<rparr>),
     w_next_space = 1, w_locked = (\<lambda>_. False), w_flushers = (\<lambda>_. Flusher_with_cpu_set CpuSet_all), w_events = [],
     w_zeroed_frame = None, w_cpu = 0, w_current = Some 0, w_notify = []\<rparr>"

text \<open>One grant of four pages, the first of which is mapped to the only live frame.\<close>

definition example_world :: "(nat \<Rightarrow> (usize \<times> unit) option, unit) world" where
  "example_world = flat_world example_used [65536 \<mapsto> (physaddr (pframe 1024), ())] example_grants"

lemma example_tr: "tr flat_mapper [65536 \<mapsto> (x, ())] p = (if p = 16 then Some (x, ()) else None)"
  by (simp add: tr_def flat_mapper_def)

lemma example_mapcount: "mapcount flat_mapper [65536 \<mapsto> (physaddr (pframe 1024), ())] 1024 = 1"
proof -
  have "pages_of flat_mapper [65536 \<mapsto> (physaddr (pframe 1024), ())] 1024 = {16}"
    by (auto simp: pages_of_def example_tr USER_PAGES_def USER_END_OFFSET_def PML4_SIZE_def split: if_splits)
  then show ?thesis by (simp add: mapcount_def)
qed

lemma example_quiescent: "quiescent flat_mapper (\<lambda>_. {}) {1024, 1025} {1024} (\<lambda>_. 0) {} 0 example_world {(1024, 0)}"
proof -
  have "refs_ok {1024, 1025} {1024} (\<lambda>n. mapcount flat_mapper [65536 \<mapsto> (physaddr (pframe 1024), ())] n + 0) example_used {(1024, 0)} {}"
    using example_used_ok example_used_ref
    by (auto simp: refs_ok_def example_mapcount example_used_def two_pages_sections)
  moreover have "pfn_ok 1024" by (simp add: pfn_ok_def)
  ultimately show ?thesis
    using example_grants_ok
    by (auto simp: quiescent_def example_world_def flat_world_def Let_def table_known_def example_tr CpuSet_all_def
        split: if_splits)
qed

lemma example_pages_plain:
  assumes "P \<subseteq> {16..<20}"
  shows "plain_on P (as_grants (w_spaces example_world 0))"
proof -
  have inn: "inner_ok (ug_inner example_grants)" using example_grants_ok(1) by (simp add: grants_inv_def)
  have "page_view example_grants p = Some (page_attr 16 (g_info example_grant) p)" if "p \<in> {16..<20}" for p
    unfolding page_view_mview by (rule mview_Some [OF inn example_grants_ok(3)]) (use that in \<open>simp add: example_grant_def\<close>)
  then show ?thesis
    using assms by (auto simp: plain_on_def example_world_def flat_world_def page_attr_def example_grant_def subset_iff)
qed

section \<open>Results\<close>

text \<open>
  C4: Unmapping a range never panics and needs no more rounds than the range has pages.  Afterwards the
  requested pages have no grant and no translation, every other page of the address space keeps its
  flags, its backing and its translation, other address spaces are untouched, the lock is free again,
  and the books balance: every frame that was mapped has lost exactly one reference for each page
  that was unmapped, and has been given back if that was the last one.
\<close>

theorem munmap_correct:
  assumes "mapper_laws M" "mapper_frees M tabs" "quiescent M tabs D T ext R s w U" "span_ok req"
    "plain_on (span_set req) (as_grants (w_spaces w s))"
  shows "\<exists>w' notify U'. munmap M F s req unp w = Inr (w', Inr notify) \<and> quiescent M tabs D T ext R s w' U' \<and>
    gone M s (span_set req) w w'"
  using munmap_gone [OF assms, of F unp] by (auto simp: runs_iff)

theorem munmap_witness:
  "\<forall>F. \<exists>w' notify U'. munmap flat_mapper F 0 (PageSpan_new 16 2) False example_world = Inr (w', Inr notify) \<and>
    quiescent flat_mapper (\<lambda>_. {}) {1024, 1025} {1024} (\<lambda>_. 0) {} 0 w' U' \<and> (1024, 0) \<notin> U' \<and>
    tr flat_mapper (as_table (w_spaces w' 0)) 16 = None"
proof
  fix F :: "unit flag_ops"
  have "span_ok (PageSpan_new 16 2)" by (simp add: span_ok_def USIZE_LIM_def)
  moreover have "plain_on (span_set (PageSpan_new 16 2)) (as_grants (w_spaces example_world 0))"
    by (rule example_pages_plain) (auto simp: span_set_def)
  ultimately obtain w' notify U' where w': "munmap flat_mapper F 0 (PageSpan_new 16 2) False example_world = Inr (w', Inr notify)"
    "quiescent flat_mapper (\<lambda>_. {}) {1024, 1025} {1024} (\<lambda>_. 0) {} 0 w' U'" "gone flat_mapper 0 (span_set (PageSpan_new 16 2)) example_world w'"
    using munmap_correct [OF flat_mapper_laws example_quiescent] by blast
  have t: "tr flat_mapper (as_table (w_spaces w' 0)) p = None" if "p < USER_PAGES" for p
    using w'(3) that by (auto simp: gone_def example_world_def flat_world_def example_tr)
  then have "mapcount flat_mapper (as_table (w_spaces w' 0)) 1024 = 0" by (simp add: mapcount_def pages_of_def)
  then have "(1024, 0) \<notin> U'" using w'(2) by (auto simp: quiescent_def Let_def refs_ok_def)
  moreover have "(16::nat) < USER_PAGES" by (simp add: USER_PAGES_def USER_END_OFFSET_def PML4_SIZE_def)
  ultimately show "\<exists>w' notify U'. munmap flat_mapper F 0 (PageSpan_new 16 2) False example_world = Inr (w', Inr notify) \<and>
    quiescent flat_mapper (\<lambda>_. {}) {1024, 1025} {1024} (\<lambda>_. 0) {} 0 w' U' \<and> (1024, 0) \<notin> U' \<and>
    tr flat_mapper (as_table (w_spaces w' 0)) 16 = None" using w'(1,2) t [of 16] by blast
qed

end
