(* ===== verification/Fault_Correct.thy ===== *)
theory Fault_Correct
  imports Munmap_Correct
begin

text \<open>
  Page faults on memory that the address space owns (\<open>correct_inner\<close> for \<open>Allocated\<close> and
  \<open>AllocatedShared\<close> grants).  The books of \<open>Space_Books\<close> are kept while a slot of the page table is
  moved from one frame to another: in between, the slot already counts for the new frame.
\<close>

section \<open>Contents of frames\<close>

definition frame_bytes :: "(usize \<Rightarrow> 8 word) \<Rightarrow> nat \<Rightarrow> nat \<Rightarrow> 8 word" where
  "frame_bytes mem n i = mem (of_nat (n * 4096 + i))"

lemma frame_addr:
  assumes "pfn_ok n" "i < 4096"
  shows "unat (of_nat (n * 4096 + i) :: usize) = n * 4096 + i"
  using assms unat_of_nat [of "n * 4096 + i", where 'a = 64]
  by (simp add: take_bit_nat_eq_self pfn_ok_def del: of_nat_add of_nat_mult)

lemma frame_addr_div: "pfn_ok n \<Longrightarrow> i < 4096 \<Longrightarrow> unat (of_nat (n * 4096 + i) :: usize) div 4096 = n"
  by (simp only: frame_addr)

text \<open>Memory that changes inside the frames of \<open>S\<close> only.\<close>

definition changes_in :: "nat set \<Rightarrow> (usize \<Rightarrow> 8 word) \<Rightarrow> (usize \<Rightarrow> 8 word) \<Rightarrow> bool" where
  "changes_in S mem mem' \<longleftrightarrow> (\<forall>x. unat x div 4096 \<notin> S \<longrightarrow> mem' x = mem x)"

lemma changes_in_refl [simp]: "changes_in S m m"
  by (simp add: changes_in_def)

lemma changes_in_trans: "changes_in S m m' \<Longrightarrow> changes_in S' m' m'' \<Longrightarrow> changes_in (S \<union> S') m m''"
  by (simp add: changes_in_def)

lemma changes_in_mono: "changes_in S m m' \<Longrightarrow> S \<subseteq> S' \<Longrightarrow> changes_in S' m m'"
  by (auto simp: changes_in_def)

lemma changes_in_bytes: "changes_in S m m' \<Longrightarrow> pfn_ok n \<Longrightarrow> n \<notin> S \<Longrightarrow> i < 4096 \<Longrightarrow> frame_bytes m' n i = frame_bytes m n i"
  using frame_addr_div [of n i] by (simp add: changes_in_def frame_bytes_def)

lemma copy_frame_changes: "pfn_ok d \<Longrightarrow> changes_in {d} m (copy_frame_bytes m (physaddr (pframe d)) src)"
  using unat_pframe [of d]
  by (auto simp: changes_in_def copy_frame_bytes_def word_le_nat_alt pfn_ok_def PFN_LIM_def)

lemma copy_frame_content:
  assumes "pfn_ok d" "pfn_ok s" "i < 4096"
  shows "frame_bytes (copy_frame_bytes m (physaddr (pframe d)) (physaddr (pframe s))) d i = frame_bytes m s i"
proof -
  have "unat (physaddr (pframe d)) = d * 4096" using assms(1) by (simp add: unat_pframe pfn_ok_def PFN_LIM_def)
  moreover have "physaddr (pframe s) + (of_nat (d * 4096 + i) - physaddr (pframe d)) = of_nat (s * 4096 + i)"
    by (simp add: pframe_def)
  ultimately show ?thesis using frame_addr [OF assms(1,3)] assms(3)
    by (simp only: frame_bytes_def copy_frame_bytes_def word_le_nat_alt PAGE_BYTES_def) simp
qed

section \<open>What mapping a page does to the allocator\<close>

text \<open>
  Mapping a page may take frames for page tables.  It fails only when there is none, so never for a
  page that is mapped already.
\<close>

definition mapper_takes :: "('m, 'f) mapper_ops \<Rightarrow> ('m \<Rightarrow> nat set) \<Rightarrow> bool" where
  "mapper_takes M tabs \<longleftrightarrow> (\<forall>t v ph fl a U R. alloc_ok a U R \<longrightarrow> frames (tabs t) \<subseteq> U \<longrightarrow>
     (\<exists>a' t' d. mo_map_phys M t v ph fl a = Inr (a', t', d) \<and> tabs t \<subseteq> tabs t' \<and>
        frames (tabs t' - tabs t) \<inter> U = {} \<and> alloc_ok a' (U \<union> frames (tabs t')) R \<and>
        dom (pinfo (sections a')) = dom (pinfo (sections a)) \<and>
        same_info (U \<union> R - frames (tabs t)) a a' \<and> changes_in (tabs t') (phys_mem a) (phys_mem a') \<and>
        (mo_translate M t v \<noteq> None \<longrightarrow> d \<and> tabs t' = tabs t)))"

lemma refs_ok_mapped:
  assumes ok: "refs_ok D T c a U R" and t: "T \<inter> S = {}" and S: "S \<subseteq> S'"
    and a': "alloc_ok a' (U \<union> frames S') R" "dom (pinfo (sections a')) = dom (pinfo (sections a))"
    and same: "same_info (U \<union> R - frames S) a a'"
  shows "refs_ok D (T - S') c a' (U \<union> frames S') R"
  unfolding refs_ok_def
proof (intro conjI ballI)
  fix n assume n: "n \<in> T - S'"
  then have nS: "(n, 0) \<notin> frames S'" "(n, 0) \<notin> frames S" using S by auto
  then have "ref_of a' n = ref_of a n" if "(n, 0) \<in> U"
    using same_info_head [OF same, of n 0] that by (intro ref_of_same) auto
  then show "if c n = 0 then (n, 0) \<notin> U \<union> frames S'
      else (n, 0) \<in> U \<union> frames S' \<and> (\<exists>k. ref_of a' n = Some (c n, k))"
    using refs_okD(4-6) [OF ok, of n] n nS by auto
qed (use a' refs_okD(2,3) [OF ok] in auto)

lemma known_frees_diff:
  assumes "known_frees D T es" "\<And>n. n \<in> T \<Longrightarrow> dues es n \<noteq> 0 \<Longrightarrow> n \<notin> S"
  shows "known_frees D (T - S) es"
proof -
  have "known_frame D (T - S) f \<and> k = None" if e: "(f, k) \<in> set es" for f k
  proof -
    have k: "known_frame D T f" "k = None" using assms(1) e by (auto simp: known_frees_def)
    then obtain n where n: "pfn_ok n" "f = pframe n" "n \<in> D \<Longrightarrow> n \<in> T" by (auto elim: known_frameE)
    then have "dues es n \<noteq> 0" using e k by (simp add: dues_def count_list_0_iff)
    then show ?thesis using n k assms(2) by (auto simp: known_frame_def)
  qed
  then show ?thesis by (auto simp: known_frees_def)
qed

section \<open>Moving a slot of the page table\<close>

definition slot_books ::
    "('m, 'f) mapper_ops \<Rightarrow> ('m \<Rightarrow> nat set) \<Rightarrow> nat set \<Rightarrow> nat set \<Rightarrow> (nat \<Rightarrow> nat) \<Rightarrow> block set \<Rightarrow> space_id \<Rightarrow>
       page \<Rightarrow> nat \<Rightarrow> ('m, 'f) world \<Rightarrow> block set \<Rightarrow> bool" where
  "slot_books M tabs D T ext R s p x w U \<longleftrightarrow>
     (let t = as_table (w_spaces w s); f = w_flushers w s in
      table_known M D T t \<and> flusher_ok f (w_cpu w) \<and> queue_known D T f \<and>
      refs_ok D T (\<lambda>n. card (pages_of M t n - {p}) + dues [(pframe x, None)] n + ext n + queued f n) (w_alloc w) U R \<and>
      frames (tabs t) \<subseteq> U \<and> T \<inter> tabs t = {} \<and> pfn_ok x \<and> (x \<in> D \<longrightarrow> x \<in> T))"

lemma slot_booksD:
  assumes "slot_books M tabs D T ext R s p x w U"
  shows "table_known M D T (as_table (w_spaces w s))" "flusher_ok (w_flushers w s) (w_cpu w)"
    "queue_known D T (w_flushers w s)"
    "refs_ok D T (\<lambda>n. card (pages_of M (as_table (w_spaces w s)) n - {p}) + dues [(pframe x, None)] n + ext n + queued (w_flushers w s) n) (w_alloc w) U R"
    "frames (tabs (as_table (w_spaces w s))) \<subseteq> U" "T \<inter> tabs (as_table (w_spaces w s)) = {}" "pfn_ok x" "x \<in> D \<Longrightarrow> x \<in> T"
  using assms by (auto simp: slot_books_def Let_def)

lemma pages_of_slot:
  assumes "p < USER_PAGES" "tr M t p = Some (physaddr (pframe x), fl)" "pfn_ok x" "pfn_ok n"
  shows "card (pages_of M t n) = card (pages_of M t n - {p}) + dues [(pframe x, None)] n"
proof (cases "n = x")
  case True
  then have "p \<in> pages_of M t n" using assms by (auto simp: pages_of_def)
  then have "card (pages_of M t n) = Suc (card (pages_of M t n - {p}))" by (intro card.remove pages_of_finite)
  then show ?thesis using True assms by (simp add: dues_Cons)
next
  case False
  then have "pages_of M t n - {p} = pages_of M t n" using assms by (auto simp: pages_of_def physaddr_pframe_eq)
  then show ?thesis using False assms by (simp add: dues_Cons)
qed

lemma books_slot:
  assumes b: "books M tabs D T ext R s w U" and p: "p < USER_PAGES"
    and x: "tr M (as_table (w_spaces w s)) p = Some (physaddr (pframe x), fl)" "pfn_ok x"
  shows "slot_books M tabs D T ext R s p x w U"
proof -
  note B = booksD [OF b]
  have "x \<in> D \<longrightarrow> x \<in> T" using B(1) x p physaddr_pframe_eq [of x] unfolding table_known_def by blast
  moreover have "refs_ok D T (\<lambda>n. card (pages_of M (as_table (w_spaces w s)) n - {p}) + dues [(pframe x, None)] n + ext n +
      queued (w_flushers w s) n) (w_alloc w) U R"
    using pages_of_slot [OF p x] refs_pfn_ok [OF B(4)] by (intro refs_ok_cong [OF B(4)]) (simp add: mapcount_def)
  ultimately show ?thesis using B x(2) by (simp add: slot_books_def Let_def)
qed

lemma slot_books_unmapped:
  assumes b: "slot_books M tabs D T ext R s p x w U" and p: "tr M (as_table (w_spaces w s)) p = None"
  shows "books M tabs D T (\<lambda>n. ext n + (if n = x then 1 else 0)) R s w U"
proof -
  let ?t = "as_table (w_spaces w s)"
  note B = slot_booksD [OF b]
  have "pages_of M ?t n - {p} = pages_of M ?t n" for n using p by (auto simp: pages_of_def)
  then have "refs_ok D T (\<lambda>n. mapcount M ?t n + (ext n + (if n = x then 1 else 0)) + queued (w_flushers w s) n) (w_alloc w) U R"
    using refs_pfn_ok [OF B(4)] B(7) by (intro refs_ok_cong [OF B(4)]) (simp add: mapcount_def dues_Cons)
  then show ?thesis using B by (simp add: books_def Let_def)
qed

text \<open>Frames that are not free when the mapper looks for a frame do not become page tables.\<close>

lemma map_slot:
  assumes laws: "mapper_laws M" "mapper_takes M tabs" and b: "slot_books M tabs D T ext R s p x w U" and p: "p < USER_PAGES"
  obtains w' d t' U' where "map_physM M s p (physaddr (pframe x)) fl w = Inr (w', Inr d)" "t' = as_table (w_spaces w' s)"
    "only_table s w w'" "w_flushers w' = w_flushers w"
    "slot_books M tabs D (T - tabs t') ext R s p x w' U'" "\<forall>n\<in>T \<inter> tabs t'. ext n = 0"
    "\<forall>q<USER_PAGES. tr M t' q = (if q = p \<and> d then Some (physaddr (pframe x), fl) else tr M (as_table (w_spaces w s)) q)"
    "tr M (as_table (w_spaces w s)) p \<noteq> None \<longrightarrow> d \<and> tabs t' = tabs (as_table (w_spaces w s))"
    "tabs (as_table (w_spaces w s)) \<subseteq> tabs t'" "frames (tabs t' - tabs (as_table (w_spaces w s))) \<inter> U = {}"
    "same_info (U \<union> R - frames (tabs (as_table (w_spaces w s)))) (w_alloc w) (w_alloc w')"
    "changes_in (tabs t') (phys_mem (w_alloc w)) (phys_mem (w_alloc w'))"
proof -
  let ?t = "as_table (w_spaces w s)" and ?f = "w_flushers w s"
  note B = slot_booksD [OF b]
  obtain a' t' d where m: "mo_map_phys M ?t (Page_start_address p) (physaddr (pframe x)) fl (w_alloc w) = Inr (a', t', d)"
    "tabs ?t \<subseteq> tabs t'" "frames (tabs t' - tabs ?t) \<inter> U = {}" "alloc_ok a' (U \<union> frames (tabs t')) R"
    "dom (pinfo (sections a')) = dom (pinfo (sections (w_alloc w)))"
    "same_info (U \<union> R - frames (tabs ?t)) (w_alloc w) a'" "changes_in (tabs t') (phys_mem (w_alloc w)) (phys_mem a')"
    "mo_translate M ?t (Page_start_address p) \<noteq> None \<longrightarrow> d \<and> tabs t' = tabs ?t"
    using laws(2) refs_okD(1) [OF B(4)] B(5) unfolding mapper_takes_def by meson
  have tr': "tr M t' q = (if q = p \<and> d then Some (physaddr (pframe x), fl) else tr M ?t q)" if "q < USER_PAGES" for q
    using laws(1) m(1) user_page_addr [OF p] unfolding mapper_laws_def tr_def by auto
  have pg: "pages_of M t' n - {p} = pages_of M ?t n - {p}" for n using tr' by (auto simp: pages_of_def)
  let ?c = "\<lambda>n. card (pages_of M ?t n - {p}) + dues [(pframe x, None)] n + ext n + queued ?f n"
  have live: "n \<notin> tabs t'" if "n \<in> T" "?c n \<noteq> 0" for n
    using refs_okD(5) [OF B(4) that] B(6) m(3) that(1) by auto
  have refs: "refs_ok D (T - tabs t') ?c a' (U \<union> frames (tabs t')) R"
    by (rule refs_ok_mapped [OF B(4,6) m(2,4,5,6)])
  have tk: "table_known M D (T - tabs t') t'"
    unfolding table_known_def
  proof (intro allI impI)
    fix q ph fl' assume q: "q < USER_PAGES" "tr M t' q = Some (ph, fl')"
    show "\<exists>n. pfn_ok n \<and> ph = physaddr (pframe n) \<and> (n \<in> D \<longrightarrow> n \<in> T - tabs t')"
    proof (cases "q = p \<and> d")
      case True
      have "?c x \<noteq> 0" using B(7) by (simp add: dues_Cons)
      then show ?thesis using True q tr' B(7,8) live by (intro exI [of _ x]) auto
    next
      case False
      then have t: "tr M ?t q = Some (ph, fl')" using q tr' by (auto split: if_splits)
      then obtain n where n: "pfn_ok n" "ph = physaddr (pframe n)" "n \<in> D \<longrightarrow> n \<in> T"
        using B(1) q(1) unfolding table_known_def by blast
      have "n \<notin> tabs t'" if "n \<in> T"
      proof (cases "q = p")
        case True
        then have "tabs t' = tabs ?t" using m(8) t user_page_addr [OF p] by (simp add: tr_def)
        then show ?thesis using B(6) that by auto
      next
        case False
        then have "q \<in> pages_of M ?t n - {p}" using t n q(1) by (auto simp: pages_of_def)
        then have "card (pages_of M ?t n - {p}) \<noteq> 0" by (auto simp: card_eq_0_iff)
        then show ?thesis using live [OF that] by simp
      qed
      then show ?thesis using n by blast
    qed
  qed
  have qk: "queue_known D (T - tabs t') ?f"
  proof (rule known_frees_diff [OF B(3)])
    fix n assume "n \<in> T" "queued ?f n \<noteq> 0"
    then show "n \<notin> tabs t'" using live [of n] by simp
  qed
  let ?w = "(upd_space s (\<lambda>sp. sp\<lparr>as_table := t'\<rparr>) w)\<lparr>w_alloc := a'\<rparr>"
  have ow: "only_table s w ?w" unfolding only_table_def upd_space_def
    by (intro exI [of _ a'] exI [of _ t'] exI [of _ ?f] exI [of _ "w_events w"]) simp
  have "slot_books M tabs D (T - tabs t') ext R s p x ?w (U \<union> frames (tabs t'))"
    unfolding slot_books_def Let_def
    using tk B(2,7,8) qk refs live [of x] by (simp add: upd_space_def pg dues_Cons) blast?
  moreover have "ext n = 0" if "n \<in> T \<inter> tabs t'" for n
    by (cases "ext n = 0") (use live [of n] that in auto)
  moreover have "tr M ?t p \<noteq> None \<longrightarrow> d \<and> tabs t' = tabs ?t" using m(8) user_page_addr [OF p] by (simp add: tr_def)
  moreover have "map_physM M s p (physaddr (pframe x)) fl w = Inr (?w, Inr d)" using m(1) by (simp add: map_physM_def)
  ultimately show thesis using m(2,3,6,7) ow tr' by (intro that [of ?w d t' "U \<union> frames (tabs t')"]) (simp_all add: upd_space_def)
qed

section \<open>A fresh frame for a slot\<close>

text \<open>Frames that have not been accounted so far have no holders.\<close>

definition ext_on :: "nat set \<Rightarrow> (nat \<Rightarrow> nat) \<Rightarrow> nat \<Rightarrow> nat" where
  "ext_on T ext n = (if n \<in> T then ext n else 0)"

lemma fresh_refs:
  assumes ok: "refs_ok D T c a U R" and rc: "rc_valid rc"
  obtains (oom) "init_frame rc a = Inr (a, Inl PfOom)"
  | (new) x a' where "init_frame rc a = Inr (a', Inr (pframe x))" "x \<in> D" "pfn_ok x" "(x, 0) \<notin> U"
      "refs_ok D (insert x T) (\<lambda>n. ext_on T c n + (if n = x then rc_count rc else 0)) a' (insert (x, 0) U) R"
      "phys_mem a' = (\<lambda>y. if unat y div 4096 = x then 0 else phys_mem a y)"
      "x \<in> T \<Longrightarrow> c x = 0"
proof (rule init_frame_cases_dom [OF refs_okD(1) [OF ok] rc])
  assume "init_frame rc a = Inr (a, Inl PfOom)"
  then show thesis by (rule oom)
next
  fix x a'
  assume i: "init_frame rc a = Inr (a', Inr (pframe x))" "alloc_ok a' (insert (x, 0) U) R" "(x, 0) \<notin> U \<union> R"
    "ref_of a' x = Some (rc_count rc, rc_kind rc)" "same_info (U \<union> R) a a'" "pfn_ok x"
    "phys_mem a' = (\<lambda>y. if unat y div 4096 = x then 0 else phys_mem a y)"
    "dom (pinfo (sections a')) = dom (pinfo (sections a))"
  have x: "x \<in> D" using i(4,8) refs_okD(2) [OF ok] by (auto simp: ref_of_def split: option.splits)
  have z: "c x = 0" if "x \<in> T" using refs_okD(5) [OF ok that] i(3) by auto
  have nz: "rc_count rc \<noteq> 0" using rc by (auto simp: rc_valid_def)
  have "refs_ok D (insert x T) (\<lambda>n. ext_on T c n + (if n = x then rc_count rc else 0)) a' (insert (x, 0) U) R"
    unfolding refs_ok_def
  proof (intro conjI ballI)
    fix n assume n: "n \<in> insert x T"
    have "ref_of a' n = ref_of a n" if "(n, 0) \<in> U"
      using same_info_head [OF i(5), of n 0] that by (intro ref_of_same) auto
    then show "if ext_on T c n + (if n = x then rc_count rc else 0) = 0 then (n, 0) \<notin> insert (x, 0) U
      else (n, 0) \<in> insert (x, 0) U \<and> (\<exists>k. ref_of a' n = Some (ext_on T c n + (if n = x then rc_count rc else 0), k))"
      using n i(4) nz z refs_okD(4-6) [OF ok, of n] by (auto simp: ext_on_def)
  qed (use i(2,8) x refs_okD(2,3) [OF ok] in auto)
  then show thesis using new i(1,3,6,7) x z by blast
qed

lemma refs_ok_mem: "refs_ok D T c a U R \<Longrightarrow> refs_ok D T c (a\<lparr>phys_mem := m\<rparr>) U R"
proof -
  have "alloc_inv (a\<lparr>phys_mem := m\<rparr>) = alloc_inv a" "above_off (a\<lparr>phys_mem := m\<rparr>) = above_off a"
    "ref_of (a\<lparr>phys_mem := m\<rparr>) = ref_of a"
    by (auto simp: fun_eq_iff alloc_inv_def above_off_def ref_of_def)
  then show "refs_ok D T c a U R \<Longrightarrow> refs_ok D T c (a\<lparr>phys_mem := m\<rparr>) U R"
    by (auto simp: refs_ok_def alloc_ok_def)
qed

lemma others_same_kept:
  assumes "others_same T a U R a' U'" "frames S \<subseteq> U" "T \<inter> S = {}"
  shows "frames S \<subseteq> U'"
proof -
  have "frames S \<subseteq> U - frames T" using assms(2,3) by auto
  then show ?thesis using assms(1) unfolding others_same_def by blast
qed

lemma table_known_mono: "table_known M D T t \<Longrightarrow> T \<subseteq> T' \<Longrightarrow> table_known M D T' t"
  unfolding table_known_def by blast

lemma known_frees_mono: "known_frees D T es \<Longrightarrow> T \<subseteq> T' \<Longrightarrow> known_frees D T' es"
  by (fastforce simp: known_frees_def known_frame_def)

lemma pages_of_unknown:
  assumes "table_known M D T t" "x \<in> D" "x \<notin> T" "pfn_ok x"
  shows "pages_of M t x = {}"
proof -
  have False if "p < USER_PAGES" "tr M t p = Some (physaddr (pframe x), fl)" for p fl
    using assms that physaddr_pframe_eq [of x] unfolding table_known_def by blast
  then show ?thesis by (auto simp: pages_of_def)
qed

lemma dues_unknown:
  assumes "known_frees D T es" "x \<in> D" "x \<notin> T" "pfn_ok x"
  shows "dues es x = 0"
proof -
  have False if e: "(pframe x, None) \<in> set es"
  proof -
    have "known_frame D T (pframe x)" using assms(1) e by (auto simp: known_frees_def)
    then show False using assms(2-4) by (auto simp: pframe_eq_iff elim!: known_frameE)
  qed
  then show ?thesis by (auto simp: dues_def count_list_0_iff)
qed

lemma dues_one: "pfn_ok x \<Longrightarrow> pfn_ok n \<Longrightarrow> dues [(pframe x, None)] n = (if n = x then 1 else 0)"
  by (simp add: dues_Cons)

text \<open>A new frame for a page that is not mapped.\<close>

lemma fresh_slot:
  assumes b: "books M tabs D T ext R s w U" and p: "tr M (as_table (w_spaces w s)) p = None"
  shows "runs (init_frameM RcOne) w (\<lambda>w' r. w' = w \<and> r = Inl PfOom \<or>
    (\<exists>x a'. r = Inr (pframe x) \<and> x \<in> D \<and> pfn_ok x \<and> (x, 0) \<notin> U \<and> w' = w\<lparr>w_alloc := a'\<rparr> \<and> (x \<in> T \<longrightarrow> ext x = 0) \<and>
      pages_of M (as_table (w_spaces w s)) x \<subseteq> {p} \<and>
      slot_books M tabs D (insert x T) (ext_on T ext) R s p x w' (insert (x, 0) U) \<and>
      phys_mem a' = (\<lambda>y. if unat y div 4096 = x then 0 else phys_mem (w_alloc w) y)))"
proof -
  let ?t = "as_table (w_spaces w s)" and ?f = "w_flushers w s"
  note B = booksD [OF b]
  have v: "rc_valid RcOne" by (simp add: rc_valid_def)
  show ?thesis
  proof (rule fresh_refs [OF B(4) v])
    assume "init_frame RcOne (w_alloc w) = Inr (w_alloc w, Inl PfOom)"
    then show ?thesis by (simp add: init_frameM_def allocM_def bindM_def runs_def)
  next
    fix x a'
    let ?c = "\<lambda>n. mapcount M ?t n + ext n + queued ?f n"
    assume i: "init_frame RcOne (w_alloc w) = Inr (a', Inr (pframe x))" "x \<in> D" "pfn_ok x" "(x, 0) \<notin> U"
      "refs_ok D (insert x T) (\<lambda>n. ext_on T ?c n + (if n = x then rc_count RcOne else 0)) a' (insert (x, 0) U) R"
      "phys_mem a' = (\<lambda>y. if unat y div 4096 = x then 0 else phys_mem (w_alloc w) y)"
      "x \<in> T \<Longrightarrow> ?c x = 0"
    let ?w = "w\<lparr>w_alloc := a'\<rparr>"
    have pg: "pages_of M ?t n - {p} = pages_of M ?t n" for n using p by (auto simp: pages_of_def)
    have px: "pages_of M ?t x \<subseteq> {p}"
      using i(7) pages_of_unknown [OF B(1) i(2) _ i(3)] by (cases "x \<in> T") (auto simp: mapcount_def)
    have "refs_ok D (insert x T) (\<lambda>n. card (pages_of M ?t n - {p}) + dues [(pframe x, None)] n + ext_on T ext n + queued ?f n)
        a' (insert (x, 0) U) R"
    proof (rule refs_ok_cong [OF i(5)])
      fix n assume n: "n \<in> insert x T"
      then have "pfn_ok n" using i(3) refs_pfn_ok [OF B(4)] by blast
      then show "card (pages_of M ?t n - {p}) + dues [(pframe x, None)] n + ext_on T ext n + queued ?f n =
          ext_on T ?c n + (if n = x then rc_count RcOne else 0)"
        using n i(2,3,7) pages_of_unknown [OF B(1) i(2) _ i(3)] dues_unknown [OF B(3) i(2) _ i(3)]
        by (auto simp: ext_on_def pg mapcount_def dues_one)
    qed
    then have "slot_books M tabs D (insert x T) (ext_on T ext) R s p x ?w (insert (x, 0) U)"
      using B i(2-4) table_known_mono [OF B(1), of "insert x T"] known_frees_mono [OF B(3), of "insert x T"]
      by (auto simp: slot_books_def Let_def)
    then show ?thesis using i px by (intro runsI [of _ _ ?w "Inr (pframe x)"]) (auto simp: init_frameM_def allocM_def bindM_def)
  qed
qed

text \<open>A copy for a page whose frame is shared copy-on-write.\<close>

lemma cow_slot:
  assumes b: "slot_books M tabs D T ext R s p y w U" and y: "y \<in> D"
    and rc: "refcount (pi_load (sections (w_alloc w)) r) = Some rc" "rc \<noteq> RcOne"
    and z: "w_zeroed_frame w = Some (pframe z, zr)" "pfn_ok z" "\<forall>i<4096. frame_bytes (phys_mem (w_alloc w)) z i = 0"
    and ylive: "(y, 0) \<in> U"
  shows "runs (bindM (cow (pframe y) r RkCow) (\<lambda>(new_frame, old_frame).
        bindM (case old_frame of Some f \<Rightarrow> queueM (FlusherOf s) f None (TLB_NONE\<lparr>TLB_FREE := True\<rparr>) | None \<Rightarrow> retM ()) (\<lambda>_.
          retM (new_frame, True)))) w (\<lambda>w' r. w' = w \<and> r = Inl PfOom \<or>
    (\<exists>x U'. r = Inr (pframe x, True) \<and> x \<in> D \<and> pfn_ok x \<and> (x, 0) \<notin> U \<and> only_table s w w' \<and> (x \<in> T \<longrightarrow> ext x = 0) \<and>
      as_table (w_spaces w' s) = as_table (w_spaces w s) \<and> pages_of M (as_table (w_spaces w s)) x \<subseteq> {p} \<and>
      slot_books M tabs D (insert x T) (ext_on T ext) R s p x w' U' \<and>
      changes_in {x} (phys_mem (w_alloc w)) (phys_mem (w_alloc w')) \<and>
      (\<forall>i<4096. frame_bytes (phys_mem (w_alloc w')) x i = frame_bytes (phys_mem (w_alloc w)) y i)))"
proof -
  let ?t = "as_table (w_spaces w s)" and ?f = "w_flushers w s"
  note B = slot_booksD [OF b]
  let ?c = "\<lambda>n. card (pages_of M ?t n - {p}) + dues [(pframe y, None)] n + ext n + queued ?f n"
  have v: "rc_valid RcOne" by (simp add: rc_valid_def)
  show ?thesis
  proof (rule fresh_refs [OF B(4) v])
    assume "init_frame RcOne (w_alloc w) = Inr (w_alloc w, Inl PfOom)"
    then show ?thesis using rc
      by (simp add: cow_def init_frameM_def allocM_def bindM_def runs_def load_infoM_def getM_def Let_def)
  next
    fix x a'
    assume i: "init_frame RcOne (w_alloc w) = Inr (a', Inr (pframe x))" "x \<in> D" "pfn_ok x" "(x, 0) \<notin> U"
      "refs_ok D (insert x T) (\<lambda>n. ext_on T ?c n + (if n = x then rc_count RcOne else 0)) a' (insert (x, 0) U) R"
      "phys_mem a' = (\<lambda>y. if unat y div 4096 = x then 0 else phys_mem (w_alloc w) y)"
      "x \<in> T \<Longrightarrow> ?c x = 0"
    let ?m = "if pframe y = pframe z then phys_mem a' else copy_frame_bytes (phys_mem a') (physaddr (pframe x)) (physaddr (pframe y))"
    let ?a = "a'\<lparr>phys_mem := ?m\<rparr>" and ?T = "insert x T"
    have px: "pages_of M ?t x \<subseteq> {p}"
      using i(7) pages_of_unknown [OF B(1) i(2) _ i(3)] by (cases "x \<in> T") (auto simp: mapcount_def)
    have xy: "x \<noteq> y" using ylive i(4) by auto
    have cx: "changes_in {x} (phys_mem (w_alloc w)) (phys_mem a')" by (simp add: changes_in_def i(6))
    have ch: "changes_in {x} (phys_mem (w_alloc w)) ?m"
      using changes_in_trans [OF cx copy_frame_changes [OF i(3)]] cx by simp
    have co: "frame_bytes ?m x j = frame_bytes (phys_mem (w_alloc w)) y j" if j: "j < 4096" for j
    proof (cases "pframe y = pframe z")
      case True
      then have "y = z" using B(7) z(2) by (simp add: pframe_eq_iff)
      then show ?thesis using j True z(3) frame_addr_div [OF i(3) j] by (simp add: frame_bytes_def i(6))
    next
      case False
      then show ?thesis
        using j copy_frame_content [OF i(3) B(7) j] changes_in_bytes [OF cx B(7) _ j] xy by simp
    qed
    have run: "cow (pframe y) r RkCow w = Inr (w\<lparr>w_alloc := ?a\<rparr>, Inr (pframe x, Some (pframe y)))"
      using i(1) rc z(1)
      by (simp add: cow_def init_frameM_def allocM_def bindM_def load_infoM_def getM_def Let_def the_zeroed_frame_def
          copy_frame_to_frame_directly_def modM_def)
    have rf: "refs_ok D ?T (\<lambda>n. (card (pages_of M ?t n - {p}) + dues [(pframe x, None)] n + ext_on T ext n) + queued ?f n +
        (if TLB_FREE (TLB_NONE\<lparr>TLB_FREE := True\<rparr>) then dues [(pframe y, None)] n else 0)) ?a (insert (x, 0) U) R"
    proof (rule refs_ok_cong [OF refs_ok_mem [OF i(5)]])
      fix n assume n: "n \<in> ?T"
      then have "pfn_ok n" using i(3) refs_pfn_ok [OF B(4)] by blast
      then show "card (pages_of M ?t n - {p}) + dues [(pframe x, None)] n + ext_on T ext n + queued ?f n +
          (if TLB_FREE (TLB_NONE\<lparr>TLB_FREE := True\<rparr>) then dues [(pframe y, None)] n else 0) =
          ext_on T ?c n + (if n = x then rc_count RcOne else 0)"
        using n i(2,3,7) xy B(7,8) y pages_of_unknown [OF B(1) i(2) _ i(3)] dues_unknown [OF B(3) i(2) _ i(3)]
        by (auto simp: ext_on_def dues_one)
    qed
    have kn: "TLB_FREE (TLB_NONE\<lparr>TLB_FREE := True\<rparr>) \<longrightarrow> known_frame D ?T (pframe y) \<and> (None :: nat option) = None"
      "queue_known D ?T ?f" "table_known M D ?T ?t"
      using B(7,8) y known_frees_mono [OF B(3), of ?T] table_known_mono [OF B(1), of ?T] by (auto simp: known_frame_def)
    obtain f' a2 U2 evs where q: "Flusher_queue (w_cpu w) (pframe y) None (TLB_NONE\<lparr>TLB_FREE := True\<rparr>) ?f ?a = Inr (f', a2, evs)"
      "flusher_ok f' (w_cpu w)" "queue_known D ?T f'"
      "refs_ok D ?T (\<lambda>n. (card (pages_of M ?t n - {p}) + dues [(pframe x, None)] n + ext_on T ext n) + queued f' n) a2 U2 R"
      "others_same ?T ?a (insert (x, 0) U) R a2 U2"
      using Flusher_queue_refs [OF B(2) kn(2) kn(1) rf] by blast
    let ?w = "w\<lparr>w_alloc := a2, w_flushers := (w_flushers w)(s := f'), w_events := w_events w @ evs\<rparr>"
    have fr: "frames (tabs ?t) \<subseteq> U2" "?T \<inter> tabs ?t = {}"
      using B(5,6) i(4) others_same_kept [OF q(5), of "tabs ?t"] by auto
    have "slot_books M tabs D ?T (ext_on T ext) R s p x ?w U2"
      unfolding slot_books_def Let_def using kn(3) q(2-4) fr i(3) by simp
    moreover have "only_table s w ?w" unfolding only_table_def
      by (intro exI [of _ a2] exI [of _ ?t] exI [of _ f'] exI [of _ "w_events w @ evs"]) simp
    moreover have "phys_mem a2 = ?m" using q(5) by (simp add: others_same_def)
    ultimately show ?thesis using run q(1) i(2-4,7) ch co px
      by (intro runsI [of _ _ ?w "Inr (pframe x, True)"]) (auto simp: bindM_def)
  qed
qed

section \<open>A fault on owned memory\<close>

lemma slot_books_mapped:
  assumes b: "slot_books M tabs D T ext R s p x w U" and p: "p < USER_PAGES"
    and x: "tr M (as_table (w_spaces w s)) p = Some (physaddr (pframe x), fl)"
  shows "books M tabs D T ext R s w U"
proof -
  note B = slot_booksD [OF b]
  have "refs_ok D T (\<lambda>n. mapcount M (as_table (w_spaces w s)) n + ext n + queued (w_flushers w s) n) (w_alloc w) U R"
    using pages_of_slot [OF p x B(7)] refs_pfn_ok [OF B(4)] by (intro refs_ok_cong [OF B(4)]) (simp add: mapcount_def)
  then show ?thesis using B by (simp add: books_def Let_def)
qed

text \<open>
  The accounts after a fault: frames taken for page tables leave them, a new frame enters them, and
  all others keep their outside holders.
\<close>

definition grown :: "nat set \<Rightarrow> (nat \<Rightarrow> nat) \<Rightarrow> nat set \<Rightarrow> (nat \<Rightarrow> nat) \<Rightarrow> bool" where
  "grown T ext T' ext' \<longleftrightarrow> (\<forall>n\<in>T - T'. ext n = 0) \<and> (\<forall>n\<in>T'. ext' n = ext_on T ext n)"

definition writable :: "allocator \<Rightarrow> nat \<Rightarrow> bool" where
  "writable a n \<longleftrightarrow> (\<exists>c k. ref_of a n = Some (c, k) \<and> k \<noteq> Some RkCow)"

definition fault_mapped ::
    "('m, 'f) mapper_ops \<Rightarrow> ('m \<Rightarrow> nat set) \<Rightarrow> 'f flag_ops \<Rightarrow> nat set \<Rightarrow> nat set \<Rightarrow> (nat \<Rightarrow> nat) \<Rightarrow> block set \<Rightarrow> space_id \<Rightarrow> page \<Rightarrow>
      'f \<Rightarrow> access_mode \<Rightarrow> ('m, 'f) world \<Rightarrow> ('m, 'f) world \<Rightarrow> nat \<Rightarrow> bool" where
  "fault_mapped M tabs F D T ext R s p gf access w w' x \<longleftrightarrow>
     (let t = as_table (w_spaces w s); t' = as_table (w_spaces w' s) in
      pfn_ok x \<and> (\<exists>aw T' ext' U'. books M tabs D T' ext' R s w' U' \<and> grown T ext T' ext' \<and> (access = Write \<longrightarrow> aw) \<and>
        (\<forall>q<USER_PAGES. tr M t' q = (if q = p then Some (physaddr (pframe x), pf_write F gf (pf_has_write F gf \<and> aw)) else tr M t q)) \<and>
        (aw \<and> x \<in> T' \<and> mapcount M t' x + ext' x = 1 \<or> fl_pagequeue (w_flushers w' s) = [] \<and> aw = writable (w_alloc w') x)))"

text \<open>
  What a program reads from a page.  A page of owned memory that is not mapped reads as zero: this is
  what the fault that the access causes will give it.
\<close>

definition page_byte :: "('m, 'f) mapper_ops \<Rightarrow> space_id \<Rightarrow> ('m, 'f) world \<Rightarrow> page \<Rightarrow> nat \<Rightarrow> 8 word" where
  "page_byte M s w q i = (case tr M (as_table (w_spaces w s)) q of None \<Rightarrow> 0 | Some (ph, _) \<Rightarrow> phys_mem (w_alloc w) (ph + of_nat i))"

definition same_content :: "('m, 'f) mapper_ops \<Rightarrow> space_id \<Rightarrow> ('m, 'f) world \<Rightarrow> ('m, 'f) world \<Rightarrow> bool" where
  "same_content M s w w' \<longleftrightarrow> (\<forall>q<USER_PAGES. \<forall>i<4096. page_byte M s w' q i = page_byte M s w q i)"

definition fault_oom ::
    "('m, 'f) mapper_ops \<Rightarrow> ('m \<Rightarrow> nat set) \<Rightarrow> nat set \<Rightarrow> nat set \<Rightarrow> (nat \<Rightarrow> nat) \<Rightarrow> block set \<Rightarrow> space_id \<Rightarrow> page \<Rightarrow>
      ('m, 'f) world \<Rightarrow> ('m, 'f) world \<Rightarrow> bool" where
  "fault_oom M tabs D T ext R s p w w' \<longleftrightarrow> w' = w \<or>
     (\<forall>q<USER_PAGES. tr M (as_table (w_spaces w' s)) q = tr M (as_table (w_spaces w s)) q) \<and>
     tr M (as_table (w_spaces w s)) p = None \<and>
     (\<exists>x T' ext' U'. books M tabs D T' (\<lambda>n. ext' n + (if n = x then 1 else 0)) R s w' U' \<and> grown T ext T' ext')"

text \<open>Frames that no page maps: free ones and page tables.\<close>

definition loose :: "nat set \<Rightarrow> block set \<Rightarrow> nat set \<Rightarrow> nat set" where
  "loose D U S = {n \<in> D. (n, 0) \<notin> U} \<union> S"

lemma tabs_in_D:
  assumes "refs_ok D T c a U R" "frames S \<subseteq> U" "n \<in> S"
  shows "n \<in> D"
proof -
  have "(n, 0) \<in> U" using assms(2,3) by auto
  then show ?thesis using live_head_info [OF refs_okD(1) [OF assms(1)]] refs_okD(2) [OF assms(1)] by blast
qed

lemma only_table_alloc: "only_table s w (w\<lparr>w_alloc := a\<rparr>)"
  unfolding only_table_def
  by (intro exI [of _ a] exI [of _ "as_table (w_spaces w s)"] exI [of _ "w_flushers w s"] exI [of _ "w_events w"]) simp

lemma page_byte_frame: "tr M (as_table (w_spaces w s)) q = Some (physaddr (pframe n), fl) \<Longrightarrow>
    page_byte M s w q i = frame_bytes (phys_mem (w_alloc w)) n i"
  by (simp add: page_byte_def frame_bytes_def pframe_def)

lemma content_kept:
  assumes b: "books M tabs D T ext R s w U"
    and ch: "changes_in (loose D U (tabs (as_table (w_spaces w s)))) (phys_mem (w_alloc w)) (phys_mem (w_alloc w'))"
    and t: "\<And>q. q < USER_PAGES \<Longrightarrow> q \<noteq> p \<Longrightarrow> tr M (as_table (w_spaces w' s)) q = tr M (as_table (w_spaces w s)) q"
    and c: "\<And>i. p < USER_PAGES \<Longrightarrow> i < 4096 \<Longrightarrow> page_byte M s w' p i = page_byte M s w p i"
  shows "same_content M s w w'"
  unfolding same_content_def
proof (intro allI impI)
  let ?t = "as_table (w_spaces w s)"
  note B = booksD [OF b]
  fix q i :: nat
  assume q: "q < USER_PAGES" "i < 4096"
  show "page_byte M s w' q i = page_byte M s w q i"
  proof (cases "q = p \<or> tr M ?t q = None")
    case True
    then show ?thesis using c [of i] t [of q] q by (cases "q = p") (simp_all add: page_byte_def)
  next
    case False
    then obtain ph fl where e: "tr M ?t q = Some (ph, fl)" by auto
    then obtain n where n: "pfn_ok n" "ph = physaddr (pframe n)" "n \<in> D \<longrightarrow> n \<in> T"
      using B(1) q(1) unfolding table_known_def by blast
    have "n \<notin> loose D U (tabs ?t)"
    proof (cases "n \<in> D")
      case True
      have "mapcount M ?t n + ext n + queued (w_flushers w s) n \<noteq> 0"
        using q(1) e n(2) by (auto simp: mapcount_def pages_of_def card_eq_0_iff)
      then show ?thesis using refs_okD(5) [OF B(4), of n] True n(3) B(6) by (auto simp: loose_def)
    qed (use tabs_in_D [OF B(4,5)] in \<open>auto simp: loose_def\<close>)
    then show ?thesis
      using changes_in_bytes [OF ch n(1) _ q(2)] t [OF q(1)] False e n(2) page_byte_frame [of M w s q n fl i]
        page_byte_frame [of M w' s q n fl i] by simp
  qed
qed

lemma pages_of_moved:
  assumes t': "\<forall>q<USER_PAGES. tr M t' q = (if q = p then Some (physaddr (pframe x), fl) else tr M t q)"
    and p: "p < USER_PAGES" and x: "pages_of M t x \<subseteq> {p}"
  shows "pages_of M t' x = {p}"
proof -
  have "q = p" if "q \<in> pages_of M t' x" for q
  proof (rule ccontr)
    assume "q \<noteq> p"
    then have "q \<in> pages_of M t x" using that t' by (auto simp: pages_of_def)
    then show False using x \<open>q \<noteq> p\<close> by blast
  qed
  moreover have "p \<in> pages_of M t' x" using t' p by (simp add: pages_of_def)
  ultimately show ?thesis by blast
qed

lemma allows_writable_abs: "rc_abs i = Some (c, k) \<Longrightarrow> allows_writable i = Inr (k \<noteq> Some RkCow)"
  by (auto simp: allows_writable_def rc_abs_def split: ref_count.splits)

lemma fault_finish_slot:
  fixes M :: "('m, 'f) mapper_ops"
  assumes laws: "mapper_laws M" "mapper_takes M tabs" and b: "slot_books M tabs D T ext R s p x w U" and p: "p < USER_PAGES"
    and m: "tr M (as_table (w_spaces w s)) p \<noteq> None"
  obtains w' U' where "fault_finish M F s p gf (pframe x) aw w = Inr (w', Inr (pframe x))" "only_table s w w'"
    "w_flushers w' = w_flushers w" "books M tabs D T ext R s w' U'"
    "tabs (as_table (w_spaces w' s)) = tabs (as_table (w_spaces w s))"
    "\<forall>q<USER_PAGES. tr M (as_table (w_spaces w' s)) q =
       (if q = p then Some (physaddr (pframe x), pf_write F gf (pf_has_write F gf \<and> aw)) else tr M (as_table (w_spaces w s)) q)"
    "same_info (U \<union> R - frames (tabs (as_table (w_spaces w s)))) (w_alloc w) (w_alloc w')"
    "changes_in (tabs (as_table (w_spaces w s))) (phys_mem (w_alloc w)) (phys_mem (w_alloc w'))"
proof (rule map_slot [OF laws b p, of "pf_write F gf (pf_has_write F gf \<and> aw)"])
  let ?fl = "pf_write F gf (pf_has_write F gf \<and> aw)"
  fix w' d t' U'
  assume *: "(map_physM M s p (physaddr (pframe x)) ?fl :: ('m, 'f, bool) fprog) w = Inr (w', Inr d)" "t' = as_table (w_spaces w' s)"
    "only_table s w w'" "w_flushers w' = w_flushers w" "slot_books M tabs D (T - tabs t') ext R s p x w' U'"
    "\<forall>q<USER_PAGES. tr M t' q = (if q = p \<and> d then Some (physaddr (pframe x), ?fl) else tr M (as_table (w_spaces w s)) q)"
    "tr M (as_table (w_spaces w s)) p \<noteq> None \<longrightarrow> d \<and> tabs t' = tabs (as_table (w_spaces w s))"
    "same_info (U \<union> R - frames (tabs (as_table (w_spaces w s)))) (w_alloc w) (w_alloc w')"
    "changes_in (tabs t') (phys_mem (w_alloc w)) (phys_mem (w_alloc w'))"
  have d: "d" "tabs t' = tabs (as_table (w_spaces w s))" "T - tabs t' = T" using *(7) m slot_booksD(6) [OF b] by auto
  have "books M tabs D T ext R s w' U'" using slot_books_mapped [OF *(5) p] *(2,6) d p by simp
  moreover have "fault_finish M F s p gf (pframe x) aw w = Inr (w', Inr (pframe x))"
    using *(1) d(1) by (simp add: fault_finish_def Let_def bindM_def)
  ultimately show thesis using that *(2-4,6,8,9) d by simp
qed

lemma ref_of_writable: "ref_of a n = Some (c, k) \<Longrightarrow> writable a n \<longleftrightarrow> k \<noteq> Some RkCow"
  by (simp add: writable_def)

text \<open>The page is mapped: its frame is kept, or replaced by a copy before a write.\<close>

lemma fault_present:
  fixes M :: "('m, 'f) mapper_ops"
  assumes laws: "mapper_laws M" "mapper_takes M tabs" and b: "books M tabs D T ext R s w U" and p: "p < USER_PAGES"
    and y: "tr M (as_table (w_spaces w s)) p = Some (physaddr (pframe y), fl)" "pfn_ok y" "y \<in> D"
    and q0: "fl_pagequeue (w_flushers w s) = []"
    and r: "owns (sections (w_alloc w)) y r"
    and z: "w_zeroed_frame w = Some (pframe z, zr)" "pfn_ok z" "\<forall>i<4096. frame_bytes (phys_mem (w_alloc w)) z i = 0"
  shows "runs (bindM (fault_allocated M s p access gf (Some (pframe y, Some r))) (\<lambda>(frame, aw). fault_finish M F s p gf frame aw)) w
    (\<lambda>w' r. w' = w \<and> r = Inl PfOom \<or> (\<exists>x. r = Inr (pframe x) \<and> only_table s w w' \<and>
      fault_mapped M tabs F D T ext R s p gf access w w' x \<and> same_content M s w w'))"
    (is "runs ?prog w ?Q")
proof -
  let ?t = "as_table (w_spaces w s)"
  note B = booksD [OF b] and sb = books_slot [OF b p y(1,2)]
  note S = slot_booksD [OF sb]
  have yT: "y \<in> T" by (rule S(8) [OF y(3)])
  have c0: "mapcount M ?t y + ext y + queued (w_flushers w s) y \<noteq> 0"
    using p y(1) by (auto simp: mapcount_def pages_of_def card_eq_0_iff)
  have yU: "(y, 0) \<in> U" by (rule refs_okD(5) [OF B(4) yT c0])
  obtain k where k: "ref_of (w_alloc w) y = Some (mapcount M ?t y + ext y + queued (w_flushers w s) y, k)"
    using refs_okD(6) [OF B(4) yT c0] by blast
  have ab: "rc_abs (pi_load (sections (w_alloc w)) r) = Some (mapcount M ?t y + ext y + queued (w_flushers w s) y, k)"
    using k owns_get(2) [OF alloc_ok_wf [OF refs_okD(1) [OF B(4)]] r] by (simp add: ref_of_def)
  have aw: "(allows_writableM r :: ('m, 'f, bool) fprog) w = Inr (w, Inr (k \<noteq> Some RkCow))"
    using allows_writable_abs [OF ab] by (simp add: allows_writableM_def load_infoM_def bindM_def getM_def)
  have ytabs: "y \<notin> tabs ?t" using B(6) yT by auto
  show ?thesis
  proof (cases "access = Write \<and> k = Some RkCow")
    case False
    then have fa: "fault_allocated M s p access gf (Some (pframe y, Some r)) w = Inr (w, Inr (pframe y, k \<noteq> Some RkCow))"
      using aw by (auto simp: fault_allocated_def bindM_def)
    show ?thesis
    proof (rule fault_finish_slot [OF laws sb p, of F gf "k \<noteq> Some RkCow"])
      fix w' U'
      assume *: "fault_finish M F s p gf (pframe y) (k \<noteq> Some RkCow) w = Inr (w', Inr (pframe y))" "only_table s w w'"
        "w_flushers w' = w_flushers w" "books M tabs D T ext R s w' U'" "tabs (as_table (w_spaces w' s)) = tabs ?t"
        "\<forall>q<USER_PAGES. tr M (as_table (w_spaces w' s)) q =
          (if q = p then Some (physaddr (pframe y), pf_write F gf (pf_has_write F gf \<and> k \<noteq> Some RkCow)) else tr M ?t q)"
        "same_info (U \<union> R - frames (tabs ?t)) (w_alloc w) (w_alloc w')"
        "changes_in (tabs ?t) (phys_mem (w_alloc w)) (phys_mem (w_alloc w'))"
      have "ref_of (w_alloc w') y = ref_of (w_alloc w) y"
        using same_info_head [OF *(7), of y 0] yU ytabs by (intro ref_of_same) auto
      then have wr: "(k \<noteq> Some RkCow) = writable (w_alloc w') y" using k by (simp add: ref_of_writable)
      have "fault_mapped M tabs F D T ext R s p gf access w w' y"
        unfolding fault_mapped_def Let_def
        using y(2) *(3,4,6) wr False q0
        by (auto simp: grown_def ext_on_def intro!: exI [of _ "k \<noteq> Some RkCow"] exI [of _ T] exI [of _ ext] exI [of _ U'])
      moreover have "changes_in (loose D U (tabs ?t)) (phys_mem (w_alloc w)) (phys_mem (w_alloc w'))"
        by (rule changes_in_mono [OF *(8)]) (simp add: loose_def)
      then have "same_content M s w w'"
        by (rule content_kept [OF b, of _ p])
          (use *(6) p y(1) changes_in_bytes [OF *(8) y(2) ytabs] in \<open>simp_all add: page_byte_frame\<close>)
      ultimately show ?thesis using fa *(1,2)
        by (intro runsI [of _ _ w' "Inr (pframe y)"]) (auto simp: bindM_def)
    qed (use y in simp)
  next
    case True
    obtain rc where rc: "refcount (pi_load (sections (w_alloc w)) r) = Some rc" "rc \<noteq> RcOne"
      using ab True by (cases "refcount (pi_load (sections (w_alloc w)) r)") (fastforce simp: rc_abs_def)+
    let ?cow = "bindM (cow (pframe y) r RkCow) (\<lambda>(new_frame, old_frame).
        bindM (case old_frame of Some f \<Rightarrow> queueM (FlusherOf s) f None (TLB_NONE\<lparr>TLB_FREE := True\<rparr>) | None \<Rightarrow> retM ()) (\<lambda>_.
          retM (new_frame, True))) :: ('m, 'f, frame \<times> bool) fprog"
    have fa: "fault_allocated M s p access gf (Some (pframe y, Some r)) w = ?cow w"
      using aw True by (simp add: fault_allocated_def bindM_def)
    obtain w1 r1 where c: "?cow w = Inr (w1, r1)" and alt: "w1 = w \<and> r1 = Inl PfOom \<or>
      (\<exists>x U'. r1 = Inr (pframe x, True) \<and> x \<in> D \<and> pfn_ok x \<and> (x, 0) \<notin> U \<and> only_table s w w1 \<and> (x \<in> T \<longrightarrow> ext x = 0) \<and>
        as_table (w_spaces w1 s) = ?t \<and> pages_of M ?t x \<subseteq> {p} \<and>
        slot_books M tabs D (insert x T) (ext_on T ext) R s p x w1 U' \<and>
        changes_in {x} (phys_mem (w_alloc w)) (phys_mem (w_alloc w1)) \<and>
        (\<forall>i<4096. frame_bytes (phys_mem (w_alloc w1)) x i = frame_bytes (phys_mem (w_alloc w)) y i))"
      by (rule runsE [OF cow_slot [OF sb y(3) rc z yU]])
    show ?thesis
    proof (cases "r1 = Inl PfOom")
      case True
      then have "w1 = w" using alt by auto
      then show ?thesis using fa c True by (intro runsI [of _ _ w "Inl PfOom"]) (auto simp: bindM_def)
    next
      case False
      then obtain x U1 where x: "r1 = Inr (pframe x, True)" "x \<in> D" "pfn_ok x" "(x, 0) \<notin> U" "only_table s w w1" "x \<in> T \<longrightarrow> ext x = 0"
        "as_table (w_spaces w1 s) = ?t" "pages_of M ?t x \<subseteq> {p}" "slot_books M tabs D (insert x T) (ext_on T ext) R s p x w1 U1"
        "changes_in {x} (phys_mem (w_alloc w)) (phys_mem (w_alloc w1))"
        "\<forall>i<4096. frame_bytes (phys_mem (w_alloc w1)) x i = frame_bytes (phys_mem (w_alloc w)) y i"
        using alt by blast
      have m1: "tr M (as_table (w_spaces w1 s)) p \<noteq> None" using x(7) y(1) by simp
      show ?thesis
      proof (rule fault_finish_slot [OF laws x(9) p m1, of F gf True])
        fix w' U'
        assume *: "fault_finish M F s p gf (pframe x) True w1 = Inr (w', Inr (pframe x))" "only_table s w1 w'"
          "books M tabs D (insert x T) (ext_on T ext) R s w' U'" "tabs (as_table (w_spaces w' s)) = tabs (as_table (w_spaces w1 s))"
          "\<forall>q<USER_PAGES. tr M (as_table (w_spaces w' s)) q =
            (if q = p then Some (physaddr (pframe x), pf_write F gf (pf_has_write F gf \<and> True)) else tr M (as_table (w_spaces w1 s)) q)"
          "changes_in (tabs (as_table (w_spaces w1 s))) (phys_mem (w_alloc w1)) (phys_mem (w_alloc w'))"
        have xt: "x \<notin> tabs ?t" using slot_booksD(6) [OF x(9)] x(7) by auto
        have "pages_of M (as_table (w_spaces w' s)) x = {p}"
          by (rule pages_of_moved [OF *(5) [unfolded x(7)] p x(8)])
        then have "mapcount M (as_table (w_spaces w' s)) x + ext_on T ext x = 1"
          using x(6) by (simp add: mapcount_def ext_on_def)
        then have "fault_mapped M tabs F D T ext R s p gf access w w' x"
          unfolding fault_mapped_def Let_def using x(3,7) *(3,5)
          by (auto simp: grown_def intro!: exI [of _ True] exI [of _ "insert x T"] exI [of _ "ext_on T ext"] exI [of _ U'])
        moreover have "only_table s w w'" by (rule only_table_trans [OF x(5) *(2)])
        moreover have "changes_in (loose D U (tabs ?t)) (phys_mem (w_alloc w)) (phys_mem (w_alloc w'))"
          by (rule changes_in_mono [OF changes_in_trans [OF x(10) *(6)]]) (use x(2,4,7) in \<open>auto simp: loose_def\<close>)
        then have "same_content M s w w'"
          by (rule content_kept [OF b, of _ p])
            (use *(5) p y(1) x(7,11) changes_in_bytes [OF *(6) x(3)] xt in \<open>simp_all add: page_byte_frame\<close>)
        ultimately show ?thesis using fa c *(1) x(1)
          by (intro runsI [of _ _ w' "Inr (pframe x)"]) (auto simp: bindM_def)
      qed
    qed
  qed
qed

text \<open>The page is not mapped: it gets a zeroed frame, unless there is no memory for it or for a page table.\<close>

lemma fault_absent:
  fixes M :: "('m, 'f) mapper_ops"
  assumes laws: "mapper_laws M" "mapper_takes M tabs" and b: "books M tabs D T ext R s w U" and p: "p < USER_PAGES"
    and y: "tr M (as_table (w_spaces w s)) p = None"
  shows "runs (bindM (fault_allocated M s p access gf None) (\<lambda>(frame, aw). fault_finish M F s p gf frame aw)) w
    (\<lambda>w' r. only_table s w w' \<and> same_content M s w w' \<and> (r = Inl PfOom \<and> fault_oom M tabs D T ext R s p w w' \<or>
      (\<exists>x. r = Inr (pframe x) \<and> fault_mapped M tabs F D T ext R s p gf access w w' x)))"
    (is "runs ?prog w ?Q")
proof -
  let ?t = "as_table (w_spaces w s)" and ?mem = "phys_mem (w_alloc w)"
  note B = booksD [OF b]
  obtain w1 r1 where f: "init_frameM RcOne w = Inr (w1, r1)" and alt: "w1 = w \<and> r1 = Inl PfOom \<or>
    (\<exists>x a'. r1 = Inr (pframe x) \<and> x \<in> D \<and> pfn_ok x \<and> (x, 0) \<notin> U \<and> w1 = w\<lparr>w_alloc := a'\<rparr> \<and> (x \<in> T \<longrightarrow> ext x = 0) \<and>
      pages_of M ?t x \<subseteq> {p} \<and> slot_books M tabs D (insert x T) (ext_on T ext) R s p x w1 (insert (x, 0) U) \<and>
      phys_mem a' = (\<lambda>y. if unat y div 4096 = x then 0 else ?mem y))"
    by (rule runsE [OF fresh_slot [OF b y]])
  show ?thesis
  proof (cases "r1 = Inl PfOom")
    case True
    then have "w1 = w" using alt by auto
    then show ?thesis using f True
      by (intro runsI [of _ _ w "Inl PfOom"]) (auto simp: bindM_def fault_allocated_def map_zeroed_def fault_oom_def same_content_def)
  next
    case False
    then obtain x a1 where x: "r1 = Inr (pframe x)" "x \<in> D" "pfn_ok x" "(x, 0) \<notin> U" "w1 = w\<lparr>w_alloc := a1\<rparr>" "x \<in> T \<longrightarrow> ext x = 0"
      "pages_of M ?t x \<subseteq> {p}" "slot_books M tabs D (insert x T) (ext_on T ext) R s p x w1 (insert (x, 0) U)"
      "phys_mem a1 = (\<lambda>y. if unat y div 4096 = x then 0 else ?mem y)"
      using alt by blast
    have c1: "changes_in {x} ?mem (phys_mem (w_alloc w1))" by (simp add: changes_in_def x(5,9))
    have t1: "as_table (w_spaces w1 s) = ?t" by (simp add: x(5))
    show ?thesis
    proof (rule map_slot [OF laws x(8) p, of gf])
      fix w2 d t2 U2
      assume *: "(map_physM M s p (physaddr (pframe x)) gf :: ('m, 'f, bool) fprog) w1 = Inr (w2, Inr d)" "t2 = as_table (w_spaces w2 s)"
        "only_table s w1 w2" "slot_books M tabs D (insert x T - tabs t2) (ext_on T ext) R s p x w2 U2"
        "\<forall>n\<in>insert x T \<inter> tabs t2. ext_on T ext n = 0"
        "\<forall>q<USER_PAGES. tr M t2 q = (if q = p \<and> d then Some (physaddr (pframe x), gf) else tr M (as_table (w_spaces w1 s)) q)"
        "tabs (as_table (w_spaces w1 s)) \<subseteq> tabs t2" "frames (tabs t2 - tabs (as_table (w_spaces w1 s))) \<inter> insert (x, 0) U = {}"
        "changes_in (tabs t2) (phys_mem (w_alloc w1)) (phys_mem (w_alloc w2))"
      let ?T = "insert x T - tabs t2"
      have gr: "grown T ext ?T (ext_on T ext)" using *(5) by (auto simp: grown_def ext_on_def split: if_splits)
      have xT: "x \<in> ?T" by (rule slot_booksD(8) [OF *(4) x(2)])
      have ow: "only_table s w w2" using only_table_trans [OF only_table_alloc *(3) [unfolded x(5)]] .
      have lo: "insert x (tabs t2) \<subseteq> loose D U (tabs ?t)"
        using tabs_in_D [OF slot_booksD(4,5) [OF *(4)]] *(2,8) t1 x(2,4) by (auto simp: loose_def)
      have c2: "changes_in (loose D U (tabs ?t)) ?mem (phys_mem (w_alloc w2))"
        by (rule changes_in_mono [OF changes_in_trans [OF c1 *(9)]]) (use lo in simp)
      have x0: "frame_bytes (phys_mem (w_alloc w2)) x i = 0" if i: "i < 4096" for i
        using changes_in_bytes [OF *(9) x(3) _ i] xT frame_addr_div [OF x(3) i] by (simp add: frame_bytes_def x(5,9))
      show ?thesis
      proof (cases d)
        case False
        have "same_content M s w w2"
          by (rule content_kept [OF b c2, of p]) (use False *(2,6) t1 in \<open>simp_all add: page_byte_def y\<close>)
        moreover have "fault_oom M tabs D T ext R s p w w2"
          unfolding fault_oom_def using slot_books_unmapped [OF *(4)] False *(2,6) t1 y p gr
          by (intro disjI2 conjI exI [of _ x] exI [of _ ?T] exI [of _ "ext_on T ext"] exI [of _ U2]) simp_all
        ultimately show ?thesis using f x(1) *(1) ow False
          by (intro runsI [of _ _ w2 "Inl PfOom"]) (auto simp: bindM_def fault_allocated_def map_zeroed_def)
      next
        case True
        have m2: "tr M (as_table (w_spaces w2 s)) p \<noteq> None" using *(2,6) True p by simp
        show ?thesis
        proof (rule fault_finish_slot [OF laws *(4) p m2, of F gf True])
          fix w' U'
          assume fin: "fault_finish M F s p gf (pframe x) True w2 = Inr (w', Inr (pframe x))" "only_table s w2 w'"
            "books M tabs D ?T (ext_on T ext) R s w' U'"
            "\<forall>q<USER_PAGES. tr M (as_table (w_spaces w' s)) q =
              (if q = p then Some (physaddr (pframe x), pf_write F gf (pf_has_write F gf \<and> True)) else tr M (as_table (w_spaces w2 s)) q)"
            "changes_in (tabs (as_table (w_spaces w2 s))) (phys_mem (w_alloc w2)) (phys_mem (w_alloc w'))"
          have tr': "tr M (as_table (w_spaces w' s)) q = tr M ?t q" if "q < USER_PAGES" "q \<noteq> p" for q
            using fin(4) *(2,6) t1 that by simp
          have "pages_of M (as_table (w_spaces w' s)) x = {p}"
            using fin(4) tr' by (intro pages_of_moved [OF _ p x(7), of _ "pf_write F gf (pf_has_write F gf)"]) simp
          then have "mapcount M (as_table (w_spaces w' s)) x + ext_on T ext x = 1"
            using x(6) by (simp add: mapcount_def ext_on_def)
          then have "fault_mapped M tabs F D T ext R s p gf access w w' x"
            unfolding fault_mapped_def Let_def using x(3) xT gr fin(3,4) tr' p
            by (auto intro!: exI [of _ True] exI [of _ ?T] exI [of _ "ext_on T ext"] exI [of _ U'])
          moreover have "only_table s w w'" by (rule only_table_trans [OF ow fin(2)])
          moreover have "changes_in (loose D U (tabs ?t)) ?mem (phys_mem (w_alloc w'))"
            by (rule changes_in_mono [OF changes_in_trans [OF c2 fin(5)]]) (use lo *(2) in simp)
          then have "same_content M s w w'"
            by (rule content_kept [OF b, of _ p])
              (use tr' fin(4) p x0 changes_in_bytes [OF fin(5) x(3)] xT *(2) in \<open>simp_all add: page_byte_frame page_byte_def [of M s w] y\<close>)
          ultimately show ?thesis using f x(1) *(1) fin(1) True
            by (intro runsI [of _ _ w' "Inr (pframe x)"]) (auto simp: bindM_def fault_allocated_def map_zeroed_def)
        qed
      qed
    qed
  qed
qed

section \<open>The whole fault\<close>

fun owned :: "provider \<Rightarrow> bool" where
  "owned (Allocated _ _) \<longleftrightarrow> True"
| "owned (AllocatedShared _) \<longleftrightarrow> True"
| "owned _ \<longleftrightarrow> False"

definition fault_frame :: "('m, 'f) mapper_ops \<Rightarrow> space_id \<Rightarrow> page \<Rightarrow> ('m, 'f) world \<Rightarrow> (frame \<times> page_ref option) option exec" where
  "fault_frame M s p w = (case tr M (as_table (w_spaces w s)) p of
     None \<Rightarrow> Inr None
   | Some (ph, _) \<Rightarrow> bindE (Frame_containing ph) (\<lambda>f. bindE (get_page_info (sections (w_alloc w)) f) (\<lambda>r. Inr (Some (f, r)))))"

lemma correct_inner_owned:
  fixes M :: "('m, 'f) mapper_ops"
  assumes u: "UserGrants_contains (as_grants (w_spaces w s)) p = Some (b, gi)" "owned (gi_provider gi)" "access_allowed F (gi_flags gi) access"
    and p: "p < USER_PAGES"
    and po: "fault_frame M s p (w\<lparr>w_flushers := (w_flushers w)(s := Flusher_with_cpu_set (as_used_by (w_spaces w s)))\<rparr>) = Inr po"
  shows "correct_inner M F E s p access lvl w = release_on_err s (finallyM
      (bindM (fault_allocated M s p access (gi_flags gi) po) (\<lambda>(frame, aw). fault_finish M F s p (gi_flags gi) frame aw)) (drop_flusher s))
      (w\<lparr>w_flushers := (w_flushers w)(s := Flusher_with_cpu_set (as_used_by (w_spaces w s)))\<rparr>)"
proof -
  have prov: "(case gi_provider gi of Allocated x y \<Rightarrow> m | AllocatedShared x \<Rightarrow> m | PhysBorrowed x \<Rightarrow> c1 x | External x y z \<Rightarrow> c2 x y z
      | FmapBorrowed x y \<Rightarrow> c3 x y) = m" for m :: "('m, 'f, frame \<times> bool) fprog" and c1 c2 c3
    using u(2) by (cases "gi_provider gi") auto
  let ?w = "w\<lparr>w_flushers := (w_flushers w)(s := Flusher_with_cpu_set (as_used_by (w_spaces w s)))\<rparr>"
  let ?t = "mo_translate M (as_table (w_spaces w s)) (p * 4096)"
  have pg: "(case ?t of
                None \<Rightarrow> retM None
              | Some (phys, _) \<Rightarrow> bindM (containingM phys) (\<lambda>frame. bindM (page_infoM frame) (\<lambda>ro. retM (Some (frame, ro))))) ?w
      = (Inr (?w, Inr po) :: (('m, 'f) world \<times> (pf_error + _)) exec)"
    using po by (auto simp: fault_frame_def tr_def containingM_def page_infoM_def allocM_def bindM_def bindE_def
        split: option.splits sum.splits)
  show ?thesis
    using u(1,3) p pg
    by (subst correct_inner.simps)
      (simp add: prov release_on_err_def finallyM_def new_flusherM_def grantsM_def translateM_def Let_def user_page_addr bindM_def)
qed

lemma drop_flusher_mem:
  assumes "books M tabs D T ext R s w U" "drop_flusher s w = Inr w'"
  shows "phys_mem (w_alloc w') = phys_mem (w_alloc w)" "fl_pagequeue (w_flushers w s) = [] \<Longrightarrow> w_alloc w' = w_alloc w"
proof -
  note B = booksD [OF assms(1)]
  let ?es = "free_entries (fl_pagequeue (w_flushers w s))"
  obtain d evs where e: "\<forall>a. Flusher_flush (w_cpu w) (w_flushers w s) a = bindE (free_all ?es a)
      (\<lambda>a. Inr ((w_flushers w s)\<lparr>fl_pagequeue := [], fl_dirty := d\<rparr>, a, evs))"
    using flush_ok [of "w_flushers w s" "w_cpu w"] B(2) by (auto simp: flusher_ok_def)
  obtain a' U' where a: "free_all ?es (w_alloc w) = Inr a'" "others_same T (w_alloc w) U R a' U'"
    using free_all_refs [OF B(4,3)] by blast
  have w': "w_alloc w' = a'" using assms(2) e a(1) by (auto simp: drop_flusher_def flushM_def)
  show "phys_mem (w_alloc w') = phys_mem (w_alloc w)" using a(2) w' by (simp add: others_same_def)
  show "w_alloc w' = w_alloc w" if "fl_pagequeue (w_flushers w s) = []"
    using that a(1) w' by simp
qed

text \<open>What a fault may change: the page table of the address space and the allocator.\<close>

definition fault_result ::
    "('m, 'f) mapper_ops \<Rightarrow> ('m \<Rightarrow> nat set) \<Rightarrow> 'f flag_ops \<Rightarrow> nat set \<Rightarrow> nat set \<Rightarrow> (nat \<Rightarrow> nat) \<Rightarrow> block set \<Rightarrow> space_id \<Rightarrow> page \<Rightarrow>
      'f \<Rightarrow> access_mode \<Rightarrow> ('m, 'f) world \<Rightarrow> ('m, 'f) world \<Rightarrow> pf_error + frame \<Rightarrow> bool" where
  "fault_result M tabs F D T ext R s p gf access w w' r \<longleftrightarrow>
     (let t = as_table (w_spaces w s); t' = as_table (w_spaces w' s) in
      same_content M s w w' \<and>
      (\<exists>T' ext' U' leak. books M tabs D T' (\<lambda>n. ext' n + leak n) R s w' U' \<and> grown T ext T' ext' \<and>
        (r = Inl PfOom \<and> (\<forall>q<USER_PAGES. tr M t' q = tr M t q) \<and>
           (leak = (\<lambda>_. 0) \<or> tr M t p = None \<and> (\<exists>x. leak = (\<lambda>n. if n = x then 1 else 0))) \<or>
         leak = (\<lambda>_. 0) \<and> (\<exists>x. r = Inr (pframe x) \<and>
           (access = Write \<longrightarrow> writable (w_alloc w') x) \<and>
           (\<forall>q<USER_PAGES. tr M t' q =
             (if q = p then Some (physaddr (pframe x), pf_write F gf (pf_has_write F gf \<and> writable (w_alloc w') x)) else tr M t q))))))"

lemma one_ref_writable: "ref_of a n = Some (1, k) \<Longrightarrow> writable a n"
  by (auto simp: ref_of_def writable_def unat_eq_zero split: option.splits if_splits elim!: rc_abs_rawE)

lemma page_byte_cong:
  assumes "phys_mem (w_alloc w2) = phys_mem (w_alloc w1)" "as_table (w_spaces w2 s) = as_table (w_spaces w1 s)"
  shows "page_byte M s w2 = page_byte M s w1"
  by (intro ext) (simp add: page_byte_def assms cong: option.case_cong)

lemma same_content_drop:
  assumes "same_content M s w w1" "phys_mem (w_alloc w2) = phys_mem (w_alloc w1)" "as_table (w_spaces w2 s) = as_table (w_spaces w1 s)"
  shows "same_content M s w w2"
  using assms(1) by (simp add: same_content_def page_byte_cong [OF assms(2,3)])

lemma fault_drop:
  assumes b: "books M tabs D T ext R s w U" and r: "only_table s w w1" "same_content M s w w1"
    "r = Inl PfOom \<and> fault_oom M tabs D T ext R s p w w1 \<or> (\<exists>x. r = Inr (pframe x) \<and> fault_mapped M tabs F D T ext R s p gf access w w1 x)"
    and p: "p < USER_PAGES"
  obtains w2 where "drop_flusher s w1 = Inr w2" "only_table s w w2" "fault_result M tabs F D T ext R s p gf access w w2 r"
    "fl_pagequeue (w_flushers w2 s) = []"
proof -
  let ?t = "as_table (w_spaces w s)" and ?t1 = "as_table (w_spaces w1 s)"
  have "grown T ext T ext" by (simp add: grown_def ext_on_def)
  then have "\<exists>T' ext' U1 leak. books M tabs D T' (\<lambda>n. ext' n + leak n) R s w1 U1 \<and> grown T ext T' ext' \<and>
    (r = Inl PfOom \<and> (\<forall>q<USER_PAGES. tr M ?t1 q = tr M ?t q) \<and>
       (leak = (\<lambda>_. 0) \<or> tr M ?t p = None \<and> (\<exists>x. leak = (\<lambda>n. if n = x then 1 else 0))) \<or>
     leak = (\<lambda>_. 0) \<and> (\<exists>x aw. r = Inr (pframe x) \<and> (access = Write \<longrightarrow> aw) \<and>
       (\<forall>q<USER_PAGES. tr M ?t1 q = (if q = p then Some (physaddr (pframe x), pf_write F gf (pf_has_write F gf \<and> aw)) else tr M ?t q)) \<and>
       (aw \<and> x \<in> T' \<and> mapcount M ?t1 x + ext' x = 1 \<or> fl_pagequeue (w_flushers w1 s) = [] \<and> aw = writable (w_alloc w1) x)))"
    using r(3)
  proof (elim disjE conjE exE)
    assume *: "grown T ext T ext" "r = Inl PfOom" "fault_oom M tabs D T ext R s p w w1"
    show ?thesis
    proof (cases "w1 = w")
      case True
      then show ?thesis using * b by (intro exI [of _ T] exI [of _ ext] exI [of _ U] exI [of _ "\<lambda>_. 0"]) simp
    next
      case False
      then obtain x T' ext' U' where "books M tabs D T' (\<lambda>n. ext' n + (if n = x then 1 else 0)) R s w1 U'" "grown T ext T' ext'"
        "\<forall>q<USER_PAGES. tr M ?t1 q = tr M ?t q" "tr M ?t p = None" using *(3) unfolding fault_oom_def by blast
      then show ?thesis using *(2) by (intro exI [of _ T'] exI [of _ ext'] exI [of _ U'] exI [of _ "\<lambda>n. if n = x then 1 else 0"]) auto
    qed
  next
    fix x assume *: "r = Inr (pframe x)" "fault_mapped M tabs F D T ext R s p gf access w w1 x"
    obtain aw T' ext' U' where "books M tabs D T' ext' R s w1 U'" "grown T ext T' ext'" "access = Write \<longrightarrow> aw"
      "\<forall>q<USER_PAGES. tr M ?t1 q = (if q = p then Some (physaddr (pframe x), pf_write F gf (pf_has_write F gf \<and> aw)) else tr M ?t q)"
      "aw \<and> x \<in> T' \<and> mapcount M ?t1 x + ext' x = 1 \<or> fl_pagequeue (w_flushers w1 s) = [] \<and> aw = writable (w_alloc w1) x"
      using *(2) unfolding fault_mapped_def Let_def by blast
    then show ?thesis using *(1) by (intro exI [of _ T'] exI [of _ ext'] exI [of _ U'] exI [of _ "\<lambda>_. 0"]) auto
  qed
  then obtain T' ext' U1 leak where b1: "books M tabs D T' (\<lambda>n. ext' n + leak n) R s w1 U1" and g: "grown T ext T' ext'" and
    alt: "r = Inl PfOom \<and> (\<forall>q<USER_PAGES. tr M ?t1 q = tr M ?t q) \<and>
       (leak = (\<lambda>_. 0) \<or> tr M ?t p = None \<and> (\<exists>x. leak = (\<lambda>n. if n = x then 1 else 0))) \<or>
     leak = (\<lambda>_. 0) \<and> (\<exists>x aw. r = Inr (pframe x) \<and> (access = Write \<longrightarrow> aw) \<and>
       (\<forall>q<USER_PAGES. tr M ?t1 q = (if q = p then Some (physaddr (pframe x), pf_write F gf (pf_has_write F gf \<and> aw)) else tr M ?t q)) \<and>
       (aw \<and> x \<in> T' \<and> mapcount M ?t1 x + ext' x = 1 \<or> fl_pagequeue (w_flushers w1 s) = [] \<and> aw = writable (w_alloc w1) x))"
    by (elim exE conjE) (rule that)
  obtain w2 U2 where d: "drop_flusher s w1 = Inr w2" "books M tabs D T' (\<lambda>n. ext' n + leak n) R s w2 U2" "only_table s w1 w2"
    "fl_pagequeue (w_flushers w2 s) = []" "as_table (w_spaces w2 s) = ?t1"
    by (rule drop_flusher_books [OF b1])
  have sc: "same_content M s w w2"
    by (rule same_content_drop [OF r(2) drop_flusher_mem(1) [OF b1 d(1)] d(5)])
  have one: "writable (w_alloc w2) x" if "x \<in> T'" "mapcount M ?t1 x + ext' x = 1" "leak = (\<lambda>_. 0)" for x
    using refs_okD(6) [OF booksD(4) [OF d(2)] that(1)] that(2,3) d(4,5) by (auto intro: one_ref_writable)
  have aw: "aw = writable (w_alloc w2) x"
    if "aw \<and> x \<in> T' \<and> mapcount M ?t1 x + ext' x = 1 \<or> fl_pagequeue (w_flushers w1 s) = [] \<and> aw = writable (w_alloc w1) x" "leak = (\<lambda>_. 0)"
    for aw x using that one drop_flusher_mem(2) [OF b1 d(1)] by auto
  let ?oom = "r = Inl PfOom \<and> (\<forall>q<USER_PAGES. tr M ?t1 q = tr M ?t q) \<and>
    (leak = (\<lambda>_. 0) \<or> tr M ?t p = None \<and> (\<exists>x. leak = (\<lambda>n. if n = x then 1 else 0)))"
  let ?done = "leak = (\<lambda>_. 0) \<and> (\<exists>x. r = Inr (pframe x) \<and> (access = Write \<longrightarrow> writable (w_alloc w2) x) \<and>
    (\<forall>q<USER_PAGES. tr M ?t1 q =
      (if q = p then Some (physaddr (pframe x), pf_write F gf (pf_has_write F gf \<and> writable (w_alloc w2) x)) else tr M ?t q)))"
  have "?oom \<or> ?done"
  proof (rule disjE [OF alt])
    assume ?oom
    then show ?thesis by (rule disjI1)
  next
    assume "leak = (\<lambda>_. 0) \<and> (\<exists>x aw. r = Inr (pframe x) \<and> (access = Write \<longrightarrow> aw) \<and>
       (\<forall>q<USER_PAGES. tr M ?t1 q = (if q = p then Some (physaddr (pframe x), pf_write F gf (pf_has_write F gf \<and> aw)) else tr M ?t q)) \<and>
       (aw \<and> x \<in> T' \<and> mapcount M ?t1 x + ext' x = 1 \<or> fl_pagequeue (w_flushers w1 s) = [] \<and> aw = writable (w_alloc w1) x))"
    then obtain x aw' where *: "leak = (\<lambda>_. 0)" "r = Inr (pframe x)" "access = Write \<longrightarrow> aw'"
      "\<forall>q<USER_PAGES. tr M ?t1 q = (if q = p then Some (physaddr (pframe x), pf_write F gf (pf_has_write F gf \<and> aw')) else tr M ?t q)"
      "aw' \<and> x \<in> T' \<and> mapcount M ?t1 x + ext' x = 1 \<or> fl_pagequeue (w_flushers w1 s) = [] \<and> aw' = writable (w_alloc w1) x"
      by (elim exE conjE) (rule that)
    have "aw' = writable (w_alloc w2) x" by (rule aw [OF *(5,1)])
    then show ?thesis using *(1-4) by (intro disjI2 conjI exI [of _ x]) simp_all
  qed
  then have "fault_result M tabs F D T ext R s p gf access w w2 r"
    unfolding fault_result_def Let_def d(5)
    by (intro conjI exI [of _ T'] exI [of _ ext'] exI [of _ U2] exI [of _ leak] sc d(2) g)
  then show thesis using that d(1,4) only_table_trans [OF r(1) d(3)] by blast
qed

lemma correct_inner_denied:
  fixes M :: "('m, 'f) mapper_ops"
  assumes "UserGrants_contains (as_grants (w_spaces w s)) p = Some (b, gi)" "\<not> access_allowed F (gi_flags gi) access"
    and b: "books M tabs D T ext R s (w\<lparr>w_flushers := (w_flushers w)(s := Flusher_with_cpu_set (as_used_by (w_spaces w s)))\<rparr>) U" (is "books M tabs D T ext R s ?w U")
  obtains w' U' where "correct_inner M F E s p access lvl w = Inr (release_lock s w', Inl PfSegv)" "only_table s ?w w'"
    "books M tabs D T ext R s w' U'" "as_table (w_spaces w' s) = as_table (w_spaces w s)"
    "fl_pagequeue (w_flushers w' s) = []" "phys_mem (w_alloc w') = phys_mem (w_alloc w)"
proof (rule drop_flusher_books [OF b])
  fix w' U'
  assume *: "drop_flusher s ?w = Inr w'" "books M tabs D T ext R s w' U'" "only_table s ?w w'"
      "fl_pagequeue (w_flushers w' s) = []" "as_table (w_spaces w' s) = as_table (w_spaces ?w s)"
  have "correct_inner M F E s p access lvl w = Inr (release_lock s w', Inl PfSegv)"
    using assms(1,2) *(1)
    by (subst correct_inner.simps) (simp add: release_on_err_def finallyM_def new_flusherM_def grantsM_def Let_def bindM_def)
  then show thesis using that * drop_flusher_mem(1) [OF b *(1)] by simp
qed

lemma quiescent_start:
  assumes "quiescent M tabs D T ext R s w U"
  shows "books M tabs D T ext R s (w\<lparr>w_locked := lk, w_flushers := (w_flushers w)(s := Flusher_with_cpu_set (as_used_by (w_spaces w s)))\<rparr>) U"
  using assms by (simp add: quiescent_def books_def Let_def flusher_ok_def Flusher_with_cpu_set_def)

lemma quiescent_end:
  assumes "quiescent M tabs D T0 ext0 R s w U0" "books M tabs D T ext R s w1 U" "fl_pagequeue (w_flushers w1 s) = []"
    "only_table s (w\<lparr>w_locked := (w_locked w)(s := True), w_flushers := fs\<rparr>) w1"
    "\<And>q. q < USER_PAGES \<Longrightarrow> tr M (as_table (w_spaces w1 s)) q \<noteq> None \<Longrightarrow> q \<in> used_pages (as_grants (w_spaces w s))"
  shows "quiescent M tabs D T ext R s (release_lock s w1) U"
    "as_grants (w_spaces (release_lock s w1) s) = as_grants (w_spaces w s)"
    "\<forall>s'. s' \<noteq> s \<longrightarrow> w_spaces (release_lock s w1) s' = w_spaces w s'"
  using booksD [OF assms(2)] assms(1,3,5) only_tableD [OF assms(4)]
  by (simp_all add: quiescent_def Let_def release_lock_def)

lemma contains_used: "grants_inv u \<Longrightarrow> UserGrants_contains u p = Some (b, i) \<Longrightarrow> p \<in> used_pages u"
  unfolding used_pages_def gmap.cover_def gmap.ivl_def by (auto simp: contains_iff grants_inv_def)

lemma page_fault:
  fixes M :: "('m, 'f) mapper_ops"
  assumes laws: "mapper_laws M" "mapper_takes M tabs" and q: "quiescent M tabs D T ext R s w U"
    and cur: "w_current w = Some s" and p: "p < USER_PAGES"
    and u: "UserGrants_contains (as_grants (w_spaces w s)) p = Some (b, gi)" "owned (gi_provider gi)"
    and ph: "\<forall>n fl. pfn_ok n \<longrightarrow> tr M (as_table (w_spaces w s)) p = Some (physaddr (pframe n), fl) \<longrightarrow> n \<in> D"
    and z: "w_zeroed_frame w = Some (pframe z, zr)" "pfn_ok z" "\<forall>i<4096. frame_bytes (phys_mem (w_alloc w)) z i = 0"
    and al: "access_allowed F (gi_flags gi) access"
  shows "\<exists>w1 r. try_correcting_page_tables M F E p access w = Inr (release_lock s w1, case r of Inl e \<Rightarrow> Inl e | Inr _ \<Rightarrow> Inr ()) \<and>
    fault_result M tabs F D T ext R s p (gi_flags gi) access w w1 r \<and> fl_pagequeue (w_flushers w1 s) = [] \<and>
    only_table s (w\<lparr>w_locked := (w_locked w)(s := True), w_flushers := (w_flushers w)(s := Flusher_with_cpu_set (as_used_by (w_spaces w s)))\<rparr>) w1"
proof -
  let ?v = "w\<lparr>w_locked := (w_locked w)(s := True)\<rparr>"
  let ?w = "w\<lparr>w_locked := (w_locked w)(s := True), w_flushers := (w_flushers w)(s := Flusher_with_cpu_set (as_used_by (w_spaces w s)))\<rparr>"
  let ?t = "as_table (w_spaces w s)"
  have nl: "\<not> w_locked w s" using q by (simp add: quiescent_def Let_def)
  note b = quiescent_start [OF q, of "(w_locked w)(s := True)"]
  note B = booksD [OF b]
  have "\<exists>po. fault_frame M s p ?w = Inr po \<and> runs (bindM (fault_allocated M s p access (gi_flags gi) po)
      (\<lambda>(frame, aw). fault_finish M F s p (gi_flags gi) frame aw)) ?w (\<lambda>w1 r. only_table s ?w w1 \<and> same_content M s ?w w1 \<and>
        (r = Inl PfOom \<and> fault_oom M tabs D T ext R s p ?w w1 \<or>
         (\<exists>x. r = Inr (pframe x) \<and> fault_mapped M tabs F D T ext R s p (gi_flags gi) access ?w w1 x)))"
  proof (cases "tr M ?t p")
    case None
    then show ?thesis using fault_absent [OF laws b p, of access "gi_flags gi" F] by (intro exI [of _ None]) (simp add: fault_frame_def)
  next
    case (Some e)
    obtain ph' fl where e: "e = (ph', fl)" by (cases e)
    then obtain y where y: "pfn_ok y" "ph' = physaddr (pframe y)" using B(1) Some p by (auto simp: table_known_def)
    have yD: "y \<in> D" using ph y Some e by blast
    note wf = alloc_ok_wf [OF refs_okD(1) [OF B(4)]]
    have "pinfo (sections (w_alloc ?w)) y \<noteq> None" using refs_okD(2) [OF B(4)] yD by blast
    then obtain r where r: "get_page_info (sections (w_alloc ?w)) (pframe y) = Inr (Some r)" "owns (sections (w_alloc ?w)) y r"
      using get_page_info_cases [OF wf y(1)] by metis
    have "runs (bindM (fault_allocated M s p access (gi_flags gi) (Some (pframe y, Some r))) (\<lambda>(frame, aw). fault_finish M F s p (gi_flags gi) frame aw)) ?w
      (\<lambda>w' r. w' = ?w \<and> r = Inl PfOom \<or> (\<exists>x. r = Inr (pframe x) \<and> only_table s ?w w' \<and>
        fault_mapped M tabs F D T ext R s p (gi_flags gi) access ?w w' x \<and> same_content M s ?w w'))"
      by (rule fault_present [OF laws b p _ y(1) yD _ r(2)]) (use Some e y(2) z in \<open>simp_all add: Flusher_with_cpu_set_def\<close>)
    then show ?thesis using Some e y r(1)
      by (intro exI [of _ "Some (pframe y, Some r)"])
        (auto simp: fault_frame_def containing_frame same_content_def fault_oom_def elim!: runs_mono)
  qed
  then obtain po where po: "fault_frame M s p ?w = Inr po" and body: "runs (bindM (fault_allocated M s p access (gi_flags gi) po)
      (\<lambda>(frame, aw). fault_finish M F s p (gi_flags gi) frame aw)) ?w (\<lambda>w1 r. only_table s ?w w1 \<and> same_content M s ?w w1 \<and>
        (r = Inl PfOom \<and> fault_oom M tabs D T ext R s p ?w w1 \<or>
         (\<exists>x. r = Inr (pframe x) \<and> fault_mapped M tabs F D T ext R s p (gi_flags gi) access ?w w1 x)))"
    by blast
  obtain w1 r where w1: "bindM (fault_allocated M s p access (gi_flags gi) po)
      (\<lambda>(frame, aw). fault_finish M F s p (gi_flags gi) frame aw) ?w = Inr (w1, r)" "only_table s ?w w1" "same_content M s ?w w1"
    "r = Inl PfOom \<and> fault_oom M tabs D T ext R s p ?w w1 \<or>
         (\<exists>x. r = Inr (pframe x) \<and> fault_mapped M tabs F D T ext R s p (gi_flags gi) access ?w w1 x)"
    using body by (elim runsE conjE) (rule that)
  obtain w2 where w2: "drop_flusher s w1 = Inr w2" "only_table s ?w w2" "fault_result M tabs F D T ext R s p (gi_flags gi) access ?w w2 r"
    "fl_pagequeue (w_flushers w2 s) = []"
    by (rule fault_drop [OF b w1(2-4) p])
  have "correct_inner M F E s p access 0 ?v = Inr (case r of Inl _ \<Rightarrow> release_lock s w2 | Inr _ \<Rightarrow> w2, r)"
    using correct_inner_owned [of ?v s p b gi F access M po E 0] u al p po w1(1) w2(1)
    by (simp add: release_on_err_def finallyM_def)
  then have "try_correcting_page_tables M F E p access w = Inr (release_lock s w2, case r of Inl e \<Rightarrow> Inl e | Inr _ \<Rightarrow> Inr ())"
    using cur nl by (auto simp: try_correcting_page_tables_def AddrSpace_current_def tryM_def acquireM_def bindM_def
        releaseM_def split: sum.splits)
  moreover have "fault_result M tabs F D T ext R s p (gi_flags gi) access w w2 r"
    using w2(3) page_byte_cong [of ?w w s M] by (simp add: fault_result_def Let_def same_content_def)
  ultimately show ?thesis using w2(2,4) by blast
qed

section \<open>A concrete fault\<close>

definition fault_example :: "(nat \<Rightarrow> (usize \<times> unit) option, unit) world" where
  "fault_example = example_world\<lparr>
     w_alloc := (w_alloc example_world)\<lparr>phys_mem := (\<lambda>x. if unat x div 4096 = 1026 then 0 else 1)\<rparr>,
     w_zeroed_frame := Some (pframe 1026, (0, 0))\<rparr>"

definition unit_flags :: "unit flag_ops" where
  "unit_flags = \<lparr>pf_new = (), pf_user = (\<lambda>_ _. ()), pf_execute = (\<lambda>_ _. ()), pf_write = (\<lambda>_ _. ()),
     pf_has_execute = (\<lambda>_. False), pf_has_write = (\<lambda>_. True)\<rparr>"

lemma flat_mapper_takes: "mapper_takes flat_mapper (\<lambda>_. {})"
  by (auto simp: mapper_takes_def flat_mapper_def same_info_def)

lemma fault_example_quiescent: "quiescent flat_mapper (\<lambda>_. {}) {1024, 1025} {1024} (\<lambda>_. 0) {} 0 fault_example {(1024, 0)}"
  using example_quiescent unfolding quiescent_def Let_def fault_example_def by (simp add: refs_ok_mem)

lemma fault_example_zero: "i < 4096 \<Longrightarrow> frame_bytes (phys_mem (w_alloc fault_example)) 1026 i = 0"
  using frame_addr_div [of 1026 i] by (simp add: frame_bytes_def fault_example_def pfn_ok_def del: of_nat_add)

lemma fault_example_contains:
  "UserGrants_contains (as_grants (w_spaces fault_example 0)) 16 = Some (16, g_info example_grant)"
  using example_grants_ok(1,3)
  by (simp add: fault_example_def example_world_def flat_world_def contains_iff grants_inv_def example_grant_def)

section \<open>Results\<close>

text \<open>
  C5: A page fault on owned memory never panics, and no program can see it: whatever a page contained
  before, it contains afterwards, a page that had not been touched being all zero.  The fault is
  refused exactly when the grant does not allow the access.  Otherwise the page ends up mapped with the
  flags of the grant, writable only if the frame behind it is not shared copy-on-write, and so always
  after a write; or memory has run out and no mapping has changed.  All other pages keep their mappings,
  grants and other address spaces are untouched, the lock is free again and the books balance, except
  that running out of memory for a page table leaks the new frame.
\<close>

theorem page_fault_correct:
  assumes "mapper_laws M" "mapper_takes M tabs" "quiescent M tabs D T ext R s w U" "w_current w = Some s" "p < USER_PAGES"
    "UserGrants_contains (as_grants (w_spaces w s)) p = Some (b, gi)" "owned (gi_provider gi)"
    "\<forall>n fl. pfn_ok n \<longrightarrow> tr M (as_table (w_spaces w s)) p = Some (physaddr (pframe n), fl) \<longrightarrow> n \<in> D"
    "w_zeroed_frame w = Some (pframe z, zr)" "pfn_ok z" "\<forall>i<4096. frame_bytes (phys_mem (w_alloc w)) z i = 0"
  shows "\<exists>w' r T' ext' leak U'. try_correcting_page_tables M F E p access w = Inr (w', r) \<and>
    quiescent M tabs D T' (\<lambda>n. ext' n + leak n) R s w' U' \<and> grown T ext T' ext' \<and> same_content M s w w' \<and>
    as_grants (w_spaces w' s) = as_grants (w_spaces w s) \<and> (\<forall>s'. s' \<noteq> s \<longrightarrow> w_spaces w' s' = w_spaces w s') \<and>
    (let t = as_table (w_spaces w s); t' = as_table (w_spaces w' s); fl = gi_flags gi in
     if \<not> access_allowed F fl access then r = Inl PfSegv \<and> leak = (\<lambda>_. 0) \<and> t' = t
     else r = Inl PfOom \<and> (\<forall>q<USER_PAGES. tr M t' q = tr M t q) \<and>
            (leak = (\<lambda>_. 0) \<or> tr M t p = None \<and> (\<exists>x. leak = (\<lambda>n. if n = x then 1 else 0))) \<or>
          r = Inr () \<and> leak = (\<lambda>_. 0) \<and> (\<exists>x. (access = Write \<longrightarrow> writable (w_alloc w') x) \<and>
            (\<forall>q<USER_PAGES. tr M t' q =
              (if q = p then Some (physaddr (pframe x), pf_write F fl (pf_has_write F fl \<and> writable (w_alloc w') x)) else tr M t q))))"
proof (cases "access_allowed F (gi_flags gi) access")
  case False
  let ?v = "w\<lparr>w_locked := (w_locked w)(s := True)\<rparr>"
  have nl: "\<not> w_locked w s" using assms(3) by (simp add: quiescent_def Let_def)
  have b: "books M tabs D T ext R s (?v\<lparr>w_flushers := (w_flushers ?v)(s := Flusher_with_cpu_set (as_used_by (w_spaces ?v s)))\<rparr>) U"
    using quiescent_start [OF assms(3)] by simp
  obtain w1 U1 where w1: "correct_inner M F E s p access 0 ?v = Inr (release_lock s w1, Inl PfSegv)"
    "only_table s (?v\<lparr>w_flushers := (w_flushers ?v)(s := Flusher_with_cpu_set (as_used_by (w_spaces ?v s)))\<rparr>) w1"
    "books M tabs D T ext R s w1 U1" "as_table (w_spaces w1 s) = as_table (w_spaces ?v s)"
    "fl_pagequeue (w_flushers w1 s) = []" "phys_mem (w_alloc w1) = phys_mem (w_alloc ?v)"
    by (rule correct_inner_denied [of ?v s p b gi F access M tabs D T ext R U, OF _ False b]) (use assms(6) in simp_all)
  have run: "try_correcting_page_tables M F E p access w = Inr (release_lock s w1, Inl PfSegv)"
    using assms(4) nl w1(1)
    by (simp add: try_correcting_page_tables_def AddrSpace_current_def tryM_def acquireM_def bindM_def)
  have used_ok: "tr M (as_table (w_spaces w1 s)) q \<noteq> None \<Longrightarrow> q \<in> used_pages (as_grants (w_spaces w s))" if "q < USER_PAGES" for q
    using assms(3) w1(4) that by (simp add: quiescent_def Let_def)
  note fin = quiescent_end [OF assms(3) w1(3,5) _ used_ok]
  have "same_content M s w (release_lock s w1)"
    using page_byte_cong [of "release_lock s w1" w s M] w1(4,6) by (simp add: same_content_def release_lock_def)
  then show ?thesis
    unfolding run Let_def using False fin w1(2,4)
    by (intro exI [of _ "release_lock s w1"] exI [of _ "Inl PfSegv"] exI [of _ T] exI [of _ ext] exI [of _ "\<lambda>_. 0"] exI [of _ U1])
      (simp add: grown_def ext_on_def release_lock_def)
next
  case True
  obtain w1 r where w1: "try_correcting_page_tables M F E p access w = Inr (release_lock s w1, case r of Inl e \<Rightarrow> Inl e | Inr _ \<Rightarrow> Inr ())"
    "fault_result M tabs F D T ext R s p (gi_flags gi) access w w1 r" "fl_pagequeue (w_flushers w1 s) = []"
    "only_table s (w\<lparr>w_locked := (w_locked w)(s := True), w_flushers := (w_flushers w)(s := Flusher_with_cpu_set (as_used_by (w_spaces w s)))\<rparr>) w1"
    using page_fault [OF assms True, of E] by blast
  obtain T' ext' U' leak where fr: "same_content M s w w1" "books M tabs D T' (\<lambda>n. ext' n + leak n) R s w1 U'" "grown T ext T' ext'"
    "r = Inl PfOom \<and> (\<forall>q<USER_PAGES. tr M (as_table (w_spaces w1 s)) q = tr M (as_table (w_spaces w s)) q) \<and>
       (leak = (\<lambda>_. 0) \<or> tr M (as_table (w_spaces w s)) p = None \<and> (\<exists>x. leak = (\<lambda>n. if n = x then 1 else 0))) \<or>
     leak = (\<lambda>_. 0) \<and> (\<exists>x. r = Inr (pframe x) \<and> (access = Write \<longrightarrow> writable (w_alloc w1) x) \<and>
       (\<forall>q<USER_PAGES. tr M (as_table (w_spaces w1 s)) q =
         (if q = p then Some (physaddr (pframe x), pf_write F (gi_flags gi) (pf_has_write F (gi_flags gi) \<and> writable (w_alloc w1) x))
          else tr M (as_table (w_spaces w s)) q)))"
    using w1(2) unfolding fault_result_def Let_def by (elim conjE exE) (rule that)
  have pu: "p \<in> used_pages (as_grants (w_spaces w s))"
    using contains_used [OF _ assms(6)] assms(3) by (simp add: quiescent_def Let_def)
  have used_ok: "q \<in> used_pages (as_grants (w_spaces w s))"
    if "q < USER_PAGES" "tr M (as_table (w_spaces w1 s)) q \<noteq> None" for q
    using that fr(4) assms(3) pu by (auto simp: quiescent_def Let_def split: if_splits)
  note fin = quiescent_end [OF assms(3) fr(2) w1(3,4) used_ok]
  have "same_content M s w (release_lock s w1)"
    by (rule same_content_drop [OF fr(1)]) (simp_all add: release_lock_def)
  then show ?thesis
    unfolding w1(1) Let_def using True fin fr(3,4)
    by (intro exI [of _ "release_lock s w1"] exI [of _ "case r of Inl e \<Rightarrow> Inl e | Inr _ \<Rightarrow> Inr ()"] exI [of _ T'] exI [of _ ext']
          exI [of _ leak] exI [of _ U'] conjI)
      (auto simp: release_lock_def)
qed

theorem page_fault_witness:
  "\<forall>E. \<exists>w' r. try_correcting_page_tables flat_mapper unit_flags E 16 Write fault_example = Inr (w', r) \<and>
    same_content flat_mapper 0 fault_example w' \<and>
    (r = Inl PfOom \<or> r = Inr () \<and> (\<exists>x. writable (w_alloc w') x \<and> tr flat_mapper (as_table (w_spaces w' 0)) 16 = Some (physaddr (pframe x), ())))"
proof
  fix E :: "(nat \<Rightarrow> (usize \<times> unit) option, unit) fmap_env"
  have p: "(16::nat) < USER_PAGES" by (simp add: USER_PAGES_def USER_END_OFFSET_def PML4_SIZE_def)
  have own: "owned (gi_provider (g_info example_grant))" by (simp add: example_grant_def)
  have ph: "\<forall>n fl. pfn_ok n \<longrightarrow> tr flat_mapper (as_table (w_spaces fault_example 0)) 16 = Some (physaddr (pframe n), fl) \<longrightarrow> n \<in> {1024, 1025}"
    using physaddr_pframe_eq [of 1024] by (auto simp: fault_example_def example_world_def flat_world_def example_tr pfn_ok_def)
  have z: "w_zeroed_frame fault_example = Some (pframe 1026, (0, 0))" "w_current fault_example = Some 0" "pfn_ok 1026"
    by (simp_all add: fault_example_def example_world_def flat_world_def pfn_ok_def)
  have al: "access_allowed unit_flags (gi_flags (g_info example_grant)) Write" by (simp add: access_allowed_def unit_flags_def)
  show "\<exists>w' r. try_correcting_page_tables flat_mapper unit_flags E 16 Write fault_example = Inr (w', r) \<and>
    same_content flat_mapper 0 fault_example w' \<and>
    (r = Inl PfOom \<or> r = Inr () \<and> (\<exists>x. writable (w_alloc w') x \<and> tr flat_mapper (as_table (w_spaces w' 0)) 16 = Some (physaddr (pframe x), ())))"
    using page_fault_correct [OF flat_mapper_laws(1) flat_mapper_takes fault_example_quiescent z(2) p fault_example_contains own ph z(1,3),
        of unit_flags E Write] fault_example_zero al p
    by (fastforce simp: Let_def)
qed

end
