(* ===== verification/Context_Core.thy ===== *)
theory Context_Core
  imports Grant_Info Cpu_Set
begin

text \<open>
  Contexts, the threads of the kernel (\<open>src/src/context/context.rs\<close>): their status with the
  operations that block and unblock them, the table of open files, and the keys under which exits are
  announced to \<open>waitpid\<close>.  The file table is shown to implement a finite map that always hands out the
  lowest free number.
\<close>

section \<open>Status\<close>

datatype hard_blocked_reason = AwaitingMmap grant_file_ref | NotYetStarted | PtraceStop

datatype status = Runnable | Blocked | HardBlocked hard_blocked_reason | Dead

definition is_runnable :: "status \<Rightarrow> bool" where
  "is_runnable s = (case s of Runnable \<Rightarrow> True | _ \<Rightarrow> False)"

definition is_soft_blocked :: "status \<Rightarrow> bool" where
  "is_soft_blocked s = (case s of Blocked \<Rightarrow> True | _ \<Rightarrow> False)"

text \<open>
  A file descriptor refers to a shared file description.  Contexts refer to their process, their file
  table and their address space by reference.
\<close>

record file_descriptor =
  fd_description :: desc_id
  fd_cloexec :: bool

type_synonym file_table = "file_descriptor option list"

record kcontext =
  ctx_pid :: nat
  ctx_status :: status
  ctx_status_reason :: string
  ctx_running :: bool
  ctx_cpu_id :: "nat option"
  ctx_sched_affinity :: cpu_set
  ctx_inside_syscall :: bool
  ctx_wake :: "nat option"
  ctx_addr_space :: "nat option"
  ctx_files :: nat
  ctx_userspace :: bool
  ctx_being_sigkilled :: bool

definition Context_new :: "nat \<Rightarrow> nat \<Rightarrow> kcontext" where
  "Context_new pid files = \<lparr>ctx_pid = pid, ctx_status = HardBlocked NotYetStarted, ctx_status_reason = [],
     ctx_running = False, ctx_cpu_id = None, ctx_sched_affinity = CpuSet_all, ctx_inside_syscall = False,
     ctx_wake = None, ctx_addr_space = None, ctx_files = files, ctx_userspace = False, ctx_being_sigkilled = False\<rparr>"

definition ctx_block :: "string \<Rightarrow> kcontext \<Rightarrow> kcontext \<times> bool" where
  "ctx_block reason c =
     (if is_runnable (ctx_status c) then (c\<lparr>ctx_status := Blocked, ctx_status_reason := reason\<rparr>, True) else (c, False))"

definition ctx_hard_block :: "hard_blocked_reason \<Rightarrow> kcontext \<Rightarrow> kcontext \<times> bool" where
  "ctx_hard_block reason c =
     (if is_runnable (ctx_status c) then (c\<lparr>ctx_status := HardBlocked reason\<rparr>, True) else (c, False))"

definition unblock_no_ipi :: "kcontext \<Rightarrow> kcontext \<times> bool" where
  "unblock_no_ipi c =
     (if is_soft_blocked (ctx_status c) then (c\<lparr>ctx_status := Runnable, ctx_status_reason := []\<rparr>, True) else (c, False))"

text \<open>The second result says whether a wakeup interrupt is sent to the other processors.\<close>

definition ctx_unblock :: "nat \<Rightarrow> kcontext \<Rightarrow> kcontext \<times> bool \<times> bool" where
  "ctx_unblock this_cpu c =
     (case unblock_no_ipi c of
        (c', True) \<Rightarrow> (c', True, case ctx_cpu_id c' of Some cpu \<Rightarrow> cpu \<noteq> this_cpu | None \<Rightarrow> False)
      | (c', False) \<Rightarrow> (c', False, False))"

section \<open>The file table\<close>

definition CONTEXT_MAX_FILES :: nat where "CONTEXT_MAX_FILES = 65536"

definition get_file :: "nat \<Rightarrow> file_table \<Rightarrow> file_descriptor option" where
  "get_file i files = (if i < length files then files ! i else None)"

definition insert_file :: "nat \<Rightarrow> file_descriptor \<Rightarrow> file_table \<Rightarrow> file_table \<times> nat option" where
  "insert_file i file files =
     (if CONTEXT_MAX_FILES \<le> i then (files, None)
      else
        let files = (if length files \<le> i then files @ replicate (i + 1 - length files) None else files) in
        if files ! i = None then (files[i := Some file], Some i) else (files, None))"

text \<open>The loop over the slots with their indices.\<close>

fun first_free :: "nat \<Rightarrow> nat \<Rightarrow> file_table \<Rightarrow> nat option" where
  "first_free lo i [] = None"
| "first_free lo i (f # fs) = (if f = None \<and> lo \<le> i then Some i else first_free lo (Suc i) fs)"

definition add_file_min :: "file_descriptor \<Rightarrow> nat \<Rightarrow> file_table \<Rightarrow> file_table \<times> nat option" where
  "add_file_min file lo files =
     (case first_free lo 0 files of
        Some i \<Rightarrow> (files[i := Some file], Some i)
      | None \<Rightarrow>
          let len = length files in
          if len < CONTEXT_MAX_FILES then
            if lo \<le> len then (files @ [Some file], Some len) else insert_file lo file files
          else (files, None))"

definition add_file :: "file_descriptor \<Rightarrow> file_table \<Rightarrow> file_table \<times> nat option" where
  "add_file file files = add_file_min file 0 files"

definition remove_file :: "nat \<Rightarrow> file_table \<Rightarrow> file_table \<times> file_descriptor option" where
  "remove_file i files = (if i < length files then (files[i := None], files ! i) else (files, None))"

section \<open>Keys of \<open>waitpid\<close>\<close>

record waitpid_key =
  wk_pid :: "nat option"
  wk_pgid :: "nat option"

datatype ordering = Less | Equal | Greater

definition nat_cmp :: "nat \<Rightarrow> nat \<Rightarrow> ordering" where
  "nat_cmp a b = (if a < b then Less else if a = b then Equal else Greater)"

definition WaitpidKey_cmp :: "waitpid_key \<Rightarrow> waitpid_key \<Rightarrow> ordering" where
  "WaitpidKey_cmp k l =
     (case (wk_pid k, wk_pid l) of
        (Some p, Some q) \<Rightarrow> nat_cmp p q
      | _ \<Rightarrow>
        (case (wk_pgid k, wk_pgid l) of
           (Some p, Some q) \<Rightarrow> nat_cmp p q
         | _ \<Rightarrow>
           if wk_pid k \<noteq> None then Greater
           else if wk_pid l \<noteq> None then Less
           else if wk_pgid k \<noteq> None then Greater
           else if wk_pgid l \<noteq> None then Less
           else Equal))"

section \<open>Status changes\<close>

lemma block_unblock:
  "ctx_status (fst (ctx_block r c)) = (if ctx_status c = Runnable then Blocked else ctx_status c)"
  "snd (ctx_block r c) \<longleftrightarrow> ctx_status c = Runnable"
  "ctx_status (fst (unblock_no_ipi c)) = (if ctx_status c = Blocked then Runnable else ctx_status c)"
  "snd (unblock_no_ipi c) \<longleftrightarrow> ctx_status c = Blocked"
  "fst (ctx_unblock cpu c) = fst (unblock_no_ipi c)"
  "fst (snd (ctx_unblock cpu c)) \<longleftrightarrow> ctx_status c = Blocked"
  by (auto simp: ctx_block_def unblock_no_ipi_def ctx_unblock_def is_runnable_def is_soft_blocked_def
      split: status.splits bool.splits)

section \<open>The table is a map\<close>

definition ftab :: "file_table \<Rightarrow> nat \<rightharpoonup> file_descriptor" where
  "ftab files i = get_file i files"

definition files_ok :: "file_table \<Rightarrow> bool" where
  "files_ok files \<longleftrightarrow> length files \<le> CONTEXT_MAX_FILES"

lemma first_free_None: "first_free m i fs = None \<longleftrightarrow> (\<forall>j<length fs. m \<le> i + j \<longrightarrow> fs ! j \<noteq> None)"
  by (induction m i fs rule: first_free.induct) (force simp: less_Suc_eq_0_disj nth_Cons split: nat.splits)+

lemma first_free_Some:
  "first_free m i fs = Some k \<Longrightarrow> i \<le> k \<and> m \<le> k \<and> k < i + length fs \<and> fs ! (k - i) = None \<and>
    (\<forall>j. i \<le> j \<and> j < k \<longrightarrow> m \<le> j \<longrightarrow> fs ! (j - i) \<noteq> None)"
proof (induction m i fs rule: first_free.induct)
  case (2 m i f fs)
  then show ?case
  proof (cases "f = None \<and> m \<le> i")
    case False
    then have IH: "Suc i \<le> k" "m \<le> k" "k < Suc i + length fs" "fs ! (k - Suc i) = None"
      "\<And>j. Suc i \<le> j \<Longrightarrow> j < k \<Longrightarrow> m \<le> j \<Longrightarrow> fs ! (j - Suc i) \<noteq> None" using 2 by auto
    have "(f # fs) ! (j - i) \<noteq> None" if "i \<le> j" "j < k" "m \<le> j" for j
      using IH(5) [of j] that False by (cases "j = i") (auto simp: nth_Cons' Suc_diff_Suc)
    moreover have "(f # fs) ! (k - i) = None" using IH(1,4) by (simp add: nth_Cons')
    ultimately show ?thesis using IH(1-3) by simp
  qed auto
qed simp

lemma ftab_simps:
  "i < length fs \<Longrightarrow> ftab (fs[i := x]) = (ftab fs)(i := x)"
  "ftab (fs @ replicate n None) = ftab fs"
  "ftab (fs @ [x]) = (ftab fs)(length fs := x)"
  by (auto simp: ftab_def get_file_def fun_eq_iff nth_append nth_list_update)

lemma insert_file_cases:
  assumes "files_ok fs"
  shows "case insert_file i f fs of
     (fs', Some k) \<Rightarrow> k = i \<and> i < CONTEXT_MAX_FILES \<and> ftab fs i = None \<and> ftab fs' = (ftab fs)(i \<mapsto> f) \<and> files_ok fs'
   | (fs', None) \<Rightarrow> (CONTEXT_MAX_FILES \<le> i \<or> ftab fs i \<noteq> None) \<and> ftab fs' = ftab fs \<and> files_ok fs'"
proof (cases "CONTEXT_MAX_FILES \<le> i")
  case True
  then show ?thesis using assms by (simp add: insert_file_def)
next
  case False
  let ?gs = "if length fs \<le> i then fs @ replicate (i + 1 - length fs) None else fs"
  have g: "ftab ?gs = ftab fs" "i < length ?gs" "files_ok ?gs"
    using False assms by (auto simp: ftab_simps files_ok_def)
  have n: "?gs ! i = ftab fs i" using g(2) unfolding g(1) [symmetric] by (simp add: ftab_def get_file_def)
  have "insert_file i f fs = (if ftab fs i = None then (?gs[i := Some f], Some i) else (?gs, None))"
    using False n by (simp add: insert_file_def Let_def)
  then show ?thesis using g False by (simp add: ftab_simps files_ok_def)
qed

lemma add_file_min_cases:
  assumes "files_ok fs"
  shows "case add_file_min f lo fs of
     (fs', Some i) \<Rightarrow> lo \<le> i \<and> i < CONTEXT_MAX_FILES \<and> ftab fs i = None \<and> (\<forall>j. lo \<le> j \<and> j < i \<longrightarrow> ftab fs j \<noteq> None) \<and>
       ftab fs' = (ftab fs)(i \<mapsto> f) \<and> files_ok fs'
   | (fs', None) \<Rightarrow> (\<forall>j. lo \<le> j \<and> j < CONTEXT_MAX_FILES \<longrightarrow> ftab fs j \<noteq> None) \<and> ftab fs' = ftab fs \<and> files_ok fs'"
proof (cases "first_free lo 0 fs")
  case (Some i)
  note F = first_free_Some [OF Some]
  have "ftab fs j \<noteq> None" if "lo \<le> j" "j < i" for j
    using F that by (simp add: ftab_def get_file_def)
  then show ?thesis using F Some assms
    by (simp add: add_file_min_def ftab_simps files_ok_def) (simp add: ftab_def get_file_def)
next
  case None
  then have full: "ftab fs j \<noteq> None" if "lo \<le> j" "j < length fs" for j
    using that by (simp add: first_free_None ftab_def get_file_def)
  have out: "ftab fs j = None" if "length fs \<le> j" for j using that by (simp add: ftab_def get_file_def)
  consider "length fs < CONTEXT_MAX_FILES" "lo \<le> length fs" | "length fs < CONTEXT_MAX_FILES" "length fs < lo"
    | "CONTEXT_MAX_FILES \<le> length fs" by linarith
  then show ?thesis
  proof cases
    case 1
    then show ?thesis using None full out by (simp add: add_file_min_def ftab_simps files_ok_def)
  next
    case 2
    then have e: "add_file_min f lo fs = insert_file lo f fs" using None by (simp add: add_file_min_def)
    show ?thesis using insert_file_cases [OF assms, of lo f] 2 out [of lo] unfolding e
      by (auto split: prod.splits option.splits)
  next
    case 3
    then show ?thesis using None full assms by (auto simp: add_file_min_def files_ok_def)
  qed
qed

lemma remove_file_map: "ftab (fst (remove_file i fs)) = (ftab fs)(i := None)" "snd (remove_file i fs) = ftab fs i"
  by (auto simp: remove_file_def ftab_def get_file_def fun_eq_iff)

section \<open>Results\<close>

text \<open>
  The file table implements a map from file numbers to files with at most \<open>CONTEXT_MAX_FILES\<close>
  entries: adding a file takes the lowest free number that is large enough and fails only if there is
  none, inserting takes exactly the given number if it is valid and free, removing returns and clears
  the entry, and no operation touches any other entry.
\<close>

theorem file_table_refines:
  assumes "files_ok fs"
  shows "(case add_file_min f lo fs of
       (fs', Some i) \<Rightarrow> lo \<le> i \<and> i < CONTEXT_MAX_FILES \<and> ftab fs i = None \<and> (\<forall>j. lo \<le> j \<and> j < i \<longrightarrow> ftab fs j \<noteq> None) \<and>
         ftab fs' = (ftab fs)(i \<mapsto> f) \<and> files_ok fs'
     | (fs', None) \<Rightarrow> (\<forall>j. lo \<le> j \<and> j < CONTEXT_MAX_FILES \<longrightarrow> ftab fs j \<noteq> None) \<and> ftab fs' = ftab fs \<and> files_ok fs') \<and>
    (case insert_file i f fs of
       (fs', Some k) \<Rightarrow> k = i \<and> i < CONTEXT_MAX_FILES \<and> ftab fs i = None \<and> ftab fs' = (ftab fs)(i \<mapsto> f) \<and> files_ok fs'
     | (fs', None) \<Rightarrow> (CONTEXT_MAX_FILES \<le> i \<or> ftab fs i \<noteq> None) \<and> ftab fs' = ftab fs \<and> files_ok fs') \<and>
    (case remove_file i fs of (fs', r) \<Rightarrow> r = ftab fs i \<and> ftab fs' = (ftab fs)(i := None) \<and> files_ok fs')"
  using add_file_min_cases [OF assms] insert_file_cases [OF assms] remove_file_map [of i fs] assms
  by (simp add: files_ok_def remove_file_def split: prod.splits if_splits)

theorem file_table_witness:
  "add_file_min \<lparr>fd_description = 7, fd_cloexec = False\<rparr> 1 [None, Some \<lparr>fd_description = 3, fd_cloexec = True\<rparr>] =
     ([None, Some \<lparr>fd_description = 3, fd_cloexec = True\<rparr>, Some \<lparr>fd_description = 7, fd_cloexec = False\<rparr>], Some 2) \<and>
   ftab [None, Some \<lparr>fd_description = 3, fd_cloexec = True\<rparr>, Some \<lparr>fd_description = 7, fd_cloexec = False\<rparr>] =
     (ftab [None, Some \<lparr>fd_description = 3, fd_cloexec = True\<rparr>])(2 \<mapsto> \<lparr>fd_description = 7, fd_cloexec = False\<rparr>)"
proof -
  have ok: "files_ok [None, Some \<lparr>fd_description = 3, fd_cloexec = True\<rparr>]" by (simp add: files_ok_def CONTEXT_MAX_FILES_def)
  have e: "add_file_min \<lparr>fd_description = 7, fd_cloexec = False\<rparr> 1 [None, Some \<lparr>fd_description = 3, fd_cloexec = True\<rparr>] =
     ([None, Some \<lparr>fd_description = 3, fd_cloexec = True\<rparr>, Some \<lparr>fd_description = 7, fd_cloexec = False\<rparr>], Some 2)"
    by (simp add: add_file_min_def CONTEXT_MAX_FILES_def numeral_2_eq_2)
  show ?thesis using file_table_refines [OF ok, where f = "\<lparr>fd_description = 7, fd_cloexec = False\<rparr>" and lo = 1] e by simp
qed

end
