(* ===== verification/User_Copy.thy ===== *)
theory User_Copy
  imports Page_Span Kernel_Monad
begin

text \<open>
  Access to user memory (\<open>src/src/syscall/usercopy.rs\<close>).  A \<open>UserSlice\<close> is a range of user addresses
  that a system call was given.  Its bytes are copied one by one by \<open>arch_copy_to_user\<close>
  (\<open>src/src/arch/x86_64/mod.rs\<close>), which stops at the first byte that cannot be accessed.
\<close>

section \<open>User memory\<close>

text \<open>
  Which bytes can be accessed, after the page fault handler has done what it can, and their values.
\<close>

record umem =
  um_byte :: "nat \<Rightarrow> 8 word"
  um_readable :: "nat \<Rightarrow> bool"
  um_writable :: "nat \<Rightarrow> bool"

fun arch_copy_to_user :: "nat \<Rightarrow> 8 word list \<Rightarrow> umem \<Rightarrow> umem \<times> bool" where
  "arch_copy_to_user dst [] m = (m, True)"
| "arch_copy_to_user dst (b # bs) m =
     (if um_writable m dst then arch_copy_to_user (Suc dst) bs (m\<lparr>um_byte := (um_byte m)(dst := b)\<rparr>) else (m, False))"

fun arch_copy_from_user :: "nat \<Rightarrow> nat \<Rightarrow> umem \<Rightarrow> 8 word list option" where
  "arch_copy_from_user src 0 m = Some []"
| "arch_copy_from_user src (Suc n) m =
     (if um_readable m src then map_option (\<lambda>bs. um_byte m src # bs) (arch_copy_from_user (Suc src) n m) else None)"

section \<open>Slices\<close>

record user_slice =
  us_base :: nat
  us_len :: nat

definition UserSlice_empty :: user_slice where "UserSlice_empty = \<lparr>us_base = 0, us_len = 0\<rparr>"

definition UserSlice_is_empty :: "user_slice \<Rightarrow> bool" where "UserSlice_is_empty s = (us_len s = 0)"

definition UserSlice_new :: "nat \<Rightarrow> nat \<Rightarrow> user_slice result" where
  "UserSlice_new base len =
     (if USER_END_OFFSET \<le> base \<or> USER_END_OFFSET \<le> u_sat_add base len then Inl EFAULT
      else Inr \<lparr>us_base = base, us_len = len\<rparr>)"

definition UserSlice_split_at :: "user_slice \<Rightarrow> nat \<Rightarrow> (user_slice \<times> user_slice) option" where
  "UserSlice_split_at s idx =
     (if us_len s < idx then None
      else Some (\<lparr>us_base = us_base s, us_len = idx\<rparr>, \<lparr>us_base = u_add (us_base s) idx, us_len = us_len s - idx\<rparr>))"

definition UserSlice_advance :: "user_slice \<Rightarrow> nat \<Rightarrow> user_slice option" where
  "UserSlice_advance s by' = map_option snd (UserSlice_split_at s by')"

definition UserSlice_limit :: "user_slice \<Rightarrow> nat \<Rightarrow> user_slice option" where
  "UserSlice_limit s to' = map_option fst (UserSlice_split_at s to')"

definition UserSlice_none_if_null :: "user_slice \<Rightarrow> user_slice option" where
  "UserSlice_none_if_null s = (if us_base s = 0 then None else Some s)"

text \<open>The chunks as a list; \<open>step_by\<close> panics for a step of zero.\<close>

definition in_variable_chunks :: "user_slice \<Rightarrow> nat \<Rightarrow> user_slice option list exec" where
  "in_variable_chunks s chunk_size =
     bindE (assertE (chunk_size \<noteq> 0) ''assertion failed: step != 0'') (\<lambda>_.
       Inr (map (\<lambda>i. UserSlice_advance s (i * chunk_size)) [0..<(us_len s + chunk_size - 1) div chunk_size]))"

definition in_exact_chunks :: "user_slice \<Rightarrow> nat \<Rightarrow> user_slice option list exec" where
  "in_exact_chunks s chunk_size =
     bindE (assertE (chunk_size \<noteq> 0) ''attempt to divide by zero'') (\<lambda>_.
       Inr (map (\<lambda>i. Option.bind (UserSlice_advance s (u_mul i chunk_size)) (\<lambda>c. UserSlice_limit c chunk_size))
         [0..<us_len s div chunk_size]))"

section \<open>Copying\<close>

text \<open>From user memory.\<close>

definition copy_to_slice :: "user_slice \<Rightarrow> nat \<Rightarrow> (umem, errno, 8 word list) prog" where
  "copy_to_slice s n m =
     (if us_len s \<noteq> n then Inr (m, Inl EINVAL)
      else case arch_copy_from_user (us_base s) n m of Some bs \<Rightarrow> Inr (m, Inr bs) | None \<Rightarrow> Inr (m, Inl EFAULT))"

definition read_exact :: "user_slice \<Rightarrow> nat \<Rightarrow> (umem, errno, 8 word list) prog" where
  "read_exact s n = bindM (ok_orM (UserSlice_limit s n) EINVAL) (\<lambda>t. copy_to_slice t n)"

definition copy_common_bytes_to_slice :: "user_slice \<Rightarrow> nat \<Rightarrow> (umem, errno, 8 word list) prog" where
  "copy_common_bytes_to_slice s n =
     bindM (expectM (UserSlice_limit s (min (us_len s) n)) ''min(len, x) is always <= len'') (\<lambda>t.
       copy_to_slice t (min (us_len s) n))"

text \<open>To user memory.\<close>

definition copy_from_slice :: "user_slice \<Rightarrow> 8 word list \<Rightarrow> (umem, errno, unit) prog" where
  "copy_from_slice s bs m =
     (if us_len s \<noteq> length bs then Inr (m, Inl EINVAL)
      else case arch_copy_to_user (us_base s) bs m of (m', ok) \<Rightarrow> Inr (m', if ok then Inr () else Inl EFAULT))"

definition copy_common_bytes_from_slice :: "user_slice \<Rightarrow> 8 word list \<Rightarrow> (umem, errno, nat) prog" where
  "copy_common_bytes_from_slice s bs =
     bindM (expectM (UserSlice_limit s (min (us_len s) (length bs))) ''min(len, x) is always <= len'') (\<lambda>t.
     bindM (copy_from_slice t (take (min (us_len s) (length bs)) bs)) (\<lambda>_.
       retM (min (us_len s) (length bs))))"

definition copy_exactly :: "user_slice \<Rightarrow> 8 word list \<Rightarrow> (umem, errno, unit) prog" where
  "copy_exactly s bs = bindM (ok_orM (UserSlice_limit s (length bs)) EINVAL) (\<lambda>t. copy_from_slice t bs)"

text \<open>Words, least significant byte first.\<close>

fun to_le_bytes :: "nat \<Rightarrow> nat \<Rightarrow> 8 word list" where
  "to_le_bytes 0 v = []"
| "to_le_bytes (Suc n) v = of_nat (v mod 256) # to_le_bytes n (v div 256)"

fun from_le_bytes :: "8 word list \<Rightarrow> nat" where
  "from_le_bytes [] = 0"
| "from_le_bytes (b # bs) = unat b + 256 * from_le_bytes bs"

definition read_word :: "nat \<Rightarrow> user_slice \<Rightarrow> (umem, errno, nat) prog" where
  "read_word n s = bindM (ok_orM (UserSlice_limit s n) EINVAL) (\<lambda>t. bindM (copy_to_slice t n) (\<lambda>bs. retM (from_le_bytes bs)))"

definition read_usize :: "user_slice \<Rightarrow> (umem, errno, nat) prog" where "read_usize = read_word 8"
definition read_u32 :: "user_slice \<Rightarrow> (umem, errno, nat) prog" where "read_u32 = read_word 4"
definition read_u64 :: "user_slice \<Rightarrow> (umem, errno, nat) prog" where "read_u64 = read_word 8"

definition write_word :: "nat \<Rightarrow> user_slice \<Rightarrow> nat \<Rightarrow> (umem, errno, unit) prog" where
  "write_word n s v = bindM (ok_orM (UserSlice_limit s n) EINVAL) (\<lambda>t. copy_from_slice t (to_le_bytes n v))"

definition write_usize :: "user_slice \<Rightarrow> nat \<Rightarrow> (umem, errno, unit) prog" where "write_usize = write_word 8"
definition write_u32 :: "user_slice \<Rightarrow> nat \<Rightarrow> (umem, errno, unit) prog" where "write_u32 = write_word 4"

definition validate_region :: "nat \<Rightarrow> nat \<Rightarrow> (page \<times> nat) result" where
  "validate_region address size' =
     (if address mod PAGE_BYTES \<noteq> 0 \<or> size' mod PAGE_BYTES \<noteq> 0 \<or> size' = 0 then Inl EINVAL
      else if USER_END_OFFSET < u_sat_add address size' then Inl EFAULT
      else Inr (Page_containing_address address, size' div PAGE_BYTES))"

section \<open>Slices stay in user memory\<close>

definition us_set :: "user_slice \<Rightarrow> nat set" where
  "us_set s = {us_base s..<us_base s + us_len s}"

definition us_ok :: "user_slice \<Rightarrow> bool" where
  "us_ok s \<longleftrightarrow> us_base s + us_len s < USER_END_OFFSET"

lemma us_ok_bound: "us_ok s \<Longrightarrow> us_base s + us_len s < USIZE_LIM"
  by (simp add: us_ok_def USER_END_OFFSET_def PML4_SIZE_def USIZE_LIM_def)

lemma UserSlice_new_ok: "UserSlice_new b n = Inr s \<longleftrightarrow> s = \<lparr>us_base = b, us_len = n\<rparr> \<and> us_ok s"
  by (auto simp: UserSlice_new_def us_ok_def u_sat_add_def USER_END_OFFSET_def PML4_SIZE_def USIZE_LIM_def)

lemma split_at_parts:
  assumes "us_ok s"
  shows "UserSlice_split_at s i = (if i \<le> us_len s
    then Some (\<lparr>us_base = us_base s, us_len = i\<rparr>, \<lparr>us_base = us_base s + i, us_len = us_len s - i\<rparr>) else None)"
  using us_ok_bound [OF assms] by (simp add: UserSlice_split_at_def)

lemma split_at_ok:
  assumes "us_ok s" "UserSlice_split_at s i = Some (a, b)"
  shows "us_ok a" "us_ok b" "us_len a = i" "us_set a \<union> us_set b = us_set s" "us_set a \<inter> us_set b = {}"
  using assms by (auto simp: split_at_parts us_ok_def us_set_def split: if_splits)

lemma limit_ok: "us_ok s \<Longrightarrow> UserSlice_limit s n = (if n \<le> us_len s then Some \<lparr>us_base = us_base s, us_len = n\<rparr> else None)"
  by (simp add: UserSlice_limit_def split_at_parts)

lemma advance_ok: "us_ok s \<Longrightarrow> UserSlice_advance s n = (if n \<le> us_len s then Some \<lparr>us_base = us_base s + n, us_len = us_len s - n\<rparr> else None)"
  by (simp add: UserSlice_advance_def split_at_parts)

section \<open>What copying does\<close>

text \<open>The bytes up to the first one that cannot be written are written.\<close>

definition put_bytes :: "nat \<Rightarrow> 8 word list \<Rightarrow> umem \<Rightarrow> umem" where
  "put_bytes dst bs m = m\<lparr>um_byte := (\<lambda>x. if dst \<le> x \<and> x < dst + length bs then bs ! (x - dst) else um_byte m x)\<rparr>"

lemma put_bytes_Nil [simp]: "put_bytes dst [] m = m"
proof -
  have "(\<lambda>x. if dst \<le> x \<and> x < dst then [] ! (x - dst) else um_byte m x) = um_byte m" by (rule ext) auto
  then show ?thesis by (simp add: put_bytes_def)
qed

lemma put_bytes_access [simp]: "um_readable (put_bytes d bs m) = um_readable m" "um_writable (put_bytes d bs m) = um_writable m"
  by (simp_all add: put_bytes_def)

lemma copy_to_user_spec:
  "\<exists>k\<le>length bs. arch_copy_to_user dst bs m = (put_bytes dst (take k bs) m, k = length bs) \<and>
     (\<forall>i<k. um_writable m (dst + i)) \<and> (k < length bs \<longrightarrow> \<not> um_writable m (dst + k))"
proof (induction dst bs m rule: arch_copy_to_user.induct)
  case (1 dst m)
  then show ?case by simp
next
  case (2 dst b bs m)
  show ?case
  proof (cases "um_writable m dst")
    case False
    then show ?thesis by (intro exI [of _ 0]) simp
  next
    case True
    obtain k where k: "k \<le> length bs" "arch_copy_to_user (Suc dst) bs (m\<lparr>um_byte := (um_byte m)(dst := b)\<rparr>) =
        (put_bytes (Suc dst) (take k bs) (m\<lparr>um_byte := (um_byte m)(dst := b)\<rparr>), k = length bs)"
      "\<forall>i<k. um_writable m (Suc dst + i)" "k < length bs \<longrightarrow> \<not> um_writable m (Suc dst + k)"
      using 2 [OF True] by auto
    have "put_bytes (Suc dst) (take k bs) (m\<lparr>um_byte := (um_byte m)(dst := b)\<rparr>) = put_bytes dst (take (Suc k) (b # bs)) m"
      using k(1) by (auto simp: put_bytes_def fun_eq_iff nth_Cons' le_Suc_eq)
    moreover have "um_writable m (dst + i)" if "i < Suc k" for i
      using True k(3) that by (cases i) auto
    ultimately show ?thesis using k(1,2,4) True by (intro exI [of _ "Suc k"]) auto
  qed
qed

lemma copy_from_user_spec:
  "arch_copy_from_user src n m =
     (if \<forall>i<n. um_readable m (src + i) then Some (map (\<lambda>i. um_byte m (src + i)) [0..<n]) else None)"
proof (induction src n m rule: arch_copy_from_user.induct)
  case (2 src n m)
  have "(\<forall>i<Suc n. um_readable m (src + i)) \<longleftrightarrow> um_readable m src \<and> (\<forall>i<n. um_readable m (Suc src + i))"
    by (auto simp: less_Suc_eq_0_disj)
  moreover have "map (\<lambda>i. um_byte m (src + i)) [0..<Suc n] = um_byte m src # map (\<lambda>i. um_byte m (Suc src + i)) [0..<n]"
    by (simp del: upt_Suc add: upt_conv_Cons map_Suc_upt [symmetric] comp_def)
  ultimately show ?case using 2 by auto
qed simp

lemma le_bytes_length [simp]: "length (to_le_bytes n v) = n"
  by (induction n v rule: to_le_bytes.induct) auto

lemma le_bytes_inverse: "from_le_bytes (to_le_bytes n v) = v mod 256 ^ n"
proof (induction n v rule: to_le_bytes.induct)
  case (2 n v)
  have "unat (of_nat (v mod 256) :: 8 word) = v mod 256" by (simp add: unat_of_nat take_bit_nat_def)
  moreover have "v mod (256 * 256 ^ n) = v mod 256 + 256 * (v div 256 mod 256 ^ n)" by (simp add: mod_mult2_eq)
  ultimately show ?case using 2 by simp
qed simp

text \<open>
  The effect of a copy to user memory: a slice of another length is refused; otherwise exactly the
  bytes before the first one that cannot be written are stored.
\<close>

definition copy_effect :: "user_slice \<Rightarrow> 8 word list \<Rightarrow> umem \<Rightarrow> umem \<Rightarrow> errno + unit \<Rightarrow> bool" where
  "copy_effect s bs m m' r \<longleftrightarrow>
     (if us_len s \<noteq> length bs then m' = m \<and> r = Inl EINVAL
      else if \<forall>x\<in>us_set s. um_writable m x then m' = put_bytes (us_base s) bs m \<and> r = Inr ()
      else r = Inl EFAULT \<and> (\<exists>k<length bs. m' = put_bytes (us_base s) (take k bs) m \<and> \<not> um_writable m (us_base s + k)))"

lemma copy_from_slice_effect: "\<exists>m' r. copy_from_slice s bs m = Inr (m', r) \<and> copy_effect s bs m m' r"
proof (cases "us_len s = length bs")
  case True
  obtain k where k: "k \<le> length bs" "arch_copy_to_user (us_base s) bs m = (put_bytes (us_base s) (take k bs) m, k = length bs)"
    "\<forall>i<k. um_writable m (us_base s + i)" "k < length bs \<longrightarrow> \<not> um_writable m (us_base s + k)"
    using copy_to_user_spec [of bs "us_base s" m] by auto
  have "(\<forall>x\<in>us_set s. um_writable m x) \<longleftrightarrow> k = length bs"
  proof
    assume "\<forall>x\<in>us_set s. um_writable m x"
    then show "k = length bs" using k(1,4) True by (auto simp: us_set_def)
  next
    assume kl: "k = length bs"
    show "\<forall>x\<in>us_set s. um_writable m x"
    proof
      fix x assume "x \<in> us_set s"
      then show "um_writable m x" using k(3) kl True spec [OF k(3), of "x - us_base s"] by (auto simp: us_set_def)
    qed
  qed
  then show ?thesis using True k(1,2,4) by (auto simp: copy_from_slice_def copy_effect_def)
qed (simp add: copy_from_slice_def copy_effect_def)

lemma copy_effect_inside: "copy_effect s bs m m' r \<Longrightarrow> x \<notin> us_set s \<Longrightarrow> um_byte m' x = um_byte m x"
  by (auto simp: copy_effect_def put_bytes_def us_set_def split: if_splits)

section \<open>Results\<close>

text \<open>
  C13: Copies between the kernel and user memory stay inside the slice they are given.  A slice that a system
  call accepts lies below the end of user memory; splitting it gives two disjoint slices that cover it,
  without wrapping around.  A copy into any of them, whatever it returns, stores the given bytes inside that
  slice only, all of them when it succeeds and those before the first inaccessible byte when it fails.  A copy
  out of any of them changes nothing and returns exactly the bytes of the slice; it fails exactly when the
  lengths differ or some byte of the slice cannot be read.
\<close>

theorem user_copy_contained:
  assumes "UserSlice_new b n = Inr s" "UserSlice_split_at s i = Some (p, q)"
  shows "us_set s = {b..<b + n} \<and> us_set s \<subseteq> {..<USER_END_OFFSET} \<and> us_set p \<union> us_set q = us_set s \<and> us_set p \<inter> us_set q = {} \<and>
    (\<forall>t\<in>{s, p, q}. \<exists>m' r. copy_from_slice t bs m = Inr (m', r) \<and> copy_effect t bs m m' r \<and>
      (\<forall>x. x \<notin> us_set t \<longrightarrow> um_byte m' x = um_byte m x)) \<and>
    (\<forall>t\<in>{s, p, q}. copy_to_slice t k m = Inr (m,
      if k \<noteq> us_len t then Inl EINVAL
      else if \<forall>x\<in>us_set t. um_readable m x then Inr (map (um_byte m) [us_base t..<us_base t + us_len t])
      else Inl EFAULT))"
proof -
  have ok: "us_ok s" and s: "s = \<lparr>us_base = b, us_len = n\<rparr>" using assms(1) UserSlice_new_ok [of b n s] by blast+
  have "\<exists>m' r. copy_from_slice t bs m = Inr (m', r) \<and> copy_effect t bs m m' r \<and> (\<forall>x. x \<notin> us_set t \<longrightarrow> um_byte m' x = um_byte m x)" for t
    using copy_from_slice_effect [of t bs m] copy_effect_inside [of t bs m] by blast
  moreover have "copy_to_slice t k m = Inr (m, if k \<noteq> us_len t then Inl EINVAL
      else if \<forall>x\<in>us_set t. um_readable m x then Inr (map (um_byte m) [us_base t..<us_base t + us_len t]) else Inl EFAULT)" for t
  proof -
    have "(\<forall>x\<in>us_set t. um_readable m x) \<longleftrightarrow> (\<forall>i<us_len t. um_readable m (us_base t + i))"
      by (auto simp: us_set_def) (metis add_diff_inverse_nat add_less_cancel_left not_less)
    moreover have "map (um_byte m) [us_base t..<us_base t + us_len t] = map (\<lambda>i. um_byte m (us_base t + i)) [0..<us_len t]"
      by (rule nth_equalityI) simp_all
    ultimately show ?thesis by (cases "k = us_len t") (simp_all add: copy_to_slice_def copy_from_user_spec)
  qed
  ultimately show ?thesis using split_at_ok [OF ok assms(2)] ok s by (auto simp: us_set_def us_ok_def)
qed

theorem user_copy_witness:
  "\<exists>s p q. UserSlice_new 4096 10 = Inr s \<and> UserSlice_split_at s 4 = Some (p, q) \<and> us_set p \<union> us_set q = {4096..<4106} \<and>
     copy_to_slice s 10 \<lparr>um_byte = \<lambda>_. 0, um_readable = \<lambda>_. True, um_writable = \<lambda>_. True\<rparr> =
       Inr (\<lparr>um_byte = \<lambda>_. 0, um_readable = \<lambda>_. True, um_writable = \<lambda>_. True\<rparr>, Inr [0, 0, 0, 0, 0, 0, 0, 0, 0, 0])"
proof -
  have n: "UserSlice_new 4096 10 = Inr \<lparr>us_base = 4096, us_len = 10\<rparr>"
    by (simp add: UserSlice_new_ok us_ok_def USER_END_OFFSET_def PML4_SIZE_def)
  have sp: "UserSlice_split_at \<lparr>us_base = 4096, us_len = 10\<rparr> 4 = Some (\<lparr>us_base = 4096, us_len = 4\<rparr>, \<lparr>us_base = 4100, us_len = 6\<rparr>)"
    by (simp add: UserSlice_split_at_def u_add_def USIZE_LIM_def)
  show ?thesis using user_copy_contained [OF n sp, of "[]" "\<lparr>um_byte = \<lambda>_. 0, um_readable = \<lambda>_. True, um_writable = \<lambda>_. True\<rparr>" 10] n sp by auto
qed

text \<open>
  A word written to user memory is read back: if writing \<open>v\<close> succeeds and the bytes can be read,
  reading a word from the same slice returns \<open>v\<close>.
\<close>

theorem write_read_usize:
  assumes "us_ok s" "write_usize s v m = Inr (m', Inr ())" "\<forall>x\<in>us_set s. um_readable m x" "v < 2 ^ 64"
  shows "read_usize s m' = Inr (m', Inr v)"
proof -
  have len: "8 \<le> us_len s"
    using assms(1,2) by (auto simp: write_usize_def write_word_def limit_ok ok_orM_def split: if_splits)
  let ?t = "\<lparr>us_base = us_base s, us_len = 8\<rparr>"
  have "copy_from_slice ?t (to_le_bytes 8 v) m = Inr (m', Inr ())"
    using assms(1,2) len by (simp add: write_usize_def write_word_def limit_ok ok_orM_def)
  then have "copy_effect ?t (to_le_bytes 8 v) m m' (Inr ())"
    using copy_from_slice_effect [of ?t "to_le_bytes 8 v" m] by auto
  then have m': "m' = put_bytes (us_base s) (to_le_bytes 8 v) m"
    by (auto simp: copy_effect_def split: if_splits)
  have "map (\<lambda>i. um_byte m' (us_base s + i)) [0..<8] = to_le_bytes 8 v"
    by (rule nth_equalityI) (auto simp: m' put_bytes_def)
  moreover have "\<forall>i<8. um_readable m' (us_base s + i)" using assms(3) len by (auto simp: m' us_set_def)
  ultimately have "arch_copy_from_user (us_base s) 8 m' = Some (to_le_bytes 8 v)"
    unfolding copy_from_user_spec by simp
  moreover have "from_le_bytes (to_le_bytes 8 v) = v" using assms(4) by (simp only: le_bytes_inverse) simp
  ultimately show ?thesis using assms(1) len
    by (simp add: read_usize_def read_word_def limit_ok ok_orM_def copy_to_slice_def)
qed

theorem write_read_witness:
  "\<exists>m'. write_usize \<lparr>us_base = 4096, us_len = 8\<rparr> 258 \<lparr>um_byte = \<lambda>_. 0, um_readable = \<lambda>_. True, um_writable = \<lambda>_. True\<rparr> = Inr (m', Inr ()) \<and>
    read_usize \<lparr>us_base = 4096, us_len = 8\<rparr> m' = Inr (m', Inr 258)"
proof -
  let ?s = "\<lparr>us_base = 4096, us_len = 8\<rparr>" and ?m = "\<lparr>um_byte = \<lambda>_. 0, um_readable = \<lambda>_. True, um_writable = \<lambda>_. True\<rparr>"
  have ok: "us_ok ?s" by (simp add: us_ok_def USER_END_OFFSET_def PML4_SIZE_def)
  have "copy_effect ?s (to_le_bytes 8 258) ?m m' r \<Longrightarrow> r = Inr ()" for m' r by (simp add: copy_effect_def)
  then obtain m' where "copy_from_slice ?s (to_le_bytes 8 258) ?m = Inr (m', Inr ())"
    using copy_from_slice_effect [of ?s "to_le_bytes 8 258" ?m] by fastforce
  then have w: "write_usize ?s 258 ?m = Inr (m', Inr ())"
    using ok by (simp add: write_usize_def write_word_def limit_ok ok_orM_def)
  show ?thesis using write_read_usize [OF ok w] w by simp
qed

end
