(* ===== verification/Wait_Sync.thy ===== *)
theory Wait_Sync
  imports Context_Core User_Copy
begin

text \<open>
  Blocking: wait conditions, queues and maps (\<open>src/src/sync\<close>).  A context that has to wait blocks
  itself, enters itself into the list of the condition and releases the lock of the data; whoever
  changes the data notifies all contexts in the list.  What other contexts do while this one is not
  running is an argument, the list of the effects of each call of \<open>context::switch\<close>; when the list is
  used up, the context is still waiting.
\<close>

section \<open>Wait conditions\<close>

text \<open>The contexts that exist, and the running one.\<close>

record sched =
  sc_ctx :: "nat \<rightharpoonup> kcontext"
  sc_current :: nat
  sc_this_cpu :: nat

type_synonym wait_condition = "nat list"

definition unblock_ref :: "nat \<Rightarrow> sched \<Rightarrow> sched" where
  "unblock_ref c S = (case sc_ctx S c of None \<Rightarrow> S
     | Some x \<Rightarrow> S\<lparr>sc_ctx := (sc_ctx S)(c \<mapsto> fst (ctx_unblock (sc_this_cpu S) x))\<rparr>)"

definition wc_notify :: "wait_condition \<Rightarrow> sched \<Rightarrow> nat \<times> wait_condition \<times> sched" where
  "wc_notify contexts S = (length contexts, [], fold unblock_ref (rev contexts) S)"

definition wc_notify_signal :: "wait_condition \<Rightarrow> sched \<Rightarrow> nat \<times> wait_condition \<times> sched" where
  "wc_notify_signal contexts S = (length contexts, contexts, fold unblock_ref contexts S)"

text \<open>
  \<open>wait\<close> up to the switch: with a signal pending there is no waiting.  \<open>pending\<close> says whether the
  signal control words of a context, in memory shared with user space, show an unblocked signal.
\<close>

definition wc_wait_begin :: "(nat \<Rightarrow> bool) \<Rightarrow> string \<Rightarrow> wait_condition \<Rightarrow> sched \<Rightarrow> (wait_condition \<times> sched) option" where
  "wc_wait_begin pending reason contexts S =
     (if pending (sc_current S) then None
      else Some (contexts @ [sc_current S],
        S\<lparr>sc_ctx := (sc_ctx S)(sc_current S := map_option (\<lambda>x. fst (ctx_block reason x)) (sc_ctx S (sc_current S)))\<rparr>))"

text \<open>After the switch: the context is still in the list if it was not woken by a notification.\<close>

fun wc_wait_end :: "nat \<Rightarrow> wait_condition \<Rightarrow> wait_condition \<times> bool" where
  "wc_wait_end c [] = ([], True)"
| "wc_wait_end c (x # xs) = (if x = c then (xs, False) else (case wc_wait_end c xs of (ys, b) \<Rightarrow> (x # ys, b)))"

section \<open>Queues\<close>

record 'q wait_data =
  wd_inner :: 'q
  wd_cond :: wait_condition
  wd_sched :: sched

definition wq_is_currently_empty :: "'t list wait_data \<Rightarrow> bool" where
  "wq_is_currently_empty w = (wd_inner w = [])"

text \<open>
  A wait on the condition: the context enters the list and blocks, which fails if a signal is pending;
  then come the effects of the others, and at last the cleanup.
\<close>

definition wd_enter :: "(nat \<Rightarrow> bool) \<Rightarrow> string \<Rightarrow> 'q wait_data \<Rightarrow> 'q wait_data \<times> bool" where
  "wd_enter pending reason w =
     (case wc_wait_begin pending reason (wd_cond w) (wd_sched w) of
        None \<Rightarrow> (w, False) | Some (cond, S) \<Rightarrow> (w\<lparr>wd_cond := cond, wd_sched := S\<rparr>, True))"

definition wd_leave :: "nat \<Rightarrow> 'q wait_data \<Rightarrow> 'q wait_data \<times> bool" where
  "wd_leave c w = (case wc_wait_end c (wd_cond w) of (cond, waited) \<Rightarrow> (w\<lparr>wd_cond := cond\<rparr>, waited))"

definition wd_wait :: "(nat \<Rightarrow> bool) \<Rightarrow> string \<Rightarrow> ('q wait_data \<Rightarrow> 'q wait_data) \<Rightarrow> 'q wait_data \<Rightarrow> 'q wait_data \<times> bool" where
  "wd_wait pending reason others w =
     (case wd_enter pending reason w of
        (w', False) \<Rightarrow> (w', False)
      | (w', True) \<Rightarrow> wd_leave (sc_current (wd_sched w)) (others w'))"

text \<open>The end of the observed part of the run: the context has entered the list, or does not wait.\<close>

definition wd_stuck :: "(nat \<Rightarrow> bool) \<Rightarrow> string \<Rightarrow> 'r \<Rightarrow> 'q wait_data \<Rightarrow> 'q wait_data \<times> 'r option" where
  "wd_stuck pending reason interrupted w =
     (case wd_enter pending reason w of (w', True) \<Rightarrow> (w', None) | (w', False) \<Rightarrow> (w', Some interrupted))"

fun wq_receive :: "(nat \<Rightarrow> bool) \<Rightarrow> bool \<Rightarrow> string \<Rightarrow> ('t list wait_data \<Rightarrow> 't list wait_data) list \<Rightarrow> 't list wait_data \<Rightarrow>
    't list wait_data \<times> (errno + 't) option" where
  "wq_receive pending blocking reason switches w =
     (case wd_inner w of
        t # ts \<Rightarrow> (w\<lparr>wd_inner := ts\<rparr>, Some (Inr t))
      | [] \<Rightarrow>
          if blocking then
            case switches of
              [] \<Rightarrow> wd_stuck pending reason (Inl EINTR) w
            | others # rest \<Rightarrow>
                (case wd_wait pending reason others w of
                   (w', False) \<Rightarrow> (w', Some (Inl EINTR))
                 | (w', True) \<Rightarrow> wq_receive pending blocking reason rest w')
          else (w, Some (Inl EAGAIN)))"

declare wq_receive.simps [simp del]

text \<open>
  \<open>receive_into_user\<close> copies the bytes of the elements, \<open>sz\<close> bytes each, as the two slices of the ring
  buffer, which \<open>brk\<close> separates.
\<close>

definition wq_copy_out :: "('t \<Rightarrow> 8 word list) \<Rightarrow> nat \<Rightarrow> nat \<Rightarrow> user_slice \<Rightarrow> 't list \<Rightarrow> (umem, errno, nat) prog" where
  "wq_copy_out enc sz brk buf inner =
     (let s1_bytes = concat (map enc (take brk inner)); s2_bytes = concat (map enc (drop brk inner)) in
      bindM (copy_common_bytes_from_slice buf s1_bytes) (\<lambda>n1.
        case UserSlice_advance buf (length s1_bytes) of
          Some buf_for_s2 \<Rightarrow> bindM (copy_common_bytes_from_slice buf_for_s2 s2_bytes) (\<lambda>n2. retM (n1 + n2))
        | None \<Rightarrow> retM n1))"

fun wq_receive_into_user :: "(nat \<Rightarrow> bool) \<Rightarrow> ('t \<Rightarrow> 8 word list) \<Rightarrow> nat \<Rightarrow> nat \<Rightarrow> user_slice \<Rightarrow> bool \<Rightarrow> string \<Rightarrow>
    ('t list wait_data \<Rightarrow> 't list wait_data) list \<Rightarrow> 't list wait_data \<Rightarrow> umem \<Rightarrow>
    ('t list wait_data \<times> umem \<times> (errno + nat) option) exec" where
  "wq_receive_into_user pending enc sz brk buf blocking reason switches w m =
     (if wd_inner w = [] then
        if blocking then
          case switches of
            [] \<Rightarrow> (case wd_stuck pending reason (Inl EINTR) w of (w', r) \<Rightarrow> Inr (w', m, r))
          | others # rest \<Rightarrow>
              (case wd_wait pending reason others w of
                 (w', False) \<Rightarrow> Inr (w', m, Some (Inl EINTR))
               | (w', True) \<Rightarrow> wq_receive_into_user pending enc sz brk buf blocking reason rest w' m)
        else if UserSlice_is_empty buf then Inr (w, m, Some (Inr 0))
        else if us_len buf < sz then Inr (w, m, Some (Inl EINVAL))
        else Inr (w, m, Some (Inl EAGAIN))
      else
        bindE (wq_copy_out enc sz brk buf (wd_inner w) m) (\<lambda>(m', r). case r of
            Inl e \<Rightarrow> Inr (w, m', Some (Inl e))
          | Inr bytes_copied \<Rightarrow>
              bindE (assertE (sz \<noteq> 0) ''attempt to divide by zero'') (\<lambda>_.
              Inr (w\<lparr>wd_inner := drop (bytes_copied div sz) (wd_inner w)\<rparr>, m', Some (Inr bytes_copied)))))"

declare wq_receive_into_user.simps [simp del]

text \<open>\<open>send\<close> releases the lock of the queue before it notifies: these are two steps for the others.\<close>

definition wq_push :: "'t \<Rightarrow> 't list wait_data \<Rightarrow> 't list wait_data \<times> nat" where
  "wq_push v w = (w\<lparr>wd_inner := wd_inner w @ [v]\<rparr>, length (wd_inner w) + 1)"

definition wd_notify :: "'q wait_data \<Rightarrow> 'q wait_data" where
  "wd_notify w = (case wc_notify (wd_cond w) (wd_sched w) of (_, cond, S) \<Rightarrow> w\<lparr>wd_cond := cond, wd_sched := S\<rparr>)"

definition wq_send :: "'t \<Rightarrow> 't list wait_data \<Rightarrow> 't list wait_data \<times> nat" where
  "wq_send v w = (case wq_push v w of (w', len) \<Rightarrow> (wd_notify w', len))"

section \<open>Maps\<close>

text \<open>
  The map is a \<open>BTreeMap\<close>.  As long as it fits one node, \<open>11\<close> entries, a lookup compares the key with
  those of the entries in order and gives up at the first one that is greater.
\<close>

fun wm_search :: "('k \<Rightarrow> 'k \<Rightarrow> ordering) \<Rightarrow> 'k \<Rightarrow> ('k \<times> 'v) list \<Rightarrow> nat \<Rightarrow> nat + nat" where
  "wm_search cmp k [] i = Inl i"
| "wm_search cmp k ((x, v) # es) i =
     (case cmp k x of Greater \<Rightarrow> wm_search cmp k es (Suc i) | Equal \<Rightarrow> Inr i | Less \<Rightarrow> Inl i)"

definition wm_remove :: "('k \<Rightarrow> 'k \<Rightarrow> ordering) \<Rightarrow> 'k \<Rightarrow> ('k \<times> 'v) list \<Rightarrow> ('k \<times> 'v) list \<times> 'v option" where
  "wm_remove cmp k es = (case wm_search cmp k es 0 of
     Inr i \<Rightarrow> (take i es @ drop (Suc i) es, Some (snd (es ! i))) | Inl _ \<Rightarrow> (es, None))"

definition wm_insert :: "('k \<Rightarrow> 'k \<Rightarrow> ordering) \<Rightarrow> 'k \<Rightarrow> 'v \<Rightarrow> ('k \<times> 'v) list \<Rightarrow> ('k \<times> 'v) list" where
  "wm_insert cmp k v es = (case wm_search cmp k es 0 of
     Inr i \<Rightarrow> es[i := (fst (es ! i), v)] | Inl i \<Rightarrow> take i es @ (k, v) # drop i es)"

definition wm_receive_nonblock :: "('k \<Rightarrow> 'k \<Rightarrow> ordering) \<Rightarrow> 'k \<Rightarrow> ('k \<times> 'v) list wait_data \<Rightarrow> ('k \<times> 'v) list wait_data \<times> 'v option" where
  "wm_receive_nonblock cmp k w = (case wm_remove cmp k (wd_inner w) of (es, r) \<Rightarrow> (w\<lparr>wd_inner := es\<rparr>, r))"

text \<open>The outer option is for a context that is still waiting.\<close>

fun wm_receive :: "('k \<Rightarrow> 'k \<Rightarrow> ordering) \<Rightarrow> (nat \<Rightarrow> bool) \<Rightarrow> 'k \<Rightarrow> string \<Rightarrow>
    (('k \<times> 'v) list wait_data \<Rightarrow> ('k \<times> 'v) list wait_data) list \<Rightarrow> ('k \<times> 'v) list wait_data \<Rightarrow> ('k \<times> 'v) list wait_data \<times> 'v option option" where
  "wm_receive cmp pending k reason switches w =
     (case wm_receive_nonblock cmp k w of
        (w', Some v) \<Rightarrow> (w', Some (Some v))
      | (w', None) \<Rightarrow>
          (case switches of
             [] \<Rightarrow> wd_stuck pending reason None w'
           | others # rest \<Rightarrow>
               (case wd_wait pending reason others w' of
                  (w'', False) \<Rightarrow> (w'', Some None)
                | (w'', True) \<Rightarrow> wm_receive cmp pending k reason rest w'')))"

declare wm_receive.simps [simp del]

definition wm_receive_any_nonblock :: "('k \<Rightarrow> 'k \<Rightarrow> ordering) \<Rightarrow> ('k \<times> 'v) list wait_data \<Rightarrow> ('k \<times> 'v) list wait_data \<times> ('k \<times> 'v) option" where
  "wm_receive_any_nonblock cmp w = (case wd_inner w of
     [] \<Rightarrow> (w, None)
   | (k, _) # _ \<Rightarrow> (case wm_remove cmp k (wd_inner w) of (es, r) \<Rightarrow> (w\<lparr>wd_inner := es\<rparr>, map_option (\<lambda>v. (k, v)) r)))"

fun wm_receive_any :: "('k \<Rightarrow> 'k \<Rightarrow> ordering) \<Rightarrow> (nat \<Rightarrow> bool) \<Rightarrow> string \<Rightarrow>
    (('k \<times> 'v) list wait_data \<Rightarrow> ('k \<times> 'v) list wait_data) list \<Rightarrow> ('k \<times> 'v) list wait_data \<Rightarrow> ('k \<times> 'v) list wait_data \<times> ('k \<times> 'v) option" where
  "wm_receive_any cmp pending reason [] w =
     (case wm_receive_any_nonblock cmp w of
        (w', Some e) \<Rightarrow> (w', Some e) | (w', None) \<Rightarrow> (fst (wd_enter pending reason w'), None))"
| "wm_receive_any cmp pending reason (others # rest) w =
     (case wm_receive_any_nonblock cmp w of
        (w', Some e) \<Rightarrow> (w', Some e)
      | (w', None) \<Rightarrow> wm_receive_any cmp pending reason rest (fst (wd_wait pending reason others w')))"

definition wm_receive_all :: "('k \<times> 'v) list wait_data \<Rightarrow> ('k \<times> 'v) list wait_data \<times> ('k \<times> 'v) list" where
  "wm_receive_all w = (w\<lparr>wd_inner := []\<rparr>, wd_inner w)"

definition wm_send :: "('k \<Rightarrow> 'k \<Rightarrow> ordering) \<Rightarrow> 'k \<Rightarrow> 'v \<Rightarrow> ('k \<times> 'v) list wait_data \<Rightarrow> ('k \<times> 'v) list wait_data" where
  "wm_send cmp k v w = wd_notify (w\<lparr>wd_inner := wm_insert cmp k v (wd_inner w)\<rparr>)"

section \<open>Queues under interleaving\<close>

text \<open>
  Any number of senders and receivers: the state, the senders between their two steps, and what has
  been sent and received so far.  Contexts may be interrupted and woken by signals at any time.
\<close>

record 't wq_run =
  wr_data :: "'t list wait_data"
  wr_notifiers :: nat
  wr_sent :: "'t list"
  wr_received :: "'t list"

definition soft_blocked :: "sched \<Rightarrow> nat \<Rightarrow> bool" where
  "soft_blocked S c \<longleftrightarrow> (\<exists>x. sc_ctx S c = Some x \<and> ctx_status x = Blocked)"

inductive wq_step :: "(nat \<Rightarrow> bool) \<Rightarrow> 't wq_run \<Rightarrow> 't wq_run \<Rightarrow> bool" for pending where
  send_push: "wq_step pending r (r\<lparr>wr_data := fst (wq_push v (wr_data r)), wr_notifiers := Suc (wr_notifiers r), wr_sent := wr_sent r @ [v]\<rparr>)"
| send_notify: "wr_notifiers r = Suc n \<Longrightarrow> wq_step pending r (r\<lparr>wr_data := wd_notify (wr_data r), wr_notifiers := n\<rparr>)"
| receive_pop: "wq_receive pending blocking reason [] (wr_data r) = (w, Some (Inr t)) \<Longrightarrow>
    wq_step pending r (r\<lparr>wr_data := w, wr_received := wr_received r @ [t]\<rparr>)"
| receive_wait: "wq_receive pending blocking reason [] (wr_data r) = (w, None) \<Longrightarrow> wq_step pending r (r\<lparr>wr_data := w\<rparr>)"
| resume: "\<not> soft_blocked (wd_sched (wr_data r)) c \<Longrightarrow> wq_step pending r (r\<lparr>wr_data := fst (wd_leave c (wr_data r))\<rparr>)"
| signal: "wq_step pending r (r\<lparr>wr_data := (wr_data r)\<lparr>wd_sched := unblock_ref c (wd_sched (wr_data r))\<rparr>\<rparr>)"
| switch: "wq_step pending r (r\<lparr>wr_data := (wr_data r)\<lparr>wd_sched := (wd_sched (wr_data r))\<lparr>sc_current := c\<rparr>\<rparr>\<rparr>)"

definition wq_inv :: "'t wq_run \<Rightarrow> bool" where
  "wq_inv r \<longleftrightarrow> wr_received r @ wd_inner (wr_data r) = wr_sent r \<and>
     (wd_inner (wr_data r) \<noteq> [] \<longrightarrow> wd_cond (wr_data r) \<noteq> [] \<longrightarrow> wr_notifiers r \<noteq> 0) \<and>
     (\<forall>c. soft_blocked (wd_sched (wr_data r)) c \<longrightarrow> c \<in> set (wd_cond (wr_data r)))"

lemma steps2: "R a b \<Longrightarrow> R b c \<Longrightarrow> R\<^sup>*\<^sup>* a c"
  by (meson converse_rtranclp_into_rtranclp r_into_rtranclp)

lemma soft_blocked_unblock: "soft_blocked (unblock_ref c S) d \<longleftrightarrow> soft_blocked S d \<and> d \<noteq> c"
  by (auto simp: soft_blocked_def unblock_ref_def block_unblock split: option.splits)

lemma soft_blocked_fold: "soft_blocked (fold unblock_ref cs S) d \<longleftrightarrow> soft_blocked S d \<and> d \<notin> set cs"
  by (induction cs arbitrary: S) (auto simp: soft_blocked_unblock)

lemma wq_receive_Nil:
  "wq_receive pending blocking reason [] w = (w', Some (Inr t)) \<longleftrightarrow> (\<exists>ts. wd_inner w = t # ts \<and> w' = w\<lparr>wd_inner := ts\<rparr>)"
  "wq_receive pending blocking reason [] w = (w', None) \<longleftrightarrow> wd_inner w = [] \<and> blocking \<and> \<not> pending (sc_current (wd_sched w)) \<and>
     w' = fst (wd_enter pending reason w)"
  by (auto simp: wq_receive.simps wd_stuck_def wd_enter_def wc_wait_begin_def split: list.splits)

lemma wd_enter_eq: "\<not> pending (sc_current (wd_sched w)) \<Longrightarrow> wd_enter pending reason w =
    (w\<lparr>wd_cond := wd_cond w @ [sc_current (wd_sched w)],
       wd_sched := (wd_sched w)\<lparr>sc_ctx := (sc_ctx (wd_sched w))(sc_current (wd_sched w) :=
         map_option (\<lambda>x. fst (ctx_block reason x)) (sc_ctx (wd_sched w) (sc_current (wd_sched w))))\<rparr>\<rparr>, True)"
  by (simp add: wd_enter_def wc_wait_begin_def)

lemma wd_enter_blocked:
  assumes "\<not> pending (sc_current (wd_sched w))"
  shows "wd_inner (fst (wd_enter pending reason w)) = wd_inner w"
    "wd_cond (fst (wd_enter pending reason w)) = wd_cond w @ [sc_current (wd_sched w)]"
    "soft_blocked (wd_sched (fst (wd_enter pending reason w))) c \<Longrightarrow> soft_blocked (wd_sched w) c \<or> c = sc_current (wd_sched w)"
  using assms by (auto simp: wd_enter_eq soft_blocked_def split: if_splits)

lemma wc_wait_end_set: "c \<noteq> d \<Longrightarrow> d \<in> set xs \<Longrightarrow> d \<in> set (fst (wc_wait_end c xs))"
  by (induction c xs rule: wc_wait_end.induct) (auto split: prod.splits)

lemma wd_leave_simps:
  "wd_inner (fst (wd_leave c w)) = wd_inner w" "wd_sched (fst (wd_leave c w)) = wd_sched w"
  "wd_cond (fst (wd_leave c w)) = fst (wc_wait_end c (wd_cond w))"
  by (simp_all add: wd_leave_def split: prod.splits)

lemma wc_wait_end_empty: "fst (wc_wait_end c xs) \<noteq> [] \<Longrightarrow> xs \<noteq> []"
  by (cases xs) auto

lemma wd_notify_simps:
  "wd_inner (wd_notify w) = wd_inner w" "wd_cond (wd_notify w) = []"
  "soft_blocked (wd_sched (wd_notify w)) c \<longleftrightarrow> soft_blocked (wd_sched w) c \<and> c \<notin> set (wd_cond w)"
  by (simp_all add: wd_notify_def wc_notify_def soft_blocked_fold)

lemma wq_inv_step:
  assumes "wq_step pending r r'" "wq_inv r"
  shows "wq_inv r'"
  using assms(1)
proof cases
  case (receive_pop blocking reason w t)
  then show ?thesis using assms(2) unfolding wq_receive_Nil by (auto simp: wq_inv_def)
next
  case (receive_wait blocking reason w)
  then have e: "wd_inner (wr_data r) = []" "\<not> pending (sc_current (wd_sched (wr_data r)))" "w = fst (wd_enter pending reason (wr_data r))"
    unfolding wq_receive_Nil by auto
  show ?thesis using assms(2) receive_wait(1) e(1) wd_enter_blocked [of pending "wr_data r" reason] e(2) unfolding wq_inv_def e(3) by auto
next
  case (resume c)
  then show ?thesis using assms(2) wc_wait_end_empty wc_wait_end_set [of c]
    by (auto simp: wq_inv_def wd_leave_simps) metis+
next
  case (switch c)
  then show ?thesis using assms(2) by (simp add: wq_inv_def soft_blocked_def)
qed (use assms(2) in \<open>auto simp: wq_inv_def wq_push_def wd_notify_simps soft_blocked_unblock\<close>)

definition wq_start :: "'t wq_run \<Rightarrow> bool" where
  "wq_start r \<longleftrightarrow> wd_inner (wr_data r) = [] \<and> wd_cond (wr_data r) = [] \<and> wr_notifiers r = 0 \<and> wr_sent r = [] \<and> wr_received r = [] \<and>
     (\<forall>c. \<not> soft_blocked (wd_sched (wr_data r)) c)"

lemma wq_inv_reachable: "(wq_step pending)\<^sup>*\<^sup>* r r' \<Longrightarrow> wq_start r \<Longrightarrow> wq_inv r'"
  by (induction rule: rtranclp_induct) (auto simp: wq_start_def wq_inv_def dest: wq_inv_step)

section \<open>The map of exits\<close>

text \<open>As long as every key names a process, the map is ordered by process.\<close>

definition by_pid :: "(waitpid_key \<times> 'v) list \<Rightarrow> bool" where
  "by_pid es \<longleftrightarrow> (\<forall>e\<in>set es. wk_pid (fst e) \<noteq> None) \<and> sorted_wrt (<) (map (\<lambda>e. the (wk_pid (fst e))) es)"

definition exit_of :: "(waitpid_key \<times> 'v) list \<Rightarrow> nat \<rightharpoonup> 'v" where
  "exit_of es p = map_option snd (find (\<lambda>e. wk_pid (fst e) = Some p) es)"

lemma by_pid_simps [simp]:
  "by_pid []" "by_pid (e # es) \<longleftrightarrow> (\<exists>p. wk_pid (fst e) = Some p \<and> (\<forall>f\<in>set es. p < the (wk_pid (fst f)))) \<and> by_pid es"
  by (auto simp: by_pid_def)

lemma exit_of_simps [simp]:
  "exit_of [] p = None" "exit_of (e # es) p = (if wk_pid (fst e) = Some p then Some (snd e) else exit_of es p)"
  by (simp_all add: exit_of_def)

lemma cmp_pid: "wk_pid k = Some p \<Longrightarrow> wk_pid l = Some q \<Longrightarrow> WaitpidKey_cmp k l = nat_cmp p q"
  by (simp add: WaitpidKey_cmp_def)

lemma wm_search_shift: "wm_search cmp k es (i + j) = map_sum ((+) i) ((+) i) (wm_search cmp k es j)"
  by (induction cmp k es j rule: wm_search.induct) (auto split: ordering.splits)

lemma wm_search_Suc: "wm_search cmp k es (Suc 0) = map_sum Suc Suc (wm_search cmp k es 0)"
proof -
  have "(+) (Suc 0) = Suc" by (rule ext) simp
  then show ?thesis using wm_search_shift [of cmp k es 1 0] by simp
qed

lemma exit_of_above: "by_pid es \<Longrightarrow> \<forall>f\<in>set es. p < the (wk_pid (fst f)) \<Longrightarrow> exit_of es p = None"
  by (induction es) auto

lemma wm_remove_pid:
  assumes "by_pid es" "wk_pid k = Some p"
  shows "by_pid (fst (wm_remove WaitpidKey_cmp k es)) \<and> snd (wm_remove WaitpidKey_cmp k es) = exit_of es p \<and>
    exit_of (fst (wm_remove WaitpidKey_cmp k es)) = (exit_of es)(p := None) \<and> set (fst (wm_remove WaitpidKey_cmp k es)) \<subseteq> set es"
  using assms(1)
proof (induction es)
  case Nil
  then show ?case by (auto simp: wm_remove_def)
next
  case (Cons e es)
  obtain x v where e: "e = (x, v)" by (cases e)
  obtain q where q: "wk_pid x = Some q" "\<forall>f\<in>set es. q < the (wk_pid (fst f))" "by_pid es" using Cons.prems e by auto
  consider "p < q" | "p = q" | "q < p" by linarith
  then show ?case
  proof cases
    case 1
    then have "exit_of es p = None" using q(2,3) by (intro exit_of_above) auto
    then show ?thesis using 1 q e assms(2) Cons.prems by (auto simp: wm_remove_def cmp_pid nat_cmp_def fun_eq_iff)
  next
    case 2
    then have "exit_of es p = None" using q(2,3) by (intro exit_of_above) auto
    then show ?thesis using 2 q e assms(2) by (auto simp: wm_remove_def cmp_pid nat_cmp_def fun_eq_iff)
  next
    case 3
    then have r: "wm_remove WaitpidKey_cmp k (e # es) =
        (e # fst (wm_remove WaitpidKey_cmp k es), snd (wm_remove WaitpidKey_cmp k es))"
      using e assms(2) q(1) by (simp add: wm_remove_def cmp_pid nat_cmp_def wm_search_Suc split: sum.splits)
    show ?thesis using Cons.IH [OF q(3)] r 3 q e by (auto simp: fun_eq_iff)
  qed
qed

lemma wm_insert_pid:
  assumes "by_pid es" "wk_pid k = Some p"
  shows "by_pid (wm_insert WaitpidKey_cmp k v es) \<and> exit_of (wm_insert WaitpidKey_cmp k v es) = (exit_of es)(p \<mapsto> v) \<and>
    (\<forall>f\<in>set (wm_insert WaitpidKey_cmp k v es). wk_pid (fst f) = Some p \<or> (\<exists>g\<in>set es. wk_pid (fst f) = wk_pid (fst g)))"
  using assms(1)
proof (induction es)
  case Nil
  then show ?case using assms(2) by (auto simp: wm_insert_def)
next
  case (Cons e es)
  obtain x u where e: "e = (x, u)" by (cases e)
  obtain q where q: "wk_pid x = Some q" "\<forall>f\<in>set es. q < the (wk_pid (fst f))" "by_pid es" using Cons.prems e by auto
  consider "p < q" | "p = q" | "q < p" by linarith
  then show ?case
  proof cases
    case 1
    then show ?thesis using q e assms(2) Cons.prems by (fastforce simp: wm_insert_def cmp_pid nat_cmp_def fun_eq_iff)
  next
    case 2
    then show ?thesis using q e assms(2) by (auto simp: wm_insert_def cmp_pid nat_cmp_def fun_eq_iff)
  next
    case 3
    then have r: "wm_insert WaitpidKey_cmp k v (e # es) = e # wm_insert WaitpidKey_cmp k v es"
      using e assms(2) q(1) by (simp add: wm_insert_def cmp_pid nat_cmp_def wm_search_Suc split: sum.splits)
    have "q < the (wk_pid (fst f))" if "f \<in> set (wm_insert WaitpidKey_cmp k v es)" for f
      using Cons.IH [OF q(3)] that q(2) 3 by fastforce
    then show ?thesis using Cons.IH [OF q(3)] r 3 q e by (auto simp: fun_eq_iff)
  qed
qed

section \<open>Results\<close>

text \<open>
  C14: A wait queue loses nothing and nobody.  Whatever the interleaving of senders, receivers and
  signals, the elements received are those sent, each once and in order.  A sender first pushes and then
  notifies; whenever no sender stands between the two, no context waits while the queue has an element.
\<close>

theorem wait_queue_correct:
  assumes "wq_start r" "(wq_step pending)\<^sup>*\<^sup>* r r'"
  shows "wr_received r' @ wd_inner (wr_data r') = wr_sent r' \<and>
    (wr_notifiers r' = 0 \<longrightarrow> wd_inner (wr_data r') \<noteq> [] \<longrightarrow>
       wd_cond (wr_data r') = [] \<and> (\<forall>c. \<not> soft_blocked (wd_sched (wr_data r')) c))"
  using wq_inv_reachable [OF assms(2,1)] by (force simp: wq_inv_def)

definition wq_example :: "nat wq_run" where
  "wq_example = \<lparr>wr_data = \<lparr>wd_inner = [], wd_cond = [], wd_sched = \<lparr>sc_ctx = Map.empty, sc_current = 0, sc_this_cpu = 0\<rparr>\<rparr>,
     wr_notifiers = 0, wr_sent = [], wr_received = []\<rparr>"

theorem wait_queue_witness:
  "\<exists>r. (wq_step (\<lambda>_. False))\<^sup>*\<^sup>* wq_example r \<and> wr_sent r = [7] \<and> wr_notifiers r = 0 \<and> wd_inner (wr_data r) = [7] \<and> wd_cond (wr_data r) = []"
proof -
  let ?r1 = "wq_example\<lparr>wr_data := fst (wq_push 7 (wr_data wq_example)), wr_notifiers := Suc (wr_notifiers wq_example), wr_sent := wr_sent wq_example @ [7]\<rparr>"
  let ?r2 = "?r1\<lparr>wr_data := wd_notify (wr_data ?r1), wr_notifiers := 0\<rparr>"
  have s1: "wq_step (\<lambda>_. False) wq_example ?r1" by (rule send_push)
  have s2: "wq_step (\<lambda>_. False) ?r1 ?r2" by (rule send_notify) (simp add: wq_example_def)
  have run: "(wq_step (\<lambda>_. False))\<^sup>*\<^sup>* wq_example ?r2" 
    using s1 s2 by (rule steps2 [where R = "wq_step (\<lambda>_. False)"])
  have st: "wq_start wq_example" by (simp add: wq_start_def wq_example_def soft_blocked_def)
  show ?thesis using wait_queue_correct [OF st run] run
    by (intro exI [of _ ?r2]) (simp add: wq_example_def wq_push_def wd_notify_simps)
qed

text \<open>
  Looked up by process, the exits of children form a map: an announced status is found under the
  process it belongs to, a newer one replaces it, and receiving it removes exactly that entry.
\<close>

theorem wait_map_by_pid:
  assumes "by_pid (wd_inner w)" "wk_pid k = Some p"
  shows "by_pid (wd_inner (wm_send WaitpidKey_cmp k v w)) \<and>
    exit_of (wd_inner (wm_send WaitpidKey_cmp k v w)) = (exit_of (wd_inner w))(p \<mapsto> v) \<and>
    (case wm_receive_nonblock WaitpidKey_cmp k w of (w', r) \<Rightarrow>
       r = exit_of (wd_inner w) p \<and> by_pid (wd_inner w') \<and> exit_of (wd_inner w') = (exit_of (wd_inner w))(p := None))"
  using wm_insert_pid [OF assms, of v] wm_remove_pid [OF assms]
  by (auto simp: wm_send_def wd_notify_simps wm_receive_nonblock_def split: prod.splits)

definition two_exits :: "(waitpid_key \<times> nat) list wait_data" where
  "two_exits = \<lparr>wd_inner = [(\<lparr>wk_pid = Some 4, wk_pgid = Some 9\<rparr>, 0), (\<lparr>wk_pid = Some 6, wk_pgid = Some 2\<rparr>, 1)], wd_cond = [],
     wd_sched = \<lparr>sc_ctx = Map.empty, sc_current = 0, sc_this_cpu = 0\<rparr>\<rparr>"

theorem wait_map_witness: "snd (wm_receive_nonblock WaitpidKey_cmp \<lparr>wk_pid = Some 6, wk_pgid = None\<rparr> two_exits) = Some 1"
proof -
  have "by_pid (wd_inner two_exits)" "exit_of (wd_inner two_exits) 6 = Some 1" by (simp_all add: two_exits_def)
  then show ?thesis using wait_map_by_pid [of two_exits "\<lparr>wk_pid = Some 6, wk_pgid = None\<rparr>" 6 0]
    by (auto split: prod.splits)
qed

text \<open>
  C15: Looked up by process group, an exit can be missed: the order of the keys is not transitive, and
  when a process with a smaller number belongs to a larger group, the search for the smaller group
  stops at it.
\<close>

theorem wait_map_group_missed:
  assumes "p < q" "h < g"
  shows "let es = wm_insert WaitpidKey_cmp \<lparr>wk_pid = Some q, wk_pgid = Some h\<rparr> v (wm_insert WaitpidKey_cmp \<lparr>wk_pid = Some p, wk_pgid = Some g\<rparr> u []) in
    WaitpidKey_cmp \<lparr>wk_pid = None, wk_pgid = Some h\<rparr> \<lparr>wk_pid = Some q, wk_pgid = Some h\<rparr> = Equal \<and>
    exit_of es q = Some v \<and> wm_remove WaitpidKey_cmp \<lparr>wk_pid = None, wk_pgid = Some h\<rparr> es = (es, None)"
  using assms by (simp add: wm_insert_def wm_remove_def WaitpidKey_cmp_def nat_cmp_def)

theorem wait_map_group_witness: "wm_receive_nonblock WaitpidKey_cmp \<lparr>wk_pid = None, wk_pgid = Some 2\<rparr> two_exits = (two_exits, None)"
  using wait_map_group_missed [of 4 6 2 9 "1::nat" 0]
  by (simp add: two_exits_def wm_receive_nonblock_def wm_insert_def WaitpidKey_cmp_def nat_cmp_def Let_def)

end
