(* ===== verification/Event_Queue.thy ===== *)
theory Event_Queue
  imports Wait_Sync "HOL-Library.AList"
begin

text \<open>
  Event queues and timeouts (\<open>src/src/event.rs\<close>, \<open>src/src/context/timeout.rs\<close>).  A registry says which
  queues want to know about which events of which file; triggering an event sends it to each of them.
  The hash maps of the source are association lists in the order in which they are iterated.
\<close>

unbundle bit_operations_syntax

section \<open>State\<close>

type_synonym event_flags = usize

definition EVENT_READ :: event_flags where "EVENT_READ = 1"
definition EVENT_WRITE :: event_flags where "EVENT_WRITE = 2"

record event =
  ev_id :: nat
  ev_flags :: event_flags
  ev_data :: nat

record reg_key =
  rk_scheme :: nat
  rk_number :: nat

record queue_key =
  qk_queue :: nat
  qk_id :: nat
  qk_data :: nat

record event_world =
  ew_queues :: "(nat \<times> event list \<times> wait_condition) list"
  ew_registry :: "(reg_key \<times> (queue_key \<times> event_flags) list) list"
  ew_next_queue_id :: usize
  ew_sched :: sched

section \<open>Operations\<close>

definition next_queue_id :: "event_world \<Rightarrow> event_world \<times> nat" where
  "next_queue_id w = (w\<lparr>ew_next_queue_id := ew_next_queue_id w + 1\<rparr>, unat (ew_next_queue_id w))"

definition EventQueue_new :: "nat \<Rightarrow> event_world \<Rightarrow> event_world" where
  "EventQueue_new id' w = w\<lparr>ew_queues := AList.update id' ([], []) (ew_queues w)\<rparr>"

definition register :: "reg_key \<Rightarrow> queue_key \<Rightarrow> event_flags \<Rightarrow> event_world \<Rightarrow> event_world" where
  "register rk qk flags w =
     (let entry = (case map_of (ew_registry w) rk of Some e \<Rightarrow> e | None \<Rightarrow> []) in
      w\<lparr>ew_registry := AList.update rk (if flags = 0 then AList.delete qk entry else AList.update qk flags entry) (ew_registry w)\<rparr>)"

definition unregister_file :: "nat \<Rightarrow> nat \<Rightarrow> event_world \<Rightarrow> event_world" where
  "unregister_file scheme number w =
     w\<lparr>ew_registry := AList.delete \<lparr>rk_scheme = scheme, rk_number = number\<rparr> (ew_registry w)\<rparr>"

text \<open>Sending to a queue appends the event and wakes the contexts that wait for the queue.\<close>

definition queue_send :: "nat \<Rightarrow> event \<Rightarrow> event_world \<Rightarrow> event_world" where
  "queue_send q e w =
     (case map_of (ew_queues w) q of
        None \<Rightarrow> w
      | Some (inner, cond) \<Rightarrow>
          let d = fst (wq_send e \<lparr>wd_inner = inner, wd_cond = cond, wd_sched = ew_sched w\<rparr>) in
          w\<lparr>ew_queues := AList.update q (wd_inner d, wd_cond d) (ew_queues w), ew_sched := wd_sched d\<rparr>)"

fun trigger_list :: "(queue_key \<times> event_flags) list \<Rightarrow> event_flags \<Rightarrow> event_world \<Rightarrow> event_world" where
  "trigger_list [] flags w = w"
| "trigger_list ((qk, queue_flags) # qs) flags w =
     (let common_flags = flags AND queue_flags in
      trigger_list qs flags
        (if common_flags \<noteq> 0 then queue_send (qk_queue qk) \<lparr>ev_id = qk_id qk, ev_flags = common_flags, ev_data = qk_data qk\<rparr> w else w))"

definition trigger :: "nat \<Rightarrow> nat \<Rightarrow> event_flags \<Rightarrow> event_world \<Rightarrow> event_world" where
  "trigger scheme number flags w =
     (case map_of (ew_registry w) \<lparr>rk_scheme = scheme, rk_number = number\<rparr> of
        None \<Rightarrow> w | Some queue_list \<Rightarrow> trigger_list queue_list flags w)"

text \<open>
  \<open>sync\<close> asks the scheme of the file which of the wanted events are pending right now; \<open>fevent\<close> stands
  for the schemes, and does not exist for a scheme that is gone.
\<close>

definition wanted_flags :: "reg_key \<Rightarrow> event_world \<Rightarrow> event_flags" where
  "wanted_flags rk w = (case map_of (ew_registry w) rk of None \<Rightarrow> 0 | Some ql \<Rightarrow> foldl (\<lambda>f e. f OR snd e) 0 ql)"

definition event_sync :: "(nat \<Rightarrow> (nat \<Rightarrow> event_flags \<Rightarrow> event_flags result) option) \<Rightarrow> reg_key \<Rightarrow> event_world \<Rightarrow> event_flags result" where
  "event_sync fevent rk w =
     (case fevent (rk_scheme rk) of None \<Rightarrow> Inl EBADF | Some fev \<Rightarrow> fev (rk_number rk) (wanted_flags rk w))"

text \<open>\<open>EventQueue::write\<close>: register the events; what was registered before an error stays.\<close>

fun EventQueue_write :: "(nat \<Rightarrow> (nat \<Rightarrow> event_flags \<Rightarrow> event_flags result) option) \<Rightarrow> (nat \<Rightarrow> nat \<times> nat) \<Rightarrow> file_table \<Rightarrow> nat \<Rightarrow> event list \<Rightarrow>
    event_world \<Rightarrow> event_world \<times> unit result" where
  "EventQueue_write fevent desc files q [] w = (w, Inr ())"
| "EventQueue_write fevent desc files q (e # es) w =
     (case get_file (ev_id e) files of
        None \<Rightarrow> (w, Inl EBADF)
      | Some file \<Rightarrow>
          let (scheme, number) = desc (fd_description file); rk = \<lparr>rk_scheme = scheme, rk_number = number\<rparr>;
              w = register rk \<lparr>qk_queue = q, qk_id = ev_id e, qk_data = ev_data e\<rparr> (ev_flags e) w in
          (case event_sync fevent rk w of
             Inl err \<Rightarrow> (w, Inl err)
           | Inr flags \<Rightarrow> EventQueue_write fevent desc files q es (if flags \<noteq> 0 then trigger scheme number flags w else w)))"

section \<open>Timeouts\<close>

definition CLOCK_REALTIME :: nat where "CLOCK_REALTIME = 1"
definition CLOCK_MONOTONIC :: nat where "CLOCK_MONOTONIC = 4"
definition NANOS_PER_SEC :: nat where "NANOS_PER_SEC = 1000000000"

record timeout =
  to_scheme :: nat
  to_event :: nat
  to_clock :: nat
  to_time :: nat

text \<open>
  The time specification has signed fields; the casts to \<open>u128\<close> sign-extend a negative one, and the
  arithmetic wraps.
\<close>

definition timespec_nanos :: "int \<Rightarrow> int \<Rightarrow> nat" where
  "timespec_nanos sec nsec = nat ((sec * int NANOS_PER_SEC + nsec) mod 2 ^ 128)"

definition timeout_register :: "nat \<Rightarrow> nat \<Rightarrow> nat \<Rightarrow> int \<Rightarrow> int \<Rightarrow> timeout list \<Rightarrow> timeout list" where
  "timeout_register scheme ev clock sec nsec reg =
     reg @ [\<lparr>to_scheme = scheme, to_event = ev, to_clock = clock, to_time = timespec_nanos sec nsec\<rparr>]"

definition timeout_due :: "nat \<Rightarrow> nat \<Rightarrow> timeout \<Rightarrow> bool" where
  "timeout_due mono_now real_now t =
     (if to_clock t = CLOCK_MONOTONIC then to_time t \<le> mono_now
      else if to_clock t = CLOCK_REALTIME then to_time t \<le> real_now
      else True)"

text \<open>The loop with its index: an entry that is due is removed and the next one moves to its place.\<close>

function timeout_trigger_loop :: "nat \<Rightarrow> nat \<Rightarrow> nat \<Rightarrow> timeout list \<Rightarrow> event_world \<Rightarrow> timeout list \<times> event_world" where
  "timeout_trigger_loop mono_now real_now i reg w =
     (if i < length reg then
        if timeout_due mono_now real_now (reg ! i)
        then timeout_trigger_loop mono_now real_now i (take i reg @ drop (Suc i) reg)
               (trigger (to_scheme (reg ! i)) (to_event (reg ! i)) EVENT_READ w)
        else timeout_trigger_loop mono_now real_now (Suc i) reg w
      else (reg, w))"
  by pat_completeness auto
termination by (relation "measure (\<lambda>(mono_now, real_now, i, reg, w). length reg - i)") auto

declare timeout_trigger_loop.simps [simp del]

definition timeout_trigger :: "nat \<Rightarrow> nat \<Rightarrow> timeout list \<Rightarrow> event_world \<Rightarrow> timeout list \<times> event_world" where
  "timeout_trigger mono_now real_now reg w = timeout_trigger_loop mono_now real_now 0 reg w"

section \<open>Delivery\<close>

text \<open>The contents of a queue, and the events that a registration adds to it.\<close>

definition queue_of :: "event_world \<Rightarrow> nat \<Rightarrow> event list option" where
  "queue_of w q = map_option fst (map_of (ew_queues w) q)"

definition waiters :: "event_world \<Rightarrow> nat \<Rightarrow> nat set" where
  "waiters w q = (case map_of (ew_queues w) q of None \<Rightarrow> {} | Some (_, cond) \<Rightarrow> set cond)"

definition deliveries :: "event_flags \<Rightarrow> nat \<Rightarrow> (queue_key \<times> event_flags) list \<Rightarrow> event list" where
  "deliveries flags q qs = map (\<lambda>(qk, f). \<lparr>ev_id = qk_id qk, ev_flags = flags AND f, ev_data = qk_data qk\<rparr>)
     (filter (\<lambda>(qk, f). qk_queue qk = q \<and> flags AND f \<noteq> 0) qs)"

lemma queue_send_queue:
  "queue_of (queue_send q e w) q' = (if q' = q then map_option (\<lambda>es. es @ [e]) (queue_of w q) else queue_of w q')"
  by (auto simp: queue_send_def queue_of_def wq_send_def wq_push_def wd_notify_simps update_conv' Let_def split: option.splits)

lemma queue_send_registry [simp]: "ew_registry (queue_send q e w) = ew_registry w"
  by (simp add: queue_send_def Let_def split: option.splits prod.splits)

lemma queue_send_waiters: "waiters (queue_send q e w) q' = (if q' = q then {} else waiters w q')"
  by (auto simp: queue_send_def waiters_def wq_send_def wq_push_def wd_notify_simps update_conv' Let_def split: option.splits)

lemma queue_send_blocked: "soft_blocked (ew_sched (queue_send q e w)) c \<longleftrightarrow> soft_blocked (ew_sched w) c \<and> c \<notin> waiters w q"
  by (auto simp: queue_send_def waiters_def wq_send_def wq_push_def wd_notify_simps Let_def split: option.splits)

lemma trigger_list_queue:
  "queue_of (trigger_list qs flags w) q = map_option (\<lambda>es. es @ deliveries flags q qs) (queue_of w q)"
  by (induction qs flags w rule: trigger_list.induct)
    (auto simp: deliveries_def queue_send_queue Let_def option.map_comp comp_def option.map_ident)

lemma trigger_list_waiters:
  "waiters (trigger_list qs flags w) q = (if deliveries flags q qs = [] then waiters w q else {})"
  by (induction qs flags w rule: trigger_list.induct) (auto simp: deliveries_def queue_send_waiters Let_def)

lemma trigger_list_blocked:
  "soft_blocked (ew_sched (trigger_list qs flags w)) c \<longleftrightarrow>
     soft_blocked (ew_sched w) c \<and> (\<forall>q. deliveries flags q qs \<noteq> [] \<longrightarrow> c \<notin> waiters w q)"
proof (induction qs flags w rule: trigger_list.induct)
  case (2 qk f qs flags w)
  show ?case
  proof (cases "flags AND f = 0")
    case True
    then show ?thesis using 2 by (simp add: deliveries_def)
  next
    case False
    have "deliveries flags q ((qk, f) # qs) \<noteq> [] \<longleftrightarrow> q = qk_queue qk \<or> deliveries flags q qs \<noteq> []" for q
      using False by (auto simp: deliveries_def)
    then show ?thesis using 2 False by (auto simp: queue_send_blocked queue_send_waiters Let_def split: if_splits) metis
  qed
qed (simp add: deliveries_def)

lemma timeout_trigger_loop_spec:
  "i \<le> length reg \<Longrightarrow> timeout_trigger_loop m r i reg w =
     (take i reg @ filter (\<lambda>t. \<not> timeout_due m r t) (drop i reg),
      fold (\<lambda>t. trigger (to_scheme t) (to_event t) EVENT_READ) (filter (timeout_due m r) (drop i reg)) w)"
proof (induction m r i reg w rule: timeout_trigger_loop.induct)
  case (1 m r i reg w)
  show ?case
  proof (cases "i < length reg")
    case True
    then have d: "drop i reg = reg ! i # drop (Suc i) reg" by (simp add: Cons_nth_drop_Suc)
    show ?thesis
    proof (cases "timeout_due m r (reg ! i)")
      case due: True
      have "drop i (take i reg @ drop (Suc i) reg) = drop (Suc i) reg" "take i (take i reg @ drop (Suc i) reg) = take i reg"
        using True by simp_all
      then show ?thesis using 1 True due by (subst timeout_trigger_loop.simps) (simp add: d)
    next
      case False
      then show ?thesis using 1 True by (subst timeout_trigger_loop.simps) (simp add: d take_Suc_conv_app_nth)
    qed
  qed (use 1 in \<open>simp add: timeout_trigger_loop.simps\<close>)
qed

section \<open>Results\<close>

text \<open>
  Triggering an event sends it to exactly the registrations that want it: every queue gets, in the
  order of the registry, one event per registration of that file whose flags meet the triggered ones,
  with the common flags and the data of the registration.  Exactly the contexts that wait for a queue
  that gets an event are woken.
\<close>

theorem trigger_delivers:
  assumes "map_of (ew_registry w) \<lparr>rk_scheme = scheme, rk_number = number\<rparr> = Some qs"
  shows "queue_of (trigger scheme number flags w) q = map_option (\<lambda>es. es @ deliveries flags q qs) (queue_of w q) \<and>
    (soft_blocked (ew_sched (trigger scheme number flags w)) c \<longleftrightarrow>
       soft_blocked (ew_sched w) c \<and> (\<forall>q. deliveries flags q qs \<noteq> [] \<longrightarrow> c \<notin> waiters w q))"
  using assms by (simp add: trigger_def trigger_list_queue trigger_list_blocked)

definition event_example :: event_world where
  "event_example = \<lparr>ew_queues = [(3, [], [])],
     ew_registry = [(\<lparr>rk_scheme = 1, rk_number = 2\<rparr>, [(\<lparr>qk_queue = 3, qk_id = 5, qk_data = 9\<rparr>, 3)])], ew_next_queue_id = 4,
     ew_sched = \<lparr>sc_ctx = Map.empty, sc_current = 0, sc_this_cpu = 0\<rparr>\<rparr>"

theorem trigger_witness: "queue_of (trigger 1 2 EVENT_READ event_example) 3 = Some [\<lparr>ev_id = 5, ev_flags = 1, ev_data = 9\<rparr>]"
proof -
  have r: "map_of (ew_registry event_example) \<lparr>rk_scheme = 1, rk_number = 2\<rparr> = Some [(\<lparr>qk_queue = 3, qk_id = 5, qk_data = 9\<rparr>, 3)]"
    by (simp add: event_example_def)
  show ?thesis using trigger_delivers [OF r, of EVENT_READ 3 0]
    by (simp add: event_example_def queue_of_def deliveries_def EVENT_READ_def)
qed

text \<open>
  C16: The timer fires exactly the timeouts that are due, in the order of their registration, and keeps
  the others in order; the loop always ends.
\<close>

theorem timeout_trigger_exact:
  "timeout_trigger m r reg w =
     (filter (\<lambda>t. \<not> timeout_due m r t) reg, fold (\<lambda>t. trigger (to_scheme t) (to_event t) EVENT_READ) (filter (timeout_due m r) reg) w)"
  using timeout_trigger_loop_spec [of 0 reg m r w] by (simp add: timeout_trigger_def)

end
