(* ===== verification/Pipe_Scheme.thy ===== *)
theory Pipe_Scheme
  imports Event_Queue Prog_Logic
begin

text \<open>
  Pipes (\<open>src/src/scheme/pipe.rs\<close>).  The two ends of a pipe share a queue of bytes, two flags that say
  which ends are open, and two wait conditions.  The lock of the queue makes each pass of the loops in
  \<open>kread\<close> and \<open>kwrite\<close> atomic; closing an end takes two separate steps.
\<close>

unbundle bit_operations_syntax

section \<open>State\<close>

record Pipe =
  pp_queue :: "8 word list"
  pp_read_cond :: wait_condition
  pp_write_cond :: wait_condition
  pp_reader_alive :: bool
  pp_writer_alive :: bool
  pp_has_run_dup :: bool

text \<open>
  Pipes are shared by reference: a pipe that has left the table lives on for the calls that use it.
\<close>

record pipe_world =
  pw_heap :: "usize \<Rightarrow> Pipe"
  pw_table :: "usize set"
  pw_next_id :: usize
  pw_ew :: event_world
  pw_mem :: umem

type_synonym 'a pprog = "(pipe_world, errno, 'a) prog"

definition PIPE_SCHEME_ID :: nat where "PIPE_SCHEME_ID = 4"
definition MAX_QUEUE_SIZE :: nat where "MAX_QUEUE_SIZE = 65536"
definition WRITE_NOT_READ_BIT :: usize where "WRITE_NOT_READ_BIT = push_bit 63 1"
definition TMPBUF_SIZE :: nat where "TMPBUF_SIZE = 512"

definition from_raw_id :: "usize \<Rightarrow> bool \<times> usize" where
  "from_raw_id id' = (id' AND WRITE_NOT_READ_BIT \<noteq> 0, id' AND NOT WRITE_NOT_READ_BIT)"

definition pipe :: "pipe_world \<Rightarrow> pipe_world \<times> usize \<times> usize" where
  "pipe w =
     (let id' = pw_next_id w in
      (w\<lparr>pw_next_id := id' + 1, pw_table := insert id' (pw_table w),
         pw_heap := (pw_heap w)(id' := \<lparr>pp_queue = [], pp_read_cond = [], pp_write_cond = [], pp_reader_alive = True,
           pp_writer_alive = True, pp_has_run_dup = False\<rparr>)\<rparr>,
       id', id' OR WRITE_NOT_READ_BIT))"

definition lookup_pipe :: "usize \<Rightarrow> usize pprog" where
  "lookup_pipe key = bindM (getM pw_table) (\<lambda>t. if key \<in> t then retM key else errM EBADF)"

definition upd_pipe :: "usize \<Rightarrow> (Pipe \<Rightarrow> Pipe) \<Rightarrow> pipe_world \<Rightarrow> pipe_world" where
  "upd_pipe key f w = w\<lparr>pw_heap := (pw_heap w)(key := f (pw_heap w key))\<rparr>"

definition memM :: "(umem, errno, 'a) prog \<Rightarrow> 'a pprog" where
  "memM m w = bindE (m (pw_mem w)) (\<lambda>(mem, r). Inr (w\<lparr>pw_mem := mem\<rparr>, r))"

definition triggerM :: "usize \<Rightarrow> event_flags \<Rightarrow> unit pprog" where
  "triggerM number flags = modM (\<lambda>w. w\<lparr>pw_ew := trigger PIPE_SCHEME_ID (unat number) flags (pw_ew w)\<rparr>)"

definition set_sched :: "sched \<Rightarrow> pipe_world \<Rightarrow> pipe_world" where
  "set_sched S w = w\<lparr>pw_ew := (pw_ew w)\<lparr>ew_sched := S\<rparr>\<rparr>"

definition notify_readers :: "usize \<Rightarrow> pipe_world \<Rightarrow> pipe_world" where
  "notify_readers key w =
     (case wc_notify (pp_read_cond (pw_heap w key)) (ew_sched (pw_ew w)) of
        (_, cond, S) \<Rightarrow> upd_pipe key (\<lambda>p. p\<lparr>pp_read_cond := cond\<rparr>) (set_sched S w))"

definition notify_writers :: "usize \<Rightarrow> pipe_world \<Rightarrow> pipe_world" where
  "notify_writers key w =
     (case wc_notify (pp_write_cond (pw_heap w key)) (ew_sched (pw_ew w)) of
        (_, cond, S) \<Rightarrow> upd_pipe key (\<lambda>p. p\<lparr>pp_write_cond := cond\<rparr>) (set_sched S w))"

section \<open>Reading\<close>

text \<open>
  One pass of the loop: a number of bytes, or \<open>None\<close> when the caller has to wait.  The queue is a ring
  buffer; \<open>brk\<close> is where its first slice ends.
\<close>

definition read_slices :: "nat \<Rightarrow> user_slice \<Rightarrow> 8 word list \<Rightarrow> (umem, errno, nat) prog" where
  "read_slices brk user_buf q =
     (let s1 = take brk q; s2 = drop brk q; s1_count = min (us_len user_buf) (length s1) in
      bindM (expectM (UserSlice_split_at user_buf s1_count) ''s1_count <= user_buf.len()'') (\<lambda>(s1_dst, s2_buf).
      bindM (copy_from_slice s1_dst (take s1_count s1)) (\<lambda>_.
      let s2_count = min (us_len s2_buf) (length s2) in
      bindM (expectM (UserSlice_limit s2_buf s2_count) ''s2_count <= s2_buf.len()'') (\<lambda>s2_dst.
      bindM (copy_from_slice s2_dst (take s2_count s2)) (\<lambda>_.
        retM (s1_count + s2_count))))))"

definition kread_pass :: "nat \<Rightarrow> usize \<Rightarrow> user_slice \<Rightarrow> bool \<Rightarrow> nat option pprog" where
  "kread_pass brk key user_buf nonblock =
     bindM (getM (\<lambda>w. pw_heap w key)) (\<lambda>p.
     bindM (memM (read_slices brk user_buf (pp_queue p))) (\<lambda>bytes_read.
     bindM (modM (upd_pipe key (\<lambda>p. p\<lparr>pp_queue := drop bytes_read (pp_queue p)\<rparr>))) (\<lambda>_.
     if 0 < bytes_read then
       bindM (triggerM (key OR WRITE_NOT_READ_BIT) EVENT_WRITE) (\<lambda>_.
       bindM (modM (notify_writers key)) (\<lambda>_. retM (Some bytes_read)))
     else if UserSlice_is_empty user_buf then retM (Some 0)
     else if \<not> pp_writer_alive p then retM (Some 0)
     else if nonblock then errM EAGAIN
     else retM None)))"

definition read_enter :: "(nat \<Rightarrow> bool) \<Rightarrow> usize \<Rightarrow> pipe_world \<Rightarrow> (pipe_world \<times> bool)" where
  "read_enter pending key w =
     (case wc_wait_begin pending ''PipeRead::read'' (pp_read_cond (pw_heap w key)) (ew_sched (pw_ew w)) of
        None \<Rightarrow> (w, False)
      | Some (cond, S) \<Rightarrow> (upd_pipe key (\<lambda>p. p\<lparr>pp_read_cond := cond\<rparr>) (set_sched S w), True))"

definition read_leave :: "nat \<Rightarrow> usize \<Rightarrow> pipe_world \<Rightarrow> (pipe_world \<times> bool)" where
  "read_leave c key w =
     (case wc_wait_end c (pp_read_cond (pw_heap w key)) of
        (cond, waited) \<Rightarrow> (upd_pipe key (\<lambda>p. p\<lparr>pp_read_cond := cond\<rparr>) w, waited))"

fun kread_loop :: "(nat \<Rightarrow> bool) \<Rightarrow> nat \<Rightarrow> usize \<Rightarrow> user_slice \<Rightarrow> bool \<Rightarrow> (pipe_world \<Rightarrow> pipe_world) list \<Rightarrow> nat option pprog" where
  "kread_loop pending brk key buf nonblock [] =
     bindM (kread_pass brk key buf nonblock) (\<lambda>r. case r of
        Some n \<Rightarrow> retM (Some n)
      | None \<Rightarrow> (\<lambda>w. case read_enter pending key w of (w, True) \<Rightarrow> Inr (w, Inr None) | (w, False) \<Rightarrow> Inr (w, Inl EINTR)))"
| "kread_loop pending brk key buf nonblock (others # rest) =
     bindM (kread_pass brk key buf nonblock) (\<lambda>r. case r of
        Some n \<Rightarrow> retM (Some n)
      | None \<Rightarrow> (\<lambda>w. case read_enter pending key w of
            (w', False) \<Rightarrow> Inr (w', Inl EINTR)
          | (w', True) \<Rightarrow>
              (case read_leave (sc_current (ew_sched (pw_ew w))) key (others w') of
                 (w'', False) \<Rightarrow> Inr (w'', Inl EINTR)
               | (w'', True) \<Rightarrow> kread_loop pending brk key buf nonblock rest w'')))"

definition pipe_kread :: "(nat \<Rightarrow> bool) \<Rightarrow> nat \<Rightarrow> usize \<Rightarrow> user_slice \<Rightarrow> bool \<Rightarrow> (pipe_world \<Rightarrow> pipe_world) list \<Rightarrow> nat option pprog" where
  "pipe_kread pending brk id' buf nonblock switches =
     (case from_raw_id id' of (is_write_not_read, key) \<Rightarrow>
        if is_write_not_read then errM EBADF
        else bindM (lookup_pipe key) (\<lambda>key. kread_loop pending brk key buf nonblock switches))"

section \<open>Writing\<close>

fun write_chunks :: "user_slice option list \<Rightarrow> nat \<Rightarrow> 8 word list \<Rightarrow> nat \<Rightarrow> (umem, errno, 8 word list \<times> nat) prog" where
  "write_chunks [] idx vec bytes_written = retM (vec, bytes_written)"
| "write_chunks (c # cs) idx vec bytes_written =
     bindM (expectM c ''already limited by length, must succeed'') (\<lambda>chunk.
     bindM (tryM (copy_common_bytes_to_slice chunk TMPBUF_SIZE)) (\<lambda>r. case r of
        Inr bs \<Rightarrow> write_chunks cs (Suc idx) (vec @ bs) (bytes_written + length bs)
      | Inl e \<Rightarrow> if 0 < idx then retM (vec, bytes_written) else errM e))"

definition kwrite_pass :: "usize \<Rightarrow> user_slice \<Rightarrow> bool \<Rightarrow> nat option pprog" where
  "kwrite_pass key user_buf nonblock =
     bindM (getM (\<lambda>w. pw_heap w key)) (\<lambda>p.
     if \<not> pp_reader_alive p then errM EPIPE
     else
       let bytes_left = MAX_QUEUE_SIZE - length (pp_queue p); bytes_to_write = min bytes_left (us_len user_buf) in
       bindM (expectM (UserSlice_limit user_buf bytes_to_write) ''bytes_to_write <= user_buf.len()'') (\<lambda>src_buf.
       bindM (liftE (in_variable_chunks src_buf TMPBUF_SIZE)) (\<lambda>chunks.
       bindM (memM (write_chunks chunks 0 (pp_queue p) 0)) (\<lambda>(vec, bytes_written).
       bindM (modM (upd_pipe key (\<lambda>p. p\<lparr>pp_queue := vec\<rparr>))) (\<lambda>_.
       if 0 < bytes_written then
         bindM (triggerM key EVENT_READ) (\<lambda>_. bindM (modM (notify_readers key)) (\<lambda>_. retM (Some bytes_written)))
       else if UserSlice_is_empty user_buf then retM (Some 0)
       else if nonblock then errM EAGAIN
       else retM None)))))"

definition write_enter :: "(nat \<Rightarrow> bool) \<Rightarrow> usize \<Rightarrow> pipe_world \<Rightarrow> (pipe_world \<times> bool)" where
  "write_enter pending key w =
     (case wc_wait_begin pending ''PipeWrite::write'' (pp_write_cond (pw_heap w key)) (ew_sched (pw_ew w)) of
        None \<Rightarrow> (w, False)
      | Some (cond, S) \<Rightarrow> (upd_pipe key (\<lambda>p. p\<lparr>pp_write_cond := cond\<rparr>) (set_sched S w), True))"

definition write_leave :: "nat \<Rightarrow> usize \<Rightarrow> pipe_world \<Rightarrow> (pipe_world \<times> bool)" where
  "write_leave c key w =
     (case wc_wait_end c (pp_write_cond (pw_heap w key)) of
        (cond, waited) \<Rightarrow> (upd_pipe key (\<lambda>p. p\<lparr>pp_write_cond := cond\<rparr>) w, waited))"

fun kwrite_loop :: "(nat \<Rightarrow> bool) \<Rightarrow> usize \<Rightarrow> user_slice \<Rightarrow> bool \<Rightarrow> (pipe_world \<Rightarrow> pipe_world) list \<Rightarrow> nat option pprog" where
  "kwrite_loop pending key buf nonblock [] =
     bindM (kwrite_pass key buf nonblock) (\<lambda>r. case r of
        Some n \<Rightarrow> retM (Some n)
      | None \<Rightarrow> (\<lambda>w. case write_enter pending key w of (w, True) \<Rightarrow> Inr (w, Inr None) | (w, False) \<Rightarrow> Inr (w, Inl EINTR)))"
| "kwrite_loop pending key buf nonblock (others # rest) =
     bindM (kwrite_pass key buf nonblock) (\<lambda>r. case r of
        Some n \<Rightarrow> retM (Some n)
      | None \<Rightarrow> (\<lambda>w. case write_enter pending key w of
            (w', False) \<Rightarrow> Inr (w', Inl EINTR)
          | (w', True) \<Rightarrow>
              (case write_leave (sc_current (ew_sched (pw_ew w))) key (others w') of
                 (w'', False) \<Rightarrow> Inr (w'', Inl EINTR)
               | (w'', True) \<Rightarrow> kwrite_loop pending key buf nonblock rest w'')))"

definition pipe_kwrite :: "(nat \<Rightarrow> bool) \<Rightarrow> usize \<Rightarrow> user_slice \<Rightarrow> bool \<Rightarrow> (pipe_world \<Rightarrow> pipe_world) list \<Rightarrow> nat option pprog" where
  "pipe_kwrite pending id' buf nonblock switches =
     (case from_raw_id id' of (is_write_not_read, key) \<Rightarrow>
        if \<not> is_write_not_read then errM EBADF
        else bindM (lookup_pipe key) (\<lambda>key. kwrite_loop pending key buf nonblock switches))"

section \<open>Opening, duplicating and closing\<close>

definition pipe_kopen :: "string \<Rightarrow> usize pprog" where
  "pipe_kopen path =
     (if dropWhile (\<lambda>c. c = CHR ''/'') path \<noteq> [] then errM ENOENT
      else (\<lambda>w. case pipe w of (w', read_id, _) \<Rightarrow> Inr (w', Inr read_id)))"

definition pipe_kdup :: "usize \<Rightarrow> user_slice \<Rightarrow> usize pprog" where
  "pipe_kdup old_id user_buf =
     (case from_raw_id old_id of (is_writer_not_reader, key) \<Rightarrow>
        if is_writer_not_reader then errM EBADF
        else
          bindM (memM (copy_common_bytes_to_slice user_buf 5)) (\<lambda>buf.
          if length buf < 5 \<or> buf \<noteq> map (\<lambda>c. of_nat (of_char c)) ''write'' then errM EINVAL
          else
            bindM (lookup_pipe key) (\<lambda>key.
            bindM (getM (\<lambda>w. pp_has_run_dup (pw_heap w key))) (\<lambda>had.
            bindM (modM (upd_pipe key (\<lambda>p. p\<lparr>pp_has_run_dup := True\<rparr>))) (\<lambda>_.
            if had then errM EBADF else retM (key OR WRITE_NOT_READ_BIT))))))"

text \<open>Closing first notifies the other end and then marks this end as closed.\<close>

definition close_notify :: "bool \<Rightarrow> usize \<Rightarrow> unit pprog" where
  "close_notify is_write_not_read key =
     (if is_write_not_read then bindM (triggerM key EVENT_READ) (\<lambda>_. modM (notify_readers key))
      else bindM (triggerM (key OR WRITE_NOT_READ_BIT) EVENT_WRITE) (\<lambda>_. modM (notify_writers key)))"

definition close_store :: "bool \<Rightarrow> usize \<Rightarrow> unit pprog" where
  "close_store is_write_not_read key =
     bindM (if is_write_not_read
            then bindM (modM (upd_pipe key (\<lambda>p. p\<lparr>pp_writer_alive := False\<rparr>))) (\<lambda>_. getM (\<lambda>w. \<not> pp_reader_alive (pw_heap w key)))
            else bindM (modM (upd_pipe key (\<lambda>p. p\<lparr>pp_reader_alive := False\<rparr>))) (\<lambda>_. getM (\<lambda>w. \<not> pp_writer_alive (pw_heap w key)))) (\<lambda>can_remove.
     if can_remove then modM (\<lambda>w. w\<lparr>pw_table := pw_table w - {key}\<rparr>) else retM ())"

definition pipe_close :: "usize \<Rightarrow> unit pprog" where
  "pipe_close id' =
     (case from_raw_id id' of (is_write_not_read, key) \<Rightarrow>
        bindM (lookup_pipe key) (\<lambda>key. bindM (close_notify is_write_not_read key) (\<lambda>_. close_store is_write_not_read key)))"

definition pipe_fevent :: "usize \<Rightarrow> event_flags \<Rightarrow> event_flags pprog" where
  "pipe_fevent id' flags =
     (case from_raw_id id' of (is_writer_not_reader, key) \<Rightarrow>
        bindM (lookup_pipe key) (\<lambda>key.
        bindM (getM (\<lambda>w. pw_heap w key)) (\<lambda>p.
        let wr = (if is_writer_not_reader \<and> flags AND EVENT_WRITE = EVENT_WRITE \<and>
                    (length (pp_queue p) \<le> MAX_QUEUE_SIZE \<or> \<not> pp_reader_alive p) then EVENT_WRITE else 0);
            rd = (if \<not> is_writer_not_reader \<and> flags AND EVENT_READ = EVENT_READ \<and>
                    (pp_queue p \<noteq> [] \<or> \<not> pp_writer_alive p) then EVENT_READ else 0)
        in retM (wr OR rd))))"

section \<open>What one pass does\<close>

lemma put_bytes_append: "put_bytes (b + length xs) ys (put_bytes b xs m) = put_bytes b (xs @ ys) m"
proof -
  have "(\<lambda>x. if b + length xs \<le> x \<and> x < b + length xs + length ys then ys ! (x - (b + length xs))
      else if b \<le> x \<and> x < b + length xs then xs ! (x - b) else um_byte m x) =
    (\<lambda>x. if b \<le> x \<and> x < b + length (xs @ ys) then (xs @ ys) ! (x - b) else um_byte m x)"
    by (rule ext) (auto simp: nth_append)
  then show ?thesis by (simp add: put_bytes_def cong: if_cong)
qed

lemma liftE_Inr [simp]: "liftE (Inr x) = retM x"
  by (rule ext) simp

lemma copy_from_slice_Inr:
  "copy_from_slice s bs m = Inr (m', Inr u) \<Longrightarrow> length bs = us_len s \<and> m' = put_bytes (us_base s) bs m"
  using copy_from_slice_effect [of s bs m] by (auto simp: copy_effect_def split: if_splits)

lemma copy_from_slice_total: "\<exists>m' r. copy_from_slice s bs m = Inr (m', r)"
  using copy_from_slice_effect by blast

lemma take_min_length: "take (min a (length xs)) xs = take a xs"
  by (simp add: min_def)

lemma take_two_slices:
  "take (min a (length (take brk q))) (take brk q) @ take (min (a - min a (length (take brk q))) (length (drop brk q))) (drop brk q) =
   take (min a (length q)) q"
proof -
  have "take a (take brk q @ drop brk q) = take a (take brk q) @ take (a - length (take brk q)) (drop brk q)"
    by (simp only: take_append)
  moreover have "take (min (a - min a (length (take brk q))) (length (drop brk q))) (drop brk q) = take (a - length (take brk q)) (drop brk q)"
    unfolding take_min_length by (cases "a \<le> length (take brk q)") (simp_all add: min_def)
  ultimately show ?thesis by (simp only: take_min_length append_take_drop_id)
qed

lemma read_slices_spec:
  assumes ok: "us_ok buf"
  shows "\<exists>m' r. read_slices brk buf q m = Inr (m', r) \<and>
    (\<forall>n. r = Inr n \<longrightarrow> n = min (us_len buf) (length q) \<and> m' = put_bytes (us_base buf) (take n q) m)"
proof -
  let ?k = "min (us_len buf) (length (take brk q))"
  let ?d1 = "\<lparr>us_base = us_base buf, us_len = ?k\<rparr>" and ?b2 = "\<lparr>us_base = us_base buf + ?k, us_len = us_len buf - ?k\<rparr>"
  let ?l = "min (us_len buf - ?k) (length (drop brk q))"
  let ?d2 = "\<lparr>us_base = us_base buf + ?k, us_len = ?l\<rparr>"
  have b2: "us_ok ?b2" using ok by (simp add: us_ok_def)
  have r: "read_slices brk buf q m = bindM (copy_from_slice ?d1 (take ?k (take brk q))) (\<lambda>_.
      bindM (copy_from_slice ?d2 (take ?l (drop brk q))) (\<lambda>_. retM (?k + ?l))) m"
    using ok b2 by (simp add: read_slices_def split_at_parts limit_ok expectM_def Let_def)
  obtain m1 r1 where m1: "copy_from_slice ?d1 (take ?k (take brk q)) m = Inr (m1, r1)" using copy_from_slice_total by blast
  show ?thesis
  proof (cases r1)
    case (Inl e)
    then show ?thesis using m1 r by simp
  next
    case (Inr u)
    have e1: "m1 = put_bytes (us_base buf) (take ?k (take brk q)) m" using copy_from_slice_Inr [OF m1 [unfolded Inr]] by simp
    obtain m2 r2 where m2: "copy_from_slice ?d2 (take ?l (drop brk q)) m1 = Inr (m2, r2)" using copy_from_slice_total by blast
    show ?thesis
    proof (cases r2)
      case (Inl e)
      then show ?thesis using m1 m2 r Inr by simp
    next
      case (Inr v)
      have e2: "m2 = put_bytes (us_base buf + ?k) (take ?l (drop brk q)) m1" using copy_from_slice_Inr [OF m2 [unfolded Inr]] by simp
      have n: "?k + ?l = min (us_len buf) (length q)" by (auto simp: min_def)
      have "take ?k (take brk q) @ take ?l (drop brk q) = take (min (us_len buf) (length q)) q"
        by (rule take_two_slices)
      then have fin: "m2 = put_bytes (us_base buf) (take (?k + ?l) q) m"
        using put_bytes_append [of "us_base buf" "take ?k (take brk q)" "take ?l (drop brk q)" m] e1 e2 unfolding n by simp
      have "read_slices brk buf q m = Inr (m2, Inr (?k + ?l))"
        using m1 m2 Inr \<open>r1 = Inr u\<close> by (simp only: r bindM_def bindE_def prog_run sum.case prod.case)
      moreover have "\<forall>n. Inr (?k + ?l) = Inr n \<longrightarrow> n = min (us_len buf) (length q) \<and> m2 = put_bytes (us_base buf) (take n q) m"
        using n fin by blast
      ultimately show ?thesis by blast
    qed
  qed
qed

lemma read_slices_empty: "read_slices brk buf [] m = Inr (m, Inr 0)"
  by (simp add: read_slices_def UserSlice_split_at_def UserSlice_limit_def copy_from_slice_def)

lemma upd_pipe_same [simp]: "upd_pipe key (\<lambda>p. p) w = w"
  by (simp add: upd_pipe_def)

definition trigger_pipe :: "usize \<Rightarrow> event_flags \<Rightarrow> pipe_world \<Rightarrow> pipe_world" where
  "trigger_pipe number flags w = w\<lparr>pw_ew := trigger PIPE_SCHEME_ID (unat number) flags (pw_ew w)\<rparr>"

abbreviation pq :: "usize \<Rightarrow> pipe_world \<Rightarrow> 8 word list" where
  "pq key w \<equiv> pp_queue (pw_heap w key)"

lemma kread_pass_cases:
  assumes ok: "us_ok buf"
  obtains (data) n mem where "kread_pass brk key buf nonblock w =
      Inr (notify_writers key (trigger_pipe (key OR WRITE_NOT_READ_BIT) EVENT_WRITE
        (upd_pipe key (\<lambda>p. p\<lparr>pp_queue := drop n (pq key w)\<rparr>) (w\<lparr>pw_mem := mem\<rparr>))), Inr (Some n))"
      "0 < n" "n = min (us_len buf) (length (pq key w))" "mem = put_bytes (us_base buf) (take n (pq key w)) (pw_mem w)"
  | (nothing) "kread_pass brk key buf nonblock w = Inr (w, Inr (Some 0))" "us_len buf = 0 \<or> pq key w = [] \<and> \<not> pp_writer_alive (pw_heap w key)"
  | (again) "kread_pass brk key buf nonblock w = Inr (w, Inl EAGAIN)" "pq key w = []" nonblock
  | (wait) "kread_pass brk key buf nonblock w = Inr (w, Inr None)" "pq key w = []" "us_len buf \<noteq> 0" "pp_writer_alive (pw_heap w key)" "\<not> nonblock"
  | (fault) e mem where "kread_pass brk key buf nonblock w = Inr (w\<lparr>pw_mem := mem\<rparr>, Inl e)"
proof -
  obtain m' r where r: "read_slices brk buf (pq key w) (pw_mem w) = Inr (m', r)"
    "\<forall>n. r = Inr n \<longrightarrow> n = min (us_len buf) (length (pq key w)) \<and> m' = put_bytes (us_base buf) (take n (pq key w)) (pw_mem w)"
    using read_slices_spec [OF ok] by blast
  show thesis
  proof (cases r)
    case (Inl e)
    then show thesis using r(1) fault [of m' e] by (simp add: kread_pass_def memM_def)
  next
    case (Inr n)
    then have n: "n = min (us_len buf) (length (pq key w))" "m' = put_bytes (us_base buf) (take n (pq key w)) (pw_mem w)" using r(2) by auto
    show thesis
    proof (cases "n = 0")
      case False
      then show thesis using r(1) Inr n data [of n m']
        by (simp add: kread_pass_def memM_def  triggerM_def trigger_pipe_def upd_pipe_def)
    next
      case True
      then have m: "m' = pw_mem w" using n(2) by simp
      have e: "kread_pass brk key buf nonblock w =
          (if us_len buf = 0 then Inr (w, Inr (Some 0)) else if \<not> pp_writer_alive (pw_heap w key) then Inr (w, Inr (Some 0))
           else if nonblock then Inr (w, Inl EAGAIN) else Inr (w, Inr None))"
        using r(1) Inr True m by (simp add: kread_pass_def memM_def  UserSlice_is_empty_def)
      have z: "us_len buf = 0 \<or> pq key w = []" using True n(1) by (auto simp: min_def split: if_splits)
      consider "us_len buf = 0 \<or> \<not> pp_writer_alive (pw_heap w key)" | "us_len buf \<noteq> 0" "pp_writer_alive (pw_heap w key)" nonblock
        | "us_len buf \<noteq> 0" "pp_writer_alive (pw_heap w key)" "\<not> nonblock" by blast
      then show thesis
      proof cases
        case 1
        show thesis by (rule nothing) (use 1 e z in auto)
      next
        case 2
        show thesis by (rule again) (use 2 e z in auto)
      next
        case 3
        show thesis by (rule wait) (use 3 e z in auto)
      qed
    qed
  qed
qed

text \<open>Writing copies the longest readable prefix, chunk by chunk, up to the free room.\<close>

definition ubytes :: "umem \<Rightarrow> nat \<Rightarrow> nat \<Rightarrow> 8 word list" where
  "ubytes m base n = map (\<lambda>i. um_byte m (base + i)) [0..<n]"

lemma ubytes_length [simp]: "length (ubytes m b n) = n"
  by (simp add: ubytes_def)

lemma ubytes_append: "ubytes m b (i + j) = ubytes m b i @ ubytes m (b + i) j"
  by (rule nth_equalityI) (auto simp: ubytes_def nth_append)

lemma copy_common_run:
  assumes "us_ok c"
  shows "copy_common_bytes_to_slice c n m =
    (if \<forall>i<min (us_len c) n. um_readable m (us_base c + i) then Inr (m, Inr (ubytes m (us_base c) (min (us_len c) n)))
     else Inr (m, Inl EFAULT))"
  using assms by (simp add: copy_common_bytes_to_slice_def limit_ok expectM_def copy_to_slice_def copy_from_user_spec ubytes_def del: min_less_iff_conj)

lemma chunk_sizes:
  assumes "k < (L + TMPBUF_SIZE - 1) div TMPBUF_SIZE"
  shows "k * TMPBUF_SIZE < L" "min (Suc k * TMPBUF_SIZE) L = k * TMPBUF_SIZE + min (L - k * TMPBUF_SIZE) TMPBUF_SIZE"
proof -
  have "Suc k \<le> (L + 511) div 512" using assms by (simp add: TMPBUF_SIZE_def)
  then have "Suc k * 512 \<le> L + 511" by (simp add: less_eq_div_iff_mult_less_eq)
  then show "k * TMPBUF_SIZE < L" by (simp add: TMPBUF_SIZE_def)
  then show "min (Suc k * TMPBUF_SIZE) L = k * TMPBUF_SIZE + min (L - k * TMPBUF_SIZE) TMPBUF_SIZE" by (auto simp: min_def)
qed

lemma write_chunks_run:
  assumes ok: "us_ok s" and "k \<le> (us_len s + TMPBUF_SIZE - 1) div TMPBUF_SIZE"
  shows "(\<exists>e. write_chunks (map (\<lambda>i. UserSlice_advance s (i * TMPBUF_SIZE)) [k..<(us_len s + TMPBUF_SIZE - 1) div TMPBUF_SIZE]) k
        (q @ ubytes m (us_base s) (min (k * TMPBUF_SIZE) (us_len s))) (min (k * TMPBUF_SIZE) (us_len s)) m = Inr (m, Inl e)) \<or>
    (\<exists>n\<le>us_len s. min (k * TMPBUF_SIZE) (us_len s) \<le> n \<and> (n = 0 \<longrightarrow> us_len s = 0) \<and>
      write_chunks (map (\<lambda>i. UserSlice_advance s (i * TMPBUF_SIZE)) [k..<(us_len s + TMPBUF_SIZE - 1) div TMPBUF_SIZE]) k
        (q @ ubytes m (us_base s) (min (k * TMPBUF_SIZE) (us_len s))) (min (k * TMPBUF_SIZE) (us_len s)) m =
        Inr (m, Inr (q @ ubytes m (us_base s) n, n)))"
  (is "?P k")
  using assms(2)
proof (induction k rule: inc_induct)
  case base
  let ?N = "(us_len s + TMPBUF_SIZE - 1) div TMPBUF_SIZE"
  have "us_len s \<le> ?N * TMPBUF_SIZE"
    using div_mult_mod_eq [of "us_len s + 511" 512] mod_less_divisor [of 512 "us_len s + 511"] by (simp add: TMPBUF_SIZE_def)
  then show ?case by simp
next
  case (step k)
  let ?N = "(us_len s + TMPBUF_SIZE - 1) div TMPBUF_SIZE"
  let ?c = "\<lparr>us_base = us_base s + k * TMPBUF_SIZE, us_len = us_len s - k * TMPBUF_SIZE\<rparr>"
  let ?l = "min (us_len s - k * TMPBUF_SIZE) TMPBUF_SIZE"
  note sz = chunk_sizes [OF step(2)]
  have cok: "us_ok ?c" using ok sz(1) by (simp add: us_ok_def)
  have adv: "UserSlice_advance s (k * TMPBUF_SIZE) = Some ?c" using ok sz(1) by (simp add: advance_ok)
  have wl: "[k..<?N] = k # [Suc k..<?N]" using step(2) by (rule upt_conv_Cons)
  have mk: "min (k * TMPBUF_SIZE) (us_len s) = k * TMPBUF_SIZE" using sz(1) by simp
  have l: "0 < ?l" using sz(1) by (simp add: TMPBUF_SIZE_def)
  show ?case
  proof (cases "\<forall>i<?l. um_readable m (us_base ?c + i)")
    case True
    have r: "copy_common_bytes_to_slice ?c TMPBUF_SIZE m = Inr (m, Inr (ubytes m (us_base s + k * TMPBUF_SIZE) ?l))"
      using True copy_common_run [OF cok, of TMPBUF_SIZE m] by simp
    have "write_chunks (map (\<lambda>i. UserSlice_advance s (i * TMPBUF_SIZE)) [k..<?N]) k (q @ ubytes m (us_base s) (min (k * TMPBUF_SIZE) (us_len s))) (min (k * TMPBUF_SIZE) (us_len s)) m =
      write_chunks (map (\<lambda>i. UserSlice_advance s (i * TMPBUF_SIZE)) [Suc k..<?N]) (Suc k) (q @ ubytes m (us_base s) (min (Suc k * TMPBUF_SIZE) (us_len s))) (min (Suc k * TMPBUF_SIZE) (us_len s)) m"
      unfolding wl mk sz(2) using r by (simp add: adv expectM_def tryM_def ubytes_append del: mult_Suc)
    then show ?thesis using step.IH unfolding mk sz(2) by (fastforce simp del: mult_Suc)
  next
    case False
    have r: "copy_common_bytes_to_slice ?c TMPBUF_SIZE m = Inr (m, Inl EFAULT)"
      using False copy_common_run [OF cok, of TMPBUF_SIZE m] by simp
    have "write_chunks (map (\<lambda>i. UserSlice_advance s (i * TMPBUF_SIZE)) [k..<?N]) k (q @ ubytes m (us_base s) (min (k * TMPBUF_SIZE) (us_len s))) (min (k * TMPBUF_SIZE) (us_len s)) m =
      (if 0 < k then Inr (m, Inr (q @ ubytes m (us_base s) (k * TMPBUF_SIZE), k * TMPBUF_SIZE)) else Inr (m, Inl EFAULT))"
      unfolding wl mk using r by (simp add: adv expectM_def tryM_def)
    then show ?thesis using sz(1) unfolding mk by (auto simp: TMPBUF_SIZE_def)
  qed
qed

lemma kwrite_pass_cases:
  assumes ok: "us_ok buf" and bound: "length (pq key w) \<le> MAX_QUEUE_SIZE"
  obtains (data) n where "kwrite_pass key buf nonblock w =
      Inr (notify_readers key (trigger_pipe key EVENT_READ (upd_pipe key (\<lambda>p. p\<lparr>pp_queue := pq key w @ ubytes (pw_mem w) (us_base buf) n\<rparr>) w)), Inr (Some n))"
      "0 < n" "n \<le> us_len buf" "length (pq key w) + n \<le> MAX_QUEUE_SIZE"
  | (nothing) "kwrite_pass key buf nonblock w = Inr (w, Inr (Some 0))" "us_len buf = 0"
  | (wait) "kwrite_pass key buf nonblock w = Inr (w, Inr None)" "length (pq key w) = MAX_QUEUE_SIZE" "us_len buf \<noteq> 0"
  | (error) e where "kwrite_pass key buf nonblock w = Inr (w, Inl e)"
proof (cases "pp_reader_alive (pw_heap w key)")
  case False
  show thesis by (rule error [of EPIPE]) (use False in \<open>simp add: kwrite_pass_def\<close>)
next
  case alive: True
  let ?b = "min (MAX_QUEUE_SIZE - length (pq key w)) (us_len buf)"
  let ?s = "\<lparr>us_base = us_base buf, us_len = ?b\<rparr>"
  have sok: "us_ok ?s" using ok by (auto simp: us_ok_def)
  let ?ch = "map (\<lambda>i. UserSlice_advance ?s (i * TMPBUF_SIZE)) [0..<(us_len ?s + TMPBUF_SIZE - 1) div TMPBUF_SIZE]"
  have run: "kwrite_pass key buf nonblock w = bindM (memM (write_chunks ?ch 0 (pq key w) 0)) (\<lambda>(vec, bytes_written).
       bindM (modM (upd_pipe key (\<lambda>p. p\<lparr>pp_queue := vec\<rparr>))) (\<lambda>_.
       if 0 < bytes_written then
         bindM (triggerM key EVENT_READ) (\<lambda>_. bindM (modM (notify_readers key)) (\<lambda>_. retM (Some bytes_written)))
       else if UserSlice_is_empty buf then retM (Some 0)
       else if nonblock then errM EAGAIN
       else retM None)) w"
    using ok alive by (simp add: kwrite_pass_def limit_ok expectM_def in_variable_chunks_def TMPBUF_SIZE_def Let_def)
  consider (e) e where "write_chunks ?ch 0 (pq key w) 0 (pw_mem w) = Inr (pw_mem w, Inl e)"
    | (n) n where "n \<le> ?b" "n = 0 \<longrightarrow> ?b = 0" "write_chunks ?ch 0 (pq key w) 0 (pw_mem w) = Inr (pw_mem w, Inr (pq key w @ ubytes (pw_mem w) (us_base buf) n, n))"
    using write_chunks_run [OF sok, of 0 "pq key w" "pw_mem w"] by (auto simp: ubytes_def)
  then show thesis
  proof cases
    case e
    show thesis by (rule error [of e]) (use e run in \<open>simp add: memM_def\<close>)
  next
    case n
    show thesis
    proof (cases "n = 0")
      case False
      have room: "n \<le> us_len buf" "length (pq key w) + n \<le> MAX_QUEUE_SIZE" using n(1) bound by linarith+
      show thesis by (rule data [of n, OF _ _ room]) (use n(3) run False in \<open>simp_all add: memM_def triggerM_def trigger_pipe_def\<close>)
    next
      case True
      then have r: "kwrite_pass key buf nonblock w = (if us_len buf = 0 then Inr (w, Inr (Some 0)) else if nonblock then Inr (w, Inl EAGAIN) else Inr (w, Inr None))"
        using n(3) run by (simp add: memM_def UserSlice_is_empty_def ubytes_def upd_pipe_def)
      have z: "us_len buf = 0 \<or> length (pq key w) = MAX_QUEUE_SIZE" using n(2) True bound by (auto simp: min_def split: if_splits)
      consider "us_len buf = 0" | "us_len buf \<noteq> 0" nonblock | "us_len buf \<noteq> 0" "\<not> nonblock" by blast
      then show thesis
      proof cases
        case 1
        show thesis by (rule nothing) (use 1 r in auto)
      next
        case 2
        show thesis by (rule error [of EAGAIN]) (use 2 r in auto)
      next
        case 3
        show thesis by (rule wait) (use 3 r z in auto)
      qed
    qed
  qed
qed

section \<open>Runs\<close>

text \<open>
  What the contexts that hold the ends of one pipe do, in any order: passes of the two loops, waiting and
  waking up, closing in its two steps, and anything else that leaves the queue and the two conditions of
  the pipe alone (user code, other contexts, signals, the scheduler).  The run records the bytes taken
  from the buffers of the writers and the bytes that arrived in the buffers of the readers.
\<close>

record pipe_run =
  pr_world :: pipe_world
  pr_written :: "8 word list"
  pr_read :: "8 word list"

definition same_pipe :: "usize \<Rightarrow> pipe_world \<Rightarrow> pipe_world \<Rightarrow> bool" where
  "same_pipe key w w' = (pq key w' = pq key w \<and> pp_read_cond (pw_heap w' key) = pp_read_cond (pw_heap w key) \<and>
     pp_write_cond (pw_heap w' key) = pp_write_cond (pw_heap w key))"

inductive pipe_step :: "(nat \<Rightarrow> bool) \<Rightarrow> usize \<Rightarrow> pipe_run \<Rightarrow> pipe_run \<Rightarrow> bool" for pending and key where
  written: "us_ok buf \<Longrightarrow> kwrite_pass key buf nb (pr_world r) = Inr (w, Inr (Some n)) \<Longrightarrow>
    pipe_step pending key r (r\<lparr>pr_world := w, pr_written := pr_written r @ ubytes (pw_mem (pr_world r)) (us_base buf) n\<rparr>)"
| write_error: "us_ok buf \<Longrightarrow> kwrite_pass key buf nb (pr_world r) = Inr (w, Inl e) \<Longrightarrow> pipe_step pending key r (r\<lparr>pr_world := w\<rparr>)"
| write_wait: "us_ok buf \<Longrightarrow> kwrite_pass key buf nb (pr_world r) = Inr (w, Inr None) \<Longrightarrow> write_enter pending key w = (w', b) \<Longrightarrow>
    pipe_step pending key r (r\<lparr>pr_world := w'\<rparr>)"
| write_wake: "write_leave c key (pr_world r) = (w, b) \<Longrightarrow> pipe_step pending key r (r\<lparr>pr_world := w\<rparr>)"
| read: "us_ok buf \<Longrightarrow> kread_pass brk key buf nb (pr_world r) = Inr (w, Inr (Some n)) \<Longrightarrow>
    pipe_step pending key r (r\<lparr>pr_world := w, pr_read := pr_read r @ ubytes (pw_mem w) (us_base buf) n\<rparr>)"
| read_error: "us_ok buf \<Longrightarrow> kread_pass brk key buf nb (pr_world r) = Inr (w, Inl e) \<Longrightarrow> pipe_step pending key r (r\<lparr>pr_world := w\<rparr>)"
| read_wait: "us_ok buf \<Longrightarrow> kread_pass brk key buf nb (pr_world r) = Inr (w, Inr None) \<Longrightarrow> read_enter pending key w = (w', b) \<Longrightarrow>
    pipe_step pending key r (r\<lparr>pr_world := w'\<rparr>)"
| read_wake: "read_leave c key (pr_world r) = (w, b) \<Longrightarrow> pipe_step pending key r (r\<lparr>pr_world := w\<rparr>)"
| close_first: "close_notify is_write key (pr_world r) = Inr (w, Inr ()) \<Longrightarrow> pipe_step pending key r (r\<lparr>pr_world := w\<rparr>)"
| close_second: "close_store is_write key (pr_world r) = Inr (w, Inr ()) \<Longrightarrow> pipe_step pending key r (r\<lparr>pr_world := w\<rparr>)"
| elsewhere: "same_pipe key (pr_world r) w \<Longrightarrow> pipe_step pending key r (r\<lparr>pr_world := w\<rparr>)"

definition pipe_inv :: "usize \<Rightarrow> pipe_run \<Rightarrow> bool" where
  "pipe_inv key r = (let p = pw_heap (pr_world r) key in
     pr_written r = pr_read r @ pp_queue p \<and> length (pp_queue p) \<le> MAX_QUEUE_SIZE \<and>
     (pp_read_cond p \<noteq> [] \<longrightarrow> pp_queue p = []) \<and> (pp_write_cond p \<noteq> [] \<longrightarrow> length (pp_queue p) = MAX_QUEUE_SIZE))"

lemma pipe_heap_simps [simp]:
  "pw_heap (upd_pipe key f w) key = f (pw_heap w key)" "pw_mem (upd_pipe key f w) = pw_mem w"
  "pw_heap (set_sched S w) = pw_heap w" "pw_mem (set_sched S w) = pw_mem w"
  "pw_heap (trigger_pipe n fl w) = pw_heap w" "pw_mem (trigger_pipe n fl w) = pw_mem w"
  by (simp_all add: upd_pipe_def set_sched_def trigger_pipe_def)

lemma notify_simps [simp]:
  "pw_heap (notify_readers key w) key = (pw_heap w key)\<lparr>pp_read_cond := []\<rparr>" "pw_mem (notify_readers key w) = pw_mem w"
  "pw_heap (notify_writers key w) key = (pw_heap w key)\<lparr>pp_write_cond := []\<rparr>" "pw_mem (notify_writers key w) = pw_mem w"
  by (simp_all add: notify_readers_def notify_writers_def wc_notify_def)

lemma ubytes_put_bytes: "n \<le> length bs \<Longrightarrow> ubytes (put_bytes b (take n bs) m) b n = take n bs"
  by (rule nth_equalityI) (auto simp: ubytes_def put_bytes_def)

lemma wait_end_subset: "wc_wait_end c xs = (ys, b) \<Longrightarrow> set ys \<subseteq> set xs"
  by (induction c xs arbitrary: ys b rule: wc_wait_end.induct) (auto split: if_splits prod.splits)

lemma enter_leave_effect:
  "read_enter pending key w = (w', b) \<Longrightarrow> pq key w' = pq key w \<and> pp_write_cond (pw_heap w' key) = pp_write_cond (pw_heap w key)"
  "write_enter pending key w = (w', b) \<Longrightarrow> pq key w' = pq key w \<and> pp_read_cond (pw_heap w' key) = pp_read_cond (pw_heap w key)"
  "read_leave c key w = (w', b) \<Longrightarrow> pq key w' = pq key w \<and> pp_write_cond (pw_heap w' key) = pp_write_cond (pw_heap w key) \<and>
     (pp_read_cond (pw_heap w' key) \<noteq> [] \<longrightarrow> pp_read_cond (pw_heap w key) \<noteq> [])"
  "write_leave c key w = (w', b) \<Longrightarrow> pq key w' = pq key w \<and> pp_read_cond (pw_heap w' key) = pp_read_cond (pw_heap w key) \<and>
     (pp_write_cond (pw_heap w' key) \<noteq> [] \<longrightarrow> pp_write_cond (pw_heap w key) \<noteq> [])"
  by (auto simp: read_enter_def write_enter_def read_leave_def write_leave_def split: option.splits prod.splits dest: wait_end_subset)

lemma close_effect:
  "close_notify b key w = Inr (w', Inr ()) \<Longrightarrow> pq key w' = pq key w \<and> (pp_read_cond (pw_heap w' key) \<noteq> [] \<longrightarrow> pp_read_cond (pw_heap w key) \<noteq> []) \<and>
     (pp_write_cond (pw_heap w' key) \<noteq> [] \<longrightarrow> pp_write_cond (pw_heap w key) \<noteq> [])"
  "close_store b key w = Inr (w', Inr ()) \<Longrightarrow> same_pipe key w w'"
  by (auto simp: close_notify_def close_store_def triggerM_def same_pipe_def split: if_splits)

lemma pipe_step_inv: "pipe_step pending key r r' \<Longrightarrow> pipe_inv key r \<Longrightarrow> pipe_inv key r'"
proof (induction rule: pipe_step.induct)
  case (written buf nb r w n)
  then have b: "length (pq key (pr_world r)) \<le> MAX_QUEUE_SIZE" by (simp add: pipe_inv_def Let_def)
  show ?case using written
    by (cases rule: kwrite_pass_cases [OF written(1) b, where nonblock = nb]) (auto simp: pipe_inv_def Let_def ubytes_def)
next
  case (write_error buf nb r w e)
  then have b: "length (pq key (pr_world r)) \<le> MAX_QUEUE_SIZE" by (simp add: pipe_inv_def Let_def)
  show ?case using write_error
    by (cases rule: kwrite_pass_cases [OF write_error(1) b, where nonblock = nb]) (auto simp: pipe_inv_def Let_def)
next
  case (write_wait buf nb r w w' b')
  then have b: "length (pq key (pr_world r)) \<le> MAX_QUEUE_SIZE" by (simp add: pipe_inv_def Let_def)
  show ?case using write_wait enter_leave_effect(2) [OF write_wait(3)]
    by (cases rule: kwrite_pass_cases [OF write_wait(1) b, where nonblock = nb]) (auto simp: pipe_inv_def Let_def)
next
  case (write_wake c r w b)
  then show ?case using enter_leave_effect(4) [OF write_wake(1)] by (auto simp: pipe_inv_def Let_def)
next
  case (read buf brk nb r w n)
  show ?case
  proof (cases rule: kread_pass_cases [OF read(1), where nonblock = nb and w = "pr_world r" and key = key and brk = brk,
        case_names data nothing again wait fault])
    case (data n' mem)
    then have n: "n' = n" "n \<le> length (pq key (pr_world r))" using read by auto
    then have got: "ubytes mem (us_base buf) n = take n (pq key (pr_world r))" using data(4) by (simp add: ubytes_put_bytes)
    have "w = notify_writers key (trigger_pipe (key OR WRITE_NOT_READ_BIT) EVENT_WRITE
      (upd_pipe key (\<lambda>p. p\<lparr>pp_queue := drop n (pq key (pr_world r))\<rparr>) (pr_world r\<lparr>pw_mem := mem\<rparr>)))"
      using data(1) read(2) n by simp
    then show ?thesis using read(3) data(2) n got by (auto simp: pipe_inv_def Let_def)
  qed (use read in \<open>auto simp: pipe_inv_def Let_def ubytes_def\<close>)
next
  case (read_error buf brk nb r w e)
  show ?case using read_error
    by (cases rule: kread_pass_cases [OF read_error(1), where nonblock = nb and w = "pr_world r" and key = key and brk = brk])
      (auto simp: pipe_inv_def Let_def)
next
  case (read_wait buf brk nb r w w' b)
  show ?case using read_wait enter_leave_effect(1) [OF read_wait(3)]
    by (cases rule: kread_pass_cases [OF read_wait(1), where nonblock = nb and w = "pr_world r" and key = key and brk = brk])
      (auto simp: pipe_inv_def Let_def)
next
  case (read_wake c r w b)
  then show ?case using enter_leave_effect(3) [OF read_wake(1)] by (auto simp: pipe_inv_def Let_def)
next
  case (close_first is_write r w)
  then show ?case using close_effect(1) [OF close_first(1)] by (auto simp: pipe_inv_def Let_def)
next
  case (close_second is_write r w)
  then show ?case using close_effect(2) [OF close_second(1)] by (auto simp: pipe_inv_def Let_def same_pipe_def)
next
  case (elsewhere r w)
  then show ?case by (auto simp: pipe_inv_def Let_def same_pipe_def)
qed

section \<open>Results\<close>

definition fresh_run :: "usize \<Rightarrow> pipe_run \<Rightarrow> bool" where
  "fresh_run key r = (pr_written r = [] \<and> pr_read r = [] \<and> pq key (pr_world r) = [] \<and>
     pp_read_cond (pw_heap (pr_world r) key) = [] \<and> pp_write_cond (pw_heap (pr_world r) key) = [])"

lemma pipe_run_inv: "(pipe_step pending key)\<^sup>*\<^sup>* r r' \<Longrightarrow> pipe_inv key r \<Longrightarrow> pipe_inv key r'"
  by (induction rule: rtranclp_induct) (auto intro: pipe_step_inv)

lemma fresh_run_inv: "fresh_run key r \<Longrightarrow> pipe_inv key r"
  by (simp add: fresh_run_def pipe_inv_def)

text \<open>
  C17: However the readers, the writers and everyone else are interleaved, the bytes that have arrived in
  the buffers of the readers followed by the bytes in the queue are the bytes taken from the buffers of
  the writers: none is lost, duplicated or reordered, and the queue never holds more than 65536 bytes.
  A reader is queued as waiting only while the pipe is empty, and a writer only while it is full.
\<close>

theorem pipe_fifo:
  assumes "fresh_run key r" "(pipe_step pending key)\<^sup>*\<^sup>* r r'"
  shows "pr_read r' @ pp_queue (pw_heap (pr_world r') key) = pr_written r' \<and>
    length (pp_queue (pw_heap (pr_world r') key)) \<le> 65536 \<and>
    (pp_read_cond (pw_heap (pr_world r') key) \<noteq> [] \<longrightarrow> pp_queue (pw_heap (pr_world r') key) = []) \<and>
    (pp_write_cond (pw_heap (pr_world r') key) \<noteq> [] \<longrightarrow> length (pp_queue (pw_heap (pr_world r') key)) = 65536)"
  using pipe_run_inv [OF assms(2) fresh_run_inv [OF assms(1)]] by (auto simp: pipe_inv_def Let_def MAX_QUEUE_SIZE_def)

definition pipe_example_world :: pipe_world where
  "pipe_example_world = fst (pipe \<lparr>pw_heap = \<lambda>_. \<lparr>pp_queue = [], pp_read_cond = [], pp_write_cond = [], pp_reader_alive = False,
       pp_writer_alive = False, pp_has_run_dup = False\<rparr>, pw_table = {}, pw_next_id = 1,
     pw_ew = \<lparr>ew_queues = [], ew_registry = [], ew_next_queue_id = 0, ew_sched = \<lparr>sc_ctx = [7 \<mapsto> (Context_new 7 0)\<lparr>ctx_status := Runnable\<rparr>], sc_current = 7, sc_this_cpu = 0\<rparr>\<rparr>,
     pw_mem = \<lparr>um_byte = \<lambda>a. of_nat a, um_readable = \<lambda>_. True, um_writable = \<lambda>_. True\<rparr>\<rparr>)"

definition pipe_example :: pipe_run where
  "pipe_example = \<lparr>pr_world = pipe_example_world, pr_written = [], pr_read = []\<rparr>"

lemma pipe_example_start:
  "fresh_run 1 pipe_example" "pq 1 pipe_example_world = []" "pp_reader_alive (pw_heap pipe_example_world 1)"
  "pp_writer_alive (pw_heap pipe_example_world 1)" "um_byte (pw_mem pipe_example_world) a = of_nat a"
  by (simp_all add: fresh_run_def pipe_example_def pipe_example_world_def pipe_def Let_def)

theorem pipe_fifo_witness:
  "\<exists>r'. (pipe_step (\<lambda>_. False) 1)\<^sup>*\<^sup>* pipe_example r' \<and> pr_read r' = [] \<and> pr_written r' = [100] \<and>
     pp_queue (pw_heap (pr_world r') 1) = [100]"
proof -
  let ?buf = "\<lparr>us_base = 100, us_len = 1\<rparr>"
  let ?w = "notify_readers 1 (trigger_pipe 1 EVENT_READ (upd_pipe 1 (\<lambda>p. p\<lparr>pp_queue := [100]\<rparr>) pipe_example_world))"
  have "kwrite_pass 1 ?buf False pipe_example_world = Inr (?w, Inr (Some 1))"
    by (simp add: kwrite_pass_def pipe_example_world_def pipe_def Let_def MAX_QUEUE_SIZE_def TMPBUF_SIZE_def
      UserSlice_limit_def UserSlice_advance_def UserSlice_split_at_def u_add_def USIZE_LIM_def in_variable_chunks_def expectM_def tryM_def memM_def triggerM_def
      copy_common_bytes_to_slice_def copy_to_slice_def trigger_pipe_def upd_pipe_def)
  then have s: "pipe_step (\<lambda>_. False) 1 pipe_example (pipe_example\<lparr>pr_world := ?w, pr_written := pr_written pipe_example @ ubytes (pw_mem (pr_world pipe_example)) (us_base ?buf) 1\<rparr>)"
    by (intro pipe_step.written) (simp_all add: us_ok_def pipe_example_def USER_END_OFFSET_def PML4_SIZE_def)
  have "pr_written pipe_example @ ubytes (pw_mem (pr_world pipe_example)) (us_base ?buf) 1 = [100]"
    by (simp add: pipe_example_def ubytes_def pipe_example_start(5))
  then obtain r' where r': "pipe_step (\<lambda>_. False) 1 pipe_example r'" "pr_read r' = []" "pr_written r' = [100]"
    using s by (auto simp: pipe_example_def)
  then have "(pipe_step (\<lambda>_. False) 1)\<^sup>*\<^sup>* pipe_example r'" by blast
  from pipe_fifo [OF pipe_example_start(1) this] this r'(2,3) show ?thesis by auto
qed

text \<open>
  C18: Closing the last writer wakes the readers before it marks the writer as closed.  A reader that looks
  at the empty pipe in between goes to sleep and is not woken again: when \<open>close\<close> is done, the writer is
  gone, the reader is blocked and still queued as waiting.
\<close>

theorem pipe_close_lost_wakeup:
  assumes "us_ok buf" "us_len buf \<noteq> 0" "pq key w = []" "pp_writer_alive (pw_heap w key)" "pp_reader_alive (pw_heap w key)" "key \<in> pw_table w"
    and reader: "\<not> pending (sc_current (ew_sched (pw_ew w)))" "sc_ctx (ew_sched (pw_ew w)) (sc_current (ew_sched (pw_ew w))) = Some x" "ctx_status x = Runnable"
    and quiet: "ew_registry (pw_ew w) = []" "pp_read_cond (pw_heap w key) = []"
  shows "\<exists>w1 w2 w3. close_notify True key w = Inr (w1, Inr ()) \<and>
    kread_loop pending brk key buf False [] w1 = Inr (w2, Inr None) \<and> close_store True key w2 = Inr (w3, Inr ()) \<and>
    \<not> pp_writer_alive (pw_heap w3 key) \<and> pp_read_cond (pw_heap w3 key) = [sc_current (ew_sched (pw_ew w))] \<and>
    map_option ctx_status (sc_ctx (ew_sched (pw_ew w3)) (sc_current (ew_sched (pw_ew w)))) = Some Blocked"
proof -
  let ?S = "ew_sched (pw_ew w)" let ?c = "sc_current ?S"
  let ?w1 = "notify_readers key (trigger_pipe key EVENT_READ w)"
  have w1: "close_notify True key w = Inr (?w1, Inr ())" by (simp add: close_notify_def triggerM_def trigger_pipe_def)
  have ew: "ew_sched (pw_ew ?w1) = ?S"
    using quiet by (simp add: notify_readers_def wc_notify_def trigger_pipe_def trigger_def set_sched_def upd_pipe_def)
  let ?S2 = "?S\<lparr>sc_ctx := (sc_ctx ?S)(?c \<mapsto> fst (ctx_block ''PipeRead::read'' x))\<rparr>"
  let ?w2 = "upd_pipe key (\<lambda>p. p\<lparr>pp_read_cond := [?c]\<rparr>) (set_sched ?S2 ?w1)"
  have pass: "kread_pass brk key buf False ?w1 = Inr (?w1, Inr None)"
    using assms(2-4) read_slices_empty [of brk buf "pw_mem w"] by (simp add: kread_pass_def memM_def UserSlice_is_empty_def)
  have "read_enter pending key ?w1 = (?w2, True)"
    using reader ew by (simp add: read_enter_def wc_wait_begin_def)
  then have w2: "kread_loop pending brk key buf False [] ?w1 = Inr (?w2, Inr None)" using pass by simp
  let ?w3 = "upd_pipe key (\<lambda>p. p\<lparr>pp_writer_alive := False\<rparr>) ?w2"
  have w3: "close_store True key ?w2 = Inr (?w3, Inr ())" using assms(5) by (simp add: close_store_def bindM_def)
  have "map_option ctx_status (sc_ctx (ew_sched (pw_ew ?w3)) ?c) = Some Blocked"
    using reader(3) by (simp add: upd_pipe_def set_sched_def ctx_block_def is_runnable_def)
  then show ?thesis using w1 w2 w3 by (intro exI conjI) (assumption | simp)+
qed

theorem pipe_close_lost_wakeup_witness:
  "\<exists>w1 w2 w3. close_notify True 1 pipe_example_world = Inr (w1, Inr ()) \<and>
    kread_loop (\<lambda>_. False) 0 1 \<lparr>us_base = 100, us_len = 1\<rparr> False [] w1 = Inr (w2, Inr None) \<and> close_store True 1 w2 = Inr (w3, Inr ()) \<and>
    \<not> pp_writer_alive (pw_heap w3 1) \<and> pp_read_cond (pw_heap w3 1) = [7] \<and> map_option ctx_status (sc_ctx (ew_sched (pw_ew w3)) 7) = Some Blocked"
proof -
  let ?S = "\<lparr>sc_ctx = [7 \<mapsto> (Context_new 7 0)\<lparr>ctx_status := Runnable\<rparr>], sc_current = 7, sc_this_cpu = 0\<rparr>"
  have "ew_sched (pw_ew pipe_example_world) = ?S"
    by (simp add: pipe_example_world_def pipe_def Let_def)
  then show ?thesis
    using pipe_close_lost_wakeup [where buf = "\<lparr>us_base = 100, us_len = 1\<rparr>" and key = 1 and w = pipe_example_world and pending = "\<lambda>_. False" and x = "(Context_new 7 0)\<lparr>ctx_status := Runnable\<rparr>" and brk = 0]
    by (simp add: us_ok_def USER_END_OFFSET_def PML4_SIZE_def pipe_example_world_def pipe_def Let_def)
qed

text \<open>
  A full pipe is reported as ready for writing, although a write to it has to wait: \<open>fevent\<close> compares
  with \<open>\<le>\<close>, and \<open>kwrite\<close> never lets the queue grow past the limit.
\<close>

theorem pipe_full_reported_writable:
  assumes "us_ok buf" "us_len buf \<noteq> 0" "length (pq key w) = MAX_QUEUE_SIZE" "pp_reader_alive (pw_heap w key)" "key \<in> pw_table w"
    "key AND WRITE_NOT_READ_BIT = 0"
  shows "pipe_fevent (key OR WRITE_NOT_READ_BIT) EVENT_WRITE w = Inr (w, Inr EVENT_WRITE) \<and>
    kwrite_pass key buf False w = Inr (w, Inr None) \<and> kwrite_pass key buf True w = Inr (w, Inl EAGAIN)"
proof -
  have raw: "from_raw_id (key OR WRITE_NOT_READ_BIT) = (True, key)"
  proof -
    have "(key OR WRITE_NOT_READ_BIT) AND WRITE_NOT_READ_BIT = WRITE_NOT_READ_BIT" by (simp add: bit.conj_disj_distrib2)
    moreover have "(key OR WRITE_NOT_READ_BIT) AND NOT WRITE_NOT_READ_BIT = key AND NOT WRITE_NOT_READ_BIT" by (simp add: bit.conj_disj_distrib2)
    moreover have "key AND NOT WRITE_NOT_READ_BIT = key"
      using bit.conj_disj_distrib [of key WRITE_NOT_READ_BIT "NOT WRITE_NOT_READ_BIT"] assms(6) by simp
    moreover have "WRITE_NOT_READ_BIT \<noteq> 0" by (simp add: WRITE_NOT_READ_BIT_def)
    ultimately show ?thesis by (simp add: from_raw_id_def)
  qed
  have "pipe_fevent (key OR WRITE_NOT_READ_BIT) EVENT_WRITE w = Inr (w, Inr EVENT_WRITE)"
    using assms(3,5) by (simp add: pipe_fevent_def raw lookup_pipe_def EVENT_READ_def EVENT_WRITE_def)
  moreover have "kwrite_pass key buf nb w = (if nb then Inr (w, Inl EAGAIN) else Inr (w, Inr None))" for nb
    using assms(1-4) by (simp add: kwrite_pass_def limit_ok expectM_def in_variable_chunks_def TMPBUF_SIZE_def memM_def UserSlice_is_empty_def upd_pipe_def)
  ultimately show ?thesis by simp
qed

definition full_pipe_world :: pipe_world where
  "full_pipe_world = upd_pipe 1 (\<lambda>p. p\<lparr>pp_queue := replicate MAX_QUEUE_SIZE 0\<rparr>) pipe_example_world"

theorem pipe_full_witness:
  "pipe_fevent (1 OR WRITE_NOT_READ_BIT) EVENT_WRITE full_pipe_world = Inr (full_pipe_world, Inr EVENT_WRITE) \<and>
   kwrite_pass 1 \<lparr>us_base = 100, us_len = 1\<rparr> False full_pipe_world = Inr (full_pipe_world, Inr None)"
proof -
  have h: "1 \<in> pw_table full_pipe_world" "length (pq 1 full_pipe_world) = MAX_QUEUE_SIZE" "pp_reader_alive (pw_heap full_pipe_world 1)"
    using pipe_example_start(3) by (simp_all add: full_pipe_world_def) (simp add: upd_pipe_def pipe_example_world_def pipe_def Let_def)
  have b: "(1 :: usize) AND WRITE_NOT_READ_BIT = 0" by (simp add: WRITE_NOT_READ_BIT_def)
  show ?thesis using pipe_full_reported_writable [OF _ _ h(2,3,1) b, of "\<lparr>us_base = 100, us_len = 1\<rparr>"]
    by (simp add: us_ok_def USER_END_OFFSET_def PML4_SIZE_def)
qed

end
