(* ===== verification/Scheduler.thy ===== *)
theory Scheduler
  imports Wait_Sync
begin

text \<open>
  The round robin scheduler (\<open>src/src/context/switch.rs\<close>, \<open>src/src/percpu.rs\<close>) and the address space
  a processor has loaded (\<open>Context::set_addr_space\<close> of \<open>src/src/context/context.rs\<close>).  A context is named
  by the address of its allocation, which is what orders the set of all contexts.  \<open>switch\<close> is the whole
  call; for several processors it is cut into the steps between which other processors can act: each
  look at a context, the exchange under \<open>CONTEXT_SWITCH_LOCK\<close>, the release of that lock, and the three steps
  of the hook that runs after it.  Saving and loading registers is not modelled.
\<close>

section \<open>State\<close>

text \<open>The variables of a processor.\<close>

record percpu =
  pc_current :: "nat option"
  pc_idle :: "nat option"
  pc_ticks :: nat
  pc_being_sigkilled :: bool
  pc_inside_syscall :: bool
  pc_current_addrsp :: "nat option"
  pc_new_addrsp_tmp :: "nat option"
  pc_ptrace_session :: "nat option"
  pc_ptrace_flags :: nat

text \<open>
  All contexts, the ordered set of the ones that can be scheduled, the processors, the \<open>used_by\<close> set of
  each address space, the ptrace session and breakpoint of each process, and the clock.
\<close>

record switch_world =
  sw_ctx :: "nat \<Rightarrow> kcontext"
  sw_contexts :: "nat list"
  sw_threads :: "nat \<Rightarrow> nat list"
  sw_percpu :: "nat \<Rightarrow> percpu"
  sw_used_by :: "nat \<Rightarrow> cpu_set"
  sw_sessions :: "nat \<rightharpoonup> nat \<times> nat option"
  sw_now :: nat

definition set_percpu :: "nat \<Rightarrow> (percpu \<Rightarrow> percpu) \<Rightarrow> switch_world \<Rightarrow> switch_world" where
  "set_percpu cpu f w = w\<lparr>sw_percpu := (sw_percpu w)(cpu := f (sw_percpu w cpu))\<rparr>"

definition set_ctx :: "nat \<Rightarrow> (kcontext \<Rightarrow> kcontext) \<Rightarrow> switch_world \<Rightarrow> switch_world" where
  "set_ctx c f w = w\<lparr>sw_ctx := (sw_ctx w)(c := f (sw_ctx w c))\<rparr>"

section \<open>Choosing a context\<close>

definition update_runnable :: "nat \<Rightarrow> nat \<Rightarrow> kcontext \<Rightarrow> (kcontext \<times> bool) exec" where
  "update_runnable cpu now x =
     (if ctx_running x then Inr (x, False)
      else
        bindE (CpuSet_contains (ctx_sched_affinity x) cpu) (\<lambda>allowed.
        if \<not> allowed then Inr (x, False)
        else if \<not> (case ctx_cpu_id x of None \<Rightarrow> True | Some c \<Rightarrow> c = cpu) then Inr (x, False)
        else
          let x = (if is_soft_blocked (ctx_status x)
                   then (case ctx_wake x of None \<Rightarrow> x
                         | Some wake \<Rightarrow> if wake \<le> now then fst (unblock_no_ipi (x\<lparr>ctx_wake := None\<rparr>)) else x)
                   else x)
          in Inr (x, is_runnable (ctx_status x))))"

text \<open>The contexts after the current one, then the ones before it.\<close>

definition switch_order :: "nat \<Rightarrow> nat list \<Rightarrow> nat list" where
  "switch_order prev cs = filter (\<lambda>c. prev < c) cs @ filter (\<lambda>c. c < prev) cs"

fun switch_pick :: "nat \<Rightarrow> nat \<Rightarrow> nat \<Rightarrow> bool \<Rightarrow> nat list \<Rightarrow> (nat \<Rightarrow> kcontext) \<Rightarrow> ((nat \<Rightarrow> kcontext) \<times> nat option) exec" where
  "switch_pick cpu now idle skip_idle [] ctx = Inr (ctx, None)"
| "switch_pick cpu now idle skip_idle (c # cs) ctx =
     (if c = idle \<and> skip_idle then switch_pick cpu now idle False cs ctx
      else
        bindE (update_runnable cpu now (ctx c)) (\<lambda>(x, can_switch).
        if can_switch then Inr (ctx(c := x), Some c)
        else switch_pick cpu now idle skip_idle cs (ctx(c := x))))"

section \<open>Switching\<close>

datatype switch_result = Switched | AllContextsIdle

text \<open>What \<open>switch_to\<close> leaves for the hook, and the hook that runs on the new stack.\<close>

definition switch_to :: "nat \<Rightarrow> nat \<Rightarrow> switch_world \<Rightarrow> switch_world" where
  "switch_to cpu nxt w = set_percpu cpu (\<lambda>p. p\<lparr>pc_new_addrsp_tmp := ctx_addr_space (sw_ctx w nxt)\<rparr>) w"

definition clear_used :: "nat \<Rightarrow> nat option \<Rightarrow> switch_world \<Rightarrow> switch_world exec" where
  "clear_used cpu a w = (case a of None \<Rightarrow> Inr w
     | Some s \<Rightarrow> bindE (CpuSet_atomic_clear (sw_used_by w s) cpu) (\<lambda>u. Inr (w\<lparr>sw_used_by := (sw_used_by w)(s := u)\<rparr>)))"

definition set_used :: "nat \<Rightarrow> nat option \<Rightarrow> switch_world \<Rightarrow> switch_world exec" where
  "set_used cpu a w = (case a of None \<Rightarrow> Inr w
     | Some s \<Rightarrow> bindE (CpuSet_atomic_set (sw_used_by w s) cpu) (\<lambda>u. Inr (w\<lparr>sw_used_by := (sw_used_by w)(s := u)\<rparr>)))"

definition hook_leave :: "nat \<Rightarrow> switch_world \<Rightarrow> (switch_world \<times> nat option) exec" where
  "hook_leave cpu w =
     (let cur = pc_current_addrsp (sw_percpu w cpu); nxt = pc_new_addrsp_tmp (sw_percpu w cpu);
          w = set_percpu cpu (\<lambda>p. p\<lparr>pc_new_addrsp_tmp := None\<rparr>) w in
      bindE (clear_used cpu cur w) (\<lambda>w. Inr (w, nxt)))"

definition space_store :: "nat \<Rightarrow> nat option \<Rightarrow> switch_world \<Rightarrow> switch_world" where
  "space_store cpu nxt w = set_percpu cpu (\<lambda>p. p\<lparr>pc_current_addrsp := nxt\<rparr>) w"

definition hook_enter :: "nat \<Rightarrow> switch_world \<Rightarrow> switch_world exec" where
  "hook_enter cpu w = set_used cpu (pc_current_addrsp (sw_percpu w cpu)) w"

definition switch_arch_hook :: "nat \<Rightarrow> switch_world \<Rightarrow> switch_world exec" where
  "switch_arch_hook cpu w = bindE (hook_leave cpu w) (\<lambda>(w, nxt). hook_enter cpu (space_store cpu nxt w))"

definition switch_commit :: "nat \<Rightarrow> nat \<Rightarrow> nat \<Rightarrow> switch_world \<Rightarrow> switch_world" where
  "switch_commit cpu prev nxt w =
     (let w = set_ctx prev (\<lambda>x. x\<lparr>ctx_running := False\<rparr>) w;
          w = set_ctx nxt (\<lambda>x. x\<lparr>ctx_running := True, ctx_cpu_id := Some cpu\<rparr>) w;
          w = set_percpu cpu (\<lambda>p. p\<lparr>pc_current := Some nxt\<rparr>) w;
          session = sw_sessions w (ctx_pid (sw_ctx w nxt));
          w = set_percpu cpu (\<lambda>p. p\<lparr>pc_ptrace_session := map_option fst session,
                pc_ptrace_flags := (case session of Some (_, Some fl) \<Rightarrow> fl | _ \<Rightarrow> 0)\<rparr>) w;
          w = set_ctx prev (\<lambda>x. x\<lparr>ctx_inside_syscall := pc_inside_syscall (sw_percpu w cpu)\<rparr>) w;
          w = set_percpu cpu (\<lambda>p. p\<lparr>pc_inside_syscall := ctx_inside_syscall (sw_ctx w nxt),
                pc_being_sigkilled := ctx_being_sigkilled (sw_ctx w nxt)\<rparr>) w
      in switch_to cpu nxt w)"

definition switch :: "nat \<Rightarrow> switch_world \<Rightarrow> (switch_world \<times> switch_result) exec" where
  "switch cpu w =
     (let w = set_percpu cpu (\<lambda>p. p\<lparr>pc_ticks := 0\<rparr>) w in
      bindE (expectE (pc_current (sw_percpu w cpu)) ''not inside of context'') (\<lambda>prev.
      bindE (expectE (pc_idle (sw_percpu w cpu)) ''no idle context present'') (\<lambda>idle.
      bindE (switch_pick cpu (sw_now w) idle True (switch_order prev (sw_contexts w) @ [idle]) (sw_ctx w)) (\<lambda>(ctx, found).
      let w = w\<lparr>sw_ctx := ctx\<rparr> in
      case found of
        None \<Rightarrow> Inr (w, AllContextsIdle)
      | Some nxt \<Rightarrow> bindE (switch_arch_hook cpu (switch_commit cpu prev nxt w)) (\<lambda>w. Inr (w, Switched))))))"

text \<open>The last result says whether the signal handler is called afterwards.\<close>

definition tick :: "nat \<Rightarrow> switch_world \<Rightarrow> (switch_world \<times> bool) exec" where
  "tick cpu w =
     (let new_ticks = pc_ticks (sw_percpu w cpu) + 1; w = set_percpu cpu (\<lambda>p. p\<lparr>pc_ticks := new_ticks\<rparr>) w in
      if 3 \<le> new_ticks then bindE (switch cpu w) (\<lambda>(w, _). Inr (w, True)) else Inr (w, False))"

section \<open>The address space of a context\<close>

text \<open>The same three steps, for a context that runs on this processor.\<close>

definition space_leave :: "nat \<Rightarrow> nat \<Rightarrow> switch_world \<Rightarrow> switch_world exec" where
  "space_leave cpu c w =
     (case ctx_addr_space (sw_ctx w c) of
        None \<Rightarrow> Inr w
      | Some prev \<Rightarrow>
          bindE (expectE (pc_current_addrsp (sw_percpu w cpu)) ''called Option::unwrap() on a None value'') (\<lambda>cur.
          bindE (assertE (cur = prev) ''assertion failed: Arc::ptr_eq'') (\<lambda>_. clear_used cpu (Some prev) w)))"

definition space_enter :: "nat \<Rightarrow> nat \<Rightarrow> nat option \<Rightarrow> switch_world \<Rightarrow> switch_world exec" where
  "space_enter cpu c new w = bindE (set_used cpu new w) (\<lambda>w. Inr (set_ctx c (\<lambda>x. x\<lparr>ctx_addr_space := new\<rparr>) w))"

definition set_addr_space :: "nat \<Rightarrow> nat \<Rightarrow> nat option \<Rightarrow> switch_world \<Rightarrow> (switch_world \<times> nat option) exec" where
  "set_addr_space cpu c new w =
     (let old = ctx_addr_space (sw_ctx w c) in
      if old \<noteq> None \<and> new = old then Inr (w, new)
      else if ctx_running (sw_ctx w c) \<and> ctx_cpu_id (sw_ctx w c) = Some cpu then
        bindE (space_leave cpu c w) (\<lambda>w.
        bindE (space_enter cpu c new (space_store cpu new w)) (\<lambda>w. Inr (w, old)))
      else
        bindE (assertE (\<not> ctx_running (sw_ctx w c)) ''assertion failed: !self.running'') (\<lambda>_.
        Inr (set_ctx c (\<lambda>x. x\<lparr>ctx_addr_space := new\<rparr>) w, old)))"

section \<open>New contexts\<close>

text \<open>
  The first context of a processor, which is also its idle context, and a new context for a process.
  \<open>c\<close> is the address the allocator gives to the context; the flags and \<open>space\<close> say whether the allocations of
  the kernel stack, of the context and of the address space succeed.
\<close>

definition context_init :: "nat \<Rightarrow> nat \<Rightarrow> switch_world \<Rightarrow> switch_world exec" where
  "context_init cpu c w =
     bindE (CpuSet_atomic_set CpuSet_empty cpu) (\<lambda>aff.
     Inr (set_percpu cpu (\<lambda>p. p\<lparr>pc_current := Some c, pc_idle := Some c\<rparr>)
       (w\<lparr>sw_ctx := (sw_ctx w)(c := (Context_new 0 0)\<lparr>ctx_sched_affinity := aff, ctx_status := Runnable, ctx_running := True, ctx_cpu_id := Some cpu\<rparr>),
          sw_contexts := insort c (sw_contexts w)\<rparr>)))"

definition context_spawn :: "nat \<Rightarrow> nat \<Rightarrow> nat \<Rightarrow> nat \<Rightarrow> nat \<Rightarrow> bool \<Rightarrow> bool \<Rightarrow> nat option \<Rightarrow> bool \<Rightarrow>
    switch_world \<Rightarrow> (switch_world \<times> (errno + nat)) exec" where
  "context_spawn cpu c pid files process stack_ok context_ok space userspace_allowed w =
     (if \<not> stack_ok \<or> \<not> context_ok then Inr (w, Inl ENOMEM)
      else
        let w = w\<lparr>sw_ctx := (sw_ctx w)(c := Context_new pid files), sw_contexts := insort c (sw_contexts w),
              sw_threads := (sw_threads w)(process := sw_threads w process @ [c])\<rparr> in
        case space of
          None \<Rightarrow> Inr (w, Inl ENOMEM)
        | Some a \<Rightarrow> bindE (set_addr_space cpu c (Some a) w) (\<lambda>(w, _).
            Inr (set_ctx c (\<lambda>x. x\<lparr>ctx_userspace := userspace_allowed\<rparr>) w, Inr c)))"

section \<open>The steps of several processors\<close>

text \<open>
  Where a processor stands in a switch: it looks at the contexts one by one, it has exchanged the contexts
  (the locks are still held), it has released the locks, it has left the old address space, it has noted
  the new one.  The last two are the same points of \<open>set_addr_space\<close> on the context that it runs.
\<close>

datatype phase =
    Steady
  | Searching nat nat bool "nat list"
  | Exchanged
  | Released
  | LeftSpace "nat option"
  | NotedSpace
  | ChangeLeft nat "nat option"
  | ChangeNoted nat "nat option"

record sched_run =
  sr_world :: switch_world
  sr_phase :: "nat \<Rightarrow> phase"
  sr_lock :: "nat option"

definition set_phase :: "nat \<Rightarrow> phase \<Rightarrow> switch_world \<Rightarrow> sched_run \<Rightarrow> sched_run" where
  "set_phase cpu ph w r = r\<lparr>sr_world := w, sr_phase := (sr_phase r)(cpu := ph)\<rparr>"

text \<open>A processor that does not get the lock tries again.\<close>

definition switch_begin :: "nat \<Rightarrow> sched_run \<Rightarrow> sched_run exec" where
  "switch_begin cpu r =
     (let w = set_percpu cpu (\<lambda>p. p\<lparr>pc_ticks := 0\<rparr>) (sr_world r) in
      if sr_lock r \<noteq> None then Inr (set_phase cpu Steady w r)
      else
        bindE (expectE (pc_current (sw_percpu w cpu)) ''not inside of context'') (\<lambda>prev.
        bindE (expectE (pc_idle (sw_percpu w cpu)) ''no idle context present'') (\<lambda>idle.
        Inr (set_phase cpu (Searching prev idle True (switch_order prev (sw_contexts w) @ [idle])) w (r\<lparr>sr_lock := Some cpu\<rparr>)))))"

definition tick_begin :: "nat \<Rightarrow> sched_run \<Rightarrow> sched_run exec" where
  "tick_begin cpu r =
     (let new_ticks = pc_ticks (sw_percpu (sr_world r) cpu) + 1;
          r = set_phase cpu Steady (set_percpu cpu (\<lambda>p. p\<lparr>pc_ticks := new_ticks\<rparr>) (sr_world r)) r in
      if 3 \<le> new_ticks then switch_begin cpu r else Inr r)"

definition change_begin :: "nat \<Rightarrow> nat option \<Rightarrow> sched_run \<Rightarrow> sched_run exec" where
  "change_begin cpu new r =
     (let w = sr_world r in
      bindE (expectE (pc_current (sw_percpu w cpu)) ''not inside of context'') (\<lambda>c.
      if ctx_addr_space (sw_ctx w c) \<noteq> None \<and> new = ctx_addr_space (sw_ctx w c) then Inr r
      else bindE (space_leave cpu c w) (\<lambda>w. Inr (set_phase cpu (ChangeLeft c new) w r))))"

text \<open>The next step of a processor that is inside of a switch or of \<open>set_addr_space\<close>.\<close>

definition advance :: "nat \<Rightarrow> sched_run \<Rightarrow> sched_run exec" where
  "advance cpu r =
     (let w = sr_world r in
      case sr_phase r cpu of
        Steady \<Rightarrow> Inr r
      | Searching prev idle skip_idle [] \<Rightarrow> Inr (set_phase cpu Steady w (r\<lparr>sr_lock := None\<rparr>))
      | Searching prev idle skip_idle (c # cs) \<Rightarrow>
          if c = idle \<and> skip_idle then Inr (set_phase cpu (Searching prev idle False cs) w r)
          else
            bindE (update_runnable cpu (sw_now w) (sw_ctx w c)) (\<lambda>(x, can_switch).
            let w = w\<lparr>sw_ctx := (sw_ctx w)(c := x)\<rparr> in
            Inr (if can_switch then set_phase cpu Exchanged (switch_commit cpu prev c w) r
                 else set_phase cpu (Searching prev idle skip_idle cs) w r))
      | Exchanged \<Rightarrow> Inr (set_phase cpu Released w (r\<lparr>sr_lock := None\<rparr>))
      | Released \<Rightarrow> bindE (hook_leave cpu w) (\<lambda>(w, nxt). Inr (set_phase cpu (LeftSpace nxt) w r))
      | LeftSpace nxt \<Rightarrow> Inr (set_phase cpu NotedSpace (space_store cpu nxt w) r)
      | NotedSpace \<Rightarrow> bindE (hook_enter cpu w) (\<lambda>w. Inr (set_phase cpu Steady w r))
      | ChangeLeft c new \<Rightarrow> Inr (set_phase cpu (ChangeNoted c new) (space_store cpu new w) r)
      | ChangeNoted c new \<Rightarrow> bindE (space_enter cpu c new w) (\<lambda>w. Inr (set_phase cpu Steady w r)))"

section \<open>The invariant\<close>

definition sched_inv :: "nat \<Rightarrow> switch_world \<Rightarrow> bool" where
  "sched_inv n w = (n \<le> MAX_CPU_COUNT \<and>
     (\<forall>cpu<n. pc_idle (sw_percpu w cpu) \<noteq> None \<and> (\<exists>c. pc_current (sw_percpu w cpu) = Some c \<and>
        ctx_running (sw_ctx w c) \<and> ctx_cpu_id (sw_ctx w c) = Some cpu \<and> pc_current_addrsp (sw_percpu w cpu) = ctx_addr_space (sw_ctx w c))) \<and>
     (\<forall>c. ctx_running (sw_ctx w c) \<longrightarrow> (\<exists>cpu<n. pc_current (sw_percpu w cpu) = Some c)) \<and>
     (\<forall>c. length (ctx_sched_affinity (sw_ctx w c)) = SET_WORDS) \<and>
     (\<forall>s. length (sw_used_by w s) = SET_WORDS \<and> cpu_abs (sw_used_by w s) = {cpu. cpu < n \<and> pc_current_addrsp (sw_percpu w cpu) = Some s}))"

definition users_ok :: "nat \<Rightarrow> (nat \<Rightarrow> nat option) \<Rightarrow> (nat \<Rightarrow> cpu_set) \<Rightarrow> bool" where
  "users_ok n A u = (\<forall>s. length (u s) = SET_WORDS \<and> cpu_abs (u s) = {cpu. cpu < n \<and> A cpu = Some s})"

text \<open>What the choice of a context leaves alone.\<close>

definition same_sched :: "kcontext \<Rightarrow> kcontext \<Rightarrow> bool" where
  "same_sched x y = (ctx_running y = ctx_running x \<and> ctx_cpu_id y = ctx_cpu_id x \<and> ctx_addr_space y = ctx_addr_space x \<and>
     ctx_sched_affinity y = ctx_sched_affinity x)"

lemma same_sched_refl [simp]: "same_sched x x"
  by (simp add: same_sched_def)

lemma same_sched_trans: "same_sched x y \<Longrightarrow> same_sched y z \<Longrightarrow> same_sched x z"
  by (simp add: same_sched_def)

lemma update_runnable_spec:
  assumes "length (ctx_sched_affinity x) = SET_WORDS" "cpu < MAX_CPU_COUNT"
  obtains x' can where "update_runnable cpu now x = Inr (x', can)" "same_sched x x'"
    "can \<longrightarrow> \<not> ctx_running x \<and> cpu \<in> cpu_abs (ctx_sched_affinity x) \<and> is_runnable (ctx_status x')" "\<not> can \<longrightarrow> x' = x"
proof -
  have "\<exists>x' can. update_runnable cpu now x = Inr (x', can) \<and> same_sched x x' \<and>
    (can \<longrightarrow> \<not> ctx_running x \<and> cpu \<in> cpu_abs (ctx_sched_affinity x) \<and> is_runnable (ctx_status x')) \<and> (\<not> can \<longrightarrow> x' = x)"
    using assms by (auto simp: update_runnable_def contains_abs same_sched_def unblock_no_ipi_def is_runnable_def is_soft_blocked_def
      Let_def split: option.splits)
  then show thesis using that by blast
qed

text \<open>Moving a processor from one address space to another.\<close>

lemma clear_used_spec:
  assumes "users_ok n A (sw_used_by w)" "cpu < n" "n \<le> MAX_CPU_COUNT" "A cpu = a"
  shows "\<exists>u. clear_used cpu a w = Inr (w\<lparr>sw_used_by := u\<rparr>) \<and> users_ok n (A(cpu := None)) u"
proof (cases a)
  case None
  then have "A(cpu := None) = A" using assms(4) by (simp add: fun_upd_idem)
  then show ?thesis using None assms(1) by (intro exI [of _ "sw_used_by w"]) (simp add: clear_used_def)
next
  case (Some s)
  obtain u where u: "CpuSet_atomic_clear (sw_used_by w s) cpu = Inr u" "length u = SET_WORDS" "cpu_abs u = cpu_abs (sw_used_by w s) - {cpu}"
    using atomic_clear_abs [of "sw_used_by w s" cpu] assms by (auto simp: users_ok_def)
  have "users_ok n (A(cpu := None)) ((sw_used_by w)(s := u))"
    using assms(1,4) u Some unfolding users_ok_def by auto
  then show ?thesis using u Some by (auto simp: clear_used_def)
qed

lemma set_used_spec:
  assumes "users_ok n A (sw_used_by w)" "cpu < n" "n \<le> MAX_CPU_COUNT" "A cpu = None"
  shows "\<exists>u. set_used cpu a w = Inr (w\<lparr>sw_used_by := u\<rparr>) \<and> users_ok n (A(cpu := a)) u"
proof (cases a)
  case None
  then have "A(cpu := None) = A" using assms(4) by (simp add: fun_upd_idem)
  then show ?thesis using None assms(1) by (intro exI [of _ "sw_used_by w"]) (simp add: set_used_def)
next
  case (Some s)
  obtain u where u: "CpuSet_atomic_set (sw_used_by w s) cpu = Inr u" "length u = SET_WORDS" "cpu_abs u = insert cpu (cpu_abs (sw_used_by w s))"
    using atomic_set_abs [of "sw_used_by w s" cpu] assms by (auto simp: users_ok_def)
  have "users_ok n (A(cpu := Some s)) ((sw_used_by w)(s := u))"
    using assms u unfolding users_ok_def by auto
  then show ?thesis using u Some by (auto simp: set_used_def)
qed

text \<open>The address space at which a processor is registered, and what holds at each point of a switch.\<close>

definition phase_space :: "phase \<Rightarrow> percpu \<Rightarrow> nat option" where
  "phase_space ph p = (case ph of LeftSpace _ \<Rightarrow> None | NotedSpace \<Rightarrow> None | ChangeLeft _ _ \<Rightarrow> None | ChangeNoted _ _ \<Rightarrow> None
     | _ \<Rightarrow> pc_current_addrsp p)"

definition registered :: "sched_run \<Rightarrow> nat \<Rightarrow> nat option" where
  "registered r cpu = phase_space (sr_phase r cpu) (sw_percpu (sr_world r) cpu)"

definition phase_ok :: "phase \<Rightarrow> percpu \<Rightarrow> nat \<Rightarrow> nat option \<Rightarrow> bool" where
  "phase_ok ph p c a = (case ph of
       Steady \<Rightarrow> pc_current_addrsp p = a
     | Searching prev _ _ _ \<Rightarrow> prev = c \<and> pc_current_addrsp p = a
     | Exchanged \<Rightarrow> pc_new_addrsp_tmp p = a
     | Released \<Rightarrow> pc_new_addrsp_tmp p = a
     | LeftSpace nxt \<Rightarrow> nxt = a
     | NotedSpace \<Rightarrow> pc_current_addrsp p = a
     | ChangeLeft d new \<Rightarrow> d = c
     | ChangeNoted d new \<Rightarrow> d = c \<and> pc_current_addrsp p = new)"

definition locks :: "phase \<Rightarrow> bool" where
  "locks ph = (case ph of Searching _ _ _ _ \<Rightarrow> True | Exchanged \<Rightarrow> True | _ \<Rightarrow> False)"

definition cpu_ok :: "switch_world \<Rightarrow> phase \<Rightarrow> nat \<Rightarrow> bool" where
  "cpu_ok w ph cpu = (pc_idle (sw_percpu w cpu) \<noteq> None \<and> (\<exists>c. pc_current (sw_percpu w cpu) = Some c \<and>
     ctx_running (sw_ctx w c) \<and> ctx_cpu_id (sw_ctx w c) = Some cpu \<and> phase_ok ph (sw_percpu w cpu) c (ctx_addr_space (sw_ctx w c))))"

definition run_inv :: "nat \<Rightarrow> sched_run \<Rightarrow> bool" where
  "run_inv n r = (n \<le> MAX_CPU_COUNT \<and> (\<forall>cpu<n. cpu_ok (sr_world r) (sr_phase r cpu) cpu) \<and>
     (\<forall>c. ctx_running (sw_ctx (sr_world r) c) \<longrightarrow> (\<exists>cpu<n. pc_current (sw_percpu (sr_world r) cpu) = Some c)) \<and>
     (\<forall>c. length (ctx_sched_affinity (sw_ctx (sr_world r) c)) = SET_WORDS) \<and>
     users_ok n (registered r) (sw_used_by (sr_world r)) \<and>
     (\<forall>cpu<n. locks (sr_phase r cpu) \<longleftrightarrow> sr_lock r = Some cpu) \<and> (\<forall>cpu. sr_lock r = Some cpu \<longrightarrow> cpu < n))"

lemmas phase_simps [simp] = phase_space_def [of Steady, simplified] phase_space_def [of "Searching p i k cs" for p i k cs, simplified]
  phase_space_def [of Exchanged, simplified] phase_space_def [of Released, simplified] phase_space_def [of "LeftSpace a" for a, simplified]
  phase_space_def [of NotedSpace, simplified] phase_space_def [of "ChangeLeft c a" for c a, simplified] phase_space_def [of "ChangeNoted c a" for c a, simplified]
  phase_ok_def [of Steady, simplified] phase_ok_def [of "Searching p i k cs" for p i k cs, simplified]
  phase_ok_def [of Exchanged, simplified] phase_ok_def [of Released, simplified] phase_ok_def [of "LeftSpace a" for a, simplified]
  phase_ok_def [of NotedSpace, simplified] phase_ok_def [of "ChangeLeft c a" for c a, simplified] phase_ok_def [of "ChangeNoted c a" for c a, simplified]
  locks_def [of Steady, simplified] locks_def [of "Searching p i k cs" for p i k cs, simplified] locks_def [of Exchanged, simplified]
  locks_def [of Released, simplified] locks_def [of "LeftSpace a" for a, simplified] locks_def [of NotedSpace, simplified]
  locks_def [of "ChangeLeft c a" for c a, simplified] locks_def [of "ChangeNoted c a" for c a, simplified]

text \<open>A world whose processors are all outside of a switch.\<close>

definition steady_run :: "switch_world \<Rightarrow> sched_run" where
  "steady_run w = \<lparr>sr_world = w, sr_phase = \<lambda>_. Steady, sr_lock = None\<rparr>"

lemma steady_inv: "run_inv n (steady_run w) = sched_inv n w"
  by (simp add: run_inv_def sched_inv_def steady_run_def cpu_ok_def registered_def users_ok_def)

lemma run_inv_current:
  assumes "run_inv n r" "cpu < n"
  obtains c where "pc_current (sw_percpu (sr_world r) cpu) = Some c" "ctx_running (sw_ctx (sr_world r) c)" "ctx_cpu_id (sw_ctx (sr_world r) c) = Some cpu"
    "phase_ok (sr_phase r cpu) (sw_percpu (sr_world r) cpu) c (ctx_addr_space (sw_ctx (sr_world r) c))" "pc_idle (sw_percpu (sr_world r) cpu) \<noteq> None"
  using assms by (auto simp: run_inv_def cpu_ok_def)

lemma run_inv_phase:
  "run_inv n r \<Longrightarrow> cpu < n \<Longrightarrow> pc_current (sw_percpu (sr_world r) cpu) = Some c \<Longrightarrow>
    phase_ok (sr_phase r cpu) (sw_percpu (sr_world r) cpu) c (ctx_addr_space (sw_ctx (sr_world r) c))"
  using run_inv_current [of n r cpu] by (metis option.inject)

lemma run_inv_parts:
  assumes "run_inv n r"
  shows "n \<le> MAX_CPU_COUNT" "users_ok n (registered r) (sw_used_by (sr_world r))" "length (ctx_sched_affinity (sw_ctx (sr_world r) c)) = SET_WORDS"
    "cpu < n \<Longrightarrow> locks (sr_phase r cpu) \<longleftrightarrow> sr_lock r = Some cpu"
  using assms by (simp_all add: run_inv_def)

text \<open>A step of one processor that keeps its context and touches no other one.\<close>

lemma run_inv_local:
  assumes inv: "run_inv n r" and cpu: "cpu < n"
    and r: "sr_phase r' = (sr_phase r)(cpu := ph)" "sw_percpu (sr_world r') = (sw_percpu (sr_world r))(cpu := p)"
    and p: "pc_current p = pc_current (sw_percpu (sr_world r) cpu)" "pc_idle p = pc_idle (sw_percpu (sr_world r) cpu)"
    and x: "\<And>c. ctx_running (sw_ctx (sr_world r') c) = ctx_running (sw_ctx (sr_world r) c) \<and> ctx_cpu_id (sw_ctx (sr_world r') c) = ctx_cpu_id (sw_ctx (sr_world r) c) \<and>
      ctx_sched_affinity (sw_ctx (sr_world r') c) = ctx_sched_affinity (sw_ctx (sr_world r) c)"
      "\<And>c. pc_current p \<noteq> Some c \<Longrightarrow> ctx_addr_space (sw_ctx (sr_world r') c) = ctx_addr_space (sw_ctx (sr_world r) c)"
    and ok: "\<And>c. pc_current p = Some c \<Longrightarrow> phase_ok ph p c (ctx_addr_space (sw_ctx (sr_world r') c))"
    and u: "users_ok n ((registered r)(cpu := phase_space ph p)) (sw_used_by (sr_world r'))"
    and l: "sr_lock r' = (if locks ph then Some cpu else if locks (sr_phase r cpu) then None else sr_lock r)" "locks ph \<Longrightarrow> sr_lock r = None \<or> sr_lock r = Some cpu"
  shows "run_inv n r'"
proof -
  have "cpu_ok (sr_world r') (sr_phase r' d) d" if d: "d < n" for d
  proof -
    obtain c where c: "pc_current (sw_percpu (sr_world r) d) = Some c" "ctx_running (sw_ctx (sr_world r) c)" "ctx_cpu_id (sw_ctx (sr_world r) c) = Some d"
      "phase_ok (sr_phase r d) (sw_percpu (sr_world r) d) c (ctx_addr_space (sw_ctx (sr_world r) c))" "pc_idle (sw_percpu (sr_world r) d) \<noteq> None"
      by (rule run_inv_current [OF inv d])
    show ?thesis
    proof (cases "d = cpu")
      case True
      then show ?thesis using c ok p x(1) by (auto simp: cpu_ok_def r)
    next
      case False
      have "pc_current p \<noteq> Some c" using run_inv_current [OF inv cpu] c(3) p(1) False by (metis option.inject)
      then show ?thesis using c x False by (auto simp: cpu_ok_def r)
    qed
  qed
  moreover have "\<exists>d<n. pc_current (sw_percpu (sr_world r') d) = Some c" if c: "ctx_running (sw_ctx (sr_world r') c)" for c
  proof -
    obtain d where "d < n" "pc_current (sw_percpu (sr_world r) d) = Some c" using inv c x(1) unfolding run_inv_def by metis
    moreover from this(2) have "pc_current (sw_percpu (sr_world r') d) = Some c" using p(1) by (cases "d = cpu") (simp_all add: r)
    ultimately show ?thesis by blast
  qed
  moreover have "registered r' = (registered r)(cpu := phase_space ph p)" by (rule ext) (simp add: registered_def r)
  moreover have "locks (sr_phase r' d) \<longleftrightarrow> sr_lock r' = Some d" if "d < n" for d
    using run_inv_parts(4) [OF inv that] run_inv_parts(4) [OF inv cpu] l by (auto simp: r)
  moreover have "sr_lock r' = Some d \<Longrightarrow> d < n" for d using inv l(1) cpu by (auto simp: run_inv_def split: if_splits)
  ultimately show ?thesis using run_inv_parts(1,3) [OF inv] u x(1) by (auto simp: run_inv_def)
qed

text \<open>Changes of contexts that no scheduler owns, and of the address space of a context that does not run.\<close>

lemma run_inv_ctx:
  assumes inv: "run_inv n r"
    and x: "\<And>c. ctx_running (ctx' c) = ctx_running (sw_ctx (sr_world r) c) \<and> (ctx_running (sw_ctx (sr_world r) c) \<longrightarrow>
      ctx_cpu_id (ctx' c) = ctx_cpu_id (sw_ctx (sr_world r) c) \<and> ctx_addr_space (ctx' c) = ctx_addr_space (sw_ctx (sr_world r) c)) \<and>
      length (ctx_sched_affinity (ctx' c)) = SET_WORDS"
    and r: "sr_phase r' = sr_phase r" "sr_lock r' = sr_lock r" "sw_ctx (sr_world r') = ctx'" "sw_percpu (sr_world r') = sw_percpu (sr_world r)"
      "sw_used_by (sr_world r') = sw_used_by (sr_world r)"
  shows "run_inv n r'"
proof -
  have "registered r' = registered r" by (rule ext) (simp add: registered_def r)
  moreover have "cpu_ok (sr_world r') (sr_phase r' d) d" if "d < n" for d
    using run_inv_current [OF inv that] x by (fastforce simp: cpu_ok_def r)
  ultimately show ?thesis using inv x by (auto simp: run_inv_def r)
qed

section \<open>Every step keeps the invariant\<close>

lemma update_step_inv:
  assumes "run_inv n r" "same_sched (sw_ctx (sr_world r) c) x"
  shows "run_inv n (r\<lparr>sr_world := (sr_world r)\<lparr>sw_ctx := (sw_ctx (sr_world r))(c := x)\<rparr>\<rparr>)"
  by (rule run_inv_ctx [OF assms(1), of "(sw_ctx (sr_world r))(c := x)"]) (use assms in \<open>auto simp: same_sched_def run_inv_def\<close>)

lemma commit_eq:
  assumes "nxt \<noteq> prev"
  shows "switch_commit cpu prev nxt w =
    w\<lparr>sw_ctx := ((sw_ctx w)(prev := (sw_ctx w prev)\<lparr>ctx_running := False, ctx_inside_syscall := pc_inside_syscall (sw_percpu w cpu)\<rparr>))
        (nxt := (sw_ctx w nxt)\<lparr>ctx_running := True, ctx_cpu_id := Some cpu\<rparr>),
      sw_percpu := (sw_percpu w)(cpu := (sw_percpu w cpu)\<lparr>pc_current := Some nxt, pc_ptrace_session := map_option fst (sw_sessions w (ctx_pid (sw_ctx w nxt))),
        pc_ptrace_flags := (case sw_sessions w (ctx_pid (sw_ctx w nxt)) of Some (_, Some fl) \<Rightarrow> fl | _ \<Rightarrow> 0),
        pc_inside_syscall := ctx_inside_syscall (sw_ctx w nxt), pc_being_sigkilled := ctx_being_sigkilled (sw_ctx w nxt),
        pc_new_addrsp_tmp := ctx_addr_space (sw_ctx w nxt)\<rparr>)\<rparr>"
  using assms by (simp add: switch_commit_def switch_to_def set_ctx_def set_percpu_def Let_def fun_upd_twist)

lemma exchange_inv:
  assumes inv: "run_inv n r" and cpu: "cpu < n" and ph: "sr_phase r cpu = Searching prev idle skip cs" and nxt: "\<not> ctx_running (sw_ctx (sr_world r) nxt)"
  shows "run_inv n (set_phase cpu Exchanged (switch_commit cpu prev nxt (sr_world r)) r)"
proof -
  let ?w = "sr_world r" let ?r = "set_phase cpu Exchanged (switch_commit cpu prev nxt ?w) r"
  have prev: "pc_current (sw_percpu ?w cpu) = Some prev" "ctx_running (sw_ctx ?w prev)" "ctx_cpu_id (sw_ctx ?w prev) = Some cpu" "pc_idle (sw_percpu ?w cpu) \<noteq> None"
    using run_inv_current [OF inv cpu] ph by (metis phase_simps(10))+
  then have ne: "nxt \<noteq> prev" using nxt by auto
  note e = commit_eq [OF ne, of cpu ?w]
  have "cpu_ok (sr_world ?r) (sr_phase ?r d) d" if d: "d < n" for d
  proof (cases "d = cpu")
    case True
    then show ?thesis using prev(4) by (simp add: cpu_ok_def set_phase_def e)
  next
    case False
    obtain c where c: "pc_current (sw_percpu ?w d) = Some c" "ctx_running (sw_ctx ?w c)" "ctx_cpu_id (sw_ctx ?w c) = Some d"
      "phase_ok (sr_phase r d) (sw_percpu ?w d) c (ctx_addr_space (sw_ctx ?w c))" "pc_idle (sw_percpu ?w d) \<noteq> None"
      by (rule run_inv_current [OF inv d])
    moreover have "c \<noteq> nxt" "c \<noteq> prev" using nxt c(2,3) prev(3) False by auto
    ultimately show ?thesis using False by (simp add: cpu_ok_def set_phase_def e)
  qed
  moreover have "\<exists>d<n. pc_current (sw_percpu (sr_world ?r) d) = Some c" if c: "ctx_running (sw_ctx (sr_world ?r) c)" for c
  proof (cases "c = nxt")
    case True
    then show ?thesis using cpu by (auto simp: set_phase_def e)
  next
    case False
    then have "ctx_running (sw_ctx ?w c)" "c \<noteq> prev" using c by (auto simp: set_phase_def e split: if_splits)
    then obtain d where "d < n" "pc_current (sw_percpu ?w d) = Some c" using inv unfolding run_inv_def by blast
    moreover have "d \<noteq> cpu" using calculation(2) prev(1) \<open>c \<noteq> prev\<close> by auto
    ultimately show ?thesis by (auto simp: set_phase_def e)
  qed
  moreover have "registered ?r = registered r" by (rule ext) (simp add: registered_def set_phase_def e ph)
  moreover have "locks (sr_phase ?r d) = locks (sr_phase r d)" for d by (simp add: set_phase_def ph)
  ultimately show ?thesis using inv by (auto simp: run_inv_def set_phase_def e)
qed

lemma search_step:
  assumes inv: "run_inv n r" and cpu: "cpu < n" and ph: "sr_phase r cpu = Searching prev idle skip cs"
  shows "\<exists>r'. advance cpu r = Inr r' \<and> run_inv n r'"
proof -
  let ?w = "sr_world r"
  have keep: "run_inv n (set_phase cpu (Searching prev idle k ds) (sr_world q) q)"
    if "run_inv n q" "sr_phase q cpu = Searching prev idle skip cs" for q k ds
    by (rule run_inv_local [OF that(1) cpu, of _ "Searching prev idle k ds" "sw_percpu (sr_world q) cpu"])
      (use that run_inv_parts(2) [OF that(1)] run_inv_parts(4) [OF that(1) cpu] cpu run_inv_phase [OF that(1) cpu] in \<open>auto simp: set_phase_def fun_upd_idem registered_def\<close>)
  show ?thesis
  proof (cases cs)
    case Nil
    have "run_inv n (set_phase cpu Steady ?w (r\<lparr>sr_lock := None\<rparr>))"
      by (rule run_inv_local [OF inv cpu, of _ Steady "sw_percpu ?w cpu"])
        (use inv ph run_inv_parts(2,4) [OF inv] cpu run_inv_phase [OF inv cpu] in \<open>auto simp: set_phase_def fun_upd_idem registered_def\<close>)
    then show ?thesis using Nil ph by (simp add: advance_def Let_def)
  next
    case (Cons c ds)
    show ?thesis
    proof (cases "c = idle \<and> skip")
      case True
      then show ?thesis using Cons ph keep [OF inv ph] by (simp add: advance_def Let_def)
    next
      case False
      obtain x can where u: "update_runnable cpu (sw_now ?w) (sw_ctx ?w c) = Inr (x, can)" "same_sched (sw_ctx ?w c) x" "can \<longrightarrow> \<not> ctx_running (sw_ctx ?w c)"
        using update_runnable_spec [OF run_inv_parts(3) [OF inv], of cpu "sw_now ?w" c] cpu run_inv_parts(1) [OF inv]
        by (metis order_less_le_trans)
      let ?q = "r\<lparr>sr_world := ?w\<lparr>sw_ctx := (sw_ctx ?w)(c := x)\<rparr>\<rparr>"
      have q: "run_inv n ?q" by (rule update_step_inv [OF inv u(2)])
      have "advance cpu r = Inr (if can then set_phase cpu Exchanged (switch_commit cpu prev c (sr_world ?q)) ?q
          else set_phase cpu (Searching prev idle skip ds) (sr_world ?q) ?q)"
        using False u(1) Cons ph by (auto simp: advance_def Let_def set_phase_def)
      moreover have "run_inv n (set_phase cpu Exchanged (switch_commit cpu prev c (sr_world ?q)) ?q)" if can
        using exchange_inv [OF q cpu, of prev idle skip cs c] u(2,3) that ph by (simp add: same_sched_def)
      ultimately show ?thesis using keep [OF q] ph by auto
    qed
  qed
qed

text \<open>Steps that leave or enter an address space.\<close>

lemma leave_inv:
  assumes inv: "run_inv n r" and cpu: "cpu < n" and reg: "registered r cpu = a" and v: "sw_percpu v = (sw_percpu (sr_world r))(cpu := p)"
    and p: "pc_current p = pc_current (sw_percpu (sr_world r) cpu)" "pc_idle p = pc_idle (sw_percpu (sr_world r) cpu)"
    and x: "sw_ctx v = sw_ctx (sr_world r)" "sw_used_by v = sw_used_by (sr_world r)"
    and ok: "\<And>c. pc_current p = Some c \<Longrightarrow> phase_ok ph p c (ctx_addr_space (sw_ctx (sr_world r) c))" and ph: "phase_space ph p = None" "\<not> locks ph" "\<not> locks (sr_phase r cpu)"
  shows "\<exists>w. clear_used cpu a v = Inr w \<and> run_inv n (set_phase cpu ph w r)"
proof -
  obtain u where u: "clear_used cpu a v = Inr (v\<lparr>sw_used_by := u\<rparr>)" "users_ok n ((registered r)(cpu := None)) u"
    using clear_used_spec [of n "registered r" v cpu a] run_inv_parts(1,2) [OF inv] cpu reg x(2) by auto
  have "run_inv n (set_phase cpu ph (v\<lparr>sw_used_by := u\<rparr>) r)"
    by (rule run_inv_local [OF inv cpu, of _ ph p]) (use p x ok u(2) ph v in \<open>auto simp: set_phase_def\<close>)
  then show ?thesis using u(1) by blast
qed

lemma note_inv:
  assumes inv: "run_inv n r" and cpu: "cpu < n" and reg: "registered r cpu = None" and l: "\<not> locks (sr_phase r cpu)" "\<not> locks ph"
    and ph: "\<And>p. phase_space ph p = None" "\<And>c p. phase_ok (sr_phase r cpu) p c (ctx_addr_space (sw_ctx (sr_world r) c)) \<Longrightarrow>
      phase_ok ph (p\<lparr>pc_current_addrsp := a\<rparr>) c (ctx_addr_space (sw_ctx (sr_world r) c))"
  shows "run_inv n (set_phase cpu ph (space_store cpu a (sr_world r)) r)"
proof -
  have "users_ok n ((registered r)(cpu := None)) (sw_used_by (sr_world r))" using run_inv_parts(2) [OF inv] reg by (simp add: fun_upd_idem)
  then show ?thesis
    by (intro run_inv_local [OF inv cpu, of _ ph "(sw_percpu (sr_world r) cpu)\<lparr>pc_current_addrsp := a\<rparr>"])
      (use run_inv_phase [OF inv cpu] l ph in \<open>auto simp: set_phase_def space_store_def set_percpu_def\<close>)
qed

lemma enter_inv:
  assumes inv: "run_inv n r" and cpu: "cpu < n" and reg: "registered r cpu = None" and l: "\<not> locks (sr_phase r cpu)"
    and a: "pc_current_addrsp (sw_percpu (sr_world r) cpu) = a"
    and x: "ctx' = sw_ctx (sr_world r) \<or> (\<exists>c. pc_current (sw_percpu (sr_world r) cpu) = Some c \<and> ctx' = (sw_ctx (sr_world r))(c := (sw_ctx (sr_world r) c)\<lparr>ctx_addr_space := a\<rparr>))"
      "\<And>c. pc_current (sw_percpu (sr_world r) cpu) = Some c \<Longrightarrow> ctx_addr_space (ctx' c) = a"
  shows "\<exists>w. set_used cpu a (sr_world r) = Inr w \<and> sw_ctx w = sw_ctx (sr_world r) \<and> run_inv n (set_phase cpu Steady (w\<lparr>sw_ctx := ctx'\<rparr>) r)"
proof -
  obtain u where u: "set_used cpu a (sr_world r) = Inr ((sr_world r)\<lparr>sw_used_by := u\<rparr>)" "users_ok n ((registered r)(cpu := a)) u"
    using set_used_spec [of n "registered r" "sr_world r" cpu a] run_inv_parts(1,2) [OF inv] cpu reg by auto
  have "run_inv n (set_phase cpu Steady ((sr_world r)\<lparr>sw_used_by := u, sw_ctx := ctx'\<rparr>) r)"
    by (rule run_inv_local [OF inv cpu, of _ Steady "sw_percpu (sr_world r) cpu"])
      (use a x u(2) l in \<open>auto simp: set_phase_def fun_upd_idem split: if_splits\<close>)
  then show ?thesis using u(1) by auto
qed

lemma advance_spec:
  assumes inv: "run_inv n r" and cpu: "cpu < n"
  shows "\<exists>r'. advance cpu r = Inr r' \<and> run_inv n r'"
proof -
  let ?w = "sr_world r" let ?p = "sw_percpu ?w cpu"
  obtain c where c: "pc_current ?p = Some c" "phase_ok (sr_phase r cpu) ?p c (ctx_addr_space (sw_ctx ?w c))"
    using run_inv_current [OF inv cpu] by metis
  show ?thesis
  proof (cases "sr_phase r cpu")
    case Steady
    then show ?thesis using inv by (simp add: advance_def Let_def)
  next
    case (Searching prev idle skip cs)
    then show ?thesis by (rule search_step [OF inv cpu])
  next
    case Exchanged
    have "run_inv n (set_phase cpu Released ?w (r\<lparr>sr_lock := None\<rparr>))"
      by (rule run_inv_local [OF inv cpu, of _ Released ?p])
        (use Exchanged c run_inv_parts(2) [OF inv] in \<open>auto simp: set_phase_def fun_upd_idem registered_def\<close>)
    then show ?thesis using Exchanged by (simp add: advance_def Let_def)
  next
    case Released
    let ?v = "set_percpu cpu (\<lambda>p. p\<lparr>pc_new_addrsp_tmp := None\<rparr>) ?w"
    have "\<exists>w. clear_used cpu (pc_current_addrsp ?p) ?v = Inr w \<and> run_inv n (set_phase cpu (LeftSpace (pc_new_addrsp_tmp ?p)) w r)"
      by (rule leave_inv [OF inv cpu, of _ _ "?p\<lparr>pc_new_addrsp_tmp := None\<rparr>"]) (use Released c in \<open>auto simp: registered_def set_percpu_def\<close>)
    then show ?thesis using Released by (auto simp: advance_def hook_leave_def Let_def)
  next
    case (LeftSpace nxt)
    have "run_inv n (set_phase cpu NotedSpace (space_store cpu nxt ?w) r)"
      by (rule note_inv [OF inv cpu]) (use LeftSpace in \<open>auto simp: registered_def\<close>)
    then show ?thesis using LeftSpace by (simp add: advance_def Let_def)
  next
    case NotedSpace
    have "\<exists>w. set_used cpu (pc_current_addrsp ?p) ?w = Inr w \<and> sw_ctx w = sw_ctx ?w \<and> run_inv n (set_phase cpu Steady (w\<lparr>sw_ctx := sw_ctx ?w\<rparr>) r)"
      by (rule enter_inv [OF inv cpu]) (use NotedSpace c in \<open>auto simp: registered_def\<close>)
    then obtain w where w: "set_used cpu (pc_current_addrsp ?p) ?w = Inr w" "sw_ctx w = sw_ctx ?w" "run_inv n (set_phase cpu Steady (w\<lparr>sw_ctx := sw_ctx ?w\<rparr>) r)" by blast
    have e: "w\<lparr>sw_ctx := sw_ctx ?w\<rparr> = w" using w(2) by simp
    show ?thesis using NotedSpace w(1) w(3) [unfolded e] by (simp add: advance_def hook_enter_def Let_def)
  next
    case (ChangeLeft d new)
    have "run_inv n (set_phase cpu (ChangeNoted d new) (space_store cpu new ?w) r)"
      by (rule note_inv [OF inv cpu]) (use ChangeLeft in \<open>auto simp: registered_def\<close>)
    then show ?thesis using ChangeLeft by (simp add: advance_def Let_def)
  next
    case (ChangeNoted d new)
    let ?ctx = "(sw_ctx ?w)(d := (sw_ctx ?w d)\<lparr>ctx_addr_space := new\<rparr>)"
    have "\<exists>w. set_used cpu new ?w = Inr w \<and> sw_ctx w = sw_ctx ?w \<and> run_inv n (set_phase cpu Steady (w\<lparr>sw_ctx := ?ctx\<rparr>) r)"
      by (rule enter_inv [OF inv cpu]) (use ChangeNoted c in \<open>auto simp: registered_def\<close>)
    then show ?thesis using ChangeNoted by (auto simp: advance_def space_enter_def set_ctx_def Let_def)
  qed
qed

text \<open>Beginning a switch, a tick and a change of address space.\<close>

lemma own_percpu_inv:
  assumes inv: "run_inv n r" and cpu: "cpu < n" and ph: "sr_phase r cpu = Steady"
  shows "run_inv n (set_phase cpu Steady (set_percpu cpu (\<lambda>p. p\<lparr>pc_ticks := k\<rparr>) (sr_world r)) r)"
  by (rule run_inv_local [OF inv cpu, of _ Steady "(sw_percpu (sr_world r) cpu)\<lparr>pc_ticks := k\<rparr>"])
    (use ph run_inv_phase [OF inv cpu] run_inv_parts(2) [OF inv] in \<open>auto simp: set_phase_def set_percpu_def fun_upd_idem registered_def\<close>)

lemma switch_begin_spec:
  assumes inv: "run_inv n r" and cpu: "cpu < n" and ph: "sr_phase r cpu = Steady"
  shows "\<exists>r'. switch_begin cpu r = Inr r' \<and> run_inv n r'"
proof (cases "sr_lock r")
  case None
  let ?w = "set_percpu cpu (\<lambda>p. p\<lparr>pc_ticks := 0\<rparr>) (sr_world r)"
  obtain c idle where c: "pc_current (sw_percpu (sr_world r) cpu) = Some c" "pc_idle (sw_percpu (sr_world r) cpu) = Some idle"
    "pc_current_addrsp (sw_percpu (sr_world r) cpu) = ctx_addr_space (sw_ctx (sr_world r) c)"
    using run_inv_current [OF inv cpu] ph by (metis not_None_eq phase_simps(9))
  let ?ph = "Searching c idle True (switch_order c (sw_contexts ?w) @ [idle])"
  have "run_inv n (set_phase cpu ?ph ?w (r\<lparr>sr_lock := Some cpu\<rparr>))"
    by (rule run_inv_local [OF inv cpu, of _ ?ph "(sw_percpu (sr_world r) cpu)\<lparr>pc_ticks := 0\<rparr>"])
      (use ph c None run_inv_parts(2) [OF inv] in \<open>auto simp: set_phase_def set_percpu_def fun_upd_idem registered_def\<close>)
  then show ?thesis using c None by (simp add: switch_begin_def Let_def set_percpu_def)
next
  case (Some d)
  then show ?thesis using own_percpu_inv [OF assms] by (simp add: switch_begin_def Let_def)
qed

lemma tick_begin_spec:
  assumes "run_inv n r" "cpu < n" "sr_phase r cpu = Steady"
  shows "\<exists>r'. tick_begin cpu r = Inr r' \<and> run_inv n r'"
proof -
  let ?r = "set_phase cpu Steady (set_percpu cpu (\<lambda>p. p\<lparr>pc_ticks := pc_ticks (sw_percpu (sr_world r) cpu) + 1\<rparr>) (sr_world r)) r"
  have r: "run_inv n ?r" "sr_phase ?r cpu = Steady" using own_percpu_inv [OF assms] by (simp_all add: set_phase_def)
  show ?thesis using r(1) switch_begin_spec [OF r(1) assms(2) r(2)] by (simp add: tick_begin_def Let_def)
qed

lemma change_begin_spec:
  assumes inv: "run_inv n r" and cpu: "cpu < n" and ph: "sr_phase r cpu = Steady"
  shows "\<exists>r'. change_begin cpu new r = Inr r' \<and> run_inv n r'"
proof -
  let ?w = "sr_world r" let ?p = "sw_percpu ?w cpu"
  obtain c where c: "pc_current ?p = Some c" "pc_current_addrsp ?p = ctx_addr_space (sw_ctx ?w c)"
    using run_inv_current [OF inv cpu] ph by (metis phase_simps(9))
  have "\<exists>w. clear_used cpu (ctx_addr_space (sw_ctx ?w c)) ?w = Inr w \<and> run_inv n (set_phase cpu (ChangeLeft c new) w r)"
    by (rule leave_inv [OF inv cpu, of _ _ ?p]) (use ph c in \<open>auto simp: registered_def\<close>)
  then have "\<exists>w. space_leave cpu c ?w = Inr w \<and> run_inv n (set_phase cpu (ChangeLeft c new) w r)"
    using c(2) by (cases "ctx_addr_space (sw_ctx ?w c)") (auto simp: space_leave_def clear_used_def)
  then show ?thesis using c inv by (auto simp: change_begin_def Let_def)
qed

text \<open>Code that works on contexts that do not run.\<close>

lemma set_idle_space:
  assumes "\<not> ctx_running (sw_ctx w c)"
  shows "\<exists>old. set_addr_space cpu c new w = Inr (set_ctx c (\<lambda>x. x\<lparr>ctx_addr_space := new\<rparr>) w, old)"
  using assms by (auto simp: set_addr_space_def set_ctx_def Let_def)

lemma set_space_inv:
  assumes inv: "run_inv n r" and c: "\<not> ctx_running (sw_ctx (sr_world r) c)"
  shows "run_inv n (r\<lparr>sr_world := set_ctx c (\<lambda>x. x\<lparr>ctx_addr_space := new\<rparr>) (sr_world r)\<rparr>)"
  by (rule run_inv_ctx [OF inv, of "(sw_ctx (sr_world r))(c := (sw_ctx (sr_world r) c)\<lparr>ctx_addr_space := new\<rparr>)"])
    (use c inv in \<open>auto simp: set_ctx_def run_inv_def\<close>)

lemma spawn_inv:
  assumes inv: "run_inv n r" and c: "\<not> ctx_running (sw_ctx (sr_world r) c)"
  shows "\<exists>w' res. context_spawn cpu c pid files process stack_ok context_ok space user (sr_world r) = Inr (w', res) \<and> run_inv n (r\<lparr>sr_world := w'\<rparr>)"
proof -
  let ?w = "sr_world r"
  let ?v = "\<lambda>a u. ?w\<lparr>sw_ctx := (sw_ctx ?w)(c := (Context_new pid files)\<lparr>ctx_addr_space := a, ctx_userspace := u\<rparr>), sw_contexts := insort c (sw_contexts ?w),
    sw_threads := (sw_threads ?w)(process := sw_threads ?w process @ [c])\<rparr>"
  have v: "run_inv n (r\<lparr>sr_world := ?v a u\<rparr>)" for a u
    by (rule run_inv_ctx [OF inv, of "(sw_ctx ?w)(c := (Context_new pid files)\<lparr>ctx_addr_space := a, ctx_userspace := u\<rparr>)"])
      (use c inv in \<open>auto simp: run_inv_def Context_new_def CpuSet_all_def\<close>)
  have "\<exists>a u res. context_spawn cpu c pid files process stack_ok context_ok space user ?w = Inr (?v a u, res)"
    if ok: "stack_ok" "context_ok"
  proof (cases space)
    case None
    then show ?thesis using ok by (intro exI [of _ None] exI [of _ False]) (simp add: context_spawn_def Context_new_def)
  next
    case (Some a)
    then show ?thesis using ok
      by (intro exI [of _ "Some a"] exI [of _ user]) (simp add: context_spawn_def set_addr_space_def set_ctx_def Context_new_def)
  qed
  note spawned = this
  show ?thesis
  proof (cases "stack_ok \<and> context_ok")
    case True
    then obtain a u res where "context_spawn cpu c pid files process stack_ok context_ok space user ?w = Inr (?v a u, res)" using spawned by blast
    then show ?thesis using v by blast
  next
    case False
    then show ?thesis using inv by (intro exI [of _ ?w] exI [of _ "Inl ENOMEM"]) (auto simp: context_spawn_def)
  qed
qed

text \<open>Bringing up the next processor.\<close>

lemma context_init_spec:
  assumes inv: "sched_inv n w" and n: "n < MAX_CPU_COUNT" and c: "\<not> ctx_running (sw_ctx w c)" and new: "pc_current_addrsp (sw_percpu w n) = None"
  shows "\<exists>w'. context_init n c w = Inr w' \<and> sched_inv (Suc n) w'"
proof -
  obtain aff where aff: "CpuSet_atomic_set CpuSet_empty n = Inr aff" "length aff = SET_WORDS"
    using atomic_set_abs [of CpuSet_empty n] n by (auto simp: CpuSet_empty_def)
  let ?x = "(Context_new 0 0)\<lparr>ctx_sched_affinity := aff, ctx_status := Runnable, ctx_running := True, ctx_cpu_id := Some n\<rparr>"
  let ?w = "set_percpu n (\<lambda>p. p\<lparr>pc_current := Some c, pc_idle := Some c\<rparr>)
    (w\<lparr>sw_ctx := (sw_ctx w)(c := ?x), sw_contexts := insort c (sw_contexts w)\<rparr>)"
  note i = inv [unfolded sched_inv_def]
  have "length (sw_used_by ?w s) = SET_WORDS \<and> cpu_abs (sw_used_by ?w s) = {cpu. cpu < Suc n \<and> pc_current_addrsp (sw_percpu ?w cpu) = Some s}" for s
    using i new by (auto simp: set_percpu_def less_Suc_eq)
  moreover have "pc_idle (sw_percpu ?w d) \<noteq> None \<and> (\<exists>e. pc_current (sw_percpu ?w d) = Some e \<and> ctx_running (sw_ctx ?w e) \<and>
      ctx_cpu_id (sw_ctx ?w e) = Some d \<and> pc_current_addrsp (sw_percpu ?w d) = ctx_addr_space (sw_ctx ?w e))" if "d < Suc n" for d
  proof (cases "d = n")
    case True
    then show ?thesis using new by (simp add: set_percpu_def Context_new_def)
  next
    case False
    then obtain e where e: "pc_current (sw_percpu w d) = Some e" "ctx_running (sw_ctx w e)" "ctx_cpu_id (sw_ctx w e) = Some d"
      "pc_current_addrsp (sw_percpu w d) = ctx_addr_space (sw_ctx w e)" "pc_idle (sw_percpu w d) \<noteq> None"
      using i \<open>d < Suc n\<close> by (auto simp: less_Suc_eq)
    then have "e \<noteq> c" using c by auto
    then show ?thesis using e False by (simp add: set_percpu_def)
  qed
  moreover have "\<exists>d<Suc n. pc_current (sw_percpu ?w d) = Some e" if "ctx_running (sw_ctx ?w e)" for e
  proof (cases "e = c")
    case False
    then have "ctx_running (sw_ctx w e)" using that by (simp add: set_percpu_def)
    then obtain d where "d < n" "pc_current (sw_percpu w d) = Some e" using i by blast
    then show ?thesis by (intro exI [of _ d]) (simp add: set_percpu_def)
  qed (auto simp: set_percpu_def)
  moreover have "length (ctx_sched_affinity (sw_ctx ?w e)) = SET_WORDS" for e using i aff(2) by (simp add: set_percpu_def)
  ultimately have "sched_inv (Suc n) ?w" using n unfolding sched_inv_def by simp
  then show ?thesis using aff(1) by (simp add: context_init_def)
qed

section \<open>Runs of several processors\<close>

text \<open>
  Between any two steps of a processor the others may act.  A processor outside of a switch begins one,
  counts a tick, or changes the address space of its own context; one inside goes on.  Any code may change
  the address space of a context that does not run, and everything of a context that the scheduler does not
  own (its status, its wake-up time, signals); new contexts appear, and time passes.
\<close>

inductive sched_step :: "nat \<Rightarrow> sched_run \<Rightarrow> sched_run \<Rightarrow> bool" for n where
  do_switch: "cpu < n \<Longrightarrow> sr_phase r cpu = Steady \<Longrightarrow> switch_begin cpu r = Inr r' \<Longrightarrow> sched_step n r r'"
| do_tick: "cpu < n \<Longrightarrow> sr_phase r cpu = Steady \<Longrightarrow> tick_begin cpu r = Inr r' \<Longrightarrow> sched_step n r r'"
| do_change: "cpu < n \<Longrightarrow> sr_phase r cpu = Steady \<Longrightarrow> change_begin cpu new r = Inr r' \<Longrightarrow> sched_step n r r'"
| do_advance: "cpu < n \<Longrightarrow> advance cpu r = Inr r' \<Longrightarrow> sched_step n r r'"
| do_set_space: "\<not> ctx_running (sw_ctx (sr_world r) c) \<Longrightarrow> set_addr_space cpu c new (sr_world r) = Inr (w, old) \<Longrightarrow> sched_step n r (r\<lparr>sr_world := w\<rparr>)"
| do_other: "same_sched (sw_ctx (sr_world r) c) x \<Longrightarrow>
    sched_step n r (r\<lparr>sr_world := (sr_world r)\<lparr>sw_ctx := (sw_ctx (sr_world r))(c := x)\<rparr>\<rparr>)"
| do_affinity: "length aff = SET_WORDS \<Longrightarrow> sched_step n r (r\<lparr>sr_world := set_ctx c (\<lambda>x. x\<lparr>ctx_sched_affinity := aff\<rparr>) (sr_world r)\<rparr>)"
| do_spawn: "\<not> ctx_running (sw_ctx (sr_world r) c) \<Longrightarrow> context_spawn cpu c pid files process stack_ok context_ok space user (sr_world r) = Inr (w, res) \<Longrightarrow>
    sched_step n r (r\<lparr>sr_world := w\<rparr>)"
| do_time: "sw_now (sr_world r) \<le> t \<Longrightarrow> sched_step n r (r\<lparr>sr_world := (sr_world r)\<lparr>sw_now := t\<rparr>\<rparr>)"

lemma sched_step_inv: "sched_step n r r' \<Longrightarrow> run_inv n r \<Longrightarrow> run_inv n r'"
proof (induction rule: sched_step.induct)
  case (do_switch cpu r r')
  then show ?case using switch_begin_spec [of n r cpu] by auto
next
  case (do_tick cpu r r')
  then show ?case using tick_begin_spec [of n r cpu] by auto
next
  case (do_change cpu r new r')
  then show ?case using change_begin_spec [of n r cpu new] by auto
next
  case (do_advance cpu r r')
  then show ?case using advance_spec [of n r cpu] by auto
next
  case (do_set_space r c cpu new w old)
  then show ?case using set_idle_space [of "sr_world r" c cpu new] set_space_inv [of n r c new] by auto
next
  case (do_other r c x)
  then show ?case by (intro update_step_inv)
next
  case (do_affinity aff r c)
  then show ?case
    by (intro run_inv_ctx [OF do_affinity(2), of "(sw_ctx (sr_world r))(c := (sw_ctx (sr_world r) c)\<lparr>ctx_sched_affinity := aff\<rparr>)"])
      (use run_inv_parts(3) [OF do_affinity(2)] in \<open>simp_all add: set_ctx_def\<close>)
next
  case (do_spawn r c cpu pid files process stack_ok context_ok space user w res)
  then show ?case using spawn_inv [of n r c cpu pid files process stack_ok context_ok space user] by auto
next
  case (do_time r t)
  then show ?case by (intro run_inv_ctx [OF do_time(2), of "sw_ctx (sr_world r)"]) (use run_inv_parts(3) [OF do_time(2)] in simp_all)
qed

lemma sched_run_inv: "(sched_step n)\<^sup>*\<^sup>* r r' \<Longrightarrow> run_inv n r \<Longrightarrow> run_inv n r'"
  by (induction rule: rtranclp_induct) (auto intro: sched_step_inv)

text \<open>Undisturbed, the steps of a processor are \<open>switch\<close>.\<close>

definition goes :: "nat \<Rightarrow> sched_run \<Rightarrow> sched_run \<Rightarrow> bool" where
  "goes cpu = (\<lambda>r r'. advance cpu r = Inr r')\<^sup>*\<^sup>*"

lemma goes_step: "advance cpu r = Inr r' \<Longrightarrow> goes cpu r' r'' \<Longrightarrow> goes cpu r r''"
  unfolding goes_def by (rule converse_rtranclp_into_rtranclp)

lemma goes_refl: "goes cpu r r" by (simp add: goes_def)

lemma goes_search:
  assumes "switch_pick cpu (sw_now w) idle skip cs (sw_ctx w) = Inr (ctx, f)"
  shows "goes cpu \<lparr>sr_world = w, sr_phase = P(cpu := Searching prev idle skip cs), sr_lock = Some cpu\<rparr>
    (case f of None \<Rightarrow> \<lparr>sr_world = w\<lparr>sw_ctx := ctx\<rparr>, sr_phase = P(cpu := Steady), sr_lock = None\<rparr>
     | Some nxt \<Rightarrow> \<lparr>sr_world = switch_commit cpu prev nxt (w\<lparr>sw_ctx := ctx\<rparr>), sr_phase = P(cpu := Exchanged), sr_lock = Some cpu\<rparr>)"
  using assms
proof (induction cs arbitrary: skip w)
  case Nil
  then show ?case by (intro goes_step [OF _ goes_refl]) (auto simp: advance_def set_phase_def Let_def fun_eq_iff)
next
  case (Cons c cs)
  show ?case
  proof (cases "c = idle \<and> skip")
    case True
    then show ?thesis using Cons.prems by (intro goes_step [OF _ Cons.IH]) (auto simp: advance_def set_phase_def Let_def)
  next
    case False
    then obtain x can where u: "update_runnable cpu (sw_now w) (sw_ctx w c) = Inr (x, can)"
      using Cons.prems by (cases "update_runnable cpu (sw_now w) (sw_ctx w c)") auto
    show ?thesis
    proof (cases can)
      case True
      then show ?thesis using u False Cons.prems
        by (intro goes_step [OF _ goes_refl]) (auto simp: advance_def set_phase_def Let_def, simp_all add: fun_eq_iff)
    next
      case can: False
      have "switch_pick cpu (sw_now (w\<lparr>sw_ctx := (sw_ctx w)(c := x)\<rparr>)) idle skip cs (sw_ctx (w\<lparr>sw_ctx := (sw_ctx w)(c := x)\<rparr>)) = Inr (ctx, f)"
        using u False can Cons.prems by auto
      note ih = Cons.IH [OF this]
      have "w\<lparr>sw_ctx := (sw_ctx w)(c := x), sw_ctx := ctx\<rparr> = w\<lparr>sw_ctx := ctx\<rparr>" by simp
      note ih = ih [unfolded this]
      show ?thesis by (rule goes_step [OF _ ih]) (use u False can in \<open>auto simp: advance_def set_phase_def Let_def\<close>)
    qed
  qed
qed

lemma switch_steps:
  assumes "switch cpu w = Inr (w', res)"
  shows "\<exists>r. switch_begin cpu \<lparr>sr_world = w, sr_phase = P(cpu := Steady), sr_lock = None\<rparr> = Inr r \<and>
    goes cpu r \<lparr>sr_world = w', sr_phase = P(cpu := Steady), sr_lock = None\<rparr>"
proof -
  let ?w = "set_percpu cpu (\<lambda>p. p\<lparr>pc_ticks := 0\<rparr>) w"
  obtain prev idle where p: "pc_current (sw_percpu w cpu) = Some prev" "pc_idle (sw_percpu w cpu) = Some idle"
    using assms by (cases "pc_current (sw_percpu w cpu)"; cases "pc_idle (sw_percpu w cpu)") (auto simp: switch_def set_percpu_def Let_def)
  obtain ctx f where k: "switch_pick cpu (sw_now ?w) idle True (switch_order prev (sw_contexts ?w) @ [idle]) (sw_ctx ?w) = Inr (ctx, f)"
    using assms p by (cases "switch_pick cpu (sw_now ?w) idle True (switch_order prev (sw_contexts ?w) @ [idle]) (sw_ctx ?w)")
      (auto simp: switch_def set_percpu_def Let_def)
  note g = goes_search [OF k, of P prev]
  have b: "switch_begin cpu \<lparr>sr_world = w, sr_phase = P(cpu := Steady), sr_lock = None\<rparr> =
    Inr \<lparr>sr_world = ?w, sr_phase = P(cpu := Searching prev idle True (switch_order prev (sw_contexts ?w) @ [idle])), sr_lock = Some cpu\<rparr>"
    using p by (simp add: switch_begin_def set_phase_def set_percpu_def Let_def)
  show ?thesis
  proof (cases f)
    case None
    then have "w' = ?w\<lparr>sw_ctx := ctx\<rparr>" using assms p k by (simp add: switch_def Let_def set_percpu_def)
    then show ?thesis using b g None by auto
  next
    case (Some nxt)
    let ?x = "switch_commit cpu prev nxt (?w\<lparr>sw_ctx := ctx\<rparr>)"
    have "switch_arch_hook cpu ?x = Inr w'"
      using assms p k Some by (auto simp: switch_def Let_def bindE_def set_percpu_def split: sum.splits)
    then obtain y a where h: "hook_leave cpu ?x = Inr (y, a)" "hook_enter cpu (space_store cpu a y) = Inr w'"
      by (cases "hook_leave cpu ?x") (auto simp: switch_arch_hook_def)
    have "goes cpu \<lparr>sr_world = ?x, sr_phase = P(cpu := Exchanged), sr_lock = Some cpu\<rparr> \<lparr>sr_world = w', sr_phase = P(cpu := Steady), sr_lock = None\<rparr>"
      by (rule goes_step, simp add: advance_def set_phase_def Let_def, rule goes_step, simp add: advance_def set_phase_def h(1) Let_def,
          rule goes_step, simp add: advance_def set_phase_def Let_def, rule goes_step, simp add: advance_def set_phase_def h(2) Let_def, rule goes_refl)
    then show ?thesis using b g Some by (auto simp: goes_def intro: rtranclp_trans)
  qed
qed

section \<open>Fairness\<close>

text \<open>The contexts that the search starting behind \<open>prev\<close> looks at before \<open>c\<close>.\<close>

definition ahead :: "nat list \<Rightarrow> nat \<Rightarrow> nat \<Rightarrow> nat set" where
  "ahead cs prev c = {x \<in> set cs. if prev < c then prev < x \<and> x < c else prev < x \<or> x < c}"

lemma ahead_closer:
  assumes "x \<in> ahead cs prev c" "prev \<noteq> c"
  shows "card (ahead cs x c) < card (ahead cs prev c)"
proof (rule psubset_card_mono)
  show "finite (ahead cs prev c)" by (simp add: ahead_def)
  show "ahead cs x c \<subset> ahead cs prev c" using assms by (auto simp: ahead_def split: if_splits)
qed

lemma switch_order_split:
  assumes "sorted_wrt (<) cs" "c \<in> set cs" "c \<noteq> prev"
  shows "\<exists>xs ys. switch_order prev cs = xs @ c # ys \<and> set xs = ahead cs prev c - {prev}"
proof -
  obtain as bs where cs: "cs = as @ c # bs" using split_list [OF assms(2)] by blast
  have as: "\<forall>x\<in>set as. x < c" and bs: "\<forall>x\<in>set bs. c < x" using assms(1) by (auto simp: cs sorted_wrt_append)
  show ?thesis
  proof (cases "prev < c")
    case True
    then show ?thesis using as bs
      by (intro exI [of _ "filter (\<lambda>x. prev < x) as"] exI [of _ "filter (\<lambda>x. prev < x) bs @ filter (\<lambda>x. x < prev) cs"])
        (auto simp: switch_order_def cs ahead_def)
  next
    case False
    then have "filter (\<lambda>x. prev < x) as = []" using as by (auto simp: filter_empty_conv)
    then show ?thesis using as bs False assms(3)
      by (intro exI [of _ "filter (\<lambda>x. prev < x) cs @ filter (\<lambda>x. x < prev) as"] exI [of _ "filter (\<lambda>x. x < prev) bs"])
        (auto simp: switch_order_def cs ahead_def)
  qed
qed

lemma switch_pick_stops:
  assumes "switch_pick cpu now idle skip (xs @ c # ys) ctx = Inr (ctx', r)" "c \<noteq> idle" "c \<notin> set xs" "update_runnable cpu now (ctx c) = Inr (x, True)"
  shows "\<exists>nxt. r = Some nxt \<and> nxt \<in> insert c (set xs)"
  using assms
proof (induction xs arbitrary: skip ctx)
  case (Cons d xs)
  show ?case
  proof (cases "d = idle \<and> skip")
    case True
    then show ?thesis using Cons.IH [of False ctx] Cons.prems by auto
  next
    case False
    obtain y can where y: "update_runnable cpu now (ctx d) = Inr (y, can)"
      using Cons.prems(1) False by (cases "update_runnable cpu now (ctx d)") auto
    show ?thesis
    proof (cases can)
      case True
      then show ?thesis using y False Cons.prems(1) by auto
    next
      case can: False
      have "switch_pick cpu now idle skip (xs @ c # ys) (ctx(d := y)) = Inr (ctx', r)"
        using Cons.prems(1) y False can by (cases "d = idle") auto
      then have "\<exists>nxt. r = Some nxt \<and> nxt \<in> insert c (set xs)"
        by (rule Cons.IH) (use Cons.prems in auto)
      then show ?thesis by auto
    qed
  qed
qed auto

definition ready :: "nat \<Rightarrow> nat \<Rightarrow> switch_world \<Rightarrow> bool" where
  "ready cpu c w = (\<exists>x. update_runnable cpu (sw_now w) (sw_ctx w c) = Inr (x, True))"

lemma set_percpu_simps [simp]:
  "sw_ctx (set_percpu cpu f w) = sw_ctx w" "sw_contexts (set_percpu cpu f w) = sw_contexts w" "sw_now (set_percpu cpu f w) = sw_now w"
  "sw_percpu (set_percpu cpu f w) cpu = f (sw_percpu w cpu)"
  by (simp_all add: set_percpu_def)

lemma used_keep:
  "clear_used cpu a w = Inr w' \<Longrightarrow> sw_percpu w' = sw_percpu w"
  "set_used cpu a w = Inr w' \<Longrightarrow> sw_percpu w' = sw_percpu w"
  by (auto simp: clear_used_def set_used_def bindE_def split: option.splits sum.splits)

lemma hook_current: "switch_arch_hook cpu w = Inr w' \<Longrightarrow> pc_current (sw_percpu w' cpu) = pc_current (sw_percpu w cpu)"
  by (auto simp: switch_arch_hook_def hook_leave_def hook_enter_def space_store_def Let_def bindE_def split: sum.splits dest!: used_keep)

lemma commit_current: "switch_arch_hook cpu (switch_commit cpu prev nxt w) = Inr w' \<Longrightarrow> pc_current (sw_percpu w' cpu) = Some nxt"
  by (drule hook_current) (simp add: switch_commit_def switch_to_def Let_def set_ctx_def set_percpu_def)

lemma switch_towards:
  assumes "switch cpu w = Inr (w', r)" "pc_current (sw_percpu w cpu) = Some prev" "pc_idle (sw_percpu w cpu) \<noteq> Some c"
    "sorted_wrt (<) (sw_contexts w)" "c \<in> set (sw_contexts w)" "c \<noteq> prev" "ready cpu c w"
  shows "\<exists>nxt. pc_current (sw_percpu w' cpu) = Some nxt \<and> nxt \<in> insert c (ahead (sw_contexts w) prev c)"
proof -
  obtain xs ys where o: "switch_order prev (sw_contexts w) = xs @ c # ys" "set xs = ahead (sw_contexts w) prev c - {prev}"
    using switch_order_split [OF assms(4,5,6)] by blast
  obtain x where x: "update_runnable cpu (sw_now w) (sw_ctx w c) = Inr (x, True)" using assms(7) by (auto simp: ready_def)
  obtain idle where idle: "pc_idle (sw_percpu w cpu) = Some idle" using assms(1,2) by (cases "pc_idle (sw_percpu w cpu)") (auto simp: switch_def Let_def)
  obtain ctx f where p: "switch_pick cpu (sw_now w) idle True (xs @ c # (ys @ [idle])) (sw_ctx w) = Inr (ctx, f)"
    using assms(1,2) idle o(1)
    by (cases "switch_pick cpu (sw_now w) idle True (xs @ c # (ys @ [idle])) (sw_ctx w)") (auto simp: switch_def Let_def)
  have "c \<notin> set xs" by (auto simp: o(2) ahead_def)
  then obtain nxt where nxt: "f = Some nxt" "nxt \<in> insert c (set xs)"
    using switch_pick_stops [OF p _ _ x] idle assms(3) by auto
  have "\<exists>v. switch_arch_hook cpu (switch_commit cpu prev nxt v) = Inr w'"
    using assms(1,2) idle o(1) p nxt(1) by (auto simp: switch_def Let_def bindE_def split: sum.splits)
  then show ?thesis using commit_current nxt(2) o(2) by blast
qed

section \<open>Results\<close>

text \<open>
  C19: In every state that the processors reach together, whatever the others do between the steps of a switch,
  each processor runs exactly one context, no context runs on two processors, and exactly the contexts marked
  as running run.  A processor outside of a switch, as it is whenever user code runs, has the address space of
  its context loaded and stands in the \<open>used_by\<close> set of that space and of no other.  During a switch it stands
  in the set of the old space until the hook has left it, and in none until the hook has entered the new one.
  Only one processor at a time chooses and exchanges contexts, and no step of a switch, a tick or a change of
  the own address space panics.
\<close>

theorem scheduler_safe:
  assumes "sched_inv n w" "(sched_step n)\<^sup>*\<^sup>* (steady_run w) r"
  shows "(\<forall>cpu<n. \<exists>c. pc_current (sw_percpu (sr_world r) cpu) = Some c \<and> ctx_cpu_id (sw_ctx (sr_world r) c) = Some cpu \<and>
      (sr_phase r cpu = Steady \<longrightarrow> pc_current_addrsp (sw_percpu (sr_world r) cpu) = ctx_addr_space (sw_ctx (sr_world r) c))) \<and>
    (\<forall>cpu<n. \<forall>d<n. pc_current (sw_percpu (sr_world r) cpu) = pc_current (sw_percpu (sr_world r) d) \<longrightarrow> cpu = d) \<and>
    (\<forall>c. ctx_running (sw_ctx (sr_world r) c) \<longleftrightarrow> (\<exists>cpu<n. pc_current (sw_percpu (sr_world r) cpu) = Some c)) \<and>
    (\<forall>s. \<forall>cpu<n. CpuSet_contains (sw_used_by (sr_world r) s) cpu = Inr (pc_current_addrsp (sw_percpu (sr_world r) cpu) = Some s \<and>
      (case sr_phase r cpu of LeftSpace _ \<Rightarrow> False | NotedSpace \<Rightarrow> False | ChangeLeft _ _ \<Rightarrow> False | ChangeNoted _ _ \<Rightarrow> False | _ \<Rightarrow> True))) \<and>
    (\<forall>cpu<n. \<forall>d<n. locks (sr_phase r cpu) \<longrightarrow> locks (sr_phase r d) \<longrightarrow> cpu = d) \<and>
    (\<forall>cpu<n. \<not> panics (advance cpu r) \<and>
      (sr_phase r cpu = Steady \<longrightarrow> \<not> panics (switch_begin cpu r) \<and> \<not> panics (tick_begin cpu r) \<and> (\<forall>new. \<not> panics (change_begin cpu new r))))"
proof -
  have i: "run_inv n r" by (rule sched_run_inv [OF assms(2)]) (simp add: steady_inv assms(1))
  note cur = run_inv_current [OF i]
  have A: "\<forall>cpu<n. \<exists>c. pc_current (sw_percpu (sr_world r) cpu) = Some c \<and> ctx_cpu_id (sw_ctx (sr_world r) c) = Some cpu \<and>
      (sr_phase r cpu = Steady \<longrightarrow> pc_current_addrsp (sw_percpu (sr_world r) cpu) = ctx_addr_space (sw_ctx (sr_world r) c))"
    using cur by (metis phase_simps(9))
  have B: "\<forall>cpu<n. \<forall>d<n. pc_current (sw_percpu (sr_world r) cpu) = pc_current (sw_percpu (sr_world r) d) \<longrightarrow> cpu = d"
    using A by (metis option.inject)
  have C: "\<forall>c. ctx_running (sw_ctx (sr_world r) c) \<longleftrightarrow> (\<exists>cpu<n. pc_current (sw_percpu (sr_world r) cpu) = Some c)"
    using cur i unfolding run_inv_def by (metis option.inject)
  have D: "\<forall>s. \<forall>cpu<n. CpuSet_contains (sw_used_by (sr_world r) s) cpu = Inr (pc_current_addrsp (sw_percpu (sr_world r) cpu) = Some s \<and>
      (case sr_phase r cpu of LeftSpace _ \<Rightarrow> False | NotedSpace \<Rightarrow> False | ChangeLeft _ _ \<Rightarrow> False | ChangeNoted _ _ \<Rightarrow> False | _ \<Rightarrow> True))"
    using run_inv_parts(1,2) [OF i] by (auto simp: users_ok_def contains_abs registered_def phase_space_def split: phase.splits)
  have E: "\<forall>cpu<n. \<forall>d<n. locks (sr_phase r cpu) \<longrightarrow> locks (sr_phase r d) \<longrightarrow> cpu = d"
    using run_inv_parts(4) [OF i] by (metis option.inject)
  have "\<not> panics (switch_begin cpu r)" "\<not> panics (tick_begin cpu r)" "\<not> panics (change_begin cpu new r)" if "cpu < n" "sr_phase r cpu = Steady" for cpu new
    using switch_begin_spec [OF i that] tick_begin_spec [OF i that] change_begin_spec [OF i that, of new] by auto
  moreover have "\<not> panics (advance cpu r)" if "cpu < n" for cpu using advance_spec [OF i that] by auto
  ultimately have F: "\<forall>cpu<n. \<not> panics (advance cpu r) \<and>
      (sr_phase r cpu = Steady \<longrightarrow> \<not> panics (switch_begin cpu r) \<and> \<not> panics (tick_begin cpu r) \<and> (\<forall>new. \<not> panics (change_begin cpu new r)))" by blast
  show ?thesis by (intro conjI A B C D E F)
qed

definition boot_world :: switch_world where
  "boot_world = \<lparr>sw_ctx = \<lambda>_. Context_new 0 0, sw_contexts = [], sw_threads = \<lambda>_. [],
     sw_percpu = \<lambda>_. \<lparr>pc_current = None, pc_idle = None, pc_ticks = 0, pc_being_sigkilled = False, pc_inside_syscall = False,
       pc_current_addrsp = None, pc_new_addrsp_tmp = None, pc_ptrace_session = None, pc_ptrace_flags = 0\<rparr>,
     sw_used_by = \<lambda>_. CpuSet_empty, sw_sessions = \<lambda>_. None, sw_now = 0\<rparr>"

lemma boot_inv: "sched_inv 0 boot_world"
  by (auto simp: sched_inv_def boot_world_def Context_new_def CpuSet_all_def CpuSet_empty_def cpu_abs_def)

theorem scheduler_safe_witness:
  "\<exists>w r. context_init 0 4096 boot_world = Inr w \<and> (sched_step 1)\<^sup>*\<^sup>* (steady_run w) r \<and> locks (sr_phase r 0) \<and>
    pc_current (sw_percpu (sr_world r) 0) = Some 4096 \<and> (\<exists>r'. advance 0 r = Inr r')"
proof -
  have "\<not> ctx_running (sw_ctx boot_world 4096)" "pc_current_addrsp (sw_percpu boot_world 0) = None" by (simp_all add: boot_world_def Context_new_def)
  then obtain w where w: "context_init 0 4096 boot_world = Inr w" "sched_inv (Suc 0) w"
    using context_init_spec [OF boot_inv] by auto
  have p: "pc_current (sw_percpu w 0) = Some 4096" "pc_idle (sw_percpu w 0) = Some 4096" using w(1) by (auto simp: context_init_def bindE_def split: sum.splits)
  let ?w = "set_percpu 0 (\<lambda>p. p\<lparr>pc_ticks := 0\<rparr>) w"
  let ?r = "set_phase 0 (Searching 4096 4096 True (switch_order 4096 (sw_contexts w) @ [4096])) ?w ((steady_run w)\<lparr>sr_lock := Some 0\<rparr>)"
  have "switch_begin 0 (steady_run w) = Inr ?r" using p by (simp add: switch_begin_def steady_run_def set_percpu_def Let_def)
  then have run: "(sched_step (Suc 0))\<^sup>*\<^sup>* (steady_run w) ?r" by (intro r_into_rtranclp sched_step.do_switch [of 0]) (simp_all add: steady_run_def)
  have "\<not> panics (advance 0 ?r)" using scheduler_safe [OF w(2) run] by simp
  then have "\<exists>r'. advance 0 ?r = Inr r'" by (cases "advance 0 ?r") auto
  moreover have "locks (sr_phase ?r 0)" "pc_current (sw_percpu (sr_world ?r) 0) = Some 4096" using p by (simp_all add: set_phase_def set_percpu_def)
  ultimately show ?thesis using w(1) run by auto
qed

text \<open>
  C20: Round robin is fair.  If a processor keeps switching and a context stays ready for it, whatever
  happens to the other contexts in between, the context runs after at most as many switches as there
  are contexts.
\<close>

theorem switch_fair:
  assumes set: "sorted_wrt (<) cs" "c \<in> set cs" "\<forall>i<length cs. sw_contexts (run i) = cs"
    and idle: "\<forall>i<length cs. pc_idle (sw_percpu (run i) cpu) \<noteq> Some c"
    and ready: "\<forall>i<length cs. pc_current (sw_percpu (run i) cpu) = Some c \<or> ready cpu c (run i)"
    and steps: "\<forall>i<length cs. \<exists>w r. switch cpu (run i) = Inr (w, r) \<and> pc_current (sw_percpu (run (Suc i)) cpu) = pc_current (sw_percpu w cpu)"
  shows "\<exists>i\<le>length cs. pc_current (sw_percpu (run i) cpu) = Some c"
proof (rule ccontr)
  assume "\<not> ?thesis"
  then have never: "pc_current (sw_percpu (run i) cpu) \<noteq> Some c" if "i \<le> length cs" for i using that by blast
  have moves: "\<exists>nxt. pc_current (sw_percpu (run (Suc i)) cpu) = Some nxt \<and> nxt \<in> ahead cs p c \<and> p \<noteq> c"
    if i: "i < length cs" and p: "pc_current (sw_percpu (run i) cpu) = Some p" for i p
  proof -
    obtain w r where w: "switch cpu (run i) = Inr (w, r)" "pc_current (sw_percpu (run (Suc i)) cpu) = pc_current (sw_percpu w cpu)"
      using steps i by blast
    have "pc_current (sw_percpu (run i) cpu) \<noteq> Some c" using never [of i] i by simp
    then have c: "p \<noteq> c" "ready cpu c (run i)" using ready i p by auto
    have cs: "sw_contexts (run i) = cs" "pc_idle (sw_percpu (run i) cpu) \<noteq> Some c" using set(3) idle i by auto
    obtain nxt where "pc_current (sw_percpu w cpu) = Some nxt" "nxt \<in> insert c (ahead cs p c)"
      using switch_towards [OF w(1) p cs(2)] set(1,2) c cs(1) by auto
    then show ?thesis using never [of "Suc i"] w(2) i c(1) by auto
  qed
  have stays: "\<exists>p. pc_current (sw_percpu (run i) cpu) = Some p \<and> card (ahead cs p c) + i < length cs" if "i < length cs" for i
    using that
  proof (induction i)
    case 0
    obtain w r where "switch cpu (run 0) = Inr (w, r)" using steps 0 by blast
    then obtain p where p: "pc_current (sw_percpu (run 0) cpu) = Some p" by (cases "pc_current (sw_percpu (run 0) cpu)") (auto simp: switch_def Let_def)
    have "ahead cs p c \<subset> set cs" using set(2) never [of 0] p by (auto simp: ahead_def)
    then have "card (ahead cs p c) < card (set cs)" by (simp add: psubset_card_mono)
    then show ?case using p card_length [of cs] by simp
  next
    case (Suc i)
    then obtain p where p: "pc_current (sw_percpu (run i) cpu) = Some p" "card (ahead cs p c) + i < length cs" by auto
    obtain nxt where "pc_current (sw_percpu (run (Suc i)) cpu) = Some nxt" "nxt \<in> ahead cs p c" "p \<noteq> c"
      using moves [OF _ p(1)] Suc.prems by auto
    then show ?case using ahead_closer [of nxt cs p c] p(2) by auto
  qed
  have len: "0 < length cs" using set(2) by (cases cs) auto
  then obtain p where p: "pc_current (sw_percpu (run (length cs - 1)) cpu) = Some p" "card (ahead cs p c) + (length cs - 1) < length cs"
    using stays [of "length cs - 1"] by auto
  have "finite (ahead cs p c)" by (simp add: ahead_def)
  then have "ahead cs p c = {}" using p(2) len by (cases "card (ahead cs p c)") auto
  then show False using moves [OF _ p(1)] len by auto
qed

text \<open>Two contexts that take turns.\<close>

definition turn_ctx :: "bool \<Rightarrow> kcontext" where
  "turn_ctx b = (Context_new 1 0)\<lparr>ctx_status := Runnable, ctx_running := b, ctx_cpu_id := Some 0\<rparr>"

definition turn_world :: "bool \<Rightarrow> switch_world" where
  "turn_world b = boot_world\<lparr>sw_ctx := \<lambda>c. if c = 2 then turn_ctx b else if c = 3 then turn_ctx (\<not> b) else Context_new 0 0,
     sw_contexts := [1, 2, 3],
     sw_percpu := \<lambda>_. (sw_percpu boot_world 0)\<lparr>pc_current := Some (if b then 2 else 3), pc_idle := Some 1\<rparr>\<rparr>"

lemma turn_switch: "\<exists>w. switch 0 (turn_world b) = Inr (w, Switched) \<and> pc_current (sw_percpu w 0) = Some (if b then 3 else 2)"
  by (cases b) (simp_all add: switch_def switch_order_def switch_commit_def switch_to_def switch_arch_hook_def hook_leave_def hook_enter_def space_store_def clear_used_def set_used_def
    update_runnable_def turn_world_def turn_ctx_def boot_world_def Context_new_def contains_abs CpuSet_all_def CpuSet_contains_def cpu_parts_def indexE_def
    is_runnable_def is_soft_blocked_def set_percpu_def set_ctx_def Let_def bit_simps)

theorem switch_fair_witness:
  "\<exists>i\<le>3::nat. pc_current (sw_percpu (turn_world (even i)) 0) = Some 3"
proof -
  have ready: "pc_current (sw_percpu (turn_world b) 0) = Some 3 \<or> ready 0 3 (turn_world b)" for b
    by (cases b) (auto simp: ready_def update_runnable_def turn_world_def turn_ctx_def Context_new_def CpuSet_all_def CpuSet_contains_def
      cpu_parts_def indexE_def is_runnable_def is_soft_blocked_def boot_world_def)
  have step: "\<exists>w r. switch 0 (turn_world (even i)) = Inr (w, r) \<and> pc_current (sw_percpu (turn_world (even (Suc i))) 0) = pc_current (sw_percpu w 0)" for i :: nat
    using turn_switch [of "even i"] by (auto simp: turn_world_def boot_world_def)
  have "\<exists>i\<le>length [1, 2, 3::nat]. pc_current (sw_percpu (turn_world (even i)) 0) = Some 3"
    by (rule switch_fair [where run = "\<lambda>i. turn_world (even i)" and cpu = 0 and c = 3 and cs = "[1, 2, 3]"])
      (use ready step in \<open>auto simp: turn_world_def boot_world_def\<close>)
  then show ?thesis by (simp add: numeral_3_eq_3)
qed

end
