(* ===== verification/Futex.thy ===== *)
theory Futex
  imports Event_Queue "HOL-Library.Multiset"
begin

text \<open>
  Futexes (\<open>src/src/syscall/futex.rs\<close>).  The list of waiters is global.  A waiter is matched by the physical
  address of the word it waits on, or by the virtual address within one address space.  A wait is two
  steps around the context switch.
\<close>

section \<open>State\<close>

record futex_entry =
  fe_physaddr :: nat
  fe_virtaddr :: nat
  fe_context :: nat
  fe_addr_space :: nat

record futex_world =
  fw_list :: "futex_entry list"
  fw_sched :: sched
  fw_user :: umem
  fw_phys :: "nat \<Rightarrow> 8 word"

type_synonym 'a futexprog = "(futex_world, errno, 'a) prog"

datatype futex_op = FUTEX_WAIT | FUTEX_WAIT64 | FUTEX_WAKE | OtherOp

text \<open>\<open>table\<close> is the page table of the current address space: the physical address of a page.\<close>

definition validate_and_translate_virt :: "(page \<rightharpoonup> nat) \<Rightarrow> nat \<Rightarrow> nat option" where
  "validate_and_translate_virt table addr =
     (if USER_END_OFFSET \<le> u_sat_add addr 8 then None
      else
        let page = Page_containing_address addr; off = addr - Page_start_address page in
        map_option (\<lambda>frame. frame + off) (table page))"

section \<open>Waiting\<close>

text \<open>
  The optional timeout in user memory.  The layout of \<open>TimeSpec\<close> belongs to the system call crate:
  \<open>ts_size\<close> is its size and \<open>ts_nanos\<close> reads seconds and nanoseconds from its bytes.
\<close>

definition read_timeout :: "nat \<Rightarrow> (8 word list \<Rightarrow> int \<times> int) \<Rightarrow> nat \<Rightarrow> (int \<times> int) option futexprog" where
  "read_timeout ts_size ts_of val2 w =
     (case UserSlice_new val2 ts_size of
        Inl e \<Rightarrow> Inr (w, Inl e)
      | Inr buf \<Rightarrow>
          (case UserSlice_none_if_null buf of
             None \<Rightarrow> Inr (w, Inr None)
           | Some buf \<Rightarrow> bindE (read_exact buf ts_size (fw_user w)) (\<lambda>(_, r). Inr (w, map_sum id (\<lambda>bs. Some (ts_of bs)) r))))"

definition load_phys :: "nat \<Rightarrow> nat \<Rightarrow> futex_world \<Rightarrow> nat" where
  "load_phys n a w = from_le_bytes (map (\<lambda>i. fw_phys w (a + i)) [0..<n])"

definition load_virt :: "nat \<Rightarrow> nat \<Rightarrow> futex_world \<Rightarrow> nat" where
  "load_virt n a w = from_le_bytes (map (\<lambda>i. um_byte (fw_user w) (a + i)) [0..<n])"

definition set_wake :: "nat option \<Rightarrow> futex_world \<Rightarrow> futex_world" where
  "set_wake t w = (let S = fw_sched w; c = sc_current S in
     w\<lparr>fw_sched := S\<lparr>sc_ctx := (sc_ctx S)(c := map_option (\<lambda>x. x\<lparr>ctx_wake := t\<rparr>) (sc_ctx S c))\<rparr>\<rparr>)"

definition block_current :: "string \<Rightarrow> futex_world \<Rightarrow> futex_world" where
  "block_current reason w = (let S = fw_sched w; c = sc_current S in
     w\<lparr>fw_sched := S\<lparr>sc_ctx := (sc_ctx S)(c := map_option (\<lambda>x. fst (ctx_block reason x)) (sc_ctx S c))\<rparr>\<rparr>)"

text \<open>
  Up to the switch, with the list locked.  The result is the timeout.  \<open>pending\<close> says whether a context
  has an unblocked signal.
\<close>

definition futex_enqueue :: "(nat \<Rightarrow> bool) \<Rightarrow> nat \<Rightarrow> nat \<Rightarrow> nat \<Rightarrow> (int \<times> int) option \<Rightarrow> nat \<Rightarrow> nat \<Rightarrow> (int \<times> int) option futexprog" where
  "futex_enqueue pending space phys addr timeout fetched expected =
     (if fetched \<noteq> expected then errM EAGAIN
      else
        bindM (modM (set_wake (map_option (\<lambda>(sec, nsec). timespec_nanos sec nsec) timeout))) (\<lambda>_.
        bindM (getM (\<lambda>w. sc_current (fw_sched w))) (\<lambda>c.
        if pending c then errM EINTR
        else
          bindM (modM (block_current ''futex'')) (\<lambda>_.
          bindM (modM (\<lambda>w. w\<lparr>fw_list := fw_list w @ [\<lparr>fe_physaddr = phys, fe_virtaddr = addr, fe_context = c, fe_addr_space = space\<rparr>]\<rparr>)) (\<lambda>_.
            retM timeout)))))"

definition futex_wait_begin :: "nat \<Rightarrow> (8 word list \<Rightarrow> int \<times> int) \<Rightarrow> (nat \<Rightarrow> bool) \<Rightarrow> nat \<Rightarrow> nat \<Rightarrow> nat \<Rightarrow> bool \<Rightarrow> nat \<Rightarrow> nat \<Rightarrow> (int \<times> int) option futexprog" where
  "futex_wait_begin ts_size ts_of pending space phys addr wide val val2 =
     bindM (read_timeout ts_size ts_of val2) (\<lambda>timeout.
     if \<not> wide then
       if addr mod 4 \<noteq> 0 then errM EINVAL
       else bindM (getM (load_phys 4 phys)) (\<lambda>fetched. futex_enqueue pending space phys addr timeout fetched (val mod 2 ^ 32))
     else
       if addr mod 8 \<noteq> 0 then errM EINVAL
       else bindM (getM (load_virt 8 addr)) (\<lambda>fetched. futex_enqueue pending space phys addr timeout fetched val))"

definition futex_wait_end :: "(int \<times> int) option \<Rightarrow> nat futexprog" where
  "futex_wait_end timeout =
     (if timeout \<noteq> None then bindM (modM (set_wake None)) (\<lambda>_. errM ETIMEDOUT) else retM 0)"

section \<open>Waking\<close>

definition swap_remove_back :: "nat \<Rightarrow> 'a list \<Rightarrow> 'a list" where
  "swap_remove_back i xs = butlast (xs[i := last xs])"

definition futex_matches :: "nat \<Rightarrow> nat \<Rightarrow> nat \<Rightarrow> futex_entry \<Rightarrow> bool" where
  "futex_matches phys addr space e =
     (\<not> (fe_physaddr e \<noteq> phys \<and> (fe_virtaddr e \<noteq> addr \<or> space \<noteq> fe_addr_space e)))"

function futex_wake_loop :: "(futex_entry \<Rightarrow> bool) \<Rightarrow> nat \<Rightarrow> nat \<Rightarrow> nat \<Rightarrow> futex_entry list \<Rightarrow> sched \<Rightarrow> futex_entry list \<times> sched \<times> nat" where
  "futex_wake_loop m val i woken es S =
     (if i < length es \<and> woken < val then
        if \<not> m (es ! i) then futex_wake_loop m val (i + 1) woken es S
        else futex_wake_loop m val i (woken + 1) (swap_remove_back i es) (unblock_ref (fe_context (es ! i)) S)
      else (es, S, woken))"
  by pat_completeness auto
termination
  by (relation "measure (\<lambda>(m, val, i, woken, es, S). length es - i)") (auto simp: swap_remove_back_def)

declare futex_wake_loop.simps [simp del]

definition futex_wake :: "nat \<Rightarrow> nat \<Rightarrow> nat \<Rightarrow> nat \<Rightarrow> nat futexprog" where
  "futex_wake phys addr space val w =
     (case futex_wake_loop (futex_matches phys addr space) val 0 0 (fw_list w) (fw_sched w) of
        (es, S, woken) \<Rightarrow> Inr (w\<lparr>fw_list := es, fw_sched := S\<rparr>, Inr woken))"

text \<open>
  The call.  \<open>others\<close> is what happens while the caller is switched out; afterwards the caller runs again.
  \<open>addr_space\<close> is the address space of the caller, with its page table.
\<close>

definition futex :: "nat \<Rightarrow> (8 word list \<Rightarrow> int \<times> int) \<Rightarrow> (nat \<Rightarrow> bool) \<Rightarrow> (nat \<times> (page \<rightharpoonup> nat)) option \<Rightarrow> (futex_world \<Rightarrow> futex_world) \<Rightarrow>
    nat \<Rightarrow> futex_op \<Rightarrow> nat \<Rightarrow> nat \<Rightarrow> nat futexprog" where
  "futex ts_size ts_of pending addr_space others addr op' val val2 =
     (case addr_space of
        None \<Rightarrow> errM ESRCH
      | Some (space, table) \<Rightarrow>
          bindM (ok_orM (validate_and_translate_virt table addr) EFAULT) (\<lambda>phys.
          if op' = FUTEX_WAIT \<or> op' = FUTEX_WAIT64 then
            bindM (futex_wait_begin ts_size ts_of pending space phys addr (op' = FUTEX_WAIT64) val val2) (\<lambda>timeout.
            bindM (modM others) (\<lambda>_. futex_wait_end timeout))
          else if op' = FUTEX_WAKE then futex_wake phys addr space val
          else errM EINVAL))"

section \<open>Lemmas\<close>

lemma mset_swap_remove: "i < length xs \<Longrightarrow> add_mset (xs ! i) (mset (swap_remove_back i xs)) = mset xs"
proof -
  assume i: "i < length xs"
  then obtain ys z where xs: "xs = ys @ [z]" by (cases xs rule: rev_cases) auto
  show ?thesis
  proof (cases "i < length ys")
    case True
    then have "butlast (xs[i := z]) = ys[i := z]" by (simp add: xs list_update_append)
    then show ?thesis using True by (simp add: swap_remove_back_def xs nth_append mset_update)
  next
    case False
    then have "i = length ys" using i by (simp add: xs)
    then show ?thesis by (simp add: swap_remove_back_def xs list_update_append)
  qed
qed

lemma swap_remove_prefix: "i < length xs \<Longrightarrow> j < i \<Longrightarrow> swap_remove_back i xs ! j = xs ! j"
  by (simp add: swap_remove_back_def nth_butlast)

lemma wake_loop_spec:
  assumes "futex_wake_loop m val i woken es S = (es', S', woken')" "\<forall>j<i. \<not> m (es ! j)" "i \<le> length es" "woken \<le> val"
  shows "\<exists>ws. mset es = mset es' + mset ws \<and> woken' = woken + length ws \<and> woken' \<le> val \<and> (\<forall>e\<in>set ws. m e) \<and>
    S' = fold (\<lambda>e. unblock_ref (fe_context e)) ws S \<and> (woken' < val \<longrightarrow> (\<forall>e\<in>set es'. \<not> m e))"
  using assms
proof (induction m val i woken es S rule: futex_wake_loop.induct)
  case (1 m val i woken es S)
  show ?case
  proof (cases "i < length es \<and> woken < val")
    case False
    then have r: "es' = es" "S' = S" "woken' = woken" using 1(3) by (auto simp: futex_wake_loop.simps [of m val i])
    show ?thesis
    proof (intro exI [of _ "[]"] conjI impI)
      assume "woken' < val"
      then have "i = length es" using False r 1(5) by auto
      then show "\<forall>e\<in>set es'. \<not> m e" using 1(4) r by (auto simp: in_set_conv_nth)
    qed (use r 1(6) in auto)
  next
    case True
    show ?thesis
    proof (cases "m (es ! i)")
      case False
      have "futex_wake_loop m val (i + 1) woken es S = (es', S', woken')"
        using 1(3) True False by (simp add: futex_wake_loop.simps [of m val i])
      moreover have "\<forall>j<i + 1. \<not> m (es ! j)" using 1(4) False by (auto simp: less_Suc_eq)
      ultimately show ?thesis using 1(1) [OF True False] True 1(6) by simp
    next
      case m: True
      let ?es = "swap_remove_back i es" and ?S = "unblock_ref (fe_context (es ! i)) S"
      have run: "futex_wake_loop m val i (woken + 1) ?es ?S = (es', S', woken')"
        using 1(3) True m by (simp add: futex_wake_loop.simps [of m val i])
      have pre: "\<forall>j<i. \<not> m (?es ! j)" using 1(4) True by (simp add: swap_remove_prefix)
      have "\<exists>ws. mset ?es = mset es' + mset ws \<and> woken' = (woken + 1) + length ws \<and> woken' \<le> val \<and> (\<forall>e\<in>set ws. m e) \<and>
          S' = fold (\<lambda>e. unblock_ref (fe_context e)) ws ?S \<and> (woken' < val \<longrightarrow> (\<forall>e\<in>set es'. \<not> m e))"
        by (rule 1(2) [OF True _ run pre]) (use m True in \<open>auto simp: swap_remove_back_def\<close>)
      then obtain ws where ws: "mset ?es = mset es' + mset ws" "woken' = (woken + 1) + length ws" "woken' \<le> val" "\<forall>e\<in>set ws. m e"
          "S' = fold (\<lambda>e. unblock_ref (fe_context e)) ws ?S" "woken' < val \<longrightarrow> (\<forall>e\<in>set es'. \<not> m e)"
        by blast
      have "mset es = mset es' + mset (es ! i # ws)" using mset_swap_remove [of i es] True ws(1) by simp
      then show ?thesis using ws m by (intro exI [of _ "es ! i # ws"]) auto
    qed
  qed
qed

lemma read_timeout_total: "\<exists>r. read_timeout ts_size ts_of val2 w = Inr (w, r)"
proof -
  have "\<exists>r. bindE (read_exact b n m) (\<lambda>(_, r). Inr (w, map_sum id (\<lambda>bs. Some (ts_of bs)) r)) = Inr (w, r)" for b n m
    by (cases "UserSlice_limit b n") (auto simp: read_exact_def ok_orM_def copy_to_slice_def split: option.splits)
  then show ?thesis by (auto simp: read_timeout_def split: sum.splits option.splits)
qed

lemma set_wake_keeps [simp]:
  "fw_list (set_wake t w) = fw_list w" "sc_current (fw_sched (set_wake t w)) = sc_current (fw_sched w)"
  "map_option ctx_status (sc_ctx (fw_sched (set_wake t w)) c) = map_option ctx_status (sc_ctx (fw_sched w) c)"
  by (auto simp: set_wake_def Let_def option.map_comp comp_def)

text \<open>What a wait does to the list and to the status of the contexts.\<close>

definition futex_wait_outcome :: "(nat \<Rightarrow> bool) \<Rightarrow> nat \<Rightarrow> nat \<Rightarrow> nat \<Rightarrow> bool \<Rightarrow> futex_world \<Rightarrow> futex_world \<Rightarrow> errno + (int \<times> int) option \<Rightarrow> bool" where
  "futex_wait_outcome pending space phys addr value_ok w w' r =
     (case r of
        Inl e \<Rightarrow> fw_list w' = fw_list w \<and> (\<forall>c. map_option ctx_status (sc_ctx (fw_sched w') c) = map_option ctx_status (sc_ctx (fw_sched w) c))
      | Inr t \<Rightarrow> value_ok \<and> \<not> pending (sc_current (fw_sched w)) \<and>
          fw_list w' = fw_list w @ [\<lparr>fe_physaddr = phys, fe_virtaddr = addr, fe_context = sc_current (fw_sched w), fe_addr_space = space\<rparr>] \<and>
          map_option ctx_status (sc_ctx (fw_sched w') (sc_current (fw_sched w))) = Some Blocked)"

lemma enqueue_outcome:
  assumes "sc_ctx (fw_sched w) (sc_current (fw_sched w)) = Some x" "ctx_status x = Runnable"
  shows "\<exists>w' r. futex_enqueue pending space phys addr t fetched expected w = Inr (w', r) \<and>
    futex_wait_outcome pending space phys addr (fetched = expected) w w' r"
  using assms by (simp add: futex_enqueue_def futex_wait_outcome_def)
    (auto simp: block_current_def set_wake_def Let_def ctx_block_def is_runnable_def)

section \<open>Results\<close>

text \<open>
  C21: \<open>FUTEX_WAKE\<close> returns the number of waiters it takes from the list, which is the number of matching
  waiters, or the limit if there are more; it takes only matching waiters, unblocks exactly those, and
  loses none of the others, although removing a waiter reorders the list.
\<close>

theorem futex_wake_exact:
  "\<exists>w' ws. futex_wake phys addr space val w = Inr (w', Inr (length ws)) \<and>
     length ws = min val (length (filter (futex_matches phys addr space) (fw_list w))) \<and>
     mset (fw_list w) = mset (fw_list w') + mset ws \<and> filter (futex_matches phys addr space) ws = ws \<and>
     fw_sched w' = fold (\<lambda>e. unblock_ref (fe_context e)) ws (fw_sched w)"
proof -
  let ?m = "futex_matches phys addr space"
  obtain es S n where r: "futex_wake_loop ?m val 0 0 (fw_list w) (fw_sched w) = (es, S, n)" by (metis prod_cases3)
  obtain ws where ws: "mset (fw_list w) = mset es + mset ws" "n = length ws" "n \<le> val" "\<forall>e\<in>set ws. ?m e"
      "S = fold (\<lambda>e. unblock_ref (fe_context e)) ws (fw_sched w)" "n < val \<longrightarrow> (\<forall>e\<in>set es. \<not> ?m e)"
    using wake_loop_spec [OF r] by auto
  have all: "filter ?m ws = ws" using ws(4) by simp
  have "size (filter_mset ?m (mset (fw_list w))) = size (filter_mset ?m (mset es)) + length ws"
    using arg_cong [OF ws(1), of "\<lambda>M. size (filter_mset ?m M)"] all by (simp flip: mset_filter)
  then have count: "length (filter ?m (fw_list w)) = length (filter ?m es) + length ws" by (simp flip: mset_filter)
  have "n < val \<Longrightarrow> filter ?m es = []" using ws(6) by (simp add: filter_empty_conv)
  then have "length ws = min val (length (filter ?m (fw_list w)))" using count ws(2,3) by (cases "n < val") auto
  then show ?thesis using r ws(1,2,5) all
    by (intro exI [of _ "w\<lparr>fw_list := es, fw_sched := S\<rparr>"] exI [of _ ws]) (simp add: futex_wake_def)
qed

text \<open>
  A wait either fails, and then no waiter is added and no context changes its status, or it queues and
  blocks the caller; it does so only if the word in memory still has the expected value at that moment, the
  address is aligned and no signal is pending.
\<close>

theorem futex_wait_checked:
  assumes "sc_ctx (fw_sched w) (sc_current (fw_sched w)) = Some x" "ctx_status x = Runnable"
  shows "\<exists>w' r. futex_wait_begin ts_size ts_of pending space phys addr wide val val2 w = Inr (w', r) \<and>
    futex_wait_outcome pending space phys addr
      (if wide then load_virt 8 addr w = val \<and> addr mod 8 = 0 else load_phys 4 phys w = val mod 2 ^ 32 \<and> addr mod 4 = 0) w w' r"
proof -
  obtain r where r: "read_timeout ts_size ts_of val2 w = Inr (w, r)" using read_timeout_total by blast
  show ?thesis
  proof (cases r)
    case (Inl e)
    then show ?thesis using r by (simp add: futex_wait_begin_def futex_wait_outcome_def)
  next
    case (Inr t)
    show ?thesis
    proof (cases "if wide then addr mod 8 = 0 else addr mod 4 = 0")
      case True
      then show ?thesis using r Inr enqueue_outcome [OF assms, of pending space phys addr t "if wide then load_virt 8 addr w else load_phys 4 phys w" "if wide then val else val mod 2 ^ 32"]
        by (cases wide) (simp_all add: futex_wait_begin_def)
    next
      case False
      then show ?thesis using r Inr by (auto simp: futex_wait_begin_def futex_wait_outcome_def split: if_splits)
    qed
  qed
qed

definition futex_example :: futex_world where
  "futex_example = \<lparr>fw_list = [], fw_sched = \<lparr>sc_ctx = [7 \<mapsto> (Context_new 7 0)\<lparr>ctx_status := Runnable\<rparr>], sc_current = 7, sc_this_cpu = 0\<rparr>,
     fw_user = \<lparr>um_byte = \<lambda>_. 0, um_readable = \<lambda>_. True, um_writable = \<lambda>_. True\<rparr>, fw_phys = \<lambda>_. 0\<rparr>"

theorem futex_wait_witness:
  "\<exists>w' e. futex_wait_begin 16 (\<lambda>_. (0, 0)) (\<lambda>_. False) 1 8192 4096 False 5 0 futex_example = Inr (w', Inl e) \<and> fw_list w' = []"
proof -
  have "sc_ctx (fw_sched futex_example) (sc_current (fw_sched futex_example)) = Some ((Context_new 7 0)\<lparr>ctx_status := Runnable\<rparr>)"
    by (simp add: futex_example_def)
  from futex_wait_checked [OF this, of 16 "\<lambda>_. (0, 0)" "\<lambda>_. False" 1 8192 4096 False 5 0] obtain w' r where
    r: "futex_wait_begin 16 (\<lambda>_. (0, 0)) (\<lambda>_. False) 1 8192 4096 False 5 0 futex_example = Inr (w', r)"
    "futex_wait_outcome (\<lambda>_. False) 1 8192 4096 (load_phys 4 8192 futex_example = 5 mod 2 ^ 32 \<and> 4096 mod 4 = (0::nat)) futex_example w' r"
    by auto
  moreover have "load_phys 4 8192 futex_example = 0"
    by (simp add: load_phys_def futex_example_def map_replicate_const numeral_eq_Suc)
  ultimately show ?thesis by (cases r) (auto simp: futex_example_def futex_wait_outcome_def)
qed

text \<open>
  C22: A wait with a timeout reports \<open>ETIMEDOUT\<close> however it ended, also after a wake-up, and it never leaves
  the list by itself: an entry that has timed out is still there, and the next \<open>FUTEX_WAKE\<close> for one waiter
  takes it, reports one woken waiter, and leaves every other waiter as it was.
\<close>

theorem futex_timed_wait_stale:
  assumes "fw_list w = e # rest" "futex_matches phys addr space e" "sc_current (fw_sched w) = fe_context e"
  shows "\<exists>w1 w2. futex_wait_end (Some t) w = Inr (w1, Inl ETIMEDOUT) \<and> fw_list w1 = fw_list w \<and>
    futex_wake phys addr space 1 w1 = Inr (w2, Inr 1) \<and> mset (fw_list w2) = mset rest \<and>
    (\<forall>c. c = fe_context e \<or> sc_ctx (fw_sched w2) c = sc_ctx (fw_sched w) c)"
proof -
  let ?w1 = "set_wake None w"
  have w1: "futex_wait_end (Some t) w = Inr (?w1, Inl ETIMEDOUT)" by (simp add: futex_wait_end_def)
  have "futex_wake_loop (futex_matches phys addr space) 1 0 0 (e # rest) S =
      (swap_remove_back 0 (e # rest), unblock_ref (fe_context e) S, 1)" for S
    using assms(2) by (simp add: futex_wake_loop.simps [of _ "Suc 0" 0])
  then obtain w2 where w2: "futex_wake phys addr space 1 ?w1 = Inr (w2, Inr 1)" "fw_list w2 = swap_remove_back 0 (e # rest)"
      "fw_sched w2 = unblock_ref (fe_context e) (fw_sched ?w1)"
    using assms(1) by (auto simp: futex_wake_def)
  have "mset (fw_list w2) = mset rest" using mset_swap_remove [of 0 "e # rest"] w2(2) by simp
  moreover have "sc_ctx (fw_sched w2) c = sc_ctx (fw_sched w) c" if "c \<noteq> fe_context e" for c
    using that assms(3) unfolding w2(3) by (auto simp: unblock_ref_def set_wake_def Let_def split: option.splits)
  ultimately show ?thesis using w1 w2(1) by auto
qed

theorem futex_timed_wait_witness:
  "\<exists>w1 w2. futex_wait_end (Some (1, 0)) (futex_example\<lparr>fw_list := [\<lparr>fe_physaddr = 8192, fe_virtaddr = 4096, fe_context = 7, fe_addr_space = 1\<rparr>,
      \<lparr>fe_physaddr = 8192, fe_virtaddr = 4096, fe_context = 9, fe_addr_space = 1\<rparr>]\<rparr>) = Inr (w1, Inl ETIMEDOUT) \<and>
    futex_wake 8192 4096 1 1 w1 = Inr (w2, Inr 1)"
  using futex_timed_wait_stale [of "futex_example\<lparr>fw_list := [\<lparr>fe_physaddr = 8192, fe_virtaddr = 4096, fe_context = 7, fe_addr_space = 1\<rparr>,
      \<lparr>fe_physaddr = 8192, fe_virtaddr = 4096, fe_context = 9, fe_addr_space = 1\<rparr>]\<rparr>"
    "\<lparr>fe_physaddr = 8192, fe_virtaddr = 4096, fe_context = 7, fe_addr_space = 1\<rparr>" _ 8192 4096 1 "(1, 0)"]
  by (auto simp: futex_example_def futex_matches_def)

end
