(* ===== verification/Process_Table.thy ===== *)
theory Process_Table
  imports Wait_Sync
begin

text \<open>
  Processes (\<open>src/src/context/process.rs\<close>), their identities and privileges (\<open>src/src/syscall/privilege.rs\<close>),
  signals, exit and wait (\<open>src/src/syscall/process.rs\<close>).  A process is named by its process id; the table
  holds the ids that can be looked up, and a process object lives on while a context refers to it.
\<close>

unbundle bit_operations_syntax

section \<open>State\<close>

record process_info =
  pi_pid :: nat
  pi_pgid :: nat
  pi_ppid :: nat
  pi_session_id :: nat
  pi_ruid :: "32 word"
  pi_rgid :: "32 word"
  pi_rns :: usize
  pi_euid :: "32 word"
  pi_egid :: "32 word"
  pi_ens :: usize

datatype process_status = PossiblyRunnable | Stopped nat | Exiting | Exited nat

text \<open>The process ids and exit status words that the parent can collect.\<close>

type_synonym exits = "(waitpid_key \<times> nat \<times> nat) list"

record process =
  pr_info :: process_info
  pr_status :: process_status
  pr_threads :: "nat list"
  pr_exits :: exits
  pr_exit_cond :: wait_condition

text \<open>
  The signal control words of a thread and of a process, in memory shared with user space: the low half of
  each word holds the pending signals and the high half the allowed ones.  Which signals the process
  ignores, and which stop it, follows from its actions; both are decided by the system call crate.
\<close>

record sender_info =
  si_pid :: nat
  si_ruid :: "32 word"

record thread_control =
  tc_word :: "nat \<Rightarrow> usize"
  tc_sender :: "nat \<Rightarrow> sender_info"

record proc_control =
  pc_pending :: usize
  pc_sender :: "nat \<Rightarrow> sender_info"
  pc_will_ign :: "nat \<Rightarrow> bool \<Rightarrow> bool"
  pc_will_stop :: "nat \<Rightarrow> bool"

record signal_state =
  ss_thread :: thread_control
  ss_proc :: nat
  ss_rtqs :: "8 word list list list"

record proc_world =
  px_sched :: sched
  px_proc :: "nat \<Rightarrow> process"
  px_table :: "nat list"
  px_next_pid :: nat
  px_sig :: "nat \<rightharpoonup> signal_state"
  px_pctl :: "nat \<Rightarrow> proc_control"
  px_user :: umem

type_synonym 'a procprog = "(proc_world, errno, 'a) prog"

definition upd_proc :: "nat \<Rightarrow> (process \<Rightarrow> process) \<Rightarrow> proc_world \<Rightarrow> proc_world" where
  "upd_proc p f w = w\<lparr>px_proc := (px_proc w)(p := f (px_proc w p))\<rparr>"

definition upd_info :: "nat \<Rightarrow> (process_info \<Rightarrow> process_info) \<Rightarrow> proc_world \<Rightarrow> proc_world" where
  "upd_info p f = upd_proc p (\<lambda>x. x\<lparr>pr_info := f (pr_info x)\<rparr>)"

abbreviation proc_info :: "proc_world \<Rightarrow> nat \<Rightarrow> process_info" where
  "proc_info w p \<equiv> pr_info (px_proc w p)"

section \<open>Looking up and creating processes\<close>

text \<open>The process id of the running context.\<close>

definition current_pid :: "proc_world \<Rightarrow> nat" where
  "current_pid w = (case sc_ctx (px_sched w) (sc_current (px_sched w)) of Some x \<Rightarrow> ctx_pid x | None \<Rightarrow> 0)"

definition get_process :: "nat \<Rightarrow> nat procprog" where
  "get_process pid = bindM (getM px_table) (\<lambda>t. if pid \<in> set t then retM pid else errM ESRCH)"

definition process_current :: "nat procprog" where
  "process_current = bindM (getM current_pid) get_process"

definition new_process :: "bool \<Rightarrow> (nat \<Rightarrow> process_info) \<Rightarrow> nat procprog" where
  "new_process memory_ok info =
     bindM (getM px_next_pid) (\<lambda>pid.
     bindM (modM (\<lambda>w. w\<lparr>px_next_pid := pid + 1\<rparr>)) (\<lambda>_.
     if \<not> memory_ok then errM ENOMEM
     else
       bindM (modM (\<lambda>w. w\<lparr>px_proc := (px_proc w)(pid := \<lparr>pr_info = info pid, pr_status = PossiblyRunnable, pr_threads = [],
                pr_exits = [], pr_exit_cond = []\<rparr>), px_table := insort pid (px_table w)\<rparr>)) (\<lambda>_.
         retM pid)))"

text \<open>
  The chain of ancestors.  A cycle of parents makes the iterator endless, so the model takes the number of
  steps to follow.
\<close>

fun ancestors :: "nat \<Rightarrow> proc_world \<Rightarrow> nat \<Rightarrow> nat list" where
  "ancestors 0 w p = []"
| "ancestors (Suc n) w p = (if p \<in> set (px_table w) then p # ancestors n w (pi_ppid (proc_info w p)) else [])"

definition getpid :: "nat procprog" where "getpid = getM current_pid"

definition getpgid :: "nat \<Rightarrow> nat procprog" where
  "getpgid pid =
     bindM (if pid = 0 then process_current else get_process pid) (\<lambda>p.
     getM (\<lambda>w. pi_pgid (proc_info w p)))"

definition getppid :: "nat procprog" where
  "getppid = bindM process_current (\<lambda>p. getM (\<lambda>w. pi_ppid (proc_info w p)))"

definition setpgid :: "nat \<Rightarrow> nat \<Rightarrow> unit procprog" where
  "setpgid pid pgid =
     bindM (getM current_pid) (\<lambda>cur.
     bindM (if pid = 0 then process_current else get_process pid) (\<lambda>p.
     bindM (getM (\<lambda>w. proc_info w p)) (\<lambda>i.
     if pi_pid i = cur \<or> pi_ppid i = cur
     then modM (upd_info p (\<lambda>i. i\<lparr>pi_pgid := (if pgid = 0 then pi_pid i else pgid)\<rparr>))
     else errM ESRCH)))"

section \<open>Privileges\<close>

definition get_field :: "(process_info \<Rightarrow> 'a) \<Rightarrow> 'a procprog" where
  "get_field f = bindM process_current (\<lambda>p. getM (\<lambda>w. f (proc_info w p)))"

definition getegid :: "32 word procprog" where "getegid = get_field pi_egid"
definition getens :: "usize procprog" where "getens = get_field pi_ens"
definition geteuid :: "32 word procprog" where "geteuid = get_field pi_euid"
definition getgid :: "32 word procprog" where "getgid = get_field pi_rgid"
definition getns :: "usize procprog" where "getns = get_field pi_rns"
definition getuid :: "32 word procprog" where "getuid = get_field pi_ruid"

text \<open>Whether an id is set: \<open>None\<close> when the change is not permitted.\<close>

definition may_set_id :: "bool \<Rightarrow> 32 word \<Rightarrow> 32 word \<Rightarrow> 32 word \<Rightarrow> bool option" where
  "may_set_id root new effective real' =
     (if root then Some True else if new = effective then Some True else if new = real' then Some True
      else if new = - 1 then Some False else None)"

definition setregid :: "32 word \<Rightarrow> 32 word \<Rightarrow> unit procprog" where
  "setregid rgid egid =
     bindM process_current (\<lambda>p.
     bindM (getM (\<lambda>w. proc_info w p)) (\<lambda>i.
     bindM (ok_orM (may_set_id (pi_euid i = 0) rgid (pi_egid i) (pi_rgid i)) EPERM) (\<lambda>setrgid.
     bindM (ok_orM (may_set_id (pi_euid i = 0) egid (pi_egid i) (pi_rgid i)) EPERM) (\<lambda>setegid.
       modM (upd_info p (\<lambda>i. i\<lparr>pi_rgid := (if setrgid then rgid else pi_rgid i), pi_egid := (if setegid then egid else pi_egid i)\<rparr>))))))"

definition setreuid :: "32 word \<Rightarrow> 32 word \<Rightarrow> unit procprog" where
  "setreuid ruid euid =
     bindM process_current (\<lambda>p.
     bindM (getM (\<lambda>w. proc_info w p)) (\<lambda>i.
     bindM (ok_orM (may_set_id (pi_euid i = 0) ruid (pi_euid i) (pi_ruid i)) EPERM) (\<lambda>setruid.
     bindM (ok_orM (may_set_id (pi_euid i = 0) euid (pi_euid i) (pi_ruid i)) EPERM) (\<lambda>seteuid.
       modM (upd_info p (\<lambda>i. i\<lparr>pi_ruid := (if setruid then ruid else pi_ruid i), pi_euid := (if seteuid then euid else pi_euid i)\<rparr>))))))"

definition may_set_ns :: "bool \<Rightarrow> usize \<Rightarrow> usize \<Rightarrow> usize \<Rightarrow> usize \<Rightarrow> bool option" where
  "may_set_ns root new old effective real' =
     (if new = - 1 then Some False else if new = 0 then Some True else if old = 0 then None
      else if root then Some True else if new = effective then Some True else if new = real' then Some True else None)"

definition setrens :: "usize \<Rightarrow> usize \<Rightarrow> unit procprog" where
  "setrens rns ens =
     bindM process_current (\<lambda>p.
     bindM (getM (\<lambda>w. proc_info w p)) (\<lambda>i.
     bindM (ok_orM (may_set_ns (pi_euid i = 0) rns (pi_rns i) (pi_ens i) (pi_rns i)) EPERM) (\<lambda>setrns.
     bindM (ok_orM (may_set_ns (pi_euid i = 0) ens (pi_ens i) (pi_ens i) (pi_rns i)) EPERM) (\<lambda>setens.
     bindM (assertM (\<not> setrns \<or> rns \<noteq> - 1) ''assertion failed: rns != -1'') (\<lambda>_.
     bindM (modM (upd_info p (\<lambda>i. i\<lparr>pi_rns := (if setrns then rns else pi_rns i)\<rparr>))) (\<lambda>_.
     bindM (assertM (\<not> setens \<or> ens \<noteq> - 1) ''assertion failed: ens != -1'') (\<lambda>_.
       modM (upd_info p (\<lambda>i. i\<lparr>pi_ens := (if setens then ens else pi_ens i)\<rparr>)))))))))"

section \<open>Collecting exits\<close>

text \<open>The wait map of a process, as the operations on wait maps see it.\<close>

definition exits_of :: "nat \<Rightarrow> proc_world \<Rightarrow> exits wait_data" where
  "exits_of p w = \<lparr>wd_inner = pr_exits (px_proc w p), wd_cond = pr_exit_cond (px_proc w p), wd_sched = px_sched w\<rparr>"

definition put_exits :: "nat \<Rightarrow> exits wait_data \<Rightarrow> proc_world \<Rightarrow> proc_world" where
  "put_exits p d w = (upd_proc p (\<lambda>x. x\<lparr>pr_exits := wd_inner d, pr_exit_cond := wd_cond d\<rparr>) w)\<lparr>px_sched := wd_sched d\<rparr>"

definition exits_send :: "nat \<Rightarrow> waitpid_key \<Rightarrow> nat \<times> nat \<Rightarrow> proc_world \<Rightarrow> proc_world" where
  "exits_send p k v w = put_exits p (wm_send WaitpidKey_cmp k v (exits_of p w)) w"

definition threads_alive :: "nat \<Rightarrow> proc_world \<Rightarrow> nat list" where
  "threads_alive p w = filter (\<lambda>t. sc_ctx (px_sched w) t \<noteq> None) (pr_threads (px_proc w p))"

text \<open>\<open>reap\<close> spins while a thread of the process runs; the outer \<open>None\<close> says that it still does.\<close>

definition reap :: "nat \<Rightarrow> nat option procprog" where
  "reap pid =
     bindM (get_process pid) (\<lambda>p.
     bindM (getM (\<lambda>w. \<forall>t\<in>set (threads_alive p w). \<not> (case sc_ctx (px_sched w) t of Some x \<Rightarrow> ctx_running x | None \<Rightarrow> False))) (\<lambda>stopped.
     if \<not> stopped then retM None
     else bindM (modM (\<lambda>w. w\<lparr>px_table := filter (\<lambda>q. q \<noteq> pid) (px_table w)\<rparr>)) (\<lambda>_. retM (Some pid))))"

text \<open>
  The flags and the two classes of status words that are not exits come from the system call crate.
\<close>

record wait_env =
  we_continued :: "nat \<Rightarrow> bool"
  we_stopped :: "nat \<Rightarrow> bool"

record wait_flags =
  wf_nohang :: bool
  wf_untraced :: bool
  wf_continued :: bool

definition write_status :: "user_slice option \<Rightarrow> nat \<Rightarrow> unit procprog" where
  "write_status status_ptr v w =
     (case status_ptr of
        None \<Rightarrow> Inr (w, Inr ())
      | Some ptr \<Rightarrow> bindE (write_usize ptr v (px_user w)) (\<lambda>(m, r). Inr (w\<lparr>px_user := m\<rparr>, r)))"

text \<open>What becomes of a collected status: a result, nothing (the loop goes on), or a spinning \<open>reap\<close>.\<close>

datatype reaped = Done nat | Ignored | Spinning

definition grim_reaper :: "wait_env \<Rightarrow> user_slice option \<Rightarrow> wait_flags \<Rightarrow> nat \<Rightarrow> nat \<Rightarrow> reaped procprog" where
  "grim_reaper E status_ptr flags w_pid status =
     (if we_continued E status then
        if wf_continued flags then bindM (write_status status_ptr status) (\<lambda>_. retM (Done w_pid)) else retM Ignored
      else if we_stopped E status then
        if wf_untraced flags then bindM (write_status status_ptr status) (\<lambda>_. retM (Done w_pid)) else retM Ignored
      else
        bindM (write_status status_ptr status) (\<lambda>_.
        bindM (reap w_pid) (\<lambda>r. retM (case r of Some p \<Rightarrow> Done p | None \<Rightarrow> Spinning))))"

text \<open>Which children are waited for: any, those of a process group, or one.\<close>

datatype wait_for = AnyChild | OfGroup nat | OfPid nat

definition wait_for_of :: "usize \<Rightarrow> wait_for" where
  "wait_for_of pid = (if pid = 0 then AnyChild else if sint pid < 0 then OfGroup (unat (- pid)) else OfPid (unat pid))"

text \<open>The check at the start of every round; for one child that has exited, its status.\<close>

definition wait_check :: "nat \<Rightarrow> wait_for \<Rightarrow> nat option procprog" where
  "wait_check ppid sel = (case sel of
     AnyChild \<Rightarrow> bindM (getM (\<lambda>w. \<exists>q\<in>set (px_table w). pi_ppid (proc_info w q) = ppid)) (\<lambda>found. if found then retM None else errM ECHILD)
   | OfGroup pgid \<Rightarrow> bindM (getM (\<lambda>w. \<exists>q\<in>set (px_table w). pi_pgid (proc_info w q) = pgid)) (\<lambda>found. if found then retM None else errM ECHILD)
   | OfPid pid \<Rightarrow>
       bindM (get_process pid) (\<lambda>q.
       bindM (getM (\<lambda>w. px_proc w q)) (\<lambda>x.
       if pi_ppid (pr_info x) \<noteq> ppid then errM ECHILD
       else retM (case pr_status x of Exited status \<Rightarrow> Some status | _ \<Rightarrow> None))))"

definition wait_take :: "nat \<Rightarrow> wait_for \<Rightarrow> proc_world \<Rightarrow> proc_world \<times> (nat \<times> nat) option" where
  "wait_take ppid sel w = (case sel of
     AnyChild \<Rightarrow> (case wm_receive_any_nonblock WaitpidKey_cmp (exits_of ppid w) of (d, r) \<Rightarrow> (put_exits ppid d w, map_option snd r))
   | OfGroup pgid \<Rightarrow> (case wm_receive_nonblock WaitpidKey_cmp \<lparr>wk_pid = None, wk_pgid = Some pgid\<rparr> (exits_of ppid w) of (d, r) \<Rightarrow> (put_exits ppid d w, r))
   | OfPid pid \<Rightarrow> (case wm_receive_nonblock WaitpidKey_cmp \<lparr>wk_pid = Some pid, wk_pgid = None\<rparr> (exits_of ppid w) of (d, r) \<Rightarrow> (put_exits ppid d w, r)))"

text \<open>
  The loop.  \<open>n\<close> bounds the number of rounds; \<open>others k\<close> is what the rest of the system does while the caller
  is switched out with \<open>k\<close> rounds left, and \<open>waiting\<close> says that the caller has already passed the check and is
  inside the blocking receive.  \<open>None\<close> means that the call has not returned after \<open>n\<close> rounds.  Only the
  receive for any child goes on after an interruption.
\<close>

definition wait_reason :: "wait_for \<Rightarrow> string" where
  "wait_reason sel = (case sel of AnyChild \<Rightarrow> ''waitpid any'' | OfGroup _ \<Rightarrow> ''waitpid pgid'' | OfPid _ \<Rightarrow> ''waitpid pid'')"

fun waitpid_loop :: "(nat \<Rightarrow> bool) \<Rightarrow> wait_env \<Rightarrow> (nat \<Rightarrow> proc_world \<Rightarrow> proc_world) \<Rightarrow> nat \<Rightarrow> nat \<Rightarrow> wait_for \<Rightarrow> user_slice option \<Rightarrow> wait_flags \<Rightarrow> bool \<Rightarrow>
    nat option procprog" where
  "waitpid_loop pending E others 0 ppid sel status_ptr flags waiting = retM None"
| "waitpid_loop pending E others (Suc n) ppid sel status_ptr flags waiting =
     bindM (if waiting then retM None else wait_check ppid sel) (\<lambda>exited.
     bindM (\<lambda>w. case wait_take ppid sel w of (w, r) \<Rightarrow> Inr (w, Inr r)) (\<lambda>taken.
     case (case (exited, sel) of (Some status, OfPid pid) \<Rightarrow> Some (pid, status) | _ \<Rightarrow> taken) of
       Some (w_pid, status) \<Rightarrow>
         bindM (grim_reaper E status_ptr flags w_pid status) (\<lambda>r. case r of
            Done p \<Rightarrow> retM (Some p)
          | Ignored \<Rightarrow> waitpid_loop pending E others n ppid sel status_ptr flags False
          | Spinning \<Rightarrow> retM None)
     | None \<Rightarrow>
         if wf_nohang flags then retM (Some 0)
         else
           bindM (\<lambda>w. case wd_enter pending (wait_reason sel) (exits_of ppid w) of (d, b) \<Rightarrow> Inr (put_exits ppid d w, Inr (b, sc_current (px_sched w)))) (\<lambda>(entered, c).
           if \<not> entered then (if sel = AnyChild then waitpid_loop pending E others n ppid sel status_ptr flags True else errM EINTR)
           else
             bindM (modM (others n)) (\<lambda>_.
             bindM (\<lambda>w. case wd_leave c (exits_of ppid w) of (d, b) \<Rightarrow> Inr (put_exits ppid d w, Inr b)) (\<lambda>waited.
             if waited \<or> sel = AnyChild then waitpid_loop pending E others n ppid sel status_ptr flags True else errM EINTR)))))"

definition waitpid :: "(nat \<Rightarrow> bool) \<Rightarrow> wait_env \<Rightarrow> (nat \<Rightarrow> proc_world \<Rightarrow> proc_world) \<Rightarrow> nat \<Rightarrow> usize \<Rightarrow> user_slice option \<Rightarrow> wait_flags \<Rightarrow> nat option procprog" where
  "waitpid pending E others n pid status_ptr flags =
     bindM process_current (\<lambda>p.
     bindM (getM (\<lambda>w. pi_pid (proc_info w p))) (\<lambda>ppid.
       waitpid_loop pending E others n ppid (wait_for_of pid) status_ptr flags False))"

end
