(* ===== verification/Process_Signals.thy ===== *)
theory Process_Signals
  imports Process_Table
begin

text \<open>
  Sending signals and the end of a process (\<open>src/src/syscall/process.rs\<close>).  The signal numbers and the bit of
  a signal come from the system call crate and are parameters.
\<close>

unbundle bit_operations_syntax

section \<open>Sending a signal\<close>

record sig_consts =
  SIGCHLD :: nat
  SIGCONT :: nat
  SIGKILL :: nat
  SIGSTOP :: nat
  SIGTERM :: nat
  SIGTSTP :: nat
  SIGTTIN :: nat
  SIGTTOU :: nat
  sig_bit :: "nat \<Rightarrow> usize"

datatype kill_target = KProcess nat | KThread nat

datatype kill_mode = Idempotent | Queued "8 word list"

datatype send_result = Succeeded | SucceededSigchld nat nat nat | SucceededSigcont nat nat | FullQ | Invalid

definition set_thread :: "nat \<Rightarrow> (kcontext \<Rightarrow> kcontext) \<Rightarrow> proc_world \<Rightarrow> proc_world" where
  "set_thread c f w = w\<lparr>px_sched := (px_sched w)\<lparr>sc_ctx := (sc_ctx (px_sched w))(c := map_option f (sc_ctx (px_sched w) c))\<rparr>\<rparr>"

definition unblock_thread :: "nat \<Rightarrow> proc_world \<Rightarrow> proc_world" where
  "unblock_thread c w = w\<lparr>px_sched := unblock_ref c (px_sched w)\<rparr>"

definition upd_sig :: "nat \<Rightarrow> (signal_state \<Rightarrow> signal_state) \<Rightarrow> proc_world \<Rightarrow> proc_world" where
  "upd_sig c f w = w\<lparr>px_sig := (px_sig w)(c := map_option f (px_sig w c))\<rparr>"

definition upd_pctl :: "nat \<Rightarrow> (proc_control \<Rightarrow> proc_control) \<Rightarrow> proc_world \<Rightarrow> proc_world" where
  "upd_pctl a f w = w\<lparr>px_pctl := (px_pctl w)(a := f (px_pctl w a))\<rparr>"

definition upd_word :: "nat \<Rightarrow> nat \<Rightarrow> (usize \<Rightarrow> usize) \<Rightarrow> proc_world \<Rightarrow> proc_world" where
  "upd_word c g f = upd_sig c (\<lambda>s. s\<lparr>ss_thread := (ss_thread s)\<lparr>tc_word := (tc_word (ss_thread s))(g := f (tc_word (ss_thread s) g))\<rparr>\<rparr>)"

text \<open>A thread that allows the signal.\<close>

definition allows_signal :: "sig_consts \<Rightarrow> nat \<Rightarrow> nat \<Rightarrow> proc_world \<Rightarrow> nat \<Rightarrow> bool" where
  "allows_signal K sig sig_group w t = (case px_sig w t of None \<Rightarrow> False
     | Some s \<Rightarrow> drop_bit 32 (tc_word (ss_thread s) sig_group) AND sig_bit K sig \<noteq> 0)"

text \<open>Continuing a stopped process.\<close>

definition send_cont :: "sig_consts \<Rightarrow> nat \<Rightarrow> nat \<Rightarrow> proc_world \<Rightarrow> proc_world" where
  "send_cont K c p w =
     (let w = upd_proc p (\<lambda>x. x\<lparr>pr_status := PossiblyRunnable\<rparr>) w in
      case px_sig w c of None \<Rightarrow> w
      | Some s \<Rightarrow>
          let w = (if pc_will_ign (px_pctl w (ss_proc s)) (SIGCONT K) False then w
                   else upd_pctl (ss_proc s) (\<lambda>a. a\<lparr>pc_pending := pc_pending a OR sig_bit K (SIGCONT K)\<rparr>) w);
              stops = sig_bit K (SIGSTOP K) OR sig_bit K (SIGTTIN K) OR sig_bit K (SIGTTOU K) OR sig_bit K (SIGTSTP K)
          in fold (\<lambda>t w. unblock_thread t (upd_word t 0 (\<lambda>v. v AND NOT stops) w)) (threads_alive p w) w)"

text \<open>Stopping a process: the pending continue signal is taken back, once from the process and from every thread.\<close>

fun clear_cont :: "sig_consts \<Rightarrow> nat list \<Rightarrow> bool \<Rightarrow> proc_world \<Rightarrow> proc_world" where
  "clear_cont K [] already w = w"
| "clear_cont K (t # ts) already w =
     (case px_sig w t of None \<Rightarrow> clear_cont K ts already w
      | Some s \<Rightarrow>
          let w = (if already then w else upd_pctl (ss_proc s) (\<lambda>a. a\<lparr>pc_pending := pc_pending a AND NOT (sig_bit K (SIGCONT K))\<rparr>) w)
          in clear_cont K ts True (upd_word t 0 (\<lambda>v. v AND NOT (sig_bit K (SIGCONT K))) w))"

definition send_stop :: "sig_consts \<Rightarrow> nat \<Rightarrow> nat \<Rightarrow> nat \<Rightarrow> proc_world \<Rightarrow> proc_world" where
  "send_stop K c p sig w =
     (let w = set_thread c (\<lambda>x. x\<lparr>ctx_status := Blocked\<rparr>) w;
          w = upd_proc p (\<lambda>x. x\<lparr>pr_status := Stopped sig\<rparr>) w
      in clear_cont K (threads_alive p w) False w)"

text \<open>To one thread.  The second result is \<open>killed_self\<close>.\<close>

definition send_to_thread :: "sig_consts \<Rightarrow> nat \<Rightarrow> nat \<Rightarrow> sender_info \<Rightarrow> proc_world \<Rightarrow> proc_world \<times> bool" where
  "send_to_thread K c sig sender w =
     (let sig_group = (sig - 1) div 32;
          w = upd_sig c (\<lambda>s. s\<lparr>ss_thread := (ss_thread s)\<lparr>tc_sender := (tc_sender (ss_thread s))(sig - 1 := sender)\<rparr>\<rparr>) w;
          w = upd_word c sig_group (\<lambda>v. v OR sig_bit K sig) w
      in if allows_signal K sig sig_group w c then (unblock_thread c w, sc_current (px_sched w) = c) else (w, False))"

text \<open>To a process: record the signal, then wake the first thread that allows it.\<close>

definition record_signal :: "sig_consts \<Rightarrow> nat \<Rightarrow> nat \<Rightarrow> nat \<Rightarrow> kill_mode \<Rightarrow> sender_info \<Rightarrow> proc_world \<Rightarrow> proc_world \<times> send_result option" where
  "record_signal K c a sig mode sender w =
     (let sig_group = (sig - 1) div 32; idx = sig - 1 in
      case mode of
        Queued arg \<Rightarrow>
          if sig_group \<noteq> 1 \<or> idx < 32 \<or> 64 \<le> idx then (w, Some Invalid)
          else
            let rt = idx - 32;
                w = upd_sig c (\<lambda>s. s\<lparr>ss_rtqs := ss_rtqs s @ replicate (rt + 1 - length (ss_rtqs s)) []\<rparr>) w;
                q = (case px_sig w c of Some s \<Rightarrow> ss_rtqs s ! rt | None \<Rightarrow> [])
            in if 32 < length q then (w, Some FullQ)
               else (upd_sig c (\<lambda>s. s\<lparr>ss_rtqs := (ss_rtqs s)[rt := q @ [arg]]\<rparr>) w, None)
      | Idempotent \<Rightarrow>
          if pc_pending (px_pctl w a) AND sig_bit K sig \<noteq> 0 then (w, Some Succeeded)
          else if sig_group \<noteq> 0 then (w, Some Invalid)
          else (upd_pctl a (\<lambda>x. x\<lparr>pc_sender := (pc_sender x)(idx := sender)\<rparr>) w, None))"

definition send_to_process :: "sig_consts \<Rightarrow> nat \<Rightarrow> nat \<Rightarrow> nat \<Rightarrow> nat \<Rightarrow> kill_mode \<Rightarrow> sender_info \<Rightarrow> proc_world \<Rightarrow> proc_world \<times> send_result \<times> bool" where
  "send_to_process K c p a sig mode sender w =
     (case record_signal K c a sig mode sender w of
        (w, Some r) \<Rightarrow> (w, r, False)
      | (w, None) \<Rightarrow>
          let w = upd_pctl a (\<lambda>x. x\<lparr>pc_pending := pc_pending x OR sig_bit K sig\<rparr>) w in
          (case filter (allows_signal K sig ((sig - 1) div 32) w) (threads_alive p w) of
             [] \<Rightarrow> (w, Succeeded, False)
           | t # _ \<Rightarrow> (unblock_thread t w, Succeeded, sc_current (px_sched w) = c)))"

definition send_core :: "sig_consts \<Rightarrow> kill_target \<Rightarrow> nat \<Rightarrow> nat \<Rightarrow> nat \<Rightarrow> kill_mode \<Rightarrow> bool \<Rightarrow> sender_info \<Rightarrow> proc_world \<Rightarrow> proc_world \<times> send_result \<times> bool" where
  "send_core K target c p sig mode is_sigchld_to_parent sender w =
     (let info = proc_info w p; is_self = (sc_current (px_sched w) = c) in
      if sig = 0 then (w, Succeeded, False)
      else if sig = SIGCONT K \<and> (case pr_status (px_proc w p) of Stopped _ \<Rightarrow> True | _ \<Rightarrow> False)
      then (send_cont K c p w, SucceededSigcont (pi_ppid info) (pi_pgid info), False)
      else if sig = SIGSTOP K \<or> sig \<in> {SIGTTIN K, SIGTTOU K, SIGTSTP K} \<and>
             (case px_sig w c of Some s \<Rightarrow> pc_will_stop (px_pctl w (ss_proc s)) sig | None \<Rightarrow> False)
      then (send_stop K c p sig w, SucceededSigchld (pi_ppid info) (pi_pgid info) sig, False)
      else if sig = SIGKILL K
      then (unblock_thread c (set_thread c (\<lambda>x. x\<lparr>ctx_being_sigkilled := True\<rparr>) w), Succeeded, is_self)
      else
        case px_sig w c of
          None \<Rightarrow> (w, Succeeded, False)
        | Some s \<Rightarrow>
            if pc_will_ign (px_pctl w (ss_proc s)) sig is_sigchld_to_parent then (w, Succeeded, False)
            else
              (case target of
                 KThread _ \<Rightarrow> (case send_to_thread K c sig sender w of (w, k) \<Rightarrow> (w, Succeeded, k))
               | KProcess q \<Rightarrow> send_to_process K c q (ss_proc s) sig mode sender w))"

text \<open>
  The call, which returns \<open>killed_self\<close>.  Stopping a process sends \<open>SIGCHLD\<close> to its parent by a second call;
  \<open>depth\<close> bounds these calls.
\<close>

definition signal_context :: "kill_target \<Rightarrow> (nat \<times> nat) procprog" where
  "signal_context target = (case target of
     KThread c \<Rightarrow> getM (\<lambda>w. (c, case sc_ctx (px_sched w) c of Some x \<Rightarrow> ctx_pid x | None \<Rightarrow> 0))
   | KProcess p \<Rightarrow> bindM (getM (threads_alive p)) (\<lambda>ts. case ts of [] \<Rightarrow> errM ESRCH | c # _ \<Rightarrow> retM (c, p)))"

fun send_signal :: "sig_consts \<Rightarrow> nat \<Rightarrow> kill_target \<Rightarrow> nat \<Rightarrow> kill_mode \<Rightarrow> bool \<Rightarrow> sender_info \<Rightarrow> bool procprog" where
  "send_signal K 0 target sig mode is_sigchld_to_parent sender = liftE (Inl (Panic ''recursion''))"
| "send_signal K (Suc depth) target sig mode is_sigchld_to_parent sender =
     (if 64 < sig then errM EINVAL
      else
        bindM (signal_context target) (\<lambda>(c, p).
        bindM (getM (\<lambda>w. pi_pid (proc_info w p))) (\<lambda>pid.
        bindM (\<lambda>w. case send_core K target c p sig mode is_sigchld_to_parent sender w of (w, r, k) \<Rightarrow> Inr (w, Inr (r, k))) (\<lambda>(r, k).
        case r of
          Succeeded \<Rightarrow> retM k
        | FullQ \<Rightarrow> errM EAGAIN
        | Invalid \<Rightarrow> errM EINVAL
        | SucceededSigchld ppid pgid orig \<Rightarrow>
            bindM (get_process ppid) (\<lambda>parent.
            bindM (modM (exits_send parent \<lparr>wk_pid = Some pid, wk_pgid = Some pgid\<rparr> (pid, (orig * 256) mod 2 ^ 64 OR 127))) (\<lambda>_.
            bindM (send_signal K depth (KProcess parent) (SIGCHLD K) mode True sender) (\<lambda>k2. retM (k \<or> k2))))
        | SucceededSigcont ppid pgid \<Rightarrow>
            bindM (get_process ppid) (\<lambda>parent.
            bindM (modM (exits_send parent \<lparr>wk_pid = Some pid, wk_pgid = Some pgid\<rparr> (pid, 65535))) (\<lambda>_.
              retM k))))))"

section \<open>kill\<close>

definition can_send :: "process_info \<Rightarrow> process_info \<Rightarrow> bool" where
  "can_send me other = (pi_euid me = 0 \<or> pi_euid me = pi_ruid other \<or> pi_ruid me = pi_ruid other)"

text \<open>The loop over the processes that match; the counters are \<open>found\<close>, \<open>sent\<close> and \<open>killed_self\<close>.\<close>

fun kill_each :: "sig_consts \<Rightarrow> process_info \<Rightarrow> nat \<Rightarrow> kill_mode \<Rightarrow> sender_info \<Rightarrow> (proc_world \<Rightarrow> nat \<Rightarrow> bool) \<Rightarrow> nat list \<Rightarrow> nat \<times> nat \<times> bool \<Rightarrow>
    (nat \<times> nat \<times> bool) procprog" where
  "kill_each K me sig mode sender matches [] counts = retM counts"
| "kill_each K me sig mode sender matches (p # ps) (found, sent, killed) =
     bindM (getM (\<lambda>w. (matches w p, can_send me (proc_info w p)))) (\<lambda>(m, ok).
     if \<not> m then kill_each K me sig mode sender matches ps (found, sent, killed)
     else if \<not> ok then kill_each K me sig mode sender matches ps (Suc found, sent, killed)
     else
       bindM (send_signal K 2 (KProcess p) sig mode False sender) (\<lambda>k.
         kill_each K me sig mode sender matches ps (Suc found, Suc sent, killed \<or> k)))"

text \<open>Who is recorded as the sender; a process id of more than 32 bits is recorded as 0.\<close>

definition sender_of :: "process_info \<Rightarrow> sender_info" where
  "sender_of i = \<lparr>si_pid = (if pi_pid i < 2 ^ 32 then pi_pid i else 0), si_ruid = pi_ruid i\<rparr>"

text \<open>Signals to the first process from root stop or reset the machine.\<close>

definition kill :: "sig_consts \<Rightarrow> usize \<Rightarrow> nat \<Rightarrow> kill_mode \<Rightarrow> nat procprog" where
  "kill K pid sig mode =
     bindM process_current (\<lambda>cur.
     bindM (getM (\<lambda>w. proc_info w cur)) (\<lambda>me.
     let sender = sender_of me in
     if pi_euid me = 0 \<and> pid = 1 then
       if sig = SIGTERM K then liftE (Inl (Panic ''kreset'')) else if sig = SIGKILL K then liftE (Inl (Panic ''kstop'')) else retM 0
     else
       bindM (getM px_table) (\<lambda>t.
       bindM (if 0 < sint pid then kill_each K me sig mode sender (\<lambda>_ p. p = unat pid) (filter (\<lambda>p. p = unat pid) t) (0, 0, False)
              else if pid = - 1 then kill_each K me sig mode sender (\<lambda>_ p. 1 < p) t (0, 0, False)
              else
                let pgid = (if pid = 0 then pi_pgid me else unat (- pid)) in
                kill_each K me sig mode sender (\<lambda>w p. pi_pgid (proc_info w p) = pgid) t (0, 0, False)) (\<lambda>(found, sent, killed_self).
       if found = 0 then errM ESRCH else if sent = 0 then errM EPERM else if killed_self then errM EINTR else retM 0))))"

section \<open>Real-time signals\<close>

definition sigdequeue :: "user_slice \<Rightarrow> nat \<Rightarrow> unit procprog" where
  "sigdequeue out sig_idx =
     bindM (getM (\<lambda>w. (sc_current (px_sched w), px_sig w (sc_current (px_sched w))))) (\<lambda>(c, so).
     case so of None \<Rightarrow> errM ESRCH
     | Some s \<Rightarrow>
         if 32 \<le> sig_idx then errM EINVAL
         else if length (ss_rtqs s) \<le> sig_idx then errM EAGAIN
         else (case ss_rtqs s ! sig_idx of
           [] \<Rightarrow> errM EAGAIN
         | front # q \<Rightarrow>
             bindM (modM (upd_sig c (\<lambda>s. s\<lparr>ss_rtqs := (ss_rtqs s)[sig_idx := q]\<rparr>))) (\<lambda>_.
             bindM (if q = [] then modM (upd_pctl (ss_proc s) (\<lambda>a. a\<lparr>pc_pending := pc_pending a AND NOT (push_bit (32 + sig_idx) 1)\<rparr>)) else retM ()) (\<lambda>_.
             (\<lambda>w. bindE (copy_exactly out front (px_user w)) (\<lambda>(m, r). Inr (w\<lparr>px_user := m\<rparr>, r)))))))"

section \<open>The end of a process\<close>

text \<open>
  Killing the other threads: each is made runnable with the kill flag set, and the caller switches away
  until it is dead.  \<open>others t\<close> is what happens meanwhile.
\<close>

definition wait_for_exit :: "(nat \<Rightarrow> proc_world \<Rightarrow> proc_world) \<Rightarrow> nat \<Rightarrow> proc_world \<Rightarrow> proc_world" where
  "wait_for_exit others t w = others t (set_thread t (\<lambda>x. x\<lparr>ctx_status := Runnable, ctx_being_sigkilled := True\<rparr>) w)"

text \<open>
  The part that tells the parent: a \<open>SIGCHLD\<close> whose failure is ignored, the children that move to the
  parent, the exits not yet collected, and the exit of the process itself.
\<close>

definition reparent :: "nat \<Rightarrow> nat \<Rightarrow> proc_world \<Rightarrow> proc_world" where
  "reparent me ppid w = fold (\<lambda>q w. if pi_ppid (proc_info w q) = me then upd_info q (\<lambda>i. i\<lparr>pi_ppid := ppid\<rparr>) w else w) (px_table w) w"

definition hand_over :: "nat \<Rightarrow> nat \<Rightarrow> nat \<Rightarrow> nat \<Rightarrow> proc_world \<Rightarrow> proc_world" where
  "hand_over me pgid ppid status w =
     (case wm_receive_all (exits_of me w) of (d, children) \<Rightarrow>
        let w = put_exits me d w in
        if ppid \<in> set (px_table w)
        then exits_send ppid \<lparr>wk_pid = Some me, wk_pgid = Some pgid\<rparr> (me, status) (fold (\<lambda>(k, v). exits_send ppid k v) children w)
        else w)"

definition exit_notify :: "sig_consts \<Rightarrow> nat \<Rightarrow> nat \<Rightarrow> unit procprog" where
  "exit_notify K me status =
     bindM (getM (\<lambda>w. proc_info w me)) (\<lambda>info.
     bindM (getM (\<lambda>w. pi_ppid info \<in> set (px_table w))) (\<lambda>has_parent.
     bindM (if has_parent then bindM (tryM (send_signal K 2 (KProcess (pi_ppid info)) (SIGCHLD K) Idempotent True (sender_of info))) (\<lambda>_. retM ()) else retM ()) (\<lambda>_.
     bindM (modM (reparent (pi_pid info) (pi_ppid info))) (\<lambda>_.
     bindM (modM (upd_proc me (\<lambda>x. x\<lparr>pr_status := Exited status\<rparr>))) (\<lambda>_.
       modM (hand_over (pi_pid info) (pi_pgid info) (pi_ppid info) status))))))"

text \<open>
  The end of a context: \<open>others\<close> closes its files and drops its address space, then it is dead.  The set of
  contexts that it leaves, and the switch that follows, belong to the scheduler.
\<close>

definition exit_this_context :: "(nat \<Rightarrow> proc_world \<Rightarrow> proc_world) \<Rightarrow> unit procprog" where
  "exit_this_context others =
     bindM (getM (\<lambda>w. sc_current (px_sched w))) (\<lambda>c.
     bindM (modM (set_thread c (\<lambda>x. x\<lparr>ctx_addr_space := None\<rparr>))) (\<lambda>_.
     bindM (modM (others c)) (\<lambda>_.
       modM (set_thread c (\<lambda>x. x\<lparr>ctx_status := Dead\<rparr>)))))"

definition exit :: "sig_consts \<Rightarrow> (nat \<Rightarrow> proc_world \<Rightarrow> proc_world) \<Rightarrow> nat \<Rightarrow> unit procprog" where
  "exit K others status =
     bindM (tryM process_current) (\<lambda>r.
     bindM (case r of Inr p \<Rightarrow> retM p | Inl _ \<Rightarrow> liftE (Inl (Panic ''called Result::unwrap() on an Err value''))) (\<lambda>me.
     bindM (getM (\<lambda>w. pr_status (px_proc w me))) (\<lambda>old.
     bindM (modM (upd_proc me (\<lambda>x. x\<lparr>pr_status := Exiting\<rparr>))) (\<lambda>_.
     if old = Exiting then exit_this_context others
     else
       bindM (getM (\<lambda>w. (sc_current (px_sched w), threads_alive me w))) (\<lambda>(c, ts).
       bindM (modM (upd_proc me (\<lambda>x. x\<lparr>pr_threads := []\<rparr>))) (\<lambda>_.
       bindM (modM (fold (wait_for_exit others) (filter (\<lambda>t. t \<noteq> c) ts))) (\<lambda>_.
       bindM (exit_notify K me status) (\<lambda>_.
         exit_this_context others))))))))"

section \<open>What signals leave alone\<close>

text \<open>The table and the identities of all processes.\<close>

definition same_ids :: "proc_world \<Rightarrow> proc_world \<Rightarrow> bool" where
  "same_ids w w' = (px_table w' = px_table w \<and> (\<forall>q. proc_info w' q = proc_info w q))"

lemma same_ids_refl [simp]: "same_ids w w"
  by (simp add: same_ids_def)

lemma same_ids_trans: "same_ids w w' \<Longrightarrow> same_ids w' w'' \<Longrightarrow> same_ids w w''"
  by (simp add: same_ids_def)

text \<open>Changes to contexts and control words keep the processes altogether.\<close>

lemma keeps_processes [simp]:
  "px_proc (set_thread c f w) = px_proc w" "px_table (set_thread c f w) = px_table w"
  "px_proc (unblock_thread c w) = px_proc w" "px_table (unblock_thread c w) = px_table w"
  "px_proc (upd_sig c g w) = px_proc w" "px_table (upd_sig c g w) = px_table w"
  "px_proc (upd_pctl a h w) = px_proc w" "px_table (upd_pctl a h w) = px_table w"
  "px_proc (upd_word c n u w) = px_proc w" "px_table (upd_word c n u w) = px_table w"
  "px_table (upd_proc p k w) = px_table w" "px_table (upd_info p i w) = px_table w"
  "px_table (put_exits p d w) = px_table w" "px_table (exits_send p key v w) = px_table w"
  by (simp_all add: set_thread_def unblock_thread_def upd_sig_def upd_pctl_def upd_word_def upd_proc_def upd_info_def put_exits_def exits_send_def)

lemma fold_keeps: "(\<And>t w. P w \<Longrightarrow> P (f t w)) \<Longrightarrow> P w \<Longrightarrow> P (fold f ts w)"
  by (induction ts arbitrary: w) auto

lemma same_ids_upd:
  "(\<And>x. pr_info (f x) = pr_info x) \<Longrightarrow> same_ids w (upd_proc p f w)" "same_ids w (put_exits p d w)" "same_ids w (exits_send p k v w)"
  by (simp_all add: same_ids_def upd_proc_def put_exits_def exits_send_def)

lemma same_ids_eq: "px_proc w' = px_proc w \<Longrightarrow> px_table w' = px_table w \<Longrightarrow> same_ids w w'"
  by (simp add: same_ids_def)

lemma send_cont_ids: "same_ids w (send_cont K c p w)"
proof -
  let ?v = "upd_proc p (\<lambda>x. x\<lparr>pr_status := PossiblyRunnable\<rparr>) w"
  have v: "same_ids w ?v" by (rule same_ids_upd) simp
  have f: "same_ids w u \<Longrightarrow> same_ids w (fold (\<lambda>t w. unblock_thread t (upd_word t 0 h w)) ts u)" for ts h u
    by (rule fold_keeps) (auto simp: same_ids_def)
  show ?thesis
  proof (cases "px_sig ?v c")
    case None
    then show ?thesis using v by (simp add: send_cont_def Let_def)
  next
    case (Some s)
    then show ?thesis using v by (auto simp: send_cont_def Let_def intro!: f) (simp add: same_ids_def)
  qed
qed

lemma clear_cont_processes: "px_proc (clear_cont K ts already w) = px_proc w \<and> px_table (clear_cont K ts already w) = px_table w"
  by (induction K ts already w rule: clear_cont.induct) (auto simp: Let_def split: option.splits)

lemma send_stop_ids: "same_ids w (send_stop K c p sig w)"
  by (simp add: send_stop_def Let_def same_ids_def clear_cont_processes upd_proc_def)

lemma send_to_process_processes:
  "send_to_process K c p a sig mode sender w = (w', r, k) \<Longrightarrow> px_proc w' = px_proc w \<and> px_table w' = px_table w \<and> r \<in> {Succeeded, FullQ, Invalid}"
  by (auto simp: send_to_process_def record_signal_def Let_def split: kill_mode.splits if_splits list.splits option.splits)

lemma send_core_ids:
  assumes "send_core K target c p sig mode chld sender w = (w', r, k)"
  shows "same_ids w w'"
  using assms send_cont_ids [of w K c p] send_stop_ids [of w K c p sig]
  by (auto simp: send_core_def send_to_thread_def Let_def split: if_splits option.splits kill_target.splits prod.splits
      intro!: same_ids_eq dest: send_to_process_processes)

text \<open>An ordinary signal neither stops nor continues, and changes no process.\<close>

definition plain_signal :: "sig_consts \<Rightarrow> nat \<Rightarrow> bool" where
  "plain_signal K sig = (sig \<le> 64 \<and> sig \<notin> {SIGCONT K, SIGSTOP K, SIGTTIN K, SIGTTOU K, SIGTSTP K})"

lemma send_core_plain:
  assumes "send_core K target c p sig mode chld sender w = (w', r, k)" "plain_signal K sig"
  shows "px_proc w' = px_proc w \<and> px_table w' = px_table w \<and> r \<in> {Succeeded, FullQ, Invalid}"
  using assms
  by (auto simp: send_core_def send_to_thread_def plain_signal_def Let_def split: if_splits option.splits kill_target.splits prod.splits
      dest: send_to_process_processes)

lemma signal_context_run: "\<exists>r. signal_context target w = Inr (w, r)"
  by (auto simp: signal_context_def split: kill_target.splits list.splits)

lemma get_process_run: "get_process p w = Inr (w, if p \<in> set (px_table w) then Inr p else Inl ESRCH)"
  by (simp add: get_process_def)

lemma send_plain:
  assumes "plain_signal K sig"
  shows "\<exists>w' r. send_signal K (Suc d) target sig mode chld sender w = Inr (w', r) \<and> px_proc w' = px_proc w \<and> px_table w' = px_table w"
proof -
  obtain r where r: "signal_context target w = Inr (w, r)" using signal_context_run by blast
  show ?thesis
  proof (cases r)
    case (Inl e)
    then show ?thesis using r assms by (simp add: plain_signal_def)
  next
    case (Inr cp)
    obtain c p where cp: "cp = (c, p)" by (cases cp)
    obtain w' q k where s: "send_core K target c p sig mode chld sender w = (w', q, k)" by (metis prod_cases3)
    have q: "px_proc w' = px_proc w \<and> px_table w' = px_table w \<and> q \<in> {Succeeded, FullQ, Invalid}" by (rule send_core_plain [OF s assms])
    then show ?thesis using r Inr cp s assms by (auto simp: plain_signal_def)
  qed
qed

text \<open>Two levels are enough, and no signal changes an identity.\<close>

lemma send_signal_ids:
  assumes "plain_signal K (SIGCHLD K)"
  shows "\<exists>w' r. send_signal K (Suc (Suc d)) target sig mode chld sender w = Inr (w', r) \<and> same_ids w w'"
proof (cases "64 < sig")
  case False
  obtain r where r: "signal_context target w = Inr (w, r)" using signal_context_run by blast
  show ?thesis
  proof (cases r)
    case (Inr cp)
    obtain c p where cp: "cp = (c, p)" by (cases cp)
    obtain w1 q k where s: "send_core K target c p sig mode chld sender w = (w1, q, k)" by (metis prod_cases3)
    note ids = send_core_ids [OF s]
    have step: "send_signal K (Suc (Suc d)) target sig mode chld sender w =
      (case q of
          Succeeded \<Rightarrow> retM k | FullQ \<Rightarrow> errM EAGAIN | Invalid \<Rightarrow> errM EINVAL
        | SucceededSigchld ppid pgid orig \<Rightarrow>
            bindM (get_process ppid) (\<lambda>parent.
            bindM (modM (exits_send parent \<lparr>wk_pid = Some (pi_pid (proc_info w p)), wk_pgid = Some pgid\<rparr> (pi_pid (proc_info w p), (orig * 256) mod 2 ^ 64 OR 127))) (\<lambda>_.
            bindM (send_signal K (Suc d) (KProcess parent) (SIGCHLD K) mode True sender) (\<lambda>k2. retM (k \<or> k2))))
        | SucceededSigcont ppid pgid \<Rightarrow>
            bindM (get_process ppid) (\<lambda>parent.
            bindM (modM (exits_send parent \<lparr>wk_pid = Some (pi_pid (proc_info w p)), wk_pgid = Some pgid\<rparr> (pi_pid (proc_info w p), 65535))) (\<lambda>_.
              retM k))) w1"
      using r Inr cp s False by simp
    show ?thesis
    proof (cases q)
      case (SucceededSigchld ppid pgid orig)
      let ?w2 = "exits_send ppid \<lparr>wk_pid = Some (pi_pid (proc_info w p)), wk_pgid = Some pgid\<rparr> (pi_pid (proc_info w p), (orig * 256) mod 2 ^ 64 OR 127) w1"
      obtain w3 r3 where 3: "send_signal K (Suc d) (KProcess ppid) (SIGCHLD K) mode True sender ?w2 = Inr (w3, r3)" "px_proc w3 = px_proc ?w2 \<and> px_table w3 = px_table ?w2"
        using send_plain [OF assms] by blast
      have "same_ids w w3" using ids same_ids_upd(3) [of w1] same_ids_eq [of w3 ?w2] 3(2) by (meson same_ids_trans)
      then show ?thesis using step SucceededSigchld 3(1) ids
        by (cases "ppid \<in> set (px_table w1)"; cases r3) (simp_all add: get_process_run del: send_signal.simps)
    next
      case (SucceededSigcont ppid pgid)
      then show ?thesis using step ids same_ids_trans [OF ids same_ids_upd(3)]
        by (cases "ppid \<in> set (px_table w1)") (simp_all add: get_process_run del: send_signal.simps)
    qed (use step ids in auto)
  qed (use r False in simp)
qed simp

section \<open>kill as one pass over the targets\<close>

text \<open>The reference: who is meant, who may be signalled, and one signal to each of them in order.\<close>

definition kill_targets :: "process_info \<Rightarrow> usize \<Rightarrow> proc_world \<Rightarrow> nat list" where
  "kill_targets me pid w =
     (if 0 < sint pid then filter (\<lambda>p. p = unat pid) (px_table w)
      else if pid = - 1 then filter (\<lambda>p. 1 < p) (px_table w)
      else filter (\<lambda>p. pi_pgid (proc_info w p) = (if pid = 0 then pi_pgid me else unat (- pid))) (px_table w))"

fun send_all :: "sig_consts \<Rightarrow> nat \<Rightarrow> kill_mode \<Rightarrow> sender_info \<Rightarrow> nat list \<Rightarrow> bool procprog" where
  "send_all K sig mode sender [] = retM False"
| "send_all K sig mode sender (p # ps) =
     bindM (send_signal K 2 (KProcess p) sig mode False sender) (\<lambda>k.
     bindM (send_all K sig mode sender ps) (\<lambda>k2. retM (k \<or> k2)))"

lemma kill_each_eq:
  assumes K: "plain_signal K (SIGCHLD K)" and m: "\<And>w w'. same_ids w w' \<Longrightarrow> matches w' = matches w"
  shows "kill_each K me sig mode sender matches ps (f, s, k) w =
    bindM (send_all K sig mode sender (filter (\<lambda>p. can_send me (proc_info w p)) (filter (matches w) ps)))
      (\<lambda>k'. retM (f + length (filter (matches w) ps), s + length (filter (\<lambda>p. can_send me (proc_info w p)) (filter (matches w) ps)), k \<or> k')) w"
proof (induction ps arbitrary: f s k w)
  case (Cons p ps)
  show ?case
  proof (cases "matches w p \<and> can_send me (proc_info w p)")
    case False
    then show ?thesis using Cons by auto
  next
    case True
    obtain w' r where r: "send_signal K 2 (KProcess p) sig mode False sender w = Inr (w', r)" "same_ids w w'"
      using send_signal_ids [OF K, of 0] by (metis Suc_1 One_nat_def)
    have e: "matches w' = matches w" "(\<lambda>p. can_send me (proc_info w' p)) = (\<lambda>p. can_send me (proc_info w p))"
      using m [OF r(2)] r(2) by (auto simp: same_ids_def)
    show ?thesis
    proof (cases r)
      case (Inl err)
      then show ?thesis using True r(1) by (simp del: send_signal.simps)
    next
      case (Inr k2)
      have "kill_each K me sig mode sender matches (p # ps) (f, s, k) w = kill_each K me sig mode sender matches ps (Suc f, Suc s, k \<or> k2) w'"
        using True r(1) Inr by (simp del: send_signal.simps)
      also have "\<dots> = bindM (send_all K sig mode sender (filter (\<lambda>p. can_send me (proc_info w p)) (filter (matches w) ps)))
          (\<lambda>k'. retM (Suc f + length (filter (matches w) ps), Suc s + length (filter (\<lambda>p. can_send me (proc_info w p)) (filter (matches w) ps)), (k \<or> k2) \<or> k')) w'"
        unfolding Cons.IH e ..
      finally show ?thesis using True r(1) Inr
        by (simp del: send_signal.simps) (simp add: bindM_def bindE_def disj_assoc split: sum.splits)
    qed
  qed
qed simp

text \<open>What \<open>SIGKILL\<close> does to a set of contexts.\<close>

definition struck :: "kcontext \<Rightarrow> kcontext" where
  "struck x = (if is_soft_blocked (ctx_status x) then x\<lparr>ctx_being_sigkilled := True, ctx_status := Runnable, ctx_status_reason := []\<rparr>
     else x\<lparr>ctx_being_sigkilled := True\<rparr>)"

definition strike :: "nat set \<Rightarrow> proc_world \<Rightarrow> proc_world" where
  "strike C w = w\<lparr>px_sched := (px_sched w)\<lparr>sc_ctx := \<lambda>c. map_option (if c \<in> C then struck else id) (sc_ctx (px_sched w) c)\<rparr>\<rparr>"

lemma strike_empty [simp]: "strike {} w = w"
  by (simp add: strike_def option.map_id)

lemma struck_idem: "struck (struck x) = struck x"
  by (simp add: struck_def is_soft_blocked_def)

lemma strike_strike: "strike C (strike D w) = strike (C \<union> D) w"
proof -
  have "(\<lambda>c. map_option (if c \<in> C then struck else id) (map_option (if c \<in> D then struck else id) (sc_ctx (px_sched w) c))) =
      (\<lambda>c. map_option (if c \<in> C \<union> D then struck else id) (sc_ctx (px_sched w) c))"
    by (rule ext) (simp add: option.map_comp comp_def struck_idem id_def)
  then show ?thesis by (simp add: strike_def)
qed

lemma strike_simps [simp]:
  "px_proc (strike C w) = px_proc w" "px_table (strike C w) = px_table w" "sc_current (px_sched (strike C w)) = sc_current (px_sched w)"
  "threads_alive p (strike C w) = threads_alive p w"
  by (simp_all add: strike_def threads_alive_def)

lemma send_core_kill:
  assumes "plain_signal K (SIGKILL K)" "SIGKILL K \<noteq> 0"
  shows "send_core K target c p (SIGKILL K) mode chld sender w = (strike {c} w, Succeeded, sc_current (px_sched w) = c)"
proof -
  have "unblock_thread c (set_thread c (\<lambda>x. x\<lparr>ctx_being_sigkilled := True\<rparr>) w) = strike {c} w"
  proof -
    have "sc_ctx (unblock_ref c ((px_sched w)\<lparr>sc_ctx := (sc_ctx (px_sched w))(c := map_option (\<lambda>x. x\<lparr>ctx_being_sigkilled := True\<rparr>) (sc_ctx (px_sched w) c))\<rparr>)) d =
        sc_ctx (px_sched (strike {c} w)) d" for d
      by (cases "sc_ctx (px_sched w) c")
        (auto simp: unblock_ref_def strike_def struck_def ctx_unblock_def unblock_no_ipi_def option.map_id split: if_splits)
    then show ?thesis
      by (auto simp: unblock_thread_def set_thread_def strike_def unblock_ref_def fun_eq_iff split: option.splits)
  qed
  then show ?thesis using assms by (simp add: send_core_def plain_signal_def Let_def)
qed

lemma send_kill:
  assumes K: "plain_signal K (SIGKILL K)" "SIGKILL K \<noteq> 0" "SIGKILL K \<le> 64"
  shows "send_signal K 2 (KProcess p) (SIGKILL K) mode False sender w =
    (case threads_alive p w of [] \<Rightarrow> Inr (w, Inl ESRCH) | c # _ \<Rightarrow> Inr (strike {c} w, Inr (sc_current (px_sched w) = c)))"
proof -
  have 2: "(2::nat) = Suc 1" by simp
  show ?thesis unfolding 2
    using K(3) send_core_kill [OF K(1,2)] by (cases "threads_alive p w") (simp_all add: signal_context_def bindM_def bindE_def getM_def retM_def errM_def)
qed

lemma send_all_kill:
  assumes K: "plain_signal K (SIGKILL K)" "SIGKILL K \<noteq> 0" "SIGKILL K \<le> 64"
  shows "let ls = takeWhile (\<lambda>p. threads_alive p w \<noteq> []) ps; C = (\<lambda>p. hd (threads_alive p w)) ` set ls in
    send_all K (SIGKILL K) mode sender ps w = Inr (strike C w, if ls = ps then Inr (sc_current (px_sched w) \<in> C) else Inl ESRCH)"
proof (induction ps arbitrary: w)
  case (Cons p ps)
  show ?case
  proof (cases "threads_alive p w")
    case Nil
    then show ?thesis by (simp add: bindM_def send_kill [OF K])
  next
    case (Cons c ts)
    have e: "(\<lambda>q. threads_alive q (strike {c} w) \<noteq> []) = (\<lambda>q. threads_alive q w \<noteq> [])" by simp
    show ?thesis using Cons Cons.IH [of "strike {c} w"]
      by (auto simp: bindM_def bindE_def retM_def send_kill [OF K] strike_strike Let_def insert_commute Un_commute simp del: send_signal.simps split: if_splits)
  qed
qed (simp add: retM_def)

text \<open>Exits in a map that is ordered by process.\<close>

lemma exits_send_proc:
  "px_proc (exits_send p k v w) = (px_proc w)(p := (px_proc w p)\<lparr>pr_exits := wm_insert WaitpidKey_cmp k v (pr_exits (px_proc w p)), pr_exit_cond := []\<rparr>)"
  by (simp add: exits_send_def put_exits_def exits_of_def wm_send_def wd_notify_def wc_notify_def upd_proc_def)

lemma exits_send_other: "q \<noteq> p \<Longrightarrow> px_proc (exits_send p k v w) q = px_proc w q"
  by (simp add: exits_send_proc)

lemma fold_exits:
  assumes "by_pid es" "by_pid (pr_exits (px_proc w p))"
  shows "by_pid (pr_exits (px_proc (fold (\<lambda>(k, v). exits_send p k v) es w) p)) \<and>
    exit_of (pr_exits (px_proc (fold (\<lambda>(k, v). exits_send p k v) es w) p)) = exit_of (pr_exits (px_proc w p)) ++ exit_of es \<and>
    pr_info (px_proc (fold (\<lambda>(k, v). exits_send p k v) es w) p) = pr_info (px_proc w p) \<and>
    (\<forall>q. q \<noteq> p \<longrightarrow> px_proc (fold (\<lambda>(k, v). exits_send p k v) es w) q = px_proc w q) \<and>
    px_table (fold (\<lambda>(k, v). exits_send p k v) es w) = px_table w"
  using assms
proof (induction es arbitrary: w)
  case (Cons e es)
  obtain k v where e: "e = (k, v)" by (cases e)
  obtain q where q: "wk_pid k = Some q" "\<forall>f\<in>set es. q < the (wk_pid (fst f))" "by_pid es" using Cons.prems e by auto
  let ?w = "exits_send p k v w"
  have i: "by_pid (pr_exits (px_proc ?w p))" "exit_of (pr_exits (px_proc ?w p)) = (exit_of (pr_exits (px_proc w p)))(q \<mapsto> v)"
    using wm_insert_pid [OF Cons.prems(2) q(1), of v] by (auto simp: exits_send_proc)
  have n: "exit_of es q = None" using q(2,3) by (rule exit_of_above [rotated])
  have m: "exit_of (pr_exits (px_proc w p)) ++ exit_of (e # es) = (exit_of (pr_exits (px_proc w p)))(q \<mapsto> v) ++ exit_of es"
    using n q(1) e by (auto simp: fun_eq_iff map_add_def split: option.splits)
  have f: "fold (\<lambda>(k, v). exits_send p k v) (e # es) w = fold (\<lambda>(k, v). exits_send p k v) es ?w" by (simp add: e)
  have keep: "pr_info (px_proc ?w p) = pr_info (px_proc w p)" "q' \<noteq> p \<Longrightarrow> px_proc ?w q' = px_proc w q'" for q'
    by (simp_all add: exits_send_proc)
  show ?case unfolding f m using Cons.IH [OF q(3) i(1)] unfolding i(2) by (simp add: keep del: fun_upd_apply)
qed (auto simp: map_add_def fun_eq_iff)

lemma fold_reparent:
  "px_proc (fold (\<lambda>q w. if pi_ppid (proc_info w q) = me then upd_info q (\<lambda>i. i\<lparr>pi_ppid := pp\<rparr>) w else w) ts w) q =
     (if q \<in> set ts \<and> pi_ppid (proc_info w q) = me then (px_proc w q)\<lparr>pr_info := (proc_info w q)\<lparr>pi_ppid := pp\<rparr>\<rparr> else px_proc w q) \<and>
   px_table (fold (\<lambda>q w. if pi_ppid (proc_info w q) = me then upd_info q (\<lambda>i. i\<lparr>pi_ppid := pp\<rparr>) w else w) ts w) = px_table w"
  by (induction ts arbitrary: w) (auto simp: upd_info_def upd_proc_def)

lemma reparent_proc:
  "px_proc (reparent me pp w) q =
     (if q \<in> set (px_table w) \<and> pi_ppid (proc_info w q) = me then (px_proc w q)\<lparr>pr_info := (proc_info w q)\<lparr>pi_ppid := pp\<rparr>\<rparr> else px_proc w q)"
  "px_table (reparent me pp w) = px_table w"
  using fold_reparent by (simp_all add: reparent_def)

lemma current_run: "current_pid w \<in> set (px_table w) \<Longrightarrow> process_current w = Inr (w, Inr (current_pid w))"
  by (simp add: process_current_def get_process_run)

lemma may_set_id_True: "may_set_id root new e r = Some True \<Longrightarrow> root \<or> new = e \<or> new = r"
  by (auto simp: may_set_id_def split: if_splits)

lemma upd_info_simps [simp]:
  "px_proc (upd_info p f w) = (px_proc w)(p := (px_proc w p)\<lparr>pr_info := f (proc_info w p)\<rparr>)"
  by (simp add: upd_info_def upd_proc_def)

lemma set_ids_spec:
  assumes cur: "current_pid w \<in> set (px_table w)"
  shows "\<exists>w' r. setreuid ruid euid w = Inr (w', r) \<and>
      (r \<noteq> Inr () \<longrightarrow> w' = w) \<and>
      (pi_euid (proc_info w (current_pid w)) \<noteq> 0 \<longrightarrow> {pi_ruid (proc_info w' (current_pid w)), pi_euid (proc_info w' (current_pid w))} \<subseteq>
         {pi_ruid (proc_info w (current_pid w)), pi_euid (proc_info w (current_pid w))}) \<and>
      proc_info w' (current_pid w) = (proc_info w (current_pid w))\<lparr>pi_ruid := pi_ruid (proc_info w' (current_pid w)), pi_euid := pi_euid (proc_info w' (current_pid w))\<rparr> \<and>
      (\<forall>q. q \<noteq> current_pid w \<longrightarrow> px_proc w' q = px_proc w q)" (is ?A)
    and "\<exists>w' r. setregid ruid euid w = Inr (w', r) \<and>
      (r \<noteq> Inr () \<longrightarrow> w' = w) \<and>
      (pi_euid (proc_info w (current_pid w)) \<noteq> 0 \<longrightarrow> {pi_rgid (proc_info w' (current_pid w)), pi_egid (proc_info w' (current_pid w))} \<subseteq>
         {pi_rgid (proc_info w (current_pid w)), pi_egid (proc_info w (current_pid w))}) \<and>
      proc_info w' (current_pid w) = (proc_info w (current_pid w))\<lparr>pi_rgid := pi_rgid (proc_info w' (current_pid w)), pi_egid := pi_egid (proc_info w' (current_pid w))\<rparr> \<and>
      (\<forall>q. q \<noteq> current_pid w \<longrightarrow> px_proc w' q = px_proc w q)" (is ?B)
proof -
  let ?i = "proc_info w (current_pid w)"
  obtain a b where ab: "may_set_id (pi_euid ?i = 0) ruid (pi_euid ?i) (pi_ruid ?i) = a" "may_set_id (pi_euid ?i = 0) euid (pi_euid ?i) (pi_ruid ?i) = b" by blast
  show ?A using ab current_run [OF cur] may_set_id_True [of "pi_euid ?i = 0" ruid "pi_euid ?i" "pi_ruid ?i"] may_set_id_True [of "pi_euid ?i = 0" euid "pi_euid ?i" "pi_ruid ?i"]
    by (cases a; cases b) (auto simp: setreuid_def ok_orM_def)
  obtain c d where cd: "may_set_id (pi_euid ?i = 0) ruid (pi_egid ?i) (pi_rgid ?i) = c" "may_set_id (pi_euid ?i = 0) euid (pi_egid ?i) (pi_rgid ?i) = d" by blast
  show ?B using cd current_run [OF cur] may_set_id_True [of "pi_euid ?i = 0" ruid "pi_egid ?i" "pi_rgid ?i"] may_set_id_True [of "pi_euid ?i = 0" euid "pi_egid ?i" "pi_rgid ?i"]
    by (cases c; cases d) (auto simp: setregid_def ok_orM_def)
qed

lemma may_set_ns_True: "may_set_ns root new old e r = Some True \<Longrightarrow> new \<noteq> - 1 \<and> (old = 0 \<longrightarrow> new = 0)"
  by (auto simp: may_set_ns_def split: if_splits)

lemma setrens_spec:
  assumes cur: "current_pid w \<in> set (px_table w)"
  shows "\<exists>w' r. setrens rns ens w = Inr (w', r) \<and> (r \<noteq> Inr () \<longrightarrow> w' = w) \<and>
      (pi_rns (proc_info w (current_pid w)) = 0 \<longrightarrow> pi_rns (proc_info w' (current_pid w)) = 0) \<and>
      (pi_ens (proc_info w (current_pid w)) = 0 \<longrightarrow> pi_ens (proc_info w' (current_pid w)) = 0)"
proof -
  let ?i = "proc_info w (current_pid w)"
  obtain a b where ab: "may_set_ns (pi_euid ?i = 0) rns (pi_rns ?i) (pi_ens ?i) (pi_rns ?i) = a" "may_set_ns (pi_euid ?i = 0) ens (pi_ens ?i) (pi_ens ?i) (pi_rns ?i) = b" by blast
  have t: "a = Some True \<Longrightarrow> rns \<noteq> - 1 \<and> (pi_rns ?i = 0 \<longrightarrow> rns = 0)" "b = Some True \<Longrightarrow> ens \<noteq> - 1 \<and> (pi_ens ?i = 0 \<longrightarrow> ens = 0)"
    using ab may_set_ns_True by blast+
  show ?thesis
  proof (cases "a = None \<or> b = None")
    case True
    then show ?thesis using ab current_run [OF cur] by (cases a; cases b) (auto simp: setrens_def ok_orM_def)
  next
    case False
    then obtain x y where xy: "a = Some x" "b = Some y" by auto
    then have "\<not> x \<or> rns \<noteq> - 1" "\<not> y \<or> ens \<noteq> - 1" using t by auto
    then have "setrens rns ens w = Inr (upd_info (current_pid w) (\<lambda>i. i\<lparr>pi_ens := (if y then ens else pi_ens i)\<rparr>)
        (upd_info (current_pid w) (\<lambda>i. i\<lparr>pi_rns := (if x then rns else pi_rns i)\<rparr>) w), Inr ())"
      using ab xy current_run [OF cur] by (simp add: setrens_def ok_orM_def)
    then show ?thesis using t xy by auto
  qed
qed

section \<open>A small system\<close>

text \<open>
  Three processes for the examples: the first with no threads, its child 2, which runs as user 1000 in
  context 7, and a process 3 of root that the first one also started and that has exited.
\<close>

definition example_info :: "nat \<Rightarrow> process_info" where
  "example_info p = \<lparr>pi_pid = p, pi_pgid = 1, pi_ppid = (if p = 1 then 0 else 1), pi_session_id = 1,
     pi_ruid = (if p = 2 then 1000 else 0), pi_rgid = 0, pi_rns = 0, pi_euid = (if p = 2 then 1000 else 0), pi_egid = 0, pi_ens = 1\<rparr>"

definition example_procs :: proc_world where
  "example_procs = \<lparr>px_sched = \<lparr>sc_ctx = [7 \<mapsto> (Context_new 2 0)\<lparr>ctx_status := Runnable, ctx_running := True\<rparr>], sc_current = 7, sc_this_cpu = 0\<rparr>,
     px_proc = (\<lambda>p. \<lparr>pr_info = example_info p, pr_status = (if p = 3 then Exited 127 else PossiblyRunnable),
       pr_threads = (if p = 2 then [7] else []), pr_exits = [], pr_exit_cond = []\<rparr>),
     px_table = [1, 2, 3], px_next_pid = 4, px_sig = (\<lambda>_. None),
     px_pctl = (\<lambda>_. \<lparr>pc_pending = 0, pc_sender = (\<lambda>_. \<lparr>si_pid = 0, si_ruid = 0\<rparr>), pc_will_ign = (\<lambda>_ _. False), pc_will_stop = (\<lambda>_. False)\<rparr>),
     px_user = \<lparr>um_byte = \<lambda>_. 0, um_readable = \<lambda>_. True, um_writable = \<lambda>_. True\<rparr>\<rparr>"

definition example_sigs :: sig_consts where
  "example_sigs = \<lparr>SIGCHLD = 17, SIGCONT = 18, SIGKILL = 9, SIGSTOP = 19, SIGTERM = 15, SIGTSTP = 20, SIGTTIN = 21, SIGTTOU = 22,
     sig_bit = (\<lambda>s. push_bit ((s - 1) mod 32) 1)\<rparr>"

definition example_wait :: wait_env where
  "example_wait = \<lparr>we_continued = (\<lambda>s. s = 65535), we_stopped = (\<lambda>s. s mod 256 = 127)\<rparr>"

lemma example_current: "current_pid example_procs = 2" "current_pid example_procs \<in> set (px_table example_procs)"
  by (simp_all add: current_pid_def example_procs_def Context_new_def)

lemma example_plain: "plain_signal example_sigs (SIGCHLD example_sigs)"
  by (simp add: plain_signal_def example_sigs_def)

section \<open>Results\<close>

text \<open>The loop of \<open>kill\<close> is one pass over the targets that the caller may signal.\<close>

lemma kill_equiv:
  assumes K: "plain_signal K (SIGCHLD K)" and cur: "current_pid w \<in> set (px_table w)"
    and no_init: "\<not> (pi_euid (proc_info w (current_pid w)) = 0 \<and> pid = 1)"
  shows "let me = proc_info w (current_pid w); targets = kill_targets me pid w; allowed = filter (\<lambda>p. can_send me (proc_info w p)) targets in
    kill K pid sig mode w =
      bindM (send_all K sig mode (sender_of me) allowed) (\<lambda>killed_self.
        if targets = [] then errM ESRCH else if allowed = [] then errM EPERM else if killed_self then errM EINTR else retM 0) w"
proof -
  let ?me = "proc_info w (current_pid w)"
  let ?s = "sender_of ?me"
  have eq: "bindM (kill_each K ?me sig mode ?s matches ps (0, 0, False)) (\<lambda>(found, sent, killed_self).
      if found = 0 then errM ESRCH else if sent = 0 then errM EPERM else if killed_self then errM EINTR else retM 0) w =
    bindM (send_all K sig mode ?s (filter (\<lambda>p. can_send ?me (proc_info w p)) (filter (matches w) ps))) (\<lambda>killed_self.
      if filter (matches w) ps = [] then errM ESRCH else if filter (\<lambda>p. can_send ?me (proc_info w p)) (filter (matches w) ps) = [] then errM EPERM
      else if killed_self then errM EINTR else retM 0) w"
    if m: "\<And>w w'. same_ids w w' \<Longrightarrow> matches w' = matches w" for matches ps
  proof -
    define T where "T = filter (matches w) ps"
    define A where "A = filter (\<lambda>p. can_send ?me (proc_info w p)) T"
    have "kill_each K ?me sig mode ?s matches ps (0, 0, False) w = bindM (send_all K sig mode ?s A) (\<lambda>k'. retM (length T, length A, k')) w"
      using kill_each_eq [OF K m, where me = ?me and sender = ?s and f = 0 and s = 0 and k = False and w = w and ps = ps and sig = sig and mode = mode] by (simp add: T_def A_def)
    then show ?thesis unfolding T_def [symmetric] A_def [symmetric]
      by (cases "send_all K sig mode ?s A w") (auto simp: bindM_def bindE_def split: sum.splits)
  qed
  have run: "process_current w = Inr (w, Inr (current_pid w))" using cur by (simp add: process_current_def get_process_run)
  have outer: "kill K pid sig mode w = bindM (if 0 < sint pid then kill_each K ?me sig mode ?s (\<lambda>_ p. p = unat pid) (filter (\<lambda>p. p = unat pid) (px_table w)) (0, 0, False)
      else if pid = - 1 then kill_each K ?me sig mode ?s (\<lambda>_ p. 1 < p) (px_table w) (0, 0, False)
      else kill_each K ?me sig mode ?s (\<lambda>w p. pi_pgid (proc_info w p) = (if pid = 0 then pi_pgid ?me else unat (- pid))) (px_table w) (0, 0, False))
      (\<lambda>(found, sent, killed_self). if found = 0 then errM ESRCH else if sent = 0 then errM EPERM else if killed_self then errM EINTR else retM 0) w"
    unfolding kill_def bindM_def [of process_current] run bindE_def Let_def by (simp only: getM_def bindM_def bindE_def sum.case prod.case if_not_P [OF no_init])
  have group: "(\<lambda>p. pi_pgid (proc_info w' p) = g) = (\<lambda>p. pi_pgid (proc_info w p) = g)" if "same_ids w w'" for w w' g
    using that by (simp add: same_ids_def)
  consider (one) "0 < sint pid" | (all) "\<not> 0 < sint pid" "pid = - 1" | (grp) "\<not> 0 < sint pid" "pid \<noteq> - 1" by blast
  then show ?thesis
  proof cases
    case one
    show ?thesis unfolding outer Let_def kill_targets_def if_P [OF one] using eq [of "\<lambda>_ p. p = unat pid" "filter (\<lambda>p. p = unat pid) (px_table w)", OF refl] by (simp only: filter_filter conj_absorb)
  next
    case all
    show ?thesis unfolding outer Let_def kill_targets_def if_not_P [OF all(1)] if_P [OF all(2)] by (rule eq) simp
  next
    case grp
    show ?thesis unfolding outer Let_def kill_targets_def if_not_P [OF grp(1)] if_not_P [OF grp(2)] by (rule eq) (rule group)
  qed
qed

text \<open>
  C23: What \<open>kill\<close> with \<open>SIGKILL\<close> does, for whomever it means (one process, all but the first, a process group).
  Permitted are the targets whose real user id is the caller's real or effective one, and all of them for root.
  In the order of their ids the first live thread of each permitted target is marked as killed and woken; the
  call stops with \<open>ESRCH\<close> at the first of them that has no thread left, as a process that has exited and is not yet
  reaped, and the targets behind it get nothing.  Without a target the result is \<open>ESRCH\<close>, without a permitted one
  \<open>EPERM\<close>, and \<open>EINTR\<close> when the caller killed itself.  Nothing else changes.  Left out is root that signals process 1,
  which stops the machine.
\<close>

theorem kill_sigkill_exact:
  assumes K: "plain_signal K (SIGKILL K)" "SIGKILL K \<noteq> 0" "plain_signal K (SIGCHLD K)" and cur: "current_pid w \<in> set (px_table w)"
    and no_init: "\<not> (pi_euid (proc_info w (current_pid w)) = 0 \<and> pid = 1)"
  shows "let me = proc_info w (current_pid w);
      targets = kill_targets me pid w;
      permitted = filter (\<lambda>p. pi_euid me = 0 \<or> pi_ruid (proc_info w p) \<in> {pi_euid me, pi_ruid me}) targets;
      reached = takeWhile (\<lambda>p. threads_alive p w \<noteq> []) permitted;
      C = (\<lambda>p. hd (threads_alive p w)) ` set reached
    in kill K pid (SIGKILL K) mode w = Inr (strike C w,
      if targets = [] then Inl ESRCH else if permitted = [] then Inl EPERM else if reached \<noteq> permitted then Inl ESRCH
      else if sc_current (px_sched w) \<in> C then Inl EINTR else Inr 0)"
proof -
  let ?me = "proc_info w (current_pid w)"
  define T where "T = kill_targets ?me pid w"
  define A where "A = filter (\<lambda>p. pi_euid ?me = 0 \<or> pi_ruid (proc_info w p) \<in> {pi_euid ?me, pi_ruid ?me}) T"
  have can: "filter (\<lambda>p. can_send ?me (proc_info w p)) T = A" unfolding A_def by (rule filter_cong) (auto simp: can_send_def)
  have "A = []" if "T = []" using that by (simp add: A_def)
  moreover have "SIGKILL K \<le> 64" using K(1) by (simp add: plain_signal_def)
  ultimately show ?thesis
    using kill_equiv [OF K(3) cur no_init, of "SIGKILL K" mode] send_all_kill [OF K(1,2), of w A mode "sender_of ?me"]
    unfolding Let_def T_def [symmetric] can A_def [symmetric]
    by (auto simp: bindM_def bindE_def retM_def errM_def)
qed

text \<open>Process 2 may kill itself but not process 3, which belongs to root.\<close>

theorem kill_sigkill_witness:
  "kill example_sigs (- 1) 9 Idempotent example_procs = Inr (strike {7} example_procs, Inl EINTR)"
proof -
  have "plain_signal example_sigs (SIGKILL example_sigs)" "SIGKILL example_sigs \<noteq> 0" by (simp_all add: plain_signal_def example_sigs_def)
  moreover have "\<not> (pi_euid (proc_info example_procs (current_pid example_procs)) = 0 \<and> (- 1 :: usize) = 1)"
    by (simp add: example_current example_procs_def example_info_def)
  moreover have "proc_info example_procs 2 = example_info 2" "kill_targets (example_info 2) (- 1) example_procs = [2, 3]"
    "filter (\<lambda>p. pi_euid (example_info 2) = 0 \<or> pi_ruid (proc_info example_procs p) \<in> {pi_euid (example_info 2), pi_ruid (example_info 2)}) [2, 3] = [2]"
    "threads_alive 2 example_procs = [7]" "sc_current (px_sched example_procs) = 7" "SIGKILL example_sigs = 9"
    by (simp_all add: kill_targets_def example_procs_def example_info_def example_sigs_def threads_alive_def)
  ultimately show ?thesis
    using kill_sigkill_exact [of example_sigs example_procs "- 1" Idempotent, OF _ _ example_plain example_current(2)]
    by (simp only: example_current Let_def) (simp del: filter.simps)
qed

text \<open>
  C24: A process that ends is not lost: its children belong to its parent, the exits it had not collected and
  its own are in the parent's map, its status is final, and the parent's next wait for it returns its id at
  once, writes the status and takes it out of the table.  This also holds while the exiting context still runs.
\<close>

theorem exit_collected:
  assumes K: "plain_signal K (SIGCHLD K)"
    and ids: "me \<in> set (px_table w)" "p \<in> set (px_table w)" "p \<noteq> me" "pi_pid (proc_info w me) = me" "pi_ppid (proc_info w me) = p"
    and maps: "by_pid (pr_exits (px_proc w p))" "by_pid (pr_exits (px_proc w me))"
    and threads: "pr_threads (px_proc w me) = []" and status: "\<not> we_continued E status" "\<not> we_stopped E status"
  shows "\<exists>w' v. exit_notify K me status w = Inr (w', Inr ()) \<and>
    exit_of (pr_exits (px_proc w' p)) = (exit_of (pr_exits (px_proc w p)) ++ exit_of (pr_exits (px_proc w me)))(me \<mapsto> (me, status)) \<and>
    (\<forall>q. pi_ppid (proc_info w' q) = (if q \<in> set (px_table w) \<and> pi_ppid (proc_info w q) = me then p else pi_ppid (proc_info w q))) \<and>
    pr_status (px_proc w' me) = Exited status \<and>
    waitpid_loop pending E others (Suc n) p (OfPid me) None flags False w' = Inr (v, Inr (Some me)) \<and>
    set (px_table v) = set (px_table w) - {me}"
proof -
  obtain w1 r where 1: "send_signal K 2 (KProcess p) (SIGCHLD K) Idempotent True (sender_of (proc_info w me)) w = Inr (w1, r)" "px_proc w1 = px_proc w" "px_table w1 = px_table w"
    using send_plain [OF K, of 1] by (metis Suc_1 One_nat_def)
  let ?w2 = "upd_proc me (\<lambda>x. x\<lparr>pr_status := Exited status\<rparr>) (reparent me p w1)"
  let ?pgid = "pi_pgid (proc_info w me)"
  let ?w3 = "put_exits me (fst (wm_receive_all (exits_of me ?w2))) ?w2"
  have p2: "px_proc ?w2 q = (if q = me then (px_proc w me)\<lparr>pr_status := Exited status\<rparr>
      else if q \<in> set (px_table w) \<and> pi_ppid (proc_info w q) = me then (px_proc w q)\<lparr>pr_info := (proc_info w q)\<lparr>pi_ppid := p\<rparr>\<rparr> else px_proc w q)" for q
    using ids 1 by (auto simp: upd_proc_def reparent_proc)
  have p3: "px_proc ?w3 q = (if q = me then (px_proc ?w2 me)\<lparr>pr_exits := []\<rparr> else px_proc ?w2 q)" for q
    by (simp add: put_exits_def upd_proc_def wm_receive_all_def exits_of_def)
  let ?ch = "pr_exits (px_proc w me)"
  have ch: "snd (wm_receive_all (exits_of me ?w2)) = ?ch" using p2 [of me] by (simp add: wm_receive_all_def exits_of_def)
  let ?w4 = "fold (\<lambda>(k, v). exits_send p k v) ?ch ?w3"
  have pp: "pr_exits (px_proc ?w3 p) = pr_exits (px_proc w p)" using p3 [of p] p2 [of p] ids(3) by simp
  have p4: "by_pid (pr_exits (px_proc ?w4 p))" "exit_of (pr_exits (px_proc ?w4 p)) = exit_of (pr_exits (px_proc w p)) ++ exit_of ?ch"
    "pr_info (px_proc ?w4 p) = pr_info (px_proc ?w3 p)" "\<And>q. q \<noteq> p \<Longrightarrow> px_proc ?w4 q = px_proc ?w3 q" "px_table ?w4 = px_table w"
    using fold_exits [OF maps(2), of ?w3 p] maps(1) pp 1(3) by (simp_all add: reparent_proc)
  let ?k = "\<lparr>wk_pid = Some me, wk_pgid = Some ?pgid\<rparr>"
  let ?w5 = "exits_send p ?k (me, status) ?w4"
  have run: "exit_notify K me status w = Inr (?w5, Inr ())"
    using 1 ids ch by (simp add: exit_notify_def tryM_def hand_over_def reparent_proc split_beta del: send_signal.simps)
  have e5: "exit_of (pr_exits (px_proc ?w5 p)) = (exit_of (pr_exits (px_proc w p)) ++ exit_of ?ch)(me \<mapsto> (me, status))"
    "by_pid (pr_exits (px_proc ?w5 p))"
    using wm_insert_pid [OF p4(1), of ?k me "(me, status)"] p4(2) by (auto simp: exits_send_proc)
  have other: "px_proc ?w5 q = px_proc ?w3 q" if "q \<noteq> p" for q using that p4(4) by (simp add: exits_send_proc)
  have info: "proc_info ?w5 q = proc_info ?w3 q" for q using other [of q] p4(3) by (cases "q = p") (simp_all add: exits_send_proc)
  have me5: "px_proc ?w5 me = (px_proc w me)\<lparr>pr_status := Exited status, pr_exits := []\<rparr>"
    using other [of me] ids(3) p3 [of me] p2 [of me] by simp
  have t5: "px_table ?w5 = px_table w" using p4(5) by simp
  have parents: "pi_ppid (proc_info ?w5 q) = (if q \<in> set (px_table w) \<and> pi_ppid (proc_info w q) = me then p else pi_ppid (proc_info w q))" for q
    using info [of q] p3 [of q] p2 [of q] ids(3,5) by auto
  obtain d x where d: "wm_receive_nonblock WaitpidKey_cmp \<lparr>wk_pid = Some me, wk_pgid = None\<rparr> (exits_of p ?w5) = (d, x)" by (metis surj_pair)
  let ?v = "put_exits p d ?w5"
  have v: "px_table ?v = px_table w" "pr_threads (px_proc ?v me) = []"
    using t5 me5 threads ids(3) by (simp_all add: put_exits_def upd_proc_def)
  have "waitpid_loop pending E others (Suc n) p (OfPid me) None flags False ?w5 = Inr (?v\<lparr>px_table := filter (\<lambda>q. q \<noteq> me) (px_table w)\<rparr>, Inr (Some me))"
    using t5 v me5 ids d status
    by (simp add: wait_check_def get_process_run wait_take_def grim_reaper_def write_status_def reap_def threads_alive_def)
  moreover have "set (px_table (?v\<lparr>px_table := filter (\<lambda>q. q \<noteq> me) (px_table w)\<rparr>)) = set (px_table w) - {me}" by auto
  ultimately show ?thesis using run e5(1) parents me5 by (intro exI conjI) auto
qed

theorem exit_collected_witness:
  "\<exists>w' v. exit_notify example_sigs 3 0 example_procs = Inr (w', Inr ()) \<and>
     waitpid_loop (\<lambda>_. False) example_wait (\<lambda>_. id) 1 1 (OfPid 3) None \<lparr>wf_nohang = True, wf_untraced = False, wf_continued = False\<rparr> False w' = Inr (v, Inr (Some 3)) \<and>
     set (px_table v) = {1, 2}"
proof -
  have "\<exists>w' v. exit_notify example_sigs 3 0 example_procs = Inr (w', Inr ()) \<and>
    exit_of (pr_exits (px_proc w' 1)) = (exit_of (pr_exits (px_proc example_procs 1)) ++ exit_of (pr_exits (px_proc example_procs 3)))(3 \<mapsto> (3, 0)) \<and>
    (\<forall>q. pi_ppid (proc_info w' q) = (if q \<in> set (px_table example_procs) \<and> pi_ppid (proc_info example_procs q) = 3 then 1 else pi_ppid (proc_info example_procs q))) \<and>
    pr_status (px_proc w' 3) = Exited 0 \<and>
    waitpid_loop (\<lambda>_. False) example_wait (\<lambda>_. id) (Suc 0) 1 (OfPid 3) None \<lparr>wf_nohang = True, wf_untraced = False, wf_continued = False\<rparr> False w' = Inr (v, Inr (Some 3)) \<and>
    set (px_table v) = set (px_table example_procs) - {3}"
    by (rule exit_collected [OF example_plain]) (simp_all add: example_procs_def example_info_def example_wait_def)
  moreover have "set (px_table example_procs) - {3} = {1, 2}" by (auto simp: example_procs_def)
  ultimately show ?thesis by (metis One_nat_def)
qed

text \<open>
  C25: A process that exits with a status word that reads as \<open>stopped\<close> makes its parent loop in the kernel: if
  the parent waits for it without asking for stopped children, the wait never returns, even with \<open>WNOHANG\<close>.
\<close>

theorem waitpid_never_returns:
  assumes "q \<in> set (px_table w)" "q \<noteq> p" "pi_ppid (proc_info w q) = p" "pr_status (px_proc w q) = Exited status"
    "\<not> we_continued E status" "we_stopped E status" "\<not> wf_untraced flags"
  shows "\<exists>w'. waitpid_loop pending E others n p (OfPid q) status_ptr flags False w = Inr (w', Inr None)"
  using assms(1-4)
proof (induction n arbitrary: w)
  case (Suc n)
  obtain d x where d: "wm_receive_nonblock WaitpidKey_cmp \<lparr>wk_pid = Some q, wk_pgid = None\<rparr> (exits_of p w) = (d, x)" by (metis surj_pair)
  let ?v = "put_exits p d w"
  have v: "q \<in> set (px_table ?v)" "pi_ppid (proc_info ?v q) = p" "pr_status (px_proc ?v q) = Exited status"
    using Suc.prems by (simp_all add: put_exits_def upd_proc_def)
  have "waitpid_loop pending E others (Suc n) p (OfPid q) status_ptr flags False w = waitpid_loop pending E others n p (OfPid q) status_ptr flags False ?v"
    using Suc.prems d assms(5-7) by (simp add: wait_check_def get_process_run wait_take_def grim_reaper_def)
  then show ?case using Suc.IH [OF v(1) assms(2) v(2,3)] by simp
qed simp

theorem waitpid_never_returns_witness:
  "\<exists>w'. waitpid_loop (\<lambda>_. False) example_wait (\<lambda>_. id) 1000 1 (OfPid 3) None \<lparr>wf_nohang = True, wf_untraced = False, wf_continued = True\<rparr> False example_procs =
     Inr (w', Inr None)"
  by (rule waitpid_never_returns [where status = 127]) (simp_all add: example_procs_def example_info_def example_wait_def)

text \<open>
  C26: Only root gains privileges.  Without root a successful \<open>setreuid\<close> or \<open>setregid\<close> leaves both ids among the two
  the process had, no other process changes, a failure changes nothing; and nobody, not even root,
  leaves the null namespace with \<open>setrens\<close>, which never panics.
\<close>

theorem privileges_kept:
  assumes cur: "current_pid w \<in> set (px_table w)"
  shows "(let i = proc_info w (current_pid w) in
     (\<exists>w' r. setreuid ruid euid w = Inr (w', r) \<and>
        (let j = proc_info w' (current_pid w) in
          (r \<noteq> Inr () \<longrightarrow> w' = w) \<and> (pi_euid i \<noteq> 0 \<longrightarrow> {pi_ruid j, pi_euid j} \<subseteq> {pi_ruid i, pi_euid i}) \<and>
          j = i\<lparr>pi_ruid := pi_ruid j, pi_euid := pi_euid j\<rparr> \<and> (\<forall>q. q \<noteq> current_pid w \<longrightarrow> px_proc w' q = px_proc w q))) \<and>
     (\<exists>w' r. setregid ruid euid w = Inr (w', r) \<and>
        (let j = proc_info w' (current_pid w) in
          (r \<noteq> Inr () \<longrightarrow> w' = w) \<and> (pi_euid i \<noteq> 0 \<longrightarrow> {pi_rgid j, pi_egid j} \<subseteq> {pi_rgid i, pi_egid i}) \<and>
          j = i\<lparr>pi_rgid := pi_rgid j, pi_egid := pi_egid j\<rparr> \<and> (\<forall>q. q \<noteq> current_pid w \<longrightarrow> px_proc w' q = px_proc w q))) \<and>
     (\<exists>w' r. setrens rns ens w = Inr (w', r) \<and>
        (let j = proc_info w' (current_pid w) in
          (r \<noteq> Inr () \<longrightarrow> w' = w) \<and> (pi_rns i = 0 \<longrightarrow> pi_rns j = 0) \<and> (pi_ens i = 0 \<longrightarrow> pi_ens j = 0))))"
  using set_ids_spec [OF cur, of ruid euid] setrens_spec [OF cur, of rns ens] unfolding Let_def by blast

theorem privileges_kept_witness:
  "\<exists>w'. setreuid 0 1000 example_procs = Inr (w', Inl EPERM) \<and> w' = example_procs"
proof -
  obtain w' r where r: "setreuid 0 1000 example_procs = Inr (w', r)" "r \<noteq> Inr () \<longrightarrow> w' = example_procs"
    using privileges_kept [OF example_current(2), of 0 1000 0 0] unfolding Let_def by blast
  moreover have "r = Inl EPERM" using r(1) example_current
    by (simp add: setreuid_def current_run may_set_id_def ok_orM_def) (simp add: example_procs_def example_info_def)
  ultimately show ?thesis by simp
qed

end
