(* ===== verification/Scheme_List.thy ===== *)
theory Scheme_List
  imports Kernel_Monad "HOL-Library.AList" "HOL-Library.Multiset"
begin

text \<open>
  Schemes and their namespaces (\<open>src/src/scheme/mod.rs\<close>), and the root scheme of a namespace, through which
  user space creates and removes schemes (\<open>src/src/scheme/root.rs\<close>).  Hash maps are association lists in the
  order of iteration; an \<open>IndexMap\<close> keeps that order itself.
\<close>

section \<open>State\<close>

datatype global_scheme = GDebug | GEvent | GMemory | GPipe | GSerio | GIrq | GTime | GITimer | GSys | GProcFull | GProcRestricted | GAcpi | GDtb

text \<open>Two of the global schemes depend on the build.\<close>

record build_cfg =
  cfg_acpi :: bool
  cfg_dtb :: bool

definition scheme_id :: "build_cfg \<Rightarrow> global_scheme \<Rightarrow> nat" where
  "scheme_id cfg g = (case g of GDebug \<Rightarrow> 1 | GEvent \<Rightarrow> 2 | GMemory \<Rightarrow> 3 | GPipe \<Rightarrow> 4 | GSerio \<Rightarrow> 5 | GIrq \<Rightarrow> 6 | GTime \<Rightarrow> 7 | GITimer \<Rightarrow> 8
     | GSys \<Rightarrow> 9 | GProcFull \<Rightarrow> 10 | GProcRestricted \<Rightarrow> 11 | GAcpi \<Rightarrow> 12 | GDtb \<Rightarrow> if cfg_acpi cfg then 13 else 12)"

definition SCHEME_MAX_SCHEMES :: nat where "SCHEME_MAX_SCHEMES = 65536"
definition MAX_GLOBAL_SCHEMES :: nat where "MAX_GLOBAL_SCHEMES = 16"

text \<open>A scheme served by user space, as its creator knows it; its queue of requests is not part of this theory.\<close>

record user_inner =
  ui_root_id :: nat
  ui_scheme_id :: nat
  ui_v2 :: bool
  ui_handle_id :: nat
  ui_name :: string

text \<open>A root scheme is an object that is named by its scheme id.\<close>

datatype kernel_scheme = Root nat | User user_inner | Global global_scheme

datatype handle = HScheme user_inner | HFile string | HList nat

record root_scheme =
  rt_scheme_ns :: nat
  rt_scheme_id :: nat
  rt_next_id :: nat
  rt_handles :: "(nat \<times> handle) list"

type_synonym names = "(string \<times> nat) list"

record scheme_list =
  sl_map :: "(nat \<times> kernel_scheme) list"
  sl_names :: "(nat \<times> names) list"
  sl_next_ns :: nat
  sl_next_id :: nat
  sl_root :: "nat \<Rightarrow> root_scheme"

type_synonym 'a schemeprog = "(scheme_list, errno, 'a) prog"

section \<open>Index maps\<close>

text \<open>\<open>insert\<close> keeps the position of a key that is present; \<open>swap_remove\<close> moves the last entry to the gap.\<close>

fun index_of :: "'k \<Rightarrow> ('k \<times> 'v) list \<Rightarrow> nat option" where
  "index_of k [] = None"
| "index_of k (e # es) = (if fst e = k then Some 0 else map_option Suc (index_of k es))"

definition swap_remove :: "'k \<Rightarrow> ('k \<times> 'v) list \<Rightarrow> ('k \<times> 'v) list \<times> 'v option" where
  "swap_remove k l = (case index_of k l of
     None \<Rightarrow> (l, None) | Some i \<Rightarrow> (butlast (l[i := last l]), Some (snd (l ! i))))"

section \<open>Operations of the list\<close>

definition unwrapM :: "('s, 'e, 'a) prog \<Rightarrow> ('s, 'd, 'a) prog" where
  "unwrapM m = bindM (tryM m) (\<lambda>r. case r of Inr x \<Rightarrow> retM x | Inl _ \<Rightarrow> liftE (Inl (Panic ''called Result::unwrap() on an Err value'')))"

definition scheme_get :: "nat \<Rightarrow> scheme_list \<Rightarrow> kernel_scheme option" where
  "scheme_get i w = map_of (sl_map w) i"

definition iter_name :: "nat \<Rightarrow> scheme_list \<Rightarrow> names" where
  "iter_name ns w = (case map_of (sl_names w) ns of Some names \<Rightarrow> names | None \<Rightarrow> [])"

definition get_name :: "nat \<Rightarrow> string \<Rightarrow> scheme_list \<Rightarrow> (nat \<times> kernel_scheme) option" where
  "get_name ns name w =
     (case map_of (sl_names w) ns of
        Some names \<Rightarrow> (case map_of names name of Some i \<Rightarrow> map_option (\<lambda>s. (i, s)) (scheme_get i w) | None \<Rightarrow> None)
      | None \<Rightarrow> None)"

definition insert_global :: "build_cfg \<Rightarrow> nat \<Rightarrow> string \<Rightarrow> global_scheme \<Rightarrow> unit schemeprog" where
  "insert_global cfg ns name global =
     bindM (getM (\<lambda>w. map_of (sl_names w) ns)) (\<lambda>names.
     bindM (ok_orM names ENODEV) (\<lambda>names.
     bindM (modM (\<lambda>w. w\<lparr>sl_names := AList.update ns (AList.update name (scheme_id cfg global) names) (sl_names w)\<rparr>)) (\<lambda>_.
     if map_of names name \<noteq> None then errM EEXIST else retM ())))"

text \<open>The search for an id that is not in use.\<close>

function free_id :: "(nat \<times> 'v) list \<Rightarrow> nat \<Rightarrow> nat" where
  "free_id m i = (if i \<in> fst ` set m then free_id m (Suc i) else i)"
  by auto
termination
proof (relation "measure (\<lambda>(m, i). card {k \<in> fst ` set m. i \<le> k})", simp, simp)
  fix m :: "(nat \<times> 'v) list" and i assume "i \<in> fst ` set m"
  then have "i \<in> {k \<in> fst ` set m. i \<le> k} - {k \<in> fst ` set m. Suc i \<le> k}" by simp
  moreover have "{k \<in> fst ` set m. Suc i \<le> k} \<subseteq> {k \<in> fst ` set m. i \<le> k}" by auto
  ultimately have "{k \<in> fst ` set m. Suc i \<le> k} \<subset> {k \<in> fst ` set m. i \<le> k}" by blast
  then show "card {k \<in> fst ` set m. Suc i \<le> k} < card {k \<in> fst ` set m. i \<le> k}" by (intro psubset_card_mono) auto
qed

declare free_id.simps [simp del]

definition insert_and_pass :: "nat \<Rightarrow> string \<Rightarrow> (nat \<Rightarrow> (kernel_scheme \<times> 't) schemeprog) \<Rightarrow> (nat \<times> 't) schemeprog" where
  "insert_and_pass ns name scheme_fn =
     bindM (getM (\<lambda>w. map_of (iter_name ns w) name)) (\<lambda>prev.
     if prev \<noteq> None then errM EEXIST
     else
       bindM (modM (\<lambda>w. if SCHEME_MAX_SCHEMES \<le> sl_next_id w then w\<lparr>sl_next_id := 1\<rparr> else w)) (\<lambda>_.
       bindM (modM (\<lambda>w. w\<lparr>sl_next_id := free_id (sl_map w) (sl_next_id w)\<rparr>)) (\<lambda>_.
       bindM (getM sl_next_id) (\<lambda>i.
       bindM (modM (\<lambda>w. w\<lparr>sl_next_id := sl_next_id w + 1\<rparr>)) (\<lambda>_.
       bindM (scheme_fn i) (\<lambda>(new_scheme, t).
       bindM (getM (\<lambda>w. map_of (sl_map w) i)) (\<lambda>old.
       bindM (modM (\<lambda>w. w\<lparr>sl_map := AList.update i new_scheme (sl_map w)\<rparr>)) (\<lambda>_.
       bindM (assertM (old = None) ''assertion failed: self.map.insert(id, new_scheme).is_none()'') (\<lambda>_.
       bindM (getM (\<lambda>w. map_of (sl_names w) ns)) (\<lambda>names. case names of
          None \<Rightarrow> errM ENODEV
        | Some names \<Rightarrow>
            bindM (modM (\<lambda>w. w\<lparr>sl_names := AList.update ns (AList.update name i names) (sl_names w)\<rparr>)) (\<lambda>_.
            bindM (assertM (map_of names name = None) ''assertion failed: names.insert(name, id).is_none()'') (\<lambda>_.
              retM (i, t)))))))))))))"

definition scheme_insert :: "nat \<Rightarrow> string \<Rightarrow> (nat \<Rightarrow> kernel_scheme schemeprog) \<Rightarrow> nat schemeprog" where
  "scheme_insert ns name scheme_fn = bindM (insert_and_pass ns name (\<lambda>i. bindM (scheme_fn i) (\<lambda>s. retM (s, ())))) (\<lambda>(i, _). retM i)"

text \<open>Removing a scheme takes away its names in every namespace.\<close>

fun remove_names :: "string list \<Rightarrow> names \<Rightarrow> names exec" where
  "remove_names [] names = Inr names"
| "remove_names (n # ns) names =
     (case swap_remove n names of
        (names, Some _) \<Rightarrow> remove_names ns names
      | (names, None) \<Rightarrow> Inl (Panic ''assertion failed: names.swap_remove(&name).is_some()''))"

fun remove_everywhere :: "nat \<Rightarrow> (nat \<times> names) list \<Rightarrow> (nat \<times> names) list exec" where
  "remove_everywhere i [] = Inr []"
| "remove_everywhere i ((ns, names) # rest) =
     bindE (remove_names (map fst (filter (\<lambda>e. snd e = i) names)) names) (\<lambda>names.
     bindE (remove_everywhere i rest) (\<lambda>rest. Inr ((ns, names) # rest)))"

definition scheme_remove :: "nat \<Rightarrow> unit schemeprog" where
  "scheme_remove i =
     bindM (getM (scheme_get i)) (\<lambda>old.
     bindM (modM (\<lambda>w. w\<lparr>sl_map := AList.delete i (sl_map w)\<rparr>)) (\<lambda>_.
     bindM (assertM (old \<noteq> None) ''assertion failed: self.map.remove(&id).is_some()'') (\<lambda>_.
     bindM (getM sl_names) (\<lambda>all.
     bindM (liftE (remove_everywhere i all)) (\<lambda>all.
       modM (\<lambda>w. w\<lparr>sl_names := all\<rparr>))))))"

section \<open>Namespaces\<close>

definition RootScheme_new :: "nat \<Rightarrow> nat \<Rightarrow> root_scheme" where
  "RootScheme_new ns i = \<lparr>rt_scheme_ns = ns, rt_scheme_id = i, rt_next_id = 0, rt_handles = []\<rparr>"

definition insert_globals :: "build_cfg \<Rightarrow> nat \<Rightarrow> (string \<times> global_scheme) list \<Rightarrow> unit schemeprog" where
  "insert_globals cfg ns gs = forM gs (\<lambda>(name, g). bindM (unwrapM (insert_global cfg ns name g)) (\<lambda>_. retM True))"

definition new_null :: "build_cfg \<Rightarrow> unit schemeprog" where
  "new_null cfg =
     bindM (modM (\<lambda>w. w\<lparr>sl_names := AList.update 0 [] (sl_names w)\<rparr>)) (\<lambda>_.
       insert_globals cfg 0 [(''memory'', GMemory), (''thisproc'', GProcRestricted), (''pipe'', GPipe)])"

definition common_names :: "(string \<times> global_scheme) list" where
  "common_names = [(''event'', GEvent), (''itimer'', GITimer), (''memory'', GMemory), (''pipe'', GPipe), (''sys'', GSys), (''time'', GTime)]"

definition new_ns :: "build_cfg \<Rightarrow> nat schemeprog" where
  "new_ns cfg =
     bindM (getM sl_next_ns) (\<lambda>ns.
     bindM (modM (\<lambda>w. w\<lparr>sl_next_ns := sl_next_ns w + 1\<rparr>)) (\<lambda>_.
     bindM (modM (\<lambda>w. w\<lparr>sl_names := AList.update ns [] (sl_names w)\<rparr>)) (\<lambda>_.
     bindM (unwrapM (scheme_insert ns [] (\<lambda>i. bindM (modM (\<lambda>w. w\<lparr>sl_root := (sl_root w)(i := RootScheme_new ns i)\<rparr>)) (\<lambda>_. retM (Root i))))) (\<lambda>_.
     bindM (insert_globals cfg ns common_names) (\<lambda>_.
       retM ns)))))"

definition root_names :: "build_cfg \<Rightarrow> (string \<times> global_scheme) list" where
  "root_names cfg = (if cfg_dtb cfg then [(''kernel.dtb'', GDtb)] else []) @ (if cfg_acpi cfg then [(''kernel.acpi'', GAcpi)] else []) @
     [(''debug'', GDebug), (''irq'', GIrq), (''proc'', GProcFull), (''thisproc'', GProcRestricted), (''serio'', GSerio)]"

definition new_root :: "build_cfg \<Rightarrow> unit schemeprog" where
  "new_root cfg = bindM (new_ns cfg) (\<lambda>ns. insert_globals cfg ns (root_names cfg))"

definition globals :: "build_cfg \<Rightarrow> global_scheme list" where
  "globals cfg = [GDebug, GEvent, GMemory, GPipe, GSerio, GIrq, GTime, GITimer, GSys, GProcFull, GProcRestricted] @
     (if cfg_acpi cfg then [GAcpi] else []) @ (if cfg_dtb cfg then [GDtb] else [])"

definition SchemeList_new :: "build_cfg \<Rightarrow> scheme_list exec" where
  "SchemeList_new cfg =
     (let w = \<lparr>sl_map = fold (\<lambda>g m. AList.update (scheme_id cfg g) (Global g) m) (globals cfg) [],
               sl_names = [], sl_next_ns = 1, sl_next_id = MAX_GLOBAL_SCHEMES, sl_root = (\<lambda>_. RootScheme_new 0 0)\<rparr>
      in bindE (bindM (new_null cfg) (\<lambda>_. new_root cfg) w) (\<lambda>(w, _). Inr w))"

fun make_ns_copy :: "nat \<Rightarrow> nat \<Rightarrow> string list \<Rightarrow> nat schemeprog" where
  "make_ns_copy from to [] = retM to"
| "make_ns_copy from to (name # names) =
     bindM (getM (get_name from name)) (\<lambda>found.
     bindM (ok_orM found ENODEV) (\<lambda>(i, _).
     bindM (getM (\<lambda>w. map_of (sl_names w) to)) (\<lambda>dst.
     bindM (expectM dst ''scheme namespace not found'') (\<lambda>dst.
     bindM (modM (\<lambda>w. w\<lparr>sl_names := AList.update to (AList.update name i dst) (sl_names w)\<rparr>)) (\<lambda>_.
     if map_of dst name \<noteq> None then errM EEXIST else make_ns_copy from to names)))))"

definition make_ns :: "build_cfg \<Rightarrow> nat \<Rightarrow> string list \<Rightarrow> nat schemeprog" where
  "make_ns cfg from names = bindM (new_ns cfg) (\<lambda>to. make_ns_copy from to names)"

section \<open>The root scheme\<close>

definition upd_root :: "nat \<Rightarrow> (root_scheme \<Rightarrow> root_scheme) \<Rightarrow> scheme_list \<Rightarrow> scheme_list" where
  "upd_root r f w = w\<lparr>sl_root := (sl_root w)(r := f (sl_root w r))\<rparr>"

definition root_next_id :: "nat \<Rightarrow> nat schemeprog" where
  "root_next_id r = bindM (getM (\<lambda>w. rt_next_id (sl_root w r))) (\<lambda>i. bindM (modM (upd_root r (\<lambda>x. x\<lparr>rt_next_id := i + 1\<rparr>))) (\<lambda>_. retM i))"

definition root_insert :: "nat \<Rightarrow> nat \<Rightarrow> handle \<Rightarrow> unit schemeprog" where
  "root_insert r i h = modM (upd_root r (\<lambda>x. x\<lparr>rt_handles := AList.update i h (rt_handles x)\<rparr>))"

text \<open>
  Opening in a root scheme: \<open>O_CREAT\<close> creates a scheme, the empty path lists the namespace of the caller.  The
  second result says whether the file has a position.
\<close>

definition root_kopen :: "nat \<Rightarrow> string \<Rightarrow> bool \<Rightarrow> bool \<Rightarrow> nat \<Rightarrow> nat result \<Rightarrow> (nat \<times> bool) schemeprog" where
  "root_kopen r path creat fsync uid ens =
     (let path = dropWhile (\<lambda>c. c = CHR ''/'') path in
      if creat then
        if uid \<noteq> 0 then errM EACCES
        else if CHR ''/'' \<in> set path then errM EINVAL
        else
          bindM (root_next_id r) (\<lambda>i.
          bindM (getM (\<lambda>w. sl_root w r)) (\<lambda>self.
          bindM (insert_and_pass (rt_scheme_ns self) path (\<lambda>sid.
            let inner = \<lparr>ui_root_id = rt_scheme_id self, ui_scheme_id = sid, ui_v2 = fsync, ui_handle_id = i, ui_name = path\<rparr>
            in retM (User inner, inner))) (\<lambda>(_, inner).
          bindM (root_insert r i (HScheme inner)) (\<lambda>_.
            retM (i, False)))))
      else if path = [] then
        bindM (returnM ens) (\<lambda>ens.
        bindM (root_next_id r) (\<lambda>i.
        bindM (root_insert r i (HList ens)) (\<lambda>_. retM (i, True))))
      else
        bindM (root_next_id r) (\<lambda>i.
        bindM (root_insert r i (HFile path)) (\<lambda>_. retM (i, True))))"

definition root_handle :: "nat \<Rightarrow> nat \<Rightarrow> handle schemeprog" where
  "root_handle r file = bindM (getM (\<lambda>w. map_of (rt_handles (sl_root w r)) file)) (\<lambda>h. ok_orM h EBADF)"

definition root_close :: "nat \<Rightarrow> nat \<Rightarrow> unit schemeprog" where
  "root_close r file =
     bindM (root_handle r file) (\<lambda>h.
     bindM (modM (upd_root r (\<lambda>x. x\<lparr>rt_handles := AList.delete file (rt_handles x)\<rparr>))) (\<lambda>_.
     case h of HScheme inner \<Rightarrow> scheme_remove (ui_scheme_id inner) | _ \<Rightarrow> retM ()))"

definition root_fsize :: "nat \<Rightarrow> nat \<Rightarrow> nat schemeprog" where
  "root_fsize r file = bindM (root_handle r file) (\<lambda>h. case h of HList _ \<Rightarrow> retM 0 | _ \<Rightarrow> errM EBADF)"

text \<open>\<open>unlink\<close> finds the scheme that is to be unmounted.\<close>

definition trim_slashes :: "string \<Rightarrow> string" where
  "trim_slashes s = rev (dropWhile (\<lambda>c. c = CHR ''/'') (rev (dropWhile (\<lambda>c. c = CHR ''/'') s)))"

definition root_unlink :: "nat \<Rightarrow> string \<Rightarrow> nat \<Rightarrow> user_inner schemeprog" where
  "root_unlink r path uid =
     (if uid \<noteq> 0 then errM EACCES
      else bindM (getM (\<lambda>w. [inner. (_, HScheme inner) \<leftarrow> rt_handles (sl_root w r), ui_name inner = trim_slashes path])) (\<lambda>found.
        case found of [] \<Rightarrow> errM ENOENT | inner # _ \<Rightarrow> retM inner))"

text \<open>The entries that a directory listing gives from a position, each with the position after it.\<close>

definition root_getdents :: "nat \<Rightarrow> nat \<Rightarrow> nat \<Rightarrow> (string \<times> nat) list schemeprog" where
  "root_getdents r file opaque =
     bindM (root_handle r file) (\<lambda>h. case h of
        HList ens \<Rightarrow> getM (\<lambda>w. [(name, i + 1). (i, name, _) \<leftarrow> drop opaque (List.enumerate 0 (iter_name ens w)), name \<noteq> []])
      | _ \<Rightarrow> errM ENOTDIR)"

section \<open>Index maps refine maps\<close>

declare map_of_eq_Some_iff [simp del] Some_eq_map_of_iff [simp del]

lemma index_of_None: "index_of k l = None \<longleftrightarrow> k \<notin> fst ` set l"
  by (induction l) auto

lemma index_of_Some: "index_of k l = Some i \<Longrightarrow> i < length l \<and> fst (l ! i) = k \<and> map_of l k = Some (snd (l ! i))"
  by (induction l arbitrary: i) (auto split: if_splits)

lemma butlast_update_mset:
  assumes "i < length l"
  shows "mset (butlast (l[i := last l])) = mset (remove1 (l ! i) l)"
proof -
  have l: "l \<noteq> []" using assms by auto
  then have "mset (butlast l @ [last l]) = mset l" by simp
  then have last: "mset l = add_mset (last l) (mset (butlast l))" by simp
  show ?thesis
  proof (cases "i < length l - 1")
    case True
    then have "butlast (l[i := last l]) = (butlast l)[i := last l]" by (simp add: butlast_list_update)
    moreover have "l ! i \<in># mset (butlast l)" using True by (metis length_butlast nth_butlast nth_mem set_mset_mset)
    ultimately show ?thesis using True last by (simp add: mset_update nth_butlast)
  next
    case False
    then have "i = length l - 1" using assms by simp
    then have "l ! i = last l" "butlast (l[i := last l]) = butlast l" using l by (simp_all add: last_conv_nth butlast_list_update)
    then show ?thesis using last by simp
  qed
qed

lemma swap_remove_spec:
  assumes "distinct (map fst l)"
  shows "snd (swap_remove k l) = map_of l k" "map_of (fst (swap_remove k l)) = (map_of l)(k := None)" "distinct (map fst (fst (swap_remove k l)))"
proof -
  have "snd (swap_remove k l) = map_of l k \<and> map_of (fst (swap_remove k l)) = (map_of l)(k := None) \<and> distinct (map fst (fst (swap_remove k l)))"
  proof (cases "index_of k l")
    case None
    then have "map_of l k = None" by (simp add: index_of_None map_of_eq_None_iff)
    then show ?thesis using assms None by (simp add: swap_remove_def fun_upd_idem)
  next
    case (Some i)
    let ?l = "butlast (l[i := last l])"
    note i = index_of_Some [OF Some]
    have ms: "mset ?l = mset (remove1 (l ! i) l)" using i butlast_update_mset by blast
    have d: "distinct l" using assms by (simp add: distinct_map)
    have st: "set ?l = set l - {l ! i}" using mset_eq_setD [OF ms] d by (simp add: set_remove1_eq)
    have "distinct (map fst (remove1 (l ! i) l))" using assms by (simp add: distinct_map inj_on_def set_remove1_eq)
    then have dk: "distinct (map fst ?l)" using ms by (metis mset_eq_imp_distinct_iff mset_map)
    obtain v0 where v0: "l ! i = (k, v0)" "(k, v0) \<in> set l" using i by (metis nth_mem prod.collapse)
    have "(x, v) \<in> set ?l \<longleftrightarrow> (x, v) \<in> set l \<and> x \<noteq> k" for x v unfolding st v0(1) using v0(2) eq_key_imp_eq_value [OF assms, of k] by auto
    then have "map_of ?l x = Some v \<longleftrightarrow> ((map_of l)(k := None)) x = Some v" for x v
      using map_of_eq_Some_iff [OF dk] map_of_eq_Some_iff [OF assms] by auto
    then have "map_of ?l = (map_of l)(k := None)" by (intro ext) (metis not_Some_eq)
    then show ?thesis using Some i dk by (auto simp: swap_remove_def)
  qed
  then show "snd (swap_remove k l) = map_of l k" "map_of (fst (swap_remove k l)) = (map_of l)(k := None)" "distinct (map fst (fst (swap_remove k l)))" by auto
qed

lemma remove_names_spec:
  assumes "distinct (map fst l)" "distinct ks" "set ks \<subseteq> dom (map_of l)"
  shows "\<exists>l'. remove_names ks l = Inr l' \<and> distinct (map fst l') \<and> map_of l' = (\<lambda>k. if k \<in> set ks then None else map_of l k)"
  using assms
proof (induction ks arbitrary: l)
  case (Cons k ks)
  obtain l1 v where s: "swap_remove k l = (l1, Some v)"
    using swap_remove_spec(1) [OF Cons.prems(1), of k] Cons.prems(3) by (cases "swap_remove k l") auto
  have m: "map_of l1 = (map_of l)(k := None)" "distinct (map fst l1)" using swap_remove_spec(2,3) [OF Cons.prems(1), of k] s by simp_all
  have "set ks \<subseteq> dom (map_of l1)" using Cons.prems(2,3) by (auto simp: m(1))
  from Cons.IH [OF m(2) _ this] obtain l' where "remove_names ks l1 = Inr l'" "distinct (map fst l')" "map_of l' = (\<lambda>x. if x \<in> set ks then None else map_of l1 x)"
    using Cons.prems(2) by auto
  then show ?case using s m(1) by auto
qed simp

definition forget :: "nat \<Rightarrow> (string \<rightharpoonup> nat) \<Rightarrow> string \<rightharpoonup> nat" where
  "forget i m = (\<lambda>n. if m n = Some i then None else m n)"

lemma remove_everywhere_spec:
  assumes "\<forall>names\<in>snd ` set all. distinct (map fst names)"
  shows "\<exists>all'. remove_everywhere i all = Inr all' \<and> map fst all' = map fst all \<and>
    (\<forall>ns. case map_of all ns of None \<Rightarrow> map_of all' ns = None
       | Some names \<Rightarrow> \<exists>names'. map_of all' ns = Some names' \<and> distinct (map fst names') \<and> map_of names' = forget i (map_of names))"
  using assms
proof (induction i all rule: remove_everywhere.induct)
  case (2 i ns names rest)
  let ?ks = "map fst (filter (\<lambda>e. snd e = i) names)"
  have d: "distinct (map fst names)" using 2(2) by simp
  have ks: "distinct ?ks" using d by (simp add: distinct_map_filter)
  have mem: "k \<in> set ?ks \<longleftrightarrow> map_of names k = Some i" for k using d by (force simp: map_of_eq_Some_iff image_iff)
  obtain l' where l': "remove_names ?ks names = Inr l'" "distinct (map fst l')" "map_of l' = (\<lambda>k. if k \<in> set ?ks then None else map_of names k)"
    using remove_names_spec [OF d ks] mem by (metis (lifting) domI subsetI)
  have "\<forall>names\<in>snd ` set rest. distinct (map fst names)" using 2(2) by simp
  from 2(1) [OF this] obtain all' where
    r: "remove_everywhere i rest = Inr all'" "map fst all' = map fst rest" "\<forall>ns. case map_of rest ns of None \<Rightarrow> map_of all' ns = None
       | Some names \<Rightarrow> \<exists>names'. map_of all' ns = Some names' \<and> distinct (map fst names') \<and> map_of names' = forget i (map_of names)" by blast
  have "map_of l' = forget i (map_of names)" unfolding l'(3) mem forget_def ..
  then show ?case using l'(1,2) r by (auto split: option.splits) (metis option.distinct(1))
qed simp

section \<open>The invariant\<close>

text \<open>
  Names lead to schemes, namespaces are numbered without gaps, the global schemes stay, and the schemes of
  user space correspond one to one to the handles through which they were created.
\<close>

definition names_ok :: "scheme_list \<Rightarrow> bool" where
  "names_ok w \<longleftrightarrow> distinct (map fst (sl_map w)) \<and> distinct (map fst (sl_names w)) \<and> 0 < sl_next_ns w \<and>
     (\<forall>ns. map_of (sl_names w) ns \<noteq> None \<longleftrightarrow> ns < sl_next_ns w) \<and>
     (\<forall>ns. distinct (map fst (iter_name ns w))) \<and> (\<forall>ns n i. map_of (iter_name ns w) n = Some i \<longrightarrow> scheme_get i w \<noteq> None)"

definition globals_ok :: "build_cfg \<Rightarrow> scheme_list \<Rightarrow> bool" where
  "globals_ok cfg w \<longleftrightarrow> (\<forall>g\<in>set (globals cfg). scheme_get (scheme_id cfg g) w = Some (Global g))"

definition handles_ok :: "scheme_list \<Rightarrow> bool" where
  "handles_ok w \<longleftrightarrow>
     (\<forall>r h x. map_of (rt_handles (sl_root w r)) h = Some x \<longrightarrow> h < rt_next_id (sl_root w r)) \<and>
     (\<forall>r h inner. map_of (rt_handles (sl_root w r)) h = Some (HScheme inner) \<longrightarrow>
        ui_root_id inner = r \<and> ui_handle_id inner = h \<and> scheme_get (ui_scheme_id inner) w = Some (User inner)) \<and>
     (\<forall>i r. scheme_get i w = Some (Root r) \<longrightarrow> r = i \<and> rt_scheme_id (sl_root w i) = i \<and> rt_scheme_ns (sl_root w i) < sl_next_ns w) \<and>
     (\<forall>i inner. scheme_get i w = Some (User inner) \<longrightarrow> ui_scheme_id inner = i \<and> scheme_get (ui_root_id inner) w = Some (Root (ui_root_id inner)) \<and>
        map_of (rt_handles (sl_root w (ui_root_id inner))) (ui_handle_id inner) = Some (HScheme inner))"

definition schemes_ok :: "build_cfg \<Rightarrow> scheme_list \<Rightarrow> bool" where
  "schemes_ok cfg w \<longleftrightarrow> names_ok w \<and> globals_ok cfg w \<and> handles_ok w"

text \<open>Adding a name.\<close>

definition add_name :: "nat \<Rightarrow> string \<Rightarrow> nat \<Rightarrow> scheme_list \<Rightarrow> scheme_list" where
  "add_name ns name i w = w\<lparr>sl_names := AList.update ns (AList.update name i (iter_name ns w)) (sl_names w)\<rparr>"

lemma add_name_simps [simp]:
  "sl_map (add_name ns name i w) = sl_map w" "sl_next_ns (add_name ns name i w) = sl_next_ns w" "sl_root (add_name ns name i w) = sl_root w"
  "scheme_get j (add_name ns name i w) = scheme_get j w" "sl_next_id (add_name ns name i w) = sl_next_id w"
  "iter_name ns' (add_name ns name i w) = (if ns' = ns then AList.update name i (iter_name ns w) else iter_name ns' w)"
  "map_of (sl_names (add_name ns name i w)) ns' = (if ns' = ns then Some (AList.update name i (iter_name ns w)) else map_of (sl_names w) ns')"
  by (simp_all add: add_name_def scheme_get_def iter_name_def update_conv')

lemma add_name_ok:
  assumes "schemes_ok cfg w" "ns < sl_next_ns w" "scheme_get i w \<noteq> None"
  shows "schemes_ok cfg (add_name ns name i w)"
proof -
  have "distinct (map fst (sl_names (add_name ns name i w)))" using assms(1) by (simp add: schemes_ok_def names_ok_def add_name_def distinct_update)
  then have "names_ok (add_name ns name i w)" using assms by (auto simp: schemes_ok_def names_ok_def update_conv' distinct_update)
  then show ?thesis using assms(1) by (simp add: schemes_ok_def globals_ok_def handles_ok_def)
qed

lemma iter_name_Some: "map_of (sl_names w) ns = Some names \<Longrightarrow> iter_name ns w = names"
  by (simp add: iter_name_def)

lemma names_of: "schemes_ok cfg w \<Longrightarrow> ns < sl_next_ns w \<Longrightarrow> map_of (sl_names w) ns = Some (iter_name ns w)"
  by (auto simp: schemes_ok_def names_ok_def iter_name_def split: option.splits)

lemma insert_global_run:
  assumes "schemes_ok cfg w" "ns < sl_next_ns w"
  shows "insert_global cfg ns name g w =
    Inr (add_name ns name (scheme_id cfg g) w, if map_of (iter_name ns w) name = None then Inr () else Inl EEXIST)"
  using names_of [OF assms] by (simp add: insert_global_def add_name_def)

lemma insert_globals_run:
  assumes "schemes_ok cfg w" "ns < sl_next_ns w" "snd ` set gs \<subseteq> set (globals cfg)" "distinct (map fst gs)" "\<forall>n\<in>fst ` set gs. map_of (iter_name ns w) n = None"
  shows "insert_globals cfg ns gs w = Inr (fold (\<lambda>(n, g). add_name ns n (scheme_id cfg g)) gs w, Inr ()) \<and>
    schemes_ok cfg (fold (\<lambda>(n, g). add_name ns n (scheme_id cfg g)) gs w)"
  using assms
proof (induction gs arbitrary: w)
  case (Cons e gs)
  obtain n g where e: "e = (n, g)" by (cases e)
  let ?w = "add_name ns n (scheme_id cfg g) w"
  have "scheme_get (scheme_id cfg g) w \<noteq> None" using Cons.prems(1,3) e by (auto simp: schemes_ok_def globals_ok_def)
  then have ok: "schemes_ok cfg ?w" by (rule add_name_ok [OF Cons.prems(1,2)])
  have fresh: "\<forall>x\<in>fst ` set gs. map_of (iter_name ns ?w) x = None" using Cons.prems(4,5) e by (auto simp: update_conv')
  have "insert_global cfg ns n g w = Inr (?w, Inr ())" using insert_global_run [OF Cons.prems(1,2)] Cons.prems(5) e by simp
  then have "insert_globals cfg ns (e # gs) w = insert_globals cfg ns gs ?w" by (simp add: insert_globals_def unwrapM_def e)
  then show ?case using Cons.IH [OF ok] Cons.prems fresh e by simp
qed (simp add: insert_globals_def)

text \<open>The id that is chosen is free.\<close>

lemma free_id_fresh: "map_of m (free_id m i) = None"
proof (induction m i rule: free_id.induct)
  case (1 m i)
  then show ?case by (cases "i \<in> fst ` set m") (simp_all add: free_id.simps [of m i] map_of_eq_None_iff)
qed

definition add_scheme :: "nat \<Rightarrow> string \<Rightarrow> nat \<Rightarrow> kernel_scheme \<Rightarrow> ((nat \<Rightarrow> root_scheme) \<Rightarrow> nat \<Rightarrow> root_scheme) \<Rightarrow> scheme_list \<Rightarrow> scheme_list" where
  "add_scheme ns name i s h w = add_name ns name i (w\<lparr>sl_next_id := i + 1, sl_root := h (sl_root w), sl_map := AList.update i s (sl_map w)\<rparr>)"

lemma add_scheme_simps [simp]:
  "sl_next_ns (add_scheme ns name i s h w) = sl_next_ns w" "sl_root (add_scheme ns name i s h w) = h (sl_root w)"
  "scheme_get j (add_scheme ns name i s h w) = (if j = i then Some s else scheme_get j w)"
  "iter_name ns' (add_scheme ns name i s h w) = (if ns' = ns then AList.update name i (iter_name ns w) else iter_name ns' w)"
  by (simp_all add: add_scheme_def scheme_get_def update_conv' iter_name_def)

lemma insert_and_pass_run:
  assumes ok: "schemes_ok cfg w" "ns < sl_next_ns w" and f: "\<And>i v. f i v = Inr (v\<lparr>sl_root := h i (sl_root v)\<rparr>, Inr (s i, t i))"
  shows "if map_of (iter_name ns w) name \<noteq> None then insert_and_pass ns name f w = Inr (w, Inl EEXIST)
    else \<exists>i. scheme_get i w = None \<and> insert_and_pass ns name f w = Inr (add_scheme ns name i (s i) (h i) w, Inr (i, t i))"
proof (cases "map_of (iter_name ns w) name")
  case None
  obtain names where n: "map_of (sl_names w) ns = Some names" using names_of [OF ok] by blast
  define j where "j = (if SCHEME_MAX_SCHEMES \<le> sl_next_id w then 1 else sl_next_id w)"
  let ?i = "free_id (sl_map w) j"
  have "scheme_get ?i w = None" by (simp add: scheme_get_def free_id_fresh)
  moreover have "insert_and_pass ns name f w = Inr (add_scheme ns name ?i (s ?i) (h ?i) w, Inr (?i, t ?i))"
    using None n f by (simp add: insert_and_pass_def add_scheme_def add_name_def iter_name_def free_id_fresh j_def)
  ultimately show ?thesis using None by auto
qed (simp add: insert_and_pass_def)

lemma add_scheme_names:
  assumes "schemes_ok cfg w" "ns < sl_next_ns w" "scheme_get i w = None"
  shows "names_ok (add_scheme ns name i s h w)" "globals_ok cfg (add_scheme ns name i s h w)"
proof -
  let ?w = "add_scheme ns name i s h w"
  have n: "names_ok w" "globals_ok cfg w" using assms(1) by (auto simp: schemes_ok_def)
  have "distinct (map fst (sl_map ?w))" "distinct (map fst (sl_names ?w))" using n(1) by (simp_all add: names_ok_def add_scheme_def add_name_def distinct_update)
  moreover have "map_of (sl_names ?w) ns' \<noteq> None \<longleftrightarrow> ns' < sl_next_ns ?w" for ns'
    using n(1) assms(2) by (auto simp: names_ok_def add_scheme_def)
  moreover have "distinct (map fst (iter_name ns' ?w))" for ns' using n(1) by (simp add: names_ok_def distinct_update)
  moreover have "map_of (iter_name ns' ?w) n = Some j \<Longrightarrow> scheme_get j ?w \<noteq> None" for ns' n j
    using n(1) by (auto simp: names_ok_def update_conv' split: if_splits)
  ultimately show "names_ok ?w" using n(1) unfolding names_ok_def by simp
  show "globals_ok cfg ?w" using n(2) assms(3) by (auto simp: globals_ok_def)
qed

section \<open>Making namespaces\<close>

text \<open>An empty namespace with the next number.\<close>

definition open_ns :: "scheme_list \<Rightarrow> scheme_list" where
  "open_ns w = w\<lparr>sl_next_ns := sl_next_ns w + 1, sl_names := AList.update (sl_next_ns w) [] (sl_names w)\<rparr>"

lemma open_ns_simps [simp]:
  "sl_next_ns (open_ns w) = sl_next_ns w + 1" "sl_root (open_ns w) = sl_root w" "scheme_get i (open_ns w) = scheme_get i w"
  "iter_name ns (open_ns w) = (if ns = sl_next_ns w then [] else iter_name ns w)"
  by (simp_all add: open_ns_def scheme_get_def iter_name_def update_conv')

lemma open_ns_ok:
  assumes "schemes_ok cfg w"
  shows "schemes_ok cfg (open_ns w)"
proof -
  have n: "names_ok w" using assms by (simp add: schemes_ok_def)
  have "distinct (map fst (sl_names (open_ns w)))" using n by (simp add: names_ok_def open_ns_def distinct_update)
  moreover have "map_of (sl_names (open_ns w)) ns \<noteq> None \<longleftrightarrow> ns < sl_next_ns (open_ns w)" for ns
    using n by (auto simp: names_ok_def open_ns_def update_conv' less_Suc_eq)
  ultimately have "names_ok (open_ns w)" using n unfolding names_ok_def by (simp add: open_ns_def [of w] scheme_get_def iter_name_def update_conv')
  moreover have "globals_ok cfg (open_ns w)" using assms by (simp add: schemes_ok_def globals_ok_def)
  moreover have "handles_ok (open_ns w)" using assms unfolding schemes_ok_def handles_ok_def by (simp add: less_SucI)
  ultimately show ?thesis by (simp add: schemes_ok_def)
qed

lemma add_root_ok:
  assumes "schemes_ok cfg w" "ns < sl_next_ns w" "scheme_get i w = None"
  shows "schemes_ok cfg (add_scheme ns name i (Root i) (\<lambda>r. r(i := RootScheme_new ns i)) w)"
proof -
  have h: "handles_ok w" using assms(1) by (simp add: schemes_ok_def)
  have "ui_root_id inner \<noteq> i" if "scheme_get j w = Some (User inner)" for j inner using h that assms(3) unfolding handles_ok_def by fastforce
  then have "handles_ok (add_scheme ns name i (Root i) (\<lambda>r. r(i := RootScheme_new ns i)) w)"
    using h assms(2,3) unfolding handles_ok_def by (auto simp: RootScheme_new_def)
  then show ?thesis using add_scheme_names [OF assms] by (simp add: schemes_ok_def)
qed

definition common_ids :: "build_cfg \<Rightarrow> names" where
  "common_ids cfg = map (\<lambda>(n, g). (n, scheme_id cfg g)) common_names"

lemma fold_add_name:
  "iter_name ns' (fold (\<lambda>(n, g). add_name ns n (scheme_id cfg g)) gs w) =
     (if ns' = ns then fold (\<lambda>(n, g). AList.update n (scheme_id cfg g)) gs (iter_name ns w) else iter_name ns' w)"
  "scheme_get j (fold (\<lambda>(n, g). add_name ns n (scheme_id cfg g)) gs w) = scheme_get j w"
  "sl_next_ns (fold (\<lambda>(n, g). add_name ns n (scheme_id cfg g)) gs w) = sl_next_ns w"
  "sl_root (fold (\<lambda>(n, g). add_name ns n (scheme_id cfg g)) gs w) = sl_root w"
  by (induction gs arbitrary: w) (simp_all add: split_beta)

lemma new_ns_run:
  assumes ok: "schemes_ok cfg w"
  shows "\<exists>w' i. new_ns cfg w = Inr (w', Inr (sl_next_ns w)) \<and> schemes_ok cfg w' \<and> scheme_get i w = None \<and>
    (\<forall>j. scheme_get j w' = (if j = i then Some (Root i) else scheme_get j w)) \<and> sl_next_ns w' = sl_next_ns w + 1 \<and>
    (\<forall>ns. iter_name ns w' = (if ns = sl_next_ns w then ([], i) # common_ids cfg else iter_name ns w))"
proof -
  let ?n = "sl_next_ns w"
  have ok1: "schemes_ok cfg (open_ns w)" by (rule open_ns_ok [OF ok])
  have "if map_of (iter_name ?n (open_ns w)) [] \<noteq> None then insert_and_pass ?n [] f (open_ns w) = Inr (open_ns w, Inl EEXIST)
    else \<exists>i. scheme_get i (open_ns w) = None \<and> insert_and_pass ?n [] f (open_ns w) =
      Inr (add_scheme ?n [] i (Root i) (\<lambda>r. r(i := RootScheme_new ?n i)) (open_ns w), Inr (i, ()))"
    if "\<And>i v. f i v = Inr (v\<lparr>sl_root := (\<lambda>r. r(i := RootScheme_new ?n i)) (sl_root v)\<rparr>, Inr (Root i, ()))" for f
    using that by (intro insert_and_pass_run [OF ok1]) simp_all
  from this [of "\<lambda>i. bindM (bindM (modM (\<lambda>w. w\<lparr>sl_root := (sl_root w)(i := RootScheme_new ?n i)\<rparr>)) (\<lambda>_. retM (Root i))) (\<lambda>s. retM (s, ()))"]
  obtain i where i: "scheme_get i w = None" and run: "scheme_insert ?n [] (\<lambda>i. bindM (modM (\<lambda>w. w\<lparr>sl_root := (sl_root w)(i := RootScheme_new ?n i)\<rparr>)) (\<lambda>_. retM (Root i))) (open_ns w) =
      Inr (add_scheme ?n [] i (Root i) (\<lambda>r. r(i := RootScheme_new ?n i)) (open_ns w), Inr i)" by (auto simp: scheme_insert_def)
  let ?v = "add_scheme ?n [] i (Root i) (\<lambda>r. r(i := RootScheme_new ?n i)) (open_ns w)"
  have ok2: "schemes_ok cfg ?v" using add_root_ok [OF ok1] i by simp
  let ?w = "fold (\<lambda>(n, g). add_name ?n n (scheme_id cfg g)) common_names ?v"
  have gl: "insert_globals cfg ?n common_names ?v = Inr (?w, Inr ()) \<and> schemes_ok cfg ?w"
    by (rule insert_globals_run [OF ok2]) (auto simp: common_names_def globals_def)
  have "new_ns cfg w = Inr (?w, Inr ?n)" using gl run by (simp add: new_ns_def unwrapM_def open_ns_def)
  moreover have "fold (\<lambda>(n, g). AList.update n (scheme_id cfg g)) common_names [([], i)] = ([], i) # common_ids cfg"
    by (simp add: common_names_def common_ids_def)
  ultimately show ?thesis using gl i by (intro exI [of _ ?w] exI [of _ i]) (simp add: fold_add_name)
qed

text \<open>The list at boot.\<close>

lemma scheme_id_inj: "g \<in> set (globals cfg) \<Longrightarrow> h \<in> set (globals cfg) \<Longrightarrow> scheme_id cfg g = scheme_id cfg h \<longleftrightarrow> g = h"
  by (auto simp: scheme_id_def globals_def split: global_scheme.splits if_splits)

lemma fold_globals:
  assumes "distinct gs" "set gs \<subseteq> set (globals cfg)"
  shows "map_of (fold (\<lambda>g m. AList.update (scheme_id cfg g) (Global g) m) gs m) i =
    (case find (\<lambda>g. scheme_id cfg g = i) gs of Some g \<Rightarrow> Some (Global g) | None \<Rightarrow> map_of m i)"
    "distinct (map fst m) \<Longrightarrow> distinct (map fst (fold (\<lambda>g m. AList.update (scheme_id cfg g) (Global g) m) gs m))"
  using assms
proof (induction gs arbitrary: m)
  case (Cons g gs)
  {
    case 1
    have "find (\<lambda>h. scheme_id cfg h = i) gs = None" if "scheme_id cfg g = i"
      using 1(1,2) that scheme_id_inj [of g cfg] by (simp add: find_None_iff) (metis subsetD)
    then show ?case using 1 Cons.IH(1) by (auto simp: update_conv' split: option.splits)
  next
    case 2
    then show ?case using Cons.IH(2) by (simp add: distinct_update)
  }
qed simp_all

lemma globals_distinct: "distinct (globals cfg)"
  by (simp add: globals_def)

lemma boot_run:
  "\<exists>w i. SchemeList_new cfg = Inr w \<and> schemes_ok cfg w \<and> sl_next_ns w = 2 \<and>
     iter_name 1 w = fold (\<lambda>(n, g). AList.update n (scheme_id cfg g)) (root_names cfg) (([], i) # common_ids cfg)"
proof -
  let ?m = "fold (\<lambda>g m. AList.update (scheme_id cfg g) (Global g) m) (globals cfg) []"
  let ?w0 = "\<lparr>sl_map = ?m, sl_names = [], sl_next_ns = 1, sl_next_id = MAX_GLOBAL_SCHEMES, sl_root = (\<lambda>_. RootScheme_new 0 0)\<rparr>"
  let ?w1 = "?w0\<lparr>sl_names := [(0, [])]\<rparr>"
  have get: "scheme_get i ?w1 = map_option Global (find (\<lambda>g. scheme_id cfg g = i) (globals cfg))" for i
    using fold_globals(1) [OF globals_distinct order_refl] by (simp add: scheme_get_def split: option.splits)
  have "distinct (map fst ?m)" using fold_globals(2) [OF globals_distinct order_refl, of "[]"] by simp
  then have "names_ok ?w1" by (auto simp: names_ok_def iter_name_def)
  moreover have "find (\<lambda>h. scheme_id cfg h = scheme_id cfg g) (globals cfg) = Some g" if "g \<in> set (globals cfg)" for g
  proof -
    have "find (\<lambda>h. scheme_id cfg h = scheme_id cfg g) (globals cfg) \<noteq> None" using that by (auto simp: find_None_iff)
    then obtain h where "find (\<lambda>h. scheme_id cfg h = scheme_id cfg g) (globals cfg) = Some h" by blast
    then show ?thesis using that scheme_id_inj [of _ cfg g] by (auto simp: find_Some_iff)
  qed
  then have "globals_ok cfg ?w1" unfolding globals_ok_def get by simp
  moreover have "handles_ok ?w1" unfolding handles_ok_def get by (simp add: RootScheme_new_def)
  ultimately have ok1: "schemes_ok cfg ?w1" by (simp add: schemes_ok_def)
  let ?gs = "[(''memory'', GMemory), (''thisproc'', GProcRestricted), (''pipe'', GPipe)]"
  let ?w2 = "fold (\<lambda>(n, g). add_name 0 n (scheme_id cfg g)) ?gs ?w1"
  have 2: "insert_globals cfg 0 ?gs ?w1 = Inr (?w2, Inr ()) \<and> schemes_ok cfg ?w2"
    by (rule insert_globals_run [OF ok1]) (auto simp: iter_name_def globals_def)
  obtain w3 i where 3: "new_ns cfg ?w2 = Inr (w3, Inr (sl_next_ns ?w2))" "schemes_ok cfg w3" "sl_next_ns w3 = sl_next_ns ?w2 + 1"
    "\<forall>ns. iter_name ns w3 = (if ns = sl_next_ns ?w2 then ([], i) # common_ids cfg else iter_name ns ?w2)"
    using new_ns_run [OF conjunct2 [OF 2]] by blast
  let ?n = "sl_next_ns ?w2"
  let ?w4 = "fold (\<lambda>(n, g). add_name ?n n (scheme_id cfg g)) (root_names cfg) w3"
  have 4: "insert_globals cfg ?n (root_names cfg) w3 = Inr (?w4, Inr ()) \<and> schemes_ok cfg ?w4"
    by (rule insert_globals_run [OF 3(2)]) (auto simp: 3(3,4) root_names_def globals_def common_ids_def common_names_def)
  have "bindM (new_null cfg) (\<lambda>_. new_root cfg) ?w0 = Inr (?w4, Inr ())"
    using 2 3(1) 4 by (simp add: new_null_def new_root_def)
  moreover have "?n = 1" by simp
  ultimately show ?thesis using 4 3(3,4) by (auto simp: SchemeList_new_def Let_def fold_add_name)
qed

text \<open>Copying names: it succeeds exactly when every name can be resolved and is new.\<close>

definition copyable :: "nat \<Rightarrow> nat \<Rightarrow> string list \<Rightarrow> scheme_list \<Rightarrow> bool" where
  "copyable src to names w \<longleftrightarrow> distinct names \<and> (\<forall>n\<in>set names. map_of (iter_name src w) n \<noteq> None \<and> map_of (iter_name to w) n = None)"

lemma get_name_alt: "get_name ns n w = (case map_of (iter_name ns w) n of Some i \<Rightarrow> map_option (\<lambda>s. (i, s)) (scheme_get i w) | None \<Rightarrow> None)"
  by (simp add: get_name_def iter_name_def split: option.splits)

lemma make_ns_copy_run:
  assumes "schemes_ok cfg w" "to < sl_next_ns w"
  shows "\<exists>w' r. make_ns_copy src to names w = Inr (w', r) \<and> schemes_ok cfg w' \<and>
    (\<forall>j. scheme_get j w' = scheme_get j w) \<and> (\<forall>ns. ns \<noteq> to \<longrightarrow> iter_name ns w' = iter_name ns w) \<and>
    (if copyable src to names w
     then r = Inr to \<and> map_of (iter_name to w') = (\<lambda>n. if n \<in> set names then map_of (iter_name src w) n else map_of (iter_name to w) n)
     else r = Inl ENODEV \<or> r = Inl EEXIST)"
  using assms
proof (induction names arbitrary: w)
  case (Cons n names)
  have to: "map_of (sl_names w) to = Some (iter_name to w)" by (rule names_of [OF Cons.prems])
  show ?case
  proof (cases "map_of (iter_name src w) n")
    case None
    then show ?thesis using Cons.prems(1) by (auto simp: get_name_alt copyable_def)
  next
    case (Some i)
    then obtain sch where i: "scheme_get i w = Some sch" using Cons.prems(1) unfolding schemes_ok_def names_ok_def by blast
    let ?w = "add_name to n i w"
    have ok: "schemes_ok cfg ?w" "to < sl_next_ns ?w" using add_name_ok [OF Cons.prems] i Cons.prems(2) by auto
    have step: "make_ns_copy src to (n # names) w = (if map_of (iter_name to w) n \<noteq> None then errM EEXIST else make_ns_copy src to names) ?w"
      using Some i to by (simp add: get_name_alt add_name_def)
    show ?thesis
    proof (cases "map_of (iter_name to w) n")
      case None
      have new: "src \<noteq> to" using None Some by auto
      have c: "copyable src to (n # names) w \<longleftrightarrow> copyable src to names ?w" if "n \<notin> set names"
        using that None Some new by (auto simp: copyable_def update_conv')
      have c2: "\<not> copyable src to names ?w" "\<not> copyable src to (n # names) w" if "n \<in> set names" using that new by (auto simp: copyable_def update_conv')
      obtain w' r where r: "make_ns_copy src to names ?w = Inr (w', r)" "schemes_ok cfg w'" "\<forall>j. scheme_get j w' = scheme_get j ?w" "\<forall>ns. ns \<noteq> to \<longrightarrow> iter_name ns w' = iter_name ns ?w"
        "if copyable src to names ?w then r = Inr to \<and> map_of (iter_name to w') = (\<lambda>n. if n \<in> set names then map_of (iter_name src ?w) n else map_of (iter_name to ?w) n)
          else r = Inl ENODEV \<or> r = Inl EEXIST" using Cons.IH [OF ok] by blast
      have "if copyable src to (n # names) w then r = Inr to \<and> map_of (iter_name to w') = (\<lambda>x. if x \<in> set (n # names) then map_of (iter_name src w) x else map_of (iter_name to w) x)
          else r = Inl ENODEV \<or> r = Inl EEXIST"
        using r(5) c c2 new Some by (cases "n \<in> set names") (auto simp: update_conv' fun_eq_iff split: if_splits)
      then show ?thesis using step None r by auto
    next
      case (Some j)
      then show ?thesis using step ok by (auto simp: copyable_def)
    qed
  qed
qed (auto simp: copyable_def)

section \<open>Removing and creating schemes\<close>

lemma scheme_remove_run:
  assumes "schemes_ok cfg w" "scheme_get i w \<noteq> None"
  shows "\<exists>w'. scheme_remove i w = Inr (w', Inr ()) \<and> names_ok w' \<and> sl_root w' = sl_root w \<and> sl_next_ns w' = sl_next_ns w \<and>
    (\<forall>j. scheme_get j w' = (if j = i then None else scheme_get j w)) \<and> (\<forall>ns. map_of (iter_name ns w') = forget i (map_of (iter_name ns w)))"
proof -
  have n: "names_ok w" using assms(1) by (simp add: schemes_ok_def)
  have "\<forall>names\<in>snd ` set (sl_names w). distinct (map fst names)"
  proof
    fix names assume "names \<in> snd ` set (sl_names w)"
    then obtain ns where "map_of (sl_names w) ns = Some names" using n by (auto simp: names_ok_def map_of_eq_Some_iff)
    then show "distinct (map fst names)" using n iter_name_Some unfolding names_ok_def by metis
  qed
  then obtain all' where all': "remove_everywhere i (sl_names w) = Inr all'" "map fst all' = map fst (sl_names w)"
    "\<forall>ns. case map_of (sl_names w) ns of None \<Rightarrow> map_of all' ns = None
       | Some names \<Rightarrow> \<exists>names'. map_of all' ns = Some names' \<and> distinct (map fst names') \<and> map_of names' = forget i (map_of names)"
    using remove_everywhere_spec by blast
  let ?w = "w\<lparr>sl_map := AList.delete i (sl_map w), sl_names := all'\<rparr>"
  have run: "scheme_remove i w = Inr (?w, Inr ())" using assms(2) all'(1) by (simp add: scheme_remove_def)
  have get: "scheme_get j ?w = (if j = i then None else scheme_get j w)" for j by (simp add: scheme_get_def delete_conv')
  have it: "map_of (iter_name ns ?w) = forget i (map_of (iter_name ns w)) \<and> distinct (map fst (iter_name ns ?w))" for ns
    using all'(3) [rule_format, of ns] by (auto simp: iter_name_def forget_def split: option.splits)
  have dom: "map_of all' ns \<noteq> None \<longleftrightarrow> map_of (sl_names w) ns \<noteq> None" for ns using all'(3) [rule_format, of ns] by (auto split: option.splits)
  have "names_ok ?w" unfolding names_ok_def
    using n all'(2) dom it get by (auto simp: names_ok_def distinct_delete forget_def split: if_splits)
  then show ?thesis using run get it by auto
qed

text \<open>Only schemes of user space are removed, by closing their handle.\<close>

definition del_handle :: "nat \<Rightarrow> nat \<Rightarrow> scheme_list \<Rightarrow> scheme_list" where
  "del_handle r h = upd_root r (\<lambda>x. x\<lparr>rt_handles := AList.delete h (rt_handles x)\<rparr>)"

lemma del_handle_simps [simp]:
  "sl_map (del_handle r h w) = sl_map w" "sl_names (del_handle r h w) = sl_names w" "sl_next_ns (del_handle r h w) = sl_next_ns w"
  "scheme_get i (del_handle r h w) = scheme_get i w" "iter_name ns (del_handle r h w) = iter_name ns w"
  "rt_next_id (sl_root (del_handle r h w) r') = rt_next_id (sl_root w r')" "rt_scheme_id (sl_root (del_handle r h w) r') = rt_scheme_id (sl_root w r')"
  "rt_scheme_ns (sl_root (del_handle r h w) r') = rt_scheme_ns (sl_root w r')"
  "map_of (rt_handles (sl_root (del_handle r h w) r')) k = (if r' = r \<and> k = h then None else map_of (rt_handles (sl_root w r')) k)"
  by (simp_all add: del_handle_def upd_root_def scheme_get_def iter_name_def delete_conv')

lemma root_close_run:
  assumes "schemes_ok cfg w"
  shows "\<exists>w' r'. root_close r h w = Inr (w', r') \<and> schemes_ok cfg w' \<and>
    (\<forall>inner. map_of (rt_handles (sl_root w r)) h = Some (HScheme inner) \<longrightarrow> r' = Inr () \<and>
       (\<forall>ns n. get_name ns n w' = (if map_of (iter_name ns w) n = Some (ui_scheme_id inner) then None else get_name ns n w)))"
proof (cases "map_of (rt_handles (sl_root w r)) h")
  case None
  then show ?thesis using assms by (simp add: root_close_def root_handle_def)
next
  case (Some x)
  let ?w = "del_handle r h w"
  have h: "handles_ok w" and n: "names_ok w" and g: "globals_ok cfg w" using assms by (auto simp: schemes_ok_def)
  have n1: "names_ok ?w" "globals_ok cfg ?w" using n g by (simp_all add: names_ok_def globals_ok_def)
  show ?thesis
  proof (cases "\<exists>inner. x = HScheme inner")
    case False
    have "handles_ok ?w" using h Some False unfolding handles_ok_def by (auto split: if_splits)
    moreover have "root_close r h w = Inr (?w, Inr ())" using Some False by (cases x) (simp_all add: root_close_def root_handle_def del_handle_def)
    ultimately show ?thesis using n1 Some False by (auto simp: schemes_ok_def)
  next
    case True
    then obtain inner where x: "x = HScheme inner" by blast
    let ?i = "ui_scheme_id inner"
    have inner: "scheme_get ?i w = Some (User inner)" "ui_root_id inner = r" "ui_handle_id inner = h"
      using h Some x unfolding handles_ok_def by blast+
    obtain w' where w': "scheme_remove ?i w = Inr (w', Inr ())" "names_ok w'" "sl_root w' = sl_root w" "sl_next_ns w' = sl_next_ns w"
      "\<forall>j. scheme_get j w' = (if j = ?i then None else scheme_get j w)"
      "\<forall>ns. map_of (iter_name ns w') = forget ?i (map_of (iter_name ns w))" using scheme_remove_run [OF assms, of ?i] inner(1) by blast
    have "scheme_remove ?i ?w = Inr (del_handle r h w', Inr ())" using w'(1) inner(1)
      by (auto simp: scheme_remove_def del_handle_def upd_root_def scheme_get_def bindM_def bindE_def liftE_def split: sum.splits)
    then have run: "root_close r h w = Inr (del_handle r h w', Inr ())" using Some x by (simp add: root_close_def root_handle_def del_handle_def)
    have uniq: "ui_scheme_id other \<noteq> ?i" if "map_of (rt_handles (sl_root w r')) h' = Some (HScheme other)" "(r', h') \<noteq> (r, h)" for r' h' other
      using h that inner unfolding handles_ok_def by (metis kernel_scheme.inject(2) option.inject)
    have neq: "ui_root_id other \<noteq> ?i" if "scheme_get j w = Some (User other)" for j other
      using h that inner(1) unfolding handles_ok_def by (metis kernel_scheme.distinct(1) option.inject)
    have keep: "ui_root_id other \<noteq> r \<or> ui_handle_id other \<noteq> h" if "scheme_get j w = Some (User other)" "j \<noteq> ?i" for j other
      using h that inner Some x unfolding handles_ok_def by (metis handle.inject(1) option.inject)
    have "handles_ok (del_handle r h w')" unfolding handles_ok_def
      using h w'(3,4,5) uniq neq keep unfolding handles_ok_def by (auto split: if_splits) (metis keep)
    moreover have "names_ok (del_handle r h w')" using w'(2) by (simp add: names_ok_def)
    moreover have "globals_ok cfg (del_handle r h w')" using g w'(5) inner(1) by (auto simp: globals_ok_def)
    moreover have "get_name ns m (del_handle r h w') = (if map_of (iter_name ns w) m = Some ?i then None else get_name ns m w)" for ns m
      using w'(5,6) by (auto simp: get_name_alt forget_def split: option.splits)
    ultimately show ?thesis using run Some x by (simp add: schemes_ok_def)
  qed
qed

text \<open>A handle with the next number.\<close>

definition add_handle :: "nat \<Rightarrow> handle \<Rightarrow> scheme_list \<Rightarrow> scheme_list" where
  "add_handle r x w = upd_root r (\<lambda>y. y\<lparr>rt_next_id := rt_next_id y + 1, rt_handles := AList.update (rt_next_id y) x (rt_handles y)\<rparr>) w"

lemma add_handle_simps [simp]:
  "sl_map (add_handle r h w) = sl_map w" "sl_names (add_handle r h w) = sl_names w" "sl_next_ns (add_handle r h w) = sl_next_ns w"
  "scheme_get i (add_handle r h w) = scheme_get i w" "iter_name ns (add_handle r h w) = iter_name ns w"
  "rt_next_id (sl_root (add_handle r h w) r') = (if r' = r then rt_next_id (sl_root w r) + 1 else rt_next_id (sl_root w r'))"
  "rt_scheme_id (sl_root (add_handle r h w) r') = rt_scheme_id (sl_root w r')" "rt_scheme_ns (sl_root (add_handle r h w) r') = rt_scheme_ns (sl_root w r')"
  "map_of (rt_handles (sl_root (add_handle r h w) r')) k = (if r' = r \<and> k = rt_next_id (sl_root w r) then Some h else map_of (rt_handles (sl_root w r')) k)"
  by (simp_all add: add_handle_def upd_root_def scheme_get_def iter_name_def update_conv')

lemma add_plain_handle_ok:
  assumes "schemes_ok cfg w" "\<And>inner. x \<noteq> HScheme inner"
  shows "schemes_ok cfg (add_handle r x w)"
proof -
  have h: "handles_ok w" using assms(1) by (simp add: schemes_ok_def)
  have "ui_root_id inner \<noteq> r \<or> ui_handle_id inner \<noteq> rt_next_id (sl_root w r)" if "scheme_get i w = Some (User inner)" for i inner
    using h that unfolding handles_ok_def by (metis less_irrefl)
  then have "handles_ok (add_handle r x w)" using h assms(2) unfolding handles_ok_def by (auto simp: less_SucI)
  then show ?thesis using assms(1) by (simp add: schemes_ok_def names_ok_def globals_ok_def)
qed

definition bump :: "nat \<Rightarrow> scheme_list \<Rightarrow> scheme_list" where
  "bump r w = upd_root r (\<lambda>x. x\<lparr>rt_next_id := rt_next_id x + 1\<rparr>) w"

lemma bump_simps [simp]:
  "sl_map (bump r w) = sl_map w" "sl_names (bump r w) = sl_names w" "sl_next_ns (bump r w) = sl_next_ns w"
  "scheme_get i (bump r w) = scheme_get i w" "iter_name ns (bump r w) = iter_name ns w"
  "rt_next_id (sl_root (bump r w) r') = (if r' = r then rt_next_id (sl_root w r) + 1 else rt_next_id (sl_root w r'))"
  "rt_scheme_id (sl_root (bump r w) r') = rt_scheme_id (sl_root w r')" "rt_scheme_ns (sl_root (bump r w) r') = rt_scheme_ns (sl_root w r')"
  "rt_handles (sl_root (bump r w) r') = rt_handles (sl_root w r')"
  by (simp_all add: bump_def upd_root_def scheme_get_def iter_name_def)

lemma bump_ok: "schemes_ok cfg w \<Longrightarrow> schemes_ok cfg (bump r w)"
  by (auto simp: schemes_ok_def names_ok_def globals_ok_def handles_ok_def less_SucI)

lemma root_next_id_run: "root_next_id r w = Inr (bump r w, Inr (rt_next_id (sl_root w r)))"
  by (simp add: root_next_id_def bump_def upd_root_def)

lemma upd_root_simps:
  "sl_names (upd_root r f w) = sl_names w" "sl_map (upd_root r f w) = sl_map w" "sl_next_ns (upd_root r f w) = sl_next_ns w"
  "scheme_get j (upd_root r f w) = scheme_get j w" "iter_name ns (upd_root r f w) = iter_name ns w"
  by (simp_all add: upd_root_def scheme_get_def iter_name_def)

lemma root_create_run:
  assumes "schemes_ok cfg w" "scheme_get r w = Some (Root r)" "CHR ''/'' \<notin> set path"
  shows "\<exists>w' r'. root_kopen r path True fsync 0 ens w = Inr (w', r') \<and> schemes_ok cfg w' \<and>
    (case r' of Inl e \<Rightarrow> e = EEXIST | Inr _ \<Rightarrow> map_of (iter_name (rt_scheme_ns (sl_root w r)) w) path = None)"
proof -
  have h: "handles_ok w" using assms(1) by (simp add: schemes_ok_def)
  have r: "rt_scheme_id (sl_root w r) = r" "rt_scheme_ns (sl_root w r) < sl_next_ns w" using h assms(2) unfolding handles_ok_def by blast+
  let ?ns = "rt_scheme_ns (sl_root w r)" and ?h = "rt_next_id (sl_root w r)" and ?v = "bump r w"
  define inner where "inner = (\<lambda>sid. \<lparr>ui_root_id = r, ui_scheme_id = sid, ui_v2 = fsync, ui_handle_id = ?h, ui_name = path\<rparr>)"
  have path: "dropWhile (\<lambda>c. c = CHR ''/'') path = path" using assms(3) by (cases path) auto
  let ?f = "\<lambda>sid. let inner = \<lparr>ui_root_id = r, ui_scheme_id = sid, ui_v2 = fsync, ui_handle_id = ?h, ui_name = path\<rparr> in retM (User inner, inner)"
  have ins: "if map_of (iter_name ?ns ?v) path \<noteq> None then insert_and_pass ?ns path ?f ?v = Inr (?v, Inl EEXIST)
    else \<exists>i. scheme_get i ?v = None \<and> insert_and_pass ?ns path ?f ?v = Inr (add_scheme ?ns path i (User (inner i)) (\<lambda>x. x) ?v, Inr (i, inner i))"
    using r(2) by (intro insert_and_pass_run [OF bump_ok [OF assms(1)]]) (simp_all add: inner_def Let_def)
  have start: "root_kopen r path True fsync 0 ens w = bindM (insert_and_pass ?ns path ?f) (\<lambda>(_, inner). bindM (root_insert r ?h (HScheme inner)) (\<lambda>_. retM (?h, False))) ?v"
    using assms(3) path r(1) by (simp add: root_kopen_def root_next_id_run)
  show ?thesis
  proof (cases "map_of (iter_name ?ns w) path")
    case (Some j)
    then show ?thesis using start ins bump_ok [OF assms(1)] by auto
  next
    case None
    then obtain i where i: "scheme_get i w = None" "insert_and_pass ?ns path ?f ?v = Inr (add_scheme ?ns path i (User (inner i)) (\<lambda>x. x) ?v, Inr (i, inner i))"
      using ins by auto
    let ?w1 = "add_scheme ?ns path i (User (inner i)) (\<lambda>x. x) ?v"
    let ?w2 = "upd_root r (\<lambda>x. x\<lparr>rt_handles := AList.update ?h (HScheme (inner i)) (rt_handles x)\<rparr>) ?w1"
    have run: "root_kopen r path True fsync 0 ens w = Inr (?w2, Inr (?h, False))" unfolding start using i(2) by (simp add: root_insert_def)
    have v: "schemes_ok cfg ?v" "scheme_get i ?v = None" "?ns < sl_next_ns ?v" using bump_ok [OF assms(1)] i(1) r(2) by auto
    have same: "sl_names ?w2 = sl_names ?w1" "sl_map ?w2 = sl_map ?w1" "sl_next_ns ?w2 = sl_next_ns ?w1" "scheme_get j ?w2 = scheme_get j ?w1" "iter_name ns ?w2 = iter_name ns ?w1" for j ns
      by (rule upd_root_simps)+
    have get: "scheme_get j ?w2 = (if j = i then Some (User (inner i)) else scheme_get j w)" for j by (simp add: same(4))
    have names: "names_ok ?w2" "globals_ok cfg ?w2"
      using add_scheme_names [OF v(1,3,2), of path "User (inner i)" "\<lambda>x. x"] unfolding names_ok_def globals_ok_def same by blast+
    have root: "sl_root ?w2 x = (if x = r then (sl_root w r)\<lparr>rt_next_id := ?h + 1, rt_handles := AList.update ?h (HScheme (inner i)) (rt_handles (sl_root w r))\<rparr> else sl_root w x)" for x
      by (simp add: upd_root_def bump_def)
    have ns2: "sl_next_ns ?w2 = sl_next_ns w" using same(3) by simp
    have ri: "r \<noteq> i" using assms(2) i(1) by auto
    have fresh: "map_of (rt_handles (sl_root w r)) ?h = None" using h unfolding handles_ok_def by (metis less_irrefl not_Some_eq)
    have "ui_root_id inner' \<noteq> r \<or> ui_handle_id inner' \<noteq> ?h" if "scheme_get j w = Some (User inner')" for j inner'
      using h that fresh unfolding handles_ok_def by (metis option.distinct(1))
    then have "handles_ok ?w2" unfolding handles_ok_def get root ns2
      using h assms(2) i(1) ri r unfolding handles_ok_def by (auto simp: update_conv' inner_def less_SucI split: if_splits)
    then show ?thesis using run names None by (simp add: schemes_ok_def)
  qed
qed

lemma root_kopen_run:
  assumes "schemes_ok cfg w" "scheme_get r w = Some (Root r)"
  shows "\<exists>w' r'. root_kopen r path creat fsync uid ens w = Inr (w', r') \<and> schemes_ok cfg w'"
proof -
  let ?p = "dropWhile (\<lambda>c. c = CHR ''/'') path"
  have add: "bindM (root_next_id r) (\<lambda>i. bindM (root_insert r i x) (\<lambda>_. retM (i, True))) w = Inr (add_handle r x w, Inr (rt_next_id (sl_root w r), True))" for x
    by (simp add: root_next_id_run root_insert_def add_handle_def bump_def upd_root_def)
  have ok: "schemes_ok cfg (add_handle r x w)" if "\<And>inner. x \<noteq> HScheme inner" for x using add_plain_handle_ok [OF assms(1) that] .
  consider (create) "creat" "uid = 0" "CHR ''/'' \<notin> set ?p" | (refuse) "creat" "uid \<noteq> 0 \<or> CHR ''/'' \<in> set ?p" | (dir) "\<not> creat" "?p = []" | (plain) "\<not> creat" "?p \<noteq> []" by blast
  then show ?thesis
  proof cases
    case create
    have "root_kopen r path creat fsync uid ens = root_kopen r ?p True fsync 0 ens" using create by (simp add: root_kopen_def)
    then show ?thesis using root_create_run [OF assms create(3)] by metis
  next
    case refuse
    then show ?thesis using assms(1) by (cases "uid = 0") (simp_all add: root_kopen_def Let_def)
  next
    case dir
    then show ?thesis using assms(1) add ok by (cases ens) (simp_all add: root_kopen_def)
  next
    case plain
    then show ?thesis unfolding root_kopen_def Let_def if_not_P [OF plain(1)] if_not_P [OF plain(2)] using add ok by simp
  qed
qed

lemma make_ns_run:
  assumes "schemes_ok cfg w"
  shows "\<exists>w' r i. make_ns cfg src names w = Inr (w', r) \<and> schemes_ok cfg w' \<and> scheme_get i w = None \<and>
    (\<forall>j. scheme_get j w' = (if j = i then Some (Root i) else scheme_get j w)) \<and> (\<forall>ns. ns \<noteq> sl_next_ns w \<longrightarrow> iter_name ns w' = iter_name ns w) \<and>
    (if distinct names \<and> (\<forall>n\<in>set names. get_name src n w \<noteq> None \<and> n \<noteq> [] \<and> n \<notin> fst ` set common_names)
     then r = Inr (sl_next_ns w) \<and> map_of (iter_name (sl_next_ns w) w') =
       (\<lambda>n. if n \<in> set names then map_of (iter_name src w) n else map_of (([], i) # common_ids cfg) n)
     else r = Inl ENODEV \<or> r = Inl EEXIST)"
proof -
  let ?to = "sl_next_ns w"
  obtain v i where v: "new_ns cfg w = Inr (v, Inr ?to)" "schemes_ok cfg v" "scheme_get i w = None" "\<forall>j. scheme_get j v = (if j = i then Some (Root i) else scheme_get j w)"
    "sl_next_ns v = ?to + 1" "\<forall>ns. iter_name ns v = (if ns = ?to then ([], i) # common_ids cfg else iter_name ns w)" using new_ns_run [OF assms] by blast
  obtain w' r where r: "make_ns_copy src ?to names v = Inr (w', r)" "schemes_ok cfg w'" "\<forall>j. scheme_get j w' = scheme_get j v" "\<forall>ns. ns \<noteq> ?to \<longrightarrow> iter_name ns w' = iter_name ns v"
    "if copyable src ?to names v then r = Inr ?to \<and> map_of (iter_name ?to w') = (\<lambda>n. if n \<in> set names then map_of (iter_name src v) n else map_of (iter_name ?to v) n)
     else r = Inl ENODEV \<or> r = Inl EEXIST" using make_ns_copy_run [OF v(2), of ?to src names] v(5) by auto
  have n: "names_ok w" using assms by (simp add: schemes_ok_def)
  have none: "iter_name ?to w = []" using n by (auto simp: names_ok_def iter_name_def split: option.splits)
  have res: "get_name src n w \<noteq> None \<longleftrightarrow> map_of (iter_name src w) n \<noteq> None" for n
    using n unfolding names_ok_def by (auto simp: get_name_alt split: option.splits)
  have to: "map_of (iter_name ?to v) n = None \<longleftrightarrow> n \<noteq> [] \<and> n \<notin> fst ` set common_names" for n
    using v(6) by (simp add: common_ids_def map_of_eq_None_iff image_image split_beta)
  have c: "copyable src ?to names v \<longleftrightarrow> distinct names \<and> (\<forall>n\<in>set names. get_name src n w \<noteq> None \<and> n \<noteq> [] \<and> n \<notin> fst ` set common_names)"
  proof (cases "src = ?to")
    case True
    then show ?thesis using res none unfolding copyable_def by (cases names) auto
  next
    case False
    then show ?thesis using v(6) res to unfolding copyable_def by simp
  qed
  have val: "(\<lambda>n. if n \<in> set names then map_of (iter_name src v) n else map_of (iter_name ?to v) n) =
      (\<lambda>n. if n \<in> set names then map_of (iter_name src w) n else map_of (([], i) # common_ids cfg) n)" if "copyable src ?to names v"
    using that v(6) by (cases "src = ?to") (auto simp: copyable_def fun_eq_iff)
  show ?thesis using v r c val by (intro exI [of _ w'] exI [of _ r] exI [of _ i]) (auto simp: make_ns_def)
qed

section \<open>Histories\<close>

inductive scheme_reach :: "build_cfg \<Rightarrow> scheme_list \<Rightarrow> bool" for cfg where
  boot: "SchemeList_new cfg = Inr w \<Longrightarrow> scheme_reach cfg w"
| kopen: "scheme_reach cfg w \<Longrightarrow> scheme_get r w = Some (Root r) \<Longrightarrow> root_kopen r path creat fsync uid ens w = Inr (w', res) \<Longrightarrow> scheme_reach cfg w'"
| close: "scheme_reach cfg w \<Longrightarrow> root_close r h w = Inr (w', res') \<Longrightarrow> scheme_reach cfg w'"
| mkns: "scheme_reach cfg w \<Longrightarrow> make_ns cfg src names w = Inr (w', res'') \<Longrightarrow> scheme_reach cfg w'"

lemma reach_ok: "scheme_reach cfg w \<Longrightarrow> schemes_ok cfg w"
proof (induction rule: scheme_reach.induct)
  case (boot w)
  then show ?case using boot_run [of cfg] by simp
next
  case (kopen w r path creat fsync uid ens w' res)
  then show ?case using root_kopen_run [OF kopen(4,2), of path creat fsync uid ens] by auto
next
  case (close w r h w' res')
  then show ?case using root_close_run [OF close(3), of r h] by auto
next
  case (mkns w src names w' res'')
  then show ?case using make_ns_run [OF mkns(3), of src names] by auto
qed

text \<open>
  C28: Whatever schemes and namespaces are created and removed, every name in every namespace leads to a scheme,
  the schemes of user space are exactly those whose handle is open, and the global schemes keep their ids.  No
  operation panics, and closing the handle of a scheme takes its names, and no other, out of every namespace.
\<close>

theorem schemes_safe:
  assumes "scheme_reach cfg w"
  shows "(\<forall>ns n i. map_of (iter_name ns w) n = Some i \<longrightarrow> (\<exists>s. get_name ns n w = Some (i, s))) \<and>
    (\<forall>i inner. scheme_get i w = Some (User inner) \<longleftrightarrow>
       ui_scheme_id inner = i \<and> map_of (rt_handles (sl_root w (ui_root_id inner))) (ui_handle_id inner) = Some (HScheme inner)) \<and>
    (\<forall>g\<in>set (globals cfg). scheme_get (scheme_id cfg g) w = Some (Global g)) \<and>
    (\<forall>src names. \<not> panics (make_ns cfg src names w)) \<and>
    (\<forall>r path creat fsync uid ens. scheme_get r w = Some (Root r) \<longrightarrow> \<not> panics (root_kopen r path creat fsync uid ens w)) \<and>
    (\<forall>r h. \<not> panics (root_close r h w)) \<and>
    (\<forall>r h inner. map_of (rt_handles (sl_root w r)) h = Some (HScheme inner) \<longrightarrow>
       (\<exists>w'. root_close r h w = Inr (w', Inr ()) \<and>
          (\<forall>ns n. get_name ns n w' = (if map_of (iter_name ns w) n = Some (ui_scheme_id inner) then None else get_name ns n w))))"
proof -
  have ok: "schemes_ok cfg w" by (rule reach_ok [OF assms])
  have n: "names_ok w" and g: "globals_ok cfg w" and h: "handles_ok w" using ok by (auto simp: schemes_ok_def)
  have "\<exists>s. get_name ns m w = Some (i, s)" if "map_of (iter_name ns w) m = Some i" for ns m i
    using n that unfolding names_ok_def by (auto simp: get_name_alt)
  moreover have "scheme_get i w = Some (User inner) \<longleftrightarrow>
       ui_scheme_id inner = i \<and> map_of (rt_handles (sl_root w (ui_root_id inner))) (ui_handle_id inner) = Some (HScheme inner)" for i inner
    using h unfolding handles_ok_def by blast
  moreover have "\<not> panics (make_ns cfg src names w)" for src names using make_ns_run [OF ok, of src names] by auto
  moreover have "\<not> panics (root_kopen r path creat fsync uid ens w)" if "scheme_get r w = Some (Root r)" for r path creat fsync uid ens
    using root_kopen_run [OF ok that, of path creat fsync uid ens] by auto
  moreover have "\<not> panics (root_close r h w)" for r h using root_close_run [OF ok, of r h] by auto
  moreover have "\<exists>w'. root_close r h w = Inr (w', Inr ()) \<and>
      (\<forall>ns n. get_name ns n w' = (if map_of (iter_name ns w) n = Some (ui_scheme_id inner) then None else get_name ns n w))"
    if "map_of (rt_handles (sl_root w r)) h = Some (HScheme inner)" for r h inner using root_close_run [OF ok, of r h] that by blast
  ultimately show ?thesis using g unfolding globals_ok_def by blast
qed

text \<open>
  C29: A new namespace is confined.  It is made exactly when the requested names are distinct, known to the old
  namespace and none of the fixed ones; then it knows the requested names with the meaning they had, its own
  root scheme and the six common global schemes, and nothing else.  No other namespace changes, in any case.
\<close>

theorem make_ns_confined:
  assumes "scheme_reach cfg w"
  shows "\<exists>w' r i. make_ns cfg src names w = Inr (w', r) \<and>
    (r = Inr (sl_next_ns w) \<longleftrightarrow> distinct names \<and> (\<forall>n\<in>set names. get_name src n w \<noteq> None \<and> n \<noteq> [] \<and> n \<notin> fst ` set common_names)) \<and>
    (r = Inr (sl_next_ns w) \<longrightarrow> (\<forall>n. get_name (sl_next_ns w) n w' =
       (if n \<in> set names then get_name src n w else if n = [] then Some (i, Root i)
        else map_option (\<lambda>g. (scheme_id cfg g, Global g)) (map_of common_names n)))) \<and>
    (\<forall>ns n. ns \<noteq> sl_next_ns w \<longrightarrow> get_name ns n w' = get_name ns n w)"
proof -
  have ok: "schemes_ok cfg w" by (rule reach_ok [OF assms])
  have n: "names_ok w" and g: "globals_ok cfg w" using ok by (auto simp: schemes_ok_def)
  obtain w' r i where r: "make_ns cfg src names w = Inr (w', r)" "scheme_get i w = None"
    "\<forall>j. scheme_get j w' = (if j = i then Some (Root i) else scheme_get j w)" "\<forall>ns. ns \<noteq> sl_next_ns w \<longrightarrow> iter_name ns w' = iter_name ns w"
    "if distinct names \<and> (\<forall>n\<in>set names. get_name src n w \<noteq> None \<and> n \<noteq> [] \<and> n \<notin> fst ` set common_names)
     then r = Inr (sl_next_ns w) \<and> map_of (iter_name (sl_next_ns w) w') =
       (\<lambda>n. if n \<in> set names then map_of (iter_name src w) n else map_of (([], i) # common_ids cfg) n)
     else r = Inl ENODEV \<or> r = Inl EEXIST" using make_ns_run [OF ok, of src names] by blast
  have old: "scheme_get j w' = scheme_get j w" if "map_of (iter_name ns w) m = Some j" for ns m j
    using n that r(2,3) unfolding names_ok_def by (metis)
  then have other: "get_name ns m w' = get_name ns m w" if "ns \<noteq> sl_next_ns w" for ns m
    using r(4) that by (auto simp: get_name_alt split: option.splits)
  have common: "map_of (common_ids cfg) m = map_option (scheme_id cfg) (map_of common_names m)" for m
    by (simp add: common_ids_def map_of_map split_def [symmetric] case_prod_unfold [symmetric])
  have glob: "scheme_get (scheme_id cfg x) w' = Some (Global x)" if "map_of common_names m = Some x" for m x
  proof -
    have "x \<in> set (globals cfg)" using map_of_SomeD [OF that] by (auto simp: common_names_def globals_def)
    then have "scheme_get (scheme_id cfg x) w = Some (Global x)" using g by (simp add: globals_ok_def)
    then show ?thesis using r(2,3) by auto
  qed
  have new: "get_name (sl_next_ns w) m w' = (if m \<in> set names then get_name src m w else if m = [] then Some (i, Root i)
        else map_option (\<lambda>g. (scheme_id cfg g, Global g)) (map_of common_names m))" if "r = Inr (sl_next_ns w)" for m
  proof -
    have it: "map_of (iter_name (sl_next_ns w) w') m = (if m \<in> set names then map_of (iter_name src w) m else map_of (([], i) # common_ids cfg) m)"
      using r(5) that by (auto split: if_splits)
    consider (req) "m \<in> set names" | (self) "m \<notin> set names" "m = []" | (fixed) "m \<notin> set names" "m \<noteq> []" by blast
    then show ?thesis
    proof cases
      case req
      then show ?thesis using it old [of src m] by (simp add: get_name_alt split: option.splits)
    next
      case self
      then show ?thesis using it r(3) by (simp add: get_name_alt)
    next
      case fixed
      then show ?thesis using it glob [of m] by (simp add: get_name_alt common split: option.splits)
    qed
  qed
  show ?thesis using r(1,5) other new by (intro exI [of _ w'] exI [of _ r] exI [of _ i]) (auto split: if_splits)
qed

section \<open>An example\<close>

definition pc_cfg :: build_cfg where "pc_cfg = \<lparr>cfg_acpi = True, cfg_dtb = False\<rparr>"

lemma pc_boot: "\<exists>w. SchemeList_new pc_cfg = Inr w \<and> scheme_reach pc_cfg w \<and> sl_next_ns w = 2 \<and> get_name 1 ''irq'' w = Some (6, Global GIrq)"
proof -
  obtain w i where w: "SchemeList_new pc_cfg = Inr w" "schemes_ok pc_cfg w" "sl_next_ns w = 2"
    "iter_name 1 w = fold (\<lambda>(n, g). AList.update n (scheme_id pc_cfg g)) (root_names pc_cfg) (([], i) # common_ids pc_cfg)" using boot_run [of pc_cfg] by blast
  have "map_of (iter_name 1 w) ''irq'' = Some 6" unfolding w(4)
    by (simp add: root_names_def common_ids_def common_names_def pc_cfg_def scheme_id_def)
  moreover have "scheme_get (scheme_id pc_cfg GIrq) w = Some (Global GIrq)" using w(2) by (simp add: schemes_ok_def globals_ok_def globals_def)
  ultimately have "get_name 1 ''irq'' w = Some (6, Global GIrq)" by (simp add: get_name_alt scheme_id_def)
  then show ?thesis using w(1,3) scheme_reach.boot by blast
qed

theorem schemes_safe_witness:
  "\<exists>w. SchemeList_new pc_cfg = Inr w \<and> scheme_get 6 w = Some (Global GIrq) \<and> \<not> panics (make_ns pc_cfg 1 [''irq'', ''nothing''] w)"
proof -
  obtain w where w: "SchemeList_new pc_cfg = Inr w" "scheme_reach pc_cfg w" using pc_boot by blast
  have "\<forall>g\<in>set (globals pc_cfg). scheme_get (scheme_id pc_cfg g) w = Some (Global g)" "\<forall>from names. \<not> panics (make_ns pc_cfg from names w)"
    using schemes_safe [OF w(2)] by blast+
  then show ?thesis using w(1) by (auto simp: globals_def scheme_id_def)
qed

theorem make_ns_confined_witness:
  "\<exists>w w'. SchemeList_new pc_cfg = Inr w \<and> make_ns pc_cfg 1 [''irq''] w = Inr (w', Inr 2) \<and>
     get_name 2 ''irq'' w' = Some (6, Global GIrq) \<and> get_name 2 ''debug'' w' = None"
proof -
  obtain w where w: "SchemeList_new pc_cfg = Inr w" "scheme_reach pc_cfg w" "sl_next_ns w = 2" "get_name 1 ''irq'' w = Some (6, Global GIrq)" using pc_boot by blast
  obtain w' r i where r: "make_ns pc_cfg 1 [''irq''] w = Inr (w', r)"
    "r = Inr (sl_next_ns w) \<longleftrightarrow> distinct [''irq''] \<and> (\<forall>n\<in>set [''irq'']. get_name 1 n w \<noteq> None \<and> n \<noteq> [] \<and> n \<notin> fst ` set common_names)"
    "r = Inr (sl_next_ns w) \<longrightarrow> (\<forall>n. get_name (sl_next_ns w) n w' =
       (if n \<in> set [''irq''] then get_name 1 n w else if n = [] then Some (i, Root i)
        else map_option (\<lambda>g. (scheme_id pc_cfg g, Global g)) (map_of common_names n)))"
    using make_ns_confined [OF w(2), of 1 "[''irq'']"] by blast
  have "r = Inr 2" using r(2) w(3,4) by (simp add: common_names_def)
  then show ?thesis using r(1,3) w by (auto simp: common_names_def)
qed

end
