(* ===== verification/File_Calls.thy ===== *)
theory File_Calls
  imports Scheme_List Process_Table Event_Queue
begin

text \<open>
  File descriptions (\<open>src/src/context/file.rs\<close>), the system calls on files (\<open>src/src/syscall/fs.rs\<close>) and the
  call that makes a namespace (\<open>src/src/syscall/privilege.rs\<close>).  A description is shared by reference; the
  number of its references is part of the state, since the last one decides whether the scheme is told that
  the file is closed.  The operations of the schemes are an argument of the calls: they may change the whole
  state, because other contexts run while a scheme is busy.
\<close>

unbundle bit_operations_syntax

section \<open>State\<close>

record file_description =
  de_offset :: usize
  de_scheme :: nat
  de_number :: nat
  de_flags :: "32 word"
  de_positioned :: bool

record 's file_world =
  fl_schemes :: scheme_list
  fl_procs :: proc_world
  fl_tables :: "nat \<Rightarrow> file_table"
  fl_desc :: "desc_id \<Rightarrow> file_description"
  fl_refs :: "desc_id \<Rightarrow> nat"
  fl_next_desc :: nat
  fl_events :: event_world
  fl_state :: 's

type_synonym ('s, 'a) fileprog = "('s file_world, errno, 'a) prog"

record caller_ctx =
  cc_pid :: nat
  cc_uid :: "32 word"
  cc_gid :: "32 word"

datatype open_result = SchemeLocal nat bool | External desc_id

text \<open>Operations that a call only passes on.\<close>

datatype scheme_call = KGetdents user_slice usize usize | KFutimens user_slice | KFpath user_slice | KFstatvfs user_slice | KFchmod "16 word" | KFchown "32 word" "32 word"
  | KFevent usize | KFsync | KFtruncate usize

text \<open>The operations of a scheme that the calls use.\<close>

record 's kscheme =
  k_open :: "kernel_scheme \<Rightarrow> string \<Rightarrow> usize \<Rightarrow> caller_ctx \<Rightarrow> ('s, open_result) fileprog"
  k_rmdir :: "kernel_scheme \<Rightarrow> string \<Rightarrow> caller_ctx \<Rightarrow> ('s, unit) fileprog"
  k_unlink :: "kernel_scheme \<Rightarrow> string \<Rightarrow> caller_ctx \<Rightarrow> ('s, unit) fileprog"
  k_close :: "kernel_scheme \<Rightarrow> nat \<Rightarrow> ('s, unit) fileprog"
  k_dup :: "kernel_scheme \<Rightarrow> nat \<Rightarrow> user_slice \<Rightarrow> caller_ctx \<Rightarrow> ('s, open_result) fileprog"
  k_sendfd :: "kernel_scheme \<Rightarrow> nat \<Rightarrow> desc_id \<Rightarrow> usize \<Rightarrow> usize \<Rightarrow> ('s, usize) fileprog"
  k_fcntl :: "kernel_scheme \<Rightarrow> nat \<Rightarrow> usize \<Rightarrow> usize \<Rightarrow> ('s, usize) fileprog"
  k_frename :: "kernel_scheme \<Rightarrow> nat \<Rightarrow> string \<Rightarrow> caller_ctx \<Rightarrow> ('s, unit) fileprog"
  k_fstat :: "kernel_scheme \<Rightarrow> nat \<Rightarrow> user_slice \<Rightarrow> ('s, unit) fileprog"
  k_legacy_seek :: "kernel_scheme \<Rightarrow> nat \<Rightarrow> usize \<Rightarrow> usize \<Rightarrow> ('s, usize result option) fileprog"
  k_fsize :: "kernel_scheme \<Rightarrow> nat \<Rightarrow> ('s, usize) fileprog"
  k_readoff :: "kernel_scheme \<Rightarrow> nat \<Rightarrow> user_slice \<Rightarrow> usize \<Rightarrow> 32 word \<Rightarrow> 32 word \<Rightarrow> ('s, usize) fileprog"
  k_writeoff :: "kernel_scheme \<Rightarrow> nat \<Rightarrow> user_slice \<Rightarrow> usize \<Rightarrow> 32 word \<Rightarrow> 32 word \<Rightarrow> ('s, usize) fileprog"
  k_pass :: "kernel_scheme \<Rightarrow> nat \<Rightarrow> scheme_call \<Rightarrow> ('s, usize) fileprog"

text \<open>Constants of the system call crate.\<close>

record fs_consts =
  O_CLOEXEC :: usize
  O_ACCMODE :: usize
  O_NONBLOCK :: usize
  O_APPEND :: usize
  F_DUPFD :: usize
  F_GETFD :: usize
  F_SETFD :: usize
  F_GETFL :: usize
  F_SETFL :: usize
  SEEK_SET :: usize
  SEEK_CUR :: usize
  SEEK_END :: usize
  SENDFD_ALL :: usize
  SENDFD_EXCLUSIVE :: usize
  ST_DEV :: nat
  RW_NONBLOCK :: usize
  RW_APPEND :: usize
  DIRENT_HEADER :: usize
  EVENT_FLAGS :: usize

section \<open>Parts of the state\<close>

definition userM :: "(umem, errno, 'a) prog \<Rightarrow> ('s, 'a) fileprog" where
  "userM m w = bindE (m (px_user (fl_procs w))) (\<lambda>(u, r). Inr (w\<lparr>fl_procs := (fl_procs w)\<lparr>px_user := u\<rparr>\<rparr>, r))"

definition procM :: "'a procprog \<Rightarrow> ('s, 'a) fileprog" where
  "procM m w = bindE (m (fl_procs w)) (\<lambda>(p, r). Inr (w\<lparr>fl_procs := p\<rparr>, r))"

definition schemeM :: "'a schemeprog \<Rightarrow> ('s, 'a) fileprog" where
  "schemeM m w = bindE (m (fl_schemes w)) (\<lambda>(l, r). Inr (w\<lparr>fl_schemes := l\<rparr>, r))"

text \<open>The file table of the running context, which other contexts may share.\<close>

definition current_files :: "'s file_world \<Rightarrow> nat" where
  "current_files w = (case sc_ctx (px_sched (fl_procs w)) (sc_current (px_sched (fl_procs w))) of Some c \<Rightarrow> ctx_files c | None \<Rightarrow> 0)"

definition current_table :: "'s file_world \<Rightarrow> file_table" where
  "current_table w = fl_tables w (current_files w)"

definition set_table :: "file_table \<Rightarrow> 's file_world \<Rightarrow> 's file_world" where
  "set_table t w = w\<lparr>fl_tables := (fl_tables w)(current_files w := t)\<rparr>"

definition current_info :: "('s, process_info) fileprog" where
  "current_info = procM (bindM process_current (\<lambda>p. getM (\<lambda>w. proc_info w p)))"

definition caller_ctx_of :: "process_info \<Rightarrow> caller_ctx" where
  "caller_ctx_of i = \<lparr>cc_pid = pi_pid i, cc_uid = pi_euid i, cc_gid = pi_egid i\<rparr>"

section \<open>References to descriptions\<close>

definition upd_desc :: "desc_id \<Rightarrow> (file_description \<Rightarrow> file_description) \<Rightarrow> 's file_world \<Rightarrow> 's file_world" where
  "upd_desc d f w = w\<lparr>fl_desc := (fl_desc w)(d := f (fl_desc w d))\<rparr>"

definition retain :: "desc_id \<Rightarrow> 's file_world \<Rightarrow> 's file_world" where
  "retain d w = w\<lparr>fl_refs := (fl_refs w)(d := fl_refs w d + 1)\<rparr>"

text \<open>Dropping a reference never tells the scheme; only \<open>close\<close> does.\<close>

definition release :: "desc_id \<Rightarrow> 's file_world \<Rightarrow> 's file_world" where
  "release d w = w\<lparr>fl_refs := (fl_refs w)(d := fl_refs w d - 1)\<rparr>"

definition new_description :: "file_description \<Rightarrow> ('s, desc_id) fileprog" where
  "new_description x =
     bindM (getM fl_next_desc) (\<lambda>d.
     bindM (modM (\<lambda>w. w\<lparr>fl_next_desc := d + 1, fl_desc := (fl_desc w)(d := x), fl_refs := (fl_refs w)(d := 1)\<rparr>)) (\<lambda>_.
       retM d))"

definition rw_flags :: "fs_consts \<Rightarrow> file_description \<Rightarrow> bool \<Rightarrow> bool \<Rightarrow> 32 word" where
  "rw_flags C desc rw_append rw_nonblock =
     (let ret = de_flags desc AND ucast (NOT (O_NONBLOCK C OR O_APPEND C));
          ret = (if rw_append then ret OR ucast (O_APPEND C) else ret)
      in if rw_nonblock then ret OR ucast (O_NONBLOCK C) else ret)"

definition scheme_of :: "errno \<Rightarrow> nat \<Rightarrow> ('s, kernel_scheme) fileprog" where
  "scheme_of e i = bindM (getM (\<lambda>w. scheme_get i (fl_schemes w))) (\<lambda>s. ok_orM s e)"

definition try_close :: "'s kscheme \<Rightarrow> file_description \<Rightarrow> ('s, unit) fileprog" where
  "try_close K x =
     bindM (modM (\<lambda>w. w\<lparr>fl_events := unregister_file (de_scheme x) (de_number x) (fl_events w)\<rparr>)) (\<lambda>_.
     bindM (scheme_of EBADF (de_scheme x)) (\<lambda>scheme.
       k_close K scheme (de_number x)))"

definition close_descriptor :: "'s kscheme \<Rightarrow> file_descriptor \<Rightarrow> ('s, unit) fileprog" where
  "close_descriptor K file =
     (let d = fd_description file in
      bindM (getM (\<lambda>w. (fl_refs w d, fl_desc w d))) (\<lambda>(n, x).
      bindM (modM (release d)) (\<lambda>_.
      if n = 1 then try_close K x else retM ())))"

section \<open>Finding the file of a call\<close>

text \<open>The call holds a reference of its own while it runs.\<close>

definition with_file :: "nat \<Rightarrow> (desc_id \<Rightarrow> ('s, 'a) fileprog) \<Rightarrow> ('s, 'a) fileprog" where
  "with_file fd body =
     bindM (getM (\<lambda>w. get_file fd (current_table w))) (\<lambda>f.
     bindM (ok_orM f EBADF) (\<lambda>file.
     bindM (modM (retain (fd_description file))) (\<lambda>_.
       finallyM (body (fd_description file)) (\<lambda>w. Inr (release (fd_description file) w)))))"

definition file_op_generic_ext :: "nat \<Rightarrow> (kernel_scheme \<Rightarrow> desc_id \<Rightarrow> file_description \<Rightarrow> ('s, 'a) fileprog) \<Rightarrow> ('s, 'a) fileprog" where
  "file_op_generic_ext fd op =
     with_file fd (\<lambda>d.
     bindM (getM (\<lambda>w. fl_desc w d)) (\<lambda>desc.
     bindM (scheme_of EBADF (de_scheme desc)) (\<lambda>scheme.
       op scheme d desc)))"

definition file_op_generic :: "nat \<Rightarrow> (kernel_scheme \<Rightarrow> nat \<Rightarrow> ('s, 'a) fileprog) \<Rightarrow> ('s, 'a) fileprog" where
  "file_op_generic fd op = file_op_generic_ext fd (\<lambda>scheme _ desc. op scheme (de_number desc))"

text \<open>A descriptor that finds no place in the table is dropped.\<close>

definition place_file :: "(file_table \<Rightarrow> file_table \<times> nat option) \<Rightarrow> file_descriptor \<Rightarrow> ('s, nat) fileprog" where
  "place_file place file =
     bindM (getM current_table) (\<lambda>t. case place t of
        (t, Some fd) \<Rightarrow> bindM (modM (set_table t)) (\<lambda>_. retM fd)
      | (t, None) \<Rightarrow> bindM (modM (set_table t)) (\<lambda>_. bindM (modM (release (fd_description file))) (\<lambda>_. errM EMFILE)))"

section \<open>Paths\<close>

text \<open>Well-formed UTF-8.\<close>

definition cont :: "8 word \<Rightarrow> bool" where "cont b = (128 \<le> b \<and> b \<le> 191)"

fun utf8_valid :: "8 word list \<Rightarrow> bool" where
  "utf8_valid [] = True"
| "utf8_valid (a # bs) =
     (if a \<le> 127 then utf8_valid bs
      else if 194 \<le> a \<and> a \<le> 223 then (case bs of b # r \<Rightarrow> cont b \<and> utf8_valid r | _ \<Rightarrow> False)
      else if 224 \<le> a \<and> a \<le> 239 then
        (case bs of b # c # r \<Rightarrow> cont b \<and> cont c \<and> (a = 224 \<longrightarrow> 160 \<le> b) \<and> (a = 237 \<longrightarrow> b \<le> 159) \<and> utf8_valid r | _ \<Rightarrow> False)
      else if 240 \<le> a \<and> a \<le> 244 then
        (case bs of b # c # d # r \<Rightarrow> cont b \<and> cont c \<and> cont d \<and> (a = 240 \<longrightarrow> 144 \<le> b) \<and> (a = 244 \<longrightarrow> b \<le> 143) \<and> utf8_valid r | _ \<Rightarrow> False)
      else False)"

definition copy_path_to_buf :: "user_slice \<Rightarrow> nat \<Rightarrow> ('s, string) fileprog" where
  "copy_path_to_buf raw_path max_len =
     (if max_len < us_len raw_path then errM ENAMETOOLONG
      else
        bindM (userM (copy_common_bytes_to_slice raw_path max_len)) (\<lambda>bytes.
        if utf8_valid bytes then retM (map (\<lambda>b. char_of (unat b)) bytes) else errM EINVAL))"

definition PATH_MAX :: nat where "PATH_MAX = PAGE_BYTES"

text \<open>
  The scheme that a path names and the path inside it; \<open>parse\<close> stands for the external crate that splits a
  path.
\<close>

definition resolve :: "(string \<Rightarrow> (string \<times> string) option) \<Rightarrow> usize \<Rightarrow> user_slice \<Rightarrow> ('s, nat \<times> kernel_scheme \<times> string) fileprog" where
  "resolve parse ens raw_path =
     bindM (copy_path_to_buf raw_path PATH_MAX) (\<lambda>path.
     bindM (ok_orM (parse path) EINVAL) (\<lambda>(scheme_name, reference).
     bindM (getM (\<lambda>w. get_name (unat ens) scheme_name (fl_schemes w))) (\<lambda>found.
     bindM (ok_orM found ENODEV) (\<lambda>(i, scheme).
       retM (i, scheme, reference)))))"

section \<open>The calls\<close>

definition sys_open :: "'s kscheme \<Rightarrow> fs_consts \<Rightarrow> (string \<Rightarrow> (string \<times> string) option) \<Rightarrow> user_slice \<Rightarrow> usize \<Rightarrow> ('s, nat) fileprog" where
  "sys_open K C parse raw_path flags =
     bindM current_info (\<lambda>i.
     bindM (resolve parse (pi_ens i) raw_path) (\<lambda>(scheme_id, scheme, reference).
     bindM (k_open K scheme reference flags (caller_ctx_of i)) (\<lambda>res.
     bindM (case res of
         SchemeLocal number positioned \<Rightarrow> new_description \<lparr>de_offset = 0, de_scheme = scheme_id, de_number = number,
           de_flags = ucast (flags AND NOT (O_CLOEXEC C)), de_positioned = positioned\<rparr>
       | External d \<Rightarrow> retM d) (\<lambda>d.
     let file = \<lparr>fd_description = d, fd_cloexec = (flags AND O_CLOEXEC C = O_CLOEXEC C)\<rparr> in
       place_file (add_file file) file))))"

definition rmdir :: "'s kscheme \<Rightarrow> (string \<Rightarrow> (string \<times> string) option) \<Rightarrow> user_slice \<Rightarrow> ('s, unit) fileprog" where
  "rmdir K parse raw_path =
     bindM current_info (\<lambda>i.
     bindM (resolve parse (pi_ens i) raw_path) (\<lambda>(_, scheme, reference).
       k_rmdir K scheme reference (caller_ctx_of i)))"

definition unlink :: "'s kscheme \<Rightarrow> (string \<Rightarrow> (string \<times> string) option) \<Rightarrow> user_slice \<Rightarrow> ('s, unit) fileprog" where
  "unlink K parse raw_path =
     bindM current_info (\<lambda>i.
     bindM (resolve parse (pi_ens i) raw_path) (\<lambda>(_, scheme, reference).
       k_unlink K scheme reference (caller_ctx_of i)))"

definition close :: "'s kscheme \<Rightarrow> nat \<Rightarrow> ('s, unit) fileprog" where
  "close K fd =
     bindM (getM current_table) (\<lambda>t.
     case remove_file fd t of (t, f) \<Rightarrow>
       bindM (modM (set_table t)) (\<lambda>_.
       bindM (ok_orM f EBADF) (\<lambda>file.
         close_descriptor K file)))"

definition duplicate_file :: "'s kscheme \<Rightarrow> nat \<Rightarrow> user_slice \<Rightarrow> ('s, file_descriptor) fileprog" where
  "duplicate_file K fd user_buf =
     bindM current_info (\<lambda>i.
     with_file fd (\<lambda>d.
       if UserSlice_is_empty user_buf then bindM (modM (retain d)) (\<lambda>_. retM \<lparr>fd_description = d, fd_cloexec = False\<rparr>)
       else
         bindM (getM (\<lambda>w. fl_desc w d)) (\<lambda>description.
         bindM (scheme_of EBADF (de_scheme description)) (\<lambda>scheme.
         bindM (k_dup K scheme (de_number description) user_buf (caller_ctx_of i)) (\<lambda>res.
         bindM (case res of
             SchemeLocal number positioned \<Rightarrow> new_description \<lparr>de_offset = 0, de_scheme = de_scheme description, de_number = number,
               de_flags = de_flags description, de_positioned = positioned\<rparr>
           | External e \<Rightarrow> retM e) (\<lambda>e.
           retM \<lparr>fd_description = e, fd_cloexec = False\<rparr>))))))"

definition dup :: "'s kscheme \<Rightarrow> nat \<Rightarrow> user_slice \<Rightarrow> ('s, nat) fileprog" where
  "dup K fd buf = bindM (duplicate_file K fd buf) (\<lambda>file. place_file (add_file file) file)"

definition dup2 :: "'s kscheme \<Rightarrow> nat \<Rightarrow> nat \<Rightarrow> user_slice \<Rightarrow> ('s, nat) fileprog" where
  "dup2 K fd new_fd buf =
     (if fd = new_fd then retM new_fd
      else
        bindM (tryM (close K new_fd)) (\<lambda>_.
        bindM (duplicate_file K fd buf) (\<lambda>file.
          place_file (insert_file new_fd file) file)))"

definition sendfd :: "'s kscheme \<Rightarrow> fs_consts \<Rightarrow> nat \<Rightarrow> nat \<Rightarrow> usize \<Rightarrow> usize \<Rightarrow> ('s, usize) fileprog" where
  "sendfd K C socket fd flags_raw arg =
     (if flags_raw AND NOT (SENDFD_ALL C) \<noteq> 0 then errM EINVAL
      else
        bindM (getM (\<lambda>w. map_option (\<lambda>f. fl_desc w (fd_description f)) (get_file socket (current_table w)))) (\<lambda>s.
        bindM (ok_orM s EBADF) (\<lambda>desc.
        bindM (scheme_of ENODEV (de_scheme desc)) (\<lambda>scheme.
        bindM (getM current_table) (\<lambda>t.
        case remove_file fd t of (t, f) \<Rightarrow>
          bindM (modM (set_table t)) (\<lambda>_.
          bindM (ok_orM f EBADF) (\<lambda>file.
          bindM (getM (\<lambda>w. fl_refs w (fd_description file))) (\<lambda>n.
          if n = 1 then k_sendfd K scheme (de_number desc) (fd_description file) (SENDFD_EXCLUSIVE C) arg
          else if flags_raw AND SENDFD_EXCLUSIVE C = SENDFD_EXCLUSIVE C
          then bindM (modM (release (fd_description file))) (\<lambda>_. errM EBUSY)
          else k_sendfd K scheme (de_number desc) (fd_description file) 0 arg))))))))"

definition fcntl :: "'s kscheme \<Rightarrow> fs_consts \<Rightarrow> nat \<Rightarrow> usize \<Rightarrow> usize \<Rightarrow> ('s, usize) fileprog" where
  "fcntl K C fd cmd arg =
     with_file fd (\<lambda>d.
     bindM (getM (\<lambda>w. fl_desc w d)) (\<lambda>description.
     if cmd = F_DUPFD C then
       bindM (duplicate_file K fd UserSlice_empty) (\<lambda>file.
       bindM (place_file (add_file_min file (unat arg)) file) (\<lambda>new_fd. retM (of_nat new_fd)))
     else
       bindM (if cmd \<noteq> F_GETFD C \<and> cmd \<noteq> F_SETFD C
              then bindM (scheme_of EBADF (de_scheme description)) (\<lambda>scheme. bindM (k_fcntl K scheme (de_number description) cmd arg) (\<lambda>_. retM ()))
              else retM ()) (\<lambda>_.
       bindM (getM current_table) (\<lambda>files.
       case get_file fd files of
         None \<Rightarrow> errM EBADF
       | Some file \<Rightarrow>
           if cmd = F_GETFD C then retM (if fd_cloexec file then O_CLOEXEC C else 0)
           else if cmd = F_SETFD C then
             bindM (modM (set_table (files[fd := Some (file\<lparr>fd_cloexec := (arg AND O_CLOEXEC C = O_CLOEXEC C)\<rparr>)]))) (\<lambda>_. retM 0)
           else if cmd = F_GETFL C then retM (ucast (de_flags description))
           else if cmd = F_SETFL C then
             bindM (modM (upd_desc (fd_description file) (\<lambda>x. x\<lparr>de_flags := (de_flags description AND ucast (O_ACCMODE C)) OR
               (ucast arg AND ucast (NOT (O_ACCMODE C)))\<rparr>))) (\<lambda>_. retM 0)
           else errM EINVAL))))"

definition frename :: "'s kscheme \<Rightarrow> (string \<Rightarrow> (string \<times> string) option) \<Rightarrow> nat \<Rightarrow> user_slice \<Rightarrow> ('s, unit) fileprog" where
  "frename K parse fd raw_path =
     bindM current_info (\<lambda>i.
     with_file fd (\<lambda>d.
     bindM (resolve parse (pi_ens i) raw_path) (\<lambda>(scheme_id, scheme, reference).
     bindM (getM (\<lambda>w. fl_desc w d)) (\<lambda>description.
     if scheme_id \<noteq> de_scheme description then errM EXDEV
     else k_frename K scheme (de_number description) reference (caller_ctx_of i)))))"

definition fstat :: "'s kscheme \<Rightarrow> fs_consts \<Rightarrow> nat \<Rightarrow> user_slice \<Rightarrow> ('s, unit) fileprog" where
  "fstat K C fd user_buf =
     file_op_generic_ext fd (\<lambda>scheme _ desc.
     bindM (k_fstat K scheme (de_number desc) user_buf) (\<lambda>_.
     bindM (ok_orM (Option.bind (UserSlice_advance user_buf (ST_DEV C)) (\<lambda>b. UserSlice_limit b 8)) EIO) (\<lambda>b.
       userM (copy_from_slice b (to_le_bytes 8 (de_scheme desc))))))"

text \<open>\<open>checked_add_unsigned\<close> of \<open>i64\<close>, and the new position of a file.\<close>

definition checked_add_unsigned :: "int \<Rightarrow> usize \<Rightarrow> int option" where
  "checked_add_unsigned a b = (if a + uint b < 2 ^ 63 then Some (a + uint b) else None)"

definition seek_target :: "fs_consts \<Rightarrow> usize \<Rightarrow> usize \<Rightarrow> usize \<Rightarrow> usize option \<Rightarrow> ('s, int) fileprog" where
  "seek_target C pos whence offset fsize =
     (if whence = SEEK_SET C then retM (sint pos)
      else if whence = SEEK_CUR C then ok_orM (checked_add_unsigned (sint pos) offset) EOVERFLOW
      else if whence = SEEK_END C then
        bindM (expectM fsize ''called Option::unwrap() on a None value'') (\<lambda>n. ok_orM (checked_add_unsigned (sint pos) n) EOVERFLOW)
      else errM EINVAL)"

definition lseek :: "'s kscheme \<Rightarrow> fs_consts \<Rightarrow> nat \<Rightarrow> usize \<Rightarrow> usize \<Rightarrow> ('s, usize) fileprog" where
  "lseek K C fd pos whence =
     file_op_generic_ext fd (\<lambda>scheme d desc.
     bindM (k_legacy_seek K scheme (de_number desc) pos whence) (\<lambda>legacy. case legacy of
        Some r \<Rightarrow> returnM r
      | None \<Rightarrow>
          bindM (if whence = SEEK_END C then bindM (k_fsize K scheme (de_number desc)) (\<lambda>n. retM (Some n)) else retM None) (\<lambda>fsize.
          bindM (getM (\<lambda>w. de_offset (fl_desc w d))) (\<lambda>offset.
          bindM (seek_target C pos whence offset fsize) (\<lambda>new_pos.
          if new_pos < 0 then errM EINVAL
          else bindM (modM (upd_desc d (\<lambda>x. x\<lparr>de_offset := of_int new_pos\<rparr>))) (\<lambda>_. getM (\<lambda>w. de_offset (fl_desc w d))))))))"

text \<open>Reading and writing at the position of the file, if it has one.\<close>

definition file_position :: "file_description \<Rightarrow> usize" where
  "file_position desc = (if de_positioned desc then de_offset desc else - 1)"

definition advance_position :: "desc_id \<Rightarrow> file_description \<Rightarrow> usize \<Rightarrow> ('s, usize) fileprog" where
  "advance_position d desc n =
     bindM (if de_positioned desc then modM (upd_desc d (\<lambda>x. x\<lparr>de_offset := saturating_add (de_offset x) n\<rparr>)) else retM ()) (\<lambda>_. retM n)"

definition sys_read :: "'s kscheme \<Rightarrow> nat \<Rightarrow> user_slice \<Rightarrow> ('s, usize) fileprog" where
  "sys_read K fd buf =
     file_op_generic_ext fd (\<lambda>scheme d desc.
     bindM (k_readoff K scheme (de_number desc) buf (file_position desc) (de_flags desc) (de_flags desc)) (advance_position d desc))"

definition sys_write :: "'s kscheme \<Rightarrow> nat \<Rightarrow> user_slice \<Rightarrow> ('s, usize) fileprog" where
  "sys_write K fd buf =
     file_op_generic_ext fd (\<lambda>scheme d desc.
     bindM (k_writeoff K scheme (de_number desc) buf (file_position desc) (de_flags desc) (de_flags desc)) (advance_position d desc))"

section \<open>Making a namespace\<close>

text \<open>The names are given as an array of addresses and lengths.\<close>

definition read_pair :: "user_slice \<Rightarrow> ('s, nat \<times> nat) fileprog" where
  "read_pair s =
     bindM (liftE (in_exact_chunks s 8)) (\<lambda>chunks. case chunks of
        Some a # Some b # _ \<Rightarrow>
          bindM (userM (read_usize a)) (\<lambda>ptr.
          bindM (userM (read_usize b)) (\<lambda>len. retM (ptr, len)))
      | _ \<Rightarrow> errM EINVAL)"

function mkns_names :: "user_slice \<Rightarrow> string list \<Rightarrow> ('s, string list) fileprog" where
  "mkns_names user_buf names =
     (case UserSlice_split_at user_buf 16 of
        None \<Rightarrow> retM names
      | Some (current_name_ptr_buf, next_part) \<Rightarrow>
          bindM (read_pair current_name_ptr_buf) (\<lambda>(ptr, len).
          bindM (returnM (UserSlice_new ptr len)) (\<lambda>raw_path.
          bindM (copy_path_to_buf raw_path 256) (\<lambda>name.
            mkns_names next_part (names @ [name])))))"
  by pat_completeness auto
termination
  by (relation "measure (\<lambda>(s, _). us_len s)") (auto simp: UserSlice_split_at_def split: if_splits)

declare mkns_names.simps [simp del]

definition mkns :: "build_cfg \<Rightarrow> user_slice \<Rightarrow> ('s, nat) fileprog" where
  "mkns cfg user_buf =
     bindM current_info (\<lambda>i.
     if pi_euid i \<noteq> 0 then errM EACCES
     else
       bindM (mkns_names user_buf []) (\<lambda>names.
         schemeM (make_ns cfg (unat (pi_ens i)) names)))"

section \<open>Dispatch\<close>

text \<open>The system calls on files, from their arguments; the numbers are named as in the system call crate.\<close>

datatype file_sysno = SYS_WRITE2 | SYS_WRITE | SYS_READ2 | SYS_READ | SYS_FSTAT | SYS_DUP | SYS_DUP2 | SYS_SENDFD | SYS_LSEEK | SYS_FCNTL
  | SYS_FRENAME | SYS_CLOSE | SYS_OPEN | SYS_RMDIR | SYS_UNLINK | SYS_MKNS
  | SYS_GETDENTS | SYS_FUTIMENS | SYS_FPATH | SYS_FSTATVFS | SYS_FCHMOD | SYS_FCHOWN | SYS_FEVENT | SYS_FSYNC | SYS_FTRUNCATE

definition sliceM :: "usize \<Rightarrow> usize \<Rightarrow> ('s, user_slice) fileprog" where
  "sliceM base len = returnM (UserSlice_new (unat base) (unat len))"

definition discardM :: "('s, 'a) fileprog \<Rightarrow> ('s, usize) fileprog" where
  "discardM m = bindM m (\<lambda>_. retM 0)"

definition handleM :: "('s, nat) fileprog \<Rightarrow> ('s, usize) fileprog" where
  "handleM m = bindM m (\<lambda>fd. retM (of_nat fd))"

text \<open>The optional flags of the calls that read and write at a given position.\<close>

definition rw_option :: "fs_consts \<Rightarrow> file_description \<Rightarrow> usize \<Rightarrow> ('s, 32 word) fileprog" where
  "rw_option C desc f =
     (if f = - 1 then retM (de_flags desc)
      else if unat f < 2 ^ 32 \<and> f AND NOT (RW_NONBLOCK C OR RW_APPEND C) = 0
      then retM (rw_flags C desc (f AND RW_APPEND C = RW_APPEND C) (f AND RW_NONBLOCK C = RW_NONBLOCK C))
      else errM EINVAL)"

fun file_syscall :: "'s kscheme \<Rightarrow> fs_consts \<Rightarrow> build_cfg \<Rightarrow> (string \<Rightarrow> (string \<times> string) option) \<Rightarrow>
    file_sysno \<Rightarrow> usize \<Rightarrow> usize \<Rightarrow> usize \<Rightarrow> usize \<Rightarrow> usize \<Rightarrow> ('s, usize) fileprog" where
  "file_syscall K C cfg parse SYS_WRITE2 b c d e f = file_op_generic_ext (unat b) (\<lambda>scheme _ desc.
     bindM (rw_option C desc f) (\<lambda>flags. bindM (sliceM c d) (\<lambda>buf. k_writeoff K scheme (de_number desc) buf e flags (de_flags desc))))"
| "file_syscall K C cfg parse SYS_WRITE b c d e f = bindM (sliceM c d) (sys_write K (unat b))"
| "file_syscall K C cfg parse SYS_READ2 b c d e f = file_op_generic_ext (unat b) (\<lambda>scheme _ desc.
     bindM (rw_option C desc f) (\<lambda>flags. bindM (sliceM c d) (\<lambda>buf. k_readoff K scheme (de_number desc) buf e flags (de_flags desc))))"
| "file_syscall K C cfg parse SYS_READ b c d e f = bindM (sliceM c d) (sys_read K (unat b))"
| "file_syscall K C cfg parse SYS_FSTAT b c d e f = bindM (sliceM c d) (\<lambda>buf. discardM (fstat K C (unat b) buf))"
| "file_syscall K C cfg parse SYS_DUP b c d e f = bindM (sliceM c d) (\<lambda>buf. handleM (dup K (unat b) buf))"
| "file_syscall K C cfg parse SYS_DUP2 b c d e f = bindM (sliceM d e) (\<lambda>buf. handleM (dup2 K (unat b) (unat c) buf))"
| "file_syscall K C cfg parse SYS_SENDFD b c d e f = sendfd K C (unat b) (unat c) d e"
| "file_syscall K C cfg parse SYS_LSEEK b c d e f = lseek K C (unat b) c d"
| "file_syscall K C cfg parse SYS_FCNTL b c d e f = fcntl K C (unat b) c d"
| "file_syscall K C cfg parse SYS_FRENAME b c d e f = bindM (sliceM c d) (\<lambda>p. discardM (frename K parse (unat b) p))"
| "file_syscall K C cfg parse SYS_CLOSE b c d e f = discardM (close K (unat b))"
| "file_syscall K C cfg parse SYS_OPEN b c d e f = bindM (sliceM b c) (\<lambda>p. handleM (sys_open K C parse p d))"
| "file_syscall K C cfg parse SYS_RMDIR b c d e f = bindM (sliceM b c) (\<lambda>p. discardM (rmdir K parse p))"
| "file_syscall K C cfg parse SYS_UNLINK b c d e f = bindM (sliceM b c) (\<lambda>p. discardM (unlink K parse p))"
| "file_syscall K C cfg parse SYS_GETDENTS b c d e f =
     (if 2 ^ 16 \<le> unat e \<or> e \<noteq> DIRENT_HEADER C then errM EINVAL
      else file_op_generic (unat b) (\<lambda>scheme number. bindM (sliceM c d) (\<lambda>buf. k_pass K scheme number (KGetdents buf e f))))"
| "file_syscall K C cfg parse SYS_FUTIMENS b c d e f = file_op_generic (unat b) (\<lambda>scheme number. bindM (sliceM c d) (\<lambda>buf. k_pass K scheme number (KFutimens buf)))"
| "file_syscall K C cfg parse SYS_FPATH b c d e f = file_op_generic (unat b) (\<lambda>scheme number. bindM (sliceM c d) (\<lambda>buf. k_pass K scheme number (KFpath buf)))"
| "file_syscall K C cfg parse SYS_FSTATVFS b c d e f = file_op_generic (unat b) (\<lambda>scheme number. bindM (sliceM c d) (\<lambda>buf. discardM (k_pass K scheme number (KFstatvfs buf))))"
| "file_syscall K C cfg parse SYS_FCHMOD b c d e f = file_op_generic (unat b) (\<lambda>scheme number. discardM (k_pass K scheme number (KFchmod (ucast c))))"
| "file_syscall K C cfg parse SYS_FCHOWN b c d e f = file_op_generic (unat b) (\<lambda>scheme number. discardM (k_pass K scheme number (KFchown (ucast c) (ucast d))))"
| "file_syscall K C cfg parse SYS_FEVENT b c d e f = file_op_generic (unat b) (\<lambda>scheme number. k_pass K scheme number (KFevent (c AND EVENT_FLAGS C)))"
| "file_syscall K C cfg parse SYS_FSYNC b c d e f = file_op_generic (unat b) (\<lambda>scheme number. discardM (k_pass K scheme number KFsync))"
| "file_syscall K C cfg parse SYS_FTRUNCATE b c d e f = file_op_generic (unat b) (\<lambda>scheme number. discardM (k_pass K scheme number (KFtruncate c)))"
| "file_syscall K C cfg parse SYS_MKNS b c d e f =
     bindM (ok_orM (if unat c * 16 < 2 ^ 64 then Some (c * 16) else None) EOVERFLOW) (\<lambda>len.
     bindM (sliceM b len) (\<lambda>buf. handleM (mkns cfg buf)))"

end
