(* ===== verification/File_Balance.thy ===== *)
theory File_Balance
  imports File_Calls Process_Signals Prog_Logic
begin

text \<open>
  Results about the calls on files: the references to descriptions, over all file tables and whatever the
  schemes keep, positions, and the cases in which a scheme is not told that a file is closed.
\<close>

section \<open>Counting references\<close>

definition count_desc :: "desc_id \<Rightarrow> file_table \<Rightarrow> nat" where
  "count_desc d files = length (filter (\<lambda>f. map_option fd_description f = Some d) files)"

definition holds :: "desc_id \<Rightarrow> file_descriptor option \<Rightarrow> nat" where
  "holds d f = (if map_option fd_description f = Some d then 1 else 0)"

lemma count_desc_simps [simp]:
  "count_desc d [] = 0" "count_desc d (f # fs) = holds d f + count_desc d fs" "count_desc d (fs @ gs) = count_desc d fs + count_desc d gs"
  "count_desc d (replicate n None) = 0" "holds d None = 0"
  by (simp_all add: count_desc_def holds_def)








section \<open>Balance\<close>

text \<open>
  A reference to a description is in a slot of some file table, kept by a scheme (a descriptor that was sent to
  it and that it has not handed on), or in the hands of a call that is under way, counted by \<open>fl\<close>.
\<close>

record 's accounts =
  ac_cfg :: build_cfg
  ac_held :: "'s \<Rightarrow> desc_id \<Rightarrow> nat"

definition slots :: "'s file_world \<Rightarrow> desc_id \<Rightarrow> nat" where
  "slots w d = (\<Sum>t | fl_tables w t \<noteq> []. count_desc d (fl_tables w t))"

definition balanced :: "'s accounts \<Rightarrow> (desc_id \<Rightarrow> nat) \<Rightarrow> 's file_world \<Rightarrow> bool" where
  "balanced T fl w \<longleftrightarrow> schemes_ok (ac_cfg T) (fl_schemes w) \<and> finite {t. fl_tables w t \<noteq> []} \<and>
     (\<forall>d. fl_refs w d = slots w d + ac_held T (fl_state w) d + fl d) \<and> (\<forall>d. fl_next_desc w \<le> d \<longrightarrow> fl_refs w d = 0)"


















section \<open>The contract of the schemes\<close>








lemma current_info_run: "\<exists>r. current_info w = Inr (w, r)"
  by (auto simp: current_info_def procM_def process_current_def get_process_def bindM_def bindE_def getM_def retM_def errM_def)




section \<open>Every call keeps the balance\<close>

























section \<open>Histories\<close>

text \<open>System calls of any contexts, in any order; between them the scheduler and the processes change freely.\<close>

inductive file_reach :: "'s kscheme \<Rightarrow> fs_consts \<Rightarrow> (string \<Rightarrow> (string \<times> string) option) \<Rightarrow> 's accounts \<Rightarrow> 's file_world \<Rightarrow> bool"
  for K and C and parse and T where
  start: "balanced T (\<lambda>_. 0) w \<Longrightarrow> file_reach K C parse T w"
| call: "file_reach K C parse T w \<Longrightarrow> file_syscall K C (ac_cfg T) parse n b c d e f w = Inr (w', r) \<Longrightarrow> file_reach K C parse T w'"
| other: "file_reach K C parse T w \<Longrightarrow> file_reach K C parse T (w\<lparr>fl_procs := p\<rparr>)"


lemma close_run:
  "close K fd w = (case get_file fd (current_table w) of
     None \<Rightarrow> Inr (w, Inl EBADF)
   | Some f \<Rightarrow> (if fl_refs w (fd_description f) = 1 then try_close K (fl_desc w (fd_description f)) else retM ())
       (release (fd_description f) (set_table ((current_table w)[fd := None]) w)))"
proof -
  have same: "set_table (current_table w) w = w" by (simp add: set_table_def current_table_def)
  show ?thesis
  proof (cases "fd < length (current_table w)")
    case False
    then show ?thesis by (simp add: close_def remove_file_def get_file_def same)
  next
    case True
    show ?thesis
    proof (cases "current_table w ! fd")
      case None
      then have "(current_table w)[fd := None] = current_table w" by (metis list_update_id)
      then show ?thesis using True None by (simp add: close_def remove_file_def get_file_def same)
    next
      case (Some f)
      then show ?thesis using True by (simp add: close_def remove_file_def get_file_def close_descriptor_def set_table_def Let_def)
    qed
  qed
qed


section \<open>Positions\<close>

lemma release_retain [simp]: "release d (retain d w) = w" "release d (upd_desc d f (retain d w)) = upd_desc d f w"
  by (simp_all add: release_def retain_def upd_desc_def)

lemma upd_desc_same [simp]: "fl_desc (upd_desc d f w) d = f (fl_desc w d)"
  by (simp add: upd_desc_def)

lemma retain_simps [simp]: "fl_desc (retain d w) = fl_desc w" "fl_schemes (retain d w) = fl_schemes w"
  by (simp_all add: retain_def)

text \<open>
  \<open>lseek\<close> computes in the integers.  The new position is the exact sum of the argument and the start, the
  current position or the size, whatever their sizes; a sum beyond \<open>i64::MAX\<close> gives \<open>EOVERFLOW\<close> and a negative
  one \<open>EINVAL\<close>, and then nothing changes.
\<close>

theorem lseek_exact:
  assumes "get_file fd (current_table w) = Some fdr" "scheme_get (de_scheme (fl_desc w (fd_description fdr))) (fl_schemes w) = Some s"
    and "distinct [SEEK_SET C, SEEK_CUR C, SEEK_END C]" "whence \<in> {SEEK_SET C, SEEK_CUR C, SEEK_END C}"
    and "\<And>v. k_legacy_seek K s (de_number (fl_desc w (fd_description fdr))) pos whence v = Inr (v, Inr None)"
    and "\<And>v. k_fsize K s (de_number (fl_desc w (fd_description fdr))) v = Inr (v, Inr fsize)"
  shows "let d = fd_description fdr;
      base = (if whence = SEEK_SET C then 0 else if whence = SEEK_CUR C then uint (de_offset (fl_desc w d)) else uint fsize);
      target = sint pos + base
    in if target < 0 then lseek K C fd pos whence w = Inr (w, Inl EINVAL)
       else if 2 ^ 63 \<le> target then lseek K C fd pos whence w = Inr (w, Inl EOVERFLOW)
       else lseek K C fd pos whence w = Inr (upd_desc d (\<lambda>x. x\<lparr>de_offset := of_int target\<rparr>) w, Inr (of_int target)) \<and> uint (of_int target :: usize) = target"
proof -
  have top: "sint pos < 2 ^ 63" using sint_less [of pos] by simp
  have u: "0 \<le> t \<Longrightarrow> t < 2 ^ 63 \<Longrightarrow> uint (of_int t :: usize) = t" for t by (simp add: take_bit_int_eq_self unsigned_of_int)
  have x: "0 \<le> sint pos + uint x \<Longrightarrow> sint pos + uint x < 2 ^ 63 \<Longrightarrow> uint (pos + x) = sint pos + uint x" for x :: usize
    using u [of "sint pos + uint x"] by simp
  have p: "0 \<le> sint pos \<Longrightarrow> uint pos = sint pos" using u [of "sint pos"] top by simp
  show ?thesis
  proof (cases "whence = SEEK_SET C")
    case True
    then show ?thesis using assms top p
      by (auto simp: lseek_def file_op_generic_ext_def with_file_def scheme_of_def seek_target_def Let_def)
  next
    case False
    show ?thesis
    proof (cases "whence = SEEK_CUR C")
      case True
      then show ?thesis using assms False x
        by (auto simp: lseek_def file_op_generic_ext_def with_file_def scheme_of_def seek_target_def checked_add_unsigned_def Let_def)
    next
      case cur: False
      then have "whence = SEEK_END C" using assms(4) False by blast
      then show ?thesis using assms False cur x
        by (auto simp: lseek_def file_op_generic_ext_def with_file_def scheme_of_def seek_target_def checked_add_unsigned_def Let_def)
    qed
  qed
qed

section \<open>Files that are never closed\<close>

text \<open>
  C30: A call holds a reference of its own while the scheme works.  If another thread closes the descriptor
  meanwhile, that close is not the last one, and the end of the call only drops its reference: the description
  is gone, but the scheme is never told and the event registrations stay.
\<close>

theorem closed_during_call_leaks:
  assumes fd: "get_file fd (current_table w) = Some fdr" and one: "fl_refs w (fd_description fdr) = 1"
    and s: "scheme_get (de_scheme (fl_desc w (fd_description fdr))) (fl_schemes w) = Some s"
    and meanwhile: "\<And>pos flags v. k_readoff K s (de_number (fl_desc w (fd_description fdr))) buf pos flags flags v = bindM (tryM (close K fd)) (\<lambda>_. retM n) v"
  shows "\<exists>w'. sys_read K fd buf w = Inr (w', Inr n) \<and> get_file fd (current_table w') = None \<and> fl_refs w' (fd_description fdr) = 0 \<and>
    fl_state w' = fl_state w \<and> fl_events w' = fl_events w"
proof -
  let ?d = "fd_description fdr"
  let ?v = "retain ?d w"
  let ?t = "set_table ((current_table ?v)[fd := None]) ?v"
  have tab: "current_table ?v = current_table w" by (simp add: current_table_def current_files_def retain_def)
  have c: "close K fd ?v = Inr (release ?d ?t, Inr ())" using fd one tab by (simp add: close_run) (simp add: retain_def)
  have read: "k_readoff K s (de_number (fl_desc w ?d)) buf pos flags flags ?v = Inr (release ?d ?t, Inr n)" for pos flags unfolding meanwhile using c by simp
  let ?u = "if de_positioned (fl_desc w ?d) then upd_desc ?d (\<lambda>x. x\<lparr>de_offset := saturating_add (de_offset x) n\<rparr>) (release ?d ?t) else release ?d ?t"
  have run: "sys_read K fd buf w = Inr (release ?d ?u, Inr n)"
    using fd s read by (simp add: sys_read_def file_op_generic_ext_def with_file_def scheme_of_def advance_position_def)
  have "current_table (release ?d ?u) = (current_table w)[fd := None]"
    by (simp add: current_table_def current_files_def release_def upd_desc_def set_table_def tab retain_def)
  moreover have "fl_refs (release ?d ?u) ?d = 0" "fl_state (release ?d ?u) = fl_state w" "fl_events (release ?d ?u) = fl_events w"
    using one by (simp_all add: release_def upd_desc_def set_table_def retain_def)
  ultimately show ?thesis using run by (auto simp: get_file_def)
qed

text \<open>Likewise when the table is full: the scheme has opened the file and is not told that nobody has it.\<close>

lemma open_full_leaks:
  assumes "snd (add_file \<lparr>fd_description = fl_next_desc w, fd_cloexec = c\<rparr> (current_table w)) = None"
  shows "\<exists>w'. bindM (new_description x) (\<lambda>d. place_file (add_file \<lparr>fd_description = d, fd_cloexec = c\<rparr>) \<lparr>fd_description = d, fd_cloexec = c\<rparr>) w = Inr (w', Inl EMFILE) \<and>
    fl_state w' = fl_state w \<and> fl_refs w' (fl_next_desc w) = 0"
proof -
  let ?d = "fl_next_desc w"
  let ?w = "w\<lparr>fl_next_desc := ?d + 1, fl_desc := (fl_desc w)(?d := x), fl_refs := (fl_refs w)(?d := 1)\<rparr>"
  obtain t where t: "add_file \<lparr>fd_description = ?d, fd_cloexec = c\<rparr> (current_table w) = (t, None)" using assms by (metis prod.collapse)
  have "current_table ?w = current_table w" by (simp add: current_table_def current_files_def)
  then have "bindM (new_description x) (\<lambda>d. place_file (add_file \<lparr>fd_description = d, fd_cloexec = c\<rparr>) \<lparr>fd_description = d, fd_cloexec = c\<rparr>) w =
      Inr (release ?d (set_table t ?w), Inl EMFILE)" using t by (simp add: new_description_def place_file_def)
  then show ?thesis by (simp add: release_def set_table_def)
qed

text \<open>And \<open>dup2\<close> closes its target before it looks at its source.\<close>

lemma dup2_bad_source:
  assumes "fd \<noteq> new_fd" "get_file fd (current_table w) = None" "close K new_fd w = Inr (w', r)" "current_table w' = (current_table w)[new_fd := None]"
  shows "\<exists>e. dup2 K fd new_fd buf w = Inr (w', Inl e)"
proof -
  have "get_file fd (current_table w') = None" using assms(1,2,4) by (auto simp: get_file_def)
  moreover obtain i where "current_info w' = Inr (w', i)" using current_info_run by blast
  ultimately show ?thesis using assms(1,3) by (cases i) (simp_all add: dup2_def duplicate_file_def with_file_def)
qed

section \<open>An example\<close>

definition quiet_example :: "unit kscheme" where
  "quiet_example = \<lparr>k_open = (\<lambda>_ _ _ _. retM (SchemeLocal 0 True)), k_rmdir = (\<lambda>_ _ _. errM ENOENT), k_unlink = (\<lambda>_ _ _. errM ENOENT), k_close = (\<lambda>_ _. retM ()),
     k_dup = (\<lambda>_ _ _ _. errM EOPNOTSUPP), k_sendfd = (\<lambda>_ _ _ _ _. errM EOPNOTSUPP), k_fcntl = (\<lambda>_ _ _ _. retM 0), k_frename = (\<lambda>_ _ _ _. errM EBADF),
     k_fstat = (\<lambda>_ _ _. errM EBADF), k_legacy_seek = (\<lambda>_ _ _ _. retM None), k_fsize = (\<lambda>_ _. retM 100), k_readoff = (\<lambda>_ _ _ _ _ _. retM 0),
     k_writeoff = (\<lambda>_ _ _ _ _ _. retM 0), k_pass = (\<lambda>_ _ _. retM 0)\<rparr>"

definition fs_example :: fs_consts where
  "fs_example = \<lparr>O_CLOEXEC = 0x1000000, O_ACCMODE = 0x30000, O_NONBLOCK = 0x40000, O_APPEND = 0x80000, F_DUPFD = 0, F_GETFD = 1, F_SETFD = 2, F_GETFL = 3, F_SETFL = 4,
     SEEK_SET = 0, SEEK_CUR = 1, SEEK_END = 2, SENDFD_ALL = 1, SENDFD_EXCLUSIVE = 1, ST_DEV = 0, RW_NONBLOCK = 1, RW_APPEND = 2, DIRENT_HEADER = 24, EVENT_FLAGS = 3\<rparr>"

definition files_example :: "unit file_world" where
  "files_example = \<lparr>fl_schemes = \<lparr>sl_map = [(3, Global GMemory)], sl_names = [], sl_next_ns = 1, sl_next_id = 16, sl_root = (\<lambda>_. RootScheme_new 0 0)\<rparr>,
     fl_procs = example_procs, fl_tables = (\<lambda>_. [])(0 := [Some \<lparr>fd_description = 0, fd_cloexec = False\<rparr>]),
     fl_desc = (\<lambda>_. \<lparr>de_offset = 10, de_scheme = 3, de_number = 5, de_flags = 0, de_positioned = True\<rparr>), fl_refs = (\<lambda>_. 0)(0 := 1), fl_next_desc = 1,
     fl_events = \<lparr>ew_queues = [], ew_registry = [], ew_next_queue_id = 1, ew_sched = px_sched example_procs\<rparr>, fl_state = ()\<rparr>"

lemma example_fields:
  "SEEK_SET fs_example = 0" "SEEK_CUR fs_example = 1" "SEEK_END fs_example = 2" "k_fsize quiet_example s n = retM 100" "k_legacy_seek quiet_example s n p v = retM None"
  "fl_desc files_example d = \<lparr>de_offset = 10, de_scheme = 3, de_number = 5, de_flags = 0, de_positioned = True\<rparr>"
  "scheme_get 3 (fl_schemes files_example) = Some (Global GMemory)" "fl_refs files_example 0 = 1"
  by (simp_all add: fs_example_def quiet_example_def files_example_def scheme_get_def)

lemma files_example_table: "current_table files_example = [Some \<lparr>fd_description = 0, fd_cloexec = False\<rparr>]"
  by (simp add: files_example_def current_table_def current_files_def example_procs_def Context_new_def)

section \<open>Schemes that honour the contract\<close>











theorem lseek_exact_witness:
  "lseek quiet_example fs_example 0 (- 4) 1 files_example = Inr (upd_desc 0 (\<lambda>x. x\<lparr>de_offset := 6\<rparr>) files_example, Inr 6)"
  using lseek_exact [where fd = 0 and w = files_example and fdr = "\<lparr>fd_description = 0, fd_cloexec = False\<rparr>" and s = "Global GMemory" and C = fs_example and whence = 1 and K = quiet_example and pos = "- 4" and fsize = 100]
  by (simp add: files_example_table get_file_def example_fields)

lemma close_cong: "k_close K = k_close L \<Longrightarrow> close K fd = close L fd"
  by (simp add: close_def close_descriptor_def try_close_def cong: if_cong)

theorem closed_during_call_witness:
  "\<exists>w'. sys_read (quiet_example\<lparr>k_readoff := (\<lambda>_ _ _ _ _ _. bindM (tryM (close quiet_example 0)) (\<lambda>_. retM 7))\<rparr>) 0 UserSlice_empty files_example = Inr (w', Inr 7) \<and>
     fl_refs w' 0 = 0"
proof -
  let ?K = "quiet_example\<lparr>k_readoff := (\<lambda>_ _ _ _ _ _. bindM (tryM (close quiet_example 0)) (\<lambda>_. retM 7))\<rparr>"
  have same: "close ?K 0 = close quiet_example 0" by (rule close_cong) simp
  have "\<exists>w'. sys_read ?K 0 UserSlice_empty files_example = Inr (w', Inr 7) \<and> get_file 0 (current_table w') = None \<and> fl_refs w' (fd_description \<lparr>fd_description = 0, fd_cloexec = False\<rparr>) = 0 \<and>
    fl_state w' = fl_state files_example \<and> fl_events w' = fl_events files_example"
    by (rule closed_during_call_leaks [where s = "Global GMemory"]) (simp_all add: files_example_table get_file_def same example_fields)
  then show ?thesis by auto
qed

end
