(* ===== verification/User_Scheme.thy ===== *)
theory User_Scheme
  imports File_Calls Addr_Space
begin

text \<open>
  Schemes that a user space server implements (\<open>UserInner\<close> in \<open>src/src/scheme/user.rs\<close>).  A call on such a
  scheme becomes a message in a queue that the server reads; the caller sleeps until the server has written an
  answer under the tag of the message.  A table with one state per tag connects the two.  While the caller
  sleeps, other contexts run: their effects are an argument of the call.
\<close>

unbundle bit_operations_syntax

section \<open>Messages\<close>

datatype opcode = OpOpen | OpRmdir | OpUnlink | OpClose | OpDup | OpRead | OpWrite | OpFsize | OpFchmod | OpFchown | OpFcntl | OpFevent
  | OpSendfd | OpFpath | OpFrename | OpFstat | OpFstatvfs | OpFsync | OpFtruncate | OpFutimens | OpMmapPrep | OpRequestMmap | OpMunmap
  | OpGetdents | OpMremap | OpMsync | OpCancel | OpOther

record sqe =
  sq_opcode :: "8 word"
  sq_oneway :: bool
  sq_tag :: "32 word"
  sq_args :: "usize list"
  sq_caller :: usize

record cqe =
  cq_flags :: "8 word"
  cq_extra_raw :: "8 word list"
  cq_tag :: "32 word"
  cq_result :: usize

record packet =
  pk_id :: usize
  pk_pid :: usize
  pk_uid :: "32 word"
  pk_gid :: "32 word"
  pk_a :: usize
  pk_b :: usize
  pk_c :: usize
  pk_d :: usize

text \<open>The numbers that the system call crate gives to calls and messages.\<close>

datatype message_code = C_OPEN | C_RMDIR | C_UNLINK | C_CLOSE | C_DUP | C_READ | C_WRITE | C_LSEEK | C_FCHMOD | C_FCHOWN | C_FCNTL | C_FEVENT
  | C_SENDFD | C_FPATH | C_FRENAME | C_FSTAT | C_FSTATVFS | C_FSYNC | C_FTRUNCATE | C_FUTIMENS | C_MREMAP | C_GETDENTS
  | KSMSG_MMAP_PREP | KSMSG_MMAP | KSMSG_MUNMAP | KSMSG_MSYNC | KSMSG_CANCEL
  | SKMSG_FRETURNFD | SKMSG_FOBTAINFD | SKMSG_PROVIDE_MMAP

datatype cqe_opcode = RespondRegular | RespondWithFd | SendFevent | ObtainFdOp

section \<open>The states of calls\<close>

datatype response = Regular usize "8 word" | FdResponse desc_id

datatype call_state = Waiting nat "desc_id option" page_span bool | Responded response | FmapState nat | Placeholder

text \<open>What the source uses of other crates: numbers, encodings, and the choice of a vacant slot of a \<open>Slab\<close>.\<close>

record crate_ops =
  op_raw :: "opcode \<Rightarrow> 8 word"
  op_of_raw :: "8 word \<Rightarrow> opcode option"
  cqe_op_of_raw :: "8 word \<Rightarrow> cqe_opcode option"
  code_num :: "message_code \<Rightarrow> usize"
  mux_err :: "errno \<Rightarrow> usize"
  demux :: "usize \<Rightarrow> usize result"
  cqe_extra :: "8 word list \<Rightarrow> 32 word"
  OBTAINFD_ALL :: usize
  OBTAINFD_MANUAL :: usize
  EVENTS_ALL :: usize
  NEWFD_ALL :: "8 word"
  NEWFD_POSITIONED :: "8 word"
  SQE_SIZE :: nat
  CQE_SIZE :: nat
  PACKET_SIZE :: nat
  sqe_bytes :: "sqe \<Rightarrow> 8 word list"
  packet_bytes :: "packet \<Rightarrow> 8 word list"
  cqe_of_bytes :: "8 word list \<Rightarrow> cqe"
  packet_of_bytes :: "8 word list \<Rightarrow> packet"
  map_bits :: "map_flags \<Rightarrow> usize"
  slab_vacant :: "(nat \<times> call_state) list \<Rightarrow> nat"

text \<open>
  The schemes of user space by scheme id: the table of calls, the queue of messages with the contexts that wait
  for it, whether the scheme is being unmounted, the context of the server and the number of strong references.
  The memory of all processes and the buffers and frames that belong to contexts are kept beside them.
\<close>

record ('m, 'f) user_state =
  ux_states :: "nat \<Rightarrow> (nat \<times> call_state) list"
  ux_todo :: "nat \<Rightarrow> sqe list \<times> wait_condition"
  ux_unmounting :: "nat \<Rightarrow> bool"
  ux_context :: "nat \<Rightarrow> nat"
  ux_strong :: "nat \<Rightarrow> nat"
  ux_mem :: "('m, 'f) world"
  ux_head :: "nat \<Rightarrow> frame option"
  ux_tail :: "nat \<Rightarrow> frame option"
  ux_fmap_ret :: "nat \<Rightarrow> frame option"

text \<open>A program ends with an error of the kernel, or is still asleep when the observed part of the run ends.\<close>

datatype stop = Err errno | Asleep

type_synonym ('m, 'f) uworld = "('m, 'f) user_state file_world"
type_synonym ('m, 'f, 'a) uprog = "(('m, 'f) uworld, stop, 'a) prog"

type_synonym ('s, 'a) sprog = "('s file_world, stop, 'a) prog"

definition sysM :: "('s, 'a) fileprog \<Rightarrow> ('s, 'a) sprog" where
  "sysM m = map_errM Err m"

text \<open>The \<open>Result\<close> of a program that has returned.\<close>

definition resultM :: "('s, 'a) sprog \<Rightarrow> ('s, 'a result) sprog" where
  "resultM m s = bindE (m s) (\<lambda>(s, r). Inr (s, case r of Inl (Err e) \<Rightarrow> Inr (Inl e) | Inl Asleep \<Rightarrow> Inl Asleep | Inr x \<Rightarrow> Inr (Inr x)))"

definition fromM :: "'a result \<Rightarrow> ('s, 'a) sprog" where
  "fromM r = (case r of Inl e \<Rightarrow> errM (Err e) | Inr x \<Rightarrow> retM x)"

definition upd_ux :: "(('m, 'f) user_state \<Rightarrow> ('m, 'f) user_state) \<Rightarrow> ('m, 'f) uworld \<Rightarrow> ('m, 'f) uworld" where
  "upd_ux f w = w\<lparr>fl_state := f (fl_state w)\<rparr>"

definition states_of :: "user_inner \<Rightarrow> ('m, 'f) uworld \<Rightarrow> (nat \<times> call_state) list" where
  "states_of inner w = ux_states (fl_state w) (ui_scheme_id inner)"

definition set_states :: "user_inner \<Rightarrow> (nat \<times> call_state) list \<Rightarrow> ('m, 'f) uworld \<Rightarrow> ('m, 'f) uworld" where
  "set_states inner st = upd_ux (\<lambda>x. x\<lparr>ux_states := (ux_states x)(ui_scheme_id inner := st)\<rparr>)"

definition put_state :: "user_inner \<Rightarrow> nat \<Rightarrow> call_state \<Rightarrow> ('m, 'f) uworld \<Rightarrow> ('m, 'f) uworld" where
  "put_state inner tag s w = set_states inner (AList.update tag s (states_of inner w)) w"

definition del_state :: "user_inner \<Rightarrow> nat \<Rightarrow> ('m, 'f) uworld \<Rightarrow> ('m, 'f) uworld" where
  "del_state inner tag w = set_states inner (AList.delete tag (states_of inner w)) w"

abbreviation usched :: "'s file_world \<Rightarrow> sched" where
  "usched w \<equiv> px_sched (fl_procs w)"

definition upd_sched :: "(sched \<Rightarrow> sched) \<Rightarrow> 's file_world \<Rightarrow> 's file_world" where
  "upd_sched f w = w\<lparr>fl_procs := (fl_procs w)\<lparr>px_sched := f (usched w)\<rparr>\<rparr>"

section \<open>Scheduling and events\<close>

definition block_caller :: "string \<Rightarrow> 's file_world \<Rightarrow> 's file_world" where
  "block_caller reason = upd_sched (\<lambda>S. S\<lparr>sc_ctx := (sc_ctx S)(sc_current S := map_option (\<lambda>x. fst (ctx_block reason x)) (sc_ctx S (sc_current S)))\<rparr>)"

text \<open>\<open>context::switch\<close>: others run, then this context runs again.\<close>

definition switchM :: "('s file_world \<Rightarrow> 's file_world) \<Rightarrow> ('s, unit) sprog" where
  "switchM others = modM (\<lambda>w. upd_sched (\<lambda>S. S\<lparr>sc_current := sc_current (usched w)\<rparr>) (others w))"

definition event_trigger :: "nat \<Rightarrow> nat \<Rightarrow> event_flags \<Rightarrow> 's file_world \<Rightarrow> 's file_world" where
  "event_trigger scheme number flags w =
     (let e = trigger scheme number flags ((fl_events w)\<lparr>ew_sched := usched w\<rparr>)
      in upd_sched (\<lambda>_. ew_sched e) (w\<lparr>fl_events := e\<rparr>))"

text \<open>An operation of the wait queue of messages.\<close>

definition todo_data :: "user_inner \<Rightarrow> ('m, 'f) uworld \<Rightarrow> sqe list wait_data" where
  "todo_data inner w = (case ux_todo (fl_state w) (ui_scheme_id inner) of (q, cond) \<Rightarrow> \<lparr>wd_inner = q, wd_cond = cond, wd_sched = usched w\<rparr>)"

definition put_todo :: "user_inner \<Rightarrow> sqe list wait_data \<Rightarrow> ('m, 'f) uworld \<Rightarrow> ('m, 'f) uworld" where
  "put_todo inner d w = upd_sched (\<lambda>_. wd_sched d) (upd_ux (\<lambda>x. x\<lparr>ux_todo := (ux_todo x)(ui_scheme_id inner := (wd_inner d, wd_cond d))\<rparr>) w)"

definition todo_send :: "user_inner \<Rightarrow> sqe \<Rightarrow> ('m, 'f) uworld \<Rightarrow> ('m, 'f) uworld" where
  "todo_send inner s w = put_todo inner (fst (wq_send s (todo_data inner w))) w"

text \<open>A message for the server: it is queued and the server's event queues are told.\<close>

definition post :: "user_inner \<Rightarrow> sqe \<Rightarrow> ('m, 'f) uworld \<Rightarrow> ('m, 'f) uworld" where
  "post inner s w = event_trigger (ui_root_id inner) (ui_handle_id inner) EVENT_READ (todo_send inner s w)"

section \<open>References\<close>

definition drop_fd :: "desc_id option \<Rightarrow> ('s, unit) sprog" where
  "drop_fd fd = modM (case fd of Some d \<Rightarrow> release d | None \<Rightarrow> id)"

definition drop_response :: "response \<Rightarrow> ('m, 'f, unit) uprog" where
  "drop_response r = drop_fd (case r of FdResponse d \<Rightarrow> Some d | Regular _ _ \<Rightarrow> None)"

section \<open>A new scheme, and its end\<close>

definition UserInner_new :: "user_inner \<Rightarrow> nat \<Rightarrow> ('m, 'f) uworld \<Rightarrow> ('m, 'f) uworld" where
  "UserInner_new inner context = upd_ux (\<lambda>x. let i = ui_scheme_id inner in
     x\<lparr>ux_states := (ux_states x)(i := []), ux_todo := (ux_todo x)(i := ([], [])), ux_unmounting := (ux_unmounting x)(i := False),
       ux_context := (ux_context x)(i := context), ux_strong := (ux_strong x)(i := 1)\<rparr>)"

definition unmount :: "user_inner \<Rightarrow> ('m, 'f) uworld \<Rightarrow> ('m, 'f) uworld" where
  "unmount inner w =
     (let w = upd_ux (\<lambda>x. x\<lparr>ux_unmounting := (ux_unmounting x)(ui_scheme_id inner := True)\<rparr>) w;
          (_, cond, S) = wc_notify_signal (wd_cond (todo_data inner w)) (usched w)
      in event_trigger (ui_root_id inner) (ui_handle_id inner) EVENT_READ (upd_sched (\<lambda>_. S) w))"

section \<open>Calling the server\<close>

definition next_id :: "crate_ops \<Rightarrow> user_inner \<Rightarrow> ('m, 'f, 32 word) uprog" where
  "next_id X inner =
     bindM (getM (\<lambda>w. slab_vacant X (states_of inner w))) (\<lambda>idx.
     bindM (modM (put_state inner idx Placeholder)) (\<lambda>_.
     if idx < 2 ^ 32 then retM (of_nat idx) else errM (Err EAGAIN)))"

text \<open>
  \<open>call_extended_inner\<close> step by step.  Before the first switch: the caller blocks and fills in its slot, and
  then posts the message.
\<close>

definition call_begin :: "user_inner \<Rightarrow> desc_id option \<Rightarrow> sqe \<Rightarrow> ('m, 'f, unit) uprog" where
  "call_begin inner fd s =
     bindM (getM (\<lambda>w. ux_unmounting (fl_state w) (ui_scheme_id inner))) (\<lambda>unmounting.
     if unmounting then bindM (drop_fd fd) (\<lambda>_. errM (Err ENODEV))
     else
       bindM (modM (block_caller ''UserScheme::call'')) (\<lambda>_.
       bindM (getM (\<lambda>w. map_of (states_of inner w) (unat (sq_tag s)))) (\<lambda>o'.
       bindM (assertM (o' \<noteq> None) ''invalid key'') (\<lambda>_.
         modM (\<lambda>w. put_state inner (unat (sq_tag s)) (Waiting (sc_current (usched w)) fd PageSpan_empty False) w)))))"

text \<open>
  After a switch, with the table locked: the answer is there, or the caller was woken by a signal.  A caller
  that is being killed leaves its buffers to the server.
\<close>

datatype poll = PollDone response | PollFail errno | PollAgain | PollCancel

definition being_sigkilled :: "('m, 'f) uworld \<Rightarrow> bool" where
  "being_sigkilled w = (case sc_ctx (usched w) (sc_current (usched w)) of Some x \<Rightarrow> ctx_being_sigkilled x | None \<Rightarrow> False)"

definition call_poll :: "user_inner \<Rightarrow> nat \<Rightarrow> page_span \<Rightarrow> ('m, 'f, page_span \<times> poll) uprog" where
  "call_poll inner tag caller_responsible =
     bindM (getM (\<lambda>w. (map_of (states_of inner w) tag, being_sigkilled w))) (\<lambda>(o', killed). case o' of
        None \<Rightarrow> retM (caller_responsible, PollFail EBADFD)
      | Some (Waiting context fd callee_responsible canceling) \<Rightarrow>
          if killed then
            bindM (modM (put_state inner tag (Waiting context fd caller_responsible True))) (\<lambda>_.
              retM (PageSpan_empty, PollFail EINTR))
          else
            bindM (modM (put_state inner tag (Waiting context fd callee_responsible True))) (\<lambda>_.
              retM (caller_responsible, if canceling then PollAgain else PollCancel))
      | Some Placeholder \<Rightarrow> retM (caller_responsible, PollFail EBADFD)
      | Some (FmapState _) \<Rightarrow> retM (caller_responsible, PollFail EBADFD)
      | Some (Responded r) \<Rightarrow> bindM (modM (del_state inner tag)) (\<lambda>_. retM (caller_responsible, PollDone r)))"

definition cancel_sqe :: "crate_ops \<Rightarrow> nat \<Rightarrow> sqe" where
  "cancel_sqe X tag = \<lparr>sq_opcode = op_raw X OpCancel, sq_oneway = True, sq_tag = of_nat tag, sq_args = replicate 6 0, sq_caller = 0\<rparr>"

text \<open>The loop; the result comes with the part of the buffers that the caller has to unmap.\<close>

fun call_loop :: "crate_ops \<Rightarrow> user_inner \<Rightarrow> nat \<Rightarrow> (('m, 'f) uworld \<Rightarrow> ('m, 'f) uworld) list \<Rightarrow> page_span \<Rightarrow> ('m, 'f, page_span \<times> response result) uprog" where
  "call_loop X inner tag [] caller_responsible = errM Asleep"
| "call_loop X inner tag (others # rest) caller_responsible =
     bindM (switchM others) (\<lambda>_.
     bindM (call_poll inner tag caller_responsible) (\<lambda>(span, p). case p of
        PollDone r \<Rightarrow> retM (span, Inr r)
      | PollFail e \<Rightarrow> retM (span, Inl e)
      | PollAgain \<Rightarrow>
          bindM (modM (block_caller ''UserInner::call'')) (\<lambda>_. call_loop X inner tag rest span)
      | PollCancel \<Rightarrow>
          bindM (modM (post inner (cancel_sqe X tag))) (\<lambda>_.
          bindM (modM (block_caller ''UserInner::call'')) (\<lambda>_. call_loop X inner tag rest span))))"

definition call_extended_inner ::
    "crate_ops \<Rightarrow> user_inner \<Rightarrow> (('m, 'f) uworld \<Rightarrow> ('m, 'f) uworld) list \<Rightarrow> desc_id option \<Rightarrow> sqe \<Rightarrow> page_span \<Rightarrow> ('m, 'f, page_span \<times> response result) uprog" where
  "call_extended_inner X inner others fd s caller_responsible =
     bindM (resultM (call_begin inner fd s)) (\<lambda>r. case r of
        Inl e \<Rightarrow> retM (caller_responsible, Inl e)
      | Inr _ \<Rightarrow>
          bindM (modM (post inner s)) (\<lambda>_.
            call_loop X inner (unat (sq_tag s)) others caller_responsible))"

definition uid_gid_hack_merge :: "32 word \<Rightarrow> 32 word \<Rightarrow> usize" where
  "uid_gid_hack_merge uid gid = ucast uid OR push_bit 32 (ucast gid)"

definition args6 :: "usize list \<Rightarrow> usize list" where
  "args6 a = map (\<lambda>i. if i < length a then a ! i else 0) [0..<6]"

definition call_sqe :: "crate_ops \<Rightarrow> caller_ctx \<Rightarrow> opcode \<Rightarrow> usize list \<Rightarrow> 32 word \<Rightarrow> sqe" where
  "call_sqe X ctx op args tag =
     \<lparr>sq_opcode = op_raw X op, sq_oneway = False, sq_tag = tag,
       sq_args = (args6 args)[5 := uid_gid_hack_merge (cc_uid ctx) (cc_gid ctx)], sq_caller = of_nat (cc_pid ctx)\<rparr>"

definition call_extended ::
    "crate_ops \<Rightarrow> user_inner \<Rightarrow> (('m, 'f) uworld \<Rightarrow> ('m, 'f) uworld) list \<Rightarrow> caller_ctx \<Rightarrow> desc_id option \<Rightarrow> opcode \<Rightarrow> usize list \<Rightarrow> page_span \<Rightarrow>
     ('m, 'f, page_span \<times> response result) uprog" where
  "call_extended X inner others ctx fd op args caller_responsible =
     bindM (resultM (next_id X inner)) (\<lambda>t. case t of
        Inl e \<Rightarrow> bindM (drop_fd fd) (\<lambda>_. retM (caller_responsible, Inl e))
      | Inr tag \<Rightarrow>
          call_extended_inner X inner others fd (call_sqe X ctx op args tag) caller_responsible)"

text \<open>A call whose answer is a number.\<close>

definition call_user ::
    "crate_ops \<Rightarrow> user_inner \<Rightarrow> (('m, 'f) uworld \<Rightarrow> ('m, 'f) uworld) list \<Rightarrow> opcode \<Rightarrow> usize list \<Rightarrow> page_span \<Rightarrow>
     ('m, 'f, page_span \<times> usize result) uprog" where
  "call_user X inner others op args caller_responsible =
     bindM (resultM (sysM current_info)) (\<lambda>i. case i of
        Inl e \<Rightarrow> retM (caller_responsible, Inl e)
      | Inr i \<Rightarrow>
          bindM (call_extended X inner others (caller_ctx_of i) None op args caller_responsible) (\<lambda>(span, r). case r of
             Inl e \<Rightarrow> retM (span, Inl e)
           | Inr (Regular code _) \<Rightarrow> retM (span, demux X code)
           | Inr (FdResponse d) \<Rightarrow> bindM (drop_fd (Some d)) (\<lambda>_. retM (span, Inl EIO))))"

section \<open>Messages from the server\<close>

datatype parsed_cqe =
    TriggerFevent nat event_flags
  | RegularResponse "32 word" usize "8 word"
  | ResponseWithFd "32 word" nat
  | ObtainFd "32 word" usize nat
  | ProvideMmap "32 word" usize nat nat
  | NoOp

definition from_bits :: "usize \<Rightarrow> usize \<Rightarrow> usize result" where
  "from_bits all x = (if x AND NOT all = 0 then Inr x else Inl EINVAL)"

definition parse_packet :: "crate_ops \<Rightarrow> packet \<Rightarrow> parsed_cqe result" where
  "parse_packet X p =
     (if pk_id p = 0 then
        if pk_a p = code_num X C_FEVENT then Inr (TriggerFevent (unat (pk_b p)) (pk_c p AND EVENTS_ALL X))
        else if pk_a p = mux_err X ENOSYS then Inr NoOp
        else Inl EINVAL
      else
        let tag = ucast (pk_id p - 1) in
        if demux X (pk_a p) = Inl ESKMSG then
          if pk_b p = code_num X SKMSG_FRETURNFD then Inr (ResponseWithFd tag (unat (pk_d p)))
          else if pk_b p = code_num X SKMSG_FOBTAINFD then
            (case from_bits (OBTAINFD_ALL X) (pk_d p) of Inl e \<Rightarrow> Inl e | Inr flags \<Rightarrow> Inr (ObtainFd tag flags (unat (pk_c p))))
          else if pk_b p = code_num X SKMSG_PROVIDE_MMAP then
            Inr (ProvideMmap tag (ucast (pk_uid p) OR push_bit 32 (ucast (pk_gid p))) (unat (pk_c p)) (unat (pk_d p)))
          else Inl EINVAL
        else Inr (RegularResponse tag (pk_a p) 0))"

definition parse_cqe :: "crate_ops \<Rightarrow> cqe \<Rightarrow> parsed_cqe result" where
  "parse_cqe X c =
     (case cqe_op_of_raw X (cq_flags c AND 3) of
        None \<Rightarrow> Inl EINVAL
      | Some RespondRegular \<Rightarrow> Inr (RegularResponse (cq_tag c) (cq_result c) (cq_extra_raw c ! 0))
      | Some RespondWithFd \<Rightarrow> Inr (ResponseWithFd (cq_tag c) (unat (cq_result c)))
      | Some SendFevent \<Rightarrow>
          (case from_bits (EVENTS_ALL X) (ucast (cq_tag c)) of Inl e \<Rightarrow> Inl e | Inr flags \<Rightarrow> Inr (TriggerFevent (unat (cq_result c)) flags))
      | Some ObtainFdOp \<Rightarrow>
          (case from_bits (OBTAINFD_ALL X) (ucast (cqe_extra X (cq_extra_raw c))) of
             Inl e \<Rightarrow> Inl e | Inr flags \<Rightarrow> Inr (ObtainFd (cq_tag c) flags (unat (cq_result c)))))"

text \<open>The address space of the running context, and programs of the memory manager.\<close>

definition current_space :: "('m, 'f, space_id) uprog" where
  "current_space =
     bindM (getM (\<lambda>w. Option.bind (sc_ctx (usched w) (sc_current (usched w))) ctx_addr_space)) (\<lambda>s. ok_orM s (Err ESRCH))"

definition spaceM :: "('m, 'f, 'a) kprog \<Rightarrow> ('m, 'f, 'a) uprog" where
  "spaceM m w = bindE (m (ux_mem (fl_state w))) (\<lambda>(v, r). Inr (upd_ux (\<lambda>x. x\<lparr>ux_mem := v\<rparr>) w, case r of Inl e \<Rightarrow> Inl (Err e) | Inr x \<Rightarrow> Inr x))"

text \<open>The last reference to a description gives the description itself; any other one is only dropped.\<close>

definition take_last :: "desc_id option \<Rightarrow> ('m, 'f, file_description option) uprog" where
  "take_last fd =
     (case fd of
        None \<Rightarrow> retM None
      | Some d \<Rightarrow>
          bindM (getM (\<lambda>w. (fl_refs w d, fl_desc w d))) (\<lambda>(n, x).
          bindM (modM (release d)) (\<lambda>_. retM (if n = 1 then Some x else None))))"

definition no_early_eintr :: "crate_ops \<Rightarrow> bool \<Rightarrow> response \<Rightarrow> response" where
  "no_early_eintr X canceling r = (case r of
     Regular code extra \<Rightarrow> if \<not> canceling \<and> code = mux_err X EINTR then Regular (mux_err X EIO) extra else r
   | FdResponse _ \<Rightarrow> r)"

definition wake_caller :: "user_inner \<Rightarrow> nat \<Rightarrow> nat \<Rightarrow> response \<Rightarrow> ('m, 'f, unit) uprog" where
  "wake_caller inner tag context r =
     bindM (getM (\<lambda>w. sc_ctx (usched w) context)) (\<lambda>c.
     if c \<noteq> None then
       bindM (modM (upd_sched (unblock_ref context))) (\<lambda>_. modM (put_state inner tag (Responded r)))
     else bindM (modM (del_state inner tag)) (\<lambda>_. drop_response r))"

text \<open>
  An answer: the caller gets it, the buffers are unmapped.  The file that the caller had sent comes back when it was
  not obtained and nobody else has it; it is closed afterwards, when no lock is held any more.
\<close>

definition respond_core ::
    "crate_ops \<Rightarrow> ('m, 'f) mapper_ops \<Rightarrow> 'f flag_ops \<Rightarrow> user_inner \<Rightarrow> 32 word \<Rightarrow> response \<Rightarrow> ('m, 'f, file_description option) uprog" where
  "respond_core X M F inner tag response =
     bindM (getM (\<lambda>w. map_of (states_of inner w) (unat tag))) (\<lambda>o'. case o' of
        None \<Rightarrow> bindM (drop_response response) (\<lambda>_. errM (Err EBADFD))
      | Some Placeholder \<Rightarrow> bindM (drop_response response) (\<lambda>_. errM (Err EBADFD))
      | Some (Responded _) \<Rightarrow> bindM (drop_response response) (\<lambda>_. errM (Err EINVAL))
      | Some (FmapState _) \<Rightarrow> bindM (drop_response response) (\<lambda>_. errM (Err EINVAL))
      | Some (Waiting context fd callee_responsible canceling) \<Rightarrow>
          bindM (take_last fd) (\<lambda>to_close.
          bindM (wake_caller inner (unat tag) context (no_early_eintr X canceling response)) (\<lambda>_.
          bindM current_space (\<lambda>s.
          bindM (spaceM (munmap M F s callee_responsible True)) (\<lambda>_.
            retM to_close)))))"

definition finish_close :: "('m, 'f) user_state kscheme \<Rightarrow> file_description option \<Rightarrow> ('m, 'f, unit) uprog" where
  "finish_close K to_close = (case to_close of None \<Rightarrow> retM () | Some x \<Rightarrow> bindM (resultM (sysM (try_close K x))) (\<lambda>_. retM ()))"

definition respond ::
    "crate_ops \<Rightarrow> ('m, 'f) mapper_ops \<Rightarrow> 'f flag_ops \<Rightarrow> ('m, 'f) user_state kscheme \<Rightarrow> user_inner \<Rightarrow> 32 word \<Rightarrow> response \<Rightarrow> ('m, 'f, unit) uprog" where
  "respond X M F K inner tag response = bindM (respond_core X M F inner tag response) (finish_close K)"

text \<open>A file that a caller has sent with its request goes into the table of the server.\<close>

definition obtain_fd :: "crate_ops \<Rightarrow> user_inner \<Rightarrow> nat \<Rightarrow> usize \<Rightarrow> nat \<Rightarrow> ('m, 'f, unit) uprog" where
  "obtain_fd X inner tag flags dst_fd_or_ptr =
     bindM (getM (\<lambda>w. map_of (states_of inner w) tag)) (\<lambda>o'. case o' of
        None \<Rightarrow> errM (Err EINVAL)
      | Some (Waiting context (Some d) callee_responsible canceling) \<Rightarrow>
          let file = \<lparr>fd_description = d, fd_cloexec = True\<rparr> in
          bindM (modM (put_state inner tag (Waiting context None callee_responsible canceling))) (\<lambda>_.
          if flags AND OBTAINFD_MANUAL X = OBTAINFD_MANUAL X
          then bindM (resultM (sysM (place_file (insert_file dst_fd_or_ptr file) file))) (\<lambda>_. retM ())
          else
            bindM (sysM (place_file (add_file file) file)) (\<lambda>fd.
            bindM (fromM (UserSlice_new dst_fd_or_ptr 8)) (\<lambda>dst.
              sysM (userM (write_usize dst fd)))))
      | Some _ \<Rightarrow> errM (Err ENOENT))"

text \<open>The page that a server provides for a lazily mapped file; the faulting context goes on with it.\<close>

definition resume_mmap :: "kcontext \<Rightarrow> kcontext" where
  "resume_mmap x = (case ctx_status x of HardBlocked (AwaitingMmap _) \<Rightarrow> x\<lparr>ctx_status := Runnable\<rparr> | _ \<Rightarrow> x)"

definition provide_mmap :: "('m, 'f) mapper_ops \<Rightarrow> user_inner \<Rightarrow> nat \<Rightarrow> usize \<Rightarrow> nat \<Rightarrow> nat \<Rightarrow> ('m, 'f, unit) uprog" where
  "provide_mmap M inner tag off base_addr page_count =
     (if unat off mod PAGE_BYTES \<noteq> 0 \<or> base_addr mod PAGE_BYTES \<noteq> 0 \<or> page_count \<noteq> 1 then errM (Err EINVAL)
      else
        bindM (getM (\<lambda>w. map_of (states_of inner w) tag)) (\<lambda>o'. case o' of
           None \<Rightarrow> errM (Err EINVAL)
         | Some Placeholder \<Rightarrow> errM (Err EBADFD)
         | Some (Waiting _ _ _ _) \<Rightarrow> errM (Err EINVAL)
         | Some (Responded _) \<Rightarrow> errM (Err EINVAL)
         | Some (FmapState context) \<Rightarrow>
             bindM (modM (del_state inner tag)) (\<lambda>_.
             bindM (getM (\<lambda>w. sc_ctx (usched w) context)) (\<lambda>c.
             bindM (ok_orM c (Err ESRCH)) (\<lambda>_.
             bindM current_space (\<lambda>s.
             bindM (getM (\<lambda>w. mo_translate M (as_table (w_spaces (ux_mem (fl_state w)) s)) base_addr)) (\<lambda>t.
             bindM (ok_orM t (Err EFAULT)) (\<lambda>(phys, _).
             bindM (modM (upd_sched (\<lambda>S. S\<lparr>sc_ctx := (sc_ctx S)(context := map_option resume_mmap (sc_ctx S context))\<rparr>))) (\<lambda>_.
             bindM (liftE (Frame_containing phys)) (\<lambda>frame.
               modM (upd_ux (\<lambda>x. x\<lparr>ux_fmap_ret := (ux_fmap_ret x)(context := Some frame)\<rparr>))))))))))))"

definition handle_core ::
    "crate_ops \<Rightarrow> ('m, 'f) mapper_ops \<Rightarrow> 'f flag_ops \<Rightarrow> user_inner \<Rightarrow> parsed_cqe \<Rightarrow> ('m, 'f, file_description option) uprog" where
  "handle_core X M F inner c = (case c of
       RegularResponse tag code extra0 \<Rightarrow> respond_core X M F inner tag (Regular code extra0)
     | ResponseWithFd tag fd \<Rightarrow>
         bindM (getM current_table) (\<lambda>t. case remove_file fd t of (t, f) \<Rightarrow>
           bindM (modM (set_table t)) (\<lambda>_.
           bindM (ok_orM f (Err EINVAL)) (\<lambda>file.
             respond_core X M F inner tag (FdResponse (fd_description file)))))
     | ObtainFd tag flags dst_fd_or_ptr \<Rightarrow> bindM (obtain_fd X inner (unat tag) flags dst_fd_or_ptr) (\<lambda>_. retM None)
     | ProvideMmap tag off base_addr page_count \<Rightarrow> bindM (provide_mmap M inner (unat tag) off base_addr page_count) (\<lambda>_. retM None)
     | TriggerFevent number flags \<Rightarrow> bindM (modM (event_trigger (ui_scheme_id inner) number flags)) (\<lambda>_. retM None)
     | NoOp \<Rightarrow> retM None)"

definition handle_parsed ::
    "crate_ops \<Rightarrow> ('m, 'f) mapper_ops \<Rightarrow> 'f flag_ops \<Rightarrow> ('m, 'f) user_state kscheme \<Rightarrow> user_inner \<Rightarrow> parsed_cqe \<Rightarrow> ('m, 'f, unit) uprog" where
  "handle_parsed X M F K inner c = bindM (handle_core X M F inner c) (finish_close K)"

text \<open>What the server writes: one message after the other, up to the first that fails.\<close>

definition parse_chunk :: "crate_ops \<Rightarrow> user_inner \<Rightarrow> 8 word list \<Rightarrow> parsed_cqe result" where
  "parse_chunk X inner bs = (if ui_v2 inner then parse_cqe X (cqe_of_bytes X bs) else parse_packet X (packet_of_bytes X bs))"

fun write_loop ::
    "crate_ops \<Rightarrow> ('m, 'f) mapper_ops \<Rightarrow> 'f flag_ops \<Rightarrow> ('m, 'f) user_state kscheme \<Rightarrow> user_inner \<Rightarrow> nat \<Rightarrow> user_slice option list \<Rightarrow> nat \<Rightarrow> ('m, 'f, nat) uprog" where
  "write_loop X M F K inner n [] bytes_read = retM bytes_read"
| "write_loop X M F K inner n (chunk # chunks) bytes_read =
     bindM (expectM chunk ''already limited by length, must succeed'') (\<lambda>chunk.
     bindM (sysM (userM (read_exact chunk n))) (\<lambda>bs.
     bindM (resultM (bindM (fromM (parse_chunk X inner bs)) (handle_parsed X M F K inner))) (\<lambda>r. case r of
        Inr _ \<Rightarrow> write_loop X M F K inner n chunks (bytes_read + n)
      | Inl e \<Rightarrow> if 0 < bytes_read then retM bytes_read else errM (Err e))))"

definition UserInner_write ::
    "crate_ops \<Rightarrow> ('m, 'f) mapper_ops \<Rightarrow> 'f flag_ops \<Rightarrow> ('m, 'f) user_state kscheme \<Rightarrow> user_inner \<Rightarrow> user_slice \<Rightarrow> ('m, 'f, nat) uprog" where
  "UserInner_write X M F K inner buf =
     (let n = (if ui_v2 inner then CQE_SIZE X else PACKET_SIZE X) in
      bindM (liftE (in_exact_chunks buf n)) (\<lambda>chunks. write_loop X M F K inner n chunks 0))"

section \<open>Messages for the server\<close>

text \<open>The old protocol.\<close>

definition plain_code :: "opcode \<Rightarrow> message_code option" where
  "plain_code opc = (case opc of
     OpOpen \<Rightarrow> Some C_OPEN | OpRmdir \<Rightarrow> Some C_RMDIR | OpUnlink \<Rightarrow> Some C_UNLINK | OpClose \<Rightarrow> Some C_CLOSE | OpDup \<Rightarrow> Some C_DUP
   | OpRead \<Rightarrow> Some C_READ | OpWrite \<Rightarrow> Some C_WRITE | OpFsize \<Rightarrow> Some C_LSEEK | OpFchmod \<Rightarrow> Some C_FCHMOD | OpFchown \<Rightarrow> Some C_FCHOWN
   | OpFcntl \<Rightarrow> Some C_FCNTL | OpFevent \<Rightarrow> Some C_FEVENT | OpSendfd \<Rightarrow> Some C_SENDFD | OpFpath \<Rightarrow> Some C_FPATH | OpFrename \<Rightarrow> Some C_FRENAME
   | OpFstat \<Rightarrow> Some C_FSTAT | OpFstatvfs \<Rightarrow> Some C_FSTATVFS | OpFsync \<Rightarrow> Some C_FSYNC | OpFtruncate \<Rightarrow> Some C_FTRUNCATE
   | OpFutimens \<Rightarrow> Some C_FUTIMENS | OpMremap \<Rightarrow> Some C_MREMAP | OpMsync \<Rightarrow> Some KSMSG_MSYNC | _ \<Rightarrow> None)"

text \<open>Messages that carry an offset in the place of the user and group ids.\<close>

definition offset_code :: "opcode \<Rightarrow> message_code option" where
  "offset_code opc = (case opc of
     OpMmapPrep \<Rightarrow> Some KSMSG_MMAP_PREP | OpRequestMmap \<Rightarrow> Some KSMSG_MMAP | OpMunmap \<Rightarrow> Some KSMSG_MUNMAP | OpGetdents \<Rightarrow> Some C_GETDENTS | _ \<Rightarrow> None)"

definition translate_sqe_to_packet :: "crate_ops \<Rightarrow> sqe \<Rightarrow> ('m, 'f, packet) uprog" where
  "translate_sqe_to_packet X s =
     bindM (expectM (op_of_raw X (sq_opcode s)) ''passed scheme opcode not internally recognized by kernel'') (\<lambda>opc.
     let lo = (\<lambda>i. ucast (sq_args s ! i)); hi = (\<lambda>i. ucast (drop_bit 32 (sq_args s ! i)));
         base = \<lparr>pk_id = ucast (sq_tag s) + 1, pk_pid = sq_caller s, pk_uid = lo 5, pk_gid = hi 5, pk_a = 0,
                 pk_b = sq_args s ! 0, pk_c = sq_args s ! 1, pk_d = sq_args s ! 2\<rparr> in
     case plain_code opc of
       Some c \<Rightarrow> retM (base\<lparr>pk_a := code_num X c\<rparr>)
     | None \<Rightarrow>
         (case offset_code opc of
            Some c \<Rightarrow> retM (base\<lparr>pk_a := code_num X c, pk_uid := lo 3, pk_gid := hi 3\<rparr>)
          | None \<Rightarrow>
              if opc = OpCancel
              then retM (base\<lparr>pk_id := 0, pk_a := code_num X KSMSG_CANCEL, pk_b := ucast (sq_tag s), pk_c := 0, pk_d := 0\<rparr>)
              else errM (Err EOPNOTSUPP)))"

text \<open>Receiving one message, or as many as fit the buffer.\<close>

fun todo_receive :: "(nat \<Rightarrow> bool) \<Rightarrow> user_inner \<Rightarrow> bool \<Rightarrow> (('m, 'f) uworld \<Rightarrow> ('m, 'f) uworld) list \<Rightarrow> ('m, 'f, sqe) uprog" where
  "todo_receive pending inner blocking others w =
     (case wq_receive pending blocking ''UserInner::read (legacy)'' [] (todo_data inner w) of
        (d, Some (Inl e)) \<Rightarrow> Inr (put_todo inner d w, Inl (Err e))
      | (d, Some (Inr s)) \<Rightarrow> Inr (put_todo inner d w, Inr s)
      | (d, None) \<Rightarrow>
          (case others of
             [] \<Rightarrow> Inr (put_todo inner d w, Inl Asleep)
           | f # rest \<Rightarrow>
               bindM (switchM f) (\<lambda>_ w.
                 case wd_leave (sc_current (usched w)) (todo_data inner w) of
                   (d, waited) \<Rightarrow> if waited then todo_receive pending inner blocking rest (put_todo inner d w)
                                  else Inr (put_todo inner d w, Inl (Err EINTR))) (put_todo inner d w)))"

declare todo_receive.simps [simp del]

fun todo_receive_into_user ::
    "crate_ops \<Rightarrow> (nat \<Rightarrow> bool) \<Rightarrow> nat \<Rightarrow> user_inner \<Rightarrow> user_slice \<Rightarrow> bool \<Rightarrow> (('m, 'f) uworld \<Rightarrow> ('m, 'f) uworld) list \<Rightarrow> ('m, 'f, nat) uprog" where
  "todo_receive_into_user X pending brk inner buf blocking others w =
     bindE (wq_receive_into_user pending (sqe_bytes X) (SQE_SIZE X) brk buf blocking ''UserInner::read (v2)'' [] (todo_data inner w) (px_user (fl_procs w))) (\<lambda>(d, u, r).
     let w = put_todo inner d (w\<lparr>fl_procs := (fl_procs w)\<lparr>px_user := u\<rparr>\<rparr>) in
     case r of
       Some (Inl e) \<Rightarrow> Inr (w, Inl (Err e))
     | Some (Inr n) \<Rightarrow> Inr (w, Inr n)
     | None \<Rightarrow>
         (case others of
            [] \<Rightarrow> Inr (w, Inl Asleep)
          | f # rest \<Rightarrow>
              bindM (switchM f) (\<lambda>_ w.
                case wd_leave (sc_current (usched w)) (todo_data inner w) of
                  (d, waited) \<Rightarrow> if waited then todo_receive_into_user X pending brk inner buf blocking rest (put_todo inner d w)
                                 else Inr (put_todo inner d w, Inl (Err EINTR))) w))"

declare todo_receive_into_user.simps [simp del]

text \<open>\<open>read\<close> of the old protocol; the effects of the others are listed per message.\<close>

fun read_loop ::
    "crate_ops \<Rightarrow> (nat \<Rightarrow> bool) \<Rightarrow> user_inner \<Rightarrow> bool \<Rightarrow> (nat \<Rightarrow> (('m, 'f) uworld \<Rightarrow> ('m, 'f) uworld) list) \<Rightarrow> user_slice option list \<Rightarrow> nat \<Rightarrow> ('m, 'f, nat) uprog" where
  "read_loop X pending inner block others [] bytes_read = retM bytes_read"
| "read_loop X pending inner block others (dst # dsts) bytes_read =
     bindM (expectM dst ''already limited by length, must succeed'') (\<lambda>dst.
     bindM (resultM (todo_receive pending inner (block \<and> bytes_read = 0) (others bytes_read))) (\<lambda>r.
     bindM (getM (\<lambda>w. ux_unmounting (fl_state w) (ui_scheme_id inner))) (\<lambda>unmounting. case r of
        Inr s \<Rightarrow>
          bindM (translate_sqe_to_packet X s) (\<lambda>p.
          bindM (sysM (userM (copy_exactly dst (packet_bytes X p)))) (\<lambda>_.
            read_loop X pending inner block others dsts (bytes_read + PACKET_SIZE X)))
      | Inl e \<Rightarrow>
          if 0 < bytes_read \<or> (e = EAGAIN \<and> unmounting) then retM bytes_read else errM (Err e))))"

definition UserInner_read ::
    "crate_ops \<Rightarrow> fs_consts \<Rightarrow> (nat \<Rightarrow> bool) \<Rightarrow> nat \<Rightarrow> user_inner \<Rightarrow> (nat \<Rightarrow> (('m, 'f) uworld \<Rightarrow> ('m, 'f) uworld) list) \<Rightarrow> user_slice \<Rightarrow> 32 word \<Rightarrow> ('m, 'f, nat) uprog" where
  "UserInner_read X C pending brk inner others buf flags =
     bindM (getM (\<lambda>w. ux_unmounting (fl_state w) (ui_scheme_id inner))) (\<lambda>unmounting.
     let nonblock = (flags AND ucast (O_NONBLOCK C) \<noteq> 0); block = (\<not> (nonblock \<or> unmounting)) in
     if ui_v2 inner then
       bindM (resultM (todo_receive_into_user X pending brk inner buf block (others 0))) (\<lambda>r.
       bindM (getM (\<lambda>w. ux_unmounting (fl_state w) (ui_scheme_id inner))) (\<lambda>unmounting. case r of
          Inr n \<Rightarrow> retM n
        | Inl e \<Rightarrow> if e = EAGAIN \<and> unmounting then retM 0 else errM (Err e)))
     else
       bindM (liftE (in_exact_chunks buf (PACKET_SIZE X))) (\<lambda>dsts. read_loop X pending inner block others dsts 0))"

definition UserInner_fevent :: "user_inner \<Rightarrow> event_flags \<Rightarrow> ('m, 'f, event_flags) uprog" where
  "UserInner_fevent inner flags =
     getM (\<lambda>w. if wq_is_currently_empty (todo_data inner w) then 0 else EVENT_READ AND flags)"

text \<open>The request for a page of a lazily mapped file, whose answer is \<open>ProvideMmap\<close>.\<close>

definition request_fmap :: "crate_ops \<Rightarrow> user_inner \<Rightarrow> nat \<Rightarrow> nat \<Rightarrow> usize \<Rightarrow> ('m, 'f, unit) uprog" where
  "request_fmap X inner number required_page_count flags =
     bindM (next_id X inner) (\<lambda>tag.
     bindM (modM (\<lambda>w. put_state inner (unat tag) (FmapState (sc_current (usched w))) w)) (\<lambda>_.
     bindM (sysM current_info) (\<lambda>i.
     bindM (getM (\<lambda>w. current_pid (fl_procs w))) (\<lambda>pid.
       modM (post inner \<lparr>sq_opcode = op_raw X OpRequestMmap, sq_oneway = False, sq_tag = tag,
         sq_args = [of_nat number, flags, of_nat required_page_count, 0, 0, uid_gid_hack_merge (pi_euid i) (pi_egid i)],
         sq_caller = of_nat pid\<rparr>)))))"

end
