(* ===== verification/User_Calls.thy ===== *)
theory User_Calls
  imports User_Scheme Prog_Logic
begin

text \<open>
  Calls to a user space server under interleaving.  An abstract protocol says who may do what with a tag; the
  operations of \<open>User_Scheme\<close>, run by any number of callers and servers in any order, implement it.
\<close>

section \<open>The protocol\<close>

text \<open>
  Where a context is in its call: it has a tag, it is about to post its message, it sleeps (and has been
  interrupted before or not), it is about to post the cancellation, or about to go to sleep again.
\<close>

datatype phase = Outside | Reserved nat | Posting nat sqe | Parked nat bool | Cancelling nat | Blocking nat

fun in_call :: "phase \<Rightarrow> (nat \<times> bool) option" where
  "in_call (Posting t s) = Some (t, False)"
| "in_call (Parked t k) = Some (t, k)"
| "in_call (Cancelling t) = Some (t, True)"
| "in_call (Blocking t) = Some (t, True)"
| "in_call _ = None"

definition holds_tag :: "phase \<Rightarrow> nat \<Rightarrow> bool" where
  "holds_tag p t \<longleftrightarrow> p = Reserved t \<or> (\<exists>k. in_call p = Some (t, k))"

text \<open>
  Every message that was posted with the context that posted it, and how many of them were read; the slots that were
  given up, and the contexts that a stop signal has blocked since their call began.
\<close>

record calls =
  ca_table :: "nat \<rightharpoonup> call_state"
  ca_blocked :: "nat \<Rightarrow> bool"
  ca_alive :: "nat \<Rightarrow> bool"
  ca_phase :: "nat \<Rightarrow> phase"
  ca_sent :: "(nat \<times> sqe) list"
  ca_taken :: nat
  ca_lost :: "nat set"
  ca_stopped :: "nat set"

definition is_cancel :: "crate_ops \<Rightarrow> sqe \<Rightarrow> bool" where
  "is_cancel X s \<longleftrightarrow> sq_opcode s = op_raw X OpCancel"

definition request :: "crate_ops \<Rightarrow> nat \<Rightarrow> sqe \<Rightarrow> bool" where
  "request X t s \<longleftrightarrow> unat (sq_tag s) = t \<and> length (sq_args s) = 6 \<and> (\<exists>op. op \<noteq> OpCancel \<and> sq_opcode s = op_raw X op)"

abbreviation shrinks :: "(nat \<Rightarrow> bool) \<Rightarrow> (nat \<Rightarrow> bool) \<Rightarrow> bool" where
  "shrinks b b' \<equiv> \<forall>d. b' d \<longrightarrow> b d"

inductive call_step :: "crate_ops \<Rightarrow> calls \<Rightarrow> calls \<Rightarrow> bool" for X where
  reserve: "ca_phase r c = Outside \<Longrightarrow> ca_alive r c \<Longrightarrow> ca_table r t = None \<Longrightarrow> t < 2 ^ 32 \<Longrightarrow>
    call_step X r (r\<lparr>ca_table := (ca_table r)(t \<mapsto> Placeholder), ca_phase := (ca_phase r)(c := Reserved t), ca_lost := ca_lost r - {t}\<rparr>)"
| reserve_full: "ca_table r t = None \<Longrightarrow> 2 ^ 32 \<le> t \<Longrightarrow>
    call_step X r (r\<lparr>ca_table := (ca_table r)(t \<mapsto> Placeholder), ca_lost := insert t (ca_lost r)\<rparr>)"
| enter: "ca_phase r c = Reserved t \<Longrightarrow> request X t s \<Longrightarrow> (\<forall>d. d \<noteq> c \<longrightarrow> b d = ca_blocked r d) \<Longrightarrow>
    call_step X r (r\<lparr>ca_table := (ca_table r)(t \<mapsto> Waiting c fd sp False), ca_blocked := b, ca_phase := (ca_phase r)(c := Posting t s), ca_stopped := ca_stopped r - {c}\<rparr>)"
| refuse: "ca_phase r c = Reserved t \<Longrightarrow> shrinks (ca_blocked r) b \<Longrightarrow>
    call_step X r (r\<lparr>ca_blocked := b, ca_phase := (ca_phase r)(c := Outside), ca_lost := insert t (ca_lost r)\<rparr>)"
| send: "ca_phase r c = Posting t s \<Longrightarrow> shrinks (ca_blocked r) b \<Longrightarrow>
    call_step X r (r\<lparr>ca_blocked := b, ca_phase := (ca_phase r)(c := Parked t False), ca_sent := ca_sent r @ [(c, s)]\<rparr>)"
| poll_done: "ca_phase r c = Parked t k \<Longrightarrow> ca_table r t = Some (Responded a) \<Longrightarrow>
    call_step X r (r\<lparr>ca_table := (ca_table r)(t := None), ca_phase := (ca_phase r)(c := Outside)\<rparr>)"
| poll_killed: "ca_phase r c = Parked t k \<Longrightarrow> ca_table r t = Some (Waiting d fd sp k') \<Longrightarrow>
    call_step X r (r\<lparr>ca_table := (ca_table r)(t \<mapsto> Waiting d fd sp' True), ca_phase := (ca_phase r)(c := Outside), ca_lost := insert t (ca_lost r)\<rparr>)"
| poll_again: "ca_phase r c = Parked t k \<Longrightarrow> ca_table r t = Some (Waiting d fd sp True) \<Longrightarrow>
    call_step X r (r\<lparr>ca_table := (ca_table r)(t \<mapsto> Waiting d fd sp True), ca_phase := (ca_phase r)(c := Blocking t)\<rparr>)"
| poll_cancel: "ca_phase r c = Parked t k \<Longrightarrow> ca_table r t = Some (Waiting d fd sp False) \<Longrightarrow>
    call_step X r (r\<lparr>ca_table := (ca_table r)(t \<mapsto> Waiting d fd sp True), ca_phase := (ca_phase r)(c := Cancelling t)\<rparr>)"
| cancel: "ca_phase r c = Cancelling t \<Longrightarrow> shrinks (ca_blocked r) b \<Longrightarrow>
    call_step X r (r\<lparr>ca_blocked := b, ca_phase := (ca_phase r)(c := Blocking t), ca_sent := ca_sent r @ [(c, cancel_sqe X t)]\<rparr>)"
| sleep: "ca_phase r c = Blocking t \<Longrightarrow> (\<forall>d. d \<noteq> c \<longrightarrow> b d = ca_blocked r d) \<Longrightarrow>
    call_step X r (r\<lparr>ca_blocked := b, ca_phase := (ca_phase r)(c := Parked t True)\<rparr>)"
| answer: "ca_table r t = Some (Waiting d fd sp k) \<Longrightarrow> ca_alive r d \<Longrightarrow> shrinks (ca_blocked r) b \<Longrightarrow> \<not> b d \<Longrightarrow>
    call_step X r (r\<lparr>ca_table := (ca_table r)(t \<mapsto> Responded a), ca_blocked := b\<rparr>)"
| answer_dead: "ca_table r t = Some (Waiting d fd sp k) \<Longrightarrow> \<not> ca_alive r d \<Longrightarrow> shrinks (ca_blocked r) b \<Longrightarrow>
    call_step X r (r\<lparr>ca_table := (ca_table r)(t := None), ca_blocked := b\<rparr>)"
| obtain_file: "ca_table r t = Some (Waiting d fd sp k) \<Longrightarrow> shrinks (ca_blocked r) b \<Longrightarrow>
    call_step X r (r\<lparr>ca_table := (ca_table r)(t \<mapsto> Waiting d None sp k), ca_blocked := b\<rparr>)"
| ask_page: "ca_table r t = None \<Longrightarrow> t < 2 ^ 32 \<Longrightarrow> (\<forall>m\<in>set ms. request X t (snd m)) \<Longrightarrow> shrinks (ca_blocked r) b \<Longrightarrow>
    call_step X r (r\<lparr>ca_table := (ca_table r)(t \<mapsto> FmapState c), ca_blocked := b, ca_sent := ca_sent r @ ms, ca_lost := ca_lost r - {t}\<rparr>)"
| provide_page: "ca_table r t = Some (FmapState d) \<Longrightarrow> shrinks (ca_blocked r) b \<Longrightarrow>
    call_step X r (r\<lparr>ca_table := (ca_table r)(t := None), ca_blocked := b\<rparr>)"
| other: "(\<forall>c. ca_phase r c \<noteq> Outside \<longrightarrow> b c \<longrightarrow> ca_blocked r c \<or> c \<in> S) \<Longrightarrow> (\<forall>c. ca_phase r c \<noteq> Outside \<longrightarrow> ca_alive r c \<longrightarrow> a c) \<Longrightarrow>
    ca_taken r \<le> n \<Longrightarrow> n \<le> length (ca_sent r) \<Longrightarrow>
    call_step X r (r\<lparr>ca_blocked := b, ca_alive := a, ca_taken := n, ca_stopped := ca_stopped r \<union> S\<rparr>)"

text \<open>The latest message under a tag.\<close>

definition latest :: "nat \<Rightarrow> (nat \<times> sqe) list \<Rightarrow> (nat \<times> sqe) option" where
  "latest t ms = find (\<lambda>m. unat (sq_tag (snd m)) = t) (rev ms)"

text \<open>A cancellation follows the request that it cancels, which is the latest message under that tag.\<close>

definition cancels_ok :: "crate_ops \<Rightarrow> (nat \<times> sqe) list \<Rightarrow> bool" where
  "cancels_ok X ms \<longleftrightarrow> (\<forall>xs c s ys. ms = xs @ (c, s) # ys \<and> is_cancel X s \<longrightarrow>
     (\<exists>q. latest (unat (sq_tag s)) xs = Some (c, q) \<and> \<not> is_cancel X q))"

definition well_typed :: "crate_ops \<Rightarrow> sqe \<Rightarrow> bool" where
  "well_typed X s \<longleftrightarrow> (\<exists>op. op_of_raw X (sq_opcode s) = Some op) \<and> length (sq_args s) = 6"

definition crate_laws :: "crate_ops \<Rightarrow> bool" where
  "crate_laws X \<longleftrightarrow> (\<forall>op. op_of_raw X (op_raw X op) = Some op) \<and> (\<forall>st. slab_vacant X st \<notin> fst ` set st)"

definition calls_inv :: "crate_ops \<Rightarrow> calls \<Rightarrow> bool" where
  "calls_inv X r \<longleftrightarrow>
     (\<forall>c t. ca_phase r c = Reserved t \<longrightarrow> ca_table r t = Some Placeholder) \<and>
     (\<forall>c t k. in_call (ca_phase r c) = Some (t, k) \<longrightarrow>
        (\<exists>fd sp. ca_table r t = Some (Waiting c fd sp k)) \<or> (\<exists>a. ca_table r t = Some (Responded a))) \<and>
     (\<forall>c d t. holds_tag (ca_phase r c) t \<and> holds_tag (ca_phase r d) t \<longrightarrow> c = d) \<and>
     (\<forall>c t. holds_tag (ca_phase r c) t \<longrightarrow> t \<notin> ca_lost r \<and> t < 2 ^ 32) \<and>
     (\<forall>t s. ca_table r t = Some s \<longrightarrow> (\<exists>c. holds_tag (ca_phase r c) t) \<or> t \<in> ca_lost r \<or> (\<exists>d. s = FmapState d)) \<and>
     (\<forall>c t. in_call (ca_phase r c) = Some (t, False) \<and> ca_blocked r c \<and> c \<notin> ca_stopped r \<longrightarrow> (\<exists>fd sp. ca_table r t = Some (Waiting c fd sp False))) \<and>
     (\<forall>c. ca_phase r c \<noteq> Outside \<longrightarrow> ca_alive r c) \<and>
     (\<forall>c t s. ca_phase r c = Posting t s \<longrightarrow> request X t s)"

definition sent_inv :: "crate_ops \<Rightarrow> calls \<Rightarrow> bool" where
  "sent_inv X r \<longleftrightarrow> cancels_ok X (ca_sent r) \<and> (\<forall>m\<in>set (ca_sent r). well_typed X (snd m)) \<and> ca_taken r \<le> length (ca_sent r) \<and>
     (\<forall>c t. ca_phase r c = Parked t False \<or> ca_phase r c = Cancelling t \<longrightarrow> (\<exists>q. latest t (ca_sent r) = Some (c, q) \<and> \<not> is_cancel X q))"

lemma holds_simps [simp]:
  "holds_tag Outside t = False" "holds_tag (Reserved u) t = (u = t)" "holds_tag (Posting u s) t = (u = t)" "holds_tag (Parked u k) t = (u = t)"
  "holds_tag (Cancelling u) t = (u = t)" "holds_tag (Blocking u) t = (u = t)"
  by (auto simp: holds_tag_def)

lemma in_call_holds: "in_call p = Some (t, k) \<Longrightarrow> holds_tag p t"
  by (simp add: holds_tag_def)

lemma calls_invD:
  assumes "calls_inv X r"
  shows "ca_phase r c = Reserved t \<Longrightarrow> ca_table r t = Some Placeholder"
    "in_call (ca_phase r c) = Some (t, k) \<Longrightarrow> (\<exists>fd sp. ca_table r t = Some (Waiting c fd sp k)) \<or> (\<exists>a. ca_table r t = Some (Responded a))"
    "holds_tag (ca_phase r c) t \<Longrightarrow> holds_tag (ca_phase r d) t \<Longrightarrow> c = d"
    "holds_tag (ca_phase r c) t \<Longrightarrow> t \<notin> ca_lost r" "holds_tag (ca_phase r c) t \<Longrightarrow> t < 2 ^ 32"
    "ca_table r t = Some s \<Longrightarrow> (\<exists>c. holds_tag (ca_phase r c) t) \<or> t \<in> ca_lost r \<or> (\<exists>d. s = FmapState d)"
    "in_call (ca_phase r c) = Some (t, False) \<Longrightarrow> ca_blocked r c \<Longrightarrow> c \<notin> ca_stopped r \<Longrightarrow> \<exists>fd sp. ca_table r t = Some (Waiting c fd sp False)"
    "ca_phase r c \<noteq> Outside \<Longrightarrow> ca_alive r c"
    "ca_phase r c = Posting t m \<Longrightarrow> request X t m"
  using assms unfolding calls_inv_def by blast+

text \<open>A tag that is in the table is held by its caller, if any; a free tag is held by nobody.\<close>

lemma holds_table:
  assumes "calls_inv X r" "holds_tag (ca_phase r c) t"
  shows "ca_table r t = Some Placeholder \<or> (\<exists>fd sp k. ca_table r t = Some (Waiting c fd sp k)) \<or> (\<exists>a. ca_table r t = Some (Responded a))"
  using assms(2) calls_invD(1,2) [OF assms(1), where c = c and t = t] unfolding holds_tag_def by blast

text \<open>A step that concerns one caller and its tag.\<close>

lemma calls_inv_local:
  assumes inv: "calls_inv X r"
    and tab: "\<And>u. u \<noteq> t \<Longrightarrow> ca_table r' u = ca_table r u" and ph: "\<And>d. d \<noteq> c \<Longrightarrow> ca_phase r' d = ca_phase r d"
    and hold: "\<And>d. d \<noteq> c \<Longrightarrow> \<not> holds_tag (ca_phase r d) t" and only: "\<And>u. holds_tag (ca_phase r c) u \<or> holds_tag (ca_phase r' c) u \<Longrightarrow> u = t"
    and bl: "\<And>d. d \<noteq> c \<Longrightarrow> ca_blocked r' d \<Longrightarrow> ca_blocked r d" and lost: "\<And>u. u \<noteq> t \<Longrightarrow> (u \<in> ca_lost r') = (u \<in> ca_lost r)"
    and alive: "ca_alive r' = ca_alive r" and st: "\<And>d. d \<noteq> c \<Longrightarrow> d \<in> ca_stopped r \<Longrightarrow> d \<in> ca_stopped r'"
    and reserved: "ca_phase r' c = Reserved t \<Longrightarrow> ca_table r' t = Some Placeholder"
    and call: "\<And>k. in_call (ca_phase r' c) = Some (t, k) \<Longrightarrow> (\<exists>fd sp. ca_table r' t = Some (Waiting c fd sp k)) \<or> (\<exists>a. ca_table r' t = Some (Responded a))"
    and bounds: "holds_tag (ca_phase r' c) t \<Longrightarrow> t \<notin> ca_lost r' \<and> t < 2 ^ 32"
    and kept: "\<And>s. ca_table r' t = Some s \<Longrightarrow> holds_tag (ca_phase r' c) t \<or> t \<in> ca_lost r' \<or> (\<exists>d. s = FmapState d)"
    and asleep: "in_call (ca_phase r' c) = Some (t, False) \<Longrightarrow> ca_blocked r' c \<Longrightarrow> c \<notin> ca_stopped r' \<Longrightarrow> \<exists>fd sp. ca_table r' t = Some (Waiting c fd sp False)"
    and live: "ca_phase r' c \<noteq> Outside \<Longrightarrow> ca_alive r c" and posting: "\<And>m. ca_phase r' c = Posting t m \<Longrightarrow> request X t m"
  shows "calls_inv X r'"
proof -
  have away: "u \<noteq> t" if "holds_tag (ca_phase r' d) u" "d \<noteq> c" for d u using that ph hold by auto
  have near: "u = t" if "holds_tag (ca_phase r' c) u" for u using that only by blast
  note I = calls_invD [OF inv]
  have 1: "ca_table r' u = Some Placeholder" if "ca_phase r' d = Reserved u" for d u
    using that reserved near [of u] away [of d u] I(1) [of d u] tab [of u] ph [of d] by (cases "d = c") auto
  have 2: "(\<exists>fd sp. ca_table r' u = Some (Waiting d fd sp k)) \<or> (\<exists>a. ca_table r' u = Some (Responded a))" if "in_call (ca_phase r' d) = Some (u, k)" for d u k
  proof (cases "d = c")
    case True
    then show ?thesis using that call near [of u] in_call_holds by blast
  next
    case False
    then show ?thesis using that away [OF in_call_holds [OF that]] I(2) [of d u k] tab [of u] ph [of d] by simp
  qed
  have 3: "d = e" if "holds_tag (ca_phase r' d) u" "holds_tag (ca_phase r' e) u" for d e u
    using that away near I(3) [of d u e] ph by metis
  have 4: "u \<notin> ca_lost r' \<and> u < 2 ^ 32" if "holds_tag (ca_phase r' d) u" for d u
    using that near [of u] away [of d u] bounds I(4,5) [of d u] lost [of u] ph [of d] by (cases "d = c") auto
  have 5: "(\<exists>d. holds_tag (ca_phase r' d) u) \<or> u \<in> ca_lost r' \<or> (\<exists>d. s = FmapState d)" if "ca_table r' u = Some s" for u s
  proof (cases "u = t")
    case True
    then show ?thesis using that kept by blast
  next
    case False
    then have "(\<exists>d. holds_tag (ca_phase r d) u) \<or> u \<in> ca_lost r \<or> (\<exists>d. s = FmapState d)" using that I(6) [of u s] tab by simp
    then show ?thesis using False only ph lost by metis
  qed
  have 6: "\<exists>fd sp. ca_table r' u = Some (Waiting d fd sp False)" if "in_call (ca_phase r' d) = Some (u, False)" "ca_blocked r' d" "d \<notin> ca_stopped r'" for d u
  proof (cases "d = c")
    case True
    then show ?thesis using that asleep near [of u] in_call_holds by blast
  next
    case False
    then show ?thesis using that away [OF in_call_holds [OF that(1)]] I(7) [of d u] tab [of u] ph [of d] bl st [of d] by auto
  qed
  have 7: "ca_alive r' d" if "ca_phase r' d \<noteq> Outside" for d using that live I(8) [of d] ph [of d] by (cases "d = c") (auto simp: alive)
  have 8: "request X u m" if "ca_phase r' d = Posting u m" for d u m
    using that posting near [of u] I(9) [of d u m] ph [of d] by (cases "d = c") auto
  show ?thesis unfolding calls_inv_def using 1 2 3 4 5 6 7 8 by blast
qed

text \<open>A step on a tag that no caller holds_tag.\<close>

lemma calls_inv_free:
  assumes inv: "calls_inv X r" and tab: "\<And>u. u \<noteq> t \<Longrightarrow> ca_table r' u = ca_table r u" and ph: "ca_phase r' = ca_phase r"
    and hold: "\<And>d. \<not> holds_tag (ca_phase r d) t" and bl: "shrinks (ca_blocked r) (ca_blocked r')"
    and lost: "\<And>u. u \<noteq> t \<Longrightarrow> (u \<in> ca_lost r') = (u \<in> ca_lost r)" and alive: "ca_alive r' = ca_alive r" and st: "ca_stopped r' = ca_stopped r"
    and kept: "\<And>s. ca_table r' t = Some s \<Longrightarrow> t \<in> ca_lost r' \<or> (\<exists>d. s = FmapState d)"
  shows "calls_inv X r'"
proof -
  note I = calls_invD [OF inv]
  have away: "u \<noteq> t" if "holds_tag (ca_phase r d) u" for d u using that hold by blast
  have a: "u \<noteq> t" if "in_call (ca_phase r d) = Some (u, k)" for d u k using that away in_call_holds by blast
  have b: "u \<noteq> t" if "ca_phase r d = Reserved u" for d u using that away [of d u] by simp
  have 1: "(\<exists>d. holds_tag (ca_phase r d) u) \<or> u \<in> ca_lost r' \<or> (\<exists>d. s = FmapState d)" if "ca_table r' u = Some s" for u s
    using that kept I(6) [of u s] tab [of u] lost [of u] by (cases "u = t") auto
  have 2: "ca_table r' u = Some Placeholder" if "ca_phase r d = Reserved u" for d u using I(1) [OF that] tab [OF b [OF that]] by simp
  have 3: "(\<exists>fd sp. ca_table r' u = Some (Waiting d fd sp k)) \<or> (\<exists>a. ca_table r' u = Some (Responded a))" if "in_call (ca_phase r d) = Some (u, k)" for d u k
    using I(2) [OF that] tab [OF a [OF that]] by simp
  have 4: "u \<notin> ca_lost r' \<and> u < 2 ^ 32" if "holds_tag (ca_phase r d) u" for d u using I(4,5) [OF that] lost [OF away [OF that]] by simp
  have 5: "\<exists>fd sp. ca_table r' u = Some (Waiting d fd sp False)" if "in_call (ca_phase r d) = Some (u, False)" "ca_blocked r' d" "d \<notin> ca_stopped r" for d u
    using I(7) [OF that(1)] bl that(2,3) tab [OF a [OF that(1)]] by simp
  show ?thesis unfolding calls_inv_def ph alive st using 1 2 3 4 5 I(3,8,9) by blast
qed

lemma only_holder: "calls_inv X r \<Longrightarrow> holds_tag (ca_phase r c) t \<Longrightarrow> d \<noteq> c \<Longrightarrow> \<not> holds_tag (ca_phase r d) t"
  using calls_invD(3) by blast

lemma free_tag: "calls_inv X r \<Longrightarrow> ca_table r t = None \<or> ca_table r t = Some (FmapState e) \<Longrightarrow> \<not> holds_tag (ca_phase r d) t"
  using holds_table [of X r d t] by auto

lemma waiting_holder: "calls_inv X r \<Longrightarrow> ca_table r t = Some (Waiting c fd sp k) \<Longrightarrow> holds_tag (ca_phase r d) t \<Longrightarrow> d = c"
  using holds_table [of X r d t] by auto

lemma in_call_waiting:
  assumes "calls_inv X r" "in_call (ca_phase r c) = Some (t, k)" "ca_table r t = Some (Waiting d fd sp k')"
  shows "d = c" "k' = k"
  using calls_invD(2) [OF assms(1,2)] assms(3) by auto

text \<open>The server works on a call.\<close>

lemma calls_inv_served:
  assumes inv: "calls_inv X r" and old: "ca_table r t = Some (Waiting d fd sp k)"
    and tab: "\<And>u. u \<noteq> t \<Longrightarrow> ca_table r' u = ca_table r u" and ph: "ca_phase r' = ca_phase r" and bl: "shrinks (ca_blocked r) (ca_blocked r')"
    and lost: "ca_lost r' = ca_lost r" and alive: "ca_alive r' = ca_alive r" and st: "ca_stopped r' = ca_stopped r"
    and new: "ca_table r' t = Some (Waiting d fd' sp k) \<or> (ca_table r' t = Some (Responded a) \<and> \<not> ca_blocked r' d)"
  shows "calls_inv X r'"
proof (cases "holds_tag (ca_phase r d) t")
  case True
  obtain k' where p: "in_call (ca_phase r d) = Some (t, k')" using True old calls_invD(1) [OF inv, of d t] by (auto simp: holds_tag_def)
  have k: "k' = k" using in_call_waiting [OF inv p old] by simp
  have o: "holds_tag (ca_phase r d) u \<Longrightarrow> u = t" for u using p by (cases "ca_phase r d") auto
  show ?thesis
  proof (rule calls_inv_local [OF inv, where c = d and t = t])
    fix l assume "in_call (ca_phase r' d) = Some (t, l)"
    then have "l = k" using p k ph by simp
    then show "(\<exists>fd sp. ca_table r' t = Some (Waiting d fd sp l)) \<or> (\<exists>a. ca_table r' t = Some (Responded a))" using new by blast
  next
    assume "in_call (ca_phase r' d) = Some (t, False)" "ca_blocked r' d"
    then show "\<exists>fd sp. ca_table r' t = Some (Waiting d fd sp False)" using new p k ph by auto
  next
    show "ca_phase r' d = Reserved t \<Longrightarrow> ca_table r' t = Some Placeholder" using p ph by auto
    show "holds_tag (ca_phase r d) u \<or> holds_tag (ca_phase r' d) u \<Longrightarrow> u = t" for u using o ph by auto
    show "e \<noteq> d \<Longrightarrow> \<not> holds_tag (ca_phase r e) t" for e by (rule only_holder [OF inv True])
    show "ca_phase r' d = Posting t m \<Longrightarrow> request X t m" for m using calls_invD(9) [OF inv] ph by simp
    show "holds_tag (ca_phase r' d) t \<Longrightarrow> t \<notin> ca_lost r' \<and> t < 2 ^ 32" using calls_invD(4,5) [OF inv True] lost by simp
    show "ca_phase r' d \<noteq> Outside \<Longrightarrow> ca_alive r d" using calls_invD(8) [OF inv] ph by simp
  qed (use True tab ph bl lost alive st in simp_all)
next
  case False
  then have nh: "\<not> holds_tag (ca_phase r e) t" for e using waiting_holder [OF inv old] by blast
  then have l: "t \<in> ca_lost r" using calls_invD(6) [OF inv old] by blast
  show ?thesis by (rule calls_inv_free [OF inv, where t = t]) (use tab ph bl lost alive st nh l in simp_all)
qed

lemma call_step_inv:
  assumes "call_step X r r'" "calls_inv X r"
  shows "calls_inv X r'"
  using assms(1)
proof cases
  case (reserve c t)
  show ?thesis by (rule calls_inv_local [OF assms(2), where c = c and t = t]) (use reserve free_tag [OF assms(2)] in auto)
next
  case (reserve_full t)
  show ?thesis by (rule calls_inv_free [OF assms(2), where t = t]) (use reserve_full free_tag [OF assms(2)] in auto)
next
  case (enter c t s b fd sp)
  show ?thesis
    by (rule calls_inv_local [OF assms(2), where c = c and t = t])
      (use enter only_holder [OF assms(2), of c t] calls_invD(4,5) [OF assms(2), where c = c and t = t] calls_invD(8) [OF assms(2), of c] in auto)
next
  case (refuse c t b)
  show ?thesis
    by (rule calls_inv_local [OF assms(2), where c = c and t = t])
      (use refuse only_holder [OF assms(2), of c t] calls_invD(4,5) [OF assms(2), where c = c and t = t] calls_invD(8) [OF assms(2), of c] in auto)
next
  case (send c t s b)
  show ?thesis
    by (rule calls_inv_local [OF assms(2), where c = c and t = t])
      (use send only_holder [OF assms(2), of c t] calls_invD(2,4,5,7) [OF assms(2), where c = c and t = t] calls_invD(8) [OF assms(2), of c] in auto)
next
  case (poll_done c t k a)
  show ?thesis
    by (rule calls_inv_local [OF assms(2), where c = c and t = t])
      (use poll_done only_holder [OF assms(2), of c t] calls_invD(4,5) [OF assms(2), where c = c and t = t] calls_invD(8) [OF assms(2), of c] in auto)
next
  case (poll_killed c t k d fd sp k' sp')
  show ?thesis
    by (rule calls_inv_local [OF assms(2), where c = c and t = t])
      (use poll_killed only_holder [OF assms(2), of c t] calls_invD(4,5) [OF assms(2), where c = c and t = t] calls_invD(8) [OF assms(2), of c] in auto)
next
  case (poll_again c t k d fd sp)
  show ?thesis
    by (rule calls_inv_local [OF assms(2), where c = c and t = t])
      (use poll_again only_holder [OF assms(2), of c t] in_call_waiting [OF assms(2), of c t k] calls_invD(4,5) [OF assms(2), where c = c and t = t] calls_invD(8) [OF assms(2), of c] in auto)
next
  case (poll_cancel c t k d fd sp)
  show ?thesis
    by (rule calls_inv_local [OF assms(2), where c = c and t = t])
      (use poll_cancel only_holder [OF assms(2), of c t] in_call_waiting [OF assms(2), of c t k] calls_invD(4,5) [OF assms(2), where c = c and t = t] calls_invD(8) [OF assms(2), of c] in auto)
next
  case (cancel c t b)
  show ?thesis
    by (rule calls_inv_local [OF assms(2), where c = c and t = t])
      (use cancel only_holder [OF assms(2), of c t] calls_invD(2,4,5,7) [OF assms(2), where c = c and t = t] calls_invD(8) [OF assms(2), of c] in auto)
next
  case (sleep c t b)
  show ?thesis
    by (rule calls_inv_local [OF assms(2), where c = c and t = t])
      (use sleep only_holder [OF assms(2), of c t] calls_invD(2,4,5,7) [OF assms(2), where c = c and t = t] calls_invD(8) [OF assms(2), of c] in auto)
next
  case (answer t d fd sp k b a)
  show ?thesis by (rule calls_inv_served [OF assms(2) answer(2), where a = a]) (use answer in simp_all)
next
  case (answer_dead t d fd sp k b)
  then have "ca_phase r d = Outside" using calls_invD(8) [OF assms(2), of d] by blast
  then have nh: "\<not> holds_tag (ca_phase r e) t" for e using waiting_holder [OF assms(2), of t d fd sp k e] answer_dead by auto
  show ?thesis by (rule calls_inv_free [OF assms(2), where t = t]) (use answer_dead nh in auto)
next
  case (obtain_file t d fd sp k b)
  show ?thesis by (rule calls_inv_served [OF assms(2) obtain_file(2), where fd' = None]) (use obtain_file in simp_all)
next
  case (ask_page t ms b c)
  show ?thesis by (rule calls_inv_free [OF assms(2), where t = t]) (use ask_page free_tag [OF assms(2)] in auto)
next
  case (provide_page t d b)
  show ?thesis by (rule calls_inv_free [OF assms(2), where t = t]) (use provide_page free_tag [OF assms(2)] in auto)
next
  case (other b S a n)
  have "\<exists>fd sp. ca_table r t = Some (Waiting c fd sp False)" if "in_call (ca_phase r c) = Some (t, False)" "b c" "c \<notin> ca_stopped r \<union> S" for c t
  proof -
    have "ca_phase r c \<noteq> Outside" using that(1) by auto
    then show ?thesis using other(2) that calls_invD(7) [OF assms(2) that(1)] by blast
  qed
  then show ?thesis using other calls_invD(1-6,8,9) [OF assms(2)] unfolding calls_inv_def by simp blast
qed

text \<open>The messages.\<close>

lemma latest_snoc: "latest t (ms @ [m]) = (if unat (sq_tag (snd m)) = t then Some m else latest t ms)"
  by (simp add: latest_def)

lemma latest_append_other: "\<forall>m\<in>set ns. unat (sq_tag (snd m)) \<noteq> t \<Longrightarrow> latest t (ms @ ns) = latest t ms"
  by (induction ns rule: rev_induct) (auto simp: latest_snoc append_assoc [symmetric] simp del: append_assoc)

lemma cancels_ok_snoc:
  "cancels_ok X (ms @ [(c, s)]) \<longleftrightarrow> cancels_ok X ms \<and> (is_cancel X s \<longrightarrow> (\<exists>q. latest (unat (sq_tag s)) ms = Some (c, q) \<and> \<not> is_cancel X q))"
  (is "?L \<longleftrightarrow> ?A \<and> ?B")
proof
  assume l: ?L
  have ?A unfolding cancels_ok_def
  proof (intro allI impI)
    fix xs d q ys assume "ms = xs @ (d, q) # ys \<and> is_cancel X q"
    then have "ms @ [(c, s)] = xs @ (d, q) # (ys @ [(c, s)]) \<and> is_cancel X q" by simp
    then show "\<exists>p. latest (unat (sq_tag q)) xs = Some (d, p) \<and> \<not> is_cancel X p" using l unfolding cancels_ok_def by blast
  qed
  moreover have ?B using l unfolding cancels_ok_def by blast
  ultimately show "?A \<and> ?B" by blast
next
  assume r: "?A \<and> ?B"
  show ?L unfolding cancels_ok_def
  proof (intro allI impI)
    fix xs d q ys assume e: "ms @ [(c, s)] = xs @ (d, q) # ys \<and> is_cancel X q"
    show "\<exists>p. latest (unat (sq_tag q)) xs = Some (d, p) \<and> \<not> is_cancel X p"
    proof (cases ys rule: rev_cases)
      case Nil
      then show ?thesis using e r by simp
    next
      case (snoc ys' m)
      then have "ms = xs @ (d, q) # ys' \<and> is_cancel X q" using e by simp
      then show ?thesis using r unfolding cancels_ok_def by blast
    qed
  qed
qed

lemma request_facts:
  assumes "crate_laws X" "request X t s"
  shows "\<not> is_cancel X s" "well_typed X s" "unat (sq_tag s) = t"
  using assms by (auto simp: request_def is_cancel_def well_typed_def crate_laws_def) (metis option.inject)

lemma cancel_facts:
  assumes "crate_laws X" "t < 2 ^ 32"
  shows "is_cancel X (cancel_sqe X t)" "well_typed X (cancel_sqe X t)" "unat (sq_tag (cancel_sqe X t)) = t"
  using assms by (auto simp: cancel_sqe_def is_cancel_def well_typed_def crate_laws_def unat_of_nat take_bit_eq_mod)

lemma cancels_ok_requests: "cancels_ok X ms \<Longrightarrow> \<forall>m\<in>set ns. \<not> is_cancel X (snd m) \<Longrightarrow> cancels_ok X (ms @ ns)"
  by (induction ns rule: rev_induct) (auto simp: cancels_ok_snoc append_assoc [symmetric] simp del: append_assoc)

text \<open>A step of one context that posts messages under a tag that only this context can hold.\<close>

lemma sent_inv_post:
  assumes "sent_inv X r" "\<And>d. d \<noteq> c \<Longrightarrow> \<not> holds_tag (ca_phase r d) t" "\<And>d. d \<noteq> c \<Longrightarrow> ca_phase r' d = ca_phase r d"
    and "ca_sent r' = ca_sent r @ ms" "ca_taken r' = ca_taken r" "\<forall>m\<in>set ms. unat (sq_tag (snd m)) = t \<and> well_typed X (snd m)" "cancels_ok X (ca_sent r @ ms)"
    and "\<And>u. ca_phase r' c = Parked u False \<or> ca_phase r' c = Cancelling u \<Longrightarrow> \<exists>q. latest u (ca_sent r') = Some (c, q) \<and> \<not> is_cancel X q"
  shows "sent_inv X r'"
proof -
  have "\<exists>q. latest u (ca_sent r') = Some (d, q) \<and> \<not> is_cancel X q" if p: "ca_phase r' d = Parked u False \<or> ca_phase r' d = Cancelling u" for d u
  proof (cases "d = c")
    case True
    then show ?thesis using p assms(8) by blast
  next
    case False
    then have q: "ca_phase r d = Parked u False \<or> ca_phase r d = Cancelling u" using p assms(3) by simp
    then have "u \<noteq> t" using assms(2) [OF False] by auto
    then have "latest u (ca_sent r') = latest u (ca_sent r)" using assms(4,6) latest_append_other [of ms u "ca_sent r"] by simp
    then show ?thesis using q assms(1) unfolding sent_inv_def by metis
  qed
  moreover have "\<forall>m\<in>set (ca_sent r'). well_typed X (snd m)" using assms(1,4,6) unfolding sent_inv_def by auto
  ultimately show ?thesis using assms(1,4,5,7) unfolding sent_inv_def by auto
qed

lemma call_step_sent:
  assumes "call_step X r r'" "calls_inv X r" "sent_inv X r" "crate_laws X"
  shows "sent_inv X r'"
  using assms(1)
proof cases
  case (send c t s b)
  have q: "request X t s" using calls_invD(9) [OF assms(2)] send by blast
  note f = request_facts [OF assms(4) q]
  have c: "cancels_ok X (ca_sent r @ [(c, s)])" using assms(3) f by (simp add: cancels_ok_snoc sent_inv_def)
  show ?thesis
    by (rule sent_inv_post [OF assms(3), where c = c and t = t and ms = "[(c, s)]"])
      (use send f c only_holder [OF assms(2), of c t] in \<open>auto simp: latest_snoc\<close>)
next
  case (cancel c t b)
  have l: "t < 2 ^ 32" using calls_invD(5) [OF assms(2), of c t] cancel by simp
  note f = cancel_facts [OF assms(4) l]
  have "\<exists>q. latest t (ca_sent r) = Some (c, q) \<and> \<not> is_cancel X q" using assms(3) cancel unfolding sent_inv_def by blast
  then have c: "cancels_ok X (ca_sent r @ [(c, cancel_sqe X t)])" using assms(3) f by (simp add: cancels_ok_snoc sent_inv_def)
  show ?thesis
    by (rule sent_inv_post [OF assms(3), where c = c and t = t and ms = "[(c, cancel_sqe X t)]"])
      (use cancel f c only_holder [OF assms(2), of c t] in auto)
next
  case (ask_page t ms b c)
  have f: "\<not> is_cancel X (snd m) \<and> well_typed X (snd m) \<and> unat (sq_tag (snd m)) = t" if "m \<in> set ms" for m
    using request_facts [OF assms(4), of t "snd m"] that ask_page by simp
  have n: "\<not> holds_tag (ca_phase r d) t" for d using free_tag [OF assms(2)] ask_page by blast
  have c: "cancels_ok X (ca_sent r @ ms)" using assms(3) f by (simp add: cancels_ok_requests sent_inv_def)
  have l: "latest u (ca_sent r @ ms) = latest u (ca_sent r)" if "ca_phase r d = Parked u False \<or> ca_phase r d = Cancelling u" for d u
  proof -
    have "u \<noteq> t" using that n [of d] by auto
    then show ?thesis using f latest_append_other [of ms u "ca_sent r"] by blast
  qed
  then show ?thesis using ask_page(1) f c assms(3) unfolding sent_inv_def by auto
next
  case (poll_cancel c t k d fd sp)
  then have "k = False" using in_call_waiting [OF assms(2), of c t k d fd sp False] by auto
  then show ?thesis using assms(3) poll_cancel unfolding sent_inv_def by auto
qed (use assms(3) in \<open>auto simp: sent_inv_def\<close>)

text \<open>An answer stays in the table until its caller has taken it.\<close>

lemma answer_stable:
  assumes "call_step X r r'" "calls_inv X r" "ca_table r t = Some (Responded a)" "holds_tag (ca_phase r c) t"
  shows "ca_table r' t = Some (Responded a) \<or> (ca_phase r' c = Outside \<and> ca_table r' t = None)"
  using assms(1)
proof cases
  case (poll_done d u k b)
  then show ?thesis using assms(3,4) calls_invD(3) [OF assms(2), of c t d] by (cases "u = t") auto
next
  case (enter d u s b fd sp)
  then show ?thesis using assms(3) calls_invD(1) [OF assms(2), of d u] by auto
qed (use assms(3) in auto)

section \<open>The interface\<close>

text \<open>
  A system of callers and servers whose steps are steps of the protocol.  \<open>ok\<close> is what else it keeps.
\<close>

locale call_protocol =
  fixes X :: crate_ops and step :: "'r \<Rightarrow> 'r \<Rightarrow> bool" and abs :: "'r \<Rightarrow> calls" and ok :: "'r \<Rightarrow> bool"
  assumes simulates: "step r r' \<Longrightarrow> crate_laws X \<Longrightarrow> calls_inv X (abs r) \<Longrightarrow> ok r \<Longrightarrow> call_step X (abs r) (abs r') \<and> ok r'"
begin

lemma reachable:
  assumes "step\<^sup>*\<^sup>* r r'" "crate_laws X" "calls_inv X (abs r)" "sent_inv X (abs r)" "ok r"
  shows "calls_inv X (abs r') \<and> sent_inv X (abs r') \<and> ok r'"
  using assms(1)
proof (induction rule: rtranclp_induct)
  case base
  then show ?case using assms(3-5) by blast
next
  case (step u v)
  then show ?case using simulates [OF step(2) assms(2)] call_step_inv call_step_sent assms(2) by blast
qed

lemma answer_kept:
  assumes "step r r'" "crate_laws X" "calls_inv X (abs r)" "ok r" "ca_table (abs r) t = Some (Responded a)" "holds_tag (ca_phase (abs r) c) t"
  shows "ca_table (abs r') t = Some (Responded a) \<or> (ca_phase (abs r') c = Outside \<and> ca_table (abs r') t = None)"
  using answer_stable [OF _ assms(3,5,6)] simulates [OF assms(1-4)] by blast

end

section \<open>What the operations do to the table, the messages and the contexts\<close>

definition tab :: "user_inner \<Rightarrow> ('m, 'f) uworld \<Rightarrow> nat \<rightharpoonup> call_state" where
  "tab inner w = map_of (states_of inner w)"

definition msgs :: "user_inner \<Rightarrow> ('m, 'f) uworld \<Rightarrow> sqe list" where
  "msgs inner w = fst (ux_todo (fl_state w) (ui_scheme_id inner))"

definition alive :: "('m, 'f) uworld \<Rightarrow> nat \<Rightarrow> bool" where
  "alive w c \<longleftrightarrow> sc_ctx (usched w) c \<noteq> None"

abbreviation asleep :: "('m, 'f) uworld \<Rightarrow> nat \<Rightarrow> bool" where
  "asleep w \<equiv> soft_blocked (usched w)"

lemmas view_defs = tab_def msgs_def alive_def states_of_def

lemma put_state_view [simp]:
  "tab inner (put_state inner t s w) = (tab inner w)(t \<mapsto> s)" "msgs inner (put_state inner t s w) = msgs inner w"
  "usched (put_state inner t s w) = usched w" "alive (put_state inner t s w) = alive w" "fl_procs (put_state inner t s w) = fl_procs w"
  by (auto simp: view_defs put_state_def set_states_def upd_ux_def update_conv')

lemma del_state_view [simp]:
  "tab inner (del_state inner t w) = (tab inner w)(t := None)" "msgs inner (del_state inner t w) = msgs inner w"
  "usched (del_state inner t w) = usched w" "alive (del_state inner t w) = alive w"
  by (auto simp: view_defs del_state_def set_states_def upd_ux_def delete_conv')

lemma upd_sched_view [simp]:
  "tab inner (upd_sched f w) = tab inner w" "msgs inner (upd_sched f w) = msgs inner w" "usched (upd_sched f w) = f (usched w)"
  "states_of inner (upd_sched f w) = states_of inner w" "fl_state (upd_sched f w) = fl_state w"
  by (auto simp: view_defs upd_sched_def)

lemma block_caller_view [simp]:
  "tab inner (block_caller m w) = tab inner w" "msgs inner (block_caller m w) = msgs inner w" "alive (block_caller m w) = alive w"
  "states_of inner (block_caller m w) = states_of inner w" "sc_current (usched (block_caller m w)) = sc_current (usched w)"
  "c \<noteq> sc_current (usched w) \<Longrightarrow> asleep (block_caller m w) c = asleep w c"
  by (auto simp: block_caller_def alive_def soft_blocked_def fun_eq_iff)

lemma upd_ux_sched [simp]: "usched (upd_ux f w) = usched w" "alive (upd_ux f w) = alive w"
  by (auto simp: upd_ux_def alive_def)

lemma unblock_ctx: "(sc_ctx (unblock_ref d S) c = None) = (sc_ctx S c = None)"
  by (auto simp: unblock_ref_def split: option.splits)

lemma fold_unblock_ctx: "(sc_ctx (fold unblock_ref ds S) c = None) = (sc_ctx S c = None)"
  by (induction ds arbitrary: S) (auto simp: unblock_ctx)

lemma queue_send_ctx: "(sc_ctx (ew_sched (queue_send q e w)) c = None) = (sc_ctx (ew_sched w) c = None)"
  by (auto simp: queue_send_def wq_send_def wq_push_def wd_notify_def wc_notify_def fold_unblock_ctx Let_def split: option.splits)

lemma trigger_list_sched:
  "soft_blocked (ew_sched (trigger_list qs fl w)) c \<Longrightarrow> soft_blocked (ew_sched w) c"
  "(sc_ctx (ew_sched (trigger_list qs fl w)) c = None) = (sc_ctx (ew_sched w) c = None)"
  by (induction qs fl w rule: trigger_list.induct) (auto simp: queue_send_ctx queue_send_blocked Let_def split: if_splits)

text \<open>A change that leaves the calls alone: it wakes contexts at most.\<close>

definition calm :: "user_inner \<Rightarrow> ('m, 'f) uworld \<Rightarrow> ('m, 'f) uworld \<Rightarrow> bool" where
  "calm inner w w' \<longleftrightarrow> tab inner w' = tab inner w \<and> msgs inner w' = msgs inner w \<and> shrinks (asleep w) (asleep w') \<and> alive w' = alive w"

lemma calm_refl [simp]: "calm inner w w"
  by (simp add: calm_def)

lemma calm_trans: "calm inner w w' \<Longrightarrow> calm inner w' w'' \<Longrightarrow> calm inner w w''"
  by (simp add: calm_def)

lemma calm_trigger: "calm inner w (event_trigger i n fl w)"
proof -
  let ?e = "trigger i n fl ((fl_events w)\<lparr>ew_sched := usched w\<rparr>)"
  have "soft_blocked (ew_sched ?e) c \<Longrightarrow> soft_blocked (usched w) c" "(sc_ctx (ew_sched ?e) c = None) = (sc_ctx (usched w) c = None)" for c
    using trigger_list_sched [of _ fl "(fl_events w)\<lparr>ew_sched := usched w\<rparr>" c] by (auto simp: trigger_def split: option.splits)
  moreover have "tab inner (event_trigger i n fl w) = tab inner w" "msgs inner (event_trigger i n fl w) = msgs inner w"
    by (simp_all add: event_trigger_def Let_def view_defs upd_sched_def)
  ultimately show ?thesis by (auto simp: calm_def event_trigger_def Let_def alive_def)
qed

lemma todo_send_view:
  "tab inner (todo_send inner s w) = tab inner w" "msgs inner (todo_send inner s w) = msgs inner w @ [s]"
  "asleep (todo_send inner s w) c \<Longrightarrow> asleep w c" "alive (todo_send inner s w) = alive w"
  by (auto simp: todo_send_def put_todo_def todo_data_def wq_send_def wq_push_def wd_notify_def wc_notify_def view_defs upd_ux_def upd_sched_def
      fold_unblock_ctx soft_blocked_fold split: prod.splits)

lemma post_view:
  "tab inner (post inner s w) = tab inner w" "msgs inner (post inner s w) = msgs inner w @ [s]"
  "asleep (post inner s w) c \<Longrightarrow> asleep w c" "alive (post inner s w) = alive w"
  using calm_trigger [of inner "todo_send inner s w"] todo_send_view [of inner s w] by (auto simp: post_def calm_def)

lemma calm_unmount: "calm inner w (unmount inner w)"
proof -
  have "calm inner w (upd_sched (\<lambda>_. fold unblock_ref ds (usched w)) (upd_ux (\<lambda>x. x\<lparr>ux_unmounting := f x\<rparr>) w))" for ds f
    by (auto simp: calm_def view_defs upd_ux_def upd_sched_def fold_unblock_ctx soft_blocked_fold)
  then show ?thesis unfolding unmount_def wc_notify_signal_def Let_def prod.case upd_ux_sched by (rule calm_trans [OF _ calm_trigger])
qed

definition calmM :: "user_inner \<Rightarrow> ('m, 'f, 'a) uprog \<Rightarrow> bool" where
  "calmM inner m \<longleftrightarrow> (\<forall>w w' r. m w = Inr (w', r) \<longrightarrow> calm inner w w')"

lemma calmM_D: "calmM inner m \<Longrightarrow> m w = Inr (w', r) \<Longrightarrow> calm inner w w'"
  unfolding calmM_def by blast

lemma calmM_bind: "calmM inner m \<Longrightarrow> (\<And>x. calmM inner (f x)) \<Longrightarrow> calmM inner (bindM m f)"
  unfolding calmM_def bindM_Inr_iff using calm_trans by blast

lemma calmM_pure [simp]:
  "calmM inner (retM x)" "calmM inner (errM e)" "calmM inner (getM g)" "calmM inner (ok_orM xo e)" "calmM inner (liftE y)" "calmM inner (returnM r)"
  by (auto simp: calmM_def ok_orM_def liftE_def bindE_def split: option.splits sum.splits)

lemma calmM_mod: "(\<And>w. calm inner w (h w)) \<Longrightarrow> calmM inner (modM h)"
  by (simp add: calmM_def)

lemma calmM_result: "calmM inner m \<Longrightarrow> calmM inner (resultM m)"
  unfolding calmM_def resultM_def bindE_Inr_iff by auto

lemma calm_fields:
  "calm inner w (release d w)" "calm inner w (set_table t w)" "calm inner w (upd_ux (\<lambda>x. x\<lparr>ux_mem := v\<rparr>) w)"
  "calm inner w (upd_ux (\<lambda>x. x\<lparr>ux_fmap_ret := g x\<rparr>) w)" "calm inner w (w\<lparr>fl_events := e\<rparr>)"
  "calm inner w (w\<lparr>fl_procs := (fl_procs w)\<lparr>px_user := u\<rparr>\<rparr>)"
  by (auto simp: calm_def view_defs release_def set_table_def upd_ux_def)

lemma calmM_drop: "calmM inner (drop_fd fd)" "calmM inner (drop_response r)" "calmM inner (take_last fd)" "calmM inner current_space" "calmM inner (spaceM m)"
  unfolding drop_response_def drop_fd_def take_last_def current_space_def
  by (auto intro!: calmM_bind calmM_mod simp: calm_fields split: option.splits prod.splits)
    (auto simp: calmM_def spaceM_def bindE_Inr_iff calm_fields)

lemma calmM_sys:
  assumes "\<And>w w' r. m w = Inr (w', r) \<Longrightarrow> calm inner w w'"
  shows "calmM inner (sysM m)"
  using assms unfolding calmM_def sysM_def map_errM_def bindE_Inr_iff by auto

lemma calm_place: "place_file p file w = Inr (w', r) \<Longrightarrow> calm inner w w'"
  using calm_fields(1,2) calm_trans by (auto simp: place_file_def bindM_Inr_iff split: prod.splits option.splits) blast+

lemma calm_user: "userM m w = Inr (w', r) \<Longrightarrow> calm inner w w'"
  by (auto simp: userM_def bindE_Inr_iff calm_fields)

text \<open>An answer goes to the table, and the caller is not asleep any more.\<close>

definition answered :: "user_inner \<Rightarrow> ('m, 'f) uworld \<Rightarrow> ('m, 'f) uworld \<Rightarrow> bool" where
  "answered inner w w' \<longleftrightarrow> msgs inner w' = msgs inner w \<and> shrinks (asleep w) (asleep w') \<and> alive w' = alive w \<and>
     (\<exists>t d fd sp k. tab inner w t = Some (Waiting d fd sp k) \<and>
       (if alive w d then \<exists>a. tab inner w' = (tab inner w)(t \<mapsto> Responded a) \<and> \<not> asleep w' d else tab inner w' = (tab inner w)(t := None)))"

lemma answered_calm: "calm inner u w \<Longrightarrow> answered inner w w' \<Longrightarrow> calm inner w' v \<Longrightarrow> answered inner u v"
  unfolding answered_def calm_def by (auto, metis+)

lemma answeredI:
  assumes "tab inner w t = Some (Waiting d fd sp k)" "msgs inner w' = msgs inner w" "shrinks (asleep w) (asleep w')" "alive w' = alive w"
    and "alive w d \<Longrightarrow> tab inner w' = (tab inner w)(t \<mapsto> Responded a) \<and> \<not> asleep w' d"
    and "\<not> alive w d \<Longrightarrow> tab inner w' = (tab inner w)(t := None)"
  shows "answered inner w w'"
proof -
  have "\<exists>t d fd sp k. tab inner w t = Some (Waiting d fd sp k) \<and>
       (if alive w d then \<exists>a. tab inner w' = (tab inner w)(t \<mapsto> Responded a) \<and> \<not> asleep w' d else tab inner w' = (tab inner w)(t := None))"
    by (rule exI [of _ t], rule exI [of _ d], rule exI [of _ fd], rule exI [of _ sp], rule exI [of _ k]) (use assms(1,5,6) in auto)
  then show ?thesis using assms(2-4) unfolding answered_def by blast
qed

lemma wake_caller_answered:
  assumes "wake_caller inner t d a w = Inr (w', r)" "tab inner w t = Some (Waiting d fd sp k)"
  shows "answered inner w w'"
proof (cases "alive w d")
  case True
  then have "w' = put_state inner t (Responded a) (upd_sched (unblock_ref d) w)" using assms(1) by (auto simp: wake_caller_def alive_def bindM_Inr_iff)
  then have v: "msgs inner w' = msgs inner w" "shrinks (asleep w) (asleep w')" "alive w' = alive w" "tab inner w' = (tab inner w)(t \<mapsto> Responded a)" "\<not> asleep w' d"
    by (auto simp: alive_def unblock_ctx soft_blocked_unblock fun_eq_iff)
  show ?thesis by (rule answeredI [OF assms(2) v(1-3), where a = a]) (use v True in auto)
next
  case False
  have c: "calmM inner (drop_response a)" by (rule calmM_drop)
  have "drop_response a (del_state inner t w) = Inr (w', r)" using False assms(1) by (auto simp: wake_caller_def alive_def bindM_Inr_iff)
  then have v: "calm inner (del_state inner t w) w'" using calmM_D [OF c] by blast
  show ?thesis by (rule answeredI [OF assms(2)]) (use v False in \<open>auto simp: calm_def\<close>)
qed

lemma respond_core_effect:
  assumes "respond_core X M F inner tag a w = Inr (w', r)"
  shows "calm inner w w' \<or> answered inner w w'"
proof (cases "tab inner w (unat tag)")
  case None
  have "calmM inner (bindM (drop_response a) (\<lambda>_. errM (Err EBADFD)))" by (intro calmM_bind calmM_drop) simp
  then show ?thesis using None assms(1) calmM_D by (fastforce simp: respond_core_def tab_def bindM_Inr_iff [of "getM _"])
next
  case (Some st)
  show ?thesis
  proof (cases st)
    case (Waiting d fd sp k)
    let ?rest = "\<lambda>x. bindM current_space (\<lambda>s. bindM (spaceM (munmap M F s sp True)) (\<lambda>_. retM x))"
    have rest: "calmM inner (?rest x)" for x :: "file_description option" by (auto intro!: calmM_bind calmM_drop)
    have run: "bindM (take_last fd) (\<lambda>x. bindM (wake_caller inner (unat tag) d (no_early_eintr X k a)) (\<lambda>_. ?rest x)) w = Inr (w', r)"
      using assms(1) Some Waiting by (simp add: respond_core_def tab_def)
    have t: "\<exists>u x. take_last fd w = Inr (u, Inr x)" by (cases fd) (simp_all add: take_last_def)
    then obtain u x where u: "take_last fd w = Inr (u, Inr x)" by blast
    have cu: "calm inner w u" using calmM_D [OF calmM_drop(3) u] .
    then have tu: "tab inner u (unat tag) = Some (Waiting d fd sp k)" using Some Waiting by (simp add: calm_def)
    have "\<exists>v. wake_caller inner (unat tag) d (no_early_eintr X k a) u = Inr (v, Inr ())"
      by (cases "sc_ctx (usched u) d = None") (simp_all add: wake_caller_def drop_response_def drop_fd_def)
    then obtain v where v: "wake_caller inner (unat tag) d (no_early_eintr X k a) u = Inr (v, Inr ())" by blast
    have "?rest x v = Inr (w', r)" using run u v by simp
    then have "calm inner v w'" using calmM_D [OF rest] by blast
    then show ?thesis using answered_calm [OF cu wake_caller_answered [OF v tu]] by blast
  next
    case (Responded b)
    have "calmM inner (bindM (drop_response a) (\<lambda>_. errM (Err EINVAL)))" by (intro calmM_bind calmM_drop) simp
    then show ?thesis using Some Responded assms(1) calmM_D by (fastforce simp: respond_core_def tab_def bindM_Inr_iff [of "getM _"])
  next
    case (FmapState b)
    have "calmM inner (bindM (drop_response a) (\<lambda>_. errM (Err EINVAL)))" by (intro calmM_bind calmM_drop) simp
    then show ?thesis using Some FmapState assms(1) calmM_D by (fastforce simp: respond_core_def tab_def bindM_Inr_iff [of "getM _"])
  next
    case Placeholder
    have "calmM inner (bindM (drop_response a) (\<lambda>_. errM (Err EBADFD)))" by (intro calmM_bind calmM_drop) simp
    then show ?thesis using Some Placeholder assms(1) calmM_D by (fastforce simp: respond_core_def tab_def bindM_Inr_iff [of "getM _"])
  qed
qed

text \<open>The other messages of a server.\<close>

definition table_change :: "user_inner \<Rightarrow> (nat \<rightharpoonup> call_state) \<Rightarrow> ('m, 'f) uworld \<Rightarrow> ('m, 'f) uworld \<Rightarrow> bool" where
  "table_change inner T w w' \<longleftrightarrow> tab inner w' = T \<and> msgs inner w' = msgs inner w \<and> shrinks (asleep w) (asleep w') \<and> alive w' = alive w"

lemma calm_table_change: "calm inner w w' = table_change inner (tab inner w) w w'"
  by (simp add: calm_def table_change_def)

lemma table_change_calm: "table_change inner T w v \<Longrightarrow> calm inner v w' \<Longrightarrow> table_change inner T w w'"
  by (simp add: table_change_def calm_def)

lemma table_change_put: "table_change inner ((tab inner w)(t \<mapsto> s)) w (put_state inner t s w)" "table_change inner ((tab inner w)(t := None)) w (del_state inner t w)"
  by (simp_all add: table_change_def)

lemma obtain_fd_effect:
  assumes "obtain_fd X inner t fl dst w = Inr (w', r)"
  shows "calm inner w w' \<or> (\<exists>d fd sp k. tab inner w t = Some (Waiting d fd sp k) \<and> table_change inner ((tab inner w)(t \<mapsto> Waiting d None sp k)) w w')"
proof (cases "\<exists>d e sp k. tab inner w t = Some (Waiting d (Some e) sp k)")
  case True
  then obtain d e sp k where s: "tab inner w t = Some (Waiting d (Some e) sp k)" by blast
  let ?file = "\<lparr>fd_description = e, fd_cloexec = True\<rparr>"
  have c: "calmM inner (if fl AND OBTAINFD_MANUAL X = OBTAINFD_MANUAL X
          then bindM (resultM (sysM (place_file (insert_file dst ?file) ?file))) (\<lambda>_. retM ())
          else bindM (sysM (place_file (add_file ?file) ?file)) (\<lambda>fd. bindM (fromM (UserSlice_new dst 8)) (\<lambda>dst. sysM (userM (write_usize dst fd)))))"
    using calm_place calm_user by (auto intro!: calmM_bind calmM_result calmM_sys simp: fromM_def split: sum.splits)
  have "calm inner (put_state inner t (Waiting d None sp k) w) w'"
    using calmM_D [OF c] assms s by (simp add: obtain_fd_def tab_def Let_def)
  then show ?thesis using s table_change_calm [OF table_change_put(1)] by blast
next
  case False
  then have "w' = w" using assms by (auto simp: obtain_fd_def tab_def Let_def bindM_Inr_iff split: option.splits call_state.splits)
  then show ?thesis by simp
qed

lemma resume_blocked: "ctx_status (resume_mmap x) = Blocked \<longleftrightarrow> ctx_status x = Blocked"
  by (simp add: resume_mmap_def split: status.splits hard_blocked_reason.splits)

lemma calm_resume: "calm inner w (upd_sched (\<lambda>S. S\<lparr>sc_ctx := (sc_ctx S)(d := map_option resume_mmap (sc_ctx S d))\<rparr>) w)"
  unfolding calm_def alive_def soft_blocked_def by (auto simp: fun_eq_iff resume_blocked split: if_splits)

lemma provide_mmap_effect:
  assumes "provide_mmap M inner t off base n w = Inr (w', r)"
  shows "calm inner w w' \<or> (\<exists>d. tab inner w t = Some (FmapState d) \<and> table_change inner ((tab inner w)(t := None)) w w')"
proof (cases "\<not> (unat off mod PAGE_BYTES \<noteq> 0 \<or> base mod PAGE_BYTES \<noteq> 0 \<or> n \<noteq> 1) \<and> (\<exists>d. tab inner w t = Some (FmapState d))")
  case True
  then obtain d where d: "tab inner w t = Some (FmapState d)" by blast
  let ?go = "bindM (getM (\<lambda>w. sc_ctx (usched w) d)) (\<lambda>c. bindM (ok_orM c (Err ESRCH)) (\<lambda>_. bindM current_space (\<lambda>s.
             bindM (getM (\<lambda>w. mo_translate M (as_table (w_spaces (ux_mem (fl_state w)) s)) base)) (\<lambda>t. bindM (ok_orM t (Err EFAULT)) (\<lambda>(phys, _).
             bindM (modM (upd_sched (\<lambda>S. S\<lparr>sc_ctx := (sc_ctx S)(d := map_option resume_mmap (sc_ctx S d))\<rparr>))) (\<lambda>_.
             bindM (liftE (Frame_containing phys)) (\<lambda>frame. modM (upd_ux (\<lambda>x. x\<lparr>ux_fmap_ret := (ux_fmap_ret x)(d := Some frame)\<rparr>)))))))))"
  have c: "calmM inner ?go" by (auto intro!: calmM_bind calmM_mod calmM_drop calm_fields calm_resume split: prod.splits)
  have "?go (del_state inner t w) = Inr (w', r)" using assms d True by (simp add: provide_mmap_def tab_def)
  then show ?thesis using d calmM_D [OF c] table_change_calm [OF table_change_put(2)] by blast
next
  case False
  then have "w' = w" using assms by (auto simp: provide_mmap_def tab_def bindM_Inr_iff split: if_splits option.splits call_state.splits)
  then show ?thesis by simp
qed

definition served :: "user_inner \<Rightarrow> ('m, 'f) uworld \<Rightarrow> ('m, 'f) uworld \<Rightarrow> bool" where
  "served inner w w' \<longleftrightarrow> calm inner w w' \<or> answered inner w w' \<or>
     (\<exists>t d fd sp k. tab inner w t = Some (Waiting d fd sp k) \<and> table_change inner ((tab inner w)(t \<mapsto> Waiting d None sp k)) w w') \<or>
     (\<exists>t d. tab inner w t = Some (FmapState d) \<and> table_change inner ((tab inner w)(t := None)) w w')"

lemma handle_core_effect:
  assumes "handle_core X M F inner p w = Inr (w', r)"
  shows "served inner w w'"
proof (cases p)
  case (TriggerFevent n fl)
  then show ?thesis using assms(1) calm_trigger [of inner w "ui_scheme_id inner" n fl] by (simp add: handle_core_def served_def)
next
  case (RegularResponse t c x)
  then show ?thesis using assms(1) respond_core_effect by (simp add: handle_core_def served_def) blast
next
  case (ResponseWithFd t fd)
  obtain tb f where rf: "remove_file fd (current_table w) = (tb, f)" by fastforce
  then have "bindM (ok_orM f (Err EINVAL)) (\<lambda>file. respond_core X M F inner t (FdResponse (fd_description file))) (set_table tb w) = Inr (w', r)"
    using assms(1) ResponseWithFd by (simp add: handle_core_def)
  then have "w' = set_table tb w \<or> (\<exists>a. respond_core X M F inner t a (set_table tb w) = Inr (w', r))"
    by (auto simp: bindM_Inr_iff ok_orM_def split: option.splits)
  then have "calm inner w w' \<or> answered inner w w'"
    using respond_core_effect calm_fields(2) calm_trans answered_calm [OF _ _ calm_refl] by blast
  then show ?thesis by (auto simp: served_def)
next
  case (ObtainFd t fl dst)
  then obtain q where "obtain_fd X inner (unat t) fl dst w = Inr (w', q)" using assms(1) by (auto simp: handle_core_def bindM_Inr_iff)
  from obtain_fd_effect [OF this] show ?thesis unfolding served_def by blast
next
  case (ProvideMmap t off base n)
  then obtain q where "provide_mmap M inner (unat t) off base n w = Inr (w', q)" using assms(1) by (auto simp: handle_core_def bindM_Inr_iff)
  from provide_mmap_effect [OF this] show ?thesis unfolding served_def by blast
next
  case NoOp
  then show ?thesis using assms(1) by (simp add: handle_core_def served_def)
qed

end
