(* ===== verification/User_Interleaving.thy ===== *)
theory User_Interleaving
  imports User_Calls File_Balance Process_Signals Munmap_Correct
begin

text \<open>
  The operations of \<open>User_Scheme\<close> under interleaving: any number of contexts call the scheme, any number of
  contexts serve it, and signals arrive at any time, those that stop a caller included.  A server that answers a
  call may have to close the file that came with it, which \<open>respond\<close> does last: the close of a file of another
  scheme is a step of its own (\<open>other\<close>), and the close of a file of the same scheme never begins, because
  \<open>respond\<close> still holds the lock of the table that it needs.  Every step is a step of the protocol of
  \<open>User_Calls\<close>.
\<close>

section \<open>Runs\<close>

record ('m, 'f) user_run =
  ur_world :: "('m, 'f) uworld"
  ur_phase :: "nat \<Rightarrow> phase"
  ur_sent :: "(nat \<times> sqe) list"
  ur_taken :: nat
  ur_lost :: "nat set"
  ur_stopped :: "nat set"

definition as_ctx :: "nat \<Rightarrow> ('m, 'f) uworld \<Rightarrow> ('m, 'f) uworld" where
  "as_ctx c = upd_sched (\<lambda>S. S\<lparr>sc_current := c\<rparr>)"

fun after_poll :: "nat \<Rightarrow> poll \<Rightarrow> phase" where
  "after_poll t PollAgain = Blocking t"
| "after_poll t PollCancel = Cancelling t"
| "after_poll t _ = Outside"

definition read_count :: "user_inner \<Rightarrow> ('m, 'f) uworld \<Rightarrow> ('m, 'f) uworld \<Rightarrow> nat" where
  "read_count inner w w' = length (msgs inner w) - length (msgs inner w')"

inductive user_step ::
    "crate_ops \<Rightarrow> ('m, 'f) mapper_ops \<Rightarrow> 'f flag_ops \<Rightarrow> user_inner \<Rightarrow> ('m, 'f) user_run \<Rightarrow> ('m, 'f) user_run \<Rightarrow> bool"
  for X and M and F and inner where
  reserve: "ur_phase r c = Outside \<Longrightarrow> alive (ur_world r) c \<Longrightarrow> next_id X inner (as_ctx c (ur_world r)) = Inr (w, Inr t) \<Longrightarrow>
    user_step X M F inner r (r\<lparr>ur_world := w, ur_phase := (ur_phase r)(c := Reserved (unat t)), ur_lost := ur_lost r - {unat t}\<rparr>)"
| reserve_full: "next_id X inner (as_ctx c (ur_world r)) = Inr (w, Inl e) \<Longrightarrow>
    user_step X M F inner r (r\<lparr>ur_world := w, ur_lost := insert (slab_vacant X (states_of inner (ur_world r))) (ur_lost r)\<rparr>)"
| enter: "ur_phase r c = Reserved t \<Longrightarrow> op \<noteq> OpCancel \<Longrightarrow> s = call_sqe X ctx op args (of_nat t) \<Longrightarrow>
    call_begin inner fd s (as_ctx c (ur_world r)) = Inr (w, Inr ()) \<Longrightarrow>
    user_step X M F inner r (r\<lparr>ur_world := w, ur_phase := (ur_phase r)(c := Posting t s), ur_stopped := ur_stopped r - {c}\<rparr>)"
| refuse: "ur_phase r c = Reserved t \<Longrightarrow> call_begin inner fd s (as_ctx c (ur_world r)) = Inr (w, Inl e) \<Longrightarrow>
    user_step X M F inner r (r\<lparr>ur_world := w, ur_phase := (ur_phase r)(c := Outside), ur_lost := insert t (ur_lost r)\<rparr>)"
| send: "ur_phase r c = Posting t s \<Longrightarrow>
    user_step X M F inner r (r\<lparr>ur_world := post inner s (as_ctx c (ur_world r)), ur_phase := (ur_phase r)(c := Parked t False), ur_sent := ur_sent r @ [(c, s)]\<rparr>)"
| poll: "ur_phase r c = Parked t k \<Longrightarrow> \<not> asleep (ur_world r) c \<Longrightarrow> call_poll inner t span (as_ctx c (ur_world r)) = Inr (w, Inr (span', p)) \<Longrightarrow>
    user_step X M F inner r (r\<lparr>ur_world := w, ur_phase := (ur_phase r)(c := after_poll t p),
      ur_lost := (if p = PollFail EINTR then insert t (ur_lost r) else ur_lost r)\<rparr>)"
| cancel: "ur_phase r c = Cancelling t \<Longrightarrow>
    user_step X M F inner r (r\<lparr>ur_world := post inner (cancel_sqe X t) (as_ctx c (ur_world r)), ur_phase := (ur_phase r)(c := Blocking t),
      ur_sent := ur_sent r @ [(c, cancel_sqe X t)]\<rparr>)"
| sleep: "ur_phase r c = Blocking t \<Longrightarrow>
    user_step X M F inner r (r\<lparr>ur_world := block_caller ''UserInner::call'' (as_ctx c (ur_world r)), ur_phase := (ur_phase r)(c := Parked t True)\<rparr>)"
| serve: "handle_core X M F inner p (as_ctx c (ur_world r)) = Inr (w, res) \<Longrightarrow> user_step X M F inner r (r\<lparr>ur_world := w\<rparr>)"
| receive: "ur_phase r c = Outside \<Longrightarrow> todo_receive pending inner blocking [] (as_ctx c (ur_world r)) = Inr (w, res) \<Longrightarrow>
    user_step X M F inner r (r\<lparr>ur_world := w, ur_taken := ur_taken r + read_count inner (ur_world r) w\<rparr>)"
| receive_many: "ur_phase r c = Outside \<Longrightarrow> todo_receive_into_user X pending brk inner buf blocking [] (as_ctx c (ur_world r)) = Inr (w, res) \<Longrightarrow>
    user_step X M F inner r (r\<lparr>ur_world := w, ur_taken := ur_taken r + read_count inner (ur_world r) w\<rparr>)"
| ask_page: "request_fmap X inner number n flags (as_ctx c (ur_world r)) = Inr (w, res) \<Longrightarrow> t = slab_vacant X (states_of inner (ur_world r)) \<Longrightarrow> t < 2 ^ 32 \<Longrightarrow>
    msgs inner w = msgs inner (ur_world r) @ new \<Longrightarrow>
    user_step X M F inner r (r\<lparr>ur_world := w, ur_sent := ur_sent r @ map (Pair c) new, ur_lost := ur_lost r - {t}\<rparr>)"
| unmounts: "user_step X M F inner r (r\<lparr>ur_world := unmount inner (as_ctx c (ur_world r))\<rparr>)"
| stop: "user_step X M F inner r (r\<lparr>ur_world := (ur_world r)\<lparr>fl_procs := send_stop K c p sig (fl_procs (ur_world r))\<rparr>, ur_stopped := insert c (ur_stopped r)\<rparr>)"
| other: "tab inner w = tab inner (ur_world r) \<Longrightarrow> msgs inner w = msgs inner (ur_world r) \<Longrightarrow>
    (\<forall>c. ur_phase r c \<noteq> Outside \<longrightarrow> (asleep w c \<longrightarrow> asleep (ur_world r) c) \<and> (alive (ur_world r) c \<longrightarrow> alive w c)) \<Longrightarrow>
    user_step X M F inner r (r\<lparr>ur_world := w\<rparr>)"

definition abs_calls :: "user_inner \<Rightarrow> ('m, 'f) user_run \<Rightarrow> calls" where
  "abs_calls inner r = \<lparr>ca_table = tab inner (ur_world r), ca_blocked = asleep (ur_world r), ca_alive = alive (ur_world r), ca_phase = ur_phase r,
     ca_sent = ur_sent r, ca_taken = ur_taken r, ca_lost = ur_lost r, ca_stopped = ur_stopped r\<rparr>"

text \<open>The queue holds the messages that were posted and not read yet, in order.\<close>

definition queue_ok :: "user_inner \<Rightarrow> ('m, 'f) user_run \<Rightarrow> bool" where
  "queue_ok inner r \<longleftrightarrow> msgs inner (ur_world r) = map snd (drop (ur_taken r) (ur_sent r)) \<and> ur_taken r \<le> length (ur_sent r)"

definition user_start :: "user_inner \<Rightarrow> ('m, 'f) user_run \<Rightarrow> bool" where
  "user_start inner r \<longleftrightarrow> tab inner (ur_world r) = Map.empty \<and> msgs inner (ur_world r) = [] \<and> ur_phase r = (\<lambda>_. Outside) \<and> ur_sent r = [] \<and> ur_taken r = 0 \<and> ur_lost r = {} \<and> ur_stopped r = {}"

section \<open>Reading the queue\<close>

lemma as_ctx_view [simp]:
  "tab inner (as_ctx c w) = tab inner w" "msgs inner (as_ctx c w) = msgs inner w" "asleep (as_ctx c w) = asleep w" "alive (as_ctx c w) = alive w"
  "states_of inner (as_ctx c w) = states_of inner w" "sc_current (usched (as_ctx c w)) = c" "fl_state (as_ctx c w) = fl_state w"
  by (auto simp: as_ctx_def alive_def soft_blocked_def fun_eq_iff)

definition reads :: "user_inner \<Rightarrow> nat \<Rightarrow> ('m, 'f) uworld \<Rightarrow> ('m, 'f) uworld \<Rightarrow> bool" where
  "reads inner c w w' \<longleftrightarrow> tab inner w' = tab inner w \<and> (\<exists>k\<le>length (msgs inner w). msgs inner w' = drop k (msgs inner w)) \<and>
     (\<forall>d. asleep w' d \<longrightarrow> asleep w d \<or> d = c) \<and> alive w' = alive w"

lemma put_todo_view:
  "tab inner (put_todo inner d w) = tab inner w" "msgs inner (put_todo inner d w) = wd_inner d" "usched (put_todo inner d w) = wd_sched d"
  by (simp_all add: put_todo_def view_defs upd_ux_def upd_sched_def)

lemma todo_data_view: "wd_inner (todo_data inner w) = msgs inner w" "wd_sched (todo_data inner w) = usched w"
  by (simp_all add: todo_data_def msgs_def split: prod.splits)

definition waits :: "'q list wait_data \<Rightarrow> 'q list wait_data \<Rightarrow> bool" where
  "waits d d' \<longleftrightarrow> (\<exists>k\<le>length (wd_inner d). wd_inner d' = drop k (wd_inner d)) \<and>
     (\<forall>c. soft_blocked (wd_sched d') c \<longrightarrow> soft_blocked (wd_sched d) c \<or> c = sc_current (wd_sched d)) \<and>
     (\<forall>c. (sc_ctx (wd_sched d') c = None) = (sc_ctx (wd_sched d) c = None))"

lemma waits_refl [simp]: "waits d d"
  by (auto simp: waits_def)

lemma waits_enter: "waits d (fst (wd_enter pending reason d))"
  by (auto simp: waits_def wd_enter_def wc_wait_begin_def soft_blocked_def split: if_splits)

lemma waits_stuck: "wd_stuck pending reason x d = (d', r) \<Longrightarrow> waits d d'"
  using waits_enter [of d pending reason] by (auto simp: wd_stuck_def split: prod.splits bool.splits)

lemma waits_receive: "wq_receive pending blocking reason [] d = (d', r) \<Longrightarrow> waits d d'"
  by (auto simp: wq_receive.simps dest: waits_stuck split: list.splits if_splits)
    (auto simp: waits_def intro: exI [of _ 1])

lemma waits_receive_many:
  assumes "wq_receive_into_user pending enc sz brk buf blocking reason [] d m = Inr (d', m', r)"
  shows "waits d d'"
proof (cases "wd_inner d = []")
  case True
  then show ?thesis using assms by (auto simp: wq_receive_into_user.simps dest: waits_stuck split: if_splits prod.splits)
next
  case False
  then obtain m2 x where x: "wq_copy_out enc sz brk buf (wd_inner d) m = Inr (m2, x)"
    using assms by (cases "wq_copy_out enc sz brk buf (wd_inner d) m") (auto simp: wq_receive_into_user.simps)
  have "d' = d \<or> (\<exists>k. d' = d\<lparr>wd_inner := drop k (wd_inner d)\<rparr>)" using assms False x
    by (cases x) (auto simp: wq_receive_into_user.simps bindE_Inr_iff)
  moreover have "\<exists>l\<le>length xs. drop k xs = drop l xs" for k and xs :: "'a list"
    by (cases "k \<le> length xs") (auto intro: exI [of _ "length xs"])
  ultimately show ?thesis by (auto simp: waits_def)
qed

lemma reads_put_todo: "waits (todo_data inner w) d \<Longrightarrow> reads inner (sc_current (usched w)) w (put_todo inner d w)"
  by (auto simp: reads_def waits_def put_todo_view todo_data_view alive_def fun_eq_iff)

lemma todo_receive_reads:
  assumes "todo_receive pending inner blocking [] w = Inr (w', r)"
  shows "reads inner (sc_current (usched w)) w w'"
proof -
  obtain d x where d: "wq_receive pending blocking ''UserInner::read (legacy)'' [] (todo_data inner w) = (d, x)" by fastforce
  then have "w' = put_todo inner d w" using assms by (auto simp: todo_receive.simps split: option.splits sum.splits)
  then show ?thesis using reads_put_todo waits_receive [OF d] by blast
qed

lemma todo_receive_many_reads:
  assumes "todo_receive_into_user X pending brk inner buf blocking [] w = Inr (w', r)"
  shows "reads inner (sc_current (usched w)) w w'"
proof -
  obtain d u x where d: "wq_receive_into_user pending (sqe_bytes X) (SQE_SIZE X) brk buf blocking ''UserInner::read (v2)'' [] (todo_data inner w) (px_user (fl_procs w)) = Inr (d, u, x)"
    and w': "w' = put_todo inner d (w\<lparr>fl_procs := (fl_procs w)\<lparr>px_user := u\<rparr>\<rparr>)"
    using assms
    by (cases "wq_receive_into_user pending (sqe_bytes X) (SQE_SIZE X) brk buf blocking ''UserInner::read (v2)'' [] (todo_data inner w) (px_user (fl_procs w))")
      (auto simp: todo_receive_into_user.simps Let_def split: option.splits sum.splits)
  let ?v = "w\<lparr>fl_procs := (fl_procs w)\<lparr>px_user := u\<rparr>\<rparr>"
  have v: "todo_data inner ?v = todo_data inner w" "tab inner ?v = tab inner w" "msgs inner ?v = msgs inner w" "asleep ?v = asleep w" "alive ?v = alive w"
    by (auto simp: todo_data_def view_defs fun_eq_iff)
  have "reads inner (sc_current (usched ?v)) ?v w'" unfolding w' by (rule reads_put_todo) (use waits_receive_many [OF d] v in simp)
  then show ?thesis using v by (simp add: reads_def)
qed

section \<open>Asking for a page\<close>

lemma current_info_same: "sysM current_info w = Inr (w', r) \<Longrightarrow> w' = w"
  by (auto simp: sysM_def map_errM_def current_info_def procM_def process_current_def get_process_def bindM_Inr_iff bindE_Inr_iff ok_orM_def split: option.splits if_splits)

lemma request_fmap_effect:
  assumes "request_fmap X inner number n flags w = Inr (w', res)" "t = slab_vacant X (states_of inner w)" "t < 2 ^ 32"
  shows "tab inner w' = (tab inner w)(t \<mapsto> FmapState (sc_current (usched w)))" "shrinks (asleep w) (asleep w')" "alive w' = alive w"
    "msgs inner w' = msgs inner w @ new \<Longrightarrow> \<forall>s\<in>set new. request X t s"
proof -
  let ?v = "put_state inner t (FmapState (sc_current (usched w))) (put_state inner t Placeholder w)"
  have u: "unat (of_nat t :: 32 word) = t" using assms(3) by (simp add: unat_of_nat take_bit_eq_mod)
  define msg where "msg = (\<lambda>(i :: process_info) pid. \<lparr>sq_opcode = op_raw X OpRequestMmap, sq_oneway = False, sq_tag = of_nat t,
     sq_args = [of_nat number, flags, of_nat n, 0, 0, uid_gid_hack_merge (pi_euid i) (pi_egid i)], sq_caller = of_nat pid\<rparr>)"
  have q: "request X t (msg i pid)" for i pid by (auto simp: request_def msg_def u intro: exI [of _ OpRequestMmap])
  have run: "bindM (sysM current_info) (\<lambda>i. bindM (getM (\<lambda>w. current_pid (fl_procs w))) (\<lambda>pid. modM (post inner (msg i pid)))) ?v = Inr (w', res)"
    using assms u by (simp add: request_fmap_def next_id_def msg_def)
  then have "w' = ?v \<or> (\<exists>i pid. w' = post inner (msg i pid) ?v)" by (auto simp: bindM_Inr_iff dest!: current_info_same)
  then have "w' = ?v \<or> (\<exists>s. w' = post inner s ?v \<and> request X t s)" using q by blast
  moreover have "(tab inner w)(t \<mapsto> Placeholder, t \<mapsto> x) = (tab inner w)(t \<mapsto> x)" for x by simp
  ultimately show "tab inner w' = (tab inner w)(t \<mapsto> FmapState (sc_current (usched w)))" "shrinks (asleep w) (asleep w')" "alive w' = alive w"
    "msgs inner w' = msgs inner w @ new \<Longrightarrow> \<forall>s\<in>set new. request X t s"
    by (auto simp: post_view dest: post_view(3))
qed

section \<open>The simulation\<close>

lemmas abs_simps = abs_calls_def calls.defs calls.simps

lemma call_poll_effect:
  assumes "call_poll inner t span w = Inr (w', Inr (span', p))"
    and "(\<exists>d fd sp k. tab inner w t = Some (Waiting d fd sp k)) \<or> (\<exists>a. tab inner w t = Some (Responded a))"
  obtains (answer) a where "tab inner w t = Some (Responded a)" "p = PollDone a" "w' = del_state inner t w"
  | (killed) d fd sp k where "tab inner w t = Some (Waiting d fd sp k)" "p = PollFail EINTR" "w' = put_state inner t (Waiting d fd span True) w"
  | (again) d fd sp where "tab inner w t = Some (Waiting d fd sp True)" "p = PollAgain" "w' = put_state inner t (Waiting d fd sp True) w"
  | (cancelled) d fd sp where "tab inner w t = Some (Waiting d fd sp False)" "p = PollCancel" "w' = put_state inner t (Waiting d fd sp True) w"
  using assms(2)
proof (elim disjE exE)
  fix a assume a: "tab inner w t = Some (Responded a)"
  then show thesis using assms(1) answer [OF a] by (simp add: call_poll_def tab_def)
next
  fix d fd sp k assume a: "tab inner w t = Some (Waiting d fd sp k)"
  show thesis
  proof (cases "being_sigkilled w")
    case True
    then show thesis using assms(1) a killed [OF a] by (simp add: call_poll_def tab_def)
  next
    case False
    then show thesis using assms(1) a again cancelled by (cases k) (simp_all add: call_poll_def tab_def)
  qed
qed

lemma call_begin_effect:
  assumes "call_begin inner fd s w = Inr (w', r)"
  shows "r = Inr () \<Longrightarrow> w' = put_state inner (unat (sq_tag s)) (Waiting (sc_current (usched w)) fd PageSpan_empty False) (block_caller ''UserScheme::call'' w)"
    "r = Inl e \<Longrightarrow> calm inner w w'"
proof -
  have c: "calmM inner (bindM (drop_fd fd) (\<lambda>_. errM (Err ENODEV)))" by (intro calmM_bind calmM_drop) simp
  show "r = Inr () \<Longrightarrow> w' = put_state inner (unat (sq_tag s)) (Waiting (sc_current (usched w)) fd PageSpan_empty False) (block_caller ''UserScheme::call'' w)"
    using assms by (auto simp: call_begin_def bindM_Inr_iff split: if_splits)
  show "r = Inl e \<Longrightarrow> calm inner w w'"
    using assms calmM_D [OF c] by (auto simp: call_begin_def bindM_Inr_iff [of "getM _"] bindM_Inr_iff [of "modM _"] bindM_Inr_iff [of "assertM _ _"] split: if_splits)
qed

lemma step_as: "call_step X (abs_calls inner r) a \<Longrightarrow> abs_calls inner r' = a \<Longrightarrow> call_step X (abs_calls inner r) (abs_calls inner r')"
  by simp

lemma served_step:
  assumes "served inner w w'" "w = as_ctx c (ur_world r)" "ur_taken r \<le> length (ur_sent r)"
  shows "call_step X (abs_calls inner r) (abs_calls inner (r\<lparr>ur_world := w'\<rparr>))"
proof -
  have e: "tab inner w = ca_table (abs_calls inner r)" "asleep w = ca_blocked (abs_calls inner r)" "alive w = ca_alive (abs_calls inner r)"
    using assms(2) by (simp_all add: abs_calls_def)
  consider "calm inner w w'" | "answered inner w w'" |
    t d fd sp k where "tab inner w t = Some (Waiting d fd sp k)" "table_change inner ((tab inner w)(t \<mapsto> Waiting d None sp k)) w w'" |
    t d where "tab inner w t = Some (FmapState d)" "table_change inner ((tab inner w)(t := None)) w w'"
    using assms(1) unfolding served_def by blast
  then show ?thesis
  proof cases
    case 1
    show ?thesis
      by (rule step_as [OF call_step.other [where S = "{}" and b = "asleep w'" and a = "alive w'" and n = "ur_taken r"]])
        (use 1 assms(2,3) in \<open>auto simp: abs_calls_def calm_def\<close>)
  next
    case 2
    then obtain t d fd sp k where t: "tab inner w t = Some (Waiting d fd sp k)" "shrinks (asleep w) (asleep w')" "alive w' = alive w"
      "if alive w d then \<exists>a. tab inner w' = (tab inner w)(t \<mapsto> Responded a) \<and> \<not> asleep w' d else tab inner w' = (tab inner w)(t := None)"
      unfolding answered_def by blast
    show ?thesis
    proof (cases "alive w d")
      case True
      then obtain a where a: "tab inner w' = (tab inner w)(t \<mapsto> Responded a)" "\<not> asleep w' d" using t(4) by auto
      show ?thesis
        by (rule step_as [OF call_step.answer [where t = t and d = d and fd = fd and sp = sp and k = k and b = "asleep w'" and a = a]])
          (use t a True e in \<open>simp_all add: abs_calls_def\<close>)
    next
      case False
      show ?thesis
        by (rule step_as [OF call_step.answer_dead [where t = t and d = d and fd = fd and sp = sp and k = k and b = "asleep w'"]])
          (use t False e in \<open>simp_all add: abs_calls_def\<close>)
    qed
  next
    case (3 t d fd sp k)
    show ?thesis
      by (rule step_as [OF call_step.obtain_file [where t = t and d = d and fd = fd and sp = sp and k = k and b = "asleep w'"]])
        (use 3 e in \<open>simp_all add: abs_calls_def table_change_def\<close>)
  next
    case (4 t d)
    show ?thesis
      by (rule step_as [OF call_step.provide_page [where t = t and d = d and b = "asleep w'"]])
        (use 4 e in \<open>simp_all add: abs_calls_def table_change_def\<close>)
  qed
qed

lemma reads_step:
  assumes "reads inner c (as_ctx c (ur_world r)) w'" "ur_phase r c = Outside" "queue_ok inner r"
  shows "call_step X (abs_calls inner r) (abs_calls inner (r\<lparr>ur_world := w', ur_taken := ur_taken r + read_count inner (ur_world r) w'\<rparr>))"
    "queue_ok inner (r\<lparr>ur_world := w', ur_taken := ur_taken r + read_count inner (ur_world r) w'\<rparr>)"
proof -
  let ?n = "ur_taken r + read_count inner (ur_world r) w'"
  obtain k where k: "k \<le> length (msgs inner (ur_world r))" "msgs inner w' = drop k (msgs inner (ur_world r))" using assms(1) by (auto simp: reads_def)
  have c: "read_count inner (ur_world r) w' = k" using k by (simp add: read_count_def)
  have l: "?n \<le> length (ur_sent r)" using assms(3) k c by (auto simp: queue_ok_def)
  show "call_step X (abs_calls inner r) (abs_calls inner (r\<lparr>ur_world := w', ur_taken := ?n\<rparr>))"
    by (rule step_as [OF call_step.other [where S = "{}" and b = "asleep w'" and a = "alive w'" and n = ?n]])
      (use assms(1,2) l in \<open>auto simp: abs_calls_def reads_def\<close>)
  show "queue_ok inner (r\<lparr>ur_world := w', ur_taken := ?n\<rparr>)" using assms(3) k c l by (simp add: queue_ok_def drop_map add.commute)
qed

lemma call_sqe_request: "t < 2 ^ 32 \<Longrightarrow> op \<noteq> OpCancel \<Longrightarrow> request X t (call_sqe X ctx op args (of_nat t))"
  by (auto simp: request_def call_sqe_def args6_def unat_of_nat take_bit_eq_mod)

text \<open>A stop signal blocks the one context it goes to.\<close>

lemma clear_cont_sched: "px_sched (clear_cont K ts already w) = px_sched w"
  by (induction K ts already w rule: clear_cont.induct) (auto simp: Let_def upd_pctl_def upd_word_def upd_sig_def split: option.splits)

lemma send_stop_view:
  assumes "w' = w\<lparr>fl_procs := send_stop K c p sig (fl_procs w)\<rparr>"
  shows "tab inner w' = tab inner w" "msgs inner w' = msgs inner w" "alive w' = alive w" "\<forall>d. asleep w' d \<longrightarrow> asleep w d \<or> d = c"
  by (auto simp: assms view_defs send_stop_def Let_def clear_cont_sched upd_proc_def set_thread_def soft_blocked_def fun_eq_iff)

lemma user_step_simulates:
  assumes "user_step X M F inner r r'" "crate_laws X" "calls_inv X (abs_calls inner r)" "queue_ok inner r"
  shows "call_step X (abs_calls inner r) (abs_calls inner r') \<and> queue_ok inner r'"
  using assms(1)
proof cases
  case (reserve c w t)
  let ?i = "slab_vacant X (states_of inner (ur_world r))"
  have v: "?i < 2 ^ 32" "t = of_nat ?i" "w = put_state inner ?i Placeholder (as_ctx c (ur_world r))" using reserve(4) by (auto simp: next_id_def split: if_splits)
  have u: "unat t = ?i" using v(1,2) by (simp add: unat_of_nat take_bit_eq_mod)
  have n: "tab inner (ur_world r) ?i = None" using assms(2) by (simp add: tab_def crate_laws_def map_of_eq_None_iff)
  have "call_step X (abs_calls inner r) (abs_calls inner r')"
    by (rule step_as [OF call_step.reserve [where c = c and t = ?i]]) (use reserve v u n in \<open>simp_all add: abs_calls_def\<close>)
  then show ?thesis using assms(4) reserve v by (simp add: queue_ok_def)
next
  case (reserve_full c w e)
  let ?i = "slab_vacant X (states_of inner (ur_world r))"
  have v: "2 ^ 32 \<le> ?i" "w = put_state inner ?i Placeholder (as_ctx c (ur_world r))" using reserve_full(2) by (auto simp: next_id_def split: if_splits)
  have n: "tab inner (ur_world r) ?i = None" using assms(2) by (simp add: tab_def crate_laws_def map_of_eq_None_iff)
  have "call_step X (abs_calls inner r) (abs_calls inner r')"
    by (rule step_as [OF call_step.reserve_full [where t = ?i]]) (use reserve_full v n in \<open>simp_all add: abs_calls_def\<close>)
  then show ?thesis using assms(4) reserve_full v by (simp add: queue_ok_def)
next
  case (enter c t op s ctx args fd w)
  have "t < 2 ^ 32" using calls_invD(5) [OF assms(3), of c t] enter(2) by (simp add: abs_calls_def)
  then have q: "request X t s" using call_sqe_request enter(3,4) by blast
  then have u: "unat (sq_tag s) = t" by (simp add: request_def)
  have w: "w = put_state inner t (Waiting c fd PageSpan_empty False) (block_caller ''UserScheme::call'' (as_ctx c (ur_world r)))"
    using call_begin_effect(1) [OF enter(5)] u by simp
  have "call_step X (abs_calls inner r) (abs_calls inner r')"
    by (rule step_as [OF call_step.enter [where c = c and t = t and s = s and fd = fd and sp = PageSpan_empty and b = "asleep w"]])
      (use enter w q in \<open>simp_all add: abs_calls_def\<close>)
  then show ?thesis using assms(4) enter w by (simp add: queue_ok_def)
next
  case (refuse c t fd s w e)
  have w: "calm inner (as_ctx c (ur_world r)) w" by (rule call_begin_effect(2) [OF refuse(3) refl])
  have "call_step X (abs_calls inner r) (abs_calls inner r')"
    by (rule step_as [OF call_step.refuse [where c = c and t = t and b = "asleep w"]])
      (use refuse w in \<open>simp_all add: abs_calls_def calm_def\<close>)
  then show ?thesis using assms(4) refuse w by (simp add: queue_ok_def calm_def)
next
  case (send c t s)
  have "call_step X (abs_calls inner r) (abs_calls inner r')"
    by (rule step_as [OF call_step.send [where c = c and t = t and s = s and b = "asleep (post inner s (as_ctx c (ur_world r)))"]])
      (use send post_view [of inner s "as_ctx c (ur_world r)"] in \<open>simp_all add: abs_calls_def\<close>)
  then show ?thesis using assms(4) send by (simp add: queue_ok_def post_view)
next
  case (poll c t k span w span' p)
  have "(\<exists>d fd sp k. tab inner (as_ctx c (ur_world r)) t = Some (Waiting d fd sp k)) \<or> (\<exists>a. tab inner (as_ctx c (ur_world r)) t = Some (Responded a))"
    using calls_invD(2) [OF assms(3), of c t k] poll(2) by (auto simp: abs_calls_def)
  with poll(4) show ?thesis
  proof (cases rule: call_poll_effect)
    case (answer a)
    have "call_step X (abs_calls inner r) (abs_calls inner r')"
      by (rule step_as [OF call_step.poll_done [where c = c and t = t and k = k and a = a]]) (use poll answer in \<open>simp_all add: abs_calls_def\<close>)
    then show ?thesis using assms(4) poll answer by (simp add: queue_ok_def)
  next
    case (killed d fd sp k')
    have "call_step X (abs_calls inner r) (abs_calls inner r')"
      by (rule step_as [OF call_step.poll_killed [where c = c and t = t and k = k and d = d and fd = fd and sp = sp and k' = k' and sp' = span]])
        (use poll killed in \<open>simp_all add: abs_calls_def\<close>)
    then show ?thesis using assms(4) poll killed by (simp add: queue_ok_def)
  next
    case (again d fd sp)
    have "call_step X (abs_calls inner r) (abs_calls inner r')"
      by (rule step_as [OF call_step.poll_again [where c = c and t = t and k = k and d = d and fd = fd and sp = sp]])
        (use poll again in \<open>simp_all add: abs_calls_def\<close>)
    then show ?thesis using assms(4) poll again by (simp add: queue_ok_def)
  next
    case (cancelled d fd sp)
    have "call_step X (abs_calls inner r) (abs_calls inner r')"
      by (rule step_as [OF call_step.poll_cancel [where c = c and t = t and k = k and d = d and fd = fd and sp = sp]])
        (use poll cancelled in \<open>simp_all add: abs_calls_def\<close>)
    then show ?thesis using assms(4) poll cancelled by (simp add: queue_ok_def)
  qed
next
  case (cancel c t)
  have "call_step X (abs_calls inner r) (abs_calls inner r')"
    by (rule step_as [OF call_step.cancel [where c = c and t = t and b = "asleep (post inner (cancel_sqe X t) (as_ctx c (ur_world r)))"]])
      (use cancel post_view [of inner "cancel_sqe X t" "as_ctx c (ur_world r)"] in \<open>simp_all add: abs_calls_def\<close>)
  then show ?thesis using assms(4) cancel by (simp add: queue_ok_def post_view)
next
  case (sleep c t)
  have "call_step X (abs_calls inner r) (abs_calls inner r')"
    by (rule step_as [OF call_step.sleep [where c = c and t = t and b = "asleep (block_caller ''UserInner::call'' (as_ctx c (ur_world r)))"]])
      (use sleep in \<open>simp_all add: abs_calls_def\<close>)
  then show ?thesis using assms(4) sleep by (simp add: queue_ok_def)
next
  case (serve p c w res)
  have v: "served inner (as_ctx c (ur_world r)) w" by (rule handle_core_effect [OF serve(2)])
  have l: "ur_taken r \<le> length (ur_sent r)" using assms(4) by (simp add: queue_ok_def)
  have "msgs inner w = msgs inner (ur_world r)" using v by (auto simp: served_def calm_def answered_def table_change_def)
  then show ?thesis using served_step [OF v refl l] assms(4) serve(1) by (simp add: queue_ok_def)
next
  case (receive c pending blocking w res)
  then show ?thesis using reads_step [OF _ _ assms(4)] todo_receive_reads [OF receive(3)] by simp
next
  case (receive_many c pending brk buf blocking w res)
  then show ?thesis using reads_step [OF _ _ assms(4)] todo_receive_many_reads [OF receive_many(3)] by simp
next
  case (ask_page number n flags c w res t new)
  have n: "tab inner (ur_world r) t = None" using assms(2) ask_page(3) by (simp add: tab_def crate_laws_def map_of_eq_None_iff)
  have "t = slab_vacant X (states_of inner (as_ctx c (ur_world r)))" using ask_page(3) by simp
  note f = request_fmap_effect [OF ask_page(2) this ask_page(4)]
  have "call_step X (abs_calls inner r) (abs_calls inner r')"
    by (rule step_as [OF call_step.ask_page [where t = t and c = c and ms = "map (Pair c) new" and b = "asleep w"]])
      (use ask_page f n in \<open>simp_all add: abs_calls_def\<close>)
  then show ?thesis using assms(4) ask_page by (simp add: queue_ok_def comp_def)
next
  case (unmounts c)
  have v: "calm inner (as_ctx c (ur_world r)) (unmount inner (as_ctx c (ur_world r)))" by (rule calm_unmount)
  have l: "ur_taken r \<le> length (ur_sent r)" using assms(4) by (simp add: queue_ok_def)
  show ?thesis using served_step [OF _ refl l, of inner c "unmount inner (as_ctx c (ur_world r))"] v assms(4) unmounts
    by (simp add: served_def queue_ok_def) (simp add: calm_def)
next
  case (stop c K p sig)
  note v = send_stop_view [of "(ur_world r)\<lparr>fl_procs := send_stop K c p sig (fl_procs (ur_world r))\<rparr>" K c p sig "ur_world r", OF refl]
  have "call_step X (abs_calls inner r) (abs_calls inner r')"
    by (rule step_as [OF call_step.other [where S = "{c}" and b = "asleep ((ur_world r)\<lparr>fl_procs := send_stop K c p sig (fl_procs (ur_world r))\<rparr>)"
          and a = "alive (ur_world r)" and n = "ur_taken r"]])
      (use stop v assms(4) in \<open>auto simp: abs_calls_def queue_ok_def\<close>)
  then show ?thesis using assms(4) stop v by (simp add: queue_ok_def)
next
  case (other w)
  have "call_step X (abs_calls inner r) (abs_calls inner r')"
    by (rule step_as [OF call_step.other [where S = "{}" and b = "asleep w" and a = "alive w" and n = "ur_taken r"]])
      (use other assms(4) in \<open>auto simp: abs_calls_def queue_ok_def\<close>)
  then show ?thesis using assms(4) other by (simp add: queue_ok_def)
qed

interpretation ucalls: call_protocol X "user_step X M F inner" "abs_calls inner" "queue_ok inner"
  for X M F inner
  by unfold_locales (use user_step_simulates in blast)

definition user_reach :: "crate_ops \<Rightarrow> ('m, 'f) mapper_ops \<Rightarrow> 'f flag_ops \<Rightarrow> user_inner \<Rightarrow> ('m, 'f) user_run \<Rightarrow> bool" where
  "user_reach X M F inner r \<longleftrightarrow> crate_laws X \<and> (\<exists>r0. user_start inner r0 \<and> (user_step X M F inner)\<^sup>*\<^sup>* r0 r)"

lemma user_reach_inv:
  assumes "user_reach X M F inner r"
  shows "crate_laws X" "calls_inv X (abs_calls inner r)" "sent_inv X (abs_calls inner r)" "queue_ok inner r"
proof -
  show l: "crate_laws X" using assms by (simp add: user_reach_def)
  obtain r0 where r0: "user_start inner r0" "(user_step X M F inner)\<^sup>*\<^sup>* r0 r" using assms by (auto simp: user_reach_def)
  have "calls_inv X (abs_calls inner r0)" "sent_inv X (abs_calls inner r0)" "queue_ok inner r0"
    using r0(1) by (simp_all add: user_start_def abs_calls_def calls_inv_def sent_inv_def queue_ok_def cancels_ok_def)
  then show "calls_inv X (abs_calls inner r)" "sent_inv X (abs_calls inner r)" "queue_ok inner r"
    using ucalls.reachable [OF r0(2) l] by blast+
qed

text \<open>The three ways in which a slot is given up.\<close>

definition leaks :: "user_inner \<Rightarrow> ('m, 'f) user_run \<Rightarrow> nat \<Rightarrow> bool" where
  "leaks inner r t \<longleftrightarrow> 2 ^ 32 \<le> t \<or>
     (\<exists>c. ur_phase r c = Reserved t \<and> ux_unmounting (fl_state (ur_world r)) (ui_scheme_id inner)) \<or>
     (\<exists>c k. ur_phase r c = Parked t k \<and> being_sigkilled (as_ctx c (ur_world r)))"

lemma call_begin_refused: "call_begin inner fd s w = Inr (w', Inl e) \<Longrightarrow> ux_unmounting (fl_state w) (ui_scheme_id inner)"
  by (auto simp: call_begin_def bindM_Inr_iff split: if_splits)

lemma call_poll_killed: "call_poll inner t span w = Inr (w', Inr (span', PollFail EINTR)) \<Longrightarrow> being_sigkilled w"
  by (auto simp: call_poll_def bindM_Inr_iff split: option.splits call_state.splits if_splits)

lemma user_step_lost:
  assumes "user_step X M F inner r r'" "t \<in> ur_lost r'" "t \<notin> ur_lost r"
  shows "leaks inner r t"
  using assms(1)
proof cases
  case (reserve_full c w e)
  then show ?thesis using assms(2,3) by (auto simp: leaks_def next_id_def split: if_splits)
next
  case (refuse c u fd s w e)
  then show ?thesis using assms(2,3) call_begin_refused [OF refuse(3)] by (auto simp: leaks_def)
next
  case (poll c u k span w span' p)
  then show ?thesis using assms(2,3) call_poll_killed [of inner u span "as_ctx c (ur_world r)" w span']
    by (auto simp: leaks_def split: if_splits)
qed (use assms(2,3) in auto)

section \<open>Calls are safe\<close>

text \<open>
  C31: Calls to a user space server, by any number of contexts, with signals, kills and unmounting at any time.
  No two callers ever hold the same tag.  Every slot of the table belongs to a caller, to a pending page request or
  is one of the slots that were given up, and a slot is given up in three ways only: its number is no 32 bit tag,
  the scheme was unmounted after the caller had taken the tag, or the waiting caller is being killed.  A caller that
  sleeps, and that was neither interrupted nor stopped by a signal during its call, is still unanswered.  The server
  reads the messages in the order in which they were posted, and a cancellation always concerns the latest request
  under its tag and comes from the same caller.  An answer stays until its caller takes it.
\<close>

theorem user_calls_safe:
  assumes "user_reach X M F inner r"
  shows "(\<forall>c d t. holds_tag (ur_phase r c) t \<and> holds_tag (ur_phase r d) t \<longrightarrow> c = d) \<and>
    (\<forall>t s. tab inner (ur_world r) t = Some s \<longrightarrow> (\<exists>c. holds_tag (ur_phase r c) t) \<or> t \<in> ur_lost r \<or> (\<exists>d. s = FmapState d)) \<and>
    (\<forall>r' t. user_step X M F inner r r' \<and> t \<in> ur_lost r' - ur_lost r \<longrightarrow> leaks inner r t) \<and>
    (\<forall>c t. ur_phase r c = Parked t False \<and> asleep (ur_world r) c \<and> c \<notin> ur_stopped r \<longrightarrow> (\<exists>fd sp. tab inner (ur_world r) t = Some (Waiting c fd sp False))) \<and>
    msgs inner (ur_world r) = map snd (drop (ur_taken r) (ur_sent r)) \<and>
    (\<forall>xs c s ys. ur_sent r = xs @ (c, s) # ys \<and> is_cancel X s \<longrightarrow> (\<exists>q. latest (unat (sq_tag s)) xs = Some (c, q) \<and> \<not> is_cancel X q)) \<and>
    (\<forall>r' c t a. user_step X M F inner r r' \<and> holds_tag (ur_phase r c) t \<and> tab inner (ur_world r) t = Some (Responded a) \<longrightarrow>
       tab inner (ur_world r') t = Some (Responded a) \<or> (ur_phase r' c = Outside \<and> tab inner (ur_world r') t = None))"
proof -
  note i = user_reach_inv [OF assms]
  have a: "tab inner (ur_world r') t = Some (Responded a) \<or> (ur_phase r' c = Outside \<and> tab inner (ur_world r') t = None)"
    if "user_step X M F inner r r'" "holds_tag (ur_phase r c) t" "tab inner (ur_world r) t = Some (Responded a)" for r' c t a
    using ucalls.answer_kept [of X M F inner r r' t a c] i that by (simp add: abs_calls_def)
  have b: "\<exists>fd sp. tab inner (ur_world r) t = Some (Waiting c fd sp False)" if "ur_phase r c = Parked t False" "asleep (ur_world r) c" "c \<notin> ur_stopped r" for c t
    using calls_invD(7) [OF i(2), of c t] that by (simp add: abs_calls_def)
  have c: "\<exists>q. latest (unat (sq_tag s)) xs = Some (c, q) \<and> \<not> is_cancel X q" if "ur_sent r = xs @ (c, s) # ys" "is_cancel X s" for xs c s ys
    using i(3) that unfolding sent_inv_def cancels_ok_def by (simp add: abs_calls_def)
  have d: "(\<exists>c. holds_tag (ur_phase r c) t) \<or> t \<in> ur_lost r \<or> (\<exists>d. s = FmapState d)" if "tab inner (ur_world r) t = Some s" for t s
    using calls_invD(6) [OF i(2), of t s] that by (simp add: abs_calls_def)
  have e: "c = d" if "holds_tag (ur_phase r c) t" "holds_tag (ur_phase r d) t" for c d t
    using calls_invD(3) [OF i(2), of c t d] that by (simp add: abs_calls_def)
  have f: "leaks inner r t" if "user_step X M F inner r r'" "t \<in> ur_lost r' - ur_lost r" for r' t
    using user_step_lost that by blast
  show ?thesis using a b c d e f i(4) unfolding queue_ok_def by blast
qed

section \<open>The old protocol\<close>

text \<open>
  C32: The tag survives the way through the old protocol: the reply to a translated request, under its packet id,
  is parsed as the response to that tag, and a cancellation names the tag of the request it cancels.
\<close>

theorem packet_reply_tag:
  assumes "translate_sqe_to_packet X s w = Inr (w', Inr p)"
  shows "(op_of_raw X (sq_opcode s) \<noteq> Some OpCancel \<longrightarrow> (\<forall>reply. pk_id reply = pk_id p \<and> demux X (pk_a reply) \<noteq> Inl ESKMSG \<longrightarrow>
      parse_packet X reply = Inr (RegularResponse (sq_tag s) (pk_a reply) 0))) \<and>
    (op_of_raw X (sq_opcode s) = Some OpCancel \<longrightarrow> pk_id p = 0 \<and> pk_a p = code_num X KSMSG_CANCEL \<and> ucast (pk_b p) = sq_tag s)"
proof -
  obtain op where op: "op_of_raw X (sq_opcode s) = Some op" using assms by (cases "op_of_raw X (sq_opcode s)") (simp_all add: translate_sqe_to_packet_def)
  have "(ucast (sq_tag s) + 1 :: usize) = of_nat (Suc (unat (sq_tag s)))" by simp
  moreover have "Suc (unat (sq_tag s)) < 2 ^ 64" using unsigned_less [of "sq_tag s", where 'a = nat] by simp
  ultimately have n: "ucast (sq_tag s) + 1 \<noteq> (0 :: usize)" by (simp only: word_of_nat_eq_0_iff) (auto dest: dvd_imp_le)
  have u: "ucast (ucast (sq_tag s) :: usize) = sq_tag s" by (rule bit_word_eqI) (simp add: bit_ucast_iff)
  show ?thesis
  proof (cases "op = OpCancel")
    case True
    show ?thesis using assms op True u by (auto simp: translate_sqe_to_packet_def plain_code_def offset_code_def Let_def)
  next
    case False
    then have "pk_id p = ucast (sq_tag s) + 1" using assms op by (auto simp: translate_sqe_to_packet_def Let_def split: option.splits)
    then show ?thesis using op False n u by (auto simp: parse_packet_def Let_def)
  qed
qed

section \<open>A wake-up that is lost\<close>

text \<open>Waking contexts does not touch one that runs.\<close>

lemma unblock_running: "sc_ctx S c = Some x \<Longrightarrow> ctx_status x = Runnable \<Longrightarrow> sc_ctx (unblock_ref d S) c = Some x"
  by (auto simp: unblock_ref_def ctx_unblock_def unblock_no_ipi_def is_soft_blocked_def split: option.splits)

lemma fold_unblock_running: "sc_ctx S c = Some x \<Longrightarrow> ctx_status x = Runnable \<Longrightarrow> sc_ctx (fold unblock_ref ds S) c = Some x"
  by (induction ds arbitrary: S) (auto simp: unblock_running)

lemma queue_send_running: "sc_ctx (ew_sched w) c = Some x \<Longrightarrow> ctx_status x = Runnable \<Longrightarrow> sc_ctx (ew_sched (queue_send q e w)) c = Some x"
  by (auto simp: queue_send_def wq_send_def wq_push_def wd_notify_def wc_notify_def Let_def fold_unblock_running split: option.splits)

lemma trigger_list_running: "sc_ctx (ew_sched w) c = Some x \<Longrightarrow> ctx_status x = Runnable \<Longrightarrow> sc_ctx (ew_sched (trigger_list qs fl w)) c = Some x"
  by (induction qs fl w rule: trigger_list.induct) (auto simp: queue_send_running Let_def)

lemma post_running:
  assumes "sc_ctx (usched w) c = Some x" "ctx_status x = Runnable"
  shows "sc_ctx (usched (post inner s w)) c = Some x"
proof -
  have "sc_ctx (usched (todo_send inner s w)) c = Some x" using assms
    by (auto simp: todo_send_def put_todo_def todo_data_def wq_send_def wq_push_def wd_notify_def wc_notify_def fold_unblock_running split: prod.splits)
  then show ?thesis using assms(2) trigger_list_running [where x = x and c = c]
    by (auto simp: post_def event_trigger_def Let_def trigger_def split: option.splits)
qed

lemma respond_plain_sched:
  assumes "respond X M F K inner tag a w = Inr (w', Inr ())" "tab inner w (unat tag) = Some (Waiting d None sp k)" "alive w d"
  shows "usched w' = unblock_ref d (usched w)" "tab inner w' = (tab inner w)(unat tag \<mapsto> Responded (no_early_eintr X k a))"
proof -
  let ?v = "put_state inner (unat tag) (Responded (no_early_eintr X k a)) (upd_sched (unblock_ref d) w)"
  have "bindM current_space (\<lambda>s. bindM (spaceM (munmap M F s sp True)) (\<lambda>_. retM ())) ?v = Inr (w', Inr ())"
    using assms by (auto simp: respond_def respond_core_def finish_close_def tab_def take_last_def wake_caller_def alive_def bindM_Inr_iff)
  then obtain m where "w' = upd_ux (\<lambda>x. x\<lparr>ux_mem := m\<rparr>) ?v" by (auto simp: bindM_Inr_iff current_space_def ok_orM_def spaceM_def bindE_Inr_iff split: option.splits)
  then show "usched w' = unblock_ref d (usched w)" "tab inner w' = (tab inner w)(unat tag \<mapsto> Responded (no_early_eintr X k a))"
    using calm_fields(3) [of inner ?v m] by (simp_all add: calm_def)
qed

text \<open>
  C33: The wake-up of an answer can be lost.  A caller that a signal has woken marks its call as cancelled, releases
  the table, posts the cancellation and only then blocks.  When the server answers in between, the answer is in
  the table but the caller sleeps, and any further answer is refused without waking it.
\<close>

theorem cancel_lost_wakeup:
  assumes "sc_ctx (usched w) c = Some x" "ctx_status x = Runnable" "\<not> ctx_being_sigkilled x"
    and "tab inner w t = Some (Waiting c None sp False)" "t < 2 ^ 32"
    and poll: "call_poll inner t span (as_ctx c w) = Inr (w1, Inr (span', p))"
    and answer: "respond X M F K inner (of_nat t) a (as_ctx srv w1) = Inr (w2, Inr ())"
    and w3: "w3 = block_caller ''UserInner::call'' (as_ctx c (post inner (cancel_sqe X t) (as_ctx c w2)))"
  shows "p = PollCancel \<and> asleep w3 c \<and> tab inner w3 t = Some (Responded a) \<and>
    (\<forall>b w4 r srv. respond X M F K inner (of_nat t) b (as_ctx srv w3) = Inr (w4, r) \<longrightarrow> r = Inl (Err EINVAL) \<and> asleep w4 c)"
proof -
  have u: "unat (of_nat t :: 32 word) = t" using assms(5) by (simp add: unat_of_nat take_bit_eq_mod)
  have k: "\<not> being_sigkilled (as_ctx c w)" using assms(1,3) by (simp add: being_sigkilled_def as_ctx_def)
  have p: "w1 = put_state inner t (Waiting c None sp True) (as_ctx c w)" "p = PollCancel"
    using poll k assms(4) as_ctx_view(5) [of inner c w] by (auto simp: call_poll_def tab_def)
  have x1: "sc_ctx (usched (as_ctx srv w1)) c = Some x" using p(1) assms(1) by (simp add: as_ctx_def)
  have t1: "tab inner (as_ctx srv w1) (unat (of_nat t :: 32 word)) = Some (Waiting c None sp True)" using p(1) u by simp
  have a1: "alive (as_ctx srv w1) c" using x1 by (simp add: alive_def as_ctx_def)
  note r = respond_plain_sched [OF answer t1 a1]
  have t2: "tab inner w2 t = Some (Responded a)" using r(2) u by (cases a) (simp_all add: no_early_eintr_def)
  have x2: "sc_ctx (usched (as_ctx c w2)) c = Some x" using r(1) unblock_running [OF x1 assms(2)] by (simp add: as_ctx_def)
  have x3: "sc_ctx (usched (as_ctx c (post inner (cancel_sqe X t) (as_ctx c w2)))) c = Some x" using post_running [OF x2 assms(2)] by (simp add: as_ctx_def)
  have s3: "asleep w3 c" using x3 assms(2) unfolding w3 by (simp add: block_caller_def soft_blocked_def ctx_block_def is_runnable_def)
  have t3: "tab inner w3 t = Some (Responded a)" unfolding w3 using t2 by (simp add: post_view)
  have "r = Inl (Err EINVAL) \<and> asleep w4 c" if "respond X M F K inner (of_nat t) b (as_ctx s w3) = Inr (w4, r)" for b w4 r s
  proof -
    have "bindM (bindM (drop_response b) (\<lambda>_. errM (Err EINVAL))) (finish_close K) (as_ctx s w3) = Inr (w4, r)"
      using that t3 u as_ctx_view(5) [of inner s w3] by (simp add: respond_def respond_core_def tab_def bindM_def [of _ "finish_close K"])
    then have "r = Inl (Err EINVAL)" "usched w4 = usched (as_ctx s w3)" by (auto simp: drop_response_def drop_fd_def release_def split: option.splits)
    then show ?thesis using s3 by (simp add: as_ctx_def soft_blocked_def)
  qed
  then show ?thesis using p(2) s3 t3 by blast
qed

section \<open>A concrete scheme\<close>

definition known_ops :: "opcode list" where
  "known_ops = [OpOpen, OpRmdir, OpUnlink, OpClose, OpDup, OpRead, OpWrite, OpFsize, OpFchmod, OpFchown, OpFcntl, OpFevent, OpSendfd, OpFpath,
     OpFrename, OpFstat, OpFstatvfs, OpFsync, OpFtruncate, OpFutimens, OpMmapPrep, OpRequestMmap, OpMunmap, OpGetdents, OpMremap, OpMsync, OpCancel, OpOther]"

fun op_number :: "opcode \<Rightarrow> 8 word" where
  "op_number OpOpen = 0" | "op_number OpRmdir = 1" | "op_number OpUnlink = 2" | "op_number OpClose = 3" | "op_number OpDup = 4" | "op_number OpRead = 5"
| "op_number OpWrite = 6" | "op_number OpFsize = 7" | "op_number OpFchmod = 8" | "op_number OpFchown = 9" | "op_number OpFcntl = 10" | "op_number OpFevent = 11"
| "op_number OpSendfd = 12" | "op_number OpFpath = 13" | "op_number OpFrename = 14" | "op_number OpFstat = 15" | "op_number OpFstatvfs = 16"
| "op_number OpFsync = 17" | "op_number OpFtruncate = 18" | "op_number OpFutimens = 19" | "op_number OpMmapPrep = 20" | "op_number OpRequestMmap = 21"
| "op_number OpMunmap = 22" | "op_number OpGetdents = 23" | "op_number OpMremap = 24" | "op_number OpMsync = 25" | "op_number OpCancel = 26" | "op_number OpOther = 27"

definition crates_example :: crate_ops where
  "crates_example = \<lparr>op_raw = op_number, op_of_raw = (\<lambda>n. find (\<lambda>op. op_number op = n) known_ops), cqe_op_of_raw = (\<lambda>n. if n = 0 then Some RespondRegular else None),
     code_num = (\<lambda>c. if c = KSMSG_CANCEL then 7 else 1), mux_err = (\<lambda>e. if e = EINTR then - 4 else - 5), demux = (\<lambda>n. if n = - 4 then Inl EINTR else Inr n),
     cqe_extra = (\<lambda>_. 0), OBTAINFD_ALL = 1, OBTAINFD_MANUAL = 1, EVENTS_ALL = 3, NEWFD_ALL = 1, NEWFD_POSITIONED = 1, SQE_SIZE = 64, CQE_SIZE = 16, PACKET_SIZE = 56,
     sqe_bytes = (\<lambda>_. []), packet_bytes = (\<lambda>_. []), cqe_of_bytes = (\<lambda>_. \<lparr>cq_flags = 0, cq_extra_raw = [0], cq_tag = 0, cq_result = 0\<rparr>),
     packet_of_bytes = (\<lambda>_. \<lparr>pk_id = 1, pk_pid = 0, pk_uid = 0, pk_gid = 0, pk_a = 0, pk_b = 0, pk_c = 0, pk_d = 0\<rparr>),
     map_bits = (\<lambda>_. 0), slab_vacant = (\<lambda>st. foldr (\<lambda>e n. max (Suc (fst e)) n) st 0)\<rparr>"

lemma crates_example_laws: "crate_laws crates_example"
proof -
  have "find (\<lambda>o'. op_number o' = op_number op) known_ops = Some op" for op by (cases op) (simp_all add: known_ops_def)
  moreover have "e \<in> set st \<Longrightarrow> fst e < foldr (\<lambda>e n. max (Suc (fst e)) n) st (0::nat)" for e :: "nat \<times> call_state" and st
    by (induction st) (auto simp: less_max_iff_disj)
  ultimately show ?thesis unfolding crate_laws_def crates_example_def by (auto simp: image_iff) (metis less_irrefl)
qed

definition inner_example :: user_inner where
  "inner_example = \<lparr>ui_root_id = 20, ui_scheme_id = 21, ui_v2 = True, ui_handle_id = 1, ui_name = ''disk''\<rparr>"

definition kscheme_example :: "(nat \<Rightarrow> (usize \<times> unit) option, unit) user_state kscheme" where
  "kscheme_example = \<lparr>k_open = (\<lambda>_ _ _ _. retM (SchemeLocal 0 True)), k_rmdir = (\<lambda>_ _ _. errM ENOENT), k_unlink = (\<lambda>_ _ _. errM ENOENT), k_close = (\<lambda>_ _. retM ()),
     k_dup = (\<lambda>_ _ _ _. errM EOPNOTSUPP), k_sendfd = (\<lambda>_ _ _ _ _. errM EOPNOTSUPP), k_fcntl = (\<lambda>_ _ _ _. retM 0), k_frename = (\<lambda>_ _ _ _. errM EBADF),
     k_fstat = (\<lambda>_ _ _. errM EBADF), k_legacy_seek = (\<lambda>_ _ _ _. retM None), k_fsize = (\<lambda>_ _. retM 100), k_readoff = (\<lambda>_ _ _ _ _ _. retM 0),
     k_writeoff = (\<lambda>_ _ _ _ _ _. retM 0), k_pass = (\<lambda>_ _ _. retM 0)\<rparr>"

text \<open>Context 7 calls; context 8 is the server, which has address space 0.\<close>

definition uworld_example :: "(nat \<times> call_state) list \<Rightarrow> (nat \<Rightarrow> (usize \<times> unit) option, unit) uworld" where
  "uworld_example st = \<lparr>fl_schemes = fl_schemes files_example,
     fl_procs = example_procs\<lparr>px_sched := \<lparr>sc_ctx = [7 \<mapsto> (Context_new 2 0)\<lparr>ctx_status := Runnable, ctx_running := True\<rparr>,
       8 \<mapsto> (Context_new 3 1)\<lparr>ctx_status := Runnable, ctx_addr_space := Some 0\<rparr>], sc_current = 7, sc_this_cpu = 0\<rparr>\<rparr>,
     fl_tables = (\<lambda>_. []), fl_desc = fl_desc files_example, fl_refs = (\<lambda>_. 0), fl_next_desc = 1, fl_events = fl_events files_example,
     fl_state = \<lparr>ux_states = (\<lambda>_. st), ux_todo = (\<lambda>_. ([], [])), ux_unmounting = (\<lambda>_. False), ux_context = (\<lambda>_. 8), ux_strong = (\<lambda>_. 1),
       ux_mem = flat_world example_used (\<lambda>_. None) UserGrants_new, ux_head = (\<lambda>_. None), ux_tail = (\<lambda>_. None), ux_fmap_ret = (\<lambda>_. None)\<rparr>\<rparr>"

definition run_example :: "(nat \<Rightarrow> (usize \<times> unit) option, unit) user_run" where
  "run_example = \<lparr>ur_world = uworld_example [], ur_phase = (\<lambda>_. Outside), ur_sent = [], ur_taken = 0, ur_lost = {}, ur_stopped = {}\<rparr>"

lemma uworld_example_fields [simp]:
  "ux_unmounting (fl_state (uworld_example st)) i = False" "states_of inner (uworld_example st) = st" "msgs inner (uworld_example st) = []"
  "sc_ctx (usched (uworld_example st)) 7 = Some ((Context_new 2 0)\<lparr>ctx_status := Runnable, ctx_running := True\<rparr>)"
  "sc_ctx (usched (uworld_example st)) 8 = Some ((Context_new 3 1)\<lparr>ctx_status := Runnable, ctx_addr_space := Some 0\<rparr>)"
  "ux_mem (fl_state (uworld_example st)) = flat_world example_used (\<lambda>_. None) UserGrants_new"
  by (simp_all add: uworld_example_def states_of_def msgs_def)

lemma run_example_start: "user_start inner_example run_example"
  by (simp add: user_start_def run_example_def uworld_example_def tab_def states_of_def msgs_def)

text \<open>A request is on its way.\<close>

definition sqe_example :: sqe where
  "sqe_example = call_sqe crates_example \<lparr>cc_pid = 2, cc_uid = 0, cc_gid = 0\<rparr> OpRead [] 0"

lemma sqe_example_fields: "sqe_example = \<lparr>sq_opcode = op_number OpRead, sq_oneway = False, sq_tag = 0, sq_args = replicate 6 0, sq_caller = 2\<rparr>"
  by (simp add: sqe_example_def call_sqe_def args6_def uid_gid_hack_merge_def crates_example_def numeral_eq_Suc upt_rec)

lemma sqe_example_tag: "sq_tag sqe_example = 0"
  by (simp add: sqe_example_def call_sqe_def)

lemma put_state_fields:
  "ux_unmounting (fl_state (put_state inner t st w)) = ux_unmounting (fl_state w)" "states_of inner (put_state inner t st w) = AList.update t st (states_of inner w)"
  "ux_mem (fl_state (put_state inner t st w)) = ux_mem (fl_state w)" "ux_unmounting (fl_state (block_caller m w)) = ux_unmounting (fl_state w)"
  by (simp_all add: put_state_def set_states_def upd_ux_def states_of_def block_caller_def)

lemma run_example_parked:
  fixes F :: "unit flag_ops"
  shows
  "\<exists>r. user_reach crates_example flat_mapper F inner_example r \<and> ur_phase r 7 = Parked 0 False \<and> ur_sent r = [(7, sqe_example)] \<and>
     ur_taken r = 0 \<and> ur_stopped r = {} \<and> msgs inner_example (ur_world r) = [sqe_example]"
proof -
  let ?S = "user_step crates_example (flat_mapper :: (nat \<Rightarrow> (usize \<times> unit) option, unit) mapper_ops) F inner_example"
  let ?w0 = "as_ctx 7 (uworld_example [])"
  let ?w1 = "put_state inner_example 0 Placeholder ?w0"
  let ?r1 = "run_example\<lparr>ur_world := ?w1, ur_phase := (\<lambda>_. Outside)(7 := Reserved 0), ur_lost := {}\<rparr>"
  have n: "next_id crates_example inner_example ?w0 = Inr (?w1, Inr 0)"
    by (simp add: next_id_def) (simp add: crates_example_def uworld_example_def states_of_def)
  have 1: "?S run_example ?r1"
    using user_step.reserve [of run_example 7 crates_example inner_example ?w1 0 flat_mapper F] n
    by (simp add: run_example_def alive_def uworld_example_def)
  let ?w2 = "put_state inner_example 0 (Waiting 7 None PageSpan_empty False) (block_caller ''UserScheme::call'' (as_ctx 7 ?w1))"
  let ?r2 = "?r1\<lparr>ur_world := ?w2, ur_phase := (\<lambda>_. Outside)(7 := Posting 0 sqe_example), ur_stopped := {}\<rparr>"
  have b: "call_begin inner_example None sqe_example (as_ctx 7 ?w1) = Inr (?w2, Inr ())"
    by (simp add: call_begin_def sqe_example_tag put_state_fields bindM_def)
  have 2: "?S ?r1 ?r2"
    using user_step.enter [of ?r1 7 0 OpRead sqe_example crates_example "\<lparr>cc_pid = 2, cc_uid = 0, cc_gid = 0\<rparr>" "[]" inner_example None ?w2 flat_mapper F] b
    by (simp add: sqe_example_def) (simp add: run_example_def)
  let ?r3 = "?r2\<lparr>ur_world := post inner_example sqe_example (as_ctx 7 ?w2), ur_phase := (\<lambda>_. Outside)(7 := Parked 0 False), ur_sent := [(7, sqe_example)]\<rparr>"
  have 3: "?S ?r2 ?r3"
    using user_step.send [of ?r2 7 0 sqe_example crates_example flat_mapper F inner_example] by (simp add: run_example_def)
  have "?S\<^sup>*\<^sup>* run_example ?r3" using 1 2 3 by (meson converse_rtranclp_into_rtranclp r_into_rtranclp)
  then have "user_reach crates_example flat_mapper F inner_example ?r3"
    using run_example_start crates_example_laws unfolding user_reach_def by blast
  moreover have "msgs inner_example (ur_world ?r3) = [sqe_example]" by (simp add: post_view)
  ultimately show ?thesis by (intro exI [of _ ?r3]) (simp add: run_example_def)
qed

section \<open>Witnesses\<close>

theorem user_calls_safe_witness:
  "\<exists>r :: (nat \<Rightarrow> (usize \<times> unit) option, unit) user_run. ur_phase r 7 = Parked 0 False \<and> msgs inner_example (ur_world r) = [sqe_example] \<and>
     (\<forall>d. holds_tag (ur_phase r d) 0 \<longrightarrow> d = 7) \<and>
     (asleep (ur_world r) 7 \<longrightarrow> (\<exists>fd sp. tab inner_example (ur_world r) 0 = Some (Waiting 7 fd sp False)))"
proof -
  obtain r :: "(nat \<Rightarrow> (usize \<times> unit) option, unit) user_run" where r: "user_reach crates_example flat_mapper undefined inner_example r" "ur_phase r 7 = Parked 0 False" "ur_stopped r = {}"
    "msgs inner_example (ur_world r) = [sqe_example]" using run_example_parked by blast
  have h: "holds_tag (ur_phase r 7) 0" using r(2) by simp
  note S = user_calls_safe [OF r(1)]
  have "\<forall>d. holds_tag (ur_phase r d) 0 \<longrightarrow> d = 7" using conjunct1 [OF S] h by blast
  moreover have "asleep (ur_world r) 7 \<longrightarrow> (\<exists>fd sp. tab inner_example (ur_world r) 0 = Some (Waiting 7 fd sp False))" 
    using S [THEN conjunct2, THEN conjunct2, THEN conjunct2, THEN conjunct1] r(2,3) by blast
  ultimately show ?thesis using r(2,4) by (intro exI [of _ r]) simp
qed

theorem packet_reply_tag_witness:
  "parse_packet crates_example \<lparr>pk_id = 6, pk_pid = 0, pk_uid = 0, pk_gid = 0, pk_a = 12, pk_b = 0, pk_c = 0, pk_d = 0\<rparr> = Inr (RegularResponse 5 12 0)"
proof -
  let ?s = "sqe_example\<lparr>sq_tag := 5\<rparr>"
  let ?p = "\<lparr>pk_id = 6, pk_pid = 2, pk_uid = 0, pk_gid = 0, pk_a = 1, pk_b = 0, pk_c = 0, pk_d = 0\<rparr>"
  let ?w = "uworld_example []"
  have o: "op_of_raw crates_example (sq_opcode ?s) = Some OpRead" by (simp add: sqe_example_fields crates_example_def known_ops_def)
  have "translate_sqe_to_packet crates_example ?s ?w = Inr (?w, Inr ?p)"
    unfolding translate_sqe_to_packet_def o by (simp add: plain_code_def Let_def) (simp add: sqe_example_fields crates_example_def nth_Cons' numeral_eq_Suc)
  from packet_reply_tag [OF this] show ?thesis using o by (simp add: sqe_example_fields) (simp add: crates_example_def)
qed

lemma munmap_nothing:
  assumes "\<not> w_locked v s" "UserGrants_conflicts (as_grants (w_spaces v s)) PageSpan_empty = []"
  shows "\<exists>v'. munmap M F s PageSpan_empty True v = Inr (v', Inr [])"
  using assms by (simp add: munmap_def with_lockM_def acquireM_def with_flusherM_def new_flusherM_def munmap_inner_def PageSpan_empty_def grantsM_def munmap_next_def
      finallyM_def drop_flusher_def flushM_def Flusher_flush_def Flusher_with_cpu_set_def)

theorem cancel_lost_wakeup_witness:
  "\<exists>w. asleep w 7 \<and> tab inner_example (w :: (nat \<Rightarrow> (usize \<times> unit) option, unit) uworld) 0 = Some (Responded (Regular 3 0))"
proof -
  let ?w = "uworld_example [(0, Waiting 7 None PageSpan_empty False)]"
  let ?w1 = "put_state inner_example 0 (Waiting 7 None PageSpan_empty True) (as_ctx 7 ?w)"
  have s: "sc_ctx (usched ?w) 7 = Some ((Context_new 2 0)\<lparr>ctx_status := Runnable, ctx_running := True\<rparr>)" by (simp add: uworld_example_def)
  have t: "tab inner_example ?w 0 = Some (Waiting 7 None PageSpan_empty False)" by (simp add: uworld_example_def tab_def states_of_def)
  have p: "call_poll inner_example 0 PageSpan_empty (as_ctx 7 ?w) = Inr (?w1, Inr (PageSpan_empty, PollCancel))"
    using t s by (simp add: call_poll_def tab_def being_sigkilled_def as_ctx_def) (simp add: Context_new_def)
  have "\<exists>w2. respond crates_example flat_mapper undefined kscheme_example inner_example (of_nat 0) (Regular 3 0) (as_ctx 8 ?w1) = Inr (w2, Inr ())"
  proof -
    let ?v = "flat_world example_used (\<lambda>_. None) UserGrants_new :: (nat \<Rightarrow> (usize \<times> unit) option, unit) world"
    have "UserGrants_conflicts (as_grants (w_spaces ?v 0)) PageSpan_empty = []" "\<not> w_locked ?v 0"
      by (simp_all add: flat_world_def UserGrants_new_def UserGrants_conflicts_def bt_range_from_def)
    then obtain v' where v': "munmap flat_mapper undefined 0 PageSpan_empty True ?v = Inr (v', Inr [])" using munmap_nothing by blast
    have u: "map_of (states_of inner_example (as_ctx 8 ?w1)) 0 = Some (Waiting 7 None PageSpan_empty True)" by (simp add: put_state_fields)
    show ?thesis using u
      by (simp add: respond_def respond_core_def finish_close_def take_last_def wake_caller_def current_space_def spaceM_def v' put_state_fields as_ctx_def unblock_ref_def ctx_unblock_def)
  qed
  then obtain w2 where "respond crates_example flat_mapper undefined kscheme_example inner_example (of_nat 0) (Regular 3 0) (as_ctx 8 ?w1) = Inr (w2, Inr ())" by blast
  from cancel_lost_wakeup [OF s _ _ t _ p this refl] show ?thesis by (auto simp: Context_new_def)
qed

end
