(* ===== verification/Memory_Calls.thy ===== *)
theory Memory_Calls
  imports Munmap_Correct
begin

text \<open>
  The system calls on the memory of a process (\<open>funmap\<close> and \<open>mremap\<close> in \<open>src/src/syscall/fs.rs\<close>, \<open>mprotect\<close> in
  \<open>src/src/syscall/process.rs\<close>) and the scheme that gives out anonymous and physical memory
  (\<open>src/src/scheme/memory.rs\<close>).
\<close>

unbundle bit_operations_syntax

section \<open>Calls on the own address space\<close>

definition funmap :: "('m, 'f) mapper_ops \<Rightarrow> 'f flag_ops \<Rightarrow> ('m, 'f) fmap_env \<Rightarrow> nat \<Rightarrow> nat \<Rightarrow> ('m, 'f, nat) kprog" where
  "funmap M F E virtual_address len =
     (let length_aligned = round_up_pages len in
      bindM AddrSpace_current (\<lambda>addr_space.
      bindM (ok_orM (PageSpan_validate_nonempty virtual_address length_aligned) EINVAL) (\<lambda>span.
      bindM (munmap M F addr_space span False) (\<lambda>notify.
      bindM (handle_notify_files E notify) (\<lambda>_.
        retM 0)))))"

text \<open>The bits of \<open>MapFlags\<close> and \<open>MremapFlags\<close> in the system call crate.\<close>

record mremap_bits =
  mb_map_flags :: "usize \<Rightarrow> map_flags"
  mb_fixed :: "usize \<Rightarrow> bool"
  mb_fixed_replace :: "usize \<Rightarrow> bool"

definition mremap_flags :: "mremap_bits \<Rightarrow> usize \<Rightarrow> map_flags" where
  "mremap_flags B flags =
     (let prot = mb_map_flags B flags in
      \<lparr>PROT_READ = PROT_READ prot, PROT_WRITE = PROT_WRITE prot, PROT_EXEC = PROT_EXEC prot, MAP_SHARED = False, MAP_PRIVATE = False,
       MAP_FIXED = mb_fixed_replace B flags, MAP_FIXED_NOREPLACE = (\<not> mb_fixed_replace B flags \<and> mb_fixed B flags), MAP_LAZY = False\<rparr>)"

text \<open>The vector of files to tell is a temporary one, which is dropped.\<close>

definition mremap ::
    "('m, 'f) mapper_ops \<Rightarrow> 'f flag_ops \<Rightarrow> mremap_bits \<Rightarrow> nat \<Rightarrow> nat \<Rightarrow> nat \<Rightarrow> nat \<Rightarrow> usize \<Rightarrow> ('m, 'f, nat) kprog" where
  "mremap M F B old_address old_size new_address new_size flags =
     (if old_address mod PAGE_BYTES \<noteq> 0 \<or> old_size mod PAGE_BYTES \<noteq> 0 \<or> new_address mod PAGE_BYTES \<noteq> 0 \<or> new_size mod PAGE_BYTES \<noteq> 0
      then errM EINVAL
      else if old_size = 0 \<or> new_size = 0 then errM EINVAL
      else
        let old_base = Page_containing_address old_address; new_base = Page_containing_address new_address in
        bindM AddrSpace_current (\<lambda>addr_space.
        let src_span = PageSpan_new old_base ((old_size + PAGE_BYTES - 1) div PAGE_BYTES);
            new_page_count = (new_size + PAGE_BYTES - 1) div PAGE_BYTES;
            requested_dst_base = (if new_address \<noteq> 0 then Some new_base else None) in
        bindM (modM (\<lambda>w. w\<lparr>w_notify := []\<rparr>)) (\<lambda>_.
        bindM (AddrSpace_move M F addr_space None src_span requested_dst_base new_page_count (mremap_flags B flags)) (\<lambda>base.
          retM (Page_start_address base)))))"

definition mprotect_call :: "('m, 'f) mapper_ops \<Rightarrow> 'f flag_ops \<Rightarrow> nat \<Rightarrow> nat \<Rightarrow> map_flags \<Rightarrow> ('m, 'f, unit) kprog" where
  "mprotect_call M F address size' flags =
     bindM (ok_orM (PageSpan_validate_nonempty address size') EINVAL) (\<lambda>span.
     bindM AddrSpace_current (\<lambda>s. mprotect M F s span flags))"

section \<open>Handles of the memory scheme\<close>

datatype handle_ty = HandleAllocated | PhysBorrow
datatype memory_type = Writeback | Uncacheable | WriteCombining | DeviceMemory

text \<open>The only handle flag is \<open>PHYS_CONTIGUOUS\<close>.\<close>

definition mem_from_raw :: "32 word \<Rightarrow> (handle_ty \<times> memory_type \<times> bool) option" where
  "mem_from_raw raw =
     (let ty = raw AND 0xFF; mem = drop_bit 8 raw AND 0xFF in
      Option.bind (if ty = 0 then Some HandleAllocated else if ty = 1 then Some PhysBorrow else None) (\<lambda>ty.
      Option.bind (if mem = 0 then Some Writeback else if mem = 1 then Some Uncacheable else if mem = 2 then Some WriteCombining
                   else if mem = 3 then Some DeviceMemory else None) (\<lambda>mem.
        Some (ty, mem, bit (drop_bit 16 raw) 0))))"

definition ty_number :: "handle_ty \<Rightarrow> usize" where
  "ty_number ty = (case ty of HandleAllocated \<Rightarrow> 0 | PhysBorrow \<Rightarrow> 1)"

definition mem_number :: "memory_type \<Rightarrow> usize" where
  "mem_number m = (case m of Writeback \<Rightarrow> 0 | Uncacheable \<Rightarrow> 1 | WriteCombining \<Rightarrow> 2 | DeviceMemory \<Rightarrow> 3)"

definition mem_handle :: "handle_ty \<Rightarrow> memory_type \<Rightarrow> bool \<Rightarrow> usize" where
  "mem_handle ty m contiguous = ty_number ty OR push_bit 8 (mem_number m) OR push_bit 16 (of_bool contiguous)"

text \<open>\<open>str::split_once\<close> with the default of the source, and \<open>str::split\<close>.\<close>

definition split_once_or :: "char \<Rightarrow> string \<Rightarrow> string \<times> string" where
  "split_once_or c s =
     (case dropWhile (\<lambda>x. x \<noteq> c) s of [] \<Rightarrow> (s, '''') | _ # t \<Rightarrow> (takeWhile (\<lambda>x. x \<noteq> c) s, t))"

fun split_on :: "char \<Rightarrow> string \<Rightarrow> string list" where
  "split_on c [] = [[]]"
| "split_on c (x # s) =
     (if x = c then [] # split_on c s
      else case split_on c s of [] \<Rightarrow> [[x]] | t # ts \<Rightarrow> (x # t) # ts)"

definition parse_handle_ty :: "string \<Rightarrow> handle_ty option" where
  "parse_handle_ty s =
     (if s = '''' \<or> s = ''zeroed'' then Some HandleAllocated else if s = ''physical'' then Some PhysBorrow else None)"

definition parse_mem_ty :: "string \<Rightarrow> memory_type option" where
  "parse_mem_ty s =
     (if s = '''' \<or> s = ''wb'' then Some Writeback else if s = ''wc'' then Some WriteCombining
      else if s = ''uc'' then Some Uncacheable else if s = ''dev'' then Some DeviceMemory else None)"

definition parse_handle_flags :: "string \<Rightarrow> bool option" where
  "parse_handle_flags s =
     (let parts = filter (\<lambda>t. t \<noteq> '''') (split_on CHR '','' s)
      in if list_all (\<lambda>t. t = ''phys_contiguous'') parts then Some (parts \<noteq> []) else None)"

definition mem_kopen :: "string \<Rightarrow> nat \<Rightarrow> (errno, usize) sum" where
  "mem_kopen path uid =
     (if 64 < length path then Inl ENOENT
      else
        let path = dropWhile (\<lambda>c. c = CHR ''/'') path;
            (before_memty, memty_str) = split_once_or CHR ''@'' path;
            (before_ty, type_str) = split_once_or CHR ''?'' memty_str in
        case parse_handle_ty before_memty of None \<Rightarrow> Inl ENOENT
        | Some handle_ty \<Rightarrow>
        (case parse_mem_ty before_ty of None \<Rightarrow> Inl ENOENT
        | Some mem_ty \<Rightarrow>
        (case parse_handle_flags type_str of None \<Rightarrow> Inl ENOENT
        | Some flags \<Rightarrow>
            if uid \<noteq> 0 \<and> (flags \<or> (handle_ty, mem_ty) \<noteq> (HandleAllocated, Writeback)) then Inl EACCES
            else Inr (mem_handle handle_ty mem_ty flags))))"

section \<open>Mapping\<close>

record map_args =
  ma_offset :: nat
  ma_size :: nat
  ma_flags :: map_flags
  ma_address :: nat

definition fmap_anonymous ::
    "('m, 'f) mapper_ops \<Rightarrow> 'f flag_ops \<Rightarrow> ('m, 'f) fmap_env \<Rightarrow> space_id \<Rightarrow> map_args \<Rightarrow> bool \<Rightarrow> ('m, 'f, nat) kprog" where
  "fmap_anonymous M F E s ma is_phys_contiguous =
     bindM (ok_orM (PageSpan_validate_nonempty (ma_address ma) (ma_size ma)) EINVAL) (\<lambda>span.
     if ps_count span = 0 then errM EINVAL
     else if is_phys_contiguous \<and> MAP_SHARED (ma_flags ma) then errM EOPNOTSUPP
     else
       bindM (modM (\<lambda>w. w\<lparr>w_notify := []\<rparr>)) (\<lambda>_.
       bindM (with_lockM s (mmap M F s (if ma_address ma \<noteq> 0 then Some (ps_base span) else None) (ps_count span) (ma_flags ma) (\<lambda>dst_page flags.
                let span = PageSpan_new dst_page (ps_count span) in
                if is_phys_contiguous then zeroed_phys_contiguous M s span flags
                else zeroed M F s span flags (MAP_SHARED (ma_flags ma))))) (\<lambda>page.
       bindM (getM w_notify) (\<lambda>notify_files.
       bindM (handle_notify_files E notify_files) (\<lambda>_.
         retM (Page_start_address page))))))"

text \<open>The bits of a page table entry that select the memory type.\<close>

record 'f cache_bits =
  cb_huge_page :: "'f \<Rightarrow> 'f"
  cb_no_cache :: "'f \<Rightarrow> 'f"

definition memory_type_flags :: "'f cache_bits \<Rightarrow> memory_type \<Rightarrow> 'f \<Rightarrow> 'f" where
  "memory_type_flags B m f = (case m of
     Writeback \<Rightarrow> f | WriteCombining \<Rightarrow> cb_huge_page B f | Uncacheable \<Rightarrow> cb_no_cache B f | DeviceMemory \<Rightarrow> f)"

definition physmap_call ::
    "('m, 'f) mapper_ops \<Rightarrow> 'f flag_ops \<Rightarrow> 'f cache_bits \<Rightarrow> nat \<Rightarrow> nat \<Rightarrow> map_flags \<Rightarrow> memory_type \<Rightarrow> ('m, 'f, nat) kprog" where
  "physmap_call M F B physical_address size' flags mem_ty =
     (if u_sat_add physical_address size' > 2 ^ 52 \<or> physical_address mod PAGE_BYTES \<noteq> 0 then errM EINVAL
      else if size' mod PAGE_BYTES \<noteq> 0 then errM EINVAL
      else if (size' + PAGE_BYTES - 1) div PAGE_BYTES = 0 then errM EINVAL
      else
        let page_count = (size' + PAGE_BYTES - 1) div PAGE_BYTES in
        bindM AddrSpace_current (\<lambda>s.
        bindM (with_lockM s (mmap_anywhere M F s page_count flags (\<lambda>dst_page page_flags.
                 bindM (containingM (of_nat physical_address)) (\<lambda>phys.
                   physmap M F s (FlusherOf s) phys (PageSpan_new dst_page page_count) (memory_type_flags B mem_ty page_flags))))) (\<lambda>base_page.
          retM (Page_start_address base_page))))"

definition mem_kfmap ::
    "('m, 'f) mapper_ops \<Rightarrow> 'f flag_ops \<Rightarrow> ('m, 'f) fmap_env \<Rightarrow> 'f cache_bits \<Rightarrow> usize \<Rightarrow> space_id \<Rightarrow> map_args \<Rightarrow> ('m, 'f, nat) kprog" where
  "mem_kfmap M F E B number s ma =
     bindM (ok_orM (if unat number < 2 ^ 32 then mem_from_raw (ucast number) else None) EBADF) (\<lambda>(handle_ty, mem_ty, contiguous).
     case handle_ty of
       HandleAllocated \<Rightarrow> fmap_anonymous M F E s ma contiguous
     | PhysBorrow \<Rightarrow> physmap_call M F B (ma_offset ma) (ma_size ma) (ma_flags ma) mem_ty)"

text \<open>The numbers in the answer to \<open>fstatvfs\<close>: size, number, and twice the number of free blocks.\<close>

definition mem_statvfs :: "allocator \<Rightarrow> usize \<times> usize \<times> usize \<times> usize" where
  "mem_statvfs a =
     (let used = used_frames a; free = free_frames a
      in (of_nat PAGE_BYTES, used + free, free, free))"

section \<open>Unmapping rounds up to whole pages\<close>

lemma round_up_pages_alt:
  assumes "len < USIZE_LIM"
  shows "round_up_pages len = (if len \<le> USIZE_LIM - 4096 then (len + 4095) div 4096 * 4096 else 0)"
proof -
  define q r where "q = len div 4096" and "r = len mod 4096"
  have len: "len = q * 4096 + r" and r: "r < 4096" by (simp_all add: q_def r_def)
  have lim: "USIZE_LIM = 2 ^ 52 * 4096" by (simp add: USIZE_LIM_def)
  have q: "q < 2 ^ 52" using assms unfolding len lim by linarith
  have up: "(len + 4095) div 4096 = (if r = 0 then q else q + 1)"
    by (rule div_nat_eqI) (use r in \<open>auto simp: len\<close>)
  show ?thesis
  proof (cases "r = 0")
    case True
    have "len \<le> USIZE_LIM - 4096" using q unfolding len lim True by linarith
    then show ?thesis using True up len by (simp add: round_up_pages_def)
  next
    case False
    have "u_add len (4096 - r) = (if q + 1 = 2 ^ 52 then 0 else (q + 1) * 4096)"
    proof -
      have "len + (4096 - r) = (q + 1) * 4096" using r by (simp add: len)
      moreover have "(q + 1) * 4096 < USIZE_LIM" if "q + 1 \<noteq> 2 ^ 52"
        using less_le_trans [of "q + 1" "2 ^ 52"] q that unfolding lim by simp
      ultimately show ?thesis by (simp add: u_add_def lim)
    qed
    moreover have "len \<le> USIZE_LIM - 4096 \<longleftrightarrow> q + 1 \<noteq> 2 ^ 52" using q r False unfolding len lim by linarith
    ultimately show ?thesis using False up by (simp add: round_up_pages_def r_def [symmetric])
  qed
qed

lemma pages_up:
  fixes len :: nat
  shows "len \<le> (len + 4095) div 4096 * 4096" "(len + 4095) div 4096 * 4096 < len + 4096"
  using div_mult_mod_eq [of "len + 4095" 4096] mod_less_divisor [of 4096 "len + 4095"] by linarith+

lemma pages_round:
  fixes a b len n :: nat
  assumes "len \<le> n * 4096" "n * 4096 < len + 4096"
  shows "a * 4096 + n * 4096 \<le> b * 4096 \<longleftrightarrow> a * 4096 + len \<le> b * 4096" "p < a + n \<longleftrightarrow> p * 4096 < a * 4096 + len"
proof -
  show "a * 4096 + n * 4096 \<le> b * 4096 \<longleftrightarrow> a * 4096 + len \<le> b * 4096" (is "?l \<longleftrightarrow> ?r")
  proof
    show ?r if ?l using that assms by linarith
    show ?l if ?r
    proof -
      have "(a + n) * 4096 < (b + 1) * 4096" using that assms by (simp add: add_mult_distrib)
      then have "a + n \<le> b" by simp
      then show ?thesis using mult_le_mono1 [of "a + n" b 4096] by (simp add: add_mult_distrib)
    qed
  qed
  show "p < a + n \<longleftrightarrow> p * 4096 < a * 4096 + len" (is "?l \<longleftrightarrow> ?r")
  proof
    show ?r if ?l
    proof -
      have "(p + 1) * 4096 \<le> (a + n) * 4096" using that by (intro mult_le_mono1) simp
      then show ?thesis using assms by (simp add: add_mult_distrib)
    qed
    show ?l if ?r
    proof -
      have "p * 4096 < (a + n) * 4096" using that assms by (simp add: add_mult_distrib)
      then show ?thesis by simp
    qed
  qed
qed

lemma validate_unmap:
  assumes "addr < USIZE_LIM" "len < USIZE_LIM"
  shows "PageSpan_validate_nonempty addr (round_up_pages len) =
    (if addr mod 4096 = 0 \<and> 0 < len \<and> addr + len \<le> USER_END_OFFSET then Some (PageSpan_new (addr div 4096) ((len + 4095) div 4096)) else None)"
proof -
  define n where "n = (len + 4095) div 4096"
  have n: "len \<le> n * 4096" "n * 4096 < len + 4096"
    unfolding n_def by (rule pages_up)+
  have ends: "USER_END_OFFSET = 2 ^ 35 * 4096" "USIZE_LIM = 2 ^ 52 * 4096" by (simp_all add: USER_END_OFFSET_def PML4_SIZE_def USIZE_LIM_def)
  have fit: "addr + n * 4096 \<le> USER_END_OFFSET \<longleftrightarrow> addr + len \<le> USER_END_OFFSET" if "addr mod 4096 = 0"
  proof -
    have "addr div 4096 * 4096 = addr" using div_mult_mod_eq [of addr 4096] that by simp
    then show ?thesis using pages_round(1) [OF n, of "addr div 4096" "2 ^ 35"] unfolding ends by simp
  qed
  show ?thesis
  proof (cases "len \<le> USIZE_LIM - 4096")
    case True
    then have "round_up_pages len = n * 4096" using round_up_pages_alt [OF assms(2)] by (simp add: n_def)
    moreover have "u_sat_add addr (n * 4096) > USER_END_OFFSET \<longleftrightarrow> addr + n * 4096 > USER_END_OFFSET"
      unfolding u_sat_add_def ends by auto
    moreover have "n = 0 \<longleftrightarrow> len = 0" using n by linarith
    ultimately show ?thesis using fit
      by (auto simp: PageSpan_validate_nonempty_def PageSpan_validate_def PageSpan_is_empty_def Page_containing_address_def n_def [symmetric])
  next
    case False
    then have "round_up_pages len = 0" "\<not> addr + len \<le> USER_END_OFFSET" using round_up_pages_alt [OF assms(2)] unfolding ends by simp_all
    then show ?thesis by (auto simp: PageSpan_validate_nonempty_def PageSpan_validate_def PageSpan_is_empty_def)
  qed
qed

lemma touched_pages:
  assumes "addr mod 4096 = (0 :: nat)"
  shows "span_set (PageSpan_new (addr div 4096) ((len + 4095) div 4096)) = {p. p * 4096 < addr + len \<and> addr < Suc p * 4096}"
proof -
  define a n where "a = addr div 4096" and "n = (len + 4095) div 4096"
  have a: "addr = a * 4096" using div_mult_mod_eq [of addr 4096] assms by (simp add: a_def)
  have "p < a + n \<longleftrightarrow> p * 4096 < a * 4096 + len" for p
    unfolding n_def by (rule pages_round(2) [OF pages_up])
  moreover have "a * 4096 < Suc p * 4096 \<longleftrightarrow> a \<le> p" for p by (simp only: mult_less_cancel2) auto
  moreover have "span_set (PageSpan_new a n) = {p. a \<le> p \<and> p < a + n}" by (auto simp: span_set_def)
  ultimately show ?thesis unfolding a_def [symmetric] n_def [symmetric] unfolding a by blast
qed

text \<open>C38: Unmapping by address and length in a quiescent address space (unlocked, with balanced books) where the
  grants that meet the range are ordinary ones.  It concerns whole pages: every page that holds a byte of the range
  loses its grant and its translation, all other pages keep theirs, and the books of the address space stay balanced,
  before any scheme is told.  A range that is empty, not aligned at its start or not below the end of user space is
  refused without any change, whatever the length is, also when rounding it up wraps around.  Nothing is claimed when
  a grant in the range is pinned: the loop then unmaps the grants before it and fails with \<open>EBUSY\<close>.\<close>

theorem funmap_exact:
  assumes "mapper_laws M" "mapper_frees M tabs" "quiescent M tabs D T ext R s w U" "w_current w = Some s"
    and "addr < USIZE_LIM" "len < USIZE_LIM"
    and "plain_on {p. p * 4096 < addr + len \<and> addr < Suc p * 4096} (as_grants (w_spaces w s))"
  shows "if addr mod 4096 = 0 \<and> 0 < len \<and> addr + len \<le> USER_END_OFFSET
    then \<exists>w1 notify U'. funmap M F E addr len w = bindM (handle_notify_files E notify) (\<lambda>_. retM 0) w1 \<and>
      gone M s {p. p * 4096 < addr + len \<and> addr < Suc p * 4096} w w1 \<and> quiescent M tabs D T ext R s w1 U'
    else funmap M F E addr len w = Inr (w, Inl EINVAL)"
proof (cases "addr mod 4096 = 0 \<and> 0 < len \<and> addr + len \<le> USER_END_OFFSET")
  case True
  let ?sp = "PageSpan_new (addr div 4096) ((len + 4095) div 4096)"
  have t: "span_set ?sp = {p. p * 4096 < addr + len \<and> addr < Suc p * 4096}" using touched_pages [of addr len] True by simp
  have "(addr div 4096 + (len + 4095) div 4096) * 4096 < addr + len + 4096"
    using add_le_less_mono [OF div_times_less_eq_dividend [of addr 4096] pages_up(2) [of len]] by (simp add: add_mult_distrib)
  then have "span_ok ?sp" using True by (simp add: span_ok_def USER_END_OFFSET_def PML4_SIZE_def USIZE_LIM_def)
  from munmap_gone [OF assms(1-3) this, of F False] obtain w1 notify U' where
    "munmap M F s ?sp False w = Inr (w1, Inr notify)" "quiescent M tabs D T ext R s w1 U'" "gone M s (span_set ?sp) w w1"
    using assms(7) t by (auto simp: runs_iff)
  then show ?thesis using True validate_unmap [OF assms(5,6)] assms(4) t
    by (auto simp: funmap_def AddrSpace_current_def)
next
  case False
  then show ?thesis using validate_unmap [OF assms(5,6)] assms(4) by (auto simp: funmap_def AddrSpace_current_def Let_def)
qed

theorem funmap_exact_witness:
  "\<forall>F E. \<exists>w1 notify. funmap flat_mapper F E 65536 100 example_world = bindM (handle_notify_files E notify) (\<lambda>_. retM 0) w1 \<and>
     tr flat_mapper (as_table (w_spaces w1 0)) 16 = None \<and> tr flat_mapper (as_table (w_spaces example_world 0)) 16 \<noteq> None"
proof (intro allI)
  fix F :: "unit flag_ops" and E
  have p: "{p. p * 4096 < 65536 + 100 \<and> 65536 < Suc p * 4096} = {16 :: nat}" by auto
  have pl: "plain_on {p. p * 4096 < 65536 + 100 \<and> 65536 < Suc p * 4096} (as_grants (w_spaces example_world 0))"
    unfolding p by (rule example_pages_plain) simp
  have c: "w_current example_world = Some 0" by (simp add: example_world_def flat_world_def)
  have l: "(65536 :: nat) < USIZE_LIM" "(100 :: nat) < USIZE_LIM" "(65636 :: nat) \<le> USER_END_OFFSET"
    by (simp_all add: USIZE_LIM_def USER_END_OFFSET_def PML4_SIZE_def)
  obtain w1 notify where "funmap flat_mapper F E 65536 100 example_world = bindM (handle_notify_files E notify) (\<lambda>_. retM 0) w1"
    and "gone flat_mapper 0 {p. p * 4096 < 65536 + 100 \<and> 65536 < Suc p * 4096} example_world w1"
    using funmap_exact [OF flat_mapper_laws example_quiescent c l(1,2) pl, of F E] l(3) by auto
  moreover have "tr flat_mapper (as_table (w_spaces example_world 0)) 16 \<noteq> None" by (simp add: example_world_def flat_world_def example_tr)
  ultimately show "\<exists>w1 notify. funmap flat_mapper F E 65536 100 example_world = bindM (handle_notify_files E notify) (\<lambda>_. retM 0) w1 \<and>
     tr flat_mapper (as_table (w_spaces w1 0)) 16 = None \<and> tr flat_mapper (as_table (w_spaces example_world 0)) 16 \<noteq> None"
    unfolding p by (auto simp: gone_def USER_PAGES_def USER_END_OFFSET_def PML4_SIZE_def)
qed

section \<open>Handles\<close>

lemma mem_handle_decode: "mem_from_raw (ucast (mem_handle ty m c)) = Some (ty, m, c)" "unat (mem_handle ty m c) < 2 ^ 32"
  by (cases ty; cases m; cases c; simp add: mem_handle_def mem_from_raw_def ty_number_def mem_number_def)+


lemma mem_kopen_cases:
  assumes "mem_kopen path uid = Inr h"
  obtains ty m c where "h = mem_handle ty m c" "uid = 0 \<or> ty = HandleAllocated \<and> m = Writeback \<and> \<not> c"
  using assms by (auto simp: mem_kopen_def Let_def split: if_splits option.splits prod.splits)

text \<open>C39: A handle of the memory scheme decodes to what it was opened for, and a caller that is not root gets no
  other memory through it than anonymous memory: mapping the handle never reaches physical memory.\<close>

theorem mem_open_confined:
  assumes "mem_kopen path uid = Inr h"
  shows "\<exists>ty m c. h = mem_handle ty m c \<and> mem_from_raw (ucast h) = Some (ty, m, c) \<and>
    (uid \<noteq> 0 \<longrightarrow> mem_kfmap M F E B h s ma = fmap_anonymous M F E s ma False)"
proof -
  obtain ty m c where h: "h = mem_handle ty m c" "uid = 0 \<or> ty = HandleAllocated \<and> m = Writeback \<and> \<not> c"
    using mem_kopen_cases [OF assms] .
  then have "mem_kfmap M F E B h s ma = fmap_anonymous M F E s ma False" if "uid \<noteq> 0"
    using that mem_handle_decode [of ty m c] by (simp add: mem_kfmap_def ok_orM_def)
  then show ?thesis using h mem_handle_decode [of ty m c] by blast
qed

theorem mem_open_confined_witness:
  "\<forall>M F E B s ma. mem_kfmap M F E B 0 s ma = (fmap_anonymous M F E s ma False :: (unit, unit, nat) kprog)"
proof (intro allI)
  fix M :: "(unit, unit) mapper_ops" and F E B s ma
  have "mem_kopen ''zeroed'' 1000 = Inr 0" by code_simp
  from mem_open_confined [OF this, of M F E B s ma] show "mem_kfmap M F E B 0 s ma = fmap_anonymous M F E s ma False" by auto
qed

text \<open>Root can map physical memory; for the address zero the kernel panics when it makes a frame of it.\<close>

theorem physmap_zero_panics:
  assumes "w_current w = Some s" "\<not> w_locked w s" "UserGrants_find_free (as_grants (w_spaces w s)) (as_mmap_min (w_spaces w s)) n \<noteq> None"
    and "0 < n" "n * 4096 \<le> 2 ^ 52"
  shows "\<exists>msg. physmap_call M F B 0 (n * 4096) flags mem_ty w = Inl (Panic msg)"
proof -
  have "(n * 4096 + 4095) div 4096 = n" by (rule div_nat_eqI) simp_all
  moreover have "\<not> 2 ^ 52 < u_sat_add 0 (n * 4096)" using assms(5) by (simp add: u_sat_add_def)
  moreover have "\<exists>msg. Frame_containing 0 = Inl (Panic msg)" by (simp add: Frame_containing_def Let_def)
  ultimately show ?thesis using assms
    by (auto simp: physmap_call_def AddrSpace_current_def with_lockM_def acquireM_def mmap_anywhere_def mmap_def grantsM_def with_flusherM_def
        new_flusherM_def upd_space_def containingM_def finallyM_def bindM_def liftE_def ok_orM_def)
qed

end
