(* ===== verification/User_Capture.thy ===== *)
theory User_Capture
  imports User_Interleaving Memory_Calls
begin

text \<open>
  The buffers of a call to a user space server, and the calls themselves (\<open>CaptureGuard\<close> and \<open>UserScheme\<close> in
  \<open>src/src/scheme/user.rs\<close>, \<open>BorrowedHtBuf\<close> in \<open>src/src/context/context.rs\<close>).  A buffer of the caller appears
  in the memory of the server at the same offset in its page: its whole pages are shared, and the parts of pages
  at its ends are copied to two pages that every context owns for this purpose.
\<close>

section \<open>The two pages of a context\<close>

definition take_buf :: "bool \<Rightarrow> ('m, 'f, frame) uprog" where
  "take_buf head =
     bindM (getM (\<lambda>w. (if head then ux_head (fl_state w) else ux_tail (fl_state w)) (sc_current (usched w)))) (\<lambda>fo.
     bindM (ok_orM fo (Err EAGAIN)) (\<lambda>frame.
     bindM (modM (\<lambda>w. upd_ux (\<lambda>x. if head then x\<lparr>ux_head := (ux_head x)(sc_current (usched w) := None)\<rparr>
                                    else x\<lparr>ux_tail := (ux_tail x)(sc_current (usched w) := None)\<rparr>) w)) (\<lambda>_.
       retM frame)))"

text \<open>The page goes back to the running context, unless that has one again.\<close>

definition drop_buf :: "bool \<Rightarrow> frame \<Rightarrow> ('m, 'f) uworld \<Rightarrow> ('m, 'f) uworld exec" where
  "drop_buf head frame w =
     (let c = sc_current (usched w) in
      if (if head then ux_head (fl_state w) else ux_tail (fl_state w)) c = None
      then Inr (upd_ux (\<lambda>x. if head then x\<lparr>ux_head := (ux_head x)(c := Some frame)\<rparr> else x\<lparr>ux_tail := (ux_tail x)(c := Some frame)\<rparr>) w)
      else bindE (RaiiFrame_drop frame (w_alloc (ux_mem (fl_state w)))) (\<lambda>a.
        Inr (upd_ux (\<lambda>x. x\<lparr>ux_mem := (ux_mem x)\<lparr>w_alloc := a\<rparr>\<rparr>) w)))"

definition poke :: "usize \<Rightarrow> 8 word list \<Rightarrow> (usize \<Rightarrow> 8 word) \<Rightarrow> usize \<Rightarrow> 8 word" where
  "poke a bs mem = (\<lambda>x. if unat (x - a) < length bs then bs ! unat (x - a) else mem x)"

definition peek :: "usize \<Rightarrow> nat \<Rightarrow> (usize \<Rightarrow> 8 word) \<Rightarrow> 8 word list" where
  "peek a n mem = map (\<lambda>i. mem (a + of_nat i)) [0..<n]"

definition write_buf :: "frame \<Rightarrow> nat \<Rightarrow> 8 word list \<Rightarrow> ('m, 'f, unit) uprog" where
  "write_buf frame off bs = spaceM (modM (\<lambda>v. v\<lparr>w_alloc := (w_alloc v)\<lparr>phys_mem := poke (physaddr frame + of_nat off) bs (phys_mem (w_alloc v))\<rparr>\<rparr>))"

definition read_buf :: "frame \<Rightarrow> nat \<Rightarrow> nat \<Rightarrow> ('m, 'f, 8 word list) uprog" where
  "read_buf frame off n = getM (\<lambda>w. peek (physaddr frame + of_nat off) n (phys_mem (w_alloc (ux_mem (fl_state w)))))"

section \<open>Captured buffers\<close>

text \<open>The first component of a source says which of the two pages it is.\<close>

record copy_info =
  ci_src :: "(bool \<times> frame) option"
  ci_dst :: "user_slice option"

record capture_guard =
  cg_destroyed :: bool
  cg_base :: nat
  cg_len :: nat
  cg_span :: page_span
  cg_head :: copy_info
  cg_tail :: copy_info
  cg_addrsp :: "space_id option"

definition no_copy :: copy_info where "no_copy = \<lparr>ci_src = None, ci_dst = None\<rparr>"

definition DANGLING :: nat where "DANGLING = 2 ^ 62"

definition page_range_containing :: "nat \<Rightarrow> nat \<Rightarrow> page \<times> nat \<times> nat" where
  "page_range_containing base size' =
     (let first_page = Page_containing_address base; off = base - Page_start_address first_page
      in (first_page, (u_add size' off + PAGE_BYTES - 1) div PAGE_BYTES, off))"

definition guard_span :: "nat \<Rightarrow> nat \<Rightarrow> page_span" where
  "guard_span base len = (case page_range_containing base len of (p, n, _) \<Rightarrow> PageSpan_new p n)"

text \<open>What runs at the end of a scope, once the program has returned.\<close>

definition scopeM :: "('m, 'f, 'a) uprog \<Rightarrow> (('m, 'f) uworld \<Rightarrow> ('m, 'f) uworld exec) \<Rightarrow> ('m, 'f, 'a) uprog" where
  "scopeM m d s = bindE (m s) (\<lambda>(s, r). case r of Inl Asleep \<Rightarrow> Inr (s, r) | _ \<Rightarrow> bindE (d s) (\<lambda>s. Inr (s, r)))"

definition on_errM :: "('m, 'f, 'a) uprog \<Rightarrow> (('m, 'f) uworld \<Rightarrow> ('m, 'f) uworld exec) \<Rightarrow> ('m, 'f, 'a) uprog" where
  "on_errM m d s = bindE (m s) (\<lambda>(s, r). case r of Inl (Err _) \<Rightarrow> bindE (d s) (\<lambda>s. Inr (s, r)) | _ \<Rightarrow> Inr (s, r))"

definition locked :: "space_id \<Rightarrow> ('m, 'f, 'a) uprog \<Rightarrow> ('m, 'f, 'a) uprog" where
  "locked s m = bindM (spaceM (acquireM s)) (\<lambda>_. scopeM m (\<lambda>w. Inr (upd_ux (\<lambda>x. x\<lparr>ux_mem := release_lock s (ux_mem x)\<rparr>) w)))"

text \<open>The address space of the server.\<close>

definition server_space :: "user_inner \<Rightarrow> errno \<Rightarrow> ('m, 'f, space_id) uprog" where
  "server_space inner e =
     bindM (getM (\<lambda>w. sc_ctx (usched w) (ux_context (fl_state w) (ui_scheme_id inner)))) (\<lambda>c.
     bindM (ok_orM c (Err e)) (\<lambda>c. ok_orM (ctx_addr_space c) (Err ESRCH)))"

definition flags_of_mode :: "bool \<Rightarrow> map_flags" where
  "flags_of_mode ro = \<lparr>PROT_READ = ro, PROT_WRITE = \<not> ro, PROT_EXEC = False, MAP_SHARED = False, MAP_PRIVATE = False, MAP_FIXED = False,
     MAP_FIXED_NOREPLACE = False, MAP_LAZY = False\<rparr>"

definition copy_and_capture_tail ::
    "('m, 'f) mapper_ops \<Rightarrow> 'f flag_ops \<Rightarrow> user_inner \<Rightarrow> 8 word list \<Rightarrow> ('m, 'f, capture_guard) uprog" where
  "copy_and_capture_tail M F inner buf =
     bindM (server_space inner ENODEV) (\<lambda>dst.
     bindM (take_buf False) (\<lambda>tail_frame.
     on_errM (
       if PAGE_BYTES < length buf then errM (Err EINVAL)
       else
         bindM (write_buf tail_frame 0 buf) (\<lambda>_.
         bindM (locked dst (spaceM (mmap_anywhere M F dst 1 (flags_of_mode True) (\<lambda>dst_page flags.
                  allocated_shared_one_page M dst tail_frame dst_page flags True)))) (\<lambda>dst_page.
         let base = Page_start_address dst_page; len = length buf in
           retM \<lparr>cg_destroyed = False, cg_base = base, cg_len = len, cg_span = guard_span base len,
             cg_head = \<lparr>ci_src = Some (False, tail_frame), ci_dst = None\<rparr>, cg_tail = no_copy, cg_addrsp = Some dst\<rparr>))) (drop_buf False tail_frame)))"

text \<open>The page at the start of the buffer, with zeros around the bytes that are copied.\<close>

definition capture_head ::
    "('m, 'f) mapper_ops \<Rightarrow> 'f flag_ops \<Rightarrow> bool \<Rightarrow> space_id \<Rightarrow> page \<Rightarrow> user_slice \<Rightarrow> nat \<Rightarrow> user_slice \<Rightarrow> ('m, 'f, copy_info) uprog" where
  "capture_head M F ro dst dst_page user_buf off head_part =
     (if UserSlice_is_empty head_part then retM no_copy
      else
        bindM (take_buf True) (\<lambda>frame.
        on_errM (
          let len = min (PAGE_BYTES - off) (us_len user_buf) in
          bindM (if ro then
                   bindM (write_buf frame 0 (replicate off 0)) (\<lambda>_.
                   bindM (write_buf frame (off + len) (replicate (PAGE_BYTES - (off + len)) 0)) (\<lambda>_.
                   bindM (expectM (UserSlice_limit user_buf len) ''always smaller than max len'') (\<lambda>part.
                   bindM (sysM (userM (copy_to_slice part len))) (write_buf frame off))))
                 else write_buf frame 0 (replicate PAGE_BYTES 0)) (\<lambda>_.
          bindM (spaceM (mmap M F dst (Some dst_page) 1 ((flags_of_mode ro)\<lparr>MAP_FIXED_NOREPLACE := True\<rparr>) (\<lambda>dst_page flags.
                   allocated_shared_one_page M dst frame dst_page flags True))) (\<lambda>_.
            retM \<lparr>ci_src = Some (True, frame), ci_dst = (if ro then None else Some head_part)\<rparr>))) (drop_buf True frame)))"

definition capture_middle ::
    "('m, 'f) mapper_ops \<Rightarrow> 'f flag_ops \<Rightarrow> bool \<Rightarrow> space_id \<Rightarrow> space_id \<Rightarrow> page \<Rightarrow> page \<Rightarrow> nat \<Rightarrow> ('m, 'f, unit) uprog" where
  "capture_middle M F ro cur dst first_dst_page first_src_page middle_page_count =
     (if middle_page_count = 0 then retM ()
      else
        bindM (spaceM (mmap M F dst (Some first_dst_page) middle_page_count ((flags_of_mode ro)\<lparr>MAP_FIXED_NOREPLACE := True\<rparr>) (\<lambda>dst_page _.
          with_lockM cur (borrow M F cur dst first_src_page dst_page middle_page_count (flags_of_mode ro) True True)))) (\<lambda>_. retM ()))"

definition capture_tail ::
    "('m, 'f) mapper_ops \<Rightarrow> 'f flag_ops \<Rightarrow> bool \<Rightarrow> space_id \<Rightarrow> page \<Rightarrow> user_slice \<Rightarrow> ('m, 'f, copy_info) uprog" where
  "capture_tail M F ro dst tail_dst_page tail_part =
     (if UserSlice_is_empty tail_part then retM no_copy
      else
        bindM (take_buf False) (\<lambda>frame.
        on_errM (
          bindM (if ro then
                   bindM (write_buf frame (us_len tail_part) (replicate (PAGE_BYTES - us_len tail_part) 0)) (\<lambda>_.
                   bindM (sysM (userM (copy_to_slice tail_part (us_len tail_part)))) (write_buf frame 0))
                 else write_buf frame 0 (replicate PAGE_BYTES 0)) (\<lambda>_.
          bindM (spaceM (mmap M F dst (Some tail_dst_page) 1 ((flags_of_mode ro)\<lparr>MAP_FIXED_NOREPLACE := True\<rparr>) (\<lambda>dst_page flags.
                   allocated_shared_one_page M dst frame dst_page flags True))) (\<lambda>_.
            retM \<lparr>ci_src = Some (False, frame), ci_dst = (if ro then None else Some tail_part)\<rparr>))) (drop_buf False frame)))"

text \<open>The parts of a buffer: the bytes before the first page boundary, whole pages, and the rest.\<close>

definition head_length :: "nat \<Rightarrow> nat \<Rightarrow> nat" where
  "head_length off len = min (if off = 0 then 0 else PAGE_BYTES - off) len"

definition drop_copy :: "copy_info \<Rightarrow> ('m, 'f) uworld \<Rightarrow> ('m, 'f) uworld exec" where
  "drop_copy ci w = (case ci_src ci of None \<Rightarrow> Inr w | Some (head, frame) \<Rightarrow> drop_buf head frame w)"

definition capture_other ::
    "('m, 'f) mapper_ops \<Rightarrow> 'f flag_ops \<Rightarrow> bool \<Rightarrow> space_id \<Rightarrow> space_id \<Rightarrow> user_slice \<Rightarrow> ('m, 'f, capture_guard) uprog" where
  "capture_other M F ro cur dst user_buf =
     (case page_range_containing (us_base user_buf) (us_len user_buf) of (src_page, page_count, off) \<Rightarrow>
      bindM (expectM (UserSlice_split_at user_buf (head_length off (us_len user_buf))) ''split must succeed'') (\<lambda>(head_part, middle_tail_part).
      bindM (locked dst (
        bindM (getM (\<lambda>w. w_spaces (ux_mem (fl_state w)) dst)) (\<lambda>sp.
        bindM (ok_orM (UserGrants_find_free (as_grants sp) (as_mmap_min sp) page_count) (Err ENOMEM)) (\<lambda>free_span.
        bindM (capture_head M F ro dst (ps_base free_span) user_buf off head_part) (\<lambda>head.
        on_errM (
          let (first_dst_page, first_src_page) = (if \<not> UserSlice_is_empty head_part then (Page_next_by (ps_base free_span) 1, Page_next_by src_page 1)
                                                  else (ps_base free_span, src_page));
              middle_page_count = us_len middle_tail_part div PAGE_BYTES in
          bindM (expectM (UserSlice_split_at middle_tail_part (u_mul middle_page_count PAGE_BYTES)) ''split must succeed'') (\<lambda>(_, tail_part).
          bindM (capture_middle M F ro cur dst first_dst_page first_src_page middle_page_count) (\<lambda>_.
          bindM (capture_tail M F ro dst (Page_next_by first_dst_page middle_page_count) tail_part) (\<lambda>tail.
            retM (free_span, head, tail))))) (drop_copy head)))))) (\<lambda>(free_span, head, tail).
      let base = u_add (Page_start_address (ps_base free_span)) off in
        retM \<lparr>cg_destroyed = False, cg_base = base, cg_len = us_len user_buf, cg_span = guard_span base (us_len user_buf),
          cg_head = head, cg_tail = tail, cg_addrsp = Some dst\<rparr>)))"

definition capture_inner ::
    "('m, 'f) mapper_ops \<Rightarrow> 'f flag_ops \<Rightarrow> bool \<Rightarrow> user_inner \<Rightarrow> user_slice \<Rightarrow> ('m, 'f, capture_guard) uprog" where
  "capture_inner M F ro inner user_buf =
     (if UserSlice_is_empty user_buf
      then retM \<lparr>cg_destroyed = False, cg_base = DANGLING, cg_len = 0, cg_span = PageSpan_empty, cg_head = no_copy, cg_tail = no_copy, cg_addrsp = None\<rparr>
      else
        bindM current_space (\<lambda>cur.
        bindM (server_space inner ESRCH) (\<lambda>dst.
        if dst = cur
        then retM \<lparr>cg_destroyed = False, cg_base = us_base user_buf, cg_len = us_len user_buf, cg_span = guard_span (us_base user_buf) (us_len user_buf),
               cg_head = no_copy, cg_tail = no_copy, cg_addrsp = Some dst\<rparr>
        else capture_other M F ro cur dst user_buf)))"

section \<open>Releasing a buffer\<close>

definition copy_back :: "copy_info \<Rightarrow> nat \<Rightarrow> ('m, 'f, unit) uprog" where
  "copy_back ci off =
     (case (ci_src ci, ci_dst ci) of
        (Some (_, frame), Some dst) \<Rightarrow> bindM (read_buf frame off (us_len dst)) (\<lambda>bs. sysM (userM (copy_from_slice dst bs)))
      | _ \<Rightarrow> retM ())"

text \<open>The guard is marked as released before anything is copied or unmapped.\<close>

definition release_inner :: "('m, 'f) mapper_ops \<Rightarrow> 'f flag_ops \<Rightarrow> capture_guard \<Rightarrow> ('m, 'f, capture_guard \<times> unit result) uprog" where
  "release_inner M F g =
     (if cg_destroyed g then retM (g, Inr ())
      else
        let g = g\<lparr>cg_destroyed := True\<rparr> in
        if cg_base g = DANGLING then retM (g, Inr ())
        else
          bindM (resultM (
            bindM (copy_back (cg_head g) (cg_base g mod PAGE_BYTES)) (\<lambda>_.
            bindM (copy_back (cg_tail g) 0) (\<lambda>_.
            case cg_addrsp g of None \<Rightarrow> retM () | Some s \<Rightarrow> bindM (spaceM (munmap M F s (cg_span g) True)) (\<lambda>_. retM ()))))) (\<lambda>r.
            retM (g, r)))"

text \<open>At the end of its life a guard is released, if it was not, and the pages of the context go back.\<close>

definition drop_guard :: "('m, 'f) mapper_ops \<Rightarrow> 'f flag_ops \<Rightarrow> capture_guard \<Rightarrow> ('m, 'f, unit) uprog" where
  "drop_guard M F g =
     bindM (release_inner M F g) (\<lambda>_ w.
       bindE (drop_copy (cg_head g) w) (\<lambda>w. bindE (drop_copy (cg_tail g) w) (\<lambda>w. Inr (w, Inr ()))))"

definition release_guard :: "('m, 'f) mapper_ops \<Rightarrow> 'f flag_ops \<Rightarrow> capture_guard \<Rightarrow> ('m, 'f, unit result) uprog" where
  "release_guard M F g =
     bindM (release_inner M F g) (\<lambda>(g, r).
     bindM (drop_guard M F g) (\<lambda>_. retM r))"

section \<open>The calls of a user space scheme\<close>

text \<open>A scheme that has gone fails with \<open>ENODEV\<close>; a call keeps it alive while it runs.\<close>

definition with_inner :: "user_inner \<Rightarrow> ('m, 'f, 'a) uprog \<Rightarrow> ('m, 'f, 'a) uprog" where
  "with_inner inner m =
     bindM (getM (\<lambda>w. ux_strong (fl_state w) (ui_scheme_id inner))) (\<lambda>n.
     if n = 0 then errM (Err ENODEV)
     else
       bindM (modM (upd_ux (\<lambda>x. x\<lparr>ux_strong := (ux_strong x)(ui_scheme_id inner := ux_strong x (ui_scheme_id inner) + 1)\<rparr>))) (\<lambda>_.
       scopeM m (\<lambda>w. Inr (upd_ux (\<lambda>x. x\<lparr>ux_strong := (ux_strong x)(ui_scheme_id inner := ux_strong x (ui_scheme_id inner) - 1)\<rparr>) w))))"

type_synonym ('m, 'f) others = "(('m, 'f) uworld \<Rightarrow> ('m, 'f) uworld) list"

text \<open>A call without a buffer, with a path, and with a buffer of the caller.\<close>

definition plain_call :: "crate_ops \<Rightarrow> user_inner \<Rightarrow> ('m, 'f) others \<Rightarrow> opcode \<Rightarrow> usize list \<Rightarrow> ('m, 'f, usize) uprog" where
  "plain_call X inner others op args = bindM (call_user X inner others op args PageSpan_empty) (\<lambda>(_, r). fromM r)"

definition bytes_of :: "string \<Rightarrow> 8 word list" where "bytes_of path = map of_char path"

definition path_call ::
    "crate_ops \<Rightarrow> ('m, 'f) mapper_ops \<Rightarrow> 'f flag_ops \<Rightarrow> user_inner \<Rightarrow> ('m, 'f) others \<Rightarrow> opcode \<Rightarrow> string \<Rightarrow> (usize \<Rightarrow> usize \<Rightarrow> usize list) \<Rightarrow> ('m, 'f, usize) uprog" where
  "path_call X M F inner others op path args =
     bindM (copy_and_capture_tail M F inner (bytes_of path)) (\<lambda>address.
     bindM (call_user X inner others op (args (of_nat (cg_base address)) (of_nat (cg_len address))) (cg_span address)) (\<lambda>(span, r).
     bindM (drop_guard M F (address\<lparr>cg_span := span\<rparr>)) (\<lambda>_. fromM r)))"

definition buffer_call ::
    "crate_ops \<Rightarrow> ('m, 'f) mapper_ops \<Rightarrow> 'f flag_ops \<Rightarrow> user_inner \<Rightarrow> ('m, 'f) others \<Rightarrow> bool \<Rightarrow> user_slice \<Rightarrow> opcode \<Rightarrow> (usize \<Rightarrow> usize \<Rightarrow> usize list) \<Rightarrow> ('m, 'f, usize) uprog" where
  "buffer_call X M F inner others ro buf op args =
     bindM (capture_inner M F ro inner buf) (\<lambda>address.
     bindM (call_user X inner others op (args (of_nat (cg_base address)) (of_nat (cg_len address))) (cg_span address)) (\<lambda>(span, r).
     bindM (release_guard M F (address\<lparr>cg_span := span\<rparr>)) (\<lambda>released.
     bindM (fromM released) (\<lambda>_. fromM r))))"

definition from_extra0 :: "crate_ops \<Rightarrow> 8 word \<Rightarrow> bool option" where
  "from_extra0 X fl = (if fl AND NOT (NEWFD_ALL X) = 0 then Some (fl AND NEWFD_POSITIONED X = NEWFD_POSITIONED X) else None)"

definition user_kopen ::
    "crate_ops \<Rightarrow> ('m, 'f) mapper_ops \<Rightarrow> 'f flag_ops \<Rightarrow> user_inner \<Rightarrow> ('m, 'f) others \<Rightarrow> string \<Rightarrow> usize \<Rightarrow> caller_ctx \<Rightarrow> ('m, 'f, open_result) uprog" where
  "user_kopen X M F inner others path flags ctx =
     with_inner inner (
       bindM (copy_and_capture_tail M F inner (bytes_of path)) (\<lambda>address.
       bindM (call_extended X inner others ctx None OpOpen [of_nat (cg_base address), of_nat (cg_len address), flags] (cg_span address)) (\<lambda>(span, r).
       bindM (drop_guard M F (address\<lparr>cg_span := span\<rparr>)) (\<lambda>_.
       bindM (fromM r) (\<lambda>response. case response of
          Regular code fl \<Rightarrow>
            bindM (fromM (demux X code)) (\<lambda>_.
            bindM (ok_orM (from_extra0 X fl) (Err EINVAL)) (\<lambda>positioned. retM (SchemeLocal (unat code) positioned)))
        | FdResponse desc \<Rightarrow> retM (External desc))))))"

definition user_rmdir :: "crate_ops \<Rightarrow> ('m, 'f) mapper_ops \<Rightarrow> 'f flag_ops \<Rightarrow> user_inner \<Rightarrow> ('m, 'f) others \<Rightarrow> string \<Rightarrow> ('m, 'f, unit) uprog" where
  "user_rmdir X M F inner others path =
     with_inner inner (bindM (path_call X M F inner others OpRmdir path (\<lambda>base len. [base, len])) (\<lambda>_. retM ()))"

definition user_unlink :: "crate_ops \<Rightarrow> ('m, 'f) mapper_ops \<Rightarrow> 'f flag_ops \<Rightarrow> user_inner \<Rightarrow> ('m, 'f) others \<Rightarrow> string \<Rightarrow> ('m, 'f, unit) uprog" where
  "user_unlink X M F inner others path =
     with_inner inner (bindM (path_call X M F inner others OpUnlink path (\<lambda>base len. [base, len])) (\<lambda>_. retM ()))"

definition user_fsize :: "crate_ops \<Rightarrow> user_inner \<Rightarrow> ('m, 'f) others \<Rightarrow> nat \<Rightarrow> ('m, 'f, usize) uprog" where
  "user_fsize X inner others file =
     with_inner inner (if \<not> ui_v2 inner then errM (Err ESPIPE) else plain_call X inner others OpFsize [of_nat file])"

definition user_fchmod :: "crate_ops \<Rightarrow> user_inner \<Rightarrow> ('m, 'f) others \<Rightarrow> nat \<Rightarrow> 16 word \<Rightarrow> ('m, 'f, unit) uprog" where
  "user_fchmod X inner others file mode = with_inner inner (bindM (plain_call X inner others OpFchmod [of_nat file, ucast mode]) (\<lambda>_. retM ()))"

definition user_fchown :: "crate_ops \<Rightarrow> user_inner \<Rightarrow> ('m, 'f) others \<Rightarrow> nat \<Rightarrow> 32 word \<Rightarrow> 32 word \<Rightarrow> ('m, 'f, unit) uprog" where
  "user_fchown X inner others file uid gid =
     bindM (sysM current_info) (\<lambda>i.
     if pi_euid i \<noteq> 0 \<and> (uid \<noteq> pi_euid i \<or> gid \<noteq> pi_egid i) then errM (Err EPERM)
     else with_inner inner (bindM (plain_call X inner others OpFchown [of_nat file, ucast uid, ucast gid]) (\<lambda>_. retM ())))"

definition user_fcntl :: "crate_ops \<Rightarrow> user_inner \<Rightarrow> ('m, 'f) others \<Rightarrow> nat \<Rightarrow> usize \<Rightarrow> usize \<Rightarrow> ('m, 'f, usize) uprog" where
  "user_fcntl X inner others file cmd arg = with_inner inner (plain_call X inner others OpFcntl [of_nat file, cmd, arg])"

definition user_fevent :: "crate_ops \<Rightarrow> user_inner \<Rightarrow> ('m, 'f) others \<Rightarrow> nat \<Rightarrow> event_flags \<Rightarrow> ('m, 'f, event_flags) uprog" where
  "user_fevent X inner others file flags =
     with_inner inner (bindM (plain_call X inner others OpFevent [of_nat file, flags]) (\<lambda>o'. retM (o' AND EVENTS_ALL X)))"

definition user_frename :: "crate_ops \<Rightarrow> ('m, 'f) mapper_ops \<Rightarrow> 'f flag_ops \<Rightarrow> user_inner \<Rightarrow> ('m, 'f) others \<Rightarrow> nat \<Rightarrow> string \<Rightarrow> ('m, 'f, unit) uprog" where
  "user_frename X M F inner others file path =
     with_inner inner (bindM (path_call X M F inner others OpFrename path (\<lambda>base len. [of_nat file, base, len])) (\<lambda>_. retM ()))"

definition user_fsync :: "crate_ops \<Rightarrow> user_inner \<Rightarrow> ('m, 'f) others \<Rightarrow> nat \<Rightarrow> ('m, 'f, unit) uprog" where
  "user_fsync X inner others file = with_inner inner (bindM (plain_call X inner others OpFsync [of_nat file]) (\<lambda>_. retM ()))"

definition user_ftruncate :: "crate_ops \<Rightarrow> user_inner \<Rightarrow> ('m, 'f) others \<Rightarrow> nat \<Rightarrow> usize \<Rightarrow> ('m, 'f, unit) uprog" where
  "user_ftruncate X inner others file len = with_inner inner (bindM (plain_call X inner others OpFtruncate [of_nat file, len]) (\<lambda>_. retM ()))"

definition user_close :: "crate_ops \<Rightarrow> user_inner \<Rightarrow> ('m, 'f) others \<Rightarrow> nat \<Rightarrow> ('m, 'f, unit) uprog" where
  "user_close X inner others file = with_inner inner (bindM (plain_call X inner others OpClose [of_nat file]) (\<lambda>_. retM ()))"

definition user_kdup ::
    "crate_ops \<Rightarrow> ('m, 'f) mapper_ops \<Rightarrow> 'f flag_ops \<Rightarrow> user_inner \<Rightarrow> ('m, 'f) others \<Rightarrow> nat \<Rightarrow> user_slice \<Rightarrow> caller_ctx \<Rightarrow> ('m, 'f, open_result) uprog" where
  "user_kdup X M F inner others file buf ctx =
     with_inner inner (
       bindM (capture_inner M F True inner buf) (\<lambda>address.
       bindM (call_extended X inner others ctx None OpDup [of_nat file, of_nat (cg_base address), of_nat (cg_len address)] (cg_span address)) (\<lambda>(span, r).
       bindM (release_guard M F (address\<lparr>cg_span := span\<rparr>)) (\<lambda>released. case released of
          Inl e \<Rightarrow> bindM (case r of Inl _ \<Rightarrow> retM () | Inr response \<Rightarrow> drop_response response) (\<lambda>_. errM (Err e))
        | Inr _ \<Rightarrow>
            bindM (fromM r) (\<lambda>response. case response of
               Regular code fl \<Rightarrow>
                 bindM (fromM (demux X code)) (\<lambda>fd.
                 bindM (ok_orM (from_extra0 X fl) (Err EINVAL)) (\<lambda>positioned. retM (SchemeLocal (unat fd) positioned)))
             | FdResponse desc \<Rightarrow> retM (External desc))))))"

definition user_kfpath :: "crate_ops \<Rightarrow> ('m, 'f) mapper_ops \<Rightarrow> 'f flag_ops \<Rightarrow> user_inner \<Rightarrow> ('m, 'f) others \<Rightarrow> nat \<Rightarrow> user_slice \<Rightarrow> ('m, 'f, usize) uprog" where
  "user_kfpath X M F inner others file buf = with_inner inner (buffer_call X M F inner others False buf OpFpath (\<lambda>base len. [of_nat file, base, len]))"

text \<open>
  Reading and writing: a server of the old protocol is told the flags of this call before and the flags of the
  file after it, each by a call of its own.
\<close>

definition set_flags :: "crate_ops \<Rightarrow> fs_consts \<Rightarrow> user_inner \<Rightarrow> ('m, 'f) others \<Rightarrow> nat \<Rightarrow> bool \<Rightarrow> 32 word \<Rightarrow> ('m, 'f, unit) uprog" where
  "set_flags X C inner others file differ flags =
     (if differ \<and> \<not> ui_v2 inner then bindM (user_fcntl X inner others file (F_SETFL C) (ucast flags)) (\<lambda>_. retM ()) else retM ())"

definition user_rw ::
    "crate_ops \<Rightarrow> fs_consts \<Rightarrow> ('m, 'f) mapper_ops \<Rightarrow> 'f flag_ops \<Rightarrow> user_inner \<Rightarrow> (nat \<Rightarrow> ('m, 'f) others) \<Rightarrow> bool \<Rightarrow> opcode \<Rightarrow>
     nat \<Rightarrow> user_slice \<Rightarrow> usize \<Rightarrow> 32 word \<Rightarrow> 32 word \<Rightarrow> ('m, 'f, usize) uprog" where
  "user_rw X C M F inner others ro op file buf off call_flags stored_flags =
     with_inner inner (
       bindM (set_flags X C inner (others 0) file (call_flags \<noteq> stored_flags) call_flags) (\<lambda>_.
       bindM (capture_inner M F ro inner buf) (\<lambda>address.
       bindM (call_user X inner (others 1) op [of_nat file, of_nat (cg_base address), of_nat (cg_len address), off, ucast call_flags] (cg_span address)) (\<lambda>(span, r).
       bindM (release_guard M F (address\<lparr>cg_span := span\<rparr>)) (\<lambda>released.
       bindM (fromM released) (\<lambda>_.
       bindM (set_flags X C inner (others 2) file (call_flags \<noteq> stored_flags) stored_flags) (\<lambda>_.
         fromM r)))))))"

definition user_kreadoff ::
    "crate_ops \<Rightarrow> fs_consts \<Rightarrow> ('m, 'f) mapper_ops \<Rightarrow> 'f flag_ops \<Rightarrow> user_inner \<Rightarrow> (nat \<Rightarrow> ('m, 'f) others) \<Rightarrow> nat \<Rightarrow> user_slice \<Rightarrow> usize \<Rightarrow> 32 word \<Rightarrow> 32 word \<Rightarrow> ('m, 'f, usize) uprog" where
  "user_kreadoff X C M F inner others = user_rw X C M F inner others False OpRead"

definition user_kwriteoff ::
    "crate_ops \<Rightarrow> fs_consts \<Rightarrow> ('m, 'f) mapper_ops \<Rightarrow> 'f flag_ops \<Rightarrow> user_inner \<Rightarrow> (nat \<Rightarrow> ('m, 'f) others) \<Rightarrow> nat \<Rightarrow> user_slice \<Rightarrow> usize \<Rightarrow> 32 word \<Rightarrow> 32 word \<Rightarrow> ('m, 'f, usize) uprog" where
  "user_kwriteoff X C M F inner others = user_rw X C M F inner others True OpWrite"

definition user_legacy_seek :: "crate_ops \<Rightarrow> user_inner \<Rightarrow> ('m, 'f) others \<Rightarrow> nat \<Rightarrow> usize \<Rightarrow> usize \<Rightarrow> ('m, 'f, usize result option) uprog" where
  "user_legacy_seek X inner others number pos whence =
     bindM (getM (\<lambda>w. ux_strong (fl_state w) (ui_scheme_id inner))) (\<lambda>n.
     if n = 0 \<or> ui_v2 inner then retM None
     else bindM (resultM (with_inner inner (plain_call X inner others OpFsize [of_nat number, pos, whence]))) (\<lambda>r. retM (Some r)))"

definition user_kfutimens :: "crate_ops \<Rightarrow> ('m, 'f) mapper_ops \<Rightarrow> 'f flag_ops \<Rightarrow> user_inner \<Rightarrow> ('m, 'f) others \<Rightarrow> nat \<Rightarrow> user_slice \<Rightarrow> ('m, 'f, usize) uprog" where
  "user_kfutimens X M F inner others file buf = with_inner inner (buffer_call X M F inner others True buf OpFutimens (\<lambda>base len. [of_nat file, base, len]))"

definition user_getdents ::
    "crate_ops \<Rightarrow> ('m, 'f) mapper_ops \<Rightarrow> 'f flag_ops \<Rightarrow> user_inner \<Rightarrow> ('m, 'f) others \<Rightarrow> nat \<Rightarrow> user_slice \<Rightarrow> 16 word \<Rightarrow> usize \<Rightarrow> ('m, 'f, usize) uprog" where
  "user_getdents X M F inner others file buf header_size opaque_id_start =
     with_inner inner (buffer_call X M F inner others False buf OpGetdents (\<lambda>base len. [of_nat file, base, len, ucast header_size, opaque_id_start]))"

definition user_kfstat :: "crate_ops \<Rightarrow> ('m, 'f) mapper_ops \<Rightarrow> 'f flag_ops \<Rightarrow> user_inner \<Rightarrow> ('m, 'f) others \<Rightarrow> nat \<Rightarrow> user_slice \<Rightarrow> ('m, 'f, unit) uprog" where
  "user_kfstat X M F inner others file stat =
     with_inner inner (bindM (buffer_call X M F inner others False stat OpFstat (\<lambda>base len. [of_nat file, base, len])) (\<lambda>_. retM ()))"

definition user_kfstatvfs :: "crate_ops \<Rightarrow> ('m, 'f) mapper_ops \<Rightarrow> 'f flag_ops \<Rightarrow> user_inner \<Rightarrow> ('m, 'f) others \<Rightarrow> nat \<Rightarrow> user_slice \<Rightarrow> ('m, 'f, unit) uprog" where
  "user_kfstatvfs X M F inner others file stat =
     with_inner inner (bindM (buffer_call X M F inner others False stat OpFstatvfs (\<lambda>base len. [of_nat file, base, len])) (\<lambda>_. retM ()))"

definition user_kfunmap :: "crate_ops \<Rightarrow> user_inner \<Rightarrow> ('m, 'f) others \<Rightarrow> nat \<Rightarrow> nat \<Rightarrow> nat \<Rightarrow> usize \<Rightarrow> ('m, 'f, unit) uprog" where
  "user_kfunmap X inner others number off size' flags =
     with_inner inner (
       bindM (sysM current_info) (\<lambda>i.
       bindM (call_extended X inner others (caller_ctx_of i) None OpMunmap [of_nat number, of_nat size', flags, of_nat off] PageSpan_empty) (\<lambda>(_, r).
       bindM (fromM r) (\<lambda>response. case response of
          Regular _ _ \<Rightarrow> retM ()
        | FdResponse d \<Rightarrow> bindM (drop_fd (Some d)) (\<lambda>_. errM (Err EIO))))))"

definition user_ksendfd :: "crate_ops \<Rightarrow> user_inner \<Rightarrow> ('m, 'f) others \<Rightarrow> nat \<Rightarrow> desc_id \<Rightarrow> usize \<Rightarrow> ('m, 'f, usize) uprog" where
  "user_ksendfd X inner others number desc flags =
     bindM (resultM (with_inner inner (sysM current_info))) (\<lambda>i. case i of
        Inl e \<Rightarrow> bindM (drop_fd (Some desc)) (\<lambda>_. errM (Err e))
      | Inr i \<Rightarrow>
          with_inner inner (
            bindM (call_extended X inner others (caller_ctx_of i) (Some desc) OpSendfd [of_nat number, flags] PageSpan_empty) (\<lambda>(_, r).
            bindM (fromM r) (\<lambda>response. case response of
               Regular res _ \<Rightarrow> retM res
             | FdResponse d \<Rightarrow> bindM (drop_fd (Some d)) (\<lambda>_. errM (Err EIO))))))"

section \<open>Mapping a file of the server\<close>

text \<open>The description of the file, found by its number in the file table of the caller.\<close>

definition find_desc :: "user_inner \<Rightarrow> nat \<Rightarrow> ('m, 'f) uworld \<Rightarrow> desc_id option" where
  "find_desc inner file w =
     map_option fd_description (find (\<lambda>f. de_scheme (fl_desc w (fd_description f)) = ui_scheme_id inner \<and> de_number (fl_desc w (fd_description f)) = file)
       (List.map_filter id (current_table w)))"

definition fmap_grant ::
    "('m, 'f) mapper_ops \<Rightarrow> 'f flag_ops \<Rightarrow> ('m, 'f) fmap_env \<Rightarrow> space_id \<Rightarrow> space_id \<Rightarrow> nat \<Rightarrow> map_args \<Rightarrow> desc_id \<Rightarrow> page option \<Rightarrow> nat \<Rightarrow> ('m, 'f, page) uprog" where
  "fmap_grant M F E src dst page_count ma desc dst_base base_addr =
     locked src (
       bindM (spaceM (modM (\<lambda>v. v\<lparr>w_notify := []\<rparr>))) (\<lambda>_.
       locked dst (spaceM (mmap M F dst dst_base page_count (ma_flags ma) (\<lambda>base flags.
         borrow_fmap M F E dst (PageSpan_new base page_count) flags \<lparr>description = desc, base_offset = ma_offset ma\<rparr>
           (Some \<lparr>fs_src_base = Page_containing_address base_addr, fs_mode = (if MAP_SHARED (ma_flags ma) then ModeShared else ModeCow), fs_space = src\<rparr>))))))"

definition fmap_inner ::
    "crate_ops \<Rightarrow> ('m, 'f) mapper_ops \<Rightarrow> 'f flag_ops \<Rightarrow> ('m, 'f) fmap_env \<Rightarrow> user_inner \<Rightarrow> ('m, 'f) others \<Rightarrow> space_id \<Rightarrow> nat \<Rightarrow> map_args \<Rightarrow> ('m, 'f, nat) uprog" where
  "fmap_inner X M F E inner others dst file ma =
     (if ma_size ma = 0 then errM (Err EINVAL)
      else
        let page_count = (ma_size ma + PAGE_BYTES - 1) div PAGE_BYTES in
        if ma_address ma mod PAGE_BYTES \<noteq> 0 then errM (Err EINVAL)
        else
          let dst_base = (if ma_address ma \<noteq> 0 then Some (Page_containing_address (ma_address ma)) else None) in
          if ma_offset ma mod PAGE_BYTES \<noteq> 0 then errM (Err EINVAL)
          else
            bindM (server_space inner ENODEV) (\<lambda>src.
            if src = dst then errM (Err EBUSY)
            else
              bindM (getM (find_desc inner file)) (\<lambda>d.
              bindM (ok_orM d (Err EBADF)) (\<lambda>desc.
              bindM (modM (retain desc)) (\<lambda>_.
              on_errM (
                bindM (getM (\<lambda>w. current_pid (fl_procs w))) (\<lambda>pid.
                bindM (next_id X inner) (\<lambda>tag.
                bindM (sysM current_info) (\<lambda>i.
                bindM (call_extended_inner X inner others None
                  \<lparr>sq_opcode = op_raw X OpMmapPrep, sq_oneway = False, sq_tag = tag,
                    sq_args = [of_nat file, of_nat (ma_size ma), map_bits X (ma_flags ma), of_nat (ma_offset ma), 0, uid_gid_hack_merge (pi_euid i) (pi_egid i)],
                    sq_caller = of_nat pid\<rparr> PageSpan_empty) (\<lambda>(_, r).
                bindM (fromM r) (\<lambda>response.
                bindM (case response of
                    Regular code _ \<Rightarrow> fromM (demux X code)
                  | FdResponse e \<Rightarrow> bindM (drop_fd (Some e)) (\<lambda>_. errM (Err EIO))) (\<lambda>base_addr.
                if unat base_addr mod PAGE_BYTES \<noteq> 0 then errM (Err EINVAL)
                else
                  bindM (fmap_grant M F E src dst page_count ma desc dst_base (unat base_addr)) (\<lambda>base.
                  bindM (getM (\<lambda>w. w_notify (ux_mem (fl_state w)))) (\<lambda>notify_files.
                  bindM (spaceM (handle_notify_files E notify_files)) (\<lambda>_.
                    retM (Page_start_address base)))))))))))
                (\<lambda>w. Inr (release desc w)))))))"

definition user_kfmap ::
    "crate_ops \<Rightarrow> ('m, 'f) mapper_ops \<Rightarrow> 'f flag_ops \<Rightarrow> ('m, 'f) fmap_env \<Rightarrow> user_inner \<Rightarrow> ('m, 'f) others \<Rightarrow> nat \<Rightarrow> space_id \<Rightarrow> map_args \<Rightarrow> ('m, 'f, nat) uprog" where
  "user_kfmap X M F E inner others file addr_space ma = with_inner inner (fmap_inner X M F E inner others addr_space file ma)"

section \<open>The parts of a buffer tile its span\<close>

lemma page_range_parts:
  assumes "base + len \<le> USER_END_OFFSET"
  shows "page_range_containing base len = (base div 4096, (len + base mod 4096 + 4095) div 4096, base mod 4096)"
proof -
  have lim: "base + len < USIZE_LIM - 4096" using assms by (simp add: USER_END_OFFSET_def PML4_SIZE_def USIZE_LIM_def)
  have "base div 4096 * 4096 \<le> base" by (rule div_times_less_eq_dividend)
  then have start: "Page_start_address (base div 4096) = base div 4096 * 4096"
    using lim by (simp add: Page_start_address_def)
  have off: "base - base div 4096 * 4096 = base mod 4096" by (simp add: minus_div_mult_eq_mod)
  have small: "len + base mod 4096 < USIZE_LIM" using lim mod_less_eq_dividend [of base 4096] by linarith
  have swap: "4095 + (len + base mod 4096) = len + base mod 4096 + 4095" by (rule add.commute)
  show ?thesis
    using small swap by (simp add: page_range_containing_def Page_containing_address_def start [simplified] off [simplified] Let_def)
qed

lemma div_up:
  fixes x :: nat
  shows "(x + 4095) div 4096 = x div 4096 + of_bool (0 < x mod 4096)"
proof -
  obtain q r where x: "x = 4096 * q + r" "r < 4096" by (rule that [of "x div 4096" "x mod 4096"]) simp_all
  show ?thesis by (cases "r = 0") (use x in \<open>auto intro!: div_nat_eqI\<close>)
qed

lemma tiling_count:
  fixes off len :: nat
  assumes "off < 4096" "0 < len"
  shows "(len + off + 4095) div 4096
    = of_bool (0 < head_length off len) + (len - head_length off len) div 4096 + of_bool (0 < (len - head_length off len) mod 4096)"
proof -
  show ?thesis
  proof (cases "off = 0")
    case True
    then show ?thesis using div_up [of len] by (simp add: head_length_def)
  next
    case False
    show ?thesis
    proof (cases "4096 - off \<le> len")
      case True
      define r where "r = len - (4096 - off)"
      have "len + off + 4095 = (r + 4095) + 4096" using True assms by (simp add: r_def)
      then have "(len + off + 4095) div 4096 = (r + 4095) div 4096 + 1" by simp
      moreover have "head_length off len = 4096 - off" using True False by (simp add: head_length_def min_def)
      ultimately show ?thesis using div_up [of r] assms by (simp add: r_def)
    next
      case short: False
      have "(len + off + 4095) div 4096 = 1" by (rule div_nat_eqI) (use short assms False in simp_all)
      moreover have "head_length off len = len" using short False by (simp add: head_length_def min_def)
      ultimately show ?thesis using assms by simp
    qed
  qed
qed

lemma tile_parts:
  assumes buf: "us_base buf + us_len buf \<le> USER_END_OFFSET" "0 < us_len buf"
    and range: "page_range_containing (us_base buf) (us_len buf) = (src_page, page_count, off)"
    and split: "UserSlice_split_at buf (head_length off (us_len buf)) = Some (head, rest)"
    and free: "(free_base + page_count) * PAGE_BYTES \<le> USER_END_OFFSET"
  shows "page_count = of_bool (\<not> UserSlice_is_empty head) + us_len rest div PAGE_BYTES + of_bool (0 < us_len rest mod PAGE_BYTES)"
    and "off + us_len head \<le> PAGE_BYTES"
    and "UserSlice_is_empty rest \<or> us_base rest = (src_page + of_bool (\<not> UserSlice_is_empty head)) * PAGE_BYTES"
    and "guard_span (u_add (Page_start_address free_base) off) (us_len buf) = PageSpan_new free_base page_count"
proof -
  have r: "src_page = us_base buf div 4096" "page_count = (us_len buf + off + 4095) div 4096" "off = us_base buf mod 4096"
    using range page_range_parts [OF buf(1)] by auto
  have off: "off < 4096" by (simp add: r(3))
  have b: "us_base buf = src_page * 4096 + off" by (simp add: r)
  have lim: "us_base buf + us_len buf < USIZE_LIM" using buf(1) by (simp add: USER_END_OFFSET_def PML4_SIZE_def USIZE_LIM_def)
  have parts: "us_len head = head_length off (us_len buf)" "us_len rest = us_len buf - head_length off (us_len buf)"
      "us_base rest = us_base buf + head_length off (us_len buf)" "head_length off (us_len buf) \<le> us_len buf"
    using split lim by (auto simp: UserSlice_split_at_def split: if_splits)
  show "page_count = of_bool (\<not> UserSlice_is_empty head) + us_len rest div PAGE_BYTES + of_bool (0 < us_len rest mod PAGE_BYTES)"
    using tiling_count [OF off buf(2)] by (simp add: r(2) parts UserSlice_is_empty_def)
  show "off + us_len head \<le> PAGE_BYTES" using off by (auto simp: parts head_length_def)
  have "us_base rest = (src_page + of_bool (us_len head \<noteq> 0)) * 4096" if "us_len rest \<noteq> 0"
    using that off unfolding parts by (cases "off = 0") (simp_all add: b head_length_def min_def split: if_splits)
  then show "UserSlice_is_empty rest \<or> us_base rest = (src_page + of_bool (\<not> UserSlice_is_empty head)) * PAGE_BYTES"
    unfolding UserSlice_is_empty_def PAGE_BYTES_def by blast
  have ext: "us_len buf + off \<le> page_count * 4096"
    using div_mult_mod_eq [of "us_len buf + off + 4095" 4096] mod_less_divisor [of 4096 "us_len buf + off + 4095"] by (simp add: r(2))
  have fits: "free_base * 4096 + off + us_len buf \<le> USER_END_OFFSET"
    using ext free by (simp add: algebra_simps)
  then have "free_base * 4096 + off < USIZE_LIM" by (simp add: USER_END_OFFSET_def PML4_SIZE_def USIZE_LIM_def)
  then have base: "Page_start_address free_base = free_base * 4096" "u_add (free_base * 4096) off = free_base * 4096 + off"
    by (simp_all add: Page_start_address_def)
  have "(free_base * 4096 + off) div 4096 = free_base" "(free_base * 4096 + off) mod 4096 = off" using off by simp_all
  then show "guard_span (u_add (Page_start_address free_base) off) (us_len buf) = PageSpan_new free_base page_count"
    using page_range_parts [OF fits] by (simp add: guard_span_def base r(2))
qed

section \<open>A server that shares the memory of its caller\<close>

lemma same_space_release:
  assumes "\<not> UserSlice_is_empty buf" "us_base buf \<noteq> DANGLING"
    and "current_space w = Inr (w, Inr s)" "server_space inner ESRCH w = Inr (w, Inr s)"
    and "munmap M F s (guard_span (us_base buf) (us_len buf)) True (ux_mem (fl_state w)) = Inr (v, Inr notify)"
  shows "bindM (capture_inner M F ro inner buf) (release_guard M F) w = Inr (upd_ux (\<lambda>x. x\<lparr>ux_mem := v\<rparr>) w, Inr (Inr ()))"
proof -
  let ?g = "\<lparr>cg_destroyed = False, cg_base = us_base buf, cg_len = us_len buf, cg_span = guard_span (us_base buf) (us_len buf),
    cg_head = no_copy, cg_tail = no_copy, cg_addrsp = Some s\<rparr>"
  have "capture_inner M F ro inner buf w = Inr (w, Inr ?g)" using assms by (simp add: capture_inner_def)
  moreover have "release_inner M F ?g w = Inr (upd_ux (\<lambda>x. x\<lparr>ux_mem := v\<rparr>) w, Inr (?g\<lparr>cg_destroyed := True\<rparr>, Inr ()))"
    using assms by (simp add: release_inner_def Let_def copy_back_def no_copy_def resultM_def spaceM_def)
  moreover have "drop_guard M F (?g\<lparr>cg_destroyed := True\<rparr>) w' = Inr (w', Inr ())" for w'
    by (simp add: drop_guard_def release_inner_def drop_copy_def no_copy_def bindM_def)
  ultimately show ?thesis by (simp add: release_guard_def)
qed

text \<open>C34: When the server runs in the address space of the caller, the buffer is passed as it is and nothing is
  mapped.  Releasing the guard nevertheless unmaps the pages that hold the buffer from that address space: the call
  succeeds, and afterwards no grant and no page table entry is left for them.\<close>

theorem same_space_release_unmaps:
  assumes "mapper_laws M" "mapper_frees M tabs" "quiescent M tabs D T ext R s (ux_mem (fl_state w)) U"
    and "span_ok (guard_span (us_base buf) (us_len buf))"
    and "plain_on (span_set (guard_span (us_base buf) (us_len buf))) (as_grants (w_spaces (ux_mem (fl_state w)) s))"
    and "\<not> UserSlice_is_empty buf" "us_base buf \<noteq> DANGLING"
    and "current_space w = Inr (w, Inr s)" "server_space inner ESRCH w = Inr (w, Inr s)"
  shows "\<exists>w'. bindM (capture_inner M F ro inner buf) (release_guard M F) w = Inr (w', Inr (Inr ())) \<and>
    gone M s (span_set (guard_span (us_base buf) (us_len buf))) (ux_mem (fl_state w)) (ux_mem (fl_state w'))"
proof -
  obtain v notify where "munmap M F s (guard_span (us_base buf) (us_len buf)) True (ux_mem (fl_state w)) = Inr (v, Inr notify)"
    and "gone M s (span_set (guard_span (us_base buf) (us_len buf))) (ux_mem (fl_state w)) v"
    using munmap_gone [OF assms(1-5), of F True] by (auto simp: runs_iff)
  with same_space_release [OF assms(6-9)] show ?thesis by (auto simp: upd_ux_def)
qed

definition shared_example :: "(nat \<Rightarrow> (usize \<times> unit) option, unit) uworld" where
  "shared_example = (uworld_example [])
     \<lparr>fl_procs := example_procs\<lparr>px_sched := \<lparr>sc_ctx = (\<lambda>n. Some ((Context_new n 0)\<lparr>ctx_addr_space := Some 0\<rparr>)), sc_current = 7, sc_this_cpu = 0\<rparr>\<rparr>,
      fl_state := (fl_state (uworld_example []))\<lparr>ux_mem := example_world\<rparr>\<rparr>"

theorem same_space_release_unmaps_witness:
  "\<forall>F. \<exists>w'. bindM (capture_inner flat_mapper F True inner_example \<lparr>us_base = 65540, us_len = 100\<rparr>) (release_guard flat_mapper F) shared_example
      = Inr (w', Inr (Inr ())) \<and>
     tr flat_mapper (as_table (w_spaces (ux_mem (fl_state shared_example)) 0)) 16 \<noteq> None \<and> tr flat_mapper (as_table (w_spaces (ux_mem (fl_state w')) 0)) 16 = None"
proof
  fix F :: "unit flag_ops"
  let ?b = "\<lparr>us_base = 65540, us_len = 100\<rparr>"
  have g: "guard_span (us_base ?b) (us_len ?b) = PageSpan_new 16 1"
    by (simp add: guard_span_def page_range_containing_def Page_containing_address_def Page_start_address_def USIZE_LIM_def)
  have m: "ux_mem (fl_state shared_example) = example_world" by (simp add: shared_example_def)
  have pl: "plain_on (span_set (PageSpan_new 16 1)) (as_grants (w_spaces example_world 0))"
    by (rule example_pages_plain) (auto simp: span_set_def)
  have "\<exists>w'. bindM (capture_inner flat_mapper F True inner_example ?b) (release_guard flat_mapper F) shared_example = Inr (w', Inr (Inr ())) \<and>
     gone flat_mapper 0 (span_set (guard_span (us_base ?b) (us_len ?b))) (ux_mem (fl_state shared_example)) (ux_mem (fl_state w'))"
    by (rule same_space_release_unmaps [OF flat_mapper_laws, where s = 0 and U = "{(1024, 0)}"], unfold g m)
      (use example_quiescent pl in \<open>simp_all add: span_ok_def USIZE_LIM_def UserSlice_is_empty_def DANGLING_def current_space_def server_space_def shared_example_def\<close>)
  moreover have "tr flat_mapper (as_table (w_spaces example_world 0)) 16 \<noteq> None" by (simp add: example_world_def flat_world_def example_tr)
  ultimately show "\<exists>w'. bindM (capture_inner flat_mapper F True inner_example ?b) (release_guard flat_mapper F) shared_example = Inr (w', Inr (Inr ())) \<and>
     tr flat_mapper (as_table (w_spaces (ux_mem (fl_state shared_example)) 0)) 16 \<noteq> None \<and> tr flat_mapper (as_table (w_spaces (ux_mem (fl_state w')) 0)) 16 = None"
    unfolding g m by (auto simp: gone_def span_set_def USER_PAGES_def USER_END_OFFSET_def PML4_SIZE_def)
qed

end
