(* ===== verification/Ptrace_Session.thy ===== *)
theory Ptrace_Session
  imports User_Scheme
begin

text \<open>
  Tracing sessions (\<open>src/src/ptrace.rs\<close>).  A tracer has at most one session per process, with a breakpoint, the
  events that it has not read yet, and two conditions: the tracee waits on one of them at a breakpoint, the
  tracer on the other one for events.  A session that has left the table lives on while a context waits for it.
\<close>

unbundle bit_operations_syntax

section \<open>State\<close>

record breakpoint =
  bp_reached :: bool
  bp_flags :: usize

record ptrace_event =
  pe_cause :: usize
  pe_a :: usize

record session =
  se_breakpoint :: "breakpoint option"
  se_events :: "ptrace_event list"
  se_file_id :: nat
  se_tracee :: wait_condition
  se_tracer :: wait_condition
  se_waiting :: nat

text \<open>Sessions by process id; the variables of the running processor name the session of its context.\<close>

record ptrace_state =
  pt_cfg :: build_cfg
  pt_sessions :: "(nat \<times> nat) list"
  pt_session :: "nat \<Rightarrow> session"
  pt_next_session :: nat
  pt_cpu_flags :: usize
  pt_cpu_session :: "nat option"

type_synonym 'x pworld = "'x ptrace_state_scheme file_world"
type_synonym ('x, 'a) ptprog = "('x ptrace_state_scheme, 'a) sprog"

definition upd_pt :: "('x ptrace_state_scheme \<Rightarrow> 'x ptrace_state_scheme) \<Rightarrow> 'x pworld \<Rightarrow> 'x pworld" where
  "upd_pt f w = w\<lparr>fl_state := f (fl_state w)\<rparr>"

definition session_of :: "nat \<Rightarrow> 'x pworld \<Rightarrow> nat option" where
  "session_of pid w = map_of (pt_sessions (fl_state w)) pid"

definition the_session :: "nat \<Rightarrow> 'x pworld \<Rightarrow> session" where
  "the_session i w = pt_session (fl_state w) i"

definition upd_session :: "nat \<Rightarrow> (session \<Rightarrow> session) \<Rightarrow> 'x pworld \<Rightarrow> 'x pworld" where
  "upd_session i f = upd_pt (\<lambda>p. p\<lparr>pt_session := (pt_session p)(i := f (pt_session p i))\<rparr>)"

text \<open>Whether a weak reference to the session can still be used.\<close>

definition session_alive :: "nat \<Rightarrow> 'x pworld \<Rightarrow> bool" where
  "session_alive i w \<longleftrightarrow> i \<in> snd ` set (pt_sessions (fl_state w)) \<or> 0 < se_waiting (the_session i w)"

section \<open>Events and breakpoints\<close>

definition proc_trigger_event :: "nat \<Rightarrow> event_flags \<Rightarrow> 'x pworld \<Rightarrow> 'x pworld" where
  "proc_trigger_event file_id flags w = event_trigger (scheme_id (pt_cfg (fl_state w)) GProcFull) file_id flags w"

definition add_event :: "nat \<Rightarrow> ptrace_event \<Rightarrow> 'x pworld \<Rightarrow> 'x pworld" where
  "add_event i e w =
     (let w = upd_session i (\<lambda>s. s\<lparr>se_events := se_events s @ [e]\<rparr>) w in
      if length (se_events (the_session i w)) = 1 then proc_trigger_event (se_file_id (the_session i w)) EVENT_READ w else w)"

definition set_breakpoint :: "nat \<Rightarrow> usize option \<Rightarrow> 'x pworld \<Rightarrow> 'x pworld" where
  "set_breakpoint i flags = upd_session i (\<lambda>s. s\<lparr>se_breakpoint := map_option (\<lambda>f. \<lparr>bp_reached = False, bp_flags = f\<rparr>) flags\<rparr>)"

definition is_reached :: "session \<Rightarrow> bool" where
  "is_reached s = (case se_breakpoint s of Some b \<Rightarrow> bp_reached b | None \<Rightarrow> False)"

definition session_fevent_flags :: "session \<Rightarrow> event_flags" where
  "session_fevent_flags s = (if se_events s \<noteq> [] then EVENT_READ else 0)"

definition recv_events :: "nat \<Rightarrow> nat \<Rightarrow> 'x pworld \<Rightarrow> 'x pworld \<times> ptrace_event list" where
  "recv_events i n w =
     (let es = se_events (the_session i w); len = min n (length es)
      in (upd_session i (\<lambda>s. s\<lparr>se_events := drop len es\<rparr>) w, take len es))"

text \<open>Notifying the tracer or the tracee.\<close>

definition notify_tracer :: "nat \<Rightarrow> 'x pworld \<Rightarrow> 'x pworld" where
  "notify_tracer i w =
     (case wc_notify (se_tracer (the_session i w)) (usched w) of (_, cond, S) \<Rightarrow>
        upd_sched (\<lambda>_. S) (upd_session i (\<lambda>s. s\<lparr>se_tracer := cond\<rparr>) w))"

definition notify_tracee :: "nat \<Rightarrow> 'x pworld \<Rightarrow> 'x pworld" where
  "notify_tracee i w =
     (case wc_notify (se_tracee (the_session i w)) (usched w) of (_, cond, S) \<Rightarrow>
        upd_sched (\<lambda>_. S) (upd_session i (\<lambda>s. s\<lparr>se_tracee := cond\<rparr>) w))"

section \<open>Sessions\<close>

definition with_session :: "nat \<Rightarrow> (nat \<Rightarrow> ('x, 'a) ptprog) \<Rightarrow> ('x, 'a) ptprog" where
  "with_session pid body = bindM (getM (session_of pid)) (\<lambda>i. bindM (ok_orM i (Err ENODEV)) body)"

definition try_new_session :: "nat \<Rightarrow> nat \<Rightarrow> 'x pworld \<Rightarrow> 'x pworld \<times> bool" where
  "try_new_session pid file_id w =
     (if session_of pid w \<noteq> None then (w, False)
      else
        let i = pt_next_session (fl_state w) in
        (upd_pt (\<lambda>p. p\<lparr>pt_sessions := AList.update pid i (pt_sessions p), pt_next_session := i + 1,
            pt_session := (pt_session p)(i := \<lparr>se_breakpoint = None, se_events = [], se_file_id = file_id, se_tracee = [], se_tracer = [], se_waiting = 0\<rparr>)\<rparr>) w,
         True))"

definition close_session :: "nat \<Rightarrow> 'x pworld \<Rightarrow> 'x pworld" where
  "close_session pid w =
     (case session_of pid w of
        None \<Rightarrow> w
      | Some i \<Rightarrow> notify_tracee i (notify_tracer i (upd_pt (\<lambda>p. p\<lparr>pt_sessions := AList.delete pid (pt_sessions p)\<rparr>) w)))"

definition close_tracee :: "nat \<Rightarrow> 'x pworld \<Rightarrow> 'x pworld" where
  "close_tracee pid w =
     (case session_of pid w of
        None \<Rightarrow> w
      | Some i \<Rightarrow> let w = notify_tracer i w in proc_trigger_event (se_file_id (the_session i w)) EVENT_READ w)"

definition is_traced :: "nat \<Rightarrow> 'x pworld \<Rightarrow> bool" where
  "is_traced pid w \<longleftrightarrow> session_of pid w \<noteq> None"

definition send_event :: "ptrace_event \<Rightarrow> 'x pworld \<Rightarrow> 'x pworld \<times> bool" where
  "send_event e w =
     (case session_of (current_pid (fl_procs w)) w of
        None \<Rightarrow> (w, False)
      | Some i \<Rightarrow>
          (case se_breakpoint (the_session i w) of
             None \<Rightarrow> (w, False)
           | Some b \<Rightarrow>
               if pe_cause e AND bp_flags b \<noteq> pe_cause e then (w, False)
               else (notify_tracer i (add_event i e w), True)))"

section \<open>Waiting\<close>

text \<open>
  One round of a wait on a condition of a session.  The context holds a reference while it waits; with a signal
  pending it does not wait, and the loop around goes on at once while other processors run.
\<close>

definition wait_round ::
    "(nat \<Rightarrow> bool) \<Rightarrow> string \<Rightarrow> (session \<Rightarrow> wait_condition) \<Rightarrow> (wait_condition \<Rightarrow> session \<Rightarrow> session) \<Rightarrow> nat \<Rightarrow> ('x pworld \<Rightarrow> 'x pworld) \<Rightarrow> ('x, bool) ptprog" where
  "wait_round pending reason get put i others w =
     (case wc_wait_begin pending reason (get (the_session i w)) (usched w) of
        None \<Rightarrow> bindM (switchM others) (\<lambda>_. retM False) w
      | Some (cond, S) \<Rightarrow>
          bindM (switchM others) (\<lambda>_ w.
            case wc_wait_end (sc_current (usched w)) (get (the_session i w)) of
              (cond, waited) \<Rightarrow> Inr (upd_session i (\<lambda>s. put cond (s\<lparr>se_waiting := se_waiting s - 1\<rparr>)) w, Inr waited))
            (upd_sched (\<lambda>_. S) (upd_session i (\<lambda>s. put cond (s\<lparr>se_waiting := se_waiting s + 1\<rparr>)) w)))"

definition put_tracer :: "wait_condition \<Rightarrow> session \<Rightarrow> session" where "put_tracer c s = s\<lparr>se_tracer := c\<rparr>"
definition put_tracee :: "wait_condition \<Rightarrow> session \<Rightarrow> session" where "put_tracee c s = s\<lparr>se_tracee := c\<rparr>"

fun ptrace_wait :: "(nat \<Rightarrow> bool) \<Rightarrow> nat \<Rightarrow> ('x pworld \<Rightarrow> 'x pworld) list \<Rightarrow> ('x, unit) ptprog" where
  "ptrace_wait pending pid others =
     bindM (getM (\<lambda>w. map_option (\<lambda>i. (i, the_session i w)) (session_of pid w))) (\<lambda>so. case so of
        None \<Rightarrow> retM ()
      | Some (i, s) \<Rightarrow>
          if is_reached s \<or> se_events s \<noteq> [] then retM ()
          else (case others of
             [] \<Rightarrow> errM Asleep
           | f # rest \<Rightarrow>
               bindM (wait_round pending ''ptrace::wait'' se_tracer put_tracer i f) (\<lambda>waited.
               if waited then retM () else ptrace_wait pending pid rest)))"

declare ptrace_wait.simps [simp del]

text \<open>
  The tracee at a breakpoint.  The test of the flags of the processor and the weak reference come first; the
  answer is the flags that the tracer waited for.
\<close>

definition reach :: "nat \<Rightarrow> usize \<Rightarrow> ptrace_event option \<Rightarrow> 'x pworld \<Rightarrow> 'x pworld" where
  "reach i match_flags event w =
     notify_tracer i (add_event i (case event of Some e \<Rightarrow> e | None \<Rightarrow> \<lparr>pe_cause = match_flags, pe_a = 0\<rparr>)
       (upd_session i (\<lambda>s. s\<lparr>se_breakpoint := map_option (\<lambda>b. b\<lparr>bp_reached := True\<rparr>) (se_breakpoint s)\<rparr>) w))"

fun breakpoint_callback :: "(nat \<Rightarrow> bool) \<Rightarrow> usize \<Rightarrow> ptrace_event option \<Rightarrow> ('x pworld \<Rightarrow> 'x pworld) list \<Rightarrow> ('x, usize option) ptprog" where
  "breakpoint_callback pending match_flags event others =
     bindM (getM (\<lambda>w. (pt_cpu_flags (fl_state w) AND match_flags = match_flags,
         case pt_cpu_session (fl_state w) of Some i \<Rightarrow> if session_alive i w then Some (i, the_session i w) else None | None \<Rightarrow> None))) (\<lambda>(asked, so).
     if asked then retM None
     else (case so of
        None \<Rightarrow> retM None
      | Some (i, s) \<Rightarrow>
          (case se_breakpoint s of
             None \<Rightarrow> retM None
           | Some b \<Rightarrow>
               bindM (modM (reach i match_flags event)) (\<lambda>_.
               case others of
                 [] \<Rightarrow> errM Asleep
               | f # rest \<Rightarrow>
                   bindM (wait_round pending ''ptrace::breakpoint_callback'' se_tracee put_tracee i f) (\<lambda>waited.
                   if waited then retM (Some (bp_flags b)) else breakpoint_callback pending match_flags event rest)))))"

declare breakpoint_callback.simps [simp del]

definition next_breakpoint :: "'x pworld \<Rightarrow> usize option" where
  "next_breakpoint w =
     Option.bind (session_of (current_pid (fl_procs w)) w) (\<lambda>i. map_option bp_flags (se_breakpoint (the_session i w)))"

end
