(* ===== verification/Proc_Scheme.thy ===== *)
theory Proc_Scheme
  imports Ptrace_Session Process_Signals Memory_Calls
begin

text \<open>
  The process scheme (\<open>src/src/scheme/proc.rs\<close>): handles on processes and contexts, through which other
  processes are traced, their memory and files exchanged, and new ones created.  Registers are kept in a form
  of the architecture; reading and writing them is a parameter.  Address spaces are shared by reference and
  live on after the last handle.  While a call waits, other contexts run: their effects are an argument.
\<close>

unbundle bit_operations_syntax

section \<open>State\<close>

datatype regs_kind = RegsFloat | RegsInt | RegsEnv
datatype attr_kind = AttrUid | AttrGid

datatype proc_kind = Trace nat "nat list" bool | Static string "8 word list" | SessionId | Attr attr_kind

datatype context_kind = CtxStatus | CtxSignal | Regs regs_kind | CtxName | Sighandler | Start | NewFiletable nat "8 word list" | Filetable nat "8 word list"
  | HAddrSpace space_id | CurrentAddrSpace | AwaitingAddrSpaceChange space_id nat nat | CurrentFiletable | AwaitingFiletableChange nat | OpenViaDup | SchedAffinity
  | MmapMinAddr space_id

datatype proc_handle = HContext nat context_kind | HProcess nat proc_kind

text \<open>Where the signal control words of a context are.\<close>

record signal_ctl =
  sg_thread_off :: nat
  sg_proc_off :: nat
  sg_user_handler :: nat
  sg_excp_handler :: "nat option"
  sg_thread_frame :: frame
  sg_proc_frame :: frame

record ('m, 'f, 'r) proc_state = ptrace_state +
  pq_mem :: "('m, 'f) world"
  pq_handles :: "(nat \<times> proc_handle) list"
  pq_next_id :: usize
  pq_regs :: "nat \<Rightarrow> 'r"
  pq_kstack :: "nat \<Rightarrow> bool"
  pq_name :: "nat \<Rightarrow> 8 word list"
  pq_ctl :: "nat \<Rightarrow> signal_ctl option"
  pq_strong :: "nat \<Rightarrow> nat"
  pq_next_table :: nat

type_synonym ('m, 'f, 'r) prworld = "('m, 'f, 'r) proc_state file_world"
type_synonym ('m, 'f, 'r, 'a) prprog = "(('m, 'f, 'r) proc_state, 'a) sprog"

record sighandler_data =
  sh_user_handler :: nat
  sh_excp_handler :: nat
  sh_thread_control :: nat
  sh_proc_control :: nat

text \<open>Constants, flags and layouts of the system call crate, and the registers.\<close>

record 'r proc_env =
  v_O_EXCL :: usize
  v_O_TRUNC :: usize
  v_O_NONBLOCK :: usize
  v_PTRACE_ALL :: usize
  v_STOP_OR_EVENT :: usize
  v_SINGLESTEP :: usize
  v_EVENT_CLONE :: usize
  v_EVENT_ADDRSPACE_SWITCH :: usize
  v_OP_MMAP :: nat
  v_OP_TRANSFER :: nat
  v_OP_MUNMAP :: nat
  v_OP_MPROTECT :: nat
  v_map_flags :: "nat \<Rightarrow> map_flags option"
  v_grant_desc :: "nat \<Rightarrow> nat \<Rightarrow> grant_flags \<Rightarrow> usize \<Rightarrow> 8 word list"
  v_GRANT_DESC_SIZE :: nat
  v_event_bytes :: "ptrace_event \<Rightarrow> 8 word list"
  v_EVENT_SIZE :: nat
  v_sighandler :: "8 word list \<Rightarrow> sighandler_data"
  v_SIGHANDLER_SIZE :: nat
  v_SIGCONTROL_SIZE :: nat
  v_SIGPROC_SIZE :: nat
  v_set_ip_sp :: "nat \<Rightarrow> nat \<Rightarrow> 'r \<Rightarrow> 'r"
  v_singlestep :: "'r \<Rightarrow> 'r"
  v_regs_size :: "regs_kind \<Rightarrow> nat"
  v_regs_load :: "regs_kind \<Rightarrow> 8 word list \<Rightarrow> 'r \<Rightarrow> 'r result"
  v_regs_save :: "regs_kind \<Rightarrow> 'r \<Rightarrow> 8 word list result"

definition EOWNERDEAD :: errno where "EOWNERDEAD = Errno 130"
definition ENOTRECOVERABLE :: errno where "ENOTRECOVERABLE = Errno 131"

definition upd_pq :: "(('m, 'f, 'r) proc_state \<Rightarrow> ('m, 'f, 'r) proc_state) \<Rightarrow> ('m, 'f, 'r) prworld \<Rightarrow> ('m, 'f, 'r) prworld" where
  "upd_pq f w = w\<lparr>fl_state := f (fl_state w)\<rparr>"

definition vmM :: "('m, 'f, 'a) kprog \<Rightarrow> ('m, 'f, 'r, 'a) prprog" where
  "vmM m w = bindE (m (pq_mem (fl_state w))) (\<lambda>(v, r). Inr (upd_pq (\<lambda>x. x\<lparr>pq_mem := v\<rparr>) w, case r of Inl e \<Rightarrow> Inl (Err e) | Inr x \<Rightarrow> Inr x))"

definition the_ctx :: "nat \<Rightarrow> ('m, 'f, 'r, kcontext) prprog" where
  "the_ctx c = bindM (getM (\<lambda>w. sc_ctx (usched w) c)) (\<lambda>x. ok_orM x (Err ESRCH))"

definition upd_ctx :: "nat \<Rightarrow> (kcontext \<Rightarrow> kcontext) \<Rightarrow> ('m, 'f, 'r) prworld \<Rightarrow> ('m, 'f, 'r) prworld" where
  "upd_ctx c f w = w\<lparr>fl_procs := set_thread c f (fl_procs w)\<rparr>"

definition is_current :: "nat \<Rightarrow> ('m, 'f, 'r) prworld \<Rightarrow> bool" where
  "is_current c w \<longleftrightarrow> sc_current (usched w) = c"

text \<open>The threads of a process that still exist.\<close>

definition live_threads :: "nat \<Rightarrow> ('m, 'f, 'r) prworld \<Rightarrow> nat list" where
  "live_threads p w = filter (\<lambda>c. sc_ctx (usched w) c \<noteq> None) (pr_threads (px_proc (fl_procs w) p))"

definition first_thread :: "nat \<Rightarrow> ('m, 'f, 'r, nat) prprog" where
  "first_thread p =
     bindM (getM (\<lambda>w. (pr_threads (px_proc (fl_procs w) p), usched w))) (\<lambda>(ts, S).
     case ts of [] \<Rightarrow> errM (Err ESRCH) | c # _ \<Rightarrow> if sc_ctx S c = None then errM (Err ESRCH) else retM c)"

definition set_statuses :: "status \<Rightarrow> nat list \<Rightarrow> ('m, 'f, 'r) prworld \<Rightarrow> ('m, 'f, 'r) prworld" where
  "set_statuses s = fold (\<lambda>c. upd_ctx c (\<lambda>x. x\<lparr>ctx_status := s\<rparr>))"

definition read_from :: "user_slice \<Rightarrow> 8 word list \<Rightarrow> usize \<Rightarrow> ('m, 'f, 'r, nat) prprog" where
  "read_from dst src off = sysM (userM (copy_common_bytes_from_slice dst (drop (unat off) src)))"

section \<open>Stopping another context\<close>

fun wait_stopped :: "nat \<Rightarrow> (('m, 'f, 'r) prworld \<Rightarrow> ('m, 'f, 'r) prworld) list \<Rightarrow> ('m, 'f, 'r, unit) prprog" where
  "wait_stopped c others =
     bindM (the_ctx c) (\<lambda>x.
     if \<not> ctx_running x then retM ()
     else (case others of [] \<Rightarrow> errM Asleep | f # rest \<Rightarrow> bindM (switchM f) (\<lambda>_. wait_stopped c rest)))"

declare wait_stopped.simps [simp del]

text \<open>The status from before is put back at the end, whatever has happened in between.\<close>

definition try_stop_context ::
    "nat \<Rightarrow> (('m, 'f, 'r) prworld \<Rightarrow> ('m, 'f, 'r) prworld) list \<Rightarrow> ('m, 'f, 'r, 'a) prprog \<Rightarrow> ('m, 'f, 'r, 'a) prprog" where
  "try_stop_context c others callback =
     bindM (getM (is_current c)) (\<lambda>cur.
     if cur then callback
     else
       bindM (the_ctx c) (\<lambda>x.
       bindM (modM (upd_ctx c (\<lambda>x. x\<lparr>ctx_status := HardBlocked NotYetStarted\<rparr>))) (\<lambda>_.
       bindM (wait_stopped c others) (\<lambda>_.
       bindM (the_ctx c) (\<lambda>y.
       bindM (assertM (\<not> ctx_running y) ''process can't have been restarted, we stopped it!'') (\<lambda>_.
       bindM (resultM callback) (\<lambda>ret.
       bindM (modM (upd_ctx c (\<lambda>y. y\<lparr>ctx_status := ctx_status x\<rparr>))) (\<lambda>_.
         fromM ret))))))))"

section \<open>Opening\<close>

definition needs_child_process :: "proc_handle \<Rightarrow> bool" where
  "needs_child_process h = (case h of
     HProcess _ k \<Rightarrow> (case k of Trace _ _ _ \<Rightarrow> True | SessionId \<Rightarrow> True | _ \<Rightarrow> False)
   | HContext _ k \<Rightarrow> (case k of Regs _ \<Rightarrow> True | Filetable _ _ \<Rightarrow> True | NewFiletable _ _ \<Rightarrow> True | HAddrSpace _ \<Rightarrow> True | CurrentAddrSpace \<Rightarrow> True
       | CurrentFiletable \<Rightarrow> True | Sighandler \<Rightarrow> True | _ \<Rightarrow> False))"

definition needs_root :: "proc_handle \<Rightarrow> bool" where
  "needs_root h = (case h of HProcess _ (Attr _) \<Rightarrow> True | _ \<Rightarrow> False)"

text \<open>Children that were stopped when they were cloned and that nobody traces go on.\<close>

definition continue_ignored_children :: "proc_handle \<Rightarrow> ('m, 'f, 'r) prworld \<Rightarrow> ('m, 'f, 'r) prworld" where
  "continue_ignored_children h w = (case h of
     HProcess _ (Trace _ clones _) \<Rightarrow>
       fold (\<lambda>pid w. if is_traced pid w \<or> pid \<notin> set (px_table (fl_procs w)) then w else set_statuses Runnable (live_threads pid w) w) clones w
   | _ \<Rightarrow> w)"

definition forget_clones :: "proc_handle \<Rightarrow> proc_handle" where
  "forget_clones h = (case h of HProcess p (Trace pid _ excl) \<Rightarrow> HProcess p (Trace pid [] excl) | _ \<Rightarrow> h)"

definition new_handle :: "proc_handle \<Rightarrow> bool \<Rightarrow> ('m, 'f, 'r, nat \<times> bool) prprog" where
  "new_handle h positioned =
     bindM (getM (\<lambda>w. unat (pq_next_id (fl_state w)))) (\<lambda>i.
     bindM (modM (upd_pq (\<lambda>x. x\<lparr>pq_next_id := pq_next_id x + 1, pq_handles := AList.update i h (pq_handles x)\<rparr>))) (\<lambda>_.
       retM (i, positioned)))"

definition ctx_space :: "nat \<Rightarrow> errno \<Rightarrow> ('m, 'f, 'r, space_id) prprog" where
  "ctx_space c e = bindM (the_ctx c) (\<lambda>x. ok_orM (ctx_addr_space x) (Err e))"

definition openat_context :: "string \<Rightarrow> nat \<Rightarrow> ('m, 'f, 'r, (context_kind \<times> bool) option) prprog" where
  "openat_context path c =
     (if path = ''addrspace'' then bindM (ctx_space c ENOENT) (\<lambda>s. retM (Some (HAddrSpace s, True)))
      else if path = ''filetable'' then bindM (the_ctx c) (\<lambda>x. retM (Some (Filetable (ctx_files x) [], True)))
      else if path = ''current-addrspace'' then retM (Some (CurrentAddrSpace, False))
      else if path = ''current-filetable'' then retM (Some (CurrentFiletable, False))
      else if path = ''regs/float'' then retM (Some (Regs RegsFloat, False))
      else if path = ''regs/int'' then retM (Some (Regs RegsInt, False))
      else if path = ''regs/env'' then retM (Some (Regs RegsEnv, False))
      else if path = ''name'' then retM (Some (CtxName, True))
      else if path = ''sighandler'' then retM (Some (Sighandler, False))
      else if path = ''start'' then retM (Some (Start, False))
      else if path = ''open_via_dup'' then retM (Some (OpenViaDup, False))
      else if path = ''mmap-min-addr'' then bindM (ctx_space c ENOENT) (\<lambda>s. retM (Some (MmapMinAddr s, False)))
      else if path = ''sched-affinity'' then retM (Some (SchedAffinity, True))
      else if path = ''status'' then retM (Some (CtxStatus, False))
      else if path = ''signal'' then retM (Some (CtxSignal, False))
      else retM None)"

definition openat_process :: "'r proc_env \<Rightarrow> nat \<Rightarrow> string \<Rightarrow> usize \<Rightarrow> ('m, 'f, 'r, (proc_kind \<times> bool) option) prprog" where
  "openat_process V target name flags =
     (if name = ''trace'' then bindM (getM (\<lambda>w. pi_pid (proc_info (fl_procs w) target))) (\<lambda>pid. retM (Some (Trace pid [] (flags AND v_O_EXCL V = v_O_EXCL V), False)))
      else if name = ''exe'' then bindM (first_thread target) (\<lambda>c. bindM (getM (\<lambda>w. pq_name (fl_state w) c)) (\<lambda>bs. retM (Some (Static ''exe'' bs, True))))
      else if name = ''uid'' then retM (Some (Attr AttrUid, True))
      else if name = ''gid'' then retM (Some (Attr AttrGid, True))
      else if name = ''session_id'' then retM (Some (SessionId, True))
      else retM None)"

text \<open>
  Who may open a handle on a process.  The search through the ancestors follows at most as many parents as
  there are processes.
\<close>

definition open_allowed :: "proc_handle \<Rightarrow> nat \<Rightarrow> 32 word \<Rightarrow> 32 word \<Rightarrow> ('m, 'f, 'r, unit) prprog" where
  "open_allowed h target uid gid =
     (if needs_child_process h \<and> uid \<noteq> 0 \<and> gid \<noteq> 0 then
        bindM (sysM current_info) (\<lambda>cur.
        bindM (getM (\<lambda>w. proc_info (fl_procs w) target)) (\<lambda>t.
        if pi_pid t = pi_pid cur then retM ()
        else if uid \<noteq> pi_euid t \<and> gid \<noteq> pi_egid t then errM (Err EPERM)
        else
          bindM (getM (\<lambda>w. (pi_pid cur \<in> set (ancestors (length (px_table (fl_procs w))) (fl_procs w) (pi_ppid t)), pi_pid (proc_info (fl_procs w) (pi_pid cur))))) (\<lambda>(found, pid).
          if found then assertM (pid = pi_pid cur) ''assertion failed: id == context.read().pid'' else errM (Err EPERM))))
      else if needs_root h \<and> (uid \<noteq> 0 \<or> gid \<noteq> 0) then errM (Err EPERM)
      else retM ())"

fun nat_string :: "nat \<Rightarrow> string" where
  "nat_string n = (if n < 10 then [char_of (48 + n)] else nat_string (n div 10) @ [char_of (48 + n mod 10)])"

declare nat_string.simps [simp del]

definition ascii_bytes :: "string \<Rightarrow> 8 word list" where "ascii_bytes s = map of_char s"

text \<open>The numbers of the open files, one on each line.\<close>

definition table_listing :: "file_table \<Rightarrow> 8 word list" where
  "table_listing t = concat (map (\<lambda>i. ascii_bytes (nat_string i @ [CHR 0x0A])) (filter (\<lambda>i. t ! i \<noteq> None) [0..<length t]))"

definition fill_listing :: "proc_handle \<Rightarrow> ('m, 'f, 'r, proc_handle) prprog" where
  "fill_listing h = (case h of
     HContext c (Filetable ft _) \<Rightarrow>
       bindM (getM (\<lambda>w. (pq_strong (fl_state w) ft, fl_tables w ft))) (\<lambda>(n, t).
       if n = 0 then errM (Err EOWNERDEAD) else retM (HContext c (Filetable ft (table_listing t))))
   | HContext c (NewFiletable ft _) \<Rightarrow> bindM (getM (\<lambda>w. fl_tables w ft)) (\<lambda>t. retM (HContext c (NewFiletable ft (table_listing t))))
   | _ \<Rightarrow> retM h)"

datatype open_ty = OpenProc nat | OpenCtxt nat

definition open_target :: "open_ty \<Rightarrow> ('m, 'f, 'r, nat) prprog" where
  "open_target ty = (case ty of
     OpenProc pid \<Rightarrow> sysM (procM (get_process pid))
   | OpenCtxt c \<Rightarrow> bindM (the_ctx c) (\<lambda>x. retM (ctx_pid x)))"

definition open_handle :: "'r proc_env \<Rightarrow> open_ty \<Rightarrow> nat \<Rightarrow> string \<Rightarrow> usize \<Rightarrow> ('m, 'f, 'r, proc_handle \<times> bool) prprog" where
  "open_handle V ty target name flags =
     bindM (openat_process V target name flags) (\<lambda>po. case po of
        Some (kind, positioned) \<Rightarrow> retM (HProcess target kind, positioned)
      | None \<Rightarrow>
          bindM (case ty of OpenProc _ \<Rightarrow> first_thread target | OpenCtxt c \<Rightarrow> retM c) (\<lambda>c.
          bindM (openat_context name c) (\<lambda>co. case co of
             Some (kind, positioned) \<Rightarrow> retM (HContext c kind, positioned)
           | None \<Rightarrow> errM (Err EINVAL))))"

text \<open>A new trace handle starts a session; with \<open>O_TRUNC\<close> the process is stopped.\<close>

definition start_trace :: "'r proc_env \<Rightarrow> proc_handle \<Rightarrow> nat \<Rightarrow> nat \<Rightarrow> usize \<Rightarrow> ('m, 'f, 'r, unit) prprog" where
  "start_trace V h target i flags = (case h of
     HProcess _ (Trace pid _ _) \<Rightarrow>
       bindM (\<lambda>w. case try_new_session pid i w of (w, ok) \<Rightarrow> Inr (w, Inr ok)) (\<lambda>ok.
       if \<not> ok then errM (Err EBUSY)
       else if flags AND v_O_TRUNC V = v_O_TRUNC V then modM (\<lambda>w. set_statuses (HardBlocked PtraceStop) (live_threads target w) w)
       else retM ())
   | _ \<Rightarrow> retM ())"

definition open_inner :: "'r proc_env \<Rightarrow> open_ty \<Rightarrow> string option \<Rightarrow> usize \<Rightarrow> 32 word \<Rightarrow> 32 word \<Rightarrow> ('m, 'f, 'r, nat \<times> bool) prprog" where
  "open_inner V ty operation_str flags uid gid =
     bindM (open_target ty) (\<lambda>target.
     bindM (ok_orM operation_str (Err EINVAL)) (\<lambda>name.
     bindM (open_handle V ty target name flags) (\<lambda>(h, positioned).
     bindM (getM (\<lambda>w. pr_status (px_proc (fl_procs w) target))) (\<lambda>status.
     bindM (case status of Exited _ \<Rightarrow> errM (Err ESRCH) | _ \<Rightarrow> retM ()) (\<lambda>_.
     bindM (open_allowed h target uid gid) (\<lambda>_.
     bindM (fill_listing h) (\<lambda>h.
     bindM (new_handle h positioned) (\<lambda>(i, int_fl).
     bindM (start_trace V h target i flags) (\<lambda>_.
       retM (i, int_fl))))))))))"

end
