(* ===== verification/Proc_Calls.thy ===== *)
theory Proc_Calls
  imports Proc_Scheme
begin

text \<open>
  The operations of the process scheme on its handles (\<open>KernelScheme for ProcScheme\<close> in
  \<open>src/src/scheme/proc.rs\<close>).
\<close>

unbundle bit_operations_syntax

section \<open>New contexts\<close>

text \<open>
  What creating a context takes from the allocators: whether the kernel stack, the buffers and the reference
  are there, whether memory for the process is, and the identity of the new context.
\<close>

record spawn_env =
  sp_memory_ok :: bool
  sp_stack_ok :: bool
  sp_context_ok :: bool
  sp_context :: nat

definition proc_spawn :: "('m, 'f) mapper_ops \<Rightarrow> spawn_env \<Rightarrow> bool \<Rightarrow> nat \<Rightarrow> ('m, 'f, 'r, nat) prprog" where
  "proc_spawn M A userspace_allowed process =
     (if \<not> sp_stack_ok A \<or> \<not> sp_context_ok A then errM (Err ENOMEM)
      else
        let c = sp_context A in
        bindM (getM (\<lambda>w. pq_next_table (fl_state w))) (\<lambda>ft.
        bindM (modM (\<lambda>w. upd_sched (\<lambda>S. S\<lparr>sc_ctx := (sc_ctx S)(c \<mapsto> Context_new (pi_pid (proc_info (fl_procs w) process)) ft)\<rparr>)
                 (upd_pq (\<lambda>x. x\<lparr>pq_next_table := ft + 1, pq_strong := (pq_strong x)(ft := 1)\<rparr>) (w\<lparr>fl_tables := (fl_tables w)(ft := [])\<rparr>)))) (\<lambda>_.
        bindM (sysM (procM (modM (upd_proc process (\<lambda>p. p\<lparr>pr_threads := pr_threads p @ [c]\<rparr>))))) (\<lambda>_.
        bindM (vmM (AddrSpaceWrapper_new M)) (\<lambda>s.
        bindM (modM (upd_ctx c (\<lambda>x. x\<lparr>ctx_addr_space := Some s, ctx_userspace := userspace_allowed\<rparr>))) (\<lambda>_.
        bindM (modM (upd_pq (\<lambda>x. x\<lparr>pq_kstack := (pq_kstack x)(c := True)\<rparr>))) (\<lambda>_.
          retM c)))))))"

definition new_thread :: "('m, 'f) mapper_ops \<Rightarrow> spawn_env \<Rightarrow> ('m, 'f, 'r, nat) prprog" where
  "new_thread M A = bindM (sysM (procM process_current)) (proc_spawn M A True)"

definition new_child :: "('m, 'f) mapper_ops \<Rightarrow> 'r proc_env \<Rightarrow> spawn_env \<Rightarrow> ('m, 'f, 'r, nat) prprog" where
  "new_child M V A =
     bindM (sysM current_info) (\<lambda>cur.
     bindM (sysM (procM (new_process (sp_memory_ok A) (\<lambda>new_pid. cur\<lparr>pi_pid := new_pid, pi_ppid := pi_pid cur\<rparr>)))) (\<lambda>p.
     bindM (proc_spawn M A True p) (\<lambda>c.
     bindM (the_ctx c) (\<lambda>x.
     bindM (\<lambda>w. case send_event \<lparr>pe_cause = v_EVENT_CLONE V, pe_a = of_nat (ctx_pid x)\<rparr> w of (w, sent) \<Rightarrow> Inr (w, Inr sent)) (\<lambda>sent.
     bindM (if sent then modM (upd_ctx c (\<lambda>x. x\<lparr>ctx_status := HardBlocked PtraceStop\<rparr>)) else retM ()) (\<lambda>_.
       retM c))))))"

text \<open>A number in decimal, with an optional sign.\<close>

definition parse_decimal :: "nat \<Rightarrow> string \<Rightarrow> nat option" where
  "parse_decimal limit s =
     (let t = (case s of c # r \<Rightarrow> if c = CHR ''+'' \<and> r \<noteq> [] then r else s | [] \<Rightarrow> []);
          digit = (\<lambda>c. of_char c - (48 :: nat));
          v = foldl (\<lambda>n c. 10 * n + digit c) 0 t in
      if t \<noteq> [] \<and> list_all (\<lambda>c. 48 \<le> (of_char c :: nat) \<and> of_char c \<le> (57 :: nat)) t \<and> v < limit then Some v else None)"

text \<open>\<open>full\<close> says whether the scheme lets its callers name other processes.\<close>

definition proc_kopen :: "('m, 'f) mapper_ops \<Rightarrow> 'r proc_env \<Rightarrow> spawn_env \<Rightarrow> bool \<Rightarrow> string \<Rightarrow> usize \<Rightarrow> caller_ctx \<Rightarrow> ('m, 'f, 'r, open_result) prprog" where
  "proc_kopen M V A full path flags ctx =
     (let pid_str = takeWhile (\<lambda>c. c \<noteq> CHR ''/'') path;
          rest = (case dropWhile (\<lambda>c. c \<noteq> CHR ''/'') path of [] \<Rightarrow> None | _ # r \<Rightarrow> Some r) in
      bindM (if pid_str = ''current'' then bindM (getM (\<lambda>w. sc_current (usched w))) (\<lambda>c. retM (OpenCtxt c))
             else if pid_str = ''new'' \<or> pid_str = ''new-child'' then bindM (new_child M V A) (\<lambda>c. retM (OpenCtxt c))
             else if pid_str = ''new-thread'' then bindM (new_thread M A) (\<lambda>c. retM (OpenCtxt c))
             else if \<not> full then errM (Err EACCES)
             else bindM (ok_orM (parse_decimal (2 ^ 64) pid_str) (Err ENOENT)) (\<lambda>pid. retM (OpenProc pid))) (\<lambda>ty.
      bindM (open_inner V ty rest flags (cc_uid ctx) (cc_gid ctx)) (\<lambda>(i, fl).
        retM (SchemeLocal i fl))))"

section \<open>Handles\<close>

definition find_handle :: "nat \<Rightarrow> ('m, 'f, 'r, proc_handle) prprog" where
  "find_handle i = bindM (getM (\<lambda>w. map_of (pq_handles (fl_state w)) i)) (\<lambda>h. ok_orM h (Err EBADF))"

definition put_handle :: "nat \<Rightarrow> proc_handle \<Rightarrow> ('m, 'f, 'r) prworld \<Rightarrow> ('m, 'f, 'r) prworld" where
  "put_handle i h = upd_pq (\<lambda>x. x\<lparr>pq_handles := AList.update i h (pq_handles x)\<rparr>)"

text \<open>References to file tables that a handle owns.\<close>

definition retain_table :: "nat \<Rightarrow> ('m, 'f, 'r) prworld \<Rightarrow> ('m, 'f, 'r) prworld" where
  "retain_table ft = upd_pq (\<lambda>x. x\<lparr>pq_strong := (pq_strong x)(ft := pq_strong x ft + 1)\<rparr>)"

definition release_table :: "nat \<Rightarrow> ('m, 'f, 'r) prworld \<Rightarrow> ('m, 'f, 'r) prworld" where
  "release_table ft = upd_pq (\<lambda>x. x\<lparr>pq_strong := (pq_strong x)(ft := pq_strong x ft - 1)\<rparr>)"

definition proc_fevent :: "nat \<Rightarrow> ('m, 'f, 'r, event_flags) prprog" where
  "proc_fevent i =
     bindM (find_handle i) (\<lambda>h. case h of
        HProcess _ (Trace pid _ _) \<Rightarrow> with_session pid (\<lambda>s. getM (\<lambda>w. session_fevent_flags (the_session s w)))
      | _ \<Rightarrow> retM 0)"

text \<open>The registers of a context that has some.\<close>

definition has_regs :: "nat \<Rightarrow> ('m, 'f, 'r, bool) prprog" where
  "has_regs c = bindM (the_ctx c) (\<lambda>x. bindM (getM (\<lambda>w. pq_kstack (fl_state w) c)) (\<lambda>k. retM (ctx_userspace x \<and> k)))"

definition upd_regs :: "nat \<Rightarrow> ('r \<Rightarrow> 'r) \<Rightarrow> ('m, 'f, 'r) prworld \<Rightarrow> ('m, 'f, 'r) prworld" where
  "upd_regs c f = upd_pq (\<lambda>x. x\<lparr>pq_regs := (pq_regs x)(c := f (pq_regs x c))\<rparr>)"

text \<open>Changes of the address space and of the file table take effect when the handle is closed.\<close>

definition proc_close ::
    "'r proc_env \<Rightarrow> sig_consts \<Rightarrow> (('m, 'f, 'r) prworld \<Rightarrow> ('m, 'f, 'r) prworld) list \<Rightarrow> nat \<Rightarrow> ('m, 'f, 'r, unit) prprog" where
  "proc_close V K others i =
     bindM (find_handle i) (\<lambda>h.
     bindM (modM (upd_pq (\<lambda>x. x\<lparr>pq_handles := AList.delete i (pq_handles x)\<rparr>))) (\<lambda>_.
     bindM (modM (continue_ignored_children h)) (\<lambda>_. case h of
        HContext c (AwaitingAddrSpaceChange new sp ip) \<Rightarrow>
          bindM (try_stop_context c others (
            bindM (has_regs c) (\<lambda>ok.
            if \<not> ok then errM (Err EBADFD)
            else
              bindM (modM (upd_regs c (v_set_ip_sp V ip sp))) (\<lambda>_.
                modM (upd_ctx c (\<lambda>x. x\<lparr>ctx_addr_space := Some new\<rparr>)))))) (\<lambda>_.
            modM (\<lambda>w. fst (send_event \<lparr>pe_cause = v_EVENT_ADDRSPACE_SWITCH V, pe_a = 0\<rparr> w)))
      | HContext c (AwaitingFiletableChange new_ft) \<Rightarrow>
          bindM (the_ctx c) (\<lambda>x.
          bindM (modM (release_table (ctx_files x))) (\<lambda>_.
            modM (upd_ctx c (\<lambda>x. x\<lparr>ctx_files := new_ft\<rparr>))))
      | HContext c (NewFiletable ft _) \<Rightarrow> modM (release_table ft)
      | HProcess p (Trace pid _ excl) \<Rightarrow>
          bindM (modM (close_session pid)) (\<lambda>_.
          bindM (if excl then bindM (sysM (procM (kill K (of_nat pid) (SIGKILL K) Idempotent))) (\<lambda>_. retM ()) else retM ()) (\<lambda>_.
            modM (\<lambda>w. set_statuses Runnable (live_threads p w) w)))
      | _ \<Rightarrow> retM ())))"

definition proc_kfmap ::
    "('m, 'f) mapper_ops \<Rightarrow> 'f flag_ops \<Rightarrow> ('m, 'f) fmap_env \<Rightarrow> nat \<Rightarrow> space_id \<Rightarrow> map_args \<Rightarrow> bool \<Rightarrow> ('m, 'f, 'r, nat) prprog" where
  "proc_kfmap M F E i dst ma consume =
     bindM (find_handle i) (\<lambda>h. case h of
        HContext _ (HAddrSpace src) \<Rightarrow>
          if src = dst then errM (Err EBUSY)
          else
            bindM (fromM (validate_region (ma_address ma) (ma_size ma))) (\<lambda>(requested_dst_page, _).
            bindM (ok_orM (PageSpan_validate_nonempty (ma_offset ma) (ma_size ma)) (Err EINVAL)) (\<lambda>src_span.
            let requested_dst_base = (if ma_address ma \<noteq> 0 then Some requested_dst_page else None) in
            bindM (vmM (bindM (modM (\<lambda>v. v\<lparr>w_notify := []\<rparr>)) (\<lambda>_.
                   with_lockM src (
                     if consume then AddrSpace_move M F dst (Some src) src_span requested_dst_base (ps_count src_span) (ma_flags ma)
                     else with_lockM dst (mmap M F dst requested_dst_base (ps_count src_span) (ma_flags ma) (\<lambda>dst_page _.
                            borrow M F src dst (ps_base src_span) dst_page (ps_count src_span) (ma_flags ma) True False)))))) (\<lambda>result_base.
            bindM (vmM (bindM (getM w_notify) (handle_notify_files E))) (\<lambda>_.
              retM (Page_start_address result_base)))))
      | _ \<Rightarrow> errM (Err EBADF))"

definition proc_fsize :: "nat \<Rightarrow> ('m, 'f, 'r, nat) prprog" where
  "proc_fsize i =
     bindM (find_handle i) (\<lambda>h. retM (case h of
        HProcess _ (Static _ bytes) \<Rightarrow> length bytes
      | HContext _ (Filetable _ data) \<Rightarrow> length data
      | HContext _ (NewFiletable _ data) \<Rightarrow> length data
      | _ \<Rightarrow> 0))"

definition kind_path :: "proc_handle \<Rightarrow> string option" where
  "kind_path h = (case h of
     HProcess _ k \<Rightarrow> Some (case k of Attr AttrUid \<Rightarrow> ''uid'' | Attr AttrGid \<Rightarrow> ''gid'' | Trace _ _ _ \<Rightarrow> ''trace'' | Static ty _ \<Rightarrow> ty | SessionId \<Rightarrow> ''session_id'')
   | HContext _ k \<Rightarrow> (case k of
       Regs RegsFloat \<Rightarrow> Some ''regs/float'' | Regs RegsInt \<Rightarrow> Some ''regs/int'' | Regs RegsEnv \<Rightarrow> Some ''regs/env'' | CtxName \<Rightarrow> Some ''name''
     | Sighandler \<Rightarrow> Some ''sighandler'' | Filetable _ _ \<Rightarrow> Some ''filetable'' | HAddrSpace _ \<Rightarrow> Some ''addrspace'' | CurrentAddrSpace \<Rightarrow> Some ''current-addrspace''
     | CurrentFiletable \<Rightarrow> Some ''current-filetable'' | OpenViaDup \<Rightarrow> Some ''open-via-dup'' | MmapMinAddr _ \<Rightarrow> Some ''mmap-min-addr''
     | SchedAffinity \<Rightarrow> Some ''sched-affinity'' | _ \<Rightarrow> None))"

definition proc_kfpath :: "nat \<Rightarrow> user_slice \<Rightarrow> ('m, 'f, 'r, nat) prprog" where
  "proc_kfpath i buf =
     bindM (find_handle i) (\<lambda>h.
     bindM (ok_orM (kind_path h) (Err EOPNOTSUPP)) (\<lambda>kind.
     bindM (case h of HProcess p _ \<Rightarrow> getM (\<lambda>w. pi_pid (proc_info (fl_procs w) p)) | HContext c _ \<Rightarrow> bindM (the_ctx c) (\<lambda>x. retM (ctx_pid x))) (\<lambda>pid.
       sysM (userM (copy_common_bytes_from_slice buf (ascii_bytes (''proc:'' @ nat_string pid @ ''/'' @ kind)))))))"

section \<open>Duplicating\<close>

definition hex_value :: "string \<Rightarrow> nat option" where
  "hex_value s =
     (let t = (case s of c # r \<Rightarrow> if c = CHR ''+'' \<and> r \<noteq> [] then r else s | [] \<Rightarrow> []);
          digit = (\<lambda>c. let n = (of_char c :: nat) in if 48 \<le> n \<and> n \<le> 57 then Some (n - 48) else if 97 \<le> n \<and> n \<le> 102 then Some (n - 87)
                        else if 65 \<le> n \<and> n \<le> 70 then Some (n - 55) else None);
          v = foldl (\<lambda>a c. case (a, digit c) of (Some n, Some d) \<Rightarrow> Some (16 * n + d) | _ \<Rightarrow> None) (Some 0) t in
      if t = [] then None else case v of Some n \<Rightarrow> if n < USIZE_LIM then Some n else None | None \<Rightarrow> None)"

definition grant_description :: "space_id \<Rightarrow> string \<Rightarrow> ('m, 'f, 'r, desc_id) prprog" where
  "grant_description s str =
     bindM (ok_orM (hex_value str) (Err EINVAL)) (\<lambda>page_addr.
     if page_addr mod PAGE_BYTES \<noteq> 0 then errM (Err EINVAL)
     else
       bindM (getM (\<lambda>w. UserGrants_contains (as_grants (w_spaces (pq_mem (fl_state w)) s)) (Page_containing_address page_addr))) (\<lambda>g.
       bindM (ok_orM g (Err EINVAL)) (\<lambda>(_, info).
       bindM (ok_orM (GrantInfo_file_ref info) (Err EBADF)) (\<lambda>r.
       bindM (modM (retain (description r))) (\<lambda>_.
         retM (description r))))))"

definition bytes_string :: "8 word list \<Rightarrow> string" where "bytes_string bs = map (\<lambda>b. char_of (unat b)) bs"

text \<open>The clone of a table holds a reference to each description.\<close>

definition clone_table :: "nat \<Rightarrow> ('m, 'f, 'r, nat) prprog" where
  "clone_table ft =
     bindM (getM (\<lambda>w. (fl_tables w ft, pq_next_table (fl_state w)))) (\<lambda>(t, new).
     bindM (modM (\<lambda>w. fold (\<lambda>f. case f of Some d \<Rightarrow> retain (fd_description d) | None \<Rightarrow> id) t
              (upd_pq (\<lambda>x. x\<lparr>pq_next_table := new + 1, pq_strong := (pq_strong x)(new := 1)\<rparr>) (w\<lparr>fl_tables := (fl_tables w)(new := t)\<rparr>)))) (\<lambda>_.
       retM new))"

definition proc_kdup ::
    "('m, 'f) mapper_ops \<Rightarrow> 'f flag_ops \<Rightarrow> ('m, 'f) fmap_env \<Rightarrow> 'r proc_env \<Rightarrow> usize \<Rightarrow> nat \<Rightarrow> user_slice \<Rightarrow> ('m, 'f, 'r, open_result) prprog" where
  "proc_kdup M F E V rdwr_cloexec old_id raw_buf =
     bindM (find_handle old_id) (\<lambda>h.
     if 64 < us_len raw_buf then errM (Err EINVAL)
     else
       bindM (sysM (userM (copy_to_slice raw_buf (us_len raw_buf)))) (\<lambda>buf.
       let str = bytes_string buf in
       case h of
         HContext c OpenViaDup \<Rightarrow>
           bindM (sysM current_info) (\<lambda>i.
           bindM (if utf8_valid buf then retM () else errM (Err EINVAL)) (\<lambda>_.
           bindM (open_inner V (OpenCtxt c) (if str = '''' then None else Some str) rdwr_cloexec (pi_euid i) (pi_egid i)) (\<lambda>(r, fl).
             retM (SchemeLocal r fl))))
       | HContext c (Filetable ft data) \<Rightarrow>
           if str \<noteq> ''copy'' then errM (Err EINVAL)
           else
             bindM (getM (\<lambda>w. pq_strong (fl_state w) ft)) (\<lambda>n.
             if n = 0 then errM (Err EOWNERDEAD)
             else
               bindM (clone_table ft) (\<lambda>new.
               bindM (new_handle (HContext c (NewFiletable new data)) True) (\<lambda>(r, fl). retM (SchemeLocal r fl))))
       | HContext c (HAddrSpace s) \<Rightarrow>
           if str = ''empty'' then bindM (vmM (AddrSpaceWrapper_new M)) (\<lambda>s. bindM (new_handle (HContext c (HAddrSpace s)) True) (\<lambda>(r, fl). retM (SchemeLocal r fl)))
           else if str = ''exclusive'' then bindM (vmM (try_clone M F E s)) (\<lambda>s. bindM (new_handle (HContext c (HAddrSpace s)) True) (\<lambda>(r, fl). retM (SchemeLocal r fl)))
           else if str = ''mmap-min-addr'' then bindM (new_handle (HContext c (MmapMinAddr s)) True) (\<lambda>(r, fl). retM (SchemeLocal r fl))
           else if take 9 str = ''grant-fd-'' then
             (if utf8_valid (drop 9 buf) then bindM (grant_description s (drop 9 str)) (\<lambda>d. retM (External d)) else errM (Err EINVAL))
           else errM (Err EINVAL)
       | _ \<Rightarrow> errM (Err EINVAL)))"

end
