(* ===== verification/Proc_IO.thy ===== *)
theory Proc_IO
  imports Proc_Calls
begin

text \<open>
  Reading and writing the handles of the process scheme (\<open>ProcHandle\<close> and \<open>ContextHandle\<close> in
  \<open>src/src/scheme/proc.rs\<close>), and the signal control words that a context can place in its own memory
  (\<open>sigcontrol_raw\<close> in \<open>src/src/context/context.rs\<close>).
\<close>

unbundle bit_operations_syntax

section \<open>Words of a buffer\<close>

text \<open>The next word of the iterator over the words of a buffer, by its position.\<close>

definition nth_word :: "user_slice \<Rightarrow> nat \<Rightarrow> ('m, 'f, 'r, nat) prprog" where
  "nth_word buf k =
     (if (k + 1) * 8 \<le> us_len buf then
        bindM (expectM (UserSlice_advance buf (k * 8)) ''already limited by length, must succeed'') (\<lambda>s. sysM (userM (read_usize s)))
      else errM (Err EINVAL))"

definition region_at :: "user_slice \<Rightarrow> nat \<Rightarrow> ('m, 'f, 'r, page \<times> nat) prprog" where
  "region_at buf k = bindM (nth_word buf k) (\<lambda>a. bindM (nth_word buf (k + 1)) (\<lambda>n. fromM (validate_region a n)))"

definition flags_at :: "'r proc_env \<Rightarrow> user_slice \<Rightarrow> nat \<Rightarrow> ('m, 'f, 'r, map_flags) prprog" where
  "flags_at V buf k = bindM (nth_word buf k) (\<lambda>b. ok_orM (v_map_flags V b) (Err EINVAL))"

section \<open>Handles of processes\<close>

text \<open>
  Writing to a trace handle sets the next breakpoint.  After that every thread of the process is put into the
  status of a stopped tracee, and the tracee that waits at a breakpoint is notified.
\<close>

definition write_trace :: "'r proc_env \<Rightarrow> (('m, 'f, 'r) prworld \<Rightarrow> ('m, 'f, 'r) prworld) list \<Rightarrow> nat \<Rightarrow> nat \<Rightarrow> user_slice \<Rightarrow> ('m, 'f, 'r, nat) prprog" where
  "write_trace V others process pid buf =
     bindM (sysM (userM (read_u64 buf))) (\<lambda>raw.
     let op = of_nat raw in
     if op AND NOT (v_PTRACE_ALL V) \<noteq> 0 then errM (Err EINVAL)
     else
       bindM (with_session pid (\<lambda>s. modM (set_breakpoint s (if op AND v_STOP_OR_EVENT V \<noteq> 0 then Some op else None)))) (\<lambda>_.
       bindM (first_thread process) (\<lambda>first.
       bindM (if op AND v_SINGLESTEP V = v_SINGLESTEP V then
                try_stop_context first others (
                  bindM (has_regs first) (\<lambda>ok. if ok then modM (upd_regs first (v_singlestep V)) else errM (Err ENOTRECOVERABLE)))
              else retM ()) (\<lambda>_.
       bindM (modM (\<lambda>w. set_statuses (HardBlocked PtraceStop) (live_threads process w) w)) (\<lambda>_.
       bindM (with_session pid (\<lambda>s. modM (notify_tracee s))) (\<lambda>_.
         retM 8))))))"

definition write_session_id :: "nat \<Rightarrow> user_slice \<Rightarrow> ('m, 'f, 'r, nat) prprog" where
  "write_session_id process buf =
     bindM (sysM (userM (read_usize buf))) (\<lambda>session_id.
     bindM (getM fl_procs) (\<lambda>pw.
     if session_id \<noteq> pi_pid (proc_info pw process) then errM (Err EPERM)
     else if list_ex (\<lambda>p. session_id = pi_pgid (proc_info pw p)) (px_table pw) then errM (Err EPERM)
     else
       bindM (sysM (procM (modM (upd_info process (\<lambda>i. i\<lparr>pi_pgid := session_id, pi_session_id := session_id\<rparr>))))) (\<lambda>_.
         retM (us_len buf))))"

definition proc_write ::
    "'r proc_env \<Rightarrow> (('m, 'f, 'r) prworld \<Rightarrow> ('m, 'f, 'r) prworld) list \<Rightarrow> nat \<Rightarrow> proc_kind \<Rightarrow> user_slice \<Rightarrow> ('m, 'f, 'r, nat) prprog" where
  "proc_write V others process k buf = (case k of
     Static _ _ \<Rightarrow> errM (Err EBADF)
   | Trace pid _ _ \<Rightarrow> write_trace V others process pid buf
   | Attr a \<Rightarrow>
       bindM (sysM (userM (copy_common_bytes_to_slice buf 32))) (\<lambda>bs.
       bindM (ok_orM (if utf8_valid bs then parse_decimal (2 ^ 32) (bytes_string bs) else None) (Err EINVAL)) (\<lambda>n.
       bindM (sysM (procM (modM (upd_info process (\<lambda>i. case a of AttrUid \<Rightarrow> i\<lparr>pi_euid := of_nat n\<rparr> | AttrGid \<Rightarrow> i\<lparr>pi_egid := of_nat n\<rparr>))))) (\<lambda>_.
         retM (us_len buf))))
   | SessionId \<Rightarrow> write_session_id process buf)"

definition save_clones :: "'r proc_env \<Rightarrow> nat \<Rightarrow> ptrace_event list \<Rightarrow> ('m, 'f, 'r, unit) prprog" where
  "save_clones V i es =
     bindM (find_handle i) (\<lambda>h. case h of
        HProcess p (Trace pid clones excl) \<Rightarrow>
          modM (put_handle i (HProcess p (Trace pid (clones @ map (\<lambda>e. unat (pe_a e)) (filter (\<lambda>e. pe_cause e = v_EVENT_CLONE V) es)) excl)))
      | _ \<Rightarrow> errM (Err EBADFD))"

fun copy_events :: "'r proc_env \<Rightarrow> user_slice option list \<Rightarrow> ptrace_event list \<Rightarrow> ('m, 'f, 'r, unit) prprog" where
  "copy_events V (d # ds) (e # es) =
     bindM (expectM d ''already limited by length, must succeed'') (\<lambda>dst.
     bindM (sysM (userM (copy_exactly dst (v_event_bytes V e)))) (\<lambda>_. copy_events V ds es))"
| "copy_events V _ _ = retM ()"

text \<open>At most four events are taken; the places behind them hold default events, which are copied as well.\<close>

definition read_trace ::
    "'r proc_env \<Rightarrow> (nat \<Rightarrow> bool) \<Rightarrow> (('m, 'f, 'r) prworld \<Rightarrow> ('m, 'f, 'r) prworld) list \<Rightarrow> nat \<Rightarrow> nat \<Rightarrow> user_slice \<Rightarrow> 32 word \<Rightarrow> ('m, 'f, 'r, nat) prprog" where
  "read_trace V pending others i pid buf read_flags =
     bindM (if ucast read_flags AND v_O_NONBLOCK V \<noteq> v_O_NONBLOCK V then ptrace_wait pending pid others else retM ()) (\<lambda>_.
     bindM (sysM (procM (get_process pid))) (\<lambda>_.
     bindM (assertM (v_EVENT_SIZE V \<noteq> 0) ''attempt to divide by zero'') (\<lambda>_.
     let n = min 4 (us_len buf div v_EVENT_SIZE V) in
     bindM (with_session pid (\<lambda>s w. case recv_events s n w of (w, es) \<Rightarrow> Inr (w, Inr (es, is_reached (the_session s w))))) (\<lambda>(es, reached).
     bindM (save_clones V i es) (\<lambda>_.
     if es = [] \<and> \<not> reached then errM (Err EAGAIN)
     else
       bindM (liftE (in_exact_chunks buf (v_EVENT_SIZE V))) (\<lambda>chunks.
       bindM (copy_events V chunks (es @ replicate (n - length es) \<lparr>pe_cause = 0, pe_a = 0\<rparr>)) (\<lambda>_.
         retM (length es * v_EVENT_SIZE V))))))))"

definition proc_read ::
    "'r proc_env \<Rightarrow> (nat \<Rightarrow> bool) \<Rightarrow> (('m, 'f, 'r) prworld \<Rightarrow> ('m, 'f, 'r) prworld) list \<Rightarrow> nat \<Rightarrow> nat \<Rightarrow> proc_kind \<Rightarrow> user_slice \<Rightarrow> usize \<Rightarrow> 32 word \<Rightarrow>
     ('m, 'f, 'r, nat) prprog" where
  "proc_read V pending others i process k buf off read_flags = (case k of
     Static _ bytes \<Rightarrow> read_from buf bytes off
   | Trace pid _ _ \<Rightarrow> read_trace V pending others i pid buf read_flags
   | SessionId \<Rightarrow> bindM (getM (\<lambda>w. pi_session_id (proc_info (fl_procs w) process))) (\<lambda>s. read_from buf (to_le_bytes 8 s) off)
   | Attr a \<Rightarrow>
       bindM (getM (\<lambda>w. proc_info (fl_procs w) process)) (\<lambda>p.
         read_from buf (ascii_bytes (nat_string (unat (case a of AttrUid \<Rightarrow> pi_euid p | AttrGid \<Rightarrow> pi_egid p)))) off))"

section \<open>Signal control words\<close>

text \<open>The offset of a control word in its page, as it is accepted, and as it is checked at every use.\<close>

definition validate_off :: "nat \<Rightarrow> nat \<Rightarrow> ('m, 'f, 'r, nat) prprog" where
  "validate_off addr sz =
     (let off = addr mod PAGE_BYTES in if off mod 8 = 0 \<and> off + sz \<le> PAGE_BYTES then retM off else errM (Err EINVAL))"

definition sigcontrol_raw :: "'r proc_env \<Rightarrow> signal_ctl \<Rightarrow> ((frame \<times> nat) \<times> (frame \<times> nat)) exec" where
  "sigcontrol_raw V sig =
     (let check = (\<lambda>off. bindE (assertE (off mod 8 = 0) ''assertion failed: off % align_of == 0'') (\<lambda>_.
                         assertE (u_sat_add off (v_SIGCONTROL_SIZE V) < PAGE_BYTES) ''assertion failed: off + size_of < PAGE_SIZE'')) in
      bindE (check (sg_proc_off sig)) (\<lambda>_. bindE (check (sg_thread_off sig)) (\<lambda>_. Inr ((sg_thread_frame sig, sg_thread_off sig), (sg_proc_frame sig, sg_proc_off sig)))))"

definition drop_frame :: "frame \<Rightarrow> ('m, 'f, 'r, unit) prprog" where
  "drop_frame f = vmM (allocM (\<lambda>a. bindE (RaiiFrame_drop f a) (\<lambda>a. Inr (a, ()))))"

definition drop_ctl :: "signal_ctl option \<Rightarrow> ('m, 'f, 'r, unit) prprog" where
  "drop_ctl c = (case c of None \<Rightarrow> retM () | Some s \<Rightarrow> bindM (drop_frame (sg_thread_frame s)) (\<lambda>_. drop_frame (sg_proc_frame s)))"

definition write_sighandler ::
    "('m, 'f) mapper_ops \<Rightarrow> 'f flag_ops \<Rightarrow> ('m, 'f) fmap_env \<Rightarrow> 'r proc_env \<Rightarrow> nat \<Rightarrow> user_slice \<Rightarrow> ('m, 'f, 'r, nat) prprog" where
  "write_sighandler M F E V c buf =
     bindM (sysM (userM (read_exact buf (v_SIGHANDLER_SIZE V)))) (\<lambda>bs.
     let data = v_sighandler V bs in
     if USER_END_OFFSET \<le> sh_user_handler data \<or> USER_END_OFFSET \<le> sh_excp_handler data then errM (Err EPERM)
     else if USER_END_OFFSET \<le> sh_thread_control data \<or> USER_END_OFFSET \<le> sh_proc_control data then errM (Err EFAULT)
     else
       bindM (if sh_thread_control data \<noteq> 0 \<and> sh_proc_control data \<noteq> 0 then
                bindM (ctx_space c ESRCH) (\<lambda>s.
                bindM (validate_off (sh_thread_control data) (v_SIGCONTROL_SIZE V)) (\<lambda>threadctl_off.
                bindM (validate_off (sh_proc_control data) (v_SIGPROC_SIZE V)) (\<lambda>procctl_off.
                if sh_user_handler data = 0 then errM (Err EINVAL)
                else
                  bindM (vmM (borrow_frame_enforce_rw_allocated M F E s (Page_containing_address (sh_thread_control data)))) (\<lambda>thread_control.
                  bindM (resultM (vmM (borrow_frame_enforce_rw_allocated M F E s (Page_containing_address (sh_proc_control data))))) (\<lambda>r. case r of
                     Inl e \<Rightarrow> bindM (drop_frame thread_control) (\<lambda>_. errM (Err e))
                   | Inr proc_control \<Rightarrow>
                       retM (Some \<lparr>sg_thread_off = threadctl_off, sg_proc_off = procctl_off, sg_user_handler = sh_user_handler data,
                         sg_excp_handler = (if sh_excp_handler data = 0 then None else Some (sh_excp_handler data)),
                         sg_thread_frame = thread_control, sg_proc_frame = proc_control\<rparr>))))))
              else retM None) (\<lambda>state.
       bindM (getM (\<lambda>w. pq_ctl (fl_state w) c)) (\<lambda>old.
       bindM (modM (upd_pq (\<lambda>x. x\<lparr>pq_ctl := (pq_ctl x)(c := state)\<rparr>))) (\<lambda>_.
       bindM (drop_ctl old) (\<lambda>_.
         retM (v_SIGHANDLER_SIZE V))))))"

section \<open>Handles of contexts\<close>

text \<open>The scheme and number behind a descriptor of the caller.\<close>

definition extract_scheme_number :: "nat \<Rightarrow> ('m, 'f, 'r, kernel_scheme \<times> nat) prprog" where
  "extract_scheme_number fd =
     bindM (getM (\<lambda>w. (get_file fd (current_table w), fl_desc w))) (\<lambda>(f, desc).
     bindM (ok_orM f (Err EBADF)) (\<lambda>file.
     bindM (sysM (scheme_of ENODEV (de_scheme (desc (fd_description file))))) (\<lambda>scheme.
       retM (scheme, de_number (desc (fd_description file))))))"

definition verify_scheme :: "kernel_scheme \<Rightarrow> ('m, 'f, 'r, unit) prprog" where
  "verify_scheme scheme = (if scheme = Global GProcFull \<or> scheme = Global GProcRestricted then retM () else errM (Err EBADF))"

text \<open>\<open>K\<close> stands for \<open>kfmap\<close> of the scheme of the mapped file.\<close>

definition write_addrspace ::
    "('m, 'f) mapper_ops \<Rightarrow> 'f flag_ops \<Rightarrow> 'r proc_env \<Rightarrow> (kernel_scheme \<Rightarrow> nat \<Rightarrow> space_id \<Rightarrow> map_args \<Rightarrow> bool \<Rightarrow> ('m, 'f, 'r, nat) prprog) \<Rightarrow>
     space_id \<Rightarrow> user_slice \<Rightarrow> ('m, 'f, 'r, nat) prprog" where
  "write_addrspace M F V K s buf =
     bindM (nth_word buf 0) (\<lambda>op.
     if op = v_OP_MMAP V \<or> op = v_OP_TRANSFER V then
       bindM (nth_word buf 1) (\<lambda>fd.
       bindM (nth_word buf 2) (\<lambda>off.
       bindM (region_at buf 3) (\<lambda>(page, page_count).
       bindM (flags_at V buf 5) (\<lambda>flags.
       if \<not> MAP_FIXED flags then errM (Err EOPNOTSUPP)
       else
         bindM (extract_scheme_number fd) (\<lambda>(scheme, number).
         bindM (K scheme number s \<lparr>ma_offset = off, ma_size = u_mul page_count PAGE_BYTES, ma_flags = flags, ma_address = Page_start_address page\<rparr> (op = v_OP_TRANSFER V)) (\<lambda>_.
           retM (6 * 8)))))))
     else if op = v_OP_MUNMAP V then
       bindM (region_at buf 1) (\<lambda>(page, page_count).
       bindM (vmM (munmap M F s (PageSpan_new page page_count) False)) (\<lambda>_. retM (3 * 8)))
     else if op = v_OP_MPROTECT V then
       bindM (region_at buf 1) (\<lambda>(page, page_count).
       bindM (flags_at V buf 3) (\<lambda>flags.
       bindM (vmM (mprotect M F s (PageSpan_new page page_count) flags)) (\<lambda>_. retM (4 * 8))))
     else errM (Err EINVAL))"

definition write_regs ::
    "'r proc_env \<Rightarrow> (('m, 'f, 'r) prworld \<Rightarrow> ('m, 'f, 'r) prworld) list \<Rightarrow> nat \<Rightarrow> regs_kind \<Rightarrow> user_slice \<Rightarrow> ('m, 'f, 'r, nat) prprog" where
  "write_regs V others c k buf =
     bindM (sysM (userM (read_exact buf (v_regs_size V k)))) (\<lambda>bs.
     try_stop_context c others (
       bindM (if k = RegsInt then has_regs c else retM True) (\<lambda>ok.
       if \<not> ok then errM (Err ENOTRECOVERABLE)
       else
         bindM (getM (\<lambda>w. v_regs_load V k bs (pq_regs (fl_state w) c))) (\<lambda>r. case r of
            Inr regs \<Rightarrow> bindM (modM (upd_regs c (\<lambda>_. regs))) (\<lambda>_. retM (v_regs_size V k))
          | Inl e \<Rightarrow> if k = RegsFloat then retM (v_regs_size V k) else errM (Err e)))))"

text \<open>The tables that a handle names for the next change; a fresh table becomes an ordinary one.\<close>

definition write_filetable :: "nat \<Rightarrow> nat \<Rightarrow> user_slice \<Rightarrow> ('m, 'f, 'r, nat) prprog" where
  "write_filetable i c buf =
     bindM (sysM (userM (read_usize buf))) (\<lambda>fd.
     bindM (extract_scheme_number fd) (\<lambda>(scheme, number).
     bindM (verify_scheme scheme) (\<lambda>_.
     bindM (find_handle number) (\<lambda>h.
     bindM (case h of
         HContext _ (Filetable ft _) \<Rightarrow>
           bindM (getM (\<lambda>w. pq_strong (fl_state w) ft)) (\<lambda>n. if n = 0 then errM (Err EOWNERDEAD) else bindM (modM (retain_table ft)) (\<lambda>_. retM ft))
       | HContext _ (NewFiletable ft data) \<Rightarrow> bindM (modM (put_handle number (HContext c (Filetable ft data)))) (\<lambda>_. retM ft)
       | _ \<Rightarrow> errM (Err EBADF)) (\<lambda>ft.
     bindM (resultM (find_handle i)) (\<lambda>r. case r of
        Inl e \<Rightarrow> bindM (modM (release_table ft)) (\<lambda>_. errM (Err e))
      | Inr _ \<Rightarrow> bindM (modM (put_handle i (HContext c (AwaitingFiletableChange ft)))) (\<lambda>_. retM 8)))))))"

definition write_current_addrspace :: "nat \<Rightarrow> nat \<Rightarrow> user_slice \<Rightarrow> ('m, 'f, 'r, nat) prprog" where
  "write_current_addrspace i c buf =
     bindM (nth_word buf 0) (\<lambda>fd.
     bindM (nth_word buf 1) (\<lambda>sp.
     bindM (nth_word buf 2) (\<lambda>ip.
     bindM (extract_scheme_number fd) (\<lambda>(scheme, number).
     bindM (verify_scheme scheme) (\<lambda>_.
     bindM (find_handle number) (\<lambda>h. case h of
        HContext _ (HAddrSpace s) \<Rightarrow>
          bindM (find_handle i) (\<lambda>_.
          bindM (modM (put_handle i (HContext c (AwaitingAddrSpaceChange s sp ip)))) (\<lambda>_.
            retM (3 * 8)))
      | _ \<Rightarrow> errM (Err EBADF)))))))"

text \<open>Ending a thread; the caller may ask for a range to be unmapped when another thread is gone.\<close>

definition write_exit ::
    "('m, 'f) mapper_ops \<Rightarrow> 'f flag_ops \<Rightarrow> ('m, 'f) fmap_env \<Rightarrow> (nat \<Rightarrow> proc_world \<Rightarrow> proc_world) \<Rightarrow> nat \<Rightarrow> user_slice \<Rightarrow> ('m, 'f, 'r, nat) prprog" where
  "write_exit M F E others c buf =
     bindM (nth_word buf 0) (\<lambda>user_data.
     if user_data \<noteq> 2 ^ 64 - 1 then errM (Err EOPNOTSUPP)
     else
       bindM (getM (is_current c)) (\<lambda>cur.
       bindM (the_ctx c) (\<lambda>x.
       bindM (sysM (procM (modM (upd_proc (ctx_pid x) (\<lambda>p. p\<lparr>pr_threads := remove1 c (pr_threads p)\<rparr>))))) (\<lambda>_.
       if cur then bindM (sysM (procM (exit_this_context others))) (\<lambda>_. errM Asleep)
       else
         bindM (sysM (procM (modM (wait_for_exit others c)))) (\<lambda>_.
         if us_len buf < 16 then retM 8
         else
           bindM (nth_word buf 1) (\<lambda>base.
           bindM (nth_word buf 2) (\<lambda>size'.
           if size' = 0 then retM (3 * 8)
           else
             bindM (ctx_space c ESRCH) (\<lambda>s.
             bindM (ok_orM (PageSpan_validate_nonempty base size') (Err EINVAL)) (\<lambda>span.
             bindM (vmM (bindM (munmap M F s span False) (handle_notify_files E))) (\<lambda>_.
               retM (3 * 8)))))))))))"

definition write_signal :: "sig_consts \<Rightarrow> nat \<Rightarrow> user_slice \<Rightarrow> ('m, 'f, 'r, nat) prprog" where
  "write_signal K c buf =
     bindM (sysM current_info) (\<lambda>me.
     bindM (sysM (userM (read_u32 buf))) (\<lambda>sig.
     bindM (sysM (procM (send_signal K 2 (KThread c) sig Idempotent False (sender_of me)))) (\<lambda>killed_self.
     if killed_self then errM (Err EINTR) else retM 4)))"

fun le_words :: "8 word list \<Rightarrow> usize list" where
  "le_words bs = (if bs = [] then [] else of_nat (from_le_bytes (take 8 bs)) # le_words (drop 8 bs))"

declare le_words.simps [simp del]

definition context_write ::
    "('m, 'f) mapper_ops \<Rightarrow> 'f flag_ops \<Rightarrow> ('m, 'f) fmap_env \<Rightarrow> 'r proc_env \<Rightarrow> sig_consts \<Rightarrow>
     (kernel_scheme \<Rightarrow> nat \<Rightarrow> space_id \<Rightarrow> map_args \<Rightarrow> bool \<Rightarrow> ('m, 'f, 'r, nat) prprog) \<Rightarrow> (nat \<Rightarrow> proc_world \<Rightarrow> proc_world) \<Rightarrow>
     (('m, 'f, 'r) prworld \<Rightarrow> ('m, 'f, 'r) prworld) list \<Rightarrow> nat \<Rightarrow> nat \<Rightarrow> context_kind \<Rightarrow> user_slice \<Rightarrow> ('m, 'f, 'r, nat) prprog" where
  "context_write M F E V KS K exits others i c k buf = (case k of
     HAddrSpace s \<Rightarrow> write_addrspace M F V K s buf
   | Regs r \<Rightarrow> write_regs V others c r buf
   | CtxName \<Rightarrow>
       bindM (sysM (userM (copy_common_bytes_to_slice buf 256))) (\<lambda>bs.
       if \<not> utf8_valid bs then errM (Err EINVAL)
       else bindM (modM (upd_pq (\<lambda>x. x\<lparr>pq_name := (pq_name x)(c := bs)\<rparr>))) (\<lambda>_. retM (us_len buf)))
   | Sighandler \<Rightarrow> write_sighandler M F E V c buf
   | Start \<Rightarrow>
       bindM (the_ctx c) (\<lambda>x.
       if ctx_status x = HardBlocked NotYetStarted then bindM (modM (upd_ctx c (\<lambda>x. x\<lparr>ctx_status := Runnable\<rparr>))) (\<lambda>_. retM (us_len buf))
       else errM (Err EINVAL))
   | Filetable _ _ \<Rightarrow> errM (Err EBADF)
   | NewFiletable _ _ \<Rightarrow> errM (Err EBADF)
   | CurrentFiletable \<Rightarrow> write_filetable i c buf
   | CurrentAddrSpace \<Rightarrow> write_current_addrspace i c buf
   | MmapMinAddr s \<Rightarrow>
       bindM (sysM (userM (read_usize buf))) (\<lambda>val.
       if val mod PAGE_BYTES \<noteq> 0 \<or> USER_END_OFFSET < val then errM (Err EINVAL)
       else bindM (vmM (with_lockM s (modM (upd_space s (\<lambda>sp. sp\<lparr>as_mmap_min := val\<rparr>))))) (\<lambda>_. retM 8))
   | SchedAffinity \<Rightarrow>
       bindM (sysM (userM (read_exact buf (8 * SET_WORDS)))) (\<lambda>bs.
       bindM (modM (upd_ctx c (\<lambda>x. x\<lparr>ctx_sched_affinity := CpuSet_override_from (ctx_sched_affinity x) (le_words bs)\<rparr>))) (\<lambda>_.
         retM (8 * SET_WORDS)))
   | CtxStatus \<Rightarrow> write_exit M F E exits c buf
   | CtxSignal \<Rightarrow> write_signal KS c buf
   | OpenViaDup \<Rightarrow> errM (Err EBADF)
   | AwaitingAddrSpaceChange _ _ _ \<Rightarrow> errM (Err EBADF)
   | AwaitingFiletableChange _ \<Rightarrow> errM (Err EBADF))"

text \<open>At most sixteen grants at a time; the result counts them all, also those that the buffer does not hold.\<close>

fun copy_descs :: "user_slice option list \<Rightarrow> 8 word list list \<Rightarrow> ('m, 'f, 'r, unit) prprog" where
  "copy_descs (d # ds) (b # bs) =
     bindM (expectM d ''already limited by length, must succeed'') (\<lambda>dst. bindM (sysM (userM (copy_exactly dst b))) (\<lambda>_. copy_descs ds bs))"
| "copy_descs _ _ = retM ()"

definition read_grants :: "'f flag_ops \<Rightarrow> 'r proc_env \<Rightarrow> space_id \<Rightarrow> user_slice \<Rightarrow> usize \<Rightarrow> ('m, 'f, 'r, nat) prprog" where
  "read_grants F V s buf off =
     bindM (assertM (v_GRANT_DESC_SIZE V \<noteq> 0) ''attempt to divide by zero'') (\<lambda>_.
     bindM (getM (\<lambda>w. take 16 (drop (unat off div v_GRANT_DESC_SIZE V) (ug_inner (as_grants (w_spaces (pq_mem (fl_state w)) s)))))) (\<lambda>gs.
     let descs = map (\<lambda>(base, info). v_grant_desc V (Page_start_address base) (u_mul (gi_page_count info) PAGE_BYTES) (GrantInfo_grant_flags F info)
                    (case GrantInfo_file_ref info of Some f \<Rightarrow> of_nat (base_offset f) | None \<Rightarrow> - 1)) gs in
     bindM (liftE (in_exact_chunks buf (v_GRANT_DESC_SIZE V))) (\<lambda>chunks.
     bindM (copy_descs chunks descs) (\<lambda>_.
       retM (length gs * v_GRANT_DESC_SIZE V)))))"

definition read_regs ::
    "'r proc_env \<Rightarrow> (('m, 'f, 'r) prworld \<Rightarrow> ('m, 'f, 'r) prworld) list \<Rightarrow> nat \<Rightarrow> regs_kind \<Rightarrow> user_slice \<Rightarrow> ('m, 'f, 'r, nat) prprog" where
  "read_regs V others c k buf =
     bindM (let save = bindM (getM (\<lambda>w. v_regs_save V k (pq_regs (fl_state w) c))) fromM in
            case k of
              RegsFloat \<Rightarrow> save
            | RegsInt \<Rightarrow> try_stop_context c others (bindM (has_regs c) (\<lambda>ok. if ok then save else errM (Err ENOTRECOVERABLE)))
            | RegsEnv \<Rightarrow> try_stop_context c others save) (\<lambda>bs.
       sysM (userM (copy_common_bytes_from_slice buf bs)))"

definition context_read ::
    "'f flag_ops \<Rightarrow> 'r proc_env \<Rightarrow> (('m, 'f, 'r) prworld \<Rightarrow> ('m, 'f, 'r) prworld) list \<Rightarrow> nat \<Rightarrow> context_kind \<Rightarrow> user_slice \<Rightarrow> usize \<Rightarrow> ('m, 'f, 'r, nat) prprog" where
  "context_read F V others c k buf off = (case k of
     Regs r \<Rightarrow> read_regs V others c r buf
   | HAddrSpace s \<Rightarrow> read_grants F V s buf off
   | CtxName \<Rightarrow> bindM (getM (\<lambda>w. pq_name (fl_state w) c)) (\<lambda>name. read_from buf name off)
   | Filetable _ data \<Rightarrow> read_from buf data off
   | MmapMinAddr s \<Rightarrow>
       bindM (getM (\<lambda>w. as_mmap_min (w_spaces (pq_mem (fl_state w)) s))) (\<lambda>v. bindM (sysM (userM (write_usize buf v))) (\<lambda>_. retM 8))
   | SchedAffinity \<Rightarrow>
       bindM (the_ctx c) (\<lambda>x.
       bindM (sysM (userM (copy_exactly buf (concat (map (\<lambda>v. to_le_bytes 8 (unat v)) (CpuSet_to_raw (ctx_sched_affinity x))))))) (\<lambda>_.
         retM (8 * SET_WORDS)))
   | _ \<Rightarrow> errM (Err EBADF))"

definition proc_kreadoff ::
    "'f flag_ops \<Rightarrow> 'r proc_env \<Rightarrow> (nat \<Rightarrow> bool) \<Rightarrow> (('m, 'f, 'r) prworld \<Rightarrow> ('m, 'f, 'r) prworld) list \<Rightarrow> nat \<Rightarrow> user_slice \<Rightarrow> usize \<Rightarrow> 32 word \<Rightarrow> ('m, 'f, 'r, nat) prprog" where
  "proc_kreadoff F V pending others i buf off read_flags =
     bindM (find_handle i) (\<lambda>h. case h of
        HContext c k \<Rightarrow> context_read F V others c k buf off
      | HProcess p k \<Rightarrow> proc_read V pending others i p k buf off read_flags)"

definition proc_kwriteoff ::
    "('m, 'f) mapper_ops \<Rightarrow> 'f flag_ops \<Rightarrow> ('m, 'f) fmap_env \<Rightarrow> 'r proc_env \<Rightarrow> sig_consts \<Rightarrow>
     (kernel_scheme \<Rightarrow> nat \<Rightarrow> space_id \<Rightarrow> map_args \<Rightarrow> bool \<Rightarrow> ('m, 'f, 'r, nat) prprog) \<Rightarrow> (nat \<Rightarrow> proc_world \<Rightarrow> proc_world) \<Rightarrow>
     (('m, 'f, 'r) prworld \<Rightarrow> ('m, 'f, 'r) prworld) list \<Rightarrow> nat \<Rightarrow> user_slice \<Rightarrow> ('m, 'f, 'r, nat) prprog" where
  "proc_kwriteoff M F E V KS K exits others i buf =
     bindM (find_handle i) (\<lambda>h.
     bindM (modM (continue_ignored_children h)) (\<lambda>_.
     bindM (modM (put_handle i (forget_clones h))) (\<lambda>_. case forget_clones h of
        HProcess p k \<Rightarrow> proc_write V others p k buf
      | HContext c k \<Rightarrow> context_write M F E V KS K exits others i c k buf)))"

end
