(* ===== verification/Proc_Safety.thy ===== *)
theory Proc_Safety
  imports Proc_IO File_Balance Munmap_Correct
begin

text \<open>
  What the process scheme guarantees: who gets a handle on which process, in which state a traced process is
  after a write of its tracer, and which signal control words a context may have.
\<close>

unbundle bit_operations_syntax

lemma runs_sysM [runs_simps]: "runs (sysM m) w Q \<longleftrightarrow> runs m w (\<lambda>w' r. Q w' (case r of Inl e \<Rightarrow> Inl (Err e) | Inr x \<Rightarrow> Inr x))"
  by (simp add: sysM_def runs_simps)

lemma procM_get_process: "procM (get_process p) w = Inr (w, if p \<in> set (px_table (fl_procs w)) then Inr p else Inl ESRCH)"
  by (simp add: procM_def get_process_def)

lemma current_info_eq:
  "current_info w = Inr (w, if current_pid (fl_procs w) \<in> set (px_table (fl_procs w)) then Inr (proc_info (fl_procs w) (current_pid (fl_procs w))) else Inl ESRCH)"
  by (simp add: current_info_def procM_def process_current_def get_process_def)

section \<open>Permissions\<close>

text \<open>
  The rule for handles that give control over a process: the caller belongs to root or to the group of root,
  or it is the process itself, or it shares the user or the group with a descendant.
\<close>

definition may_control :: "32 word \<Rightarrow> 32 word \<Rightarrow> nat \<Rightarrow> proc_world \<Rightarrow> bool" where
  "may_control uid gid target w \<longleftrightarrow> uid = 0 \<or> gid = 0 \<or>
     (let t = proc_info w target; self = pi_pid (proc_info w (current_pid w)) in
      pi_pid t = self \<or> (uid = pi_euid t \<or> gid = pi_egid t) \<and> self \<in> set (ancestors (length (px_table w)) w (pi_ppid t)))"

text \<open>The process that an open is about, and that its handle belongs to it.\<close>

definition opened_process :: "open_ty \<Rightarrow> proc_world \<Rightarrow> nat" where
  "opened_process ty w = (case ty of OpenProc pid \<Rightarrow> pid | OpenCtxt c \<Rightarrow> (case sc_ctx (px_sched w) c of Some x \<Rightarrow> ctx_pid x | None \<Rightarrow> 0))"

definition handle_about :: "open_ty \<Rightarrow> proc_handle \<Rightarrow> proc_world \<Rightarrow> bool" where
  "handle_about ty h w = (case h of
     HProcess p _ \<Rightarrow> p = opened_process ty w
   | HContext c _ \<Rightarrow> (case ty of OpenProc pid \<Rightarrow> \<exists>ts. pr_threads (px_proc w pid) = c # ts | OpenCtxt c' \<Rightarrow> c = c'))"

definition granted :: "32 word \<Rightarrow> 32 word \<Rightarrow> proc_handle \<Rightarrow> nat \<Rightarrow> proc_world \<Rightarrow> bool" where
  "granted uid gid h target w \<longleftrightarrow> (needs_child_process h \<longrightarrow> may_control uid gid target w) \<and> (needs_root h \<longrightarrow> uid = 0 \<and> gid = 0)"

text \<open>
  The paths below a process that give control over it: tracing, registers, files, memory and signal
  handling; and that opening one of them makes a handle that is checked.
\<close>

definition control_paths :: "string set" where
  "control_paths = {''trace'', ''session_id'', ''regs/float'', ''regs/int'', ''regs/env'', ''filetable'', ''addrspace'',
     ''current-addrspace'', ''current-filetable'', ''sighandler''}"

definition identity_paths :: "string set" where
  "identity_paths = {''uid'', ''gid''}"

definition path_checked :: "string \<Rightarrow> proc_handle \<Rightarrow> bool" where
  "path_checked name h \<longleftrightarrow> (name \<in> control_paths \<longrightarrow> needs_child_process h) \<and> (name \<in> identity_paths \<longrightarrow> needs_root h)"

lemma openat_process_checked:
  assumes "openat_process V target name flags w = Inr (w', Inr po)"
  shows "case po of Some (k, _) \<Rightarrow> path_checked name (HProcess p k) | None \<Rightarrow> name \<notin> {''trace'', ''session_id'', ''uid'', ''gid''}"
  using assms
  by (auto simp: openat_process_def path_checked_def control_paths_def identity_paths_def needs_child_process_def needs_root_def bindM_Inr_iff split: if_splits)

lemma openat_context_checked:
  assumes "openat_context name c w = Inr (w', Inr (Some (k, q)))" "name \<notin> {''trace'', ''session_id'', ''uid'', ''gid''}"
  shows "path_checked name (HContext c k)"
  using assms
  by (auto simp: openat_context_def path_checked_def control_paths_def identity_paths_def needs_child_process_def needs_root_def bindM_Inr_iff split: if_splits)

lemma open_allowed_run:
  assumes "open_allowed h target uid gid w = Inr (w', r)"
  shows "w' = w" "r = Inr () \<Longrightarrow> granted uid gid h target (fl_procs w)"
proof -
  have *: "runs (open_allowed h target uid gid) w (\<lambda>w' r. w' = w \<and> (r = Inr () \<longrightarrow> granted uid gid h target (fl_procs w)))"
    if "runs (open_allowed h target uid gid) w (\<lambda>_ _. True)"
    using that
    by (auto simp: open_allowed_def runs_simps granted_def may_control_def runs_def [of current_info] current_info_eq needs_root_def needs_child_process_def
        split: if_splits proc_handle.splits proc_kind.splits)
  have "runs (open_allowed h target uid gid) w (\<lambda>_ _. True)" using assms by (simp add: runs_def)
  with * show "w' = w" "r = Inr () \<Longrightarrow> granted uid gid h target (fl_procs w)" using assms by (auto simp: runs_def)
qed

lemma open_target_run:
  assumes "open_target ty w = Inr (w', r)"
  shows "w' = w" "r = Inr target \<Longrightarrow> target = opened_process ty (fl_procs w)"
  using assms
  by (auto simp: open_target_def opened_process_def the_ctx_def sysM_def map_errM_def procM_get_process bindM_def ok_orM_def
      split: open_ty.splits option.splits if_splits)

lemma first_thread_run:
  assumes "first_thread p w = Inr (w', r)"
  shows "w' = w" "r = Inr c \<Longrightarrow> \<exists>ts. pr_threads (px_proc (fl_procs w) p) = c # ts"
  using assms by (auto simp: first_thread_def bindM_def split: list.splits if_splits)

lemma ctx_space_same: "ctx_space c e w = Inr (w', r) \<Longrightarrow> w' = w"
  by (auto simp: ctx_space_def the_ctx_def bindM_def ok_orM_def split: option.splits)

lemma openat_process_same: "openat_process V target name flags w = Inr (w', r) \<Longrightarrow> w' = w"
  by (auto simp: openat_process_def bindM_Inr_iff dest: first_thread_run(1) split: if_splits)

lemma openat_context_same: "openat_context path c w = Inr (w', r) \<Longrightarrow> w' = w"
  by (auto simp: openat_context_def bindM_Inr_iff the_ctx_def ok_orM_def dest: ctx_space_same split: if_splits option.splits)

text \<open>A sequence that has returned: it failed in its first part, or the first part has a value.\<close>

lemma bindM_cases:
  assumes "bindM m f w = Inr (w', r)"
  obtains (err) e where "m w = Inr (w', Inl e)" "r = Inl e" | (ok) v x where "m w = Inr (v, Inr x)" "f x v = Inr (w', r)"
  using assms by (auto simp: bindM_Inr_iff)

lemma open_thread_run:
  assumes "(case ty of OpenProc _ \<Rightarrow> first_thread target | OpenCtxt c \<Rightarrow> retM c) w = Inr (w', r)" "target = opened_process ty (fl_procs w)"
  shows "w' = w" "r = Inr c \<Longrightarrow> handle_about ty (HContext c k) (fl_procs w)"
  using assms by (auto simp: handle_about_def opened_process_def dest: first_thread_run split: open_ty.splits)

lemma open_handle_run:
  assumes run: "open_handle V ty target name flags w = Inr (w', r)" and t: "target = opened_process ty (fl_procs w)"
  shows "w' = w \<and> (\<forall>h p. r = Inr (h, p) \<longrightarrow> handle_about ty h (fl_procs w) \<and> path_checked name h)"
  using run unfolding open_handle_def
proof (cases rule: bindM_cases)
  case (err e)
  then show ?thesis by (auto dest: openat_process_same)
next
  case (ok v po)
  then have v: "v = w" by (auto dest: openat_process_same)
  show ?thesis
  proof (cases po)
    case (Some kp)
    with ok v t show ?thesis
      using openat_process_checked [OF ok(1), of target] by (cases kp) (auto simp: handle_about_def)
  next
    case None
    have new: "name \<notin> {''trace'', ''session_id'', ''uid'', ''gid''}" using openat_process_checked [OF ok(1)] None by simp
    from None ok(2) have "bindM (case ty of OpenProc _ \<Rightarrow> first_thread target | OpenCtxt c \<Rightarrow> retM c) (\<lambda>c. bindM (openat_context name c) (\<lambda>co. case co of
        Some (kind, positioned) \<Rightarrow> retM (HContext c kind, positioned) | None \<Rightarrow> errM (Err EINVAL))) w = Inr (w', r)"
      by (simp add: v)
    then show ?thesis
    proof (cases rule: bindM_cases)
      case (ok u c)
      from ok(2) show ?thesis
        by (cases rule: bindM_cases) (use open_thread_run [OF ok(1) t] new in \<open>auto dest: openat_context_same openat_context_checked split: option.splits\<close>)
    qed (use open_thread_run(1) [OF _ t] in auto)
  qed
qed

lemma fill_listing_run:
  assumes "fill_listing h w = Inr (w', r)"
  shows "w' = w" "r = Inr h' \<Longrightarrow> handle_about ty h' v = handle_about ty h v \<and> granted uid gid h' t v = granted uid gid h t v"
  using assms
  by (auto simp: fill_listing_def bindM_def handle_about_def granted_def needs_child_process_def needs_root_def
      split: proc_handle.splits context_kind.splits if_splits)

lemma set_statuses_handles [simp]: "fl_state (set_statuses s cs w) = fl_state w"
  unfolding set_statuses_def
  by (rule fold_invariant [where Q = "\<lambda>_. True" and P = "\<lambda>v. fl_state v = fl_state w"]) (simp_all add: upd_ctx_def)

lemma start_trace_handles:
  assumes "start_trace V h target i flags w = Inr (w', r)"
  shows "pq_handles (fl_state w') = pq_handles (fl_state w)" "r = Inl e \<Longrightarrow> e = Err EBUSY"
  using assms
  by (auto simp: start_trace_def bindM_def try_new_session_def upd_pt_def Let_def split: proc_handle.splits proc_kind.splits if_splits)

lemma new_handle_run:
  "new_handle h p v = Inr (v\<lparr>fl_state := (fl_state v)\<lparr>pq_next_id := pq_next_id (fl_state v) + 1,
     pq_handles := AList.update (unat (pq_next_id (fl_state v))) h (pq_handles (fl_state v))\<rparr>\<rparr>, Inr (unat (pq_next_id (fl_state v)), p))"
  by (simp add: new_handle_def upd_pq_def)

text \<open>The last part of an open, when the handle is known and allowed.\<close>

lemma open_stored:
  assumes "bindM (new_handle h positioned) (\<lambda>(i, int_fl). bindM (start_trace V h target i flags) (\<lambda>_. retM (i, int_fl))) w = Inr (w', r)"
  shows "case r of Inr (i, _) \<Rightarrow> map_of (pq_handles (fl_state w')) i = Some h | Inl e \<Rightarrow> e = Err EBUSY"
  using assms
  by (auto simp: new_handle_run update_conv split: sum.splits elim!: bindM_cases dest: start_trace_handles)

lemma open_checked:
  assumes "bindM (open_allowed h target uid gid) (\<lambda>_. bindM (fill_listing h) (\<lambda>h. bindM (new_handle h positioned) (\<lambda>(i, int_fl).
      bindM (start_trace V h target i flags) (\<lambda>_. retM (i, int_fl))))) w = Inr (w', r)" and "handle_about ty h (fl_procs w)"
  shows "case r of
      Inr (i, _) \<Rightarrow> \<exists>h'. map_of (pq_handles (fl_state w')) i = Some h' \<and> handle_about ty h' (fl_procs w) \<and> granted uid gid h target (fl_procs w)
    | Inl e \<Rightarrow> w' = w \<or> e = Err EBUSY"
  using assms(1)
proof (cases rule: bindM_cases)
  case (ok v x)
  with assms(2) have v: "v = w" "granted uid gid h target (fl_procs w)" by (auto dest: open_allowed_run)
  from ok(2) show ?thesis
  proof (cases rule: bindM_cases)
    case (ok u h')
    with v assms(2) have "u = w" "handle_about ty h' (fl_procs w)" "granted uid gid h target (fl_procs w)"
      using fill_listing_run(1) [of h w u] fill_listing_run(2) [of h w u _ h' ty "fl_procs w" uid gid target] by auto
    with open_stored [OF ok(2)] show ?thesis by (auto split: sum.splits)
  qed (use v in \<open>auto dest: fill_listing_run\<close>)
qed (auto dest: open_allowed_run)

text \<open>
  C35: Whoever opens a handle of the process scheme gets one on the process that was named (or on a thread of
  it).  The paths for tracing, registers, open files, memory and signal handling of a process, and for its
  session, open only for callers of user 0 or of group 0 (either is enough, although the code says \<open>unless root\<close>),
  for the process itself, and for an ancestor of it that shares its user or group, all in the state in which the
  open began; the paths for its user and group need both to be 0.  An open that fails has changed nothing,
  except that a second tracer is refused (\<open>EBUSY\<close>) only after its handle has been stored.  All other paths are
  not checked at all.
\<close>

theorem open_confined:
  assumes "open_inner V ty name flags uid gid w = Inr (w', r)"
  shows "case r of
      Inr (i, _) \<Rightarrow> \<exists>path h. name = Some path \<and> map_of (pq_handles (fl_state w')) i = Some h \<and> handle_about ty h (fl_procs w) \<and>
        (path \<in> control_paths \<longrightarrow> may_control uid gid (opened_process ty (fl_procs w)) (fl_procs w)) \<and> (path \<in> identity_paths \<longrightarrow> uid = 0 \<and> gid = 0)
    | Inl e \<Rightarrow> w' = w \<or> e = Err EBUSY"
  using assms unfolding open_inner_def
proof (cases rule: bindM_cases)
  case (ok v target)
  then have t: "v = w" "target = opened_process ty (fl_procs w)" by (auto dest: open_target_run)
  from ok(2) show ?thesis
  proof (cases rule: bindM_cases)
    case (ok v path)
    then have v: "v = w" "name = Some path" by (auto simp: t(1) ok_orM_def split: option.splits)
    from ok(2) show ?thesis
    proof (cases rule: bindM_cases)
      case (ok u hp)
      with v t(2) obtain h p where h: "hp = (h, p)" "u = w" "handle_about ty h (fl_procs w)" "path_checked path h" by (cases hp) (auto dest: open_handle_run)
      show ?thesis
      proof (cases "pr_status (px_proc (fl_procs w) target)")
        case (Exited e)
        with ok(2) h show ?thesis by auto
      qed (use ok(2) h v(2) t(2) open_checked [of h target uid gid p V flags w w' r ty] in
          \<open>auto simp: granted_def path_checked_def split: sum.splits\<close>)
    qed (use v t(2) in \<open>auto dest: open_handle_run\<close>)
  qed (auto simp: t(1) ok_orM_def split: option.splits)
qed (auto dest: open_target_run)

text \<open>Process 2 runs in context 7 as user 1000; its child 4 of the same user has context 8.\<close>

definition family_example :: proc_world where
  "family_example = \<lparr>px_sched = \<lparr>sc_ctx = [7 \<mapsto> (Context_new 2 0)\<lparr>ctx_status := Runnable, ctx_running := True\<rparr>, 8 \<mapsto> (Context_new 4 1)\<lparr>ctx_status := Runnable\<rparr>],
       sc_current = 7, sc_this_cpu = 0\<rparr>,
     px_proc = (\<lambda>p. \<lparr>pr_info = (example_info p)\<lparr>pi_ppid := (if p = 4 then 2 else 1), pi_euid := 1000, pi_egid := 1000\<rparr>, pr_status = PossiblyRunnable,
       pr_threads = (if p = 4 then [8] else [7]), pr_exits = [], pr_exit_cond = []\<rparr>),
     px_table = [2, 4], px_next_pid = 5, px_sig = (\<lambda>_. None), px_pctl = px_pctl example_procs, px_user = px_user example_procs\<rparr>"

definition tracing_example :: "(nat \<Rightarrow> (usize \<times> unit) option, unit, unit) prworld" where
  "tracing_example = \<lparr>fl_schemes = fl_schemes files_example, fl_procs = family_example, fl_tables = (\<lambda>_. []), fl_desc = fl_desc files_example, fl_refs = (\<lambda>_. 0), fl_next_desc = 1,
     fl_events = fl_events files_example,
     fl_state = \<lparr>pt_cfg = pc_cfg, pt_sessions = [], pt_session = (\<lambda>_. \<lparr>se_breakpoint = None, se_events = [], se_file_id = 0, se_tracee = [], se_tracer = [], se_waiting = 0\<rparr>),
       pt_next_session = 0, pt_cpu_flags = 0, pt_cpu_session = None, pq_mem = example_world, pq_handles = [], pq_next_id = 1, pq_regs = (\<lambda>_. ()), pq_kstack = (\<lambda>_. True),
       pq_name = (\<lambda>_. []), pq_ctl = (\<lambda>_. None), pq_strong = (\<lambda>_. 1), pq_next_table = 2\<rparr>\<rparr>"

definition env_example :: "unit proc_env" where
  "env_example = \<lparr>v_O_EXCL = 1, v_O_TRUNC = 2, v_O_NONBLOCK = 4, v_PTRACE_ALL = 31, v_STOP_OR_EVENT = 15, v_SINGLESTEP = 4, v_EVENT_CLONE = 8, v_EVENT_ADDRSPACE_SWITCH = 16,
     v_OP_MMAP = 0, v_OP_TRANSFER = 3, v_OP_MUNMAP = 1, v_OP_MPROTECT = 2, v_map_flags = (\<lambda>_. None), v_grant_desc = (\<lambda>_ _ _ _. []), v_GRANT_DESC_SIZE = 32,
     v_event_bytes = (\<lambda>_. replicate 48 0), v_EVENT_SIZE = 48, v_sighandler = (\<lambda>_. \<lparr>sh_user_handler = 4096, sh_excp_handler = 0, sh_thread_control = 0, sh_proc_control = 0\<rparr>),
     v_SIGHANDLER_SIZE = 32, v_SIGCONTROL_SIZE = 32, v_SIGPROC_SIZE = 1056, v_set_ip_sp = (\<lambda>_ _ r. r), v_singlestep = id, v_regs_size = (\<lambda>_. 8),
     v_regs_load = (\<lambda>_ _ r. Inr r), v_regs_save = (\<lambda>_ _. Inr (replicate 8 0))\<rparr>"

lemma tracing_example_fields [simp]:
  "fl_procs tracing_example = family_example" "pt_sessions (fl_state tracing_example) = []" "pq_next_id (fl_state tracing_example) = 1" "pq_handles (fl_state tracing_example) = []"
  "px_table family_example = [2, 4]" "current_pid family_example = 2" "pr_threads (px_proc family_example p) = (if p = 4 then [8] else [7])"
  "pr_status (px_proc family_example p) = PossiblyRunnable"
  "proc_info family_example p = (example_info p)\<lparr>pi_ppid := (if p = 4 then 2 else 1), pi_euid := 1000, pi_egid := 1000\<rparr>"
  "sc_ctx (px_sched family_example) 8 = Some ((Context_new 4 1)\<lparr>ctx_status := Runnable\<rparr>)" "sc_current (px_sched family_example) = 7"
  by (simp_all add: tracing_example_def family_example_def current_pid_def Context_new_def)

lemma tracing_open:
  "\<exists>w'. open_inner env_example (OpenProc 4) (Some ''trace'') 0 1000 1000 tracing_example = Inr (w', Inr (1, False))
     \<and> pq_handles (fl_state w') = [(1, HProcess 4 (Trace 4 [] False))]"
proof -
  have a: "open_allowed (HProcess 4 (Trace 4 [] False)) 4 1000 1000 tracing_example = Inr (tracing_example, Inr ())"
    by (simp add: open_allowed_def needs_child_process_def sysM_def current_info_eq example_info_def eval_nat_numeral)
  show ?thesis
    by (simp add: open_inner_def open_target_def sysM_def procM_get_process open_handle_def openat_process_def example_info_def env_example_def a fill_listing_def
        new_handle_run start_trace_def try_new_session_def session_of_def upd_pt_def bindM_def Let_def)
qed

theorem open_confined_witness:
  "\<exists>w'. open_inner env_example (OpenProc 4) (Some ''trace'') 0 1000 1000 tracing_example = Inr (w', Inr (1, False)) \<and>
     map_of (pq_handles (fl_state w')) 1 = Some (HProcess 4 (Trace 4 [] False)) \<and> may_control 1000 1000 4 family_example"
proof -
  obtain w' where w': "open_inner env_example (OpenProc 4) (Some ''trace'') 0 1000 1000 tracing_example = Inr (w', Inr (1, False))"
    "pq_handles (fl_state w') = [(1, HProcess 4 (Trace 4 [] False))]" using tracing_open by blast
  with open_confined [OF w'(1)] show ?thesis
    by (auto simp: control_paths_def opened_process_def)
qed

section \<open>Signal handles\<close>

lemma signal_thread_kill:
  assumes "plain_signal K (SIGKILL K)" "SIGKILL K \<noteq> 0" "sc_current (px_sched P) \<noteq> c"
  shows "send_signal K 2 (KThread c) (SIGKILL K) Idempotent False sender P = Inr (strike {c} P, Inr False)"
proof -
  have 2: "(2::nat) = Suc 1" by simp
  have "SIGKILL K \<le> 64" using assms(1) by (simp add: plain_signal_def)
  then show ?thesis unfolding 2 using send_core_kill [OF assms(1,2)] assms(3)
    by (simp add: signal_context_def bindM_def bindE_def getM_def retM_def)
qed

text \<open>
  C36: The check of the process scheme can be avoided.  Whatever user, group and relation the caller has, it can open
  the path \<open>signal\<close> of any process that has not exited, and a write of \<open>SIGKILL\<close> to that handle kills the
  thread, also where \<open>kill\<close> would refuse with \<open>EPERM\<close>.
\<close>

theorem signal_handle_unchecked:
  assumes target: "pid \<in> set (px_table (fl_procs w))" "pr_threads (px_proc (fl_procs w) pid) = c # ts" "sc_ctx (usched w) c \<noteq> None"
      "\<nexists>e. pr_status (px_proc (fl_procs w) pid) = Exited e"
    and K: "plain_signal KS (SIGKILL KS)" "SIGKILL KS \<noteq> 0"
    and caller: "current_pid (fl_procs w) \<in> set (px_table (fl_procs w))" "sc_current (usched w) \<noteq> c" "read_u32 buf (px_user (fl_procs w)) = Inr (px_user (fl_procs w), Inr (SIGKILL KS))"
  shows "\<exists>w' i. open_inner V (OpenProc pid) (Some ''signal'') flags uid gid w = Inr (w', Inr (i, False)) \<and>
    map_of (pq_handles (fl_state w')) i = Some (HContext c CtxSignal) \<and>
    context_write M F E V KS X exits others i c CtxSignal buf w' = Inr (w'\<lparr>fl_procs := strike {c} (fl_procs w)\<rparr>, Inr 4)"
proof -
  let ?i = "unat (pq_next_id (fl_state w))"
  let ?w = "w\<lparr>fl_state := (fl_state w)\<lparr>pq_next_id := pq_next_id (fl_state w) + 1, pq_handles := AList.update ?i (HContext c CtxSignal) (pq_handles (fl_state w))\<rparr>\<rparr>"
  have "open_inner V (OpenProc pid) (Some ''signal'') flags uid gid w = Inr (?w, Inr (?i, False))"
    using target
    by (cases "pr_status (px_proc (fl_procs w) pid)")
      (simp_all add: open_inner_def open_target_def sysM_def procM_get_process open_handle_def openat_process_def openat_context_def first_thread_def open_allowed_def
        needs_child_process_def needs_root_def fill_listing_def new_handle_run start_trace_def bindM_def Let_def)
  moreover have "context_write M F E V KS X exits others ?i c CtxSignal buf ?w = Inr (?w\<lparr>fl_procs := strike {c} (fl_procs w)\<rparr>, Inr 4)"
    using caller signal_thread_kill [OF K, of "fl_procs w" c]
    by (simp add: context_write_def write_signal_def sysM_def current_info_eq userM_def procM_def bindM_def bindE_def)
  ultimately show ?thesis by (intro exI [of _ ?w] exI [of _ ?i]) (simp add: update_conv)
qed

definition kill_example :: "(nat \<Rightarrow> (usize \<times> unit) option, unit, unit) prworld" where
  "kill_example = tracing_example\<lparr>fl_procs := family_example\<lparr>px_user := \<lparr>um_byte = \<lambda>a. if a = 4096 then 9 else 0, um_readable = \<lambda>_. True, um_writable = \<lambda>_. True\<rparr>\<rparr>\<rparr>"

theorem signal_handle_witness:
  "\<forall>M F E X exits others. \<exists>w' i. open_inner env_example (OpenProc 4) (Some ''signal'') 0 77 77 kill_example = Inr (w', Inr (i, False)) \<and>
    context_write M F E env_example example_sigs X exits others i 8 CtxSignal \<lparr>us_base = 4096, us_len = 4\<rparr> w' =
      Inr (w'\<lparr>fl_procs := strike {8} (fl_procs kill_example)\<rparr>, Inr 4)"
proof -
  have "read_u32 \<lparr>us_base = 4096, us_len = 4\<rparr> (px_user (fl_procs kill_example)) = Inr (px_user (fl_procs kill_example), Inr (SIGKILL example_sigs))"
    by (simp add: read_u32_def read_word_def UserSlice_limit_def copy_to_slice_def copy_from_user_spec kill_example_def example_sigs_def ok_orM_def bindM_def bindE_def
        upt_rec UserSlice_split_at_def)
  then show ?thesis
    using signal_handle_unchecked [of 4 kill_example 8 "[]" example_sigs "\<lparr>us_base = 4096, us_len = 4\<rparr>" env_example 0 77 77]
    by (fastforce simp: kill_example_def family_example_def tracing_example_def plain_signal_def example_sigs_def current_pid_def Context_new_def)
qed

section \<open>Writing to a trace handle\<close>

lemma unblock_hard:
  assumes "sc_ctx S c = Some x" "ctx_status x = HardBlocked r"
  shows "sc_ctx (fold unblock_ref ds S) c = Some x"
  using assms(1)
proof (induction ds arbitrary: S)
  case (Cons d ds)
  then have "sc_ctx (unblock_ref d S) c = Some x"
    using assms(2) by (auto simp: unblock_ref_def ctx_unblock_def unblock_no_ipi_def is_soft_blocked_def split: option.splits)
  with Cons.IH show ?case by simp
qed simp

lemma set_statuses_ctx:
  "sc_ctx (usched (set_statuses s cs w)) c = (if c \<in> set cs then map_option (\<lambda>x. x\<lparr>ctx_status := s\<rparr>) (sc_ctx (usched w) c) else sc_ctx (usched w) c)"
  unfolding set_statuses_def
  by (induction cs arbitrary: w) (auto simp: upd_ctx_def set_thread_def option.map_comp comp_def)

lemma set_statuses_proc [simp]: "px_proc (fl_procs (set_statuses s cs w)) = px_proc (fl_procs w)"
  unfolding set_statuses_def
  by (rule fold_invariant [where Q = "\<lambda>_. True" and P = "\<lambda>v. px_proc (fl_procs v) = px_proc (fl_procs w)"]) (simp_all add: upd_ctx_def set_thread_def)

definition stopped :: "nat \<Rightarrow> ('m, 'f, 'r) prworld \<Rightarrow> bool" where
  "stopped p w \<longleftrightarrow> (\<forall>c\<in>set (live_threads p w). \<forall>ds. \<exists>x. sc_ctx (fold unblock_ref ds (usched w)) c = Some x \<and> ctx_status x = HardBlocked PtraceStop)"

lemma stop_all: "stopped p (set_statuses (HardBlocked PtraceStop) (live_threads p w) w)"
proof -
  have "\<exists>x. sc_ctx (usched (set_statuses (HardBlocked PtraceStop) (live_threads p w) w)) c = Some x \<and> ctx_status x = HardBlocked PtraceStop"
    if "c \<in> set (live_threads p (set_statuses (HardBlocked PtraceStop) (live_threads p w) w))" for c
    using that by (auto simp: live_threads_def set_statuses_ctx split: if_splits)
  then show ?thesis unfolding stopped_def by (blast dest: unblock_hard)
qed

lemma notify_tracee_procs: "\<exists>ds. fl_procs (notify_tracee s w) = (fl_procs w)\<lparr>px_sched := fold unblock_ref ds (usched w)\<rparr>"
  by (auto simp: notify_tracee_def wc_notify_def upd_sched_def upd_session_def upd_pt_def)

lemma live_threads_notify: "live_threads p (notify_tracee s w) = live_threads p w"
proof -
  have "(sc_ctx (fold unblock_ref ds S) c = None) = (sc_ctx S c = None)" for ds S c
    by (induction ds arbitrary: S) (auto simp: unblock_ref_def split: option.splits)
  with notify_tracee_procs [of s w] show ?thesis by (auto simp del: not_None_eq simp: live_threads_def)
qed

lemma notify_tracee_stopped:
  assumes "stopped p w"
  shows "stopped p (notify_tracee s w)"
proof -
  obtain ds where n: "fl_procs (notify_tracee s w) = (fl_procs w)\<lparr>px_sched := fold unblock_ref ds (usched w)\<rparr>"
    using notify_tracee_procs by blast
  have "\<exists>x. sc_ctx (fold unblock_ref es (fold unblock_ref ds (usched w))) c = Some x \<and> ctx_status x = HardBlocked PtraceStop"
    if "c \<in> set (live_threads p w)" for c es
    using assms that unfolding stopped_def by (metis fold_append comp_apply)
  then show ?thesis by (simp add: stopped_def live_threads_notify n)
qed

text \<open>
  C37: A tracer that writes to its trace handle, whatever it asks for, leaves every thread of the process
  stopped, so firmly that no notification of a condition can wake it: the loop that is meant to clear the stop
  before the tracee goes on sets it.
\<close>

theorem trace_write_stops:
  assumes "write_trace V others p pid buf w = Inr (w', Inr n)"
  shows "stopped p w'"
proof -
  have "\<exists>v s. w' = notify_tracee s (set_statuses (HardBlocked PtraceStop) (live_threads p v) v)"
    using assms
    by (auto simp: write_trace_def bindM_Inr_iff Let_def with_session_def ok_orM_def split: if_splits option.splits)
  then show ?thesis by (auto intro: notify_tracee_stopped stop_all)
qed

definition traced_example :: "(nat \<Rightarrow> (usize \<times> unit) option, unit, unit) prworld" where
  "traced_example = fst (try_new_session 4 1 tracing_example)"

lemma traced_example_fields [simp]: "fl_procs traced_example = family_example" "pt_sessions (fl_state traced_example) = [(4, 0)]"
  by (simp_all add: traced_example_def try_new_session_def session_of_def upd_pt_def tracing_example_def)

lemma set_breakpoint_fields [simp]: "fl_procs (set_breakpoint s f w) = fl_procs w" "session_of pid (set_breakpoint s f w) = session_of pid w"
  by (simp_all add: set_breakpoint_def upd_session_def upd_pt_def session_of_def)

lemma session_of_statuses [simp]: "session_of pid (set_statuses s cs w) = session_of pid w"
  by (simp add: session_of_def)

lemma traced_write:
  "\<exists>w'. write_trace env_example [] 4 4 \<lparr>us_base = 4096, us_len = 8\<rparr> traced_example = Inr (w', Inr 8) \<and> live_threads 4 w' = [8]"
proof -
  let ?b = "\<lparr>us_base = 4096, us_len = 8\<rparr>"
  let ?v = "set_breakpoint 0 None traced_example"
  let ?u = "set_statuses (HardBlocked PtraceStop) (live_threads 4 ?v) ?v"
  have "arch_copy_from_user 4096 8 (px_user family_example) = Some [0, 0, 0, 0, 0, 0, 0, 0]"
    by (simp add: copy_from_user_spec family_example_def example_procs_def upt_rec)
  then have "read_u64 ?b (px_user family_example) = Inr (px_user family_example, Inr 0)"
    by (simp add: read_u64_def read_word_def UserSlice_limit_def UserSlice_split_at_def copy_to_slice_def)
  then have rd: "sysM (userM (read_u64 ?b)) traced_example = Inr (traced_example, Inr 0)"
    using traced_example_fields(1) by (simp add: sysM_def userM_def)
  have ops: "(0 AND NOT (v_PTRACE_ALL env_example)) = 0" "v_SINGLESTEP env_example \<noteq> 0" "0 AND v_STOP_OR_EVENT env_example = 0"
    by (simp_all add: env_example_def)
  have so: "session_of 4 traced_example = Some 0" by (simp add: session_of_def)
  have first: "first_thread 4 ?v = Inr (?v, Inr 8)" by (simp add: first_thread_def)
  have ws: "with_session 4 body v = body 0 v" if "session_of 4 v = Some 0" for v :: "(nat \<Rightarrow> (usize \<times> unit) option, unit, unit) prworld" and body :: "nat \<Rightarrow> (_, _, _, unit) prprog"
    using that by (simp add: with_session_def)
  have "write_trace env_example [] 4 4 ?b traced_example = Inr (notify_tracee 0 ?u, Inr 8)"
    by (simp add: write_trace_def rd ops ws so first)
  moreover have "live_threads 4 (notify_tracee 0 ?u) = [8]"
    by (simp add: live_threads_notify) (simp add: live_threads_def set_statuses_ctx)
  ultimately show ?thesis by blast
qed

theorem trace_write_stops_witness:
  "\<exists>w'. write_trace env_example [] 4 4 \<lparr>us_base = 4096, us_len = 8\<rparr> traced_example = Inr (w', Inr 8) \<and> live_threads 4 w' = [8] \<and> stopped 4 w'"
  using traced_write trace_write_stops by blast

section \<open>Breakpoints and control words\<close>

text \<open>A tracee stops at a breakpoint only when the breakpoint was not asked for.\<close>

lemma breakpoint_inverted:
  assumes "pt_cpu_flags (fl_state w) AND match_flags = match_flags"
  shows "breakpoint_callback pending match_flags event others w = Inr (w, Inr None)"
  using assms by (simp add: breakpoint_callback.simps)

text \<open>A control word at the very end of its page is accepted, and the first use of it panics.\<close>

lemma control_word_panics:
  assumes "addr mod 8 = 0" "addr mod PAGE_BYTES + v_SIGCONTROL_SIZE V = PAGE_BYTES" "sg_thread_off sig = addr mod PAGE_BYTES"
  shows "validate_off addr (v_SIGCONTROL_SIZE V) w = Inr (w, Inr (sg_thread_off sig)) \<and> (\<exists>p. sigcontrol_raw V sig = Inl p)"
proof
  have "(8 :: nat) dvd PAGE_BYTES" by simp
  then have "addr mod PAGE_BYTES mod 8 = 0" using assms(1) by (metis mod_mod_cancel)
  with assms(2,3) show "validate_off addr (v_SIGCONTROL_SIZE V) w = Inr (w, Inr (sg_thread_off sig))" by (simp only: validate_off_def Let_def prog_run) simp
  have "\<not> u_sat_add (sg_thread_off sig) (v_SIGCONTROL_SIZE V) < PAGE_BYTES" using assms(2,3) by (simp add: u_sat_add_def USIZE_LIM_def)
  then show "\<exists>p. sigcontrol_raw V sig = Inl p" by (simp add: sigcontrol_raw_def Let_def assertE_def)
qed

end
