(* ===== verification/Spec2Isabelle.thy ===== *)
theory Spec2Isabelle
  imports Kernel_Monad Frame_Allocator Frame_Refs Page_Span Grant_Info User_Grants Cpu_Set Tlb_Flush Addr_Space Fault_Correct Context_Core User_Copy Wait_Sync Event_Queue Pipe_Scheme Scheduler Futex Process_Signals Scheme_List File_Balance User_Interleaving User_Capture Memory_Calls Proc_Safety
begin

text \<open>
  A verification development for the microkernel under \<open>src/src\<close>: physical memory, address spaces,
  scheduling, processes, blocking, files, schemes, and calls to user space servers.

  \<^bold>\<open>How the program is put together.\<close>  The frame allocator (\<open>memory/mod.rs\<close>) hands out reference counted
  frames.  An address space (\<open>context/memory.rs\<close>) maps them at user pages, keeps a set of grants that say
  what backs which pages, and resolves page faults.  Contexts (\<open>context/context.rs\<close>) are threads; the
  scheduler (\<open>context/switch.rs\<close>, \<open>percpu.rs\<close>) switches between them, and wait conditions, queues and maps
  (\<open>sync\<close>), events (\<open>event.rs\<close>), timeouts, pipes and futexes block and wake them.  Processes
  (\<open>context/process.rs\<close>, \<open>syscall/process.rs\<close>) group contexts and carry identities, signals and exit
  status.  A file descriptor of a context refers to a description, which names a scheme and a number
  (\<open>syscall/fs.rs\<close>); schemes live in namespaces (\<open>scheme/mod.rs\<close>, \<open>scheme/root.rs\<close>).  Most schemes are user
  space servers: \<open>scheme/user.rs\<close> turns a call into a message, maps the buffers of the caller into the
  server, and puts the caller to sleep until the server answers.

  \<^bold>\<open>How it is modelled.\<close>  Structs are records, enums are datatypes, one definition per function, in the
  order of the source.  Rust panics (assertions, \<open>expect\<close>, index errors) are \<open>Inl\<close> of the type \<open>exec\<close>, errors
  are values of \<open>errno\<close>, and code on shared state is a program of \<open>Kernel_Monad\<close>, which passes the state on,
  keeps it when an error is returned, and runs the destructors that the source runs.  Words have 64 bits:
  as \<open>64 word\<close> where bits are used, and as natural numbers with the wrap-around written out for addresses.
  Shared objects (\<open>Arc\<close>) live in heaps indexed by numbers, with counts where the last reference matters.  A
  context switch takes the effect of all other contexts as an argument, or is the border between two steps
  of a step relation.

  \<^bold>\<open>Foundations.\<close>
  \<^item> \<open>Kernel_Prelude\<close>, \<open>Kernel_Monad\<close>: panics, error numbers, programs, their laws; \<open>Prog_Logic\<close>: total
    correctness \<open>runs m s Q\<close> with a rule per construct, and loops with invariants.
  \<^item> \<open>BTree_Map\<close>: ordered maps, with the laws as a locale that the sorted lists satisfy.

  \<^bold>\<open>Physical memory.\<close>
  \<^item> \<open>Page_Info\<close>: \<open>Frame\<close>, \<open>P2Frame\<close> and the packed reference count, which refines a counter with a kind.
  \<^item> \<open>Buddy_Blocks\<close>: tilings by aligned blocks.  \<open>Frame_Store\<close>: the sections and their binary search.
    \<open>Free_List\<close>: the linked lists inside the metadata, proved over a locale of stores and interpreted on
    the sections.  \<open>Frame_Allocator\<close>: allocation with splitting and freeing with merging; the invariant says
    that free, live and reserved blocks tile the memory, and no history of calls panics or overlaps.
  \<^item> \<open>Frame_Refs\<close>: reference counted frames on top of the allocator.

  \<^bold>\<open>Address spaces.\<close>
  \<^item> \<open>Page_Span\<close>, \<open>Grant_Info\<close>: pages, spans, grants and their extraction.  \<open>User_Grants\<close>: the map of grants
    with its index of holes, which refines a function from pages to backings.
  \<^item> \<open>Cpu_Set\<close>, \<open>Tlb_Flush\<close>: processor sets, and frees that wait for the shootdown.
  \<^item> \<open>Kernel_World\<close>, \<open>Page_Fault\<close>, \<open>Grant_Ops\<close>, \<open>Addr_Space\<close>: the state of the memory manager, faults and
    copy on write, the operations of \<open>Grant\<close>, and \<open>mmap\<close>, \<open>munmap\<close>, \<open>mprotect\<close>, \<open>move\<close>, cloning and drop.
  \<^item> \<open>Mem_Accounting\<close>, \<open>Space_Books\<close>: the books of frame references.  \<open>Munmap_Correct\<close>, \<open>Fault_Correct\<close>:
    unmapping and page faults never panic, change exactly what they should and keep the books.
  \<^item> \<open>Memory_Calls\<close>: the calls on memory and the memory scheme.

  \<^bold>\<open>Contexts and blocking.\<close>
  \<^item> \<open>Context_Core\<close>: status and file tables.  \<open>User_Copy\<close>: access to user memory.  \<open>Wait_Sync\<close>: conditions,
    queues and maps, with an invariant over all interleavings.  \<open>Event_Queue\<close>, \<open>Pipe_Scheme\<close>, \<open>Futex\<close>: events,
    timeouts, pipes and futexes.  \<open>Scheduler\<close>: a switch is cut into the steps between which other processors
    act (search and exchange under the lock, leaving the old address space and entering the new one after it);
    at most one processor runs a context, the sets of users of an address space follow the steps, and every
    runnable context gets its turn.

  \<^bold>\<open>Processes, files and schemes.\<close>
  \<^item> \<open>Process_Table\<close>, \<open>Process_Signals\<close>: identities, waiting, signals and exit; \<open>kill\<close> equals a
    description of whom it reaches and where it stops.
  \<^item> \<open>Scheme_List\<close>: namespaces and the root scheme.  \<open>File_Calls\<close>: descriptions and the calls on files, with
    the operations of the schemes as a record of functions; \<open>File_Balance\<close>: the references of descriptions
    over every sequence of calls, and positions.  What the calls need of the schemes is the locale \<open>accounting\<close>:
    a scheme may keep and hand on descriptors, but counts its references.  It is interpreted on the root schemes
    beside schemes with the default operations of the trait.
  \<^item> \<open>User_Scheme\<close>: the calls of user space schemes.  \<open>User_Calls\<close>: an abstract protocol of tags as a step
    relation and a locale for what implements it.  \<open>User_Interleaving\<close>: callers, servers, signals (also those
    that stop a caller), kills and unmounting in any order implement the protocol; the locale is interpreted on
    the operations.  The table may keep slots that were given up; the theorem says in which three ways.
    \<open>User_Capture\<close>: the buffers of a call and every operation of \<open>UserScheme\<close>.
  \<^item> \<open>Ptrace_Session\<close>: tracing sessions.  \<open>Proc_Scheme\<close>, \<open>Proc_Calls\<close>, \<open>Proc_IO\<close>: the process scheme
    (\<open>scheme/proc.rs\<close>): opening handles on processes and contexts, the operations on them, and what reading and
    writing each kind of handle does.  \<open>Proc_Safety\<close>: who may open which handle, which handles nobody checks,
    and what a tracer does to its tracee.

  \<^bold>\<open>Bounds.\<close>  The loop of \<open>munmap\<close> has fuel for one round more than the span has pages, and every round
  shortens the span.  A page fault recurses through borrowed memory at most as often as the source allows,
  which counts to sixteen.  \<open>send_signal\<close> calls itself for the signal to a parent, which sends none, so two
  levels are enough.  Loops that wait take a list with the effects of the others, one per switch; a list
  that is too short gives \<open>None\<close> or \<open>Asleep\<close>, a run that has not returned yet.

  \<^bold>\<open>Parameters.\<close>  Code of other crates is an argument: the page table mapper and page flags (\<open>mapper_ops\<close>,
  \<open>flag_ops\<close>, with \<open>mapper_laws\<close> and \<open>flag_laws\<close>), numbers and layouts of the system call and scheme crates
  (\<open>sig_consts\<close>, \<open>wait_env\<close>, \<open>fs_consts\<close>, \<open>proc_env\<close>, \<open>crate_ops\<close> with \<open>crate_laws\<close>), the slab's choice of a free slot, the
  path parser, and the answers of file servers in a page fault.  The calls on files take the operations of the
  schemes as an argument as well, with the locale \<open>accounting\<close> as their contract.  Each law is satisfied by a concrete instance in the witnesses.

  \<^bold>\<open>Not modelled.\<close>  Assembly, descriptor tables, interrupt controllers, timers, serial ports and firmware
  tables of the four architectures are hardware access; saved registers and kernel stacks have a layout per
  architecture and are opaque values of the process scheme.  The boot sequence and the discovery of memory
  run once on data of the boot loader and on the page tables of an external crate.  The kernel heap is an
  external crate.  Schemes that only format text or forward to modelled operations keep no state of their
  own.  Relaxed memory ordering is not modelled: atomic operations are sequentially consistent, and code
  that holds a lock is one step.
\<close>

end
